(* ===== verification/HaloFPX_Prelude.thy ===== *)
theory HaloFPX_Prelude
  imports Main "HOL-Library.Word" "HOL-Library.Monad_Syntax"
begin

text \<open>
  Shared vocabulary of the development: the machine types of the C++ sources
  (\<^verbatim>\<open>uint8_t\<close>, \<^verbatim>\<open>uint32_t\<close>, \<^verbatim>\<open>uint64_t\<close>), borrowed pointer/size views, big-endian
  integer encodings, the accumulate-and-test loops that the sources use for
  constant-time comparison and for the all-zero test, and the theorem
  collections that the component theories fill.

  Conventions. A \<^verbatim>\<open>std::array<uint8_t, N>\<close> is a byte list whose length is stated
  by a well-formedness predicate; a \<^verbatim>\<open>context_store_registered_id\<close> is the list of
  its first \<^verbatim>\<open>size\<close> bytes, the only ones any function reads; a
  \<^verbatim>\<open>size_t\<close> that only counts bytes of an in-memory buffer is a \<open>nat\<close>; a
  \<^verbatim>\<open>uint64_t\<close> field is a \<open>64 word\<close>. Wiping of stack buffers has no effect on a
  result and is not modelled.
\<close>

unbundle bit_operations_syntax

type_synonym byte = "8 word"
type_synonym u32 = "32 word"
type_synonym u64 = "64 word"
type_synonym digest = "byte list"
type_synonym registered_id = "byte list"

named_theorems wire_simps \<open>length and shape of encoded fields\<close>
named_theorems sim_simps \<open>unfoldings of the simulator's bookkeeping\<close>

subsection \<open>Borrowed views\<close>

text \<open>
  A pointer/size pair. A null pointer may come with any size; a non-null one
  carries exactly its bytes.
\<close>

datatype byte_span = NullSpan nat | Span "byte list"

fun span_size :: "byte_span \<Rightarrow> nat" where
  "span_size (NullSpan n) = n"
| "span_size (Span bs) = length bs"

fun span_bytes :: "byte_span \<Rightarrow> byte list" where
  "span_bytes (NullSpan n) = []"
| "span_bytes (Span bs) = bs"

fun span_null :: "byte_span \<Rightarrow> bool" where
  "span_null (NullSpan n) = True"
| "span_null (Span bs) = False"

subsection \<open>Big-endian integers\<close>

definition be_bytes :: "nat \<Rightarrow> u64 \<Rightarrow> byte list" where
  "be_bytes n v = map (\<lambda>i. ucast (drop_bit (8 * i) v)) (rev [0..<n])"

definition be_value :: "byte list \<Rightarrow> u64" where
  "be_value bs = foldl (\<lambda>acc b. push_bit 8 acc OR ucast b) 0 bs"

definition be_nat :: "byte list \<Rightarrow> nat" where
  "be_nat bs = foldl (\<lambda>acc b. 256 * acc + unat b) 0 bs"

lemma length_be_bytes [simp, wire_simps]: "length (be_bytes n v) = n"
  by (simp add: be_bytes_def)

lemma be_bytes_Suc: "be_bytes (Suc n) v = ucast (drop_bit (8 * n) v) # be_bytes n v"
  by (simp add: be_bytes_def)

lemma be_bytes_0 [simp]: "be_bytes 0 v = []"
  by (simp add: be_bytes_def)

lemma unat_ucast_byte: "unat (ucast (b :: byte) :: u64) = unat b"
  using unsigned_less [of b, where ?'a = nat]
  by (simp add: unsigned_ucast_eq take_bit_nat_eq_self)

lemma unat_shift_or:
  fixes acc :: u64 and b :: byte
  shows "unat (push_bit 8 acc OR ucast b) = (256 * unat acc + unat b) mod 2 ^ 64"
proof -
  have disj: "push_bit 8 acc AND ucast b = 0"
    by (rule bit_word_eqI) (auto simp: bit_simps dest: bit_imp_le_length)
  have "push_bit 8 acc OR ucast b = push_bit 8 acc + ucast b"
    using disjunctive_add_eq_or [OF disj] by simp
  also have "\<dots> = 256 * acc + ucast b"
    by (simp add: push_bit_eq_mult)
  finally have *: "push_bit 8 acc OR ucast b = 256 * acc + ucast b" .
  have "unat (256 * acc + (ucast b :: u64)) = (256 * unat acc + unat b) mod 2 ^ 64"
    using unat_ucast_byte [of b] by (simp add: unat_word_ariths mod_simps)
  then show ?thesis by (simp add: *)
qed

lemma unat_be_value: "unat (be_value bs) = be_nat bs mod 2 ^ 64"
proof (induction bs rule: rev_induct)
  case Nil
  then show ?case by (simp add: be_value_def be_nat_def)
next
  case (snoc b bs)
  have "unat (be_value (bs @ [b])) = (256 * unat (be_value bs) + unat b) mod 2 ^ 64"
    using unat_shift_or [of "be_value bs" b] by (simp add: be_value_def)
  also have "\<dots> = (256 * be_nat bs + unat b) mod 2 ^ 64"
    using mod_add_left_eq [of "256 * (be_nat bs mod 2 ^ 64)" "2 ^ 64" "unat b"]
      mod_add_left_eq [of "256 * be_nat bs" "2 ^ 64" "unat b"]
    by (simp only: snoc.IH mod_mult_right_eq)
  finally show ?case by (simp add: be_nat_def)
qed

lemma be_nat_foldl: "foldl (\<lambda>acc b. 256 * acc + unat (b :: byte)) a bs = a * 256 ^ length bs + be_nat bs"
proof (induction bs arbitrary: a)
  case Nil
  then show ?case by (simp add: be_nat_def)
next
  case (Cons b bs)
  have "be_nat (b # bs) = unat b * 256 ^ length bs + be_nat bs"
    using Cons.IH [of "unat b"] by (simp add: be_nat_def)
  then show ?case using Cons.IH [of "256 * a + unat b"] by (simp add: algebra_simps)
qed

lemma be_nat_Cons: "be_nat (b # bs) = unat b * 256 ^ length bs + be_nat bs"
  using be_nat_foldl [of "unat b" bs] by (simp add: be_nat_def)

lemma be_nat_Nil [simp]: "be_nat [] = 0"
  by (simp add: be_nat_def)

lemma be_nat_bound: "be_nat bs < 256 ^ length bs"
proof (induction bs)
  case (Cons b bs)
  have "unat b * 256 ^ length bs + be_nat bs < (unat b + 1) * 256 ^ length bs"
    using Cons.IH by (simp add: algebra_simps)
  also have "\<dots> \<le> 256 * 256 ^ length bs"
    using unsigned_less [of b, where ?'a = nat] by (intro mult_right_mono) simp_all
  finally show ?case by (simp add: be_nat_Cons)
qed simp

lemma be_nat_inj: "length xs = length ys \<Longrightarrow> be_nat xs = be_nat ys \<Longrightarrow> xs = ys"
proof (induction xs ys rule: list_induct2)
  case (Cons x xs y ys)
  let ?k = "256 ^ length xs :: nat"
  have eq: "unat x * ?k + be_nat xs = unat y * ?k + be_nat ys"
    using Cons.prems Cons.hyps by (simp add: be_nat_Cons)
  have lt: "be_nat xs < ?k" "be_nat ys < ?k"
    using be_nat_bound [of xs] be_nat_bound [of ys] Cons.hyps by simp_all
  have "(unat x * ?k + be_nat xs) div ?k = unat x" "(unat y * ?k + be_nat ys) div ?k = unat y"
    using lt by simp_all
  with eq have "unat x = unat y" by simp
  moreover from this eq have "be_nat xs = be_nat ys" by simp
  ultimately show ?case using Cons.IH by (simp add: word_unat_eq_iff)
qed simp

lemma pow256: "(256 :: nat) ^ n = 2 ^ (8 * n)"
  by (simp add: power_mult)

lemma unat_drop_bit_div: "unat (drop_bit k (v :: u64)) = unat v div 2 ^ k"
proof -
  have "unat (drop_bit k v) = drop_bit k (take_bit 64 (unat v))"
    using unsigned_drop_bit_eq [of k v, where ?'a = nat] by simp
  also have "take_bit 64 (unat v) = unat v"
    using unsigned_less [of v, where ?'a = nat] by (simp add: take_bit_nat_eq_self)
  finally show ?thesis by (simp only: drop_bit_eq_div)
qed

lemma be_nat_be_bytes: "be_nat (be_bytes n v) = unat v mod 256 ^ n"
proof (induction n)
  case (Suc n)
  have "unat (ucast (drop_bit (8 * n) v) :: byte) = unat v div 256 ^ n mod 256"
    by (simp only: unsigned_ucast_eq unat_drop_bit_div take_bit_eq_mod pow256) simp
  then have "be_nat (be_bytes (Suc n) v) = (unat v div 256 ^ n mod 256) * 256 ^ n + unat v mod 256 ^ n"
    by (simp add: be_bytes_Suc be_nat_Cons Suc.IH)
  also have "\<dots> = unat v mod 256 ^ Suc n"
    by (metis add.commute mod_mult2_eq mult.commute power_Suc2)
  finally show ?case .
qed simp

lemma be_value_be_bytes: "unat v < 256 ^ n \<Longrightarrow> be_value (be_bytes n v) = v"
  using unsigned_less [of v, where ?'a = nat]
  by (simp add: word_unat_eq_iff unat_be_value be_nat_be_bytes)

lemma unat_be_value_bound:
  assumes "length bs \<le> 8"
  shows "unat (be_value bs) = be_nat bs"
proof -
  have "be_nat bs < 256 ^ 8"
    using be_nat_bound [of bs] power_increasing [OF assms, of "256 :: nat"] by linarith
  then show ?thesis by (simp add: unat_be_value)
qed

lemma be_bytes_be_value:
  assumes "length bs = n" and "n \<le> 8"
  shows "be_bytes n (be_value bs) = bs"
proof (rule be_nat_inj)
  show "length (be_bytes n (be_value bs)) = length bs" using assms by simp
  show "be_nat (be_bytes n (be_value bs)) = be_nat bs"
    using assms be_nat_bound [of bs] by (simp add: be_nat_be_bytes unat_be_value_bound)
qed

lemma unat_u64_bound: "unat (v :: u64) < 256 ^ 8"
  using unsigned_less [of v, where ?'a = nat] by (simp add: pow256)

lemma be_bytes_inj:
  "be_bytes 8 v = be_bytes 8 w \<Longrightarrow> v = w"
  by (metis be_value_be_bytes unat_u64_bound)

subsection \<open>Accumulate-and-test loops\<close>

text \<open>
  \<open>for (byte : value) combined |= byte; return combined != 0;\<close> and
  \<open>difference |= left[i] ^ right[i]; return difference == 0;\<close> occur in almost every
  component.
\<close>

definition nonzero :: "byte list \<Rightarrow> bool" where
  "nonzero bs \<longleftrightarrow> foldl (\<lambda>combined b. combined OR b) 0 bs \<noteq> 0"

definition ct_equal :: "byte list \<Rightarrow> byte list \<Rightarrow> bool" where
  "ct_equal xs ys \<longleftrightarrow> foldl (\<lambda>difference (l, r). difference OR (l XOR r)) 0 (zip xs ys) = 0"

lemma foldl_or_zero: "foldl (\<lambda>c b. c OR (b :: byte)) a bs = 0 \<longleftrightarrow> a = 0 \<and> (\<forall>b \<in> set bs. b = 0)"
  by (induction bs arbitrary: a) (auto simp: or_eq_0_iff)

lemma nonzero_iff: "nonzero bs \<longleftrightarrow> (\<exists>b \<in> set bs. b \<noteq> 0)"
  by (auto simp: nonzero_def foldl_or_zero)

lemma byte_xor_zero: "(l :: byte) XOR r = 0 \<longleftrightarrow> l = r"
proof
  assume "l XOR r = 0"
  then have "(l XOR r) XOR r = r" by simp
  then show "l = r" by (simp add: xor.assoc)
qed simp

lemma foldl_diff_zero:
  "foldl (\<lambda>d (l, r). d OR (l XOR (r :: byte))) a ps = 0 \<longleftrightarrow> a = 0 \<and> (\<forall>(l, r) \<in> set ps. l = r)"
  by (induction ps arbitrary: a) (auto simp: or_eq_0_iff byte_xor_zero)

lemma ct_equal_iff [simp]: "length xs = length ys \<Longrightarrow> ct_equal xs ys \<longleftrightarrow> xs = ys"
  by (induction xs ys rule: list_induct2)
    (auto simp: ct_equal_def foldl_diff_zero byte_xor_zero)

end
