(* ===== verification/Cbor.thy ===== *)
theory Cbor
  imports HaloFPX_Prelude
begin

text \<open>
  The deterministic CBOR subset all wire forms of the store share. The sources
  repeat a head reader and a head writer in every file; this theory holds the
  common vocabulary: a reader is a function of a cursor (position and bytes left)
  that fails with a value or returns a result and the advanced cursor, the
  reference head encoding is \<^verbatim>\<open>cbor_head\<close>, and the contract of a head reader is
  the locale \<^verbatim>\<open>head_reader\<close>: it accepts exactly the shortest-form heads. The facts
  proved in the locale (keys, fixed byte strings, text strings) carry the format
  proofs of every file whose reader is shown to satisfy the contract.
\<close>

subsection \<open>Readers\<close>

type_synonym cursor = "nat \<times> byte list"
type_synonym ('e, 'a) reader = "cursor \<Rightarrow> 'e + 'a \<times> cursor"

definition bind_reader :: "('e, 'a) reader \<Rightarrow> ('a \<Rightarrow> ('e, 'b) reader) \<Rightarrow> ('e, 'b) reader" where
  "bind_reader P f c = (case P c of Inl e \<Rightarrow> Inl e | Inr (a, c1) \<Rightarrow> f a c1)"

definition return_reader :: "'a \<Rightarrow> ('e, 'a) reader" where
  "return_reader a c = Inr (a, c)"

definition fail_reader :: "(nat \<Rightarrow> 'e) \<Rightarrow> ('e, 'a) reader" where
  "fail_reader e c = Inl (e (fst c))"

definition check :: "(nat \<Rightarrow> 'e) \<Rightarrow> bool \<Rightarrow> ('e, unit) reader" where
  "check e b = (if b then return_reader () else fail_reader e)"

definition take_bytes :: "(nat \<Rightarrow> 'e) \<Rightarrow> nat \<Rightarrow> ('e, byte list) reader" where
  "take_bytes e n c =
     (if n > length (snd c) then Inl (e (fst c))
      else Inr (take n (snd c), (fst c + n, drop n (snd c))))"

definition next_byte :: "(nat \<Rightarrow> 'e) \<Rightarrow> ('e, byte) reader" where
  "next_byte e c = (case snd c of [] \<Rightarrow> Inl (e (fst c)) | b # bs \<Rightarrow> Inr (b, (fst c + 1, bs)))"

definition peek_bytes :: "(nat \<Rightarrow> 'e) \<Rightarrow> nat \<Rightarrow> ('e, byte list) reader" where
  "peek_bytes e n c =
     (if n > length (snd c) then Inl (e (fst c)) else Inr (take n (snd c), c))"

definition peek_byte :: "(nat \<Rightarrow> 'e) \<Rightarrow> ('e, byte) reader" where
  "peek_byte e c = (case snd c of [] \<Rightarrow> Inl (e (fst c)) | b # bs \<Rightarrow> Inr (b, c))"

definition read_position :: "('e, nat) reader" where
  "read_position c = Inr (fst c, c)"

named_theorems reader_simps \<open>what it means that a reader succeeds\<close>

named_theorems reader_eval \<open>running a reader on the encoding it accepts\<close>

lemma bind_reader_eval [reader_eval]: "P c = Inr (a, c1) \<Longrightarrow> bind_reader P f c = f a c1"
  by (simp add: bind_reader_def)

lemma return_reader_eval [reader_eval]: "return_reader a c = Inr (a, c)"
  by (simp add: return_reader_def)

lemma check_eval [reader_eval]: "b \<Longrightarrow> check e b c = Inr ((), c)"
  by (simp add: check_def return_reader_def)

lemma read_position_eval [reader_eval]: "read_position (p, xs) = Inr (p, (p, xs))"
  by (simp add: read_position_def)

lemma bind_reader_Inr [reader_simps]:
  "bind_reader P f c = Inr r \<longleftrightarrow> (\<exists>a p xs. P c = Inr (a, (p, xs)) \<and> f a (p, xs) = Inr r)"
  by (auto simp: bind_reader_def split: sum.splits)

lemma return_reader_Inr [reader_simps]: "return_reader a c = Inr r \<longleftrightarrow> r = (a, c)"
  by (auto simp: return_reader_def)

lemma fail_reader_Inr [reader_simps]: "fail_reader e c = Inr r \<longleftrightarrow> False"
  by (simp add: fail_reader_def)

lemma check_Inr [reader_simps]: "check e b c = Inr r \<longleftrightarrow> b \<and> r = ((), c)"
  by (auto simp: check_def return_reader_def fail_reader_def)

lemma bind_check: "bind_reader (check e b) (\<lambda>_. P) = (if b then P else fail_reader e)"
  by (auto simp: fun_eq_iff bind_reader_def check_def return_reader_def fail_reader_def)

lemma take_bytes_Inr [reader_simps]:
  "take_bytes e n (p, xs) = Inr (v, (q, ys)) \<longleftrightarrow> length v = n \<and> xs = v @ ys \<and> q = p + n"
  by (auto simp: take_bytes_def)

lemma next_byte_Inr [reader_simps]:
  "next_byte e (p, xs) = Inr (b, (q, ys)) \<longleftrightarrow> xs = b # ys \<and> q = p + 1"
  by (auto simp: next_byte_def split: list.splits)

lemma peek_byte_Inr [reader_simps]:
  "peek_byte e (p, xs) = Inr (b, c) \<longleftrightarrow> (\<exists>ys. xs = b # ys) \<and> c = (p, xs)"
  by (auto simp: peek_byte_def split: list.splits)

lemma peek_bytes_Inr [reader_simps]:
  "peek_bytes e n (p, xs) = Inr (v, c) \<longleftrightarrow> length v = n \<and> (\<exists>ys. xs = v @ ys) \<and> c = (p, xs)"
proof (cases "n > length xs")
  case False
  then have "length v = n \<and> (\<exists>ys. xs = v @ ys) \<longleftrightarrow> take n xs = v"
    by (metis append_eq_conv_conj append_take_drop_id length_take min.absorb2 not_less)
  with False show ?thesis by (auto simp: peek_bytes_def)
qed (auto simp: peek_bytes_def)

lemma peek_then_take:
  "bind_reader (peek_bytes e n) (\<lambda>bs. if \<not> ok bs then fail_reader e1 else take_bytes e n) (p, xs)
     = Inr (v, (q, ys)) \<longleftrightarrow> ok v \<and> take_bytes e n (p, xs) = Inr (v, (q, ys))"
  by (auto simp: bind_reader_def peek_bytes_def take_bytes_def fail_reader_def)

lemma read_position_Inr [reader_simps]: "read_position (p, xs) = Inr (n, c) \<longleftrightarrow> n = p \<and> c = (p, xs)"
  by (auto simp: read_position_def)

lemma if_reader_Inr [reader_simps]:
  "(if b then P else Q) c = Inr r \<longleftrightarrow> (b \<longrightarrow> P c = Inr r) \<and> (\<not> b \<longrightarrow> Q c = Inr r)"
  by simp

text \<open>
  A reader stays within its input when a failure satisfies \<^verbatim>\<open>ok\<close> at a position
  inside the input and a success only moves the boundary between the bytes read and
  the bytes left.
\<close>

definition within :: "('e \<Rightarrow> nat \<Rightarrow> bool) \<Rightarrow> ('e, 'a) reader \<Rightarrow> bool" where
  "within ok P \<longleftrightarrow> (\<forall>p xs.
     (\<forall>e. P (p, xs) = Inl e \<longrightarrow> ok e (p + length xs)) \<and>
     (\<forall>v q ys. P (p, xs) = Inr (v, (q, ys)) \<longrightarrow> q + length ys = p + length xs))"

named_theorems within_intros \<open>readers that stay within their input\<close>

lemma withinD:
  "within ok P \<Longrightarrow> P (p, xs) = Inl e \<Longrightarrow> ok e (p + length xs)"
  "within ok P \<Longrightarrow> P (p, xs) = Inr (v, (q, ys)) \<Longrightarrow> q + length ys = p + length xs"
  by (simp_all add: within_def)

definition points_inside :: "('e \<Rightarrow> nat \<Rightarrow> bool) \<Rightarrow> (nat \<Rightarrow> 'e) \<Rightarrow> bool" where
  "points_inside ok f \<longleftrightarrow> (\<forall>p n. p \<le> n \<longrightarrow> ok (f p) n)"

lemma within_bind [within_intros]:
  assumes P: "within ok P" and f: "\<And>a. within ok (f a)"
  shows "within ok (bind_reader P f)"
  unfolding within_def
proof (intro allI conjI impI)
  fix p xs e
  assume "bind_reader P f (p, xs) = Inl e"
  then consider "P (p, xs) = Inl e" | a q ys where "P (p, xs) = Inr (a, (q, ys))" "f a (q, ys) = Inl e"
    by (auto simp: bind_reader_def split: sum.splits)
  then show "ok e (p + length xs)"
    by cases (use withinD [OF P, of p xs] withinD [OF f] in \<open>metis\<close>)+
next
  fix p xs v q ys
  assume "bind_reader P f (p, xs) = Inr (v, (q, ys))"
  then show "q + length ys = p + length xs"
    using withinD(2) [OF P] withinD(2) [OF f] by (fastforce simp: bind_reader_Inr)
qed

lemma within_basic [within_intros]:
  "within ok (return_reader a)"
  "points_inside ok g \<Longrightarrow> within ok (fail_reader g)"
  "points_inside ok g \<Longrightarrow> within ok (check g b)"
  "points_inside ok g \<Longrightarrow> within ok (take_bytes g n)"
  "points_inside ok g \<Longrightarrow> within ok (peek_bytes g n)"
  "points_inside ok g \<Longrightarrow> within ok (next_byte g)"
  "points_inside ok g \<Longrightarrow> within ok (peek_byte g)"
  "within ok read_position"
  by (auto simp: within_def points_inside_def return_reader_def fail_reader_def check_def take_bytes_def
      peek_bytes_def next_byte_def peek_byte_def read_position_def split: if_splits list.splits)

lemma within_if [within_intros]:
  "(b \<Longrightarrow> within ok P) \<Longrightarrow> (\<not> b \<Longrightarrow> within ok Q) \<Longrightarrow> within ok (if b then P else Q)"
  by simp

subsection \<open>The reference head encoding\<close>

definition head_byte :: "nat \<Rightarrow> byte \<Rightarrow> byte" where
  "head_byte major additional = push_bit 5 (of_nat major) OR additional"

definition cbor_head :: "nat \<Rightarrow> u64 \<Rightarrow> byte list" where
  "cbor_head major v =
     (if v < 24 then [head_byte major (ucast v)]
      else if v \<le> 0xff then head_byte major 24 # be_bytes 1 v
      else if v \<le> 0xffff then head_byte major 25 # be_bytes 2 v
      else if v \<le> 0xffffffff then head_byte major 26 # be_bytes 4 v
      else head_byte major 27 # be_bytes 8 v)"

abbreviation cbor_uint :: "u64 \<Rightarrow> byte list" where
  "cbor_uint v \<equiv> cbor_head 0 v"

definition cbor_bytes :: "byte list \<Rightarrow> byte list" where
  "cbor_bytes bs = cbor_head 2 (of_nat (length bs)) @ bs"

definition cbor_text :: "byte list \<Rightarrow> byte list" where
  "cbor_text bs = cbor_head 3 (of_nat (length bs)) @ bs"

definition cbor_null :: byte where
  "cbor_null = 0xf6"

lemma and_1f: "(b :: byte) AND 0x1f = take_bit 5 b"
  by (simp add: take_bit_eq_mask mask_eq_exp_minus_1)

lemma byte_lt_32:
  assumes "(a :: byte) < 32"
  shows "a AND 0x1f = a" "drop_bit 5 a = 0"
proof -
  have u: "unat a < 32" using assms by (simp add: word_less_nat_alt)
  have "unat (drop_bit 5 a) = 0" using u by (simp add: drop_bit_eq_div unat_div)
  then show "drop_bit 5 a = 0" by (simp add: unat_eq_zero)
  have "unat (take_bit 5 a) = unat a" using u by (simp add: take_bit_eq_mod unat_mod)
  then show "a AND 0x1f = a" by (simp add: and_1f unsigned_word_eqI)
qed

lemma head_byte_fields:
  assumes "major < 8" "a < 32"
  shows "unat (drop_bit 5 (head_byte major a)) = major" "head_byte major a AND 0x1f = a"
proof -
  have "major \<in> {0, 1, 2, 3, 4, 5, 6, 7}" using assms by auto
  then have p: "drop_bit 5 (push_bit 5 (of_nat major :: byte)) = of_nat major \<and>
      push_bit 5 (of_nat major :: byte) AND 0x1f = 0 \<and> unat (of_nat major :: byte) = major"
    by auto
  show "unat (drop_bit 5 (head_byte major a)) = major"
    using p byte_lt_32(2) [OF assms(2)] by (simp add: head_byte_def drop_bit_or)
  show "head_byte major a AND 0x1f = a"
    using p byte_lt_32(1) [OF assms(2)] by (simp add: head_byte_def bit.conj_disj_distrib2)
qed

lemma head_byte_split: "head_byte (unat (drop_bit 5 b)) (b AND 0x1f) = b"
  unfolding head_byte_def and_1f
  by (rule bit_word_eqI) (auto simp: bit_simps)

lemma and_1f_lt_32: "(b :: byte) AND 0x1f < 32"
  by (simp add: and_1f take_bit_eq_mod word_less_nat_alt unat_mod)

lemma ucast_ucast_byte [simp]: "(ucast (ucast (b :: byte) :: u64) :: byte) = b"
  by (rule bit_word_eqI) (simp add: bit_simps)

lemma unat_small_ucast: "unat (v :: u64) < 256 \<Longrightarrow> unat (ucast v :: byte) = unat v"
  by (simp add: unsigned_ucast_eq take_bit_eq_mod)

lemma ucast_small_ucast: "unat (v :: u64) < 256 \<Longrightarrow> ucast (ucast v :: byte) = v"
  by (simp add: word_unat_eq_iff unat_ucast_byte unat_small_ucast)

lemma length_cbor_head_pos: "0 < length (cbor_head m v)"
  by (simp add: cbor_head_def)

lemma length_cbor_head_le: "length (cbor_head m v) \<le> 9"
  by (simp add: cbor_head_def)

lemma cbor_head_not_Nil [simp]: "cbor_head m v \<noteq> []"
  using length_cbor_head_pos [of m v] by auto

subsection \<open>The reference head reader\<close>

definition head_width :: "byte \<Rightarrow> nat" where
  "head_width additional = 2 ^ (unat additional - 24)"

definition head_minimum :: "byte \<Rightarrow> u64" where
  "head_minimum additional =
     (if additional = 24 then 24 else if additional = 25 then 0x100
      else if additional = 26 then 0x10000 else 0x100000000)"

definition cbor_read_head ::
    "(nat \<Rightarrow> 'e) \<Rightarrow> (nat \<Rightarrow> 'e) \<Rightarrow> (nat \<Rightarrow> 'e) \<Rightarrow> nat \<Rightarrow> ('e, u64) reader" where
  "cbor_read_head truncated wrong_type noncanonical major =
     bind_reader (next_byte truncated) (\<lambda>initial.
       if unat (drop_bit 5 initial) \<noteq> major then fail_reader wrong_type
       else let additional = initial AND 0x1f in
         if additional < 24 then return_reader (ucast additional)
         else if additional > 27 then fail_reader noncanonical
         else bind_reader (take_bytes truncated (head_width additional)) (\<lambda>bs.
           if be_value bs \<ge> head_minimum additional then return_reader (be_value bs)
           else fail_reader noncanonical))"

lemma head_value_cases:
  obtains (tiny) "v < 24" "cbor_head m v = [head_byte m (ucast v)]"
  | (wide) a where "a \<in> {24, 25, 26, 27}" "cbor_head m v = head_byte m a # be_bytes (head_width a) v"
      "head_minimum a \<le> v" "unat v < 256 ^ head_width a"
proof -
  consider "v < 24" | "24 \<le> v" "v \<le> 0xff" | "0x100 \<le> v" "v \<le> 0xffff"
    | "0x10000 \<le> v" "v \<le> 0xffffffff" | "0x100000000 \<le> v"
    by (simp add: word_le_nat_alt word_less_nat_alt) linarith
  then show thesis
  proof cases
    case 1
    then show ?thesis using tiny by (simp add: cbor_head_def)
  next
    case 2
    then show ?thesis using wide [of 24]
      by (simp add: cbor_head_def head_width_def head_minimum_def word_le_nat_alt word_less_nat_alt)
  next
    case 3
    then show ?thesis using wide [of 25]
      by (simp add: cbor_head_def head_width_def head_minimum_def word_le_nat_alt word_less_nat_alt)
  next
    case 4
    then show ?thesis using wide [of 26]
      by (simp add: cbor_head_def head_width_def head_minimum_def word_le_nat_alt word_less_nat_alt)
  next
    case 5
    then show ?thesis using wide [of 27] unat_u64_bound [of v]
      by (simp add: cbor_head_def head_width_def head_minimum_def word_le_nat_alt word_less_nat_alt)
  qed
qed

lemma cbor_head_wide:
  assumes "a \<in> {24, 25, 26, 27}" "length bs = head_width a" "head_minimum a \<le> be_value bs"
  shows "cbor_head m (be_value bs) = head_byte m a # bs"
proof -
  have le8: "length bs \<le> 8" using assms by (auto simp: head_width_def)
  have b: "be_bytes (head_width a) (be_value bs) = bs"
    using be_bytes_be_value [OF assms(2)] le8 assms(2) by simp
  have bound: "unat (be_value bs) < 256 ^ head_width a"
    using unat_be_value_bound [of bs] be_nat_bound [of bs] le8 assms(2) by simp
  show ?thesis
    using assms(1,3) b bound
    by (auto simp: cbor_head_def head_width_def head_minimum_def word_le_nat_alt word_less_nat_alt)
qed

lemma cbor_read_head_accepts:
  assumes "major < 8"
  shows "cbor_read_head et ew en major (p, cbor_head major v @ ys) =
         Inr (v, (p + length (cbor_head major v), ys))"
proof (cases rule: head_value_cases [where v = v and m = major])
  case tiny
  then have "(ucast v :: byte) < 24" "ucast (ucast v :: byte) = v"
    by (simp_all add: word_less_nat_alt unat_small_ucast ucast_small_ucast)
  with tiny assms show ?thesis
    using head_byte_fields [OF assms, of "ucast v"]
    by (simp add: cbor_read_head_def bind_reader_def next_byte_def return_reader_def word_less_nat_alt)
next
  case (wide a)
  then have "a < 32" "\<not> a < 24" "\<not> 27 < a" by auto
  with wide show ?thesis
    using head_byte_fields [OF assms, of a] be_value_be_bytes [of v "head_width a"]
    by (simp add: cbor_read_head_def bind_reader_def next_byte_def take_bytes_def return_reader_def)
qed

lemma cbor_read_head_canonical:
  assumes r: "cbor_read_head et ew en major (p, xs) = Inr (v, (q, ys))"
  shows "xs = cbor_head major v @ ys"
proof -
  obtain i rest where xs: "xs = i # rest" and m: "unat (drop_bit 5 i) = major"
    using r by (auto simp: cbor_read_head_def bind_reader_def next_byte_def fail_reader_def
        split: list.splits if_splits)
  let ?a = "i AND 0x1f"
  have hb: "head_byte major ?a = i" using head_byte_split [of i] m by simp
  show ?thesis
  proof (cases "?a < 24")
    case True
    then have v: "v = ucast ?a" "ys = rest"
      using r xs m by (simp_all add: cbor_read_head_def bind_reader_def next_byte_def return_reader_def)
    have "v < 24" "ucast v = ?a"
      using True v by (simp_all add: word_less_nat_alt unat_ucast_byte)
    then show ?thesis using xs hb v by (simp add: cbor_head_def)
  next
    case False
    then have a: "?a \<le> 27" "24 \<le> ?a" and t: "take_bytes et (head_width ?a) (p + 1, rest) = Inr (take (head_width ?a) rest, (q, ys))"
      and v: "v = be_value (take (head_width ?a) rest)" "head_minimum ?a \<le> v"
      using r xs m
      by (auto simp: cbor_read_head_def bind_reader_def next_byte_def return_reader_def fail_reader_def
          take_bytes_def Let_def not_less split: if_splits)
    have "unat ?a \<in> {24, 25, 26, 27}" using a by (auto simp: word_le_nat_alt)
    then have "?a \<in> {24, 25, 26, 27}" by (auto simp: word_unat_eq_iff)
    then have "cbor_head major v = i # take (head_width ?a) rest"
      using cbor_head_wide [of ?a "take (head_width ?a) rest" major] t v hb
      by (simp add: take_bytes_Inr)
    then show ?thesis using xs t by (simp add: take_bytes_Inr)
  qed
qed

lemma within_read_head [within_intros]:
  assumes "points_inside ok et" "points_inside ok ew" "points_inside ok en"
  shows "within ok (cbor_read_head et ew en m)"
  unfolding cbor_read_head_def Let_def by (intro within_intros assms)

subsection \<open>Counted loops\<close>

primrec read_each ::
    "(nat \<Rightarrow> 'a list \<Rightarrow> ('e, 'a) reader) \<Rightarrow> nat \<Rightarrow> 'a list \<Rightarrow> ('e, 'a list) reader" where
  "read_each body 0 acc = return_reader acc"
| "read_each body (Suc n) acc =
     bind_reader (body (length acc) acc) (\<lambda>x. read_each body n (acc @ [x]))"

primrec enc_each :: "(nat \<Rightarrow> 'a \<Rightarrow> byte list) \<Rightarrow> nat \<Rightarrow> 'a list \<Rightarrow> byte list" where
  "enc_each enc i [] = []"
| "enc_each enc i (x # xs) = enc i x @ enc_each enc (Suc i) xs"

primrec ok_each :: "(nat \<Rightarrow> 'a list \<Rightarrow> 'a \<Rightarrow> bool) \<Rightarrow> 'a list \<Rightarrow> 'a list \<Rightarrow> bool" where
  "ok_each ok acc [] = True"
| "ok_each ok acc (x # xs) = (ok (length acc) acc x \<and> ok_each ok (acc @ [x]) xs)"

lemma within_each [within_intros]:
  assumes "\<And>i acc. within ok (body i acc)"
  shows "within ok (read_each body n acc)"
  by (induction n arbitrary: acc) (auto intro!: within_intros assms)

lemma ok_each_iff:
  "ok_each ok acc xs \<longleftrightarrow> (\<forall>j < length xs. ok (length acc + j) (acc @ take j xs) (xs ! j))"
proof (induction xs arbitrary: acc)
  case (Cons x xs)
  show ?case by (auto simp: Cons.IH less_Suc_eq_0_disj nth_Cons split: nat.splits)
qed simp

lemma ok_each_const: "ok_each (\<lambda>_ _. P) acc xs \<longleftrightarrow> (\<forall>x \<in> set xs. P x)"
  by (induction xs arbitrary: acc) simp_all

lemma ok_each_fresh:
  "ok_each (\<lambda>_ acc x. P x \<and> f x \<notin> f ` set acc) acc xs \<longleftrightarrow>
     (\<forall>x \<in> set xs. P x) \<and> distinct (map f xs) \<and> f ` set acc \<inter> f ` set xs = {}"
  by (induction xs arbitrary: acc) auto

lemma read_each_iff:
  assumes body: "\<And>i acc p xs v q ys. i = length acc \<Longrightarrow> length acc < N \<Longrightarrow>
      body i acc (p, xs) = Inr (v, (q, ys)) \<longleftrightarrow>
      ok i acc v \<and> xs = enc i v @ ys \<and> q = p + length (enc i v)"
    and "length acc + n \<le> N"
  shows "read_each body n acc (p, xs) = Inr (vs, (q, ys)) \<longleftrightarrow>
    (\<exists>ws. vs = acc @ ws \<and> length ws = n \<and> ok_each ok acc ws \<and>
       xs = enc_each enc (length acc) ws @ ys \<and> q = p + length (enc_each enc (length acc) ws))"
  using assms(2)
proof (induction n arbitrary: acc p xs)
  case 0
  show ?case by (auto simp: reader_simps)
next
  case (Suc n)
  have b: "body (length acc) acc (p, xs) = Inr (v, (r, zs)) \<longleftrightarrow>
      ok (length acc) acc v \<and> xs = enc (length acc) v @ zs \<and> r = p + length (enc (length acc) v)" for v r zs
    using Suc.prems by (intro body) auto
  show ?case
    using Suc.prems
    by (auto simp: reader_simps b Suc.IH length_Suc_conv add.assoc)
qed

subsection \<open>The contract of a head reader\<close>

locale head_reader =
  fixes read_head :: "nat \<Rightarrow> ('e, u64) reader"
  assumes head_accepts:
    "m < 8 \<Longrightarrow> read_head m (p, cbor_head m v @ ys) = Inr (v, (p + length (cbor_head m v), ys))"
  and head_canonical:
    "read_head m (p, xs) = Inr (v, (q, ys)) \<Longrightarrow> xs = cbor_head m v @ ys"
begin

lemma head_iff:
  "m < 8 \<Longrightarrow> read_head m (p, xs) = Inr (v, (q, ys)) \<longleftrightarrow>
     xs = cbor_head m v @ ys \<and> q = p + length (cbor_head m v)"
  using head_accepts [of m p v ys] head_canonical [of m p xs v q ys] by auto

lemma head_inj:
  assumes "m < 8" "cbor_head m v @ ys = cbor_head m w @ zs"
  shows "v = w \<and> ys = zs"
proof -
  have "read_head m (0, cbor_head m w @ zs) = Inr (v, (0 + length (cbor_head m v), ys))"
    using head_accepts [OF assms(1), of 0 v ys] by (simp only: assms(2))
  moreover have "read_head m (0, cbor_head m w @ zs) = Inr (w, (0 + length (cbor_head m w), zs))"
    using head_accepts [OF assms(1)] .
  ultimately show ?thesis by simp
qed

lemma expect_iff:
  "m < 8 \<Longrightarrow> bind_reader (read_head m) (\<lambda>a. check e (a = k)) (p, xs) = Inr (u, (q, ys)) \<longleftrightarrow>
     xs = cbor_head m k @ ys \<and> q = p + length (cbor_head m k)"
  by (auto simp: reader_simps head_iff)

lemma fixed_bytes_iff:
  assumes "N < 2 ^ 64"
  shows "bind_reader (read_head 2) (\<lambda>n. bind_reader (check e1 (n = of_nat N))
            (\<lambda>_. take_bytes e2 N)) (p, xs) = Inr (v, (q, ys)) \<longleftrightarrow>
         length v = N \<and> xs = cbor_bytes v @ ys \<and> q = p + length (cbor_bytes v)"
  by (auto simp: reader_simps head_iff cbor_bytes_def)

lemma text_iff:
  assumes "lo \<le> hi" "hi < 2 ^ 64"
  shows "bind_reader (read_head 3) (\<lambda>n. bind_reader (check e1 (of_nat lo \<le> n \<and> n \<le> of_nat hi))
            (\<lambda>_. take_bytes e2 (unat n))) (p, xs) = Inr (v, (q, ys)) \<longleftrightarrow>
         lo \<le> length v \<and> length v \<le> hi \<and> xs = cbor_text v @ ys \<and> q = p + length (cbor_text v)"
proof -
  have range: "of_nat lo \<le> n \<and> n \<le> of_nat hi \<longleftrightarrow> lo \<le> unat n \<and> unat n \<le> hi" for n :: u64
    using assms by (simp add: word_le_nat_alt unat_of_nat)
  have cast: "unat n = length v \<longleftrightarrow> n = of_nat (length v)" if "length v \<le> hi" for n :: u64
    using that assms by (auto simp: word_unat_eq_iff unat_of_nat)
  show ?thesis
    using cast assms(2)
    by (auto simp: reader_simps head_iff cbor_text_def range unat_of_nat intro!: exI [of _ "of_nat (length v)"])
qed

end

interpretation reference: head_reader "cbor_read_head et ew en" for et ew en :: "nat \<Rightarrow> 'e"
  by unfold_locales (simp_all add: cbor_read_head_accepts cbor_read_head_canonical)

lemma cbor_head_inj:
  "m < 8 \<Longrightarrow> cbor_head m v @ ys = cbor_head m w @ zs \<longleftrightarrow> v = w \<and> ys = zs"
  using reference.head_inj by auto

lemma cbor_head_first: "\<exists>a bs. cbor_head m v = head_byte m a # bs \<and> a < 32"
  by (cases rule: head_value_cases [where v = v and m = m])
     (auto simp: word_less_nat_alt unat_small_ucast)

lemma cbor_head_not_null:
  assumes "m < 7"
  shows "cbor_head m v @ ys \<noteq> cbor_null # zs"
proof
  assume e: "cbor_head m v @ ys = cbor_null # zs"
  obtain a bs where h: "cbor_head m v = head_byte m a # bs" "a < 32"
    using cbor_head_first by blast
  then have "unat (drop_bit 5 (cbor_null)) = m"
    using e head_byte_fields(1) [of m a] assms by auto
  then show False using assms by (simp add: cbor_null_def)
qed

lemma cbor_head_uncons:
  assumes "m < 7"
  shows "\<exists>a. (\<exists>zs. cbor_head m v @ ys = a # zs) \<and> a \<noteq> cbor_null"
  using cbor_head_first [of m v] cbor_head_not_null [OF assms, of v ys] by fastforce

subsection \<open>Writers into a bounded buffer\<close>

text \<open>
  The encoders append to a fixed-capacity buffer and stop at the first append that
  does not fit. A writer maps the buffer content to the extended content or \<^verbatim>\<open>None\<close>;
  \<^verbatim>\<open>emits\<close> states what a writer appends and that running out of room is its only
  failure.
\<close>

type_synonym writer = "byte list \<Rightarrow> byte list option"

definition append_byte :: "nat \<Rightarrow> byte \<Rightarrow> writer" where
  "append_byte capacity b out = (if length out = capacity then None else Some (out @ [b]))"

definition append_span :: "nat \<Rightarrow> byte_span \<Rightarrow> writer" where
  "append_span capacity data out =
     (if (span_null data \<and> span_size data \<noteq> 0) \<or> span_size data > capacity - length out then None
      else Some (out @ span_bytes data))"

primrec run_writers :: "writer list \<Rightarrow> writer" where
  "run_writers [] out = Some out"
| "run_writers (w # ws) out = Option.bind (w out) (run_writers ws)"

definition emits :: "nat \<Rightarrow> writer \<Rightarrow> byte list \<Rightarrow> bool" where
  "emits capacity w bs \<longleftrightarrow> (\<forall>out. length out \<le> capacity \<longrightarrow>
     w out = (if length out + length bs \<le> capacity then Some (out @ bs) else None))"

named_theorems emits_intros \<open>what the writers emit\<close>

lemma emits_append_byte [emits_intros]: "emits capacity (append_byte capacity b) [b]"
  by (auto simp: emits_def append_byte_def)

lemma emits_append_span [emits_intros]: "emits capacity (append_span capacity (Span bs)) bs"
  by (auto simp: emits_def append_span_def)

lemma emits_Nil [emits_intros]: "emits capacity (run_writers []) []"
  by (simp add: emits_def)

lemma emits_Cons [emits_intros]:
  "emits capacity w bs \<Longrightarrow> emits capacity (run_writers ws) cs \<Longrightarrow> emits capacity (run_writers (w # ws)) (bs @ cs)"
  by (auto simp: emits_def)

lemma emitsD: "emits capacity w bs \<Longrightarrow> length bs \<le> capacity \<Longrightarrow> w [] = Some bs"
  by (simp add: emits_def)

fun append_tail :: "nat \<Rightarrow> u64 \<Rightarrow> nat \<Rightarrow> writer" where
  "append_tail capacity v 0 out = Some out"
| "append_tail capacity v (Suc n) out =
     Option.bind (append_byte capacity (ucast (drop_bit (n * 8) v)) out) (append_tail capacity v n)"

lemma emits_append_tail [emits_intros]: "emits capacity (append_tail capacity v n) (be_bytes n v)"
proof (induction n)
  case (Suc n)
  then show ?case
    using emits_append_byte [of capacity "ucast (drop_bit (n * 8) v)"]
    by (auto simp: emits_def be_bytes_Suc mult.commute)
qed (simp add: emits_def)

text \<open>The head written byte by byte, as the encoders spell it out.\<close>

definition head_writer :: "nat \<Rightarrow> nat \<Rightarrow> u64 \<Rightarrow> writer" where
  "head_writer capacity major value =
     (let tail = (\<lambda>additional count. run_writers [append_byte capacity (push_bit 5 (of_nat major) OR additional),
            append_tail capacity value count])
      in if value < 24 then append_byte capacity (push_bit 5 (of_nat major) OR ucast value)
         else if value \<le> 0xff then tail 24 1
         else if value \<le> 0xffff then tail 25 2
         else if value \<le> 0xffffffff then tail 26 4
         else tail 27 8)"

lemma emits_head_writer [emits_intros]: "emits capacity (head_writer capacity m v) (cbor_head m v)"
proof -
  have tail: "emits capacity (run_writers [append_byte capacity (push_bit 5 (of_nat m) OR ai),
      append_tail capacity v n]) (head_byte m ai # be_bytes n v)" for ai n
    using emits_Cons [OF emits_append_byte emits_Cons [OF emits_append_tail emits_Nil], of capacity "head_byte m ai" v n]
    by (simp add: head_byte_def)
  have byte: "emits capacity (append_byte capacity (push_bit 5 (of_nat m) OR ucast v)) [head_byte m (ucast v)]"
    using emits_append_byte by (simp add: head_byte_def)
  show ?thesis unfolding head_writer_def cbor_head_def Let_def
    by (auto simp: byte tail simp del: run_writers.simps)
qed

text \<open>The same head written by two encoders that compute the width first.\<close>

definition counted_head :: "nat \<Rightarrow> nat \<Rightarrow> u64 \<Rightarrow> writer" where
  "counted_head capacity major value =
     (if value < 24 then append_byte capacity (push_bit 5 (of_nat major) OR ucast value)
      else let count = (if value \<le> 0xff then 1 else if value \<le> 0xffff then 2
                        else if value \<le> 0xffffffff then 4 else 8);
               additional = (if count = 1 then 24 else if count = 2 then 25
                             else if count = (4 :: nat) then 26 else 27 :: byte)
           in run_writers [append_byte capacity (push_bit 5 (of_nat major) OR additional),
                           append_tail capacity value count])"

lemma counted_head_eq: "counted_head = head_writer"
  by (intro ext) (simp add: counted_head_def head_writer_def Let_def)

text \<open>
  The contract between a file's head writer and its field writers: a writer that emits
  the shortest-form head into a buffer of the given capacity carries byte strings and
  text strings.
\<close>

locale encoder =
  fixes capacity :: nat and head :: "nat \<Rightarrow> u64 \<Rightarrow> writer"
  assumes emits_head: "emits capacity (head m v) (cbor_head m v)"
begin

lemma emits_string:
  "emits capacity (run_writers [head m (of_nat (length bs)), append_span capacity (Span bs)])
     (cbor_head m (of_nat (length bs)) @ bs)"
  using emits_Cons [OF emits_head emits_Cons [OF emits_append_span emits_Nil]] by (simp del: run_writers.simps)

lemma emits_byte_string:
  "emits capacity (run_writers [head 2 (of_nat (length bs)), append_span capacity (Span bs)]) (cbor_bytes bs)"
  unfolding cbor_bytes_def by (rule emits_string)

lemma emits_text_string:
  "emits capacity (run_writers [head 3 (of_nat (length bs)), append_span capacity (Span bs)]) (cbor_text bs)"
  unfolding cbor_text_def by (rule emits_string)

end

interpretation head_writer: encoder capacity "head_writer capacity" for capacity
  by unfold_locales (rule emits_head_writer)

interpretation counted_head: encoder capacity "counted_head capacity" for capacity
  by unfold_locales (simp add: counted_head_eq emits_head_writer)

subsection \<open>Lengths and injectivity of the fields\<close>

lemma length_cbor_bytes: "length bs < 24 \<Longrightarrow> length (cbor_bytes bs) = Suc (length bs)"
  "24 \<le> length bs \<Longrightarrow> length bs < 256 \<Longrightarrow> length (cbor_bytes bs) = length bs + 2"
  by (simp_all add: cbor_bytes_def cbor_head_def word_less_nat_alt word_le_nat_alt unat_of_nat)

lemma length_cbor_text_le: "length (cbor_text bs) \<le> length bs + 9"
  using length_cbor_head_le by (simp add: cbor_text_def)

lemma length_small_head [wire_simps]: "v < 24 \<Longrightarrow> length (cbor_head m v) = 1"
  by (simp add: cbor_head_def)

lemma cbor_text_inj:
  assumes "length a < 2 ^ 64" "length b < 2 ^ 64"
  shows "cbor_text a @ x = cbor_text b @ y \<longleftrightarrow> a = b \<and> x = y"
    and "cbor_bytes a @ x = cbor_bytes b @ y \<longleftrightarrow> a = b \<and> x = y"
proof -
  have len: "(of_nat (length a) :: u64) = of_nat (length b) \<longleftrightarrow> length a = length b"
    using assms by (simp add: word_unat_eq_iff unat_of_nat)
  show "cbor_text a @ x = cbor_text b @ y \<longleftrightarrow> a = b \<and> x = y"
    and "cbor_bytes a @ x = cbor_bytes b @ y \<longleftrightarrow> a = b \<and> x = y"
    by (auto simp: cbor_text_def cbor_bytes_def cbor_head_inj len)
qed

end
