(* ===== verification/Format.thy ===== *)
theory Format
  imports Cbor
begin

text \<open>
  \<^verbatim>\<open>halofpx-context-store-format.{h,cpp}\<close>: the structural parser of the manifest v1.
  The cursor class is modelled by readers over (position, bytes left). A reader
  fails with \<^verbatim>\<open>Failed status position\<close> where the source calls \<^verbatim>\<open>fail\<close>, and with
  \<^verbatim>\<open>Mismatch position\<close> where it returns false without recording a status; the
  caller then records \<^verbatim>\<open>semantic_mismatch\<close> at the cursor position. A rejected parse
  is represented by its status and error offset only (the half-filled manifest
  of a rejected parse is read by no caller). The fixed arrays of the manifest are
  lists holding their used prefix.
  Shown: the parser accepts exactly the canonical encodings of well-formed
  manifests, so an accepted byte string determines its manifest and conversely;
  the authenticated and compatibility ranges it reports are those of the encoding;
  rejections are placed inside the input.
\<close>

datatype manifest_parse_status =
    structural_only | input_empty | manifest_too_large | truncated | noncanonical
  | wrong_type | wrong_field | wrong_version | limit_exceeded | invalid_value
  | trailing_data | semantic_mismatch

definition manifest_max_bytes :: nat where "manifest_max_bytes = 1024 * 1024"
definition manifest_max_objects :: nat where "manifest_max_objects = 128"
definition manifest_max_ranks :: nat where "manifest_max_ranks = 128"
definition registered_id_max_bytes :: nat where "registered_id_max_bytes = 128"
definition compatibility_component_count :: nat where "compatibility_component_count = 16"

lemmas format_limits = manifest_max_bytes_def manifest_max_objects_def manifest_max_ranks_def
  registered_id_max_bytes_def compatibility_component_count_def

record object_reference =
  or_object_id :: digest
  or_stream_type :: registered_id
  or_codec_id :: registered_id
  or_codec_schema_major :: u64
  or_codec_schema_minor :: u64
  or_required :: bool
  or_frame_bytes :: u64
  or_token_sequence_digest :: digest
  or_logical_position :: u64
  or_output_boundary :: u64
  or_has_logical_rank :: bool
  or_logical_rank :: u64
  or_rank_ownership_digest :: digest
  or_compatibility_root :: digest

record parsed_manifest =
  pm_store_uuid :: "byte list"
  pm_checkpoint_lineage_id :: digest
  pm_generation :: u64
  pm_has_predecessor :: bool
  pm_predecessor_manifest_digest :: digest
  pm_compatibility_components :: "digest list"
  pm_compatibility_root :: digest
  pm_compatibility_manifest_offset :: nat
  pm_compatibility_manifest_size :: nat
  pm_scope_namespace :: digest
  pm_policy_epoch :: u64
  pm_world_size :: u64
  pm_topology_plan_schema_id :: registered_id
  pm_topology_execution_mode :: registered_id
  pm_global_plan_digest :: digest
  pm_topology_epoch :: u64
  pm_rank_ownership :: "digest list"
  pm_rank_placements :: "digest list"
  pm_object_references :: "object_reference list"
  pm_state_profile_id :: registered_id
  pm_producer_identity :: digest
  pm_durability_mode :: byte
  pm_authentication_key_id :: registered_id
  pm_authentication_key_generation :: u64
  pm_authentication_tag :: digest
  pm_authentication_input_offset :: nat
  pm_authentication_input_size :: nat

definition zero_digest :: digest where
  "zero_digest = replicate 32 0"

definition empty_manifest :: parsed_manifest where
  "empty_manifest = \<lparr>
     pm_store_uuid = replicate 16 0, pm_checkpoint_lineage_id = zero_digest, pm_generation = 0,
     pm_has_predecessor = False, pm_predecessor_manifest_digest = zero_digest,
     pm_compatibility_components = [], pm_compatibility_root = zero_digest,
     pm_compatibility_manifest_offset = 0, pm_compatibility_manifest_size = 0,
     pm_scope_namespace = zero_digest, pm_policy_epoch = 0, pm_world_size = 0,
     pm_topology_plan_schema_id = [], pm_topology_execution_mode = [],
     pm_global_plan_digest = zero_digest, pm_topology_epoch = 0,
     pm_rank_ownership = [], pm_rank_placements = [], pm_object_references = [],
     pm_state_profile_id = [], pm_producer_identity = zero_digest, pm_durability_mode = 0,
     pm_authentication_key_id = [], pm_authentication_key_generation = 0,
     pm_authentication_tag = zero_digest, pm_authentication_input_offset = 0,
     pm_authentication_input_size = 0\<rparr>"

subsection \<open>UTF-8\<close>

definition in_range :: "byte \<Rightarrow> byte \<Rightarrow> byte \<Rightarrow> bool" where
  "in_range lo hi b \<longleftrightarrow> lo \<le> b \<and> b \<le> hi"

fun valid_utf8_without_nul :: "byte list \<Rightarrow> bool" where
  "valid_utf8_without_nul [] = True"
| "valid_utf8_without_nul (first # rest) =
     (if first = 0 then False
      else if first \<le> 0x7f then valid_utf8_without_nul rest
      else if first \<ge> 0xc2 \<and> first \<le> 0xdf then
        (case rest of
           second # rest1 \<Rightarrow> if second < 0x80 \<or> second > 0xbf then False
                             else valid_utf8_without_nul rest1
         | _ \<Rightarrow> False)
      else if first \<ge> 0xe0 \<and> first \<le> 0xef then
        (case rest of
           second # third # rest2 \<Rightarrow>
             (let second_ok = (if first = 0xe0 then in_range 0xa0 0xbf second
                               else if first = 0xed then in_range 0x80 0x9f second
                               else in_range 0x80 0xbf second)
              in if \<not> second_ok \<or> third < 0x80 \<or> third > 0xbf then False
                 else valid_utf8_without_nul rest2)
         | _ \<Rightarrow> False)
      else if first \<ge> 0xf0 \<and> first \<le> 0xf4 then
        (case rest of
           second # third # fourth # rest3 \<Rightarrow>
             (let second_ok = (if first = 0xf0 then in_range 0x90 0xbf second
                               else if first = 0xf4 then in_range 0x80 0x8f second
                               else in_range 0x80 0xbf second)
              in if \<not> second_ok \<or> third < 0x80 \<or> third > 0xbf \<or> fourth < 0x80 \<or> fourth > 0xbf
                 then False else valid_utf8_without_nul rest3)
         | _ \<Rightarrow> False)
      else False)"

subsection \<open>The cursor\<close>

datatype parse_failure = Failed manifest_parse_status nat | Mismatch nat

type_synonym 'a cbor_cursor = "(parse_failure, 'a) reader"

definition read_head :: "nat \<Rightarrow> u64 cbor_cursor" where
  "read_head expected_major =
     bind_reader (next_byte (Failed truncated)) (\<lambda>initial.
       let major = drop_bit 5 initial; additional = initial AND 0x1f
       in if unat major \<noteq> expected_major then fail_reader (Failed wrong_type)
          else if additional < 24 then return_reader (ucast additional)
          else if additional > 27 then fail_reader (Failed noncanonical)
          else let byte_count = 2 ^ (unat additional - 24) in
            bind_reader (take_bytes (Failed truncated) byte_count) (\<lambda>bs.
              let value = be_value bs;
                  minimum = (if additional = 24 then 24 else if additional = 25 then 0x100
                             else if additional = 26 then 0x10000 else 0x100000000)
              in bind_reader (check (Failed noncanonical) (value \<ge> minimum)) (\<lambda>_. return_reader value)))"

definition read_map :: "u64 \<Rightarrow> unit cbor_cursor" where
  "read_map expected =
     bind_reader (read_head 5) (\<lambda>actual. check (Failed wrong_field) (actual = expected))"

definition read_array :: "u64 \<Rightarrow> u64 \<Rightarrow> u64 cbor_cursor" where
  "read_array minimum maximum =
     bind_reader (read_head 4) (\<lambda>actual.
       bind_reader (check (Failed limit_exceeded) (actual \<ge> minimum \<and> actual \<le> maximum)) (\<lambda>_.
         return_reader actual))"

definition read_uint :: "u64 cbor_cursor" where
  "read_uint = read_head 0"

definition read_key :: "u64 \<Rightarrow> unit cbor_cursor" where
  "read_key expected =
     bind_reader read_uint (\<lambda>actual. check (Failed wrong_field) (actual = expected))"

definition read_uint_equal :: "u64 \<Rightarrow> manifest_parse_status \<Rightarrow> unit cbor_cursor" where
  "read_uint_equal expected status =
     bind_reader read_uint (\<lambda>actual. check (Failed status) (actual = expected))"

definition read_bytes :: "nat \<Rightarrow> byte list cbor_cursor" where
  "read_bytes N =
     bind_reader (read_head 2) (\<lambda>length.
       bind_reader (check (Failed invalid_value) (length = of_nat N)) (\<lambda>_.
         take_bytes (Failed truncated) N))"

definition read_null_or_digest :: "(bool \<times> digest) cbor_cursor" where
  "read_null_or_digest =
     bind_reader (peek_byte (Failed truncated)) (\<lambda>b.
       if b = 0xf6
       then bind_reader (next_byte (Failed truncated)) (\<lambda>_. return_reader (False, zero_digest))
       else bind_reader (read_bytes 32) (\<lambda>d. return_reader (True, d)))"

definition read_null_or_uint :: "(bool \<times> u64) cbor_cursor" where
  "read_null_or_uint =
     bind_reader (peek_byte (Failed truncated)) (\<lambda>b.
       if b = 0xf6
       then bind_reader (next_byte (Failed truncated)) (\<lambda>_. return_reader (True, 0))
       else bind_reader read_uint (\<lambda>v. return_reader (False, v)))"

definition read_true :: "unit cbor_cursor" where
  "read_true =
     bind_reader (peek_byte (Failed truncated)) (\<lambda>b.
       if b \<noteq> 0xf5 then fail_reader (Failed wrong_type)
       else bind_reader (next_byte (Failed truncated)) (\<lambda>_. return_reader ()))"

definition read_registered_id :: "registered_id cbor_cursor" where
  "read_registered_id =
     bind_reader (read_head 3) (\<lambda>length.
       bind_reader (check (Failed limit_exceeded)
           (length \<ge> 1 \<and> length \<le> of_nat registered_id_max_bytes)) (\<lambda>_.
         bind_reader (peek_bytes (Failed truncated) (unat length)) (\<lambda>bs.
           if \<not> valid_utf8_without_nul bs then fail_reader (Failed invalid_value)
           else take_bytes (Failed truncated) (unat length))))"

text \<open>The source's idiom \<^verbatim>\<open>read_key(k) && read(x) && ...\<close>.\<close>

definition read_field :: "u64 \<Rightarrow> 'a cbor_cursor \<Rightarrow> ('a \<Rightarrow> 'b cbor_cursor) \<Rightarrow> 'b cbor_cursor" where
  "read_field k P f = bind_reader (read_key k) (\<lambda>_. bind_reader P f)"

definition demand :: "bool \<Rightarrow> 'a cbor_cursor \<Rightarrow> 'a cbor_cursor" where
  "demand b P = bind_reader (check Mismatch b) (\<lambda>_. P)"

subsection \<open>The parsers\<close>

definition parse_compatibility_manifest :: "parsed_manifest \<Rightarrow> parsed_manifest cbor_cursor" where
  "parse_compatibility_manifest manifest =
     bind_reader read_position (\<lambda>offset.
     bind_reader (read_map 16) (\<lambda>_.
     bind_reader (read_each (\<lambda>field _. read_field (of_nat field) (read_bytes 32) return_reader)
                    compatibility_component_count []) (\<lambda>components.
     bind_reader read_position (\<lambda>position.
     return_reader (manifest\<lparr>
       pm_compatibility_manifest_offset := offset,
       pm_compatibility_components := components,
       pm_compatibility_manifest_size := position - offset\<rparr>)))))"

definition parse_rank :: "u64 \<Rightarrow> nat \<Rightarrow> (u64 \<times> digest \<times> digest) list \<Rightarrow> (u64 \<times> digest \<times> digest) cbor_cursor" where
  "parse_rank world_size index ranks =
     bind_reader (read_map 3) (\<lambda>_.
     read_field 0 read_uint (\<lambda>logical_rank.
     demand (\<not> (logical_rank \<noteq> of_nat index \<or> logical_rank \<ge> world_size \<or>
               logical_rank \<in> set (map fst ranks)))
     (read_field 1 (read_bytes 32) (\<lambda>ownership_digest.
     read_field 2 (read_bytes 32) (\<lambda>placement.
     return_reader (logical_rank, ownership_digest, placement))))))"

definition parse_topology_manifest :: "parsed_manifest \<Rightarrow> parsed_manifest cbor_cursor" where
  "parse_topology_manifest manifest =
     bind_reader (read_map 6) (\<lambda>_.
     read_field 0 read_registered_id (\<lambda>plan_schema_id.
     read_field 1 read_registered_id (\<lambda>execution_mode.
     read_field 2 read_uint (\<lambda>world_size.
     demand (\<not> (world_size < 1 \<or> world_size > of_nat manifest_max_ranks))
     (read_field 3 (read_bytes 32) (\<lambda>global_plan_digest.
     read_field 4 read_uint (\<lambda>topology_epoch.
     read_field 5 (read_array 1 (of_nat manifest_max_ranks)) (\<lambda>rank_count.
     demand (rank_count = world_size)
     (bind_reader (read_each (parse_rank world_size) (unat rank_count) []) (\<lambda>ranks.
     return_reader (manifest\<lparr>
       pm_topology_plan_schema_id := plan_schema_id,
       pm_topology_execution_mode := execution_mode,
       pm_world_size := world_size,
       pm_global_plan_digest := global_plan_digest,
       pm_topology_epoch := topology_epoch,
       pm_rank_ownership := map (fst \<circ> snd) ranks,
       pm_rank_placements := map (snd \<circ> snd) ranks\<rparr>)))))))))))"

definition parse_object_descriptor :: "parsed_manifest \<Rightarrow> object_reference cbor_cursor" where
  "parse_object_descriptor manifest =
     bind_reader (read_map 13) (\<lambda>_.
     read_field 0 (read_bytes 32) (\<lambda>object_id.
     read_field 1 read_registered_id (\<lambda>stream_type.
     read_field 2 read_registered_id (\<lambda>codec_id.
     read_field 3 read_uint (\<lambda>codec_schema_major.
     read_field 4 read_uint (\<lambda>codec_schema_minor.
     read_field 5 read_true (\<lambda>_.
     read_field 6 read_uint (\<lambda>frame_bytes.
     demand (\<not> frame_bytes < 1)
     (read_field 7 (read_bytes 32) (\<lambda>token_sequence_digest.
     read_field 8 read_uint (\<lambda>logical_position.
     read_field 9 read_uint (\<lambda>output_boundary.
     read_field 10 read_null_or_uint (\<lambda>(coordinator_owned, logical_rank).
     demand (\<not> (\<not> coordinator_owned \<and> logical_rank \<ge> pm_world_size manifest))
     (read_field 11 (read_bytes 32) (\<lambda>rank_ownership_digest.
     demand (coordinator_owned \<or>
             rank_ownership_digest = pm_rank_ownership manifest ! unat logical_rank)
     (read_field 12 (read_bytes 32) (\<lambda>compatibility_root.
     demand (compatibility_root = pm_compatibility_root manifest)
     (return_reader \<lparr>
       or_object_id = object_id, or_stream_type = stream_type, or_codec_id = codec_id,
       or_codec_schema_major = codec_schema_major, or_codec_schema_minor = codec_schema_minor,
       or_required = True, or_frame_bytes = frame_bytes,
       or_token_sequence_digest = token_sequence_digest, or_logical_position = logical_position,
       or_output_boundary = output_boundary, or_has_logical_rank = (\<not> coordinator_owned),
       or_logical_rank = logical_rank, or_rank_ownership_digest = rank_ownership_digest,
       or_compatibility_root = compatibility_root\<rparr>))))))))))))))))))"

definition parse_header :: "parsed_manifest cbor_cursor" where
  "parse_header =
     bind_reader (read_map 2) (\<lambda>_.
     bind_reader (read_key 0) (\<lambda>_.
     bind_reader read_position (\<lambda>offset.
     bind_reader (read_map 4) (\<lambda>_.
     read_field 0 (read_map 15) (\<lambda>_.
     read_field 0 (read_uint_equal 1 wrong_version) (\<lambda>_.
     read_field 1 (read_uint_equal 0 wrong_version) (\<lambda>_.
     read_field 2 (read_bytes 16) (\<lambda>store_uuid.
     read_field 3 (read_bytes 32) (\<lambda>checkpoint_lineage_id.
     read_field 4 read_uint (\<lambda>generation.
     demand (\<not> generation < 1)
     (read_field 5 read_null_or_digest (\<lambda>(has_predecessor, predecessor_manifest_digest).
     demand (\<not> (generation = 1 \<and> has_predecessor) \<and> \<not> (generation > 1 \<and> \<not> has_predecessor))
     (read_field 6 (parse_compatibility_manifest (empty_manifest\<lparr>
         pm_authentication_input_offset := offset,
         pm_store_uuid := store_uuid, pm_checkpoint_lineage_id := checkpoint_lineage_id,
         pm_generation := generation, pm_has_predecessor := has_predecessor,
         pm_predecessor_manifest_digest := predecessor_manifest_digest\<rparr>)) (\<lambda>manifest.
     read_field 7 (read_bytes 32) (\<lambda>compatibility_root.
     read_field 8 (read_bytes 32) (\<lambda>scope_namespace.
     read_field 9 read_uint (\<lambda>policy_epoch.
     read_field 10 (parse_topology_manifest (manifest\<lparr>
         pm_compatibility_root := compatibility_root, pm_scope_namespace := scope_namespace,
         pm_policy_epoch := policy_epoch\<rparr>)) (\<lambda>manifest.
     read_field 11 read_registered_id (\<lambda>state_profile_id.
     bind_reader (read_key 12) (\<lambda>_.
     return_reader (manifest\<lparr>pm_state_profile_id := state_profile_id\<rparr>)))))))))))))))))))))"

definition parse_object ::
    "parsed_manifest \<Rightarrow> nat \<Rightarrow> object_reference list \<Rightarrow> object_reference cbor_cursor" where
  "parse_object manifest index previous =
     bind_reader (parse_object_descriptor manifest) (\<lambda>reference.
       demand (or_object_id reference \<notin> set (map or_object_id previous)) (return_reader reference))"

definition parse_trailer :: "parsed_manifest \<Rightarrow> parsed_manifest cbor_cursor" where
  "parse_trailer manifest =
     read_field 13 (read_bytes 32) (\<lambda>producer_identity.
     read_field 14 read_uint (\<lambda>durability.
     demand (\<not> durability > 2)
     (read_field 1 read_registered_id (\<lambda>authentication_key_id.
     read_field 2 (read_uint_equal 1 invalid_value) (\<lambda>_.
     read_field 3 read_uint (\<lambda>authentication_key_generation.
     bind_reader read_position (\<lambda>position.
     return_reader (manifest\<lparr>
       pm_producer_identity := producer_identity,
       pm_durability_mode := ucast durability,
       pm_authentication_key_id := authentication_key_id,
       pm_authentication_key_generation := authentication_key_generation,
       pm_authentication_input_size := position - pm_authentication_input_offset manifest\<rparr>))))))))"

definition parse_envelope :: "parsed_manifest cbor_cursor" where
  "parse_envelope =
     bind_reader parse_header (\<lambda>manifest.
     bind_reader (read_array 1 (of_nat manifest_max_objects)) (\<lambda>object_count.
     bind_reader (read_each (parse_object manifest) (unat object_count) []) (\<lambda>references.
     bind_reader (parse_trailer (manifest\<lparr>pm_object_references := references\<rparr>)) (\<lambda>manifest.
     read_field 1 (read_bytes 32) (\<lambda>authentication_tag.
     return_reader (manifest\<lparr>pm_authentication_tag := authentication_tag\<rparr>))))))"

text \<open>The result: the status and offset of a rejection, or the parsed manifest.\<close>

type_synonym manifest_parse_result = "(manifest_parse_status \<times> nat) + parsed_manifest"

fun failure_status :: "parse_failure \<Rightarrow> manifest_parse_status \<times> nat" where
  "failure_status (Failed status position) = (status, position)"
| "failure_status (Mismatch position) = (semantic_mismatch, position)"

definition context_store_parse_manifest_v1 :: "byte_span \<Rightarrow> manifest_parse_result" where
  "context_store_parse_manifest_v1 data =
     (if span_null data \<or> span_size data = 0 then Inl (input_empty, 0)
      else if span_size data > manifest_max_bytes then Inl (manifest_too_large, 0)
      else case parse_envelope (0, span_bytes data) of
          Inl failure \<Rightarrow> Inl (failure_status failure)
        | Inr (manifest, (position, rest)) \<Rightarrow>
            if rest \<noteq> [] then Inl (trailing_data, position) else Inr manifest)"

definition parse_status_of :: "manifest_parse_result \<Rightarrow> manifest_parse_status" where
  "parse_status_of r = (case r of Inl (status, _) \<Rightarrow> status | Inr _ \<Rightarrow> structural_only)"

subsection \<open>The head reader meets its contract\<close>

lemma read_head_reference:
  "read_head = cbor_read_head (Failed truncated) (Failed wrong_type) (Failed noncanonical)"
  by (simp add: fun_eq_iff read_head_def cbor_read_head_def Let_def head_width_def head_minimum_def
      bind_check cong: if_cong)

interpretation manifest_head: head_reader read_head
  by unfold_locales (simp_all add: read_head_reference cbor_read_head_accepts cbor_read_head_canonical)

definition valid_registered_id :: "registered_id \<Rightarrow> bool" where
  "valid_registered_id v \<longleftrightarrow>
     1 \<le> length v \<and> length v \<le> registered_id_max_bytes \<and> valid_utf8_without_nul v"

definition optional_digest_bytes :: "bool \<Rightarrow> digest \<Rightarrow> byte list" where
  "optional_digest_bytes present d = (if present then cbor_bytes d else [cbor_null])"

definition optional_uint_bytes :: "bool \<Rightarrow> u64 \<Rightarrow> byte list" where
  "optional_uint_bytes absent v = (if absent then [cbor_null] else cbor_uint v)"

lemma read_map_Inr [reader_simps]:
  "read_map n (p, xs) = Inr (u, (q, ys)) \<longleftrightarrow> xs = cbor_head 5 n @ ys \<and> q = p + length (cbor_head 5 n)"
  by (simp add: read_map_def manifest_head.expect_iff)

lemma read_uint_Inr [reader_simps]:
  "read_uint (p, xs) = Inr (v, (q, ys)) \<longleftrightarrow> xs = cbor_uint v @ ys \<and> q = p + length (cbor_uint v)"
  by (simp add: read_uint_def manifest_head.head_iff)

lemma read_key_Inr [reader_simps]:
  "read_key n (p, xs) = Inr (u, (q, ys)) \<longleftrightarrow> xs = cbor_uint n @ ys \<and> q = p + length (cbor_uint n)"
  by (simp add: read_key_def read_uint_def manifest_head.expect_iff)

lemma read_uint_equal_Inr [reader_simps]:
  "read_uint_equal n st (p, xs) = Inr (u, (q, ys)) \<longleftrightarrow> xs = cbor_uint n @ ys \<and> q = p + length (cbor_uint n)"
  by (simp add: read_uint_equal_def read_uint_def manifest_head.expect_iff)

lemma read_array_Inr [reader_simps]:
  "read_array lo hi (p, xs) = Inr (v, (q, ys)) \<longleftrightarrow>
     lo \<le> v \<and> v \<le> hi \<and> xs = cbor_head 4 v @ ys \<and> q = p + length (cbor_head 4 v)"
  by (auto simp: read_array_def reader_simps manifest_head.head_iff)

lemma read_bytes_Inr [reader_simps]:
  "N < 2 ^ 64 \<Longrightarrow> read_bytes N (p, xs) = Inr (v, (q, ys)) \<longleftrightarrow>
     length v = N \<and> xs = cbor_bytes v @ ys \<and> q = p + length (cbor_bytes v)"
  by (simp add: read_bytes_def manifest_head.fixed_bytes_iff)

lemma read_null_or_digest_Inr [reader_simps]:
  "read_null_or_digest (p, xs) = Inr ((present, d), (q, ys)) \<longleftrightarrow>
     (if present then length d = 32 else d = zero_digest) \<and>
     xs = optional_digest_bytes present d @ ys \<and> q = p + length (optional_digest_bytes present d)"
  using cbor_head_not_null [of 2 "of_nat (length d)"] cbor_head_uncons [of 2 "of_nat (length d)"]
  by (auto simp: read_null_or_digest_def reader_simps optional_digest_bytes_def cbor_bytes_def cbor_null_def)

lemma read_null_or_uint_Inr [reader_simps]:
  "read_null_or_uint (p, xs) = Inr ((absent, v), (q, ys)) \<longleftrightarrow>
     (absent \<longrightarrow> v = 0) \<and>
     xs = optional_uint_bytes absent v @ ys \<and> q = p + length (optional_uint_bytes absent v)"
  using cbor_head_not_null [of 0 v] cbor_head_uncons [of 0 v]
  by (auto simp: read_null_or_uint_def reader_simps optional_uint_bytes_def cbor_null_def)

lemma read_true_Inr [reader_simps]:
  "read_true (p, xs) = Inr (u, (q, ys)) \<longleftrightarrow> xs = 0xf5 # ys \<and> q = p + 1"
  by (auto simp: read_true_def reader_simps)

lemma read_registered_id_Inr [reader_simps]:
  "read_registered_id (p, xs) = Inr (v, (q, ys)) \<longleftrightarrow>
     valid_registered_id v \<and> xs = cbor_text v @ ys \<and> q = p + length (cbor_text v)"
proof -
  have "read_registered_id (p, xs) = Inr (v, (q, ys)) \<longleftrightarrow> valid_utf8_without_nul v \<and>
     bind_reader (read_head 3) (\<lambda>n. bind_reader (check (Failed limit_exceeded)
         (of_nat 1 \<le> n \<and> n \<le> of_nat registered_id_max_bytes))
       (\<lambda>_. take_bytes (Failed truncated) (unat n))) (p, xs) = Inr (v, (q, ys))"
    by (simp add: read_registered_id_def bind_reader_Inr [of "read_head 3"] bind_check peek_then_take
        if_reader_Inr fail_reader_Inr) blast
  then show ?thesis
    using manifest_head.text_iff [of 1 registered_id_max_bytes "Failed limit_exceeded" "Failed truncated" p xs v q ys]
    by (auto simp: valid_registered_id_def registered_id_max_bytes_def)
qed

lemma read_field_Inr [reader_simps]:
  "read_field k P f (p, xs) = Inr r \<longleftrightarrow>
     (\<exists>ys. xs = cbor_uint k @ ys \<and> bind_reader P f (p + length (cbor_uint k), ys) = Inr r)"
  by (auto simp: read_field_def bind_reader_Inr [of "read_key k"] reader_simps)

lemma demand_Inr [reader_simps]: "demand b P c = Inr r \<longleftrightarrow> b \<and> P c = Inr r"
  by (cases c) (auto simp: demand_def reader_simps)

lemma cursor_eval [reader_eval]:
  "read_map n (p, cbor_head 5 n @ ys) = Inr ((), (p + length (cbor_head 5 n), ys))"
  "read_uint (p, cbor_uint v @ ys) = Inr (v, (p + length (cbor_uint v), ys))"
  "read_key n (p, cbor_uint n @ ys) = Inr ((), (p + length (cbor_uint n), ys))"
  "read_uint_equal n st (p, cbor_uint n @ ys) = Inr ((), (p + length (cbor_uint n), ys))"
  "lo \<le> v \<Longrightarrow> v \<le> hi \<Longrightarrow> read_array lo hi (p, cbor_head 4 v @ ys) = Inr (v, (p + length (cbor_head 4 v), ys))"
  "length bs = N \<Longrightarrow> N < 2 ^ 64 \<Longrightarrow> read_bytes N (p, cbor_bytes bs @ ys) = Inr (bs, (p + length (cbor_bytes bs), ys))"
  "(if present then length d = 32 else d = zero_digest) \<Longrightarrow>
     read_null_or_digest (p, optional_digest_bytes present d @ ys) =
     Inr ((present, d), (p + length (optional_digest_bytes present d), ys))"
  "(absent \<longrightarrow> v = 0) \<Longrightarrow>
     read_null_or_uint (p, optional_uint_bytes absent v @ ys) =
     Inr ((absent, v), (p + length (optional_uint_bytes absent v), ys))"
  "read_true (p, 0xf5 # ys) = Inr ((), (p + 1, ys))"
  "valid_registered_id bs \<Longrightarrow> read_registered_id (p, cbor_text bs @ ys) = Inr (bs, (p + length (cbor_text bs), ys))"
  by (simp_all add: reader_simps)

lemma read_field_eval [reader_eval]:
  "read_field k P f (p, cbor_uint k @ ys) = bind_reader P f (p + length (cbor_uint k), ys)"
  by (simp add: read_field_def bind_reader_def cursor_eval)

lemma demand_eval [reader_eval]: "b \<Longrightarrow> demand b P c = P c"
  by (simp add: demand_def bind_check)

subsection \<open>The canonical encoding of a manifest\<close>

definition rank_ok :: "digest \<times> digest \<Rightarrow> bool" where
  "rank_ok r \<longleftrightarrow> length (fst r) = 32 \<and> length (snd r) = 32"

definition component_bytes :: "nat \<Rightarrow> digest \<Rightarrow> byte list" where
  "component_bytes i d = cbor_uint (of_nat i) @ cbor_bytes d"

definition compatibility_bytes :: "digest list \<Rightarrow> byte list" where
  "compatibility_bytes components = cbor_head 5 16 @ enc_each component_bytes 0 components"

definition rank_bytes :: "nat \<Rightarrow> digest \<times> digest \<Rightarrow> byte list" where
  "rank_bytes i r =
     cbor_head 5 3 @ cbor_uint 0 @ cbor_uint (of_nat i) @ cbor_uint 1 @ cbor_bytes (fst r)
     @ cbor_uint 2 @ cbor_bytes (snd r)"

definition topology_bytes :: "parsed_manifest \<Rightarrow> byte list" where
  "topology_bytes m =
     cbor_head 5 6
     @ cbor_uint 0 @ cbor_text (pm_topology_plan_schema_id m)
     @ cbor_uint 1 @ cbor_text (pm_topology_execution_mode m)
     @ cbor_uint 2 @ cbor_uint (pm_world_size m)
     @ cbor_uint 3 @ cbor_bytes (pm_global_plan_digest m)
     @ cbor_uint 4 @ cbor_uint (pm_topology_epoch m)
     @ cbor_uint 5 @ cbor_head 4 (pm_world_size m)
     @ enc_each rank_bytes 0 (zip (pm_rank_ownership m) (pm_rank_placements m))"

definition object_bytes :: "object_reference \<Rightarrow> byte list" where
  "object_bytes r =
     cbor_head 5 13
     @ cbor_uint 0 @ cbor_bytes (or_object_id r)
     @ cbor_uint 1 @ cbor_text (or_stream_type r)
     @ cbor_uint 2 @ cbor_text (or_codec_id r)
     @ cbor_uint 3 @ cbor_uint (or_codec_schema_major r)
     @ cbor_uint 4 @ cbor_uint (or_codec_schema_minor r)
     @ cbor_uint 5 @ [0xf5]
     @ cbor_uint 6 @ cbor_uint (or_frame_bytes r)
     @ cbor_uint 7 @ cbor_bytes (or_token_sequence_digest r)
     @ cbor_uint 8 @ cbor_uint (or_logical_position r)
     @ cbor_uint 9 @ cbor_uint (or_output_boundary r)
     @ cbor_uint 10 @ optional_uint_bytes (\<not> or_has_logical_rank r) (or_logical_rank r)
     @ cbor_uint 11 @ cbor_bytes (or_rank_ownership_digest r)
     @ cbor_uint 12 @ cbor_bytes (or_compatibility_root r)"

definition manifest_prefix_bytes :: "parsed_manifest \<Rightarrow> byte list" where
  "manifest_prefix_bytes m =
     cbor_head 5 4 @ cbor_uint 0 @ cbor_head 5 15
     @ cbor_uint 0 @ cbor_uint 1 @ cbor_uint 1 @ cbor_uint 0
     @ cbor_uint 2 @ cbor_bytes (pm_store_uuid m)
     @ cbor_uint 3 @ cbor_bytes (pm_checkpoint_lineage_id m)
     @ cbor_uint 4 @ cbor_uint (pm_generation m)
     @ cbor_uint 5 @ optional_digest_bytes (pm_has_predecessor m) (pm_predecessor_manifest_digest m)
     @ cbor_uint 6"

definition manifest_suffix_bytes :: "parsed_manifest \<Rightarrow> byte list" where
  "manifest_suffix_bytes m =
     cbor_uint 7 @ cbor_bytes (pm_compatibility_root m)
     @ cbor_uint 8 @ cbor_bytes (pm_scope_namespace m)
     @ cbor_uint 9 @ cbor_uint (pm_policy_epoch m)
     @ cbor_uint 10 @ topology_bytes m
     @ cbor_uint 11 @ cbor_text (pm_state_profile_id m)
     @ cbor_uint 12"

definition manifest_trailer_bytes :: "parsed_manifest \<Rightarrow> byte list" where
  "manifest_trailer_bytes m =
     cbor_uint 13 @ cbor_bytes (pm_producer_identity m)
     @ cbor_uint 14 @ cbor_uint (ucast (pm_durability_mode m))
     @ cbor_uint 1 @ cbor_text (pm_authentication_key_id m)
     @ cbor_uint 2 @ cbor_uint 1
     @ cbor_uint 3 @ cbor_uint (pm_authentication_key_generation m)"

definition manifest_auth_input :: "parsed_manifest \<Rightarrow> byte list" where
  "manifest_auth_input m =
     manifest_prefix_bytes m @ compatibility_bytes (pm_compatibility_components m)
     @ manifest_suffix_bytes m
     @ cbor_head 4 (of_nat (length (pm_object_references m)))
     @ enc_each (\<lambda>_. object_bytes) 0 (pm_object_references m)
     @ manifest_trailer_bytes m"

definition manifest_bytes :: "parsed_manifest \<Rightarrow> byte list" where
  "manifest_bytes m =
     cbor_head 5 2 @ cbor_uint 0 @ manifest_auth_input m
     @ cbor_uint 1 @ cbor_bytes (pm_authentication_tag m)"

definition topology_ok :: "parsed_manifest \<Rightarrow> bool" where
  "topology_ok m \<longleftrightarrow>
     valid_registered_id (pm_topology_plan_schema_id m) \<and>
     valid_registered_id (pm_topology_execution_mode m) \<and>
     pm_world_size m \<noteq> 0 \<and> pm_world_size m \<le> of_nat manifest_max_ranks \<and>
     length (pm_global_plan_digest m) = 32 \<and>
     length (pm_rank_ownership m) = unat (pm_world_size m) \<and>
     length (pm_rank_placements m) = unat (pm_world_size m) \<and>
     (\<forall>d \<in> set (pm_rank_ownership m). length d = 32) \<and>
     (\<forall>d \<in> set (pm_rank_placements m). length d = 32)"

definition object_ok :: "parsed_manifest \<Rightarrow> object_reference \<Rightarrow> bool" where
  "object_ok m r \<longleftrightarrow>
     length (or_object_id r) = 32 \<and> valid_registered_id (or_stream_type r) \<and>
     valid_registered_id (or_codec_id r) \<and> or_required r \<and> or_frame_bytes r \<noteq> 0 \<and>
     length (or_token_sequence_digest r) = 32 \<and>
     (if or_has_logical_rank r
      then or_logical_rank r < pm_world_size m \<and>
           or_rank_ownership_digest r = pm_rank_ownership m ! unat (or_logical_rank r)
      else or_logical_rank r = 0) \<and>
     length (or_rank_ownership_digest r) = 32 \<and>
     length (or_compatibility_root r) = 32 \<and> or_compatibility_root r = pm_compatibility_root m"

definition header_ok :: "parsed_manifest \<Rightarrow> bool" where
  "header_ok m \<longleftrightarrow>
     length (pm_store_uuid m) = 16 \<and> length (pm_checkpoint_lineage_id m) = 32 \<and>
     pm_generation m \<noteq> 0 \<and> (pm_has_predecessor m \<longleftrightarrow> pm_generation m \<noteq> 1) \<and>
     (if pm_has_predecessor m then length (pm_predecessor_manifest_digest m) = 32
      else pm_predecessor_manifest_digest m = zero_digest) \<and>
     length (pm_compatibility_components m) = compatibility_component_count \<and>
     (\<forall>d \<in> set (pm_compatibility_components m). length d = 32) \<and>
     length (pm_compatibility_root m) = 32 \<and> length (pm_scope_namespace m) = 32 \<and>
     topology_ok m \<and> valid_registered_id (pm_state_profile_id m)"

definition trailer_ok :: "parsed_manifest \<Rightarrow> bool" where
  "trailer_ok m \<longleftrightarrow>
     length (pm_producer_identity m) = 32 \<and> pm_durability_mode m \<le> 2 \<and>
     valid_registered_id (pm_authentication_key_id m) \<and> length (pm_authentication_tag m) = 32"

definition wf_manifest :: "parsed_manifest \<Rightarrow> bool" where
  "wf_manifest m \<longleftrightarrow>
     header_ok m \<and> trailer_ok m \<and>
     1 \<le> length (pm_object_references m) \<and>
     length (pm_object_references m) \<le> manifest_max_objects \<and>
     (\<forall>r \<in> set (pm_object_references m). object_ok m r) \<and>
     distinct (map or_object_id (pm_object_references m)) \<and>
     pm_authentication_input_offset m = 2 \<and>
     pm_authentication_input_size m = length (manifest_auth_input m) \<and>
     pm_compatibility_manifest_offset m = 2 + length (manifest_prefix_bytes m) \<and>
     pm_compatibility_manifest_size m = length (compatibility_bytes (pm_compatibility_components m))"

lemma word_gt_1: "(1 :: u64) < g \<longleftrightarrow> g \<noteq> 0 \<and> g \<noteq> 1"
  by (auto simp: word_less_nat_alt word_unat_eq_iff)

lemma word_ge_1: "(1 :: u64) \<le> g \<longleftrightarrow> g \<noteq> 0"
  by (auto simp: word_le_nat_alt word_unat_eq_iff)

subsection \<open>The parsers accept exactly the canonical encodings\<close>

lemma read_components_Inr:
  "read_each (\<lambda>field _. read_field (of_nat field) (read_bytes 32) return_reader)
      compatibility_component_count [] (p, xs) = Inr (cs, (q, ys)) \<longleftrightarrow>
   length cs = compatibility_component_count \<and> (\<forall>d \<in> set cs. length d = 32) \<and>
   xs = enc_each component_bytes 0 cs @ ys \<and> q = p + length (enc_each component_bytes 0 cs)"
  by (subst read_each_iff [where N = compatibility_component_count and enc = component_bytes
        and ok = "\<lambda>_ _ d. length d = 32"])
     (auto simp: reader_simps component_bytes_def ok_each_const)

lemma parse_compatibility_Inr:
  "parse_compatibility_manifest m0 (p, xs) = Inr (m, (q, ys)) \<longleftrightarrow>
   (\<exists>cs. length cs = compatibility_component_count \<and> (\<forall>d \<in> set cs. length d = 32) \<and>
      m = m0\<lparr>pm_compatibility_manifest_offset := p, pm_compatibility_components := cs,
             pm_compatibility_manifest_size := length (compatibility_bytes cs)\<rparr> \<and>
      xs = compatibility_bytes cs @ ys \<and> q = p + length (compatibility_bytes cs))"
  by (auto simp: parse_compatibility_manifest_def reader_simps read_components_Inr compatibility_bytes_def)

lemma parse_rank_Inr:
  assumes "index < unat world_size"
  shows "parse_rank world_size index ranks (p, xs) = Inr (r, (q, ys)) \<longleftrightarrow>
    fst r = of_nat index \<and> fst r \<notin> set (map fst ranks) \<and>
    rank_ok (snd r) \<and>
    xs = rank_bytes index (snd r) @ ys \<and> q = p + length (rank_bytes index (snd r))"
proof -
  have "unat (of_nat index :: u64) = index"
    using assms unat_u64_bound [of world_size] by (simp add: unat_of_nat)
  then have "(of_nat index :: u64) < world_size" using assms by (simp add: word_less_nat_alt)
  then show ?thesis
    by (cases r) (auto simp: parse_rank_def reader_simps rank_bytes_def rank_ok_def not_le)
qed

lemma all_less_fresh:
  "(\<And>j. \<forall>k < n. A k \<Longrightarrow> j < n \<Longrightarrow> F j) \<Longrightarrow>
     (\<forall>j < (n :: nat). A j \<and> F j \<and> P j) \<longleftrightarrow> (\<forall>j < n. A j) \<and> (\<forall>j < n. P j)"
  by blast

lemma ranks_ok_iff:
  assumes "length rs \<le> 128"
  shows "ok_each (\<lambda>i acc r. fst r = (of_nat i :: u64) \<and> fst r \<notin> fst ` set acc \<and> P r) [] rs \<longleftrightarrow>
         map fst rs = map of_nat [0..<length rs] \<and> (\<forall>r \<in> set rs. P r)"
proof -
  have inj: "(of_nat i :: u64) = of_nat j \<longleftrightarrow> i = j" if "i < length rs" "j < length rs" for i j
    using that assms by (simp add: word_unat_eq_iff unat_of_nat)
  have fresh: "fst (rs ! j) \<notin> fst ` set (take j rs)"
    if k: "\<forall>k < length rs. fst (rs ! k) = of_nat k" and "j < length rs" for j
  proof
    assume "fst (rs ! j) \<in> fst ` set (take j rs)"
    then obtain i where "i < j" "fst (rs ! j) = fst (rs ! i)"
      using \<open>j < length rs\<close> by (auto simp: in_set_conv_nth)
    then show False using k inj [of j i] \<open>j < length rs\<close> by simp
  qed
  have "ok_each (\<lambda>i acc r. fst r = (of_nat i :: u64) \<and> fst r \<notin> fst ` set acc \<and> P r) [] rs \<longleftrightarrow>
      (\<forall>j < length rs. fst (rs ! j) = of_nat j) \<and> (\<forall>j < length rs. P (rs ! j))"
    using all_less_fresh [of "length rs" "\<lambda>j. fst (rs ! j) = of_nat j"
        "\<lambda>j. fst (rs ! j) \<notin> fst ` set (take j rs)" "\<lambda>j. P (rs ! j)", OF fresh]
    by (simp only: ok_each_iff list.size add_0 append_Nil)
  moreover have "map fst rs = map of_nat [0..<length rs] \<longleftrightarrow> (\<forall>j < length rs. fst (rs ! j) = of_nat j)"
    by (subst list_eq_iff_nth_eq) simp
  ultimately show ?thesis unfolding all_set_conv_all_nth by (simp only:)
qed

lemma enc_each_snd: "enc_each (\<lambda>i r. enc i (snd r)) i rs = enc_each enc i (map snd rs)"
  by (induction rs arbitrary: i) simp_all

lemma read_ranks_Inr:
  assumes "world_size \<le> of_nat manifest_max_ranks"
  shows "read_each (parse_rank world_size) (unat world_size) [] (p, xs) = Inr (rs, (q, ys)) \<longleftrightarrow>
    length rs = unat world_size \<and> map fst rs = map of_nat [0..<length rs] \<and>
    (\<forall>r \<in> set rs. rank_ok (snd r)) \<and>
    xs = enc_each rank_bytes 0 (map snd rs) @ ys \<and> q = p + length (enc_each rank_bytes 0 (map snd rs))"
proof -
  let ?ok = "\<lambda>i acc r. fst r = (of_nat i :: u64) \<and> fst r \<notin> fst ` set acc \<and> rank_ok (snd r)"
  have n: "unat world_size \<le> 128" using assms by (simp add: word_le_nat_alt manifest_max_ranks_def)
  have "read_each (parse_rank world_size) (unat world_size) [] (p, xs) = Inr (rs, (q, ys)) \<longleftrightarrow>
      (\<exists>ws. rs = [] @ ws \<and> length ws = unat world_size \<and> ok_each ?ok [] ws \<and>
         xs = enc_each (\<lambda>i r. rank_bytes i (snd r)) (length ([] :: (u64 \<times> digest \<times> digest) list)) ws @ ys \<and>
         q = p + length (enc_each (\<lambda>i r. rank_bytes i (snd r)) (length ([] :: (u64 \<times> digest \<times> digest) list)) ws))"
    by (rule read_each_iff [where N = "unat world_size"]) (simp_all add: parse_rank_Inr)
  then show ?thesis using n ranks_ok_iff [of rs "\<lambda>r. rank_ok (snd r)"]
    by (simp add: enc_each_snd conj_assoc cong: conj_cong)
qed

lemma zip_map_pairs: "zip (map (fst \<circ> snd) rs) (map (snd \<circ> snd) rs) = map snd rs"
  by (induction rs) simp_all

definition topology_part :: "parsed_manifest \<Rightarrow> parsed_manifest \<Rightarrow> parsed_manifest" where
  "topology_part m0 m = m0\<lparr>
       pm_topology_plan_schema_id := pm_topology_plan_schema_id m,
       pm_topology_execution_mode := pm_topology_execution_mode m,
       pm_world_size := pm_world_size m,
       pm_global_plan_digest := pm_global_plan_digest m,
       pm_topology_epoch := pm_topology_epoch m,
       pm_rank_ownership := pm_rank_ownership m,
       pm_rank_placements := pm_rank_placements m\<rparr>"

lemma ranks_of_columns:
  assumes "length os = n" "length ps = n"
  obtains rs :: "(u64 \<times> 'a \<times> 'b) list" where "length rs = n" "map fst rs = map of_nat [0..<n]"
    "map (fst \<circ> snd) rs = os" "map (snd \<circ> snd) rs = ps"
proof
  let ?rs = "zip (map of_nat [0..<n]) (zip os ps)"
  show "length ?rs = n" "map fst ?rs = map of_nat [0..<n]" "map (fst \<circ> snd) ?rs = os"
    "map (snd \<circ> snd) ?rs = ps" using assms by (simp_all flip: map_map)
qed

lemma parse_topology_Inr:
  "parse_topology_manifest m0 (p, xs) = Inr (m, (q, ys)) \<longleftrightarrow>
     topology_ok m \<and> topology_part m0 m = m \<and>
     xs = topology_bytes m @ ys \<and> q = p + length (topology_bytes m)"
  (is "?L \<longleftrightarrow> ?R")
proof
  assume ?L
  then show ?R
    by (auto simp: parse_topology_manifest_def reader_simps read_ranks_Inr topology_ok_def
        topology_part_def topology_bytes_def zip_map_pairs not_less rank_ok_def)
next
  assume R: ?R
  then obtain rs :: "(u64 \<times> digest \<times> digest) list" where rs: "length rs = unat (pm_world_size m)"
    "map fst rs = map of_nat [0..<unat (pm_world_size m)]"
    "map (fst \<circ> snd) rs = pm_rank_ownership m" "map (snd \<circ> snd) rs = pm_rank_placements m"
    using ranks_of_columns [of "pm_rank_ownership m" "unat (pm_world_size m)" "pm_rank_placements m"]
    by (auto simp: topology_ok_def)
  have z: "zip (pm_rank_ownership m) (pm_rank_placements m) = map snd rs"
    using zip_map_pairs [of rs] rs by simp
  have l: "\<forall>r \<in> set rs. rank_ok (snd r)"
    using R unfolding topology_ok_def rank_ok_def rs(3,4) [symmetric] by auto
  have e: "read_each (parse_rank (pm_world_size m)) (unat (pm_world_size m)) []
      (p, enc_each rank_bytes 0 (map snd rs) @ ys) =
      Inr (rs, (p + length (enc_each rank_bytes 0 (map snd rs)), ys))" for p
    using R rs l by (simp add: read_ranks_Inr topology_ok_def)
  have "topology_part m0 m = m" "topology_ok m" "xs = topology_bytes m @ ys" "q = p + length (topology_bytes m)"
    using R by simp_all
  with rs z l show ?L
    by (simp add: parse_topology_manifest_def reader_eval e topology_ok_def topology_bytes_def
        topology_part_def not_less word_ge_1)
qed

lemma parse_object_Inr:
  "parse_object_descriptor m (p, xs) = Inr (r, (q, ys)) \<longleftrightarrow>
     object_ok m r \<and> xs = object_bytes r @ ys \<and> q = p + length (object_bytes r)"
  (is "?L \<longleftrightarrow> ?R")
proof
  assume ?L
  then show ?R
    by (auto simp: parse_object_descriptor_def reader_simps object_ok_def object_bytes_def not_less not_le)
next
  assume ?R
  then show ?L
    by (cases r) (auto simp: parse_object_descriptor_def reader_eval object_ok_def object_bytes_def
        not_less not_le split: if_splits)
qed

definition header_part :: "parsed_manifest \<Rightarrow> parsed_manifest" where
  "header_part m = m\<lparr>pm_object_references := [], pm_producer_identity := zero_digest,
     pm_durability_mode := 0, pm_authentication_key_id := [], pm_authentication_key_generation := 0,
     pm_authentication_tag := zero_digest, pm_authentication_input_size := 0\<rparr>"

lemma length_head_small: "v < 24 \<Longrightarrow> length (cbor_head m v) = 1"
  by (simp add: cbor_head_def)

definition same_base :: "parsed_manifest \<Rightarrow> parsed_manifest \<Rightarrow> bool" where
  "same_base m0 m \<longleftrightarrow>
    pm_store_uuid m = pm_store_uuid m0 \<and> pm_checkpoint_lineage_id m = pm_checkpoint_lineage_id m0 \<and>
    pm_generation m = pm_generation m0 \<and> pm_has_predecessor m = pm_has_predecessor m0 \<and>
    pm_predecessor_manifest_digest m = pm_predecessor_manifest_digest m0 \<and>
    pm_compatibility_components m = pm_compatibility_components m0 \<and>
    pm_compatibility_root m = pm_compatibility_root m0 \<and>
    pm_compatibility_manifest_offset m = pm_compatibility_manifest_offset m0 \<and>
    pm_compatibility_manifest_size m = pm_compatibility_manifest_size m0 \<and>
    pm_scope_namespace m = pm_scope_namespace m0 \<and> pm_policy_epoch m = pm_policy_epoch m0 \<and>
    pm_authentication_input_offset m = pm_authentication_input_offset m0"

lemma topology_part_fields:
  assumes "topology_part m0 m = m" "header_part m0 = m0"
  shows "same_base m0 m \<and> header_part m = m"
proof -
  have "same_base m0 (topology_part m0 m)" by (simp add: same_base_def topology_part_def)
  moreover have "header_part (topology_part m0 m) = topology_part m0 m"
    using assms(2) by (cases m0) (simp add: topology_part_def header_part_def)
  ultimately show ?thesis using assms(1) by simp
qed

lemma header_part_base:
  "header_part (empty_manifest\<lparr>
     pm_authentication_input_offset := offset,
     pm_store_uuid := store_uuid, pm_checkpoint_lineage_id := lineage,
     pm_generation := generation, pm_has_predecessor := has_predecessor,
     pm_predecessor_manifest_digest := predecessor,
     pm_compatibility_manifest_offset := compat_offset,
     pm_compatibility_components := components, pm_compatibility_manifest_size := compat_size,
     pm_compatibility_root := root, pm_scope_namespace := scope, pm_policy_epoch := epoch\<rparr>) =
   empty_manifest\<lparr>
     pm_authentication_input_offset := offset,
     pm_store_uuid := store_uuid, pm_checkpoint_lineage_id := lineage,
     pm_generation := generation, pm_has_predecessor := has_predecessor,
     pm_predecessor_manifest_digest := predecessor,
     pm_compatibility_manifest_offset := compat_offset,
     pm_compatibility_components := components, pm_compatibility_manifest_size := compat_size,
     pm_compatibility_root := root, pm_scope_namespace := scope, pm_policy_epoch := epoch\<rparr>"
  by (simp add: header_part_def empty_manifest_def)

lemma profile_update [simp]:
  "topology_ok (m\<lparr>pm_state_profile_id := x\<rparr>) = topology_ok m"
  "topology_bytes (m\<lparr>pm_state_profile_id := x\<rparr>) = topology_bytes m"
  by (simp_all add: topology_ok_def topology_bytes_def)

lemma header_part_profile:
  "header_part m = m \<Longrightarrow> header_part (m\<lparr>pm_state_profile_id := x\<rparr>) = m\<lparr>pm_state_profile_id := x\<rparr>"
  by (cases m) (simp add: header_part_def)

lemma parse_header_sound:
  assumes "parse_header (0, xs) = Inr (m, (q, ys))"
  shows "header_ok m \<and> header_part m = m \<and>
     pm_authentication_input_offset m = 2 \<and>
     pm_compatibility_manifest_offset m = 2 + length (manifest_prefix_bytes m) \<and>
     pm_compatibility_manifest_size m = length (compatibility_bytes (pm_compatibility_components m)) \<and>
     xs = cbor_head 5 2 @ cbor_uint 0 @ manifest_prefix_bytes m
          @ compatibility_bytes (pm_compatibility_components m) @ manifest_suffix_bytes m @ ys \<and>
     q = 2 + length (manifest_prefix_bytes m)
           + length (compatibility_bytes (pm_compatibility_components m))
           + length (manifest_suffix_bytes m)"
  using assms
  apply (simp add: parse_header_def reader_simps parse_compatibility_Inr parse_topology_Inr length_head_small word_gt_1)
  apply (elim exE conjE)
  apply hypsubst_thin
  apply (drule topology_part_fields, rule header_part_base)
  apply (simp add: header_ok_def manifest_prefix_bytes_def manifest_suffix_bytes_def length_head_small
      header_part_profile same_base_def)
  by blast

lemma parse_compatibility_eval [reader_eval]:
  "length cs = compatibility_component_count \<Longrightarrow> \<forall>d \<in> set cs. length d = 32 \<Longrightarrow>
   parse_compatibility_manifest m0 (p, compatibility_bytes cs @ ys) =
   Inr (m0\<lparr>pm_compatibility_manifest_offset := p, pm_compatibility_components := cs,
            pm_compatibility_manifest_size := length (compatibility_bytes cs)\<rparr>,
        (p + length (compatibility_bytes cs), ys))"
  by (auto simp: parse_compatibility_Inr)

lemma topology_part_simps:
  "topology_ok (topology_part m0 m) = topology_ok m"
  "topology_bytes (topology_part m0 m) = topology_bytes m"
  "topology_part m0 (topology_part m0 m) = topology_part m0 m"
  by (simp_all add: topology_ok_def topology_bytes_def topology_part_def)

lemma parse_topology_eval [reader_eval]:
  "topology_ok m \<Longrightarrow> parse_topology_manifest m0 (p, topology_bytes m @ ys) =
     Inr (topology_part m0 m, (p + length (topology_bytes m), ys))"
  by (simp add: parse_topology_Inr topology_part_simps)

lemma parse_header_complete:
  assumes "header_ok m" "pm_authentication_input_offset m = 2"
    "pm_compatibility_manifest_offset m = 2 + length (manifest_prefix_bytes m)"
    "pm_compatibility_manifest_size m = length (compatibility_bytes (pm_compatibility_components m))"
  shows "parse_header (0, cbor_head 5 2 @ cbor_uint 0 @ manifest_prefix_bytes m
          @ compatibility_bytes (pm_compatibility_components m) @ manifest_suffix_bytes m @ ys) =
    Inr (header_part m, (2 + length (manifest_prefix_bytes m)
           + length (compatibility_bytes (pm_compatibility_components m))
           + length (manifest_suffix_bytes m), ys))"
proof -
  have assembled: "header_part m = (topology_part (empty_manifest\<lparr>
         pm_authentication_input_offset := pm_authentication_input_offset m,
         pm_store_uuid := pm_store_uuid m, pm_checkpoint_lineage_id := pm_checkpoint_lineage_id m,
         pm_generation := pm_generation m, pm_has_predecessor := pm_has_predecessor m,
         pm_predecessor_manifest_digest := pm_predecessor_manifest_digest m,
         pm_compatibility_manifest_offset := pm_compatibility_manifest_offset m,
         pm_compatibility_components := pm_compatibility_components m,
         pm_compatibility_manifest_size := pm_compatibility_manifest_size m,
         pm_compatibility_root := pm_compatibility_root m, pm_scope_namespace := pm_scope_namespace m,
         pm_policy_epoch := pm_policy_epoch m\<rparr>) m)\<lparr>pm_state_profile_id := pm_state_profile_id m\<rparr>"
    by (cases m) (simp add: topology_part_def header_part_def empty_manifest_def)
  have "parse_header (0, cbor_head 5 2 @ cbor_uint 0 @ manifest_prefix_bytes m
          @ compatibility_bytes (pm_compatibility_components m) @ manifest_suffix_bytes m @ ys) =
    Inr ((topology_part (empty_manifest\<lparr>
         pm_authentication_input_offset := 2,
         pm_store_uuid := pm_store_uuid m, pm_checkpoint_lineage_id := pm_checkpoint_lineage_id m,
         pm_generation := pm_generation m, pm_has_predecessor := pm_has_predecessor m,
         pm_predecessor_manifest_digest := pm_predecessor_manifest_digest m,
         pm_compatibility_manifest_offset := 2 + length (manifest_prefix_bytes m),
         pm_compatibility_components := pm_compatibility_components m,
         pm_compatibility_manifest_size := length (compatibility_bytes (pm_compatibility_components m)),
         pm_compatibility_root := pm_compatibility_root m, pm_scope_namespace := pm_scope_namespace m,
         pm_policy_epoch := pm_policy_epoch m\<rparr>) m)\<lparr>pm_state_profile_id := pm_state_profile_id m\<rparr>,
      (2 + length (manifest_prefix_bytes m)
           + length (compatibility_bytes (pm_compatibility_components m))
           + length (manifest_suffix_bytes m), ys))"
    using assms(1) by (simp add: parse_header_def reader_eval header_ok_def manifest_prefix_bytes_def
      manifest_suffix_bytes_def length_head_small word_gt_1) (simp add: add.assoc numeral_2_eq_2)
  then show ?thesis by (simp only: assembled assms(2-4))
qed

lemma read_objects_Inr:
  "read_each (parse_object m) n [] (p, xs) = Inr (rs, (q, ys)) \<longleftrightarrow>
   length rs = n \<and> (\<forall>r \<in> set rs. object_ok m r) \<and> distinct (map or_object_id rs) \<and>
   xs = enc_each (\<lambda>_. object_bytes) 0 rs @ ys \<and> q = p + length (enc_each (\<lambda>_. object_bytes) 0 rs)"
  by (subst read_each_iff [where N = n and enc = "\<lambda>_. object_bytes"
        and ok = "\<lambda>_ acc r. object_ok m r \<and> or_object_id r \<notin> or_object_id ` set acc"])
     (auto simp: parse_object_def reader_simps parse_object_Inr ok_each_fresh)

lemma header_part_simps [simp]:
  "header_ok (header_part m) = header_ok m"
  "manifest_prefix_bytes (header_part m) = manifest_prefix_bytes m"
  "manifest_suffix_bytes (header_part m) = manifest_suffix_bytes m"
  "object_ok (header_part m) r = object_ok m r"
  "pm_compatibility_components (header_part m) = pm_compatibility_components m"
  "pm_authentication_input_offset (header_part m) = pm_authentication_input_offset m"
  "pm_compatibility_manifest_offset (header_part m) = pm_compatibility_manifest_offset m"
  "pm_compatibility_manifest_size (header_part m) = pm_compatibility_manifest_size m"
  by (simp_all add: header_part_def header_ok_def topology_ok_def manifest_prefix_bytes_def
      manifest_suffix_bytes_def topology_bytes_def object_ok_def)

definition trailer_part :: "parsed_manifest \<Rightarrow> nat \<Rightarrow> parsed_manifest \<Rightarrow> parsed_manifest" where
  "trailer_part m0 n m = m0\<lparr>
       pm_producer_identity := pm_producer_identity m,
       pm_durability_mode := pm_durability_mode m,
       pm_authentication_key_id := pm_authentication_key_id m,
       pm_authentication_key_generation := pm_authentication_key_generation m,
       pm_authentication_input_size := n\<rparr>"

lemma durability_cast: "(v :: u64) \<le> 2 \<Longrightarrow> ucast (ucast v :: byte) = v \<and> (ucast v :: byte) \<le> 2"
  using ucast_small_ucast [of v] unat_small_ucast [of v] by (simp add: word_le_nat_alt)

lemma parse_trailer_sound:
  assumes "parse_trailer m0 (p, xs) = Inr (m, (q, ys))"
  shows "m = trailer_part m0 (q - pm_authentication_input_offset m0) m \<and>
    length (pm_producer_identity m) = 32 \<and> pm_durability_mode m \<le> 2 \<and>
    valid_registered_id (pm_authentication_key_id m) \<and>
    xs = manifest_trailer_bytes m @ ys \<and> q = p + length (manifest_trailer_bytes m)"
  using assms durability_cast
  by (auto simp: parse_trailer_def reader_simps trailer_part_def manifest_trailer_bytes_def not_less)

lemma parse_trailer_eval:
  assumes "trailer_ok m"
  shows "parse_trailer m0 (p, manifest_trailer_bytes m @ ys) =
    Inr (trailer_part m0 (p + length (manifest_trailer_bytes m) - pm_authentication_input_offset m0) m,
         (p + length (manifest_trailer_bytes m), ys))"
proof -
  have "\<not> (2 :: u64) < ucast (pm_durability_mode m)"
    using assms by (simp add: trailer_ok_def word_less_nat_alt word_le_nat_alt unat_ucast_byte)
  with assms show ?thesis
    by (simp add: parse_trailer_def reader_eval trailer_part_def manifest_trailer_bytes_def trailer_ok_def add.assoc)
qed

lemma parse_envelope_parts:
  assumes "parse_envelope (0, data) = Inr (m, (q, ys))"
  obtains mh q1 refs xs2 mt q3 where
    "parse_header (0, data) =
       Inr (mh, (q1, cbor_head 4 (of_nat (length refs)) @ enc_each (\<lambda>_. object_bytes) 0 refs @ xs2))"
    "refs \<noteq> []" "length refs \<le> manifest_max_objects"
    "\<forall>r \<in> set refs. object_ok mh r" "distinct (map or_object_id refs)"
    "parse_trailer (mh\<lparr>pm_object_references := refs\<rparr>)
       (q1 + length (cbor_head 4 (of_nat (length refs))) + length (enc_each (\<lambda>_. object_bytes) 0 refs), xs2) =
       Inr (mt, (q3, cbor_uint 1 @ cbor_bytes (pm_authentication_tag m) @ ys))"
    "length (pm_authentication_tag m) = 32"
    "m = mt\<lparr>pm_authentication_tag := pm_authentication_tag m\<rparr>"
    "q = q3 + length (cbor_uint 1) + length (cbor_bytes (pm_authentication_tag m))"
proof -
  have "\<exists>mh q1 count refs xs2 mt q3 tag. 
      parse_header (0, data) = Inr (mh, (q1, cbor_head 4 count @ enc_each (\<lambda>_. object_bytes) 0 refs @ xs2)) \<and>
      1 \<le> count \<and> count \<le> of_nat manifest_max_objects \<and> length refs = unat count \<and>
      (\<forall>r \<in> set refs. object_ok mh r) \<and> distinct (map or_object_id refs) \<and>
      parse_trailer (mh\<lparr>pm_object_references := refs\<rparr>)
        (q1 + length (cbor_head 4 count) + length (enc_each (\<lambda>_. object_bytes) 0 refs), xs2) =
        Inr (mt, (q3, cbor_uint 1 @ cbor_bytes tag @ ys)) \<and> length tag = 32 \<and>
      m = mt\<lparr>pm_authentication_tag := tag\<rparr> \<and> q = q3 + length (cbor_uint 1) + length (cbor_bytes tag)"
    using assms by (simp add: parse_envelope_def reader_simps read_objects_Inr) blast
  then obtain mh q1 count refs xs2 mt q3 tag where E:
      "parse_header (0, data) = Inr (mh, (q1, cbor_head 4 count @ enc_each (\<lambda>_. object_bytes) 0 refs @ xs2))"
      "1 \<le> count" "count \<le> of_nat manifest_max_objects" "length refs = unat count"
      "\<forall>r \<in> set refs. object_ok mh r" "distinct (map or_object_id refs)"
      "parse_trailer (mh\<lparr>pm_object_references := refs\<rparr>)
        (q1 + length (cbor_head 4 count) + length (enc_each (\<lambda>_. object_bytes) 0 refs), xs2) =
        Inr (mt, (q3, cbor_uint 1 @ cbor_bytes tag @ ys))"
      "length tag = 32" "m = mt\<lparr>pm_authentication_tag := tag\<rparr>"
      "q = q3 + length (cbor_uint 1) + length (cbor_bytes tag)"
    by blast
  have "refs \<noteq> []" "length refs \<le> manifest_max_objects"
    using E(2-4) by (auto simp: word_le_nat_alt manifest_max_objects_def)
  then show thesis using E by (intro that [of mh q1 refs xs2 mt q3]) simp_all
qed

lemma parse_envelope_sound:
  assumes "parse_envelope (0, data) = Inr (m, (q, []))"
  shows "wf_manifest m \<and> data = manifest_bytes m"
proof -
  obtain mh q1 refs xs2 mt q3 where
    h: "parse_header (0, data) =
       Inr (mh, (q1, cbor_head 4 (of_nat (length refs)) @ enc_each (\<lambda>_. object_bytes) 0 refs @ xs2))"
    and n: "refs \<noteq> []" "length refs \<le> manifest_max_objects"
    and refs: "\<forall>r \<in> set refs. object_ok mh r" "distinct (map or_object_id refs)"
    and t: "parse_trailer (mh\<lparr>pm_object_references := refs\<rparr>)
       (q1 + length (cbor_head 4 (of_nat (length refs))) + length (enc_each (\<lambda>_. object_bytes) 0 refs), xs2) =
       Inr (mt, (q3, cbor_uint 1 @ cbor_bytes (pm_authentication_tag m) @ []))"
    and tag: "length (pm_authentication_tag m) = 32"
    and m: "m = mt\<lparr>pm_authentication_tag := pm_authentication_tag m\<rparr>"
    using parse_envelope_parts [OF assms] by metis
  note H = parse_header_sound [OF h]
  note T = parse_trailer_sound [OF t]
  have "pm_authentication_input_offset (mh\<lparr>pm_object_references := refs\<rparr>) = 2" using H by simp
  then have mt: "mt = trailer_part (mh\<lparr>pm_object_references := refs\<rparr>) (q3 - 2) mt" using T by metis
  have "header_part (trailer_part (mh\<lparr>pm_object_references := refs\<rparr>) k x\<lparr>pm_authentication_tag := y\<rparr>) = header_part mh"
    for k x y by (simp add: trailer_part_def header_part_def)
  then have hm: "header_part m = mh" using mt m H by metis
  have "pm_object_references (trailer_part (mh\<lparr>pm_object_references := refs\<rparr>) k x\<lparr>pm_authentication_tag := y\<rparr>) = refs"
    "pm_authentication_input_size (trailer_part (mh\<lparr>pm_object_references := refs\<rparr>) k x\<lparr>pm_authentication_tag := y\<rparr>) = k"
    for k x y by (simp_all add: trailer_part_def)
  then have fields: "pm_object_references m = refs" "pm_authentication_input_size m = q3 - 2"
    using mt m by metis+
  have tb: "manifest_trailer_bytes m = manifest_trailer_bytes mt" "trailer_ok m"
    using T tag by (subst m, simp add: manifest_trailer_bytes_def, subst m, simp add: trailer_ok_def)
  have data: "data = manifest_bytes m"
    using H T fields tb hm [symmetric] by (simp add: manifest_bytes_def manifest_auth_input_def)
  have "q3 - 2 = length (manifest_auth_input m)"
    using H T fields tb hm [symmetric] by (simp add: manifest_auth_input_def)
  with H T n refs fields tb hm [symmetric] data show ?thesis
    by (simp add: wf_manifest_def Suc_le_eq)
qed

lemma parse_envelope_complete:
  assumes "wf_manifest m"
  shows "parse_envelope (0, manifest_bytes m) = Inr (m, (length (manifest_bytes m), []))"
proof -
  let ?refs = "pm_object_references m"
  have c: "1 \<le> (of_nat (length ?refs) :: u64)" "(of_nat (length ?refs) :: u64) \<le> of_nat manifest_max_objects"
    "unat (of_nat (length ?refs) :: u64) = length ?refs"
    using assms by (simp_all add: wf_manifest_def word_le_nat_alt unat_of_nat manifest_max_objects_def)
  have objs: "read_each (parse_object (header_part m)) (length ?refs) [] (p, enc_each (\<lambda>_. object_bytes) 0 ?refs @ ys)
      = Inr (?refs, (p + length (enc_each (\<lambda>_. object_bytes) 0 ?refs), ys))" for p ys
    using assms by (simp add: read_objects_Inr wf_manifest_def)
  have whole: "trailer_part (header_part m\<lparr>pm_object_references := ?refs\<rparr>)
      (pm_authentication_input_size m) m\<lparr>pm_authentication_tag := pm_authentication_tag m\<rparr> = m"
    by (cases m) (simp add: trailer_part_def header_part_def)
  have header: "parse_header (0, cbor_head 5 2 @ cbor_uint 0 @ manifest_prefix_bytes m
          @ compatibility_bytes (pm_compatibility_components m) @ manifest_suffix_bytes m @ ys) =
    Inr (header_part m, (2 + length (manifest_prefix_bytes m)
           + length (compatibility_bytes (pm_compatibility_components m))
           + length (manifest_suffix_bytes m), ys))" for ys
    using assms by (intro parse_header_complete) (simp_all add: wf_manifest_def)
  have "parse_envelope (0, manifest_bytes m @ ys) = Inr (m, (length (manifest_bytes m), ys))" for ys
    using assms c whole
    by (simp add: parse_envelope_def manifest_bytes_def manifest_auth_input_def header reader_eval objs
        parse_trailer_eval wf_manifest_def trailer_ok_def length_head_small add.assoc)
  from this [of "[]"] show ?thesis by simp
qed

subsection \<open>Rejections are placed inside the input\<close>

fun rejection_inside :: "parse_failure \<Rightarrow> nat \<Rightarrow> bool" where
  "rejection_inside (Failed status position) n = (status \<noteq> structural_only \<and> position \<le> n)"
| "rejection_inside (Mismatch position) n = (position \<le> n)"

lemma points_inside_failure [within_intros]:
  "st \<noteq> structural_only \<Longrightarrow> points_inside rejection_inside (Failed st)"
  "points_inside rejection_inside Mismatch"
  by (simp_all add: points_inside_def)

lemma within_cursor [within_intros]:
  "within rejection_inside (read_head m)"
  "within rejection_inside (read_map n)"
  "within rejection_inside (read_array lo hi)"
  "within rejection_inside read_uint"
  "within rejection_inside (read_key k)"
  "st \<noteq> structural_only \<Longrightarrow> within rejection_inside (read_uint_equal k st)"
  "within rejection_inside (read_bytes N)"
  "within rejection_inside read_null_or_digest"
  "within rejection_inside read_null_or_uint"
  "within rejection_inside read_true"
  "within rejection_inside read_registered_id"
  by (unfold read_head_reference read_map_def read_array_def read_uint_def read_key_def read_uint_equal_def
      read_bytes_def read_null_or_digest_def read_null_or_uint_def read_true_def read_registered_id_def;
      intro within_intros; simp)+

lemma within_read_field [within_intros]:
  "within rejection_inside P \<Longrightarrow> (\<And>a. within rejection_inside (f a)) \<Longrightarrow> within rejection_inside (read_field k P f)"
  unfolding read_field_def by (intro within_intros) auto

lemma within_demand [within_intros]: "within rejection_inside P \<Longrightarrow> within rejection_inside (demand b P)"
  unfolding demand_def by (intro within_intros) auto

lemma within_case_prod [within_intros]:
  "(\<And>a b. within ok (f a b)) \<Longrightarrow> within ok (case x of (a, b) \<Rightarrow> f a b)"
  by (cases x) simp

lemma within_parsers [within_intros]:
  "within rejection_inside (parse_compatibility_manifest m)"
  "within rejection_inside (parse_topology_manifest m)"
  "within rejection_inside (parse_object m i acc)"
  "within rejection_inside (parse_trailer m)"
  by (unfold parse_compatibility_manifest_def parse_rank_def parse_topology_manifest_def parse_object_def
      parse_object_descriptor_def parse_trailer_def; intro within_intros; simp)+

lemma within_envelope: "within rejection_inside parse_envelope"
  unfolding parse_envelope_def parse_header_def by (intro within_intros; simp)

subsection \<open>What the parser accepts and how it rejects\<close>

lemma parse_manifest_iff:
  "context_store_parse_manifest_v1 data = Inr m \<longleftrightarrow>
     wf_manifest m \<and> data = Span (manifest_bytes m) \<and> length (manifest_bytes m) \<le> manifest_max_bytes"
proof (cases data)
  case (NullSpan n)
  then show ?thesis by (simp add: context_store_parse_manifest_v1_def)
next
  case (Span bs)
  have ne: "manifest_bytes m \<noteq> []" for m by (simp add: manifest_bytes_def)
  show ?thesis
  proof
    assume "context_store_parse_manifest_v1 data = Inr m"
    then obtain q where "parse_envelope (0, bs) = Inr (m, (q, []))" "length bs \<le> manifest_max_bytes"
      by (auto simp: Span context_store_parse_manifest_v1_def split: if_splits sum.splits)
    then show "wf_manifest m \<and> data = Span (manifest_bytes m) \<and> length (manifest_bytes m) \<le> manifest_max_bytes"
      using parse_envelope_sound [of bs m q] by (simp add: Span)
  next
    assume "wf_manifest m \<and> data = Span (manifest_bytes m) \<and> length (manifest_bytes m) \<le> manifest_max_bytes"
    then show "context_store_parse_manifest_v1 data = Inr m"
      using parse_envelope_complete [of m] ne [of m] by (simp add: context_store_parse_manifest_v1_def)
  qed
qed

text \<open>
  C9: the structural parser accepts a byte string exactly when it is the canonical
  encoding of a well-formed manifest within the size limit, and then returns that
  manifest, with the authenticated and compatibility ranges of the encoding.
\<close>

theorem parse_manifest_exact:
  "context_store_parse_manifest_v1 data = Inr m \<longleftrightarrow>
     wf_manifest m \<and> data = Span (manifest_bytes m) \<and> length (manifest_bytes m) \<le> manifest_max_bytes"
  by (rule parse_manifest_iff)

text \<open>
  a rejected manifest carries a rejecting status and an error offset inside
  the input.
\<close>

theorem parse_manifest_rejection:
  assumes "context_store_parse_manifest_v1 data = Inl (st, offset)"
  shows "st \<noteq> structural_only \<and> offset \<le> span_size data"
proof (cases "span_null data \<or> span_size data = 0 \<or> span_size data > manifest_max_bytes")
  case True
  then show ?thesis using assms by (auto simp: context_store_parse_manifest_v1_def split: if_splits)
next
  case False
  then obtain bs where d: "data = Span bs" by (cases data) auto
  consider f where "parse_envelope (0, bs) = Inl f" "failure_status f = (st, offset)"
    | m ys where "parse_envelope (0, bs) = Inr (m, (offset, ys))" "st = trailing_data"
    using assms False by (auto simp: d context_store_parse_manifest_v1_def split: if_splits sum.splits)
  then show ?thesis
  proof cases
    case (1 f)
    then show ?thesis using withinD(1) [OF within_envelope, of 0 bs f] by (cases f) (auto simp: d)
  next
    case (2 m ys)
    then show ?thesis using withinD(2) [OF within_envelope, of 0 bs m offset ys] by (simp add: d)
  qed
qed

theorem parse_manifest_rejection_witness:
  "context_store_parse_manifest_v1 (Span [0xa2, 0x01]) = Inl (wrong_field, 2) \<and>
   wrong_field \<noteq> structural_only \<and> 2 \<le> span_size (Span [0xa2, 0x01])"
proof -
  have "context_store_parse_manifest_v1 (Span [0xa2, 0x01]) = Inl (wrong_field, 2)"
    by (simp add: context_store_parse_manifest_v1_def parse_envelope_def parse_header_def bind_reader_def
        read_map_def read_key_def read_uint_def read_head_def next_byte_def check_def return_reader_def
        fail_reader_def manifest_max_bytes_def)
  with parse_manifest_rejection [OF this] show ?thesis by simp
qed

end
