(* ===== verification/Utf8.thy ===== *)
theory Utf8
  imports Format
begin

text \<open>
  What the identifier check of the manifest parser (\<^verbatim>\<open>valid_utf8_without_nul\<close> in
  \<^verbatim>\<open>halofpx-context-store-format.cpp\<close>) accepts: a specification of UTF-8 by encoding of
  Unicode scalar values, and the equivalence of the byte-range checks with it.
\<close>

definition unicode_scalar :: "nat \<Rightarrow> bool" where
  "unicode_scalar c \<longleftrightarrow> 0 < c \<and> c \<le> 0x10ffff \<and> \<not> (0xd800 \<le> c \<and> c \<le> 0xdfff)"

definition utf8_encode :: "nat \<Rightarrow> byte list" where
  "utf8_encode c = map of_nat
     (if c < 0x80 then [c]
      else if c < 0x800 then [0xc0 + c div 64, 0x80 + c mod 64]
      else if c < 0x10000 then [0xe0 + c div 4096, 0x80 + c div 64 mod 64, 0x80 + c mod 64]
      else [0xf0 + c div 262144, 0x80 + c div 4096 mod 64, 0x80 + c div 64 mod 64, 0x80 + c mod 64])"

lemma valid_utf8_encode:
  assumes "unicode_scalar c"
  shows "valid_utf8_without_nul (utf8_encode c @ rest) = valid_utf8_without_nul rest"
proof -
  have small: "unat (of_nat n :: byte) = n" if "n < 256" for n
    using that by (simp add: unat_of_nat)
  consider "c < 0x80" | "0x80 \<le> c" "c < 0x800" | "0x800 \<le> c" "c < 0x10000" | "0x10000 \<le> c" by linarith
  then show ?thesis
  proof cases
    case 1
    then show ?thesis using assms small [of c]
      by (auto simp: utf8_encode_def unicode_scalar_def word_le_nat_alt word_unat_eq_iff)
  next
    case 2
    then show ?thesis using assms small [of "0xc0 + c div 64"] small [of "0x80 + c mod 64"]
      by (auto simp: utf8_encode_def unicode_scalar_def word_le_nat_alt word_less_nat_alt word_unat_eq_iff)
  next
    case 3
    have "c div 64 mod 64 \<le> 31" if "c div 4096 = 13" "c < 55296"
    proof -
      have "c div 64 div 64 = 13" using that(1) by (simp flip: div_mult2_eq)
      then have "c div 64 = 13 * 64 + c div 64 mod 64" using div_mult_mod_eq [of "c div 64" 64] by simp
      moreover have "c div 64 < 864" using that(2) by (simp add: div_less_iff_less_mult)
      ultimately show ?thesis by simp
    qed
    with 3 show ?thesis using assms small [of "0xe0 + c div 4096"] small [of "0x80 + c div 64 mod 64"] small [of "0x80 + c mod 64"]
      by (auto simp: utf8_encode_def unicode_scalar_def word_le_nat_alt word_less_nat_alt word_unat_eq_iff in_range_def Let_def)
  next
    case 4
    have "c div 4096 mod 64 \<le> 15" if "c div 262144 = 4" "c \<le> 1114111"
    proof -
      have "c div 4096 div 64 = 4" using that(1) by (simp flip: div_mult2_eq)
      then have "c div 4096 = 4 * 64 + c div 4096 mod 64" using div_mult_mod_eq [of "c div 4096" 64] by simp
      moreover have "c div 4096 < 272" using that(2) by (simp add: div_less_iff_less_mult)
      ultimately show ?thesis by simp
    qed
    with 4 show ?thesis using assms small [of "0xf0 + c div 262144"] small [of "0x80 + c div 4096 mod 64"] small [of "0x80 + c div 64 mod 64"] small [of "0x80 + c mod 64"]
      by (auto simp: utf8_encode_def unicode_scalar_def word_le_nat_alt word_less_nat_alt word_unat_eq_iff in_range_def Let_def)
  qed
qed

lemma base64_digit: "(z :: nat) < 64 \<Longrightarrow> (k * 64 + z) div 64 = k" "z < 64 \<Longrightarrow> (k * 64 + z) mod 64 = z"
  by simp_all

lemma utf8_two:
  assumes "0xc2 \<le> a" "a \<le> 0xdf" "0x80 \<le> b" "b \<le> 0xbf"
  shows "\<exists>c. unicode_scalar c \<and> utf8_encode c = [a, b]"
proof -
  define x y where "x = unat a - 0xc0" and "y = unat b - 0x80"
  then have xy: "unat a = 0xc0 + x" "2 \<le> x" "x \<le> 31" "unat b = 0x80 + y" "y < 64"
    using assms by (simp_all add: word_le_nat_alt)
  have ab: "a = of_nat (0xc0 + x)" "b = of_nat (0x80 + y)" by (simp_all flip: xy(1,4))
  let ?c = "x * 64 + y"
  have "?c div 64 = x" "?c mod 64 = y" "0x80 \<le> ?c" "?c < 0x800" using xy by simp_all
  then show ?thesis using ab xy by (intro exI [of _ ?c]) (simp add: unicode_scalar_def utf8_encode_def)
qed

lemma utf8_three:
  assumes "0xe0 \<le> a" "a \<le> 0xef" "0x80 \<le> b" "b \<le> 0xbf" "0x80 \<le> d" "d \<le> 0xbf"
    and "a = 0xe0 \<Longrightarrow> 0xa0 \<le> b" "a = 0xed \<Longrightarrow> b \<le> 0x9f"
  shows "\<exists>c. unicode_scalar c \<and> utf8_encode c = [a, b, d]"
proof -
  define x y z where "x = unat a - 0xe0" and "y = unat b - 0x80" and "z = unat d - 0x80"
  then have xyz: "unat a = 0xe0 + x" "x \<le> 15" "unat b = 0x80 + y" "y < 64" "unat d = 0x80 + z" "z < 64"
    using assms(1-6) by (simp_all add: word_le_nat_alt)
  have abd: "a = of_nat (0xe0 + x)" "b = of_nat (0x80 + y)" "d = of_nat (0x80 + z)" by (simp_all flip: xyz(1,3,5))
  have r: "x = 0 \<Longrightarrow> 32 \<le> y" "x = 13 \<Longrightarrow> y \<le> 31"
    using assms(7,8) xyz by (simp_all add: word_le_nat_alt word_unat_eq_iff)
  let ?c = "x * 4096 + y * 64 + z"
  have c: "?c = (x * 64 + y) * 64 + z" by simp
  have "?c div 64 = x * 64 + y" "?c mod 64 = z" by (simp_all only: c base64_digit xyz)
  moreover have "?c div 4096 = x" using xyz by (intro div_nat_eqI) simp_all
  moreover have "0x800 \<le> ?c" using r xyz by (cases "x = 0") simp_all
  moreover from this have "0 < ?c" by linarith
  moreover have "\<not> (0xd800 \<le> ?c \<and> ?c \<le> 0xdfff)"
    using r xyz by (cases "x < 13"; cases "x = 13") simp_all
  ultimately show ?thesis using abd xyz
    by (intro exI [of _ ?c]) (simp add: unicode_scalar_def utf8_encode_def)
qed

lemma utf8_four:
  assumes "0xf0 \<le> a" "a \<le> 0xf4" "0x80 \<le> b" "b \<le> 0xbf" "0x80 \<le> d" "d \<le> 0xbf" "0x80 \<le> e" "e \<le> 0xbf"
    and "a = 0xf0 \<Longrightarrow> 0x90 \<le> b" "a = 0xf4 \<Longrightarrow> b \<le> 0x8f"
  shows "\<exists>c. unicode_scalar c \<and> utf8_encode c = [a, b, d, e]"
proof -
  define x y z w where "x = unat a - 0xf0" and "y = unat b - 0x80" and "z = unat d - 0x80" and "w = unat e - 0x80"
  then have xyz: "unat a = 0xf0 + x" "x \<le> 4" "unat b = 0x80 + y" "y < 64"
      "unat d = 0x80 + z" "z < 64" "unat e = 0x80 + w" "w < 64"
    using assms(1-8) by (simp_all add: word_le_nat_alt)
  have abd: "a = of_nat (0xf0 + x)" "b = of_nat (0x80 + y)" "d = of_nat (0x80 + z)" "e = of_nat (0x80 + w)"
    by (simp_all flip: xyz(1,3,5,7))
  have r: "x = 0 \<Longrightarrow> 16 \<le> y" "x = 4 \<Longrightarrow> y \<le> 15"
    using assms(9,10) xyz by (simp_all add: word_le_nat_alt word_unat_eq_iff)
  let ?c = "x * 262144 + y * 4096 + z * 64 + w"
  have c: "?c = (x * 4096 + y * 64 + z) * 64 + w" "x * 4096 + y * 64 + z = (x * 64 + y) * 64 + z" by simp_all
  have "?c div 64 = x * 4096 + y * 64 + z" "?c mod 64 = w" by (simp_all only: c(1) base64_digit xyz)
  moreover have "(x * 4096 + y * 64 + z) mod 64 = z" by (simp only: c(2) base64_digit xyz)
  moreover have "?c div 4096 = x * 64 + y" using xyz by (intro div_nat_eqI) simp_all
  moreover have "?c div 262144 = x" using xyz by (intro div_nat_eqI) simp_all
  moreover have "0x10000 \<le> ?c" "?c \<le> 0x10ffff" using r xyz by (cases "x = 0"; cases "x = 4"; simp)+
  moreover from this have "0 < ?c" by linarith
  ultimately show ?thesis using abd xyz
    by (intro exI [of _ ?c]) (simp add: unicode_scalar_def utf8_encode_def)
qed

definition utf8_text :: "byte list \<Rightarrow> bool" where
  "utf8_text bs \<longleftrightarrow> (\<exists>cs. list_all unicode_scalar cs \<and> bs = concat (map utf8_encode cs))"

lemma utf8_text_append: "\<exists>c. unicode_scalar c \<and> utf8_encode c = xs \<Longrightarrow> utf8_text ys \<Longrightarrow> utf8_text (xs @ ys)"
  unfolding utf8_text_def by (metis concat.simps(2) list.pred_inject(2) list.simps(9))

lemma utf8_one: "a \<noteq> 0 \<Longrightarrow> a \<le> 0x7f \<Longrightarrow> \<exists>c. unicode_scalar c \<and> utf8_encode c = [a]"
  by (rule exI [of _ "unat a"])
     (auto simp: unicode_scalar_def utf8_encode_def word_le_nat_alt unat_gt_0)

lemma valid_utf8_step:
  assumes v: "valid_utf8_without_nul (a # rest)"
  shows "\<exists>xs r. a # rest = xs @ r \<and> xs \<noteq> [] \<and> (\<exists>c. unicode_scalar c \<and> utf8_encode c = xs) \<and>
           valid_utf8_without_nul r"
proof -
  have nz: "a \<noteq> 0" using v by (auto split: if_splits)
  consider (one) "a \<le> 0x7f" | (two) "\<not> a \<le> 0x7f" "a \<ge> 0xc2 \<and> a \<le> 0xdf"
    | (three) "\<not> a \<le> 0x7f" "\<not> (a \<ge> 0xc2 \<and> a \<le> 0xdf)" "a \<ge> 0xe0 \<and> a \<le> 0xef"
    | (four) "\<not> a \<le> 0x7f" "\<not> (a \<ge> 0xc2 \<and> a \<le> 0xdf)" "\<not> (a \<ge> 0xe0 \<and> a \<le> 0xef)" "a \<ge> 0xf0 \<and> a \<le> 0xf4"
    using v nz unfolding valid_utf8_without_nul.simps by argo
  then show ?thesis
  proof cases
    case one
    then show ?thesis using v nz utf8_one [of a] by (intro exI [of _ "[a]"] exI [of _ rest]) simp
  next
    case two
    note eq = v [unfolded valid_utf8_without_nul.simps if_not_P [OF nz] if_not_P [OF two(1)] if_P [OF two(2)]]
    obtain b r where "rest = b # r" "0x80 \<le> b" "b \<le> 0xbf" "valid_utf8_without_nul r"
      using eq by (auto split: list.splits if_splits simp: not_less Let_def)
    with two show ?thesis using utf8_two [of a b] by (intro exI [of _ "[a, b]"] exI [of _ r]) simp
  next
    case three
    note eq = v [unfolded valid_utf8_without_nul.simps if_not_P [OF nz] if_not_P [OF three(1)] if_not_P [OF three(2)] if_P [OF three(3)]]
    obtain b d r where "rest = b # d # r" "0x80 \<le> d" "d \<le> 0xbf" "valid_utf8_without_nul r"
      and b: "if a = 0xe0 then in_range 0xa0 0xbf b else if a = 0xed then in_range 0x80 0x9f b else in_range 0x80 0xbf b"
      using eq by (auto split: list.splits if_splits simp: not_less Let_def)
    moreover have "0x80 \<le> b" "b \<le> 0xbf" "a = 0xe0 \<Longrightarrow> 0xa0 \<le> b" "a = 0xed \<Longrightarrow> b \<le> 0x9f"
      using b by (auto simp: in_range_def word_le_nat_alt split: if_splits)
    ultimately show ?thesis using three utf8_three [of a b d] by (intro exI [of _ "[a, b, d]"] exI [of _ r]) simp
  next
    case four
    note eq = v [unfolded valid_utf8_without_nul.simps if_not_P [OF nz] if_not_P [OF four(1)] if_not_P [OF four(2)] if_not_P [OF four(3)] if_P [OF four(4)]]
    obtain b d e r where "rest = b # d # e # r" "0x80 \<le> d" "d \<le> 0xbf" "0x80 \<le> e" "e \<le> 0xbf"
        "valid_utf8_without_nul r"
      and b: "if a = 0xf0 then in_range 0x90 0xbf b else if a = 0xf4 then in_range 0x80 0x8f b else in_range 0x80 0xbf b"
      using eq by (auto split: list.splits if_splits simp: not_less Let_def)
    moreover have "0x80 \<le> b" "b \<le> 0xbf" "a = 0xf0 \<Longrightarrow> 0x90 \<le> b" "a = 0xf4 \<Longrightarrow> b \<le> 0x8f"
      using b by (auto simp: in_range_def word_le_nat_alt split: if_splits)
    ultimately show ?thesis using four utf8_four [of a b d e] by (intro exI [of _ "[a, b, d, e]"] exI [of _ r]) simp
  qed
qed

lemma valid_utf8_sound: "valid_utf8_without_nul bs \<Longrightarrow> utf8_text bs"
proof (induction bs rule: length_induct)
  case (1 bs)
  show ?case
  proof (cases bs)
    case Nil
    then show ?thesis unfolding utf8_text_def by (intro exI [of _ "[]"]) simp
  next
    case (Cons a rest)
    then obtain xs r where x: "bs = xs @ r" "xs \<noteq> []" "\<exists>c. unicode_scalar c \<and> utf8_encode c = xs"
        "valid_utf8_without_nul r"
      using valid_utf8_step [of a rest] "1.prems" by blast
    then have "utf8_text r" using "1.IH" by simp
    then show ?thesis using utf8_text_append [OF x(3)] x(1) by simp
  qed
qed

lemma valid_utf8_complete: "list_all unicode_scalar cs \<Longrightarrow> valid_utf8_without_nul (concat (map utf8_encode cs))"
  by (induction cs) (simp_all add: valid_utf8_encode)

text \<open>
  identifiers are accepted exactly when they are the UTF-8 encoding of a sequence
  of Unicode scalar values other than NUL: no overlong forms, no surrogates, nothing
  beyond U+10FFFF.
\<close>

theorem valid_utf8_exact: "valid_utf8_without_nul bs \<longleftrightarrow> utf8_text bs"
  using valid_utf8_sound valid_utf8_complete by (auto simp: utf8_text_def)

end
