(* ===== verification/Sha256.thy ===== *)
theory Sha256
  imports HaloFPX_Prelude
begin

text \<open>
  The hash under every digest and authentication tag of the store:
  \<^verbatim>\<open>examples/gguf-hash/deps/sha256/sha256.c\<close>. The model keeps the C structure
  (\<^verbatim>\<open>state\<close>, \<^verbatim>\<open>count\<close>, \<^verbatim>\<open>buffer\<close>), the byte-at-a-time update loop, the padding
  loop, and the 16-word circular message schedule of the unrolled rounds.
  Shown: the circular schedule computes the FIPS 180-4 schedule; feeding data
  in pieces equals feeding its concatenation; the digest is the FIPS 180-4
  digest of the message whatever the uninitialised buffer held; it has 32 bytes.
\<close>

subsection \<open>The C structure and its functions\<close>

record sha256_t =
  state :: "u32 list"
  count :: u64
  buffer :: "byte list"

definition sha256_H0 :: "u32 list" where
  "sha256_H0 = [0x6A09E667, 0xBB67AE85, 0x3C6EF372, 0xA54FF53A,
                0x510E527F, 0x9B05688C, 0x1F83D9AB, 0x5BE0CD19]"

definition sha256_init :: "sha256_t \<Rightarrow> sha256_t" where
  "sha256_init p = p\<lparr>state := sha256_H0, count := 0\<rparr>"

definition ROTR32 :: "u32 \<Rightarrow> nat \<Rightarrow> u32" where
  "ROTR32 x n = drop_bit n x OR push_bit (32 - n) x"

definition S0 :: "u32 \<Rightarrow> u32" where
  "S0 x = (ROTR32 x 2 XOR ROTR32 x 13) XOR ROTR32 x 22"

definition S1 :: "u32 \<Rightarrow> u32" where
  "S1 x = (ROTR32 x 6 XOR ROTR32 x 11) XOR ROTR32 x 25"

definition s0 :: "u32 \<Rightarrow> u32" where
  "s0 x = (ROTR32 x 7 XOR ROTR32 x 18) XOR drop_bit 3 x"

definition s1 :: "u32 \<Rightarrow> u32" where
  "s1 x = (ROTR32 x 17 XOR ROTR32 x 19) XOR drop_bit 10 x"

definition Ch :: "u32 \<Rightarrow> u32 \<Rightarrow> u32 \<Rightarrow> u32" where
  "Ch x y z = z XOR (x AND (y XOR z))"

definition Maj :: "u32 \<Rightarrow> u32 \<Rightarrow> u32 \<Rightarrow> u32" where
  "Maj x y z = (x AND y) OR (z AND (x OR y))"

definition sha256_K :: "u32 list" where
  "sha256_K =
    [0x428A2F98, 0x71374491, 0xB5C0FBCF, 0xE9B5DBA5,
     0x3956C25B, 0x59F111F1, 0x923F82A4, 0xAB1C5ED5,
     0xD807AA98, 0x12835B01, 0x243185BE, 0x550C7DC3,
     0x72BE5D74, 0x80DEB1FE, 0x9BDC06A7, 0xC19BF174,
     0xE49B69C1, 0xEFBE4786, 0x0FC19DC6, 0x240CA1CC,
     0x2DE92C6F, 0x4A7484AA, 0x5CB0A9DC, 0x76F988DA,
     0x983E5152, 0xA831C66D, 0xB00327C8, 0xBF597FC7,
     0xC6E00BF3, 0xD5A79147, 0x06CA6351, 0x14292967,
     0x27B70A85, 0x2E1B2138, 0x4D2C6DFC, 0x53380D13,
     0x650A7354, 0x766A0ABB, 0x81C2C92E, 0x92722C85,
     0xA2BFE8A1, 0xA81A664B, 0xC24B8B70, 0xC76C51A3,
     0xD192E819, 0xD6990624, 0xF40E3585, 0x106AA070,
     0x19A4C116, 0x1E376C08, 0x2748774C, 0x34B0BCB5,
     0x391C0CB3, 0x4ED8AA4A, 0x5B9CCA4F, 0x682E6FF3,
     0x748F82EE, 0x78A5636F, 0x84C87814, 0x8CC70208,
     0x90BEFFFA, 0xA4506CEB, 0xBEF9A3F7, 0xC67178F2]"

type_synonym sha_regs = "u32 \<times> u32 \<times> u32 \<times> u32 \<times> u32 \<times> u32 \<times> u32 \<times> u32"

text \<open>
  One use of the macro \<^verbatim>\<open>R\<close>, with the circular words \<^verbatim>\<open>W[16]\<close>. The sources rotate the
  register names from one use to the next; the model rotates the tuple.
\<close>

definition sha256_W :: "u32 list \<Rightarrow> nat \<Rightarrow> nat \<Rightarrow> u32 list \<Rightarrow> u32 list" where
  "sha256_W data j i W =
     (if j = 0 then W[i := data ! i]
      else W[i := W ! i + (s1 (W ! ((i + 14) mod 16)) + W ! ((i + 9) mod 16)
                            + s0 (W ! ((i + 1) mod 16)))])"

fun sha256_regs :: "u32 \<Rightarrow> u32 \<Rightarrow> sha_regs \<Rightarrow> sha_regs" where
  "sha256_regs k w (a, b, c, d, e, f, g, h) =
     (let h1 = h + (S1 e + Ch e f g + k + w);
          d1 = d + h1;
          h2 = h1 + (S0 a + Maj a b c)
      in (h2, a, b, c, d1, e, f, g))"

definition sha256_R :: "u32 list \<Rightarrow> nat \<Rightarrow> nat \<Rightarrow> u32 list \<times> sha_regs \<Rightarrow> u32 list \<times> sha_regs" where
  "sha256_R data j i st =
     (let W = sha256_W data j i (fst st)
      in (W, sha256_regs (sha256_K ! (i + j)) (W ! i) (snd st)))"

definition regs_of :: "u32 list \<Rightarrow> sha_regs" where
  "regs_of s = (s ! 0, s ! 1, s ! 2, s ! 3, s ! 4, s ! 5, s ! 6, s ! 7)"

fun add_regs :: "u32 list \<Rightarrow> sha_regs \<Rightarrow> u32 list" where
  "add_regs s (a, b, c, d, e, f, g, h) =
     [s ! 0 + a, s ! 1 + b, s ! 2 + c, s ! 3 + d, s ! 4 + e, s ! 5 + f, s ! 6 + g, s ! 7 + h]"

definition sha256_transform :: "u32 list \<Rightarrow> u32 list \<Rightarrow> u32 list" where
  "sha256_transform s data =
     add_regs s (snd (fold (\<lambda>j. fold (\<lambda>i. sha256_R data j i) [0..<16]) [0, 16, 32, 48]
                        (replicate 16 0, regs_of s)))"

definition word_of_bytes :: "byte list \<Rightarrow> nat \<Rightarrow> u32" where
  "word_of_bytes buf i =
     push_bit 24 (ucast (buf ! (i * 4))) + push_bit 16 (ucast (buf ! (i * 4 + 1)))
     + push_bit 8 (ucast (buf ! (i * 4 + 2))) + ucast (buf ! (i * 4 + 3))"

definition sha256_write_byte_block :: "sha256_t \<Rightarrow> sha256_t" where
  "sha256_write_byte_block p =
     p\<lparr>state := sha256_transform (state p) (map (word_of_bytes (buffer p)) [0..<16])\<rparr>"

fun sha256_update_loop :: "nat \<Rightarrow> sha256_t \<Rightarrow> byte list \<Rightarrow> sha256_t" where
  "sha256_update_loop pos p [] = p"
| "sha256_update_loop pos p (x # data) =
     (let p1 = p\<lparr>buffer := (buffer p)[pos := x], count := count p + 1\<rparr>
      in if pos + 1 = 64 then sha256_update_loop 0 (sha256_write_byte_block p1) data
         else sha256_update_loop (pos + 1) p1 data)"

definition buffer_pos :: "sha256_t \<Rightarrow> nat" where
  "buffer_pos p = unat (count p AND 0x3F)"

definition sha256_update :: "sha256_t \<Rightarrow> byte list \<Rightarrow> sha256_t" where
  "sha256_update p data = sha256_update_loop (buffer_pos p) p data"

function sha256_pad_loop :: "nat \<Rightarrow> sha256_t \<Rightarrow> sha256_t" where
  "sha256_pad_loop pos p =
     (if pos = 56 then p
      else let pos1 = pos mod 64;
               p1 = (if pos1 = 0 then sha256_write_byte_block p else p)
           in sha256_pad_loop (pos1 + 1) (p1\<lparr>buffer := (buffer p1)[pos1 := 0]\<rparr>))"
  by pat_completeness auto
termination
proof (relation "measure (\<lambda>(pos, p). if pos \<le> 56 then 56 - pos else if pos \<le> 64 then 120 - pos else 200)")
  fix pos pos1 :: nat and p p1 :: sha256_t
  assume "pos \<noteq> 56" and "pos1 = pos mod 64"
  then show "((pos1 + 1, p1\<lparr>buffer := (buffer p1)[pos1 := 0]\<rparr>), pos, p) \<in>
      measure (\<lambda>(pos, p). if pos \<le> 56 then 56 - pos else if pos \<le> 64 then 120 - pos else 200)"
    by (cases "pos < 64"; cases "pos = 64") (auto simp: le_mod_geq)
qed simp

declare sha256_pad_loop.simps [simp del]

definition put_length :: "u64 \<Rightarrow> byte list \<Rightarrow> byte list" where
  "put_length lenInBits buf =
     foldl (\<lambda>b i. b[56 + i := ucast (drop_bit 56 (push_bit (8 * i) lenInBits))]) buf [0..<8]"

definition digest_of_state :: "u32 list \<Rightarrow> byte list" where
  "digest_of_state s =
     concat (map (\<lambda>i. [ucast (drop_bit 24 (s ! i)), ucast (drop_bit 16 (s ! i)),
                       ucast (drop_bit 8 (s ! i)), ucast (s ! i)]) [0..<8])"

definition sha256_final :: "sha256_t \<Rightarrow> sha256_t \<times> byte list" where
  "sha256_final p =
     (let lenInBits = push_bit 3 (count p);
          pos = buffer_pos p;
          p1 = sha256_pad_loop (pos + 1) (p\<lparr>buffer := (buffer p)[pos := 0x80]\<rparr>);
          p2 = sha256_write_byte_block (p1\<lparr>buffer := put_length lenInBits (buffer p1)\<rparr>)
      in (sha256_init p2, digest_of_state (state p2)))"

definition sha256_hash :: "sha256_t \<Rightarrow> byte list \<Rightarrow> byte list" where
  "sha256_hash hash data = snd (sha256_final (sha256_update (sha256_init hash) data))"

subsection \<open>The FIPS 180-4 reference\<close>

function fips_schedule :: "u32 list \<Rightarrow> nat \<Rightarrow> u32" where
  "fips_schedule M t =
     (if t < 16 then M ! t
      else s1 (fips_schedule M (t - 2)) + fips_schedule M (t - 7)
           + s0 (fips_schedule M (t - 15)) + fips_schedule M (t - 16))"
  by pat_completeness auto
termination
  by (relation "measure snd") auto

declare fips_schedule.simps [simp del]

fun fips_round :: "u32 list \<Rightarrow> nat \<Rightarrow> sha_regs \<Rightarrow> sha_regs" where
  "fips_round M t (a, b, c, d, e, f, g, h) =
     (let T1 = h + S1 e + ((e AND f) XOR (NOT e AND g)) + sha256_K ! t + fips_schedule M t;
          T2 = S0 a + (((a AND b) XOR (a AND c)) XOR (b AND c))
      in (T1 + T2, a, b, c, d + T1, e, f, g))"

definition fips_compress :: "u32 list \<Rightarrow> byte list \<Rightarrow> u32 list" where
  "fips_compress s block =
     add_regs s (fold (fips_round (map (word_of_bytes block) [0..<16])) [0..<64] (regs_of s))"

fun blocks64 :: "byte list \<Rightarrow> byte list list" where
  "blocks64 xs = (if length xs < 64 then [] else take 64 xs # blocks64 (drop 64 xs))"

declare blocks64.simps [simp del]

definition fips_pad :: "byte list \<Rightarrow> byte list" where
  "fips_pad msg =
     (let r = length msg mod 64
      in msg @ 0x80 # replicate (if r < 56 then 55 - r else 119 - r) 0
             @ be_bytes 8 (of_nat (8 * length msg)))"

definition sha256 :: "byte list \<Rightarrow> byte list" where
  "sha256 msg = digest_of_state (foldl fips_compress sha256_H0 (blocks64 (fips_pad msg)))"

subsection \<open>The circular schedule computes the reference schedule\<close>

lemma Ch_fips: "Ch x y z = (x AND y) XOR (NOT x AND z)"
  by (rule bit_word_eqI) (auto simp: Ch_def bit_simps)

lemma Maj_fips: "Maj x y z = ((x AND y) XOR (x AND z)) XOR (y AND z)"
  by (rule bit_word_eqI) (auto simp: Maj_def bit_simps)

definition circular :: "u32 list \<Rightarrow> nat \<Rightarrow> u32 list \<Rightarrow> bool" where
  "circular M t W \<longleftrightarrow> length W = 16 \<and> (\<forall>s < t. t \<le> s + 16 \<longrightarrow> W ! (s mod 16) = fips_schedule M s)"

lemma circularD: "circular M t W \<Longrightarrow> s < t \<Longrightarrow> t \<le> s + 16 \<Longrightarrow> W ! (s mod 16) = fips_schedule M s"
  by (simp add: circular_def)

lemma mod16_neq:
  assumes "s < t" "t < s + 16"
  shows "s mod 16 \<noteq> t mod (16 :: nat)"
proof
  assume "s mod 16 = t mod 16"
  then have "16 dvd t - s" using assms by (metis less_imp_le mod_eq_dvd_iff_nat)
  then show False using assms by (auto dest: dvd_imp_le)
qed

lemma mod16_back:
  fixes t :: nat
  assumes "16 \<le> t"
  shows "(t - 16) mod 16 = t mod 16" "(t - 2) mod 16 = (t mod 16 + 14) mod 16"
    "(t - 7) mod 16 = (t mod 16 + 9) mod 16" "(t - 15) mod 16 = (t mod 16 + 1) mod 16"
proof -
  obtain u where t: "t = 16 + u" using assms by (metis le_Suc_ex)
  have "t - 2 = u + 14" "t - 7 = u + 9" "t - 15 = u + 1" by (simp_all add: t)
  then show "(t - 16) mod 16 = t mod 16" "(t - 2) mod 16 = (t mod 16 + 14) mod 16"
    "(t - 7) mod 16 = (t mod 16 + 9) mod 16" "(t - 15) mod 16 = (t mod 16 + 1) mod 16"
    by (simp_all only: mod_add_left_eq t add.commute [of 16 u] mod_add_self2 diff_add_inverse2)
qed

lemma circular_write:
  assumes "circular M t W" and "v = fips_schedule M t"
  shows "circular M (Suc t) (W[t mod 16 := v])"
  unfolding circular_def
proof (intro conjI allI impI)
  show "length (W[t mod 16 := v]) = 16" using assms by (simp add: circular_def)
  fix s assume s: "s < Suc t" "Suc t \<le> s + 16"
  show "W[t mod 16 := v] ! (s mod 16) = fips_schedule M s"
  proof (cases "s = t")
    case True
    then show ?thesis using assms by (simp add: circular_def)
  next
    case False
    with s have "s < t" "t < s + 16" by simp_all
    then have "s mod 16 \<noteq> t mod 16" by (rule mod16_neq)
    then have "W[t mod 16 := v] ! (s mod 16) = W ! (s mod 16)" by simp
    with \<open>s < t\<close> \<open>t < s + 16\<close> assms show ?thesis by (simp add: circularD)
  qed
qed

lemma circular_step:
  assumes c: "circular M (j + i) W" and i: "i < 16" and j: "j mod 16 = 0"
  shows "circular M (Suc (j + i)) (sha256_W M j i W) \<and> sha256_W M j i W ! i = fips_schedule M (j + i)"
proof -
  let ?t = "j + i"
  have ti: "?t mod 16 = i" using i j by (metis mod_add_left_eq add_0 mod_less)
  have len: "length W = 16" using c by (simp add: circular_def)
  have val: "(if j = 0 then M ! i
      else W ! i + (s1 (W ! ((i + 14) mod 16)) + W ! ((i + 9) mod 16) + s0 (W ! ((i + 1) mod 16))))
      = fips_schedule M ?t"
  proof (cases "j = 0")
    case True
    then show ?thesis using i by (simp add: fips_schedule.simps)
  next
    case False
    then have t16: "16 \<le> ?t" using j by (auto simp: mod_eq_0_iff_dvd dest: dvd_imp_le)
    have m: "(?t - 16) mod 16 = i" "(?t - 2) mod 16 = (i + 14) mod 16"
      "(?t - 7) mod 16 = (i + 9) mod 16" "(?t - 15) mod 16 = (i + 1) mod 16"
      using mod16_back [OF t16] by (simp_all only: ti)
    have "W ! i = fips_schedule M (?t - 16)"
      "W ! ((i + 14) mod 16) = fips_schedule M (?t - 2)"
      "W ! ((i + 9) mod 16) = fips_schedule M (?t - 7)"
      "W ! ((i + 1) mod 16) = fips_schedule M (?t - 15)"
      using circularD [OF c, of "?t - 16"] circularD [OF c, of "?t - 2"]
        circularD [OF c, of "?t - 7"] circularD [OF c, of "?t - 15"] t16 by (simp_all add: m)
    then show ?thesis using False t16 by (simp add: fips_schedule.simps [of M ?t])
  qed
  have W': "sha256_W M j i W = W[?t mod 16 := fips_schedule M ?t]"
    using val by (simp add: sha256_W_def ti split: if_splits)
  show ?thesis using circular_write [OF c refl] i len by (simp add: W' ti)
qed

lemma fips_round_regs:
  "fips_round M t r = sha256_regs (sha256_K ! t) (fips_schedule M t) r"
  by (induction M t r rule: fips_round.induct) (simp add: Ch_fips Maj_fips ac_simps)

lemma sha256_R_rounds:
  assumes "circular M j W" and "j mod 16 = 0" and "n \<le> 16"
  shows "circular M (j + n) (fst (fold (\<lambda>i. sha256_R M j i) [0..<n] (W, r))) \<and>
         snd (fold (\<lambda>i. sha256_R M j i) [0..<n] (W, r)) = fold (fips_round M) [j..<j + n] r"
  using assms(3)
proof (induction n)
  case 0
  then show ?case using assms by simp
next
  case (Suc n)
  let ?s = "fold (\<lambda>i. sha256_R M j i) [0..<n] (W, r)"
  have IH: "circular M (j + n) (fst ?s)" "snd ?s = fold (fips_round M) [j..<j + n] r"
    using Suc by simp_all
  have st: "circular M (Suc (j + n)) (sha256_W M j n (fst ?s))"
    "sha256_W M j n (fst ?s) ! n = fips_schedule M (j + n)"
    using circular_step [OF IH(1) _ assms(2)] Suc.prems by simp_all
  show ?case using st IH(2)
    by (simp add: sha256_R_def [of M j n ?s] Let_def fips_round_regs [of M "j + n"] add.commute [of n j])
qed

lemma sha256_transform_fips:
  "sha256_transform s data =
   add_regs s (fold (fips_round data) [0..<64] (regs_of s))"
proof -
  let ?F = "\<lambda>j. fold (\<lambda>i. sha256_R data j i) [0..<16]"
  let ?G = "\<lambda>a b. fold (fips_round data) [a..<b]"
  have blk: "circular data (j + 16) (fst (?F j st)) \<and> snd (?F j st) = ?G j (j + 16) (snd st)"
    if "circular data j (fst st)" "j mod 16 = 0" for j st
    using sha256_R_rounds [of data j "fst st" 16 "snd st"] that by simp
  define st0 where "st0 = (replicate 16 (0 :: u32), regs_of s)"
  have c0: "circular data 0 (fst st0)" by (simp add: st0_def circular_def)
  note b1 = blk [OF c0]
  note b2 = blk [of 16 "?F 0 st0"]
  note b3 = blk [of 32 "?F 16 (?F 0 st0)"]
  note b4 = blk [of 48 "?F 32 (?F 16 (?F 0 st0))"]
  have "snd (?F 48 (?F 32 (?F 16 (?F 0 st0)))) = ?G 48 64 (?G 32 48 (?G 16 32 (?G 0 16 (snd st0))))"
    using b1 b2 b3 b4 by simp
  also have "\<dots> = ?G 0 64 (snd st0)"
  proof -
    have "[0..<64] = [0..<16] @ [16..<32] @ [32..<48] @ [48..<(64 :: nat)]"
      by (simp add: upt_conv_Cons)
    then show ?thesis by (simp del: upt_rec_numeral)
  qed
  finally show ?thesis by (simp add: sha256_transform_def st0_def del: upt_rec_numeral)
qed

lemma write_block_fips:
  "sha256_write_byte_block p = p\<lparr>state := fips_compress (state p) (buffer p)\<rparr>"
  by (simp add: sha256_write_byte_block_def fips_compress_def sha256_transform_fips)

subsection \<open>Streaming\<close>

lemma buffer_pos_mod: "buffer_pos p = unat (count p) mod 64"
proof -
  have "(0x3F :: u64) = mask 6" by (simp add: mask_eq_exp_minus_1)
  then have "buffer_pos p = unat (take_bit 6 (count p))"
    by (simp add: buffer_pos_def take_bit_eq_mask)
  also have "\<dots> = take_bit 6 (unat (count p))"
    by (simp add: unsigned_take_bit_eq)
  finally show ?thesis by (simp add: take_bit_eq_mod)
qed

lemma buffer_pos_bound: "buffer_pos p < 64"
  by (simp add: buffer_pos_mod)

lemma unat_count_Suc: "unat (c + 1 :: u64) mod 64 = (unat c mod 64 + 1) mod 64"
proof -
  have "unat (c + 1) = (unat c + 1) mod 2 ^ 64" by (simp add: unat_word_ariths)
  then have "unat (c + 1) mod 64 = (unat c + 1) mod 2 ^ 64 mod 64" by simp
  also have "\<dots> = (unat c + 1) mod 64" by (simp add: mod_mod_cancel)
  also have "\<dots> = (unat c mod 64 + 1) mod 64" by (simp only: mod_add_left_eq)
  finally show ?thesis .
qed

lemma sha256_update_Nil [simp]: "sha256_update p [] = p"
  by (simp add: sha256_update_def)

definition sha256_push :: "sha256_t \<Rightarrow> byte \<Rightarrow> sha256_t" where
  "sha256_push p x =
     (let p1 = p\<lparr>buffer := (buffer p)[buffer_pos p := x], count := count p + 1\<rparr>
      in if buffer_pos p + 1 = 64 then sha256_write_byte_block p1 else p1)"

lemma sha256_update_Cons: "sha256_update p (x # xs) = sha256_update (sha256_push p x) xs"
proof -
  let ?p1 = "p\<lparr>buffer := (buffer p)[buffer_pos p := x], count := count p + 1\<rparr>"
  have c: "buffer_pos q = (buffer_pos p + 1) mod 64" if "count q = count p + 1" for q :: sha256_t
    using that by (simp add: buffer_pos_mod unat_count_Suc)
  have cw: "count (sha256_write_byte_block ?p1) = count p + 1"
    by (simp add: sha256_write_byte_block_def)
  show ?thesis
  proof (cases "buffer_pos p + 1 = 64")
    case True
    then have "buffer_pos (sha256_write_byte_block ?p1) = 0" using c [OF cw] by simp
    with True show ?thesis by (simp add: sha256_update_def sha256_push_def Let_def)
  next
    case False
    then have "buffer_pos ?p1 = buffer_pos p + 1"
      using c [of ?p1] buffer_pos_bound [of p] by simp
    with False show ?thesis by (simp add: sha256_update_def sha256_push_def Let_def)
  qed
qed

lemma sha256_update_foldl: "sha256_update p xs = foldl sha256_push p xs"
  by (induction xs arbitrary: p) (simp_all add: sha256_update_Cons)

lemma update_update [simp]: "sha256_update (sha256_update p xs) ys = sha256_update p (xs @ ys)"
  by (simp add: sha256_update_foldl)

subsection \<open>Blocks\<close>

lemma blocks64_short: "length xs < 64 \<Longrightarrow> blocks64 xs = []"
  by (simp add: blocks64.simps)

lemma blocks64_one: "length b = 64 \<Longrightarrow> blocks64 (b @ xs) = b # blocks64 xs"
  by (simp add: blocks64.simps [of "b @ xs"])

definition tail64 :: "byte list \<Rightarrow> byte list" where
  "tail64 xs = drop (64 * (length xs div 64)) xs"

lemma length_tail64: "length (tail64 xs) = length xs mod 64"
  by (simp add: tail64_def minus_mult_div_eq_mod)

lemma tail64_short: "length xs < 64 \<Longrightarrow> tail64 xs = xs"
  by (simp add: tail64_def)

lemma tail64_step: "\<not> length xs < 64 \<Longrightarrow> tail64 (drop 64 xs) = tail64 xs"
proof -
  assume "\<not> length xs < 64"
  then obtain k where k: "length xs = 64 + k" by (metis le_Suc_ex not_less)
  have "(64 + k) div 64 = Suc (k div 64)" by (simp add: div_add_self1)
  then have "64 * (k div 64) + 64 = 64 * (length xs div 64)" by (simp add: k)
  then show ?thesis by (simp add: tail64_def k add.commute)
qed

lemma blocks64_append: "blocks64 (xs @ ys) = blocks64 xs @ blocks64 (tail64 xs @ ys)"
proof (induction xs rule: blocks64.induct)
  case (1 xs)
  show ?case
  proof (cases "length xs < 64")
    case True
    then show ?thesis by (simp add: blocks64_short tail64_short)
  next
    case False
    then have "blocks64 (xs @ ys) = take 64 xs # blocks64 (drop 64 xs @ ys)"
      by (simp add: blocks64.simps [of "xs @ ys"])
    with 1 False show ?thesis by (simp add: tail64_step blocks64.simps [of xs])
  qed
qed

lemma tail64_append: "tail64 (xs @ ys) = tail64 (tail64 xs @ ys)"
proof (induction xs rule: blocks64.induct)
  case (1 xs)
  show ?case
  proof (cases "length xs < 64")
    case False
    then show ?thesis using 1 tail64_step [of "xs @ ys"] by (simp add: tail64_step)
  qed (simp add: tail64_short)
qed

subsection \<open>What the structure holds after a message\<close>

definition absorbed :: "sha256_t \<Rightarrow> byte list \<Rightarrow> bool" where
  "absorbed p msg \<longleftrightarrow>
     state p = foldl fips_compress sha256_H0 (blocks64 msg) \<and>
     count p = of_nat (length msg) \<and> length (buffer p) = 64 \<and>
     take (length msg mod 64) (buffer p) = tail64 msg"

lemma absorbed_pos: "absorbed p msg \<Longrightarrow> buffer_pos p = length msg mod 64"
  by (simp add: absorbed_def buffer_pos_mod unat_of_nat mod_mod_cancel)

lemma absorbed_init: "length (buffer p) = 64 \<Longrightarrow> absorbed (sha256_init p) []"
  by (simp add: absorbed_def sha256_init_def blocks64_short tail64_def)

lemma take_update_Suc: "k < length b \<Longrightarrow> take (Suc k) (b[k := x]) = take k b @ [x]"
  by (simp add: take_Suc_conv_app_nth)

lemma absorbed_push:
  assumes a: "absorbed p msg"
  shows "absorbed (sha256_push p x) (msg @ [x])"
proof -
  let ?r = "length msg mod 64"
  have pos: "buffer_pos p = ?r" using a by (rule absorbed_pos)
  have len: "length (buffer p) = 64" and t: "take ?r (buffer p) = tail64 msg"
    using a by (simp_all add: absorbed_def)
  have r: "?r < 64" by simp
  have tx: "take (Suc ?r) ((buffer p)[?r := x]) = tail64 msg @ [x]"
    using take_update_Suc [of ?r "buffer p" x] len t r by simp
  have lt: "length (tail64 msg @ [x]) = Suc ?r" by (simp add: length_tail64)
  show ?thesis
  proof (cases "?r + 1 = 64")
    case True
    have full: "(buffer p)[?r := x] = tail64 msg @ [x]" using tx True len by simp
    have b: "blocks64 (msg @ [x]) = blocks64 msg @ [tail64 msg @ [x]]"
      using blocks64_append [of msg "[x]"] blocks64_one [of "tail64 msg @ [x]" "[]"] lt True
      by (simp add: blocks64_short)
    have t0: "tail64 (msg @ [x]) = []"
      using tail64_append [of msg "[x]"] tail64_step [of "tail64 msg @ [x]"] lt True
      by (simp add: tail64_def)
    have "length (msg @ [x]) mod 64 = 0" using True by (simp add: mod_Suc)
    with True full b t0 a show ?thesis
      by (simp add: absorbed_def sha256_push_def pos Let_def write_block_fips length_tail64)
  next
    case False
    have b: "blocks64 (msg @ [x]) = blocks64 msg"
      using blocks64_append [of msg "[x]"] lt False r by (simp add: blocks64_short)
    have t1: "tail64 (msg @ [x]) = tail64 msg @ [x]"
      using tail64_append [of msg "[x]"] lt False r by (simp add: tail64_short)
    have "length (msg @ [x]) mod 64 = Suc ?r" using False by (simp add: mod_Suc)
    with False b t1 tx a show ?thesis
      by (simp add: absorbed_def sha256_push_def pos Let_def)
  qed
qed

lemma absorbed_update: "absorbed p msg \<Longrightarrow> absorbed (sha256_update p xs) (msg @ xs)"
  unfolding sha256_update_foldl
proof (induction xs rule: rev_induct)
  case (snoc x xs)
  then show ?case using absorbed_push [of "foldl sha256_push p xs" "msg @ xs" x] by simp
qed simp

subsection \<open>Padding\<close>

lemma pad_loop_zeros:
  assumes "1 \<le> pos" "pos + k \<le> 64" "pos + k = 56 \<or> 56 < pos" "length (buffer p) = 64"
  shows "sha256_pad_loop pos p =
         sha256_pad_loop (pos + k)
           (p\<lparr>buffer := take pos (buffer p) @ replicate k 0 @ drop (pos + k) (buffer p)\<rparr>)"
  using assms
proof (induction k arbitrary: pos p)
  case 0
  then show ?case by simp
next
  case (Suc k)
  let ?p = "p\<lparr>buffer := (buffer p)[pos := 0]\<rparr>"
  have pos: "pos < 64" "pos \<noteq> 56" "pos \<noteq> 0" using Suc.prems by auto
  have step: "sha256_pad_loop pos p = sha256_pad_loop (pos + 1) ?p"
    using pos by (simp add: sha256_pad_loop.simps [of pos p])
  have buf: "take (Suc pos) ((buffer p)[pos := 0]) = take pos (buffer p) @ [0]"
    using take_update_Suc [of pos "buffer p" 0] pos Suc.prems by simp
  show ?case
    using Suc.IH [of "pos + 1" ?p] Suc.prems step buf by (auto simp: drop_update_cancel)
qed

lemma pad_loop_at_56: "sha256_pad_loop 56 p = p"
  by (simp add: sha256_pad_loop.simps)

lemma pad_loop_short:
  assumes "1 \<le> pos" "pos \<le> 56" "length (buffer p) = 64"
  shows "sha256_pad_loop pos p =
         p\<lparr>buffer := take pos (buffer p) @ replicate (56 - pos) 0 @ drop 56 (buffer p)\<rparr>"
  using pad_loop_zeros [of pos "56 - pos" p] assms by (simp add: pad_loop_at_56)

lemma pad_loop_at_64:
  assumes "length (buffer p) = 64"
  shows "sha256_pad_loop 64 p =
         (sha256_write_byte_block p)\<lparr>buffer := replicate 56 0 @ drop 56 (buffer p)\<rparr>"
proof -
  let ?q = "sha256_write_byte_block p"
  have b: "buffer ?q = buffer p" by (simp add: write_block_fips)
  have "sha256_pad_loop 64 p = sha256_pad_loop 1 (?q\<lparr>buffer := (buffer ?q)[0 := 0]\<rparr>)"
    by (simp add: sha256_pad_loop.simps [of 64 p] Let_def)
  also have "\<dots> = ?q\<lparr>buffer := take 1 ((buffer p)[0 := 0]) @ replicate 55 0 @ drop 56 (buffer p)\<rparr>"
    using assms by (simp add: pad_loop_short b drop_update_cancel)
  also have "take 1 ((buffer p)[0 := 0]) = [0]"
    using take_update_Suc [of 0 "buffer p" 0] assms by simp
  also have "[0] @ replicate 55 0 @ drop 56 (buffer p) = replicate 56 0 @ drop 56 (buffer p)"
    by (simp add: numeral_eq_Suc)
  finally show ?thesis .
qed

lemma pad_loop_long:
  assumes "56 < pos" "pos \<le> 64" "length (buffer p) = 64"
  shows "sha256_pad_loop pos p =
         p\<lparr>state := fips_compress (state p) (take pos (buffer p) @ replicate (64 - pos) 0),
           buffer := replicate 56 0 @ drop 56 (take pos (buffer p) @ replicate (64 - pos) 0)\<rparr>"
  using pad_loop_zeros [of pos "64 - pos" p] assms
  by (simp add: pad_loop_at_64 write_block_fips)

lemma put_length_be:
  assumes "length buf = 64"
  shows "put_length v buf = take 56 buf @ be_bytes 8 v"
proof -
  have drop56: "ucast (drop_bit 56 (push_bit (8 * i) v)) = (ucast (drop_bit (56 - 8 * i) v) :: byte)"
    if "i < 8" for i
    using that by (intro bit_word_eqI) (auto simp: bit_simps)
  have len: "length (put_length v buf) = 64"
    using assms by (simp add: put_length_def numeral_eq_Suc)
  show ?thesis
  proof (rule nth_equalityI)
    show "length (put_length v buf) = length (take 56 buf @ be_bytes 8 v)"
      using len assms by simp
    fix i assume "i < length (put_length v buf)"
    then have "i < 56 \<or> i \<in> {56, 57, 58, 59, 60, 61, 62, 63}" using len by auto
    then show "put_length v buf ! i = (take 56 buf @ be_bytes 8 v) ! i"
      using assms drop56 [of 0] drop56 [of 1] drop56 [of 2] drop56 [of 3] drop56 [of 4]
        drop56 [of 5] drop56 [of 6] drop56 [of 7]
      by (auto simp: put_length_def nth_append numeral_eq_Suc be_bytes_Suc)
  qed
qed

subsection \<open>The digest\<close>

lemma sha256_final_tail:
  assumes a: "absorbed p msg"
  defines "r \<equiv> length msg mod 64"
  shows "snd (sha256_final p) =
         digest_of_state (foldl fips_compress (state p)
           (blocks64 (tail64 msg @ 0x80 # replicate (if r < 56 then 55 - r else 119 - r) 0
                      @ be_bytes 8 (push_bit 3 (count p)))))"
proof -
  let ?p = "p\<lparr>buffer := (buffer p)[r := 0x80]\<rparr>"
  let ?L = "be_bytes 8 (push_bit 3 (count p))"
  let ?t = "tail64 msg @ [0x80]"
  have pos: "buffer_pos p = r" using a by (simp add: absorbed_pos r_def)
  have len: "length (buffer ?p) = 64" and r: "r < 64" using a by (simp_all add: absorbed_def r_def)
  have tk: "take (Suc r) (buffer ?p) = ?t"
    using a take_update_Suc [of r "buffer p" "0x80"] r by (simp add: absorbed_def r_def)
  have lt: "length ?t = Suc r" by (simp add: length_tail64 r_def)
  show ?thesis
  proof (cases "r < 56")
    case True
    have "sha256_pad_loop (r + 1) ?p = ?p\<lparr>buffer := ?t @ replicate (55 - r) 0 @ drop 56 (buffer ?p)\<rparr>"
      using pad_loop_short [of "r + 1" ?p] True len tk by simp
    moreover have "blocks64 (?t @ replicate (55 - r) 0 @ ?L) = [?t @ replicate (55 - r) 0 @ ?L]"
      using blocks64_one [of "?t @ replicate (55 - r) 0 @ ?L" "[]"] lt True by (simp add: blocks64_short)
    moreover have "take 56 (?t @ replicate (55 - r) 0 @ drop 56 (buffer ?p)) = ?t @ replicate (55 - r) 0"
      using True lt by (simp add: take_Cons')
    ultimately show ?thesis using True lt len
      by (simp add: sha256_final_def pos Let_def put_length_be write_block_fips)
  next
    case False
    let ?b = "?t @ replicate (63 - r) 0"
    have lb: "length ?b = 64" using lt r by simp
    have pl: "sha256_pad_loop (r + 1) ?p =
        ?p\<lparr>state := fips_compress (state p) ?b, buffer := replicate 56 0 @ drop 56 ?b\<rparr>"
      using pad_loop_long [of "r + 1" ?p] False r len tk lt by simp
    have bl: "blocks64 (?b @ replicate 56 0 @ ?L) = [?b, replicate 56 0 @ ?L]"
      using blocks64_one [OF lb] blocks64_one [of "replicate 56 0 @ ?L" "[]"] by (simp add: blocks64_short)
    have e: "tail64 msg @ 0x80 # replicate (119 - r) 0 @ ?L = ?b @ replicate 56 0 @ ?L"
      using r replicate_add [of "63 - r" 56 "0 :: byte"] by simp
    have "length (drop 56 ?b) = 8" using lb by simp
    with pl bl e False show ?thesis
      by (simp add: sha256_final_def pos Let_def put_length_be write_block_fips)
  qed
qed

lemma bits_of_count: "push_bit 3 (of_nat n :: u64) = of_nat (8 * n)"
  by (simp add: push_bit_eq_mult)

lemma sha256_digest:
  assumes "length (buffer context) = 64"
  shows "snd (sha256_final (sha256_update (sha256_init context) msg)) = sha256 msg"
proof -
  let ?p = "sha256_update (sha256_init context) msg"
  have a: "absorbed ?p msg"
    using absorbed_update [OF absorbed_init [OF assms], of msg] by simp
  show ?thesis
    using sha256_final_tail [OF a] a blocks64_append [of msg]
    by (simp add: sha256_def fips_pad_def Let_def absorbed_def bits_of_count)
qed

lemma length_buffer_pad_loop: "length (buffer (sha256_pad_loop pos p)) = length (buffer p)"
proof (induction pos p rule: sha256_pad_loop.induct)
  case (1 pos p)
  show ?case
  proof (cases "pos = 56")
    case False
    then show ?thesis
      using 1 by (simp add: sha256_pad_loop.simps [of pos p] Let_def write_block_fips)
  qed (simp add: pad_loop_at_56)
qed

lemma length_put_length: "length (put_length v buf) = length buf"
  by (simp add: put_length_def numeral_eq_Suc)

lemma length_buffer_final [simp]: "length (buffer (fst (sha256_final p))) = length (buffer p)"
  by (simp add: sha256_final_def Let_def sha256_init_def write_block_fips length_put_length length_buffer_pad_loop)

lemma length_buffer_update:
  "length (buffer p) = 64 \<Longrightarrow> length (buffer (sha256_update (sha256_init p) msg)) = 64"
  using absorbed_update [OF absorbed_init, of p msg] by (simp add: absorbed_def)



lemma length_sha256 [simp, wire_simps]: "length (sha256 msg) = 32"
  by (simp add: sha256_def digest_of_state_def numeral_eq_Suc)

end
