(* ===== verification/Auth.thy ===== *)
theory Auth
  imports Format Sha256
begin

text \<open>
  \<^verbatim>\<open>halofpx-context-store-auth.{h,cpp}\<close>: bounded hashing of spans, HMAC-SHA-256, the
  key derivation, and the manifest verifier with its guards in source order. A
  failing primitive (\<^verbatim>\<open>return false\<close>) is \<^verbatim>\<open>None\<close>; the wiping of secrets has no
  observable effect in the model. Stack contexts are given a zero content, which
  does not matter by the hash correctness theorem of the previous theory.
  Shown: the primitives compute SHA-256 and HMAC of the concatenated spans; the
  verifier accepts exactly the canonical manifests that carry the right tag and
  agree with the policy's key, anchor and compatibility expectation; only accepted
  results expose a carrier.
\<close>

subsection \<open>Types\<close>

definition master_key_max_bytes :: nat where "master_key_max_bytes = 1024"

datatype key_disposition = active | unknown | revoked | read_disabled

datatype manifest_verify_status =
    authenticated_unadmitted | structural_rejection | invalid_policy | unknown_key | revoked_key
  | read_disabled_key | key_generation_mismatch | authentication_failed | authority_mismatch
  | replay_mismatch | compatibility_corrupt | compatibility_mismatch

record manifest_key_record =
  mk_disposition :: key_disposition
  mk_key_id :: registered_id
  mk_generation :: u64
  mk_master_key :: byte_span

record replay_anchor =
  ra_store_uuid :: "byte list"
  ra_checkpoint_lineage_id :: digest
  ra_namespace_id :: digest
  ra_policy_epoch :: u64
  ra_key_generation :: u64
  ra_generation :: u64
  ra_has_predecessor :: bool
  ra_predecessor_manifest_digest :: digest
  ra_selected_manifest_digest :: digest

record compatibility_expectation =
  ce_components :: "digest list"
  ce_root :: digest

record manifest_verification_policy =
  vp_key :: manifest_key_record
  vp_anchor :: replay_anchor
  vp_compatibility :: compatibility_expectation

record authenticated_manifest_metadata =
  am_store_uuid :: "byte list"
  am_checkpoint_lineage_id :: digest
  am_generation :: u64
  am_has_predecessor :: bool
  am_predecessor_manifest_digest :: digest
  am_compatibility_components :: "digest list"
  am_compatibility_root :: digest
  am_scope_namespace :: digest
  am_policy_epoch :: u64
  am_topology_plan_schema_id :: registered_id
  am_topology_execution_mode :: registered_id
  am_world_size :: u64
  am_global_plan_digest :: digest
  am_topology_epoch :: u64
  am_rank_ownership :: "digest list"
  am_rank_placements :: "digest list"
  am_state_profile_id :: registered_id
  am_producer_identity :: digest
  am_durability_mode :: byte

text \<open>The private members of the carrier: the metadata and the object references, when set.\<close>

record manifest_verify_result =
  vr_status :: manifest_verify_status
  vr_parse_status :: manifest_parse_status
  vr_manifest_digest :: digest
  vr_authenticated_carrier :: "(authenticated_manifest_metadata \<times> object_reference list) option"

definition has_authenticated_carrier :: "manifest_verify_result \<Rightarrow> bool" where
  "has_authenticated_carrier r \<longleftrightarrow>
     vr_authenticated_carrier r \<noteq> None \<and> vr_status r = authenticated_unadmitted"

definition authenticated_object_count :: "manifest_verify_result \<Rightarrow> nat" where
  "authenticated_object_count r =
     (if has_authenticated_carrier r
      then (case vr_authenticated_carrier r of Some (_, refs) \<Rightarrow> length refs | None \<Rightarrow> 0) else 0)"

definition authenticated_object_reference :: "manifest_verify_result \<Rightarrow> nat \<Rightarrow> object_reference option" where
  "authenticated_object_reference r index =
     (if has_authenticated_carrier r
      then (case vr_authenticated_carrier r of
              Some (_, refs) \<Rightarrow> if index < length refs then Some (refs ! index) else None
            | None \<Rightarrow> None)
      else None)"

definition authenticated_manifest_metadata_of ::
    "manifest_verify_result \<Rightarrow> authenticated_manifest_metadata option" where
  "authenticated_manifest_metadata_of r =
     (if has_authenticated_carrier r then map_option fst (vr_authenticated_carrier r) else None)"

subsection \<open>Hashing spans\<close>

definition sha256_block_bytes :: nat where "sha256_block_bytes = 64"
definition crypto_input_max_bytes :: nat where "crypto_input_max_bytes = manifest_max_bytes + 4096"

text \<open>A character array constant, with its terminating zero as \<^verbatim>\<open>sizeof\<close> counts it.\<close>

definition ascii_bytes :: "string \<Rightarrow> byte list" where
  "ascii_bytes s = map of_char s"

definition domain_bytes :: "string \<Rightarrow> byte list" where
  "domain_bytes s = ascii_bytes s @ [0]"

definition manifest_key_domain :: "byte list" where
  "manifest_key_domain = domain_bytes ''halofpx.manifest-key.v1''"
definition manifest_auth_domain :: "byte list" where
  "manifest_auth_domain = domain_bytes ''halofpx.manifest-auth.v1''"
definition manifest_domain :: "byte list" where
  "manifest_domain = domain_bytes ''halofpx.manifest.v1''"
definition compatibility_domain :: "byte list" where
  "compatibility_domain = domain_bytes ''halofpx.compat.v1''"

definition valid_span :: "byte_span \<Rightarrow> bool" where
  "valid_span span \<longleftrightarrow> span_size span = 0 \<or> \<not> span_null span"

fun spans_bounded_loop :: "nat \<Rightarrow> nat \<Rightarrow> byte_span list \<Rightarrow> bool" where
  "spans_bounded_loop total_bytes max_input_bytes [] = True"
| "spans_bounded_loop total_bytes max_input_bytes (span # spans) =
     (if \<not> valid_span span \<or> total_bytes > max_input_bytes \<or> span_size span > max_input_bytes - total_bytes
      then False
      else spans_bounded_loop (total_bytes + span_size span) max_input_bytes spans)"

definition spans_bounded :: "byte_span list \<Rightarrow> nat \<Rightarrow> bool" where
  "spans_bounded spans max_input_bytes = spans_bounded_loop 0 max_input_bytes spans"

definition stack_context :: sha256_t where
  "stack_context = \<lparr>state = replicate 8 0, count = 0, buffer = replicate 64 0\<rparr>"

fun update_spans :: "sha256_t \<Rightarrow> byte_span list \<Rightarrow> sha256_t option" where
  "update_spans context [] = Some context"
| "update_spans context (span # spans) =
     (if \<not> valid_span span then None
      else update_spans (if span_size span \<noteq> 0 then sha256_update context (span_bytes span) else context) spans)"

definition sha256_spans :: "byte_span list \<Rightarrow> nat \<Rightarrow> digest option" where
  "sha256_spans spans max_input_bytes =
     (if max_input_bytes > (2 ^ 64 - 1) div 8 \<or> \<not> spans_bounded spans max_input_bytes then None
      else map_option (\<lambda>context. snd (sha256_final context))
             (update_spans (sha256_init stack_context) spans))"

definition hmac_sha256_spans :: "byte_span \<Rightarrow> byte_span list \<Rightarrow> digest option" where
  "hmac_sha256_spans key spans =
     (if (span_null key \<and> span_size key \<noteq> 0) \<or> span_size key > master_key_max_bytes \<or>
         \<not> spans_bounded spans crypto_input_max_bytes then None
      else do {
        key_block \<leftarrow>
          (if span_size key > sha256_block_bytes
           then map_option (\<lambda>hashed_key. hashed_key @ replicate (64 - length hashed_key) 0)
                  (sha256_spans [key] master_key_max_bytes)
           else Some (span_bytes key @ replicate (64 - span_size key) 0));
        let inner_pad = map (\<lambda>b. b XOR 0x36) key_block;
        let outer_pad = map (\<lambda>b. b XOR 0x5c) key_block;
        inner \<leftarrow> update_spans (sha256_update (sha256_init stack_context) inner_pad) spans;
        let (context, inner_digest) = sha256_final inner;
        Some (snd (sha256_final (sha256_update (sha256_update (sha256_init context) outer_pad) inner_digest)))
      })"

definition context_store_sha256 :: "byte_span \<Rightarrow> digest option" where
  "context_store_sha256 data = sha256_spans [data] crypto_input_max_bytes"

definition context_store_sha256_bounded :: "byte_span \<Rightarrow> u64 \<Rightarrow> digest option" where
  "context_store_sha256_bounded data max_size = sha256_spans [data] (unat max_size)"

definition context_store_manifest_digest_v1 :: "byte_span \<Rightarrow> digest option" where
  "context_store_manifest_digest_v1 data =
     (if span_null data \<or> span_size data = 0 \<or> span_size data > manifest_max_bytes then None
      else sha256_spans [Span manifest_domain, data] (manifest_max_bytes + length manifest_domain))"

definition context_store_hmac_sha256 :: "byte_span \<Rightarrow> byte_span \<Rightarrow> digest option" where
  "context_store_hmac_sha256 key data = hmac_sha256_spans key [data]"

subsection \<open>The manifest verifier\<close>

definition constant_time_equal :: "digest \<Rightarrow> digest \<Rightarrow> bool" where
  "constant_time_equal left right = ct_equal left right"

definition registered_id_equal :: "registered_id \<Rightarrow> registered_id \<Rightarrow> bool" where
  "registered_id_equal left right = (if length left \<noteq> length right then False else ct_equal left right)"

definition uint64_be :: "u64 \<Rightarrow> byte list" where
  "uint64_be value = rev (map (\<lambda>index. ucast (drop_bit (index * 8) value)) [0..<8])"

definition derive_manifest_key :: "parsed_manifest \<Rightarrow> manifest_key_record \<Rightarrow> digest option" where
  "derive_manifest_key manifest key_record =
     (let key_id = pm_authentication_key_id manifest;
          key_id_length = [of_nat (length key_id div 256), of_nat (length key_id)]
      in hmac_sha256_spans (mk_master_key key_record)
           [Span manifest_key_domain, Span key_id_length, Span key_id,
            Span (pm_store_uuid manifest), Span (pm_scope_namespace manifest),
            Span (uint64_be (pm_authentication_key_generation manifest))])"

definition compatibility_root_from_components :: "digest list \<Rightarrow> digest" where
  "compatibility_root_from_components components =
     snd (sha256_final
       (fold (\<lambda>(index, component) context.
                sha256_update (sha256_update (sha256_update context [of_nat index]) [0x58, 0x20]) component)
          (enumerate 0 components)
          (sha256_update (sha256_update (sha256_init stack_context) compatibility_domain) [0xb0])))"

definition predecessor_equal :: "parsed_manifest \<Rightarrow> replay_anchor \<Rightarrow> bool" where
  "predecessor_equal manifest anchor \<longleftrightarrow>
     pm_has_predecessor manifest = ra_has_predecessor anchor \<and>
     (\<not> pm_has_predecessor manifest \<or>
      pm_predecessor_manifest_digest manifest = ra_predecessor_manifest_digest anchor)"

definition metadata_of :: "parsed_manifest \<Rightarrow> authenticated_manifest_metadata" where
  "metadata_of m = \<lparr>
     am_store_uuid = pm_store_uuid m,
     am_checkpoint_lineage_id = pm_checkpoint_lineage_id m,
     am_generation = pm_generation m,
     am_has_predecessor = pm_has_predecessor m,
     am_predecessor_manifest_digest = pm_predecessor_manifest_digest m,
     am_compatibility_components = pm_compatibility_components m,
     am_compatibility_root = pm_compatibility_root m,
     am_scope_namespace = pm_scope_namespace m,
     am_policy_epoch = pm_policy_epoch m,
     am_topology_plan_schema_id = pm_topology_plan_schema_id m,
     am_topology_execution_mode = pm_topology_execution_mode m,
     am_world_size = pm_world_size m,
     am_global_plan_digest = pm_global_plan_digest m,
     am_topology_epoch = pm_topology_epoch m,
     am_rank_ownership = pm_rank_ownership m,
     am_rank_placements = pm_rank_placements m,
     am_state_profile_id = pm_state_profile_id m,
     am_producer_identity = pm_producer_identity m,
     am_durability_mode = pm_durability_mode m\<rparr>"

definition span_range :: "byte_span \<Rightarrow> nat \<Rightarrow> nat \<Rightarrow> byte_span" where
  "span_range data offset n = Span (take n (drop offset (span_bytes data)))"

text \<open>
  The verifier's guards, stage by stage: \<^verbatim>\<open>Some status\<close> is an early return with that
  status, \<^verbatim>\<open>None\<close> falls through to the next stage.
\<close>

definition key_rejection :: "parsed_manifest \<Rightarrow> manifest_key_record \<Rightarrow> manifest_verify_status option" where
  "key_rejection manifest key =
     (if \<not> registered_id_equal (pm_authentication_key_id manifest) (mk_key_id key) \<or>
         mk_disposition key = unknown then Some unknown_key
      else if mk_disposition key = revoked then Some revoked_key
      else if mk_disposition key = read_disabled then Some read_disabled_key
      else if mk_disposition key \<noteq> active then Some invalid_policy
      else if pm_authentication_key_generation manifest \<noteq> mk_generation key
      then Some key_generation_mismatch
      else if span_null (mk_master_key key) \<or> span_size (mk_master_key key) = 0 \<or>
              span_size (mk_master_key key) > master_key_max_bytes
      then Some invalid_policy
      else None)"

definition tag_rejection ::
    "byte_span \<Rightarrow> parsed_manifest \<Rightarrow> manifest_key_record \<Rightarrow> manifest_verify_status option" where
  "tag_rejection data manifest key =
     (case derive_manifest_key manifest key of
        None \<Rightarrow> Some invalid_policy
      | Some derived_key \<Rightarrow>
          (case hmac_sha256_spans (Span derived_key)
                  [Span manifest_auth_domain,
                   span_range data (pm_authentication_input_offset manifest)
                     (pm_authentication_input_size manifest)] of
             None \<Rightarrow> Some authentication_failed
           | Some expected_tag \<Rightarrow>
               if \<not> constant_time_equal expected_tag (pm_authentication_tag manifest)
               then Some authentication_failed else None))"

definition anchor_rejection :: "parsed_manifest \<Rightarrow> replay_anchor \<Rightarrow> manifest_verify_status option" where
  "anchor_rejection manifest anchor =
     (if pm_store_uuid manifest \<noteq> ra_store_uuid anchor \<or>
         pm_scope_namespace manifest \<noteq> ra_namespace_id anchor \<or>
         pm_policy_epoch manifest \<noteq> ra_policy_epoch anchor
      then Some authority_mismatch
      else if pm_checkpoint_lineage_id manifest \<noteq> ra_checkpoint_lineage_id anchor \<or>
              pm_authentication_key_generation manifest \<noteq> ra_key_generation anchor \<or>
              pm_generation manifest \<noteq> ra_generation anchor \<or>
              \<not> predecessor_equal manifest anchor
      then Some replay_mismatch
      else None)"

definition compatibility_rejection ::
    "byte_span \<Rightarrow> parsed_manifest \<Rightarrow> compatibility_expectation \<Rightarrow> manifest_verify_status option" where
  "compatibility_rejection data manifest compatibility =
     (if sha256_spans [Span compatibility_domain,
           span_range data (pm_compatibility_manifest_offset manifest)
             (pm_compatibility_manifest_size manifest)] crypto_input_max_bytes
         \<noteq> Some (pm_compatibility_root manifest)
      then Some compatibility_corrupt
      else if compatibility_root_from_components (ce_components compatibility) \<noteq> ce_root compatibility \<or>
              pm_compatibility_root manifest \<noteq> ce_root compatibility \<or>
              pm_compatibility_components manifest \<noteq> ce_components compatibility
      then Some compatibility_mismatch
      else None)"

definition verify_parsed ::
    "byte_span \<Rightarrow> manifest_verification_policy \<Rightarrow> parsed_manifest \<Rightarrow> manifest_verify_result \<Rightarrow> manifest_verify_result" where
  "verify_parsed data policy manifest verification =
     (case key_rejection manifest (vp_key policy) of
        Some st \<Rightarrow> verification\<lparr>vr_status := st\<rparr>
      | None \<Rightarrow>
     (case tag_rejection data manifest (vp_key policy) of
        Some st \<Rightarrow> verification\<lparr>vr_status := st\<rparr>
      | None \<Rightarrow>
     (case anchor_rejection manifest (vp_anchor policy) of
        Some st \<Rightarrow> verification\<lparr>vr_status := st\<rparr>
      | None \<Rightarrow>
     (case context_store_manifest_digest_v1 data of
        None \<Rightarrow> verification\<lparr>vr_status := replay_mismatch\<rparr>
      | Some digest \<Rightarrow>
     (if digest \<noteq> ra_selected_manifest_digest (vp_anchor policy)
      then verification\<lparr>vr_manifest_digest := digest, vr_status := replay_mismatch\<rparr>
      else case compatibility_rejection data manifest (vp_compatibility policy) of
        Some st \<Rightarrow> verification\<lparr>vr_manifest_digest := digest, vr_status := st\<rparr>
      | None \<Rightarrow>
          verification\<lparr>vr_manifest_digest := digest, vr_status := authenticated_unadmitted,
            vr_authenticated_carrier := Some (metadata_of manifest, pm_object_references manifest)\<rparr>)))))"

definition context_store_verify_manifest_v1 ::
    "byte_span \<Rightarrow> manifest_verification_policy \<Rightarrow> manifest_verify_result" where
  "context_store_verify_manifest_v1 data policy =
     (let parsed = context_store_parse_manifest_v1 data;
          verification = \<lparr>vr_status = structural_rejection, vr_parse_status = parse_status_of parsed,
            vr_manifest_digest = zero_digest, vr_authenticated_carrier = None\<rparr>
      in case parsed of
           Inl _ \<Rightarrow> verification
         | Inr manifest \<Rightarrow> verify_parsed data policy manifest verification)"

subsection \<open>The primitives compute SHA-256 and HMAC\<close>

definition spans_bytes :: "byte_span list \<Rightarrow> byte list" where
  "spans_bytes spans = concat (map span_bytes spans)"

definition spans_ok :: "byte_span list \<Rightarrow> nat \<Rightarrow> bool" where
  "spans_ok spans limit \<longleftrightarrow> list_all valid_span spans \<and> length (spans_bytes spans) \<le> limit"

definition hmac_sha256 :: "byte list \<Rightarrow> byte list \<Rightarrow> byte list" where
  "hmac_sha256 key msg =
     (let k0 = (if length key > 64 then sha256 key else key);
          block = k0 @ replicate (64 - length k0) 0
      in sha256 (map (\<lambda>b. b XOR 0x5c) block @ sha256 (map (\<lambda>b. b XOR 0x36) block @ msg)))"

lemma valid_span_length: "valid_span s \<Longrightarrow> length (span_bytes s) = span_size s"
  by (cases s) (auto simp: valid_span_def)

lemma spans_bounded_loop_iff:
  "total_bytes \<le> limit \<Longrightarrow> spans_bounded_loop total_bytes limit spans \<longleftrightarrow>
     list_all valid_span spans \<and> total_bytes + length (spans_bytes spans) \<le> limit"
proof (induction spans arbitrary: total_bytes)
  case (Cons s spans)
  show ?case
  proof (cases "valid_span s \<and> span_size s \<le> limit - total_bytes")
    case True
    then show ?thesis
      using Cons.IH [of "total_bytes + span_size s"] Cons.prems
      by (auto simp: spans_bytes_def valid_span_length add.assoc)
  next
    case False
    then show ?thesis using Cons.prems by (auto simp: spans_bytes_def valid_span_length)
  qed
qed (simp add: spans_bytes_def)

lemma spans_bounded_iff: "spans_bounded spans limit \<longleftrightarrow> spans_ok spans limit"
  by (simp add: spans_bounded_def spans_bounded_loop_iff spans_ok_def)

lemma update_spans_valid:
  "list_all valid_span spans \<Longrightarrow> update_spans ctx spans = Some (sha256_update ctx (spans_bytes spans))"
proof (induction spans arbitrary: ctx)
  case (Cons s spans)
  moreover have "(if span_size s \<noteq> 0 then sha256_update ctx (span_bytes s) else ctx) =
      sha256_update ctx (span_bytes s)"
    using Cons.prems valid_span_length [of s] by auto
  ultimately show ?case by (simp add: spans_bytes_def)
qed (simp add: spans_bytes_def)

lemma stack_context_buffer [simp]: "length (buffer stack_context) = 64"
  by (simp add: stack_context_def)

lemma sha256_spans_iff:
  "limit \<le> (2 ^ 64 - 1) div 8 \<Longrightarrow>
   sha256_spans spans limit = (if spans_ok spans limit then Some (sha256 (spans_bytes spans)) else None)"
  by (auto simp: sha256_spans_def spans_bounded_iff update_spans_valid sha256_digest spans_ok_def)

lemma hmac_spans_iff:
  "hmac_sha256_spans key spans =
   (if valid_span key \<and> span_size key \<le> master_key_max_bytes \<and> spans_ok spans crypto_input_max_bytes
    then Some (hmac_sha256 (span_bytes key) (spans_bytes spans)) else None)"
proof (cases "valid_span key \<and> span_size key \<le> master_key_max_bytes \<and> spans_ok spans crypto_input_max_bytes")
  case False
  then show ?thesis by (auto simp: hmac_sha256_spans_def spans_bounded_iff valid_span_def)
next
  case True
  define block where "block = (if length (span_bytes key) > 64 then sha256 (span_bytes key) else span_bytes key)
      @ replicate (64 - length (if length (span_bytes key) > 64 then sha256 (span_bytes key) else span_bytes key)) 0"
  have len: "length (span_bytes key) = span_size key" using True valid_span_length by blast
  have kb: "(if span_size key > sha256_block_bytes
           then map_option (\<lambda>hashed_key. hashed_key @ replicate (64 - length hashed_key) 0)
                  (sha256_spans [key] master_key_max_bytes)
           else Some (span_bytes key @ replicate (64 - span_size key) 0)) = Some block"
    using True len
    by (simp add: block_def sha256_block_bytes_def sha256_spans_iff master_key_max_bytes_def spans_ok_def spans_bytes_def)
  let ?inner = "sha256_update (sha256_init stack_context) (map (\<lambda>b. b XOR 0x36) block @ spans_bytes spans)"
  have i: "snd (sha256_final ?inner) = sha256 (map (\<lambda>b. b XOR 0x36) block @ spans_bytes spans)"
    by (simp add: sha256_digest)
  have "length (buffer (fst (sha256_final ?inner))) = 64"
    by (simp add: length_buffer_update)
  note o = sha256_digest [OF this]
  have valid: "\<not> (span_null key \<and> span_size key \<noteq> 0)" "list_all valid_span spans" "\<not> span_size key > master_key_max_bytes"
    "spans_bounded spans crypto_input_max_bytes"
    using True by (auto simp: valid_span_def spans_ok_def spans_bounded_iff)
  have spec: "hmac_sha256 (span_bytes key) msg =
      sha256 (map (\<lambda>b. b XOR 0x5c) block @ sha256 (map (\<lambda>b. b XOR 0x36) block @ msg))" for msg
    by (simp only: hmac_sha256_def Let_def block_def)
  show ?thesis
    using True valid i o
    by (simp add: hmac_sha256_spans_def kb update_spans_valid case_prod_unfold spec)
qed

lemma length_hmac_sha256 [simp, wire_simps]: "length (hmac_sha256 k m) = 32"
  by (simp add: hmac_sha256_def Let_def)

lemma uint64_be_eq: "uint64_be v = be_bytes 8 v"
  by (simp add: uint64_be_def be_bytes_def rev_map mult.commute)

lemma domain_lengths:
  "length manifest_key_domain = 24" "length manifest_auth_domain = 25" "length manifest_domain = 20"
  "length compatibility_domain = 18"
  by (simp_all add: manifest_key_domain_def manifest_auth_domain_def manifest_domain_def
      compatibility_domain_def domain_bytes_def ascii_bytes_def)

subsection \<open>The compatibility root\<close>

lemma component_bytes_small:
  "i < 24 \<Longrightarrow> length d = 32 \<Longrightarrow> component_bytes i d = of_nat i # 0x58 # 0x20 # d"
proof -
  assume i: "i < 24" and d: "length d = 32"
  have "(of_nat i :: u64) < 24" "ucast (of_nat i :: u64) = (of_nat i :: byte)"
    using i by (simp_all add: word_less_nat_alt word_unat_eq_iff unat_of_nat unat_small_ucast)
  then have "cbor_uint (of_nat i) = [of_nat i]" by (simp add: cbor_head_def head_byte_def)
  moreover have "cbor_head 2 32 = [0x58, 0x20]" by (simp add: cbor_head_def head_byte_def be_bytes_def)
  ultimately show ?thesis using d by (simp add: component_bytes_def cbor_bytes_def)
qed

lemma fold_components:
  assumes "length (buffer p) = 64" "n + length ds \<le> 24" "\<forall>d \<in> set ds. length d = 32"
  shows "fold (\<lambda>(index, component) context.
             sha256_update (sha256_update (sha256_update context [of_nat index]) [0x58, 0x20]) component)
           (enumerate n ds) q = sha256_update q (enc_each component_bytes n ds)"
  using assms(2,3)
  by (induction ds arbitrary: n q) (simp_all add: component_bytes_small)

lemma compatibility_root_spec:
  assumes "length cs = compatibility_component_count" "\<forall>d \<in> set cs. length d = 32"
  shows "compatibility_root_from_components cs = sha256 (compatibility_domain @ compatibility_bytes cs)"
proof -
  have "cbor_head 5 16 = [0xb0]" by (simp add: cbor_head_def head_byte_def)
  then show ?thesis
    using assms fold_components [of stack_context 0 cs]
    by (simp add: compatibility_root_from_components_def compatibility_bytes_def sha256_digest
        compatibility_component_count_def)
qed

subsection \<open>What the manifest verifier accepts\<close>

definition manifest_key :: "byte list \<Rightarrow> parsed_manifest \<Rightarrow> digest" where
  "manifest_key master m =
     hmac_sha256 master (manifest_key_domain
       @ [of_nat (length (pm_authentication_key_id m) div 256), of_nat (length (pm_authentication_key_id m))]
       @ pm_authentication_key_id m @ pm_store_uuid m @ pm_scope_namespace m
       @ be_bytes 8 (pm_authentication_key_generation m))"

definition manifest_tag :: "byte list \<Rightarrow> parsed_manifest \<Rightarrow> digest" where
  "manifest_tag master m = hmac_sha256 (manifest_key master m) (manifest_auth_domain @ manifest_auth_input m)"

definition usable_key :: "byte_span \<Rightarrow> bool" where
  "usable_key key \<longleftrightarrow> \<not> span_null key \<and> span_size key \<noteq> 0 \<and> span_size key \<le> master_key_max_bytes"

definition manifest_authentic :: "manifest_key_record \<Rightarrow> parsed_manifest \<Rightarrow> bool" where
  "manifest_authentic key m \<longleftrightarrow>
     mk_disposition key = active \<and> pm_authentication_key_id m = mk_key_id key \<and>
     pm_authentication_key_generation m = mk_generation key \<and> usable_key (mk_master_key key) \<and>
     pm_authentication_tag m = manifest_tag (span_bytes (mk_master_key key)) m"

definition manifest_authorized :: "replay_anchor \<Rightarrow> parsed_manifest \<Rightarrow> bool" where
  "manifest_authorized anchor m \<longleftrightarrow>
     pm_store_uuid m = ra_store_uuid anchor \<and> pm_scope_namespace m = ra_namespace_id anchor \<and>
     pm_policy_epoch m = ra_policy_epoch anchor"

definition manifest_selected :: "replay_anchor \<Rightarrow> parsed_manifest \<Rightarrow> bool" where
  "manifest_selected anchor m \<longleftrightarrow>
     pm_checkpoint_lineage_id m = ra_checkpoint_lineage_id anchor \<and>
     pm_authentication_key_generation m = ra_key_generation anchor \<and>
     pm_generation m = ra_generation anchor \<and> predecessor_equal m anchor \<and>
     sha256 (manifest_domain @ manifest_bytes m) = ra_selected_manifest_digest anchor"

definition manifest_compatible :: "compatibility_expectation \<Rightarrow> parsed_manifest \<Rightarrow> bool" where
  "manifest_compatible ce m \<longleftrightarrow>
     pm_compatibility_components m = ce_components ce \<and> pm_compatibility_root m = ce_root ce \<and>
     pm_compatibility_root m = sha256 (compatibility_domain @ compatibility_bytes (pm_compatibility_components m))"

lemma manifest_ranges:
  assumes "wf_manifest m"
  shows "span_range (Span (manifest_bytes m)) (pm_authentication_input_offset m) (pm_authentication_input_size m)
           = Span (manifest_auth_input m)"
    and "span_range (Span (manifest_bytes m)) (pm_compatibility_manifest_offset m) (pm_compatibility_manifest_size m)
           = Span (compatibility_bytes (pm_compatibility_components m))"
    and "length (manifest_auth_input m) + 2 \<le> length (manifest_bytes m)"
    and "length (compatibility_bytes (pm_compatibility_components m)) \<le> length (manifest_bytes m)"
proof -
  have two: "length (cbor_head 5 2 @ cbor_uint 0) = 2" by (simp add: length_head_small)
  have m: "manifest_bytes m = (cbor_head 5 2 @ cbor_uint 0) @ manifest_auth_input m
      @ cbor_uint 1 @ cbor_bytes (pm_authentication_tag m)"
    by (simp add: manifest_bytes_def)
  have c: "manifest_bytes m = ((cbor_head 5 2 @ cbor_uint 0) @ manifest_prefix_bytes m)
      @ compatibility_bytes (pm_compatibility_components m) @ manifest_suffix_bytes m
      @ cbor_head 4 (of_nat (length (pm_object_references m)))
      @ enc_each (\<lambda>_. object_bytes) 0 (pm_object_references m)
      @ manifest_trailer_bytes m @ cbor_uint 1 @ cbor_bytes (pm_authentication_tag m)"
    by (simp add: manifest_bytes_def manifest_auth_input_def)
  have range: "take (length b) (drop n (a @ b @ r)) = b" if "length a = n" for a b r :: "byte list" and n
    using that by simp
  show "span_range (Span (manifest_bytes m)) (pm_authentication_input_offset m) (pm_authentication_input_size m)
           = Span (manifest_auth_input m)"
    using assms two by (simp only: span_range_def span_bytes.simps m wf_manifest_def range byte_span.inject)
  show "span_range (Span (manifest_bytes m)) (pm_compatibility_manifest_offset m) (pm_compatibility_manifest_size m)
           = Span (compatibility_bytes (pm_compatibility_components m))"
    using assms two range [of "(cbor_head 5 2 @ cbor_uint 0) @ manifest_prefix_bytes m" "2 + length (manifest_prefix_bytes m)"]
    unfolding span_range_def c by (simp add: wf_manifest_def)
  show "length (manifest_auth_input m) + 2 \<le> length (manifest_bytes m)"
    using two by (simp add: m)
  show "length (compatibility_bytes (pm_compatibility_components m)) \<le> length (manifest_bytes m)"
    by (simp add: c)
qed

text \<open>The verdict on a structurally valid manifest, as an ordered list of requirements.\<close>

definition manifest_verdict :: "manifest_verification_policy \<Rightarrow> parsed_manifest \<Rightarrow> manifest_verify_status" where
  "manifest_verdict policy m =
     (let key = vp_key policy in
      if pm_authentication_key_id m \<noteq> mk_key_id key \<or> mk_disposition key = unknown then unknown_key
      else if mk_disposition key = revoked then revoked_key
      else if mk_disposition key = read_disabled then read_disabled_key
      else if pm_authentication_key_generation m \<noteq> mk_generation key then key_generation_mismatch
      else if \<not> usable_key (mk_master_key key) then invalid_policy
      else if \<not> manifest_authentic key m then authentication_failed
      else if \<not> manifest_authorized (vp_anchor policy) m then authority_mismatch
      else if \<not> manifest_selected (vp_anchor policy) m then replay_mismatch
      else if pm_compatibility_root m
                \<noteq> sha256 (compatibility_domain @ compatibility_bytes (pm_compatibility_components m))
           then compatibility_corrupt
      else if \<not> manifest_compatible (vp_compatibility policy) m then compatibility_mismatch
      else authenticated_unadmitted)"

lemma registered_id_equal_iff [simp]: "registered_id_equal a b \<longleftrightarrow> a = b"
  by (auto simp: registered_id_equal_def)

lemma derive_manifest_key_eq:
  assumes "wf_manifest m" "usable_key (mk_master_key key)"
  shows "derive_manifest_key m key = Some (manifest_key (span_bytes (mk_master_key key)) m)"
proof -
  have "length (pm_authentication_key_id m) \<le> 128" "length (pm_store_uuid m) = 16" "length (pm_scope_namespace m) = 32"
    using assms(1) by (auto simp: wf_manifest_def header_ok_def trailer_ok_def valid_registered_id_def format_limits)
  then show ?thesis
    using assms(2)
    by (simp add: derive_manifest_key_def Let_def hmac_spans_iff manifest_key_def uint64_be_eq usable_key_def
        valid_span_def spans_ok_def spans_bytes_def crypto_input_max_bytes_def manifest_max_bytes_def domain_lengths)
qed

lemma expected_tag_eq:
  assumes "wf_manifest m" "length (manifest_bytes m) \<le> manifest_max_bytes"
  shows "hmac_sha256_spans (Span (manifest_key master m))
      [Span manifest_auth_domain, span_range (Span (manifest_bytes m)) (pm_authentication_input_offset m)
         (pm_authentication_input_size m)] = Some (manifest_tag master m)"
proof -
  have "length (manifest_key master m) = 32" by (simp add: manifest_key_def)
  then show ?thesis
    using assms manifest_ranges(1,3) [OF assms(1)]
    by (simp add: hmac_spans_iff manifest_tag_def valid_span_def spans_ok_def spans_bytes_def
        crypto_input_max_bytes_def master_key_max_bytes_def domain_lengths)
qed

lemma manifest_digest_eq:
  assumes "length (manifest_bytes m) \<le> manifest_max_bytes"
  shows "context_store_manifest_digest_v1 (Span (manifest_bytes m)) =
         Some (sha256 (manifest_domain @ manifest_bytes m))"
proof -
  have "manifest_bytes m \<noteq> []" by (simp add: manifest_bytes_def)
  then show ?thesis using assms
    by (simp add: context_store_manifest_digest_v1_def sha256_spans_iff spans_ok_def spans_bytes_def valid_span_def
        domain_lengths manifest_max_bytes_def)
qed

lemma compatibility_digest_eq:
  assumes "wf_manifest m" "length (manifest_bytes m) \<le> manifest_max_bytes"
  shows "sha256_spans [Span compatibility_domain,
           span_range (Span (manifest_bytes m)) (pm_compatibility_manifest_offset m)
             (pm_compatibility_manifest_size m)] crypto_input_max_bytes =
         Some (sha256 (compatibility_domain @ compatibility_bytes (pm_compatibility_components m)))"
  using assms manifest_ranges(2,4) [OF assms(1)]
  by (simp add: sha256_spans_iff spans_ok_def spans_bytes_def valid_span_def domain_lengths
      crypto_input_max_bytes_def manifest_max_bytes_def)

lemma expected_root_eq:
  assumes "wf_manifest m"
  shows "compatibility_root_from_components (pm_compatibility_components m) =
         sha256 (compatibility_domain @ compatibility_bytes (pm_compatibility_components m))"
  using assms by (intro compatibility_root_spec) (simp_all add: wf_manifest_def header_ok_def)

lemma key_rejection_eq:
  "key_rejection m key =
     (if pm_authentication_key_id m \<noteq> mk_key_id key \<or> mk_disposition key = unknown then Some unknown_key
      else if mk_disposition key = revoked then Some revoked_key
      else if mk_disposition key = read_disabled then Some read_disabled_key
      else if pm_authentication_key_generation m \<noteq> mk_generation key then Some key_generation_mismatch
      else if \<not> usable_key (mk_master_key key) then Some invalid_policy else None)"
  by (cases "mk_disposition key") (simp_all add: key_rejection_def usable_key_def not_less)

lemma tag_rejection_eq:
  assumes w: "wf_manifest m" and l: "length (manifest_bytes m) \<le> manifest_max_bytes"
    and k: "key_rejection m key = None"
  shows "tag_rejection (Span (manifest_bytes m)) m key =
         (if manifest_authentic key m then None else Some authentication_failed)"
proof -
  have u: "usable_key (mk_master_key key)" and "mk_disposition key = active"
    "pm_authentication_key_id m = mk_key_id key" "pm_authentication_key_generation m = mk_generation key"
    using k by (cases "mk_disposition key"; auto simp: key_rejection_eq split: if_splits)+
  moreover have "length (pm_authentication_tag m) = 32" using w by (simp add: wf_manifest_def trailer_ok_def)
  ultimately show ?thesis
    by (auto simp: tag_rejection_def derive_manifest_key_eq [OF w u] expected_tag_eq [OF w l]
        constant_time_equal_def manifest_authentic_def manifest_tag_def)
qed

lemma compatibility_rejection_eq:
  assumes w: "wf_manifest m" and l: "length (manifest_bytes m) \<le> manifest_max_bytes"
  shows "compatibility_rejection (Span (manifest_bytes m)) m ce =
    (if pm_compatibility_root m
          \<noteq> sha256 (compatibility_domain @ compatibility_bytes (pm_compatibility_components m))
     then Some compatibility_corrupt
     else if \<not> manifest_compatible ce m then Some compatibility_mismatch else None)"
  using expected_root_eq [OF w]
  by (auto simp: compatibility_rejection_def compatibility_digest_eq [OF w l] manifest_compatible_def)

lemma manifest_verdict_stages:
  "manifest_verdict policy m =
     case_option
       (if \<not> manifest_authentic (vp_key policy) m then authentication_failed
        else if \<not> manifest_authorized (vp_anchor policy) m then authority_mismatch
        else if \<not> manifest_selected (vp_anchor policy) m then replay_mismatch
        else if pm_compatibility_root m
                  \<noteq> sha256 (compatibility_domain @ compatibility_bytes (pm_compatibility_components m))
             then compatibility_corrupt
        else if \<not> manifest_compatible (vp_compatibility policy) m then compatibility_mismatch
        else authenticated_unadmitted)
       (\<lambda>st. st) (key_rejection m (vp_key policy))"
  by (simp only: manifest_verdict_def key_rejection_eq Let_def if_distrib [of "case_option _ _"] option.case)

lemma verify_parsed_status:
  assumes w: "wf_manifest m" and l: "length (manifest_bytes m) \<le> manifest_max_bytes"
  shows "vr_status (verify_parsed (Span (manifest_bytes m)) policy m v) = manifest_verdict policy m"
proof (cases "key_rejection m (vp_key policy)")
  case (Some st)
  then show ?thesis by (simp add: verify_parsed_def manifest_verdict_stages)
next
  case None
  note t = tag_rejection_eq [OF w l None]
  show ?thesis using None
    by (simp add: verify_parsed_def manifest_verdict_stages t compatibility_rejection_eq [OF w l]
        manifest_digest_eq [OF l] anchor_rejection_def manifest_authorized_def manifest_selected_def)
qed

text \<open>
  the verifier returns \<^verbatim>\<open>structural_rejection\<close> on what the parser rejects and
  otherwise the verdict of the ordered requirements: key, tag, authority, replay,
  compatibility.
\<close>

theorem verify_manifest_verdict:
  "vr_status (context_store_verify_manifest_v1 data policy) =
     (case context_store_parse_manifest_v1 data of
        Inl _ \<Rightarrow> structural_rejection
      | Inr m \<Rightarrow> manifest_verdict policy m)"
proof (cases "context_store_parse_manifest_v1 data")
  case (Inr m)
  then have "wf_manifest m" "length (manifest_bytes m) \<le> manifest_max_bytes" "data = Span (manifest_bytes m)"
    by (simp_all add: parse_manifest_iff)
  with Inr show ?thesis by (simp add: context_store_verify_manifest_v1_def verify_parsed_status)
qed (simp add: context_store_verify_manifest_v1_def)

lemma verdict_accepts_iff:
  "manifest_verdict policy m = authenticated_unadmitted \<longleftrightarrow>
     manifest_authentic (vp_key policy) m \<and> manifest_authorized (vp_anchor policy) m \<and>
     manifest_selected (vp_anchor policy) m \<and> manifest_compatible (vp_compatibility policy) m"
proof (cases "key_rejection m (vp_key policy)")
  case (Some st)
  then have "st \<noteq> authenticated_unadmitted" "\<not> manifest_authentic (vp_key policy) m"
    by (auto simp: key_rejection_eq manifest_authentic_def split: if_splits)
  then show ?thesis using Some by (simp add: manifest_verdict_stages)
next
  case None
  then show ?thesis by (auto simp: manifest_verdict_stages manifest_compatible_def)
qed

text \<open>
  C11: the verifier authenticates a byte string exactly when it is the canonical
  encoding of a well-formed manifest that carries the tag of the policy's active
  key, matches the anchor's authority and selection, digest included, and the
  expected compatibility components under their root.
\<close>

theorem verify_manifest_accepts:
  "vr_status (context_store_verify_manifest_v1 data policy) = authenticated_unadmitted \<longleftrightarrow>
   (\<exists>m. wf_manifest m \<and> data = Span (manifest_bytes m) \<and> length (manifest_bytes m) \<le> manifest_max_bytes \<and>
        manifest_authentic (vp_key policy) m \<and> manifest_authorized (vp_anchor policy) m \<and>
        manifest_selected (vp_anchor policy) m \<and> manifest_compatible (vp_compatibility policy) m)"
proof (cases "context_store_parse_manifest_v1 data")
  case (Inl e)
  then have "\<not> (wf_manifest m \<and> data = Span (manifest_bytes m) \<and> length (manifest_bytes m) \<le> manifest_max_bytes)" for m
    using parse_manifest_iff [of data m] by simp
  with Inl show ?thesis by (auto simp: context_store_verify_manifest_v1_def)
next
  case (Inr m)
  then have w: "wf_manifest m" "length (manifest_bytes m) \<le> manifest_max_bytes" and d: "data = Span (manifest_bytes m)"
    by (simp_all add: parse_manifest_iff)
  have u: "m' = m" if "wf_manifest m'" "data = Span (manifest_bytes m')" "length (manifest_bytes m') \<le> manifest_max_bytes" for m'
    using Inr parse_manifest_iff [of data m'] that by simp
  have "vr_status (context_store_verify_manifest_v1 data policy) = manifest_verdict policy m"
    using Inr by (simp add: context_store_verify_manifest_v1_def verify_parsed_status [OF w] d)
  then show ?thesis using w d u by (metis verdict_accepts_iff)
qed

lemma verify_parsed_carrier:
  "vr_authenticated_carrier v = None \<Longrightarrow>
   vr_authenticated_carrier (verify_parsed data policy m v) =
     (if vr_status (verify_parsed data policy m v) = authenticated_unadmitted
      then Some (metadata_of m, pm_object_references m) else None)"
  by (auto simp: verify_parsed_def key_rejection_def tag_rejection_def anchor_rejection_def
      compatibility_rejection_def split: option.splits if_splits)

lemma verify_carrier:
  "vr_authenticated_carrier (context_store_verify_manifest_v1 data policy) =
     (case context_store_parse_manifest_v1 data of
        Inr m \<Rightarrow> if vr_status (context_store_verify_manifest_v1 data policy) = authenticated_unadmitted
                  then Some (metadata_of m, pm_object_references m) else None
      | Inl _ \<Rightarrow> None)"
  by (cases "context_store_parse_manifest_v1 data")
     (simp_all add: context_store_verify_manifest_v1_def Let_def verify_parsed_carrier)

lemma verify_rejected_parse:
  "context_store_parse_manifest_v1 data = Inl e \<Longrightarrow>
   vr_status (context_store_verify_manifest_v1 data policy) = structural_rejection"
  by (simp add: context_store_verify_manifest_v1_def)

text \<open>
  a result exposes a carrier exactly when it is authenticated, and then the
  metadata and the object references are those of the manifest the bytes encode.
\<close>

theorem verify_manifest_carrier:
  "(has_authenticated_carrier (context_store_verify_manifest_v1 data policy) \<longleftrightarrow>
     vr_status (context_store_verify_manifest_v1 data policy) = authenticated_unadmitted) \<and>
   authenticated_manifest_metadata_of (context_store_verify_manifest_v1 data policy) =
     (case context_store_parse_manifest_v1 data of
        Inr m \<Rightarrow> if vr_status (context_store_verify_manifest_v1 data policy) = authenticated_unadmitted
                  then Some (metadata_of m) else None
      | Inl _ \<Rightarrow> None) \<and>
   authenticated_object_reference (context_store_verify_manifest_v1 data policy) i =
     (case context_store_parse_manifest_v1 data of
        Inr m \<Rightarrow> if vr_status (context_store_verify_manifest_v1 data policy) = authenticated_unadmitted \<and>
                     i < length (pm_object_references m)
                  then Some (pm_object_references m ! i) else None
      | Inl _ \<Rightarrow> None)"
  using verify_rejected_parse [of data _ policy]
  by (cases "context_store_parse_manifest_v1 data")
     (simp_all add: has_authenticated_carrier_def authenticated_manifest_metadata_of_def
      authenticated_object_reference_def verify_carrier)

end
