(* ===== verification/Object.thy ===== *)
theory Object
  imports Auth
begin

text \<open>
  \<^verbatim>\<open>halofpx-context-store-object.{h,cpp}\<close>: verification of one object frame against a
  reference carried by an authenticated manifest. The frame cursor is a reader whose
  failures are the statuses of the source; two-byte lengths are held in the 64-bit
  word the model reads big-endian values into. \<^verbatim>\<open>size_t\<close> has 64 bits, so
  \<^verbatim>\<open>u64_fits_size\<close> holds.
  Shown: a frame is verified exactly when it is the canonical frame of some payload
  under the reference's stream type, within the limits, and hashes to the object id;
  the reported range is that payload, and it never leaves the frame.
\<close>

datatype object_verify_status =
    object_verified_unadmitted | manifest_unadmitted | object_index_out_of_range | invalid_limits
  | input_empty | frame_limit_exceeded | truncated | wrong_magic | wrong_domain
  | invalid_stream_type | payload_length_invalid | payload_limit_exceeded | trailing_data
  | descriptor_mismatch | object_digest_mismatch

record object_limits =
  ol_max_frame_bytes :: u64
  ol_max_payload_bytes :: u64

record object_verify_result =
  ov_status :: object_verify_status
  ov_computed_object_id :: digest
  ov_payload_offset :: nat
  ov_payload_size :: nat

definition object_magic :: "byte list" where
  "object_magic = [0x48, 0x41, 0x4c, 0x4f, 0x4f, 0x42, 0x4a, 0x01]"

definition object_domain :: "byte list" where
  "object_domain = ascii_bytes ''halofpx.object.v1''"

definition minimum_frame_bytes :: nat where
  "minimum_frame_bytes = length object_magic + 2 + length object_domain + 2 + 1 + 8"

type_synonym 'a frame_cursor = "(object_verify_status, 'a) reader"

definition frame_take :: "nat \<Rightarrow> byte list frame_cursor" where
  "frame_take n = take_bytes (\<lambda>_. truncated) n"

definition read_u16 :: "u64 frame_cursor" where
  "read_u16 = bind_reader (frame_take 2) (\<lambda>bs.
     return_reader (push_bit 8 (ucast (bs ! 0)) OR ucast (bs ! 1)))"

definition read_u64 :: "u64 frame_cursor" where
  "read_u64 = bind_reader (frame_take 8) (\<lambda>bs. return_reader (be_value bs))"

definition frame_remaining :: "nat frame_cursor" where
  "frame_remaining c = Inr (length (snd c), c)"

definition refuse :: "object_verify_status \<Rightarrow> bool \<Rightarrow> 'a frame_cursor \<Rightarrow> 'a frame_cursor" where
  "refuse st b P = (if b then fail_reader (\<lambda>_. st) else P)"

definition bytes_equal :: "byte list \<Rightarrow> byte list \<Rightarrow> bool" where
  "bytes_equal left right = ct_equal left right"

definition registered_type_matches :: "byte list \<Rightarrow> registered_id \<Rightarrow> bool" where
  "registered_type_matches type expected =
     (if length type \<noteq> length expected then False
      else list_all (\<lambda>(t, e). \<not> (t \<noteq> e \<or> t = 0 \<or> t \<ge> 0x80)) (zip type expected))"

definition u64_fits_size :: "u64 \<Rightarrow> bool" where
  "u64_fits_size v \<longleftrightarrow> unat v \<le> 2 ^ 64 - 1"

definition parse_frame :: "u64 \<Rightarrow> (byte list \<times> u64) frame_cursor" where
  "parse_frame max_payload_bytes =
     bind_reader (frame_take (length object_magic)) (\<lambda>value.
     refuse wrong_magic (\<not> bytes_equal value object_magic) (
     bind_reader read_u16 (\<lambda>domain_size.
     refuse wrong_domain (domain_size \<noteq> of_nat (length object_domain)) (
     bind_reader (frame_take (unat domain_size)) (\<lambda>value.
     refuse wrong_domain (\<not> bytes_equal value object_domain) (
     bind_reader read_u16 (\<lambda>type_size.
     refuse invalid_stream_type (type_size = 0 \<or> type_size > of_nat registered_id_max_bytes) (
     bind_reader (frame_take (unat type_size)) (\<lambda>stream_type.
     refuse invalid_stream_type (\<not> list_all (\<lambda>b. \<not> (b = 0 \<or> b \<ge> 0x80)) stream_type) (
     bind_reader read_u64 (\<lambda>payload_size.
     refuse payload_length_invalid (\<not> u64_fits_size payload_size) (
     refuse payload_limit_exceeded (payload_size > max_payload_bytes) (
     bind_reader frame_remaining (\<lambda>remaining.
     refuse truncated (unat payload_size > remaining) (
     refuse trailing_data (unat payload_size < remaining) (
     return_reader (stream_type, payload_size)))))))))))))))))"

definition empty_object_result :: object_verify_result where
  "empty_object_result = \<lparr>ov_status = manifest_unadmitted, ov_computed_object_id = zero_digest,
     ov_payload_offset = 0, ov_payload_size = 0\<rparr>"

definition context_store_verify_object_frame_v1 ::
    "byte_span \<Rightarrow> object_limits \<Rightarrow> manifest_verify_result \<Rightarrow> nat \<Rightarrow> object_verify_result" where
  "context_store_verify_object_frame_v1 frame limits manifest object_index =
     (let result = empty_object_result;
          object_count = authenticated_object_count manifest
      in if object_count = 0 \<or> object_count > manifest_max_objects then result
         else if object_index \<ge> object_count
         then result\<lparr>ov_status := object_index_out_of_range\<rparr>
         else if ol_max_frame_bytes limits < of_nat minimum_frame_bytes \<or>
                 ol_max_payload_bytes limits = 0 \<or>
                 ol_max_frame_bytes limits > of_nat ((2 ^ 64 - 1) div 8)
         then result\<lparr>ov_status := invalid_limits\<rparr>
         else case authenticated_object_reference manifest object_index of
           None \<Rightarrow> result\<lparr>ov_status := manifest_unadmitted\<rparr>
         | Some reference \<Rightarrow>
           if or_frame_bytes reference > ol_max_frame_bytes limits \<or>
              span_size frame > unat (ol_max_frame_bytes limits)
           then result\<lparr>ov_status := frame_limit_exceeded\<rparr>
           else if span_null frame \<or> span_size frame = 0
           then result\<lparr>ov_status := input_empty\<rparr>
           else (case parse_frame (ol_max_payload_bytes limits) (0, span_bytes frame) of
             Inl st \<Rightarrow> result\<lparr>ov_status := st\<rparr>
           | Inr ((stream_type, payload_size), (position, _)) \<Rightarrow>
             if \<not> u64_fits_size (or_frame_bytes reference) \<or>
                unat (or_frame_bytes reference) \<noteq> span_size frame \<or>
                \<not> registered_type_matches stream_type (or_stream_type reference)
             then result\<lparr>ov_status := descriptor_mismatch\<rparr>
             else (case context_store_sha256_bounded frame (ol_max_frame_bytes limits) of
               None \<Rightarrow> result\<lparr>ov_status := object_digest_mismatch\<rparr>
             | Some computed \<Rightarrow>
               if \<not> bytes_equal computed (or_object_id reference)
               then result\<lparr>ov_computed_object_id := computed, ov_status := object_digest_mismatch\<rparr>
               else result\<lparr>ov_computed_object_id := computed,
                      ov_status := object_verified_unadmitted,
                      ov_payload_offset := position, ov_payload_size := unat payload_size\<rparr>)))"

subsection \<open>The canonical frame\<close>

definition object_frame_prefix :: "byte list \<Rightarrow> u64 \<Rightarrow> byte list" where
  "object_frame_prefix stream_type payload_size =
     object_magic @ be_bytes 2 17 @ object_domain
     @ be_bytes 2 (of_nat (length stream_type)) @ stream_type @ be_bytes 8 payload_size"

definition object_frame_bytes :: "byte list \<Rightarrow> byte list \<Rightarrow> byte list" where
  "object_frame_bytes stream_type payload =
     object_frame_prefix stream_type (of_nat (length payload)) @ payload"

definition valid_stream_type :: "byte list \<Rightarrow> bool" where
  "valid_stream_type t \<longleftrightarrow>
     1 \<le> length t \<and> length t \<le> registered_id_max_bytes \<and> list_all (\<lambda>b. b \<noteq> 0 \<and> b < 0x80) t"

lemma refuse_Inr [reader_simps]: "refuse st b P c = Inr r \<longleftrightarrow> \<not> b \<and> P c = Inr r"
  by (simp add: refuse_def fail_reader_def)

lemma frame_take_Inr [reader_simps]:
  "frame_take n (p, xs) = Inr (v, (q, ys)) \<longleftrightarrow> length v = n \<and> xs = v @ ys \<and> q = p + n"
  by (simp add: frame_take_def reader_simps)

lemma frame_remaining_Inr [reader_simps]:
  "frame_remaining (p, xs) = Inr (n, c) \<longleftrightarrow> n = length xs \<and> c = (p, xs)"
  by (auto simp: frame_remaining_def)

lemma be_value_two: "push_bit 8 (ucast a) OR ucast b = be_value [a, b]"
  by (simp add: be_value_def)

lemma read_be_iff:
  assumes "n \<le> 8"
  shows "(\<exists>bs. length bs = n \<and> xs = bs @ ys \<and> v = be_value bs) \<longleftrightarrow>
         unat v < 256 ^ n \<and> xs = be_bytes n v @ ys"
proof
  assume "\<exists>bs. length bs = n \<and> xs = bs @ ys \<and> v = be_value bs"
  then obtain bs where b: "length bs = n" "xs = bs @ ys" "v = be_value bs" by blast
  then show "unat v < 256 ^ n \<and> xs = be_bytes n v @ ys"
    using be_bytes_be_value [of bs n] unat_be_value_bound [of bs] be_nat_bound [of bs] assms by simp
next
  assume "unat v < 256 ^ n \<and> xs = be_bytes n v @ ys"
  then show "\<exists>bs. length bs = n \<and> xs = bs @ ys \<and> v = be_value bs"
    by (intro exI [of _ "be_bytes n v"]) (simp add: be_value_be_bytes)
qed

lemma read_u16_Inr [reader_simps]:
  "read_u16 (p, xs) = Inr (v, (q, ys)) \<longleftrightarrow> unat v < 65536 \<and> xs = be_bytes 2 v @ ys \<and> q = p + 2"
proof -
  have "read_u16 (p, xs) = Inr (v, (q, ys)) \<longleftrightarrow>
      (\<exists>bs. length bs = 2 \<and> xs = bs @ ys \<and> v = be_value bs) \<and> q = p + 2"
    by (auto simp: read_u16_def reader_simps length_Suc_conv numeral_2_eq_2 be_value_two)
  then show ?thesis using read_be_iff [of 2 xs ys v] by simp
qed

lemma read_u64_Inr [reader_simps]:
  "read_u64 (p, xs) = Inr (v, (q, ys)) \<longleftrightarrow> xs = be_bytes 8 v @ ys \<and> q = p + 8"
proof -
  have "read_u64 (p, xs) = Inr (v, (q, ys)) \<longleftrightarrow>
      (\<exists>bs. length bs = 8 \<and> xs = bs @ ys \<and> v = be_value bs) \<and> q = p + 8"
    by (auto simp: read_u64_def reader_simps)
  then show ?thesis using read_be_iff [of 8 xs ys v] unat_u64_bound [of v] by simp
qed

lemma object_lengths [simp]: "length object_magic = 8" "length object_domain = 17"
  by (simp_all add: object_magic_def object_domain_def ascii_bytes_def)

lemma frame_eval [reader_eval]:
  "length v = n \<Longrightarrow> frame_take n (p, v @ ys) = Inr (v, (p + n, ys))"
  "unat w < 65536 \<Longrightarrow> read_u16 (p, be_bytes 2 w @ ys) = Inr (w, (p + 2, ys))"
  "read_u64 (p, be_bytes 8 w @ ys) = Inr (w, (p + 8, ys))"
  "frame_remaining (p, ys) = Inr (length ys, (p, ys))"
  "\<not> b \<Longrightarrow> refuse st b P c = P c"
  by (simp_all add: reader_simps) (simp add: refuse_def)

lemma u64_fits [simp]: "u64_fits_size v"
  using unat_u64_bound [of v] by (simp add: u64_fits_size_def)

lemma parse_frame_Inr:
  "parse_frame limit (0, xs) = Inr ((t, n), (q, ys)) \<longleftrightarrow>
     valid_stream_type t \<and> n \<le> limit \<and> length ys = unat n \<and>
     xs = object_frame_prefix t n @ ys \<and> q = length (object_frame_prefix t n)"
  (is "?L \<longleftrightarrow> ?R")
proof
  assume ?L
  then show ?R
    by (auto simp: parse_frame_def reader_simps valid_stream_type_def object_frame_prefix_def bytes_equal_def
        not_less not_le Suc_le_eq unsigned_eq_0_iff word_le_nat_alt word_less_nat_alt registered_id_max_bytes_def)
next
  assume R: ?R
  then have t: "length t < 65536" "length t \<noteq> 0" "length t \<le> 128" "list_all (\<lambda>b. b \<noteq> 0 \<and> b < 0x80) t"
    by (auto simp: valid_stream_type_def registered_id_max_bytes_def)
  then have w: "unat (of_nat (length t) :: u64) = length t" "(of_nat (length t) :: u64) \<noteq> 0"
    "\<not> (of_nat (length t) :: u64) > of_nat registered_id_max_bytes"
    by (simp_all add: unat_of_nat word_unat_eq_iff word_less_nat_alt registered_id_max_bytes_def)
  with t R show ?L
    by (simp add: parse_frame_def reader_eval object_frame_prefix_def bytes_equal_def not_less not_le)
qed

subsection \<open>What the frame verifier accepts\<close>

definition usable_limits :: "object_limits \<Rightarrow> bool" where
  "usable_limits limits \<longleftrightarrow>
     minimum_frame_bytes \<le> unat (ol_max_frame_bytes limits) \<and> ol_max_payload_bytes limits \<noteq> 0 \<and>
     unat (ol_max_frame_bytes limits) \<le> (2 ^ 64 - 1) div 8"

definition frame_matches :: "object_limits \<Rightarrow> object_reference \<Rightarrow> byte list \<Rightarrow> byte list \<Rightarrow> bool" where
  "frame_matches limits reference frame payload \<longleftrightarrow>
     frame = object_frame_bytes (or_stream_type reference) payload \<and>
     valid_stream_type (or_stream_type reference) \<and>
     length payload \<le> unat (ol_max_payload_bytes limits) \<and>
     length frame \<le> unat (ol_max_frame_bytes limits) \<and>
     unat (or_frame_bytes reference) = length frame \<and>
     or_object_id reference = sha256 frame"

lemma registered_type_matches_iff:
  "registered_type_matches t e \<longleftrightarrow> t = e \<and> list_all (\<lambda>b. b \<noteq> 0 \<and> b < 0x80) t"
proof (cases "length t = length e")
  case True
  then show ?thesis
    unfolding registered_type_matches_def
    by (induction t e rule: list_induct2) (auto simp: not_le)
qed (auto simp: registered_type_matches_def)

lemma object_count_reference:
  assumes "authenticated_object_count manifest \<noteq> 0" "i < authenticated_object_count manifest"
  shows "\<exists>r. authenticated_object_reference manifest i = Some r"
  using assms by (auto simp: authenticated_object_count_def authenticated_object_reference_def
      split: option.splits if_splits)

lemma usable_limits_iff:
  "usable_limits limits \<longleftrightarrow>
     \<not> (ol_max_frame_bytes limits < of_nat minimum_frame_bytes \<or> ol_max_payload_bytes limits = 0 \<or>
        ol_max_frame_bytes limits > of_nat ((2 ^ 64 - 1) div 8))"
  by (auto simp: usable_limits_def minimum_frame_bytes_def word_less_nat_alt not_less)

lemma sha256_bounded_eq:
  assumes "usable_limits limits" "length frame \<le> unat (ol_max_frame_bytes limits)"
  shows "context_store_sha256_bounded (Span frame) (ol_max_frame_bytes limits) = Some (sha256 frame)"
  using assms
  by (simp add: context_store_sha256_bounded_def sha256_spans_iff usable_limits_def spans_ok_def spans_bytes_def
      valid_span_def)

definition real_rejection :: "object_verify_status \<Rightarrow> nat \<Rightarrow> bool" where
  "real_rejection st n \<longleftrightarrow> st \<noteq> object_verified_unadmitted"

lemma within_refuse [within_intros]:
  "st \<noteq> object_verified_unadmitted \<Longrightarrow> within real_rejection P \<Longrightarrow> within real_rejection (refuse st b P)"
  unfolding refuse_def by (intro within_intros) (simp_all add: points_inside_def real_rejection_def)

lemma within_frame [within_intros]:
  "within real_rejection (frame_take n)" "within real_rejection frame_remaining"
  "within real_rejection read_u16" "within real_rejection read_u64"
proof -
  show t: "within real_rejection (frame_take n)" for n
    unfolding frame_take_def by (intro within_intros) (simp add: points_inside_def real_rejection_def)
  show "within real_rejection frame_remaining" by (simp add: within_def frame_remaining_def)
  show "within real_rejection read_u16" "within real_rejection read_u64"
    unfolding read_u16_def read_u64_def by (intro within_intros t)+
qed

lemma parse_frame_rejection: "parse_frame limit (0, xs) = Inl st \<Longrightarrow> st \<noteq> object_verified_unadmitted"
proof -
  have "within real_rejection (parse_frame limit)"
    unfolding parse_frame_def by (intro within_intros; simp)
  then show "parse_frame limit (0, xs) = Inl st \<Longrightarrow> st \<noteq> object_verified_unadmitted"
    using withinD(1) [of real_rejection "parse_frame limit" 0 xs st] by (simp add: real_rejection_def)
qed

lemma frame_matches_parse:
  assumes "frame_matches limits reference frame payload"
  shows "parse_frame (ol_max_payload_bytes limits) (0, frame) =
         Inr ((or_stream_type reference, of_nat (length payload)),
              (length (object_frame_prefix (or_stream_type reference) (of_nat (length payload))), payload))"
proof -
  have "unat (of_nat (length payload) :: u64) = length payload"
    using assms unat_u64_bound [of "ol_max_payload_bytes limits"] by (simp add: frame_matches_def unat_of_nat)
  then show ?thesis
    using assms by (simp add: parse_frame_Inr frame_matches_def object_frame_bytes_def word_le_nat_alt)
qed

lemma parse_frame_matches:
  assumes "parse_frame (ol_max_payload_bytes limits) (0, frame) = Inr ((t, n), (q, ys))"
    and "registered_type_matches t (or_stream_type reference)" "unat (or_frame_bytes reference) = length frame"
    and "length frame \<le> unat (ol_max_frame_bytes limits)" "or_object_id reference = sha256 frame"
  shows "frame_matches limits reference frame ys \<and> unat n = length ys"
proof -
  have p: "valid_stream_type t" "n \<le> ol_max_payload_bytes limits" "length ys = unat n" "frame = object_frame_prefix t n @ ys"
    using assms(1) by (simp_all add: parse_frame_Inr)
  then have "of_nat (length ys) = n" by simp
  with p assms(2-) show ?thesis
    by (simp add: frame_matches_def registered_type_matches_iff object_frame_bytes_def word_le_nat_alt)
qed

text \<open>The verdict on a frame once the index and the limits are usable.\<close>

definition object_selected :: "manifest_verify_result \<Rightarrow> nat \<Rightarrow> object_reference \<Rightarrow> bool" where
  "object_selected manifest i reference \<longleftrightarrow>
     authenticated_object_count manifest \<le> manifest_max_objects \<and>
     authenticated_object_reference manifest i = Some reference"

lemma object_selected_count:
  "object_selected manifest i reference \<Longrightarrow>
     authenticated_object_count manifest \<noteq> 0 \<and> i < authenticated_object_count manifest"
  by (auto simp: object_selected_def authenticated_object_count_def authenticated_object_reference_def
      split: option.splits if_splits)

lemma verify_object_usable:
  assumes sel: "object_selected manifest i reference" and lim: "usable_limits limits"
    and id: "length (or_object_id reference) = 32"
  shows "ov_status (context_store_verify_object_frame_v1 (Span frame) limits manifest i) = object_verified_unadmitted \<longleftrightarrow>
         (\<exists>payload. frame_matches limits reference frame payload)"
proof -
  let ?st = "ov_status (context_store_verify_object_frame_v1 (Span frame) limits manifest i)"
  note c = object_selected_count [OF sel]
  have g: "\<not> (authenticated_object_count manifest = 0 \<or> authenticated_object_count manifest > manifest_max_objects)"
    "\<not> i \<ge> authenticated_object_count manifest" "authenticated_object_reference manifest i = Some reference"
    using sel c by (auto simp: object_selected_def)
  note step = context_store_verify_object_frame_v1_def Let_def if_not_P [OF g(1)] if_not_P [OF g(2)]
    if_not_P [OF lim [unfolded usable_limits_iff]] g(3) option.case
  consider (big) "or_frame_bytes reference > ol_max_frame_bytes limits \<or> length frame > unat (ol_max_frame_bytes limits)"
    | (empty) "\<not> (or_frame_bytes reference > ol_max_frame_bytes limits \<or> length frame > unat (ol_max_frame_bytes limits))" "frame = []"
    | (ok) "\<not> (or_frame_bytes reference > ol_max_frame_bytes limits \<or> length frame > unat (ol_max_frame_bytes limits))" "frame \<noteq> []"
    by blast
  then show ?thesis
  proof cases
    case big
    then have "?st = frame_limit_exceeded" unfolding step by simp
    moreover from big have "\<not> frame_matches limits reference frame payload" for payload
      by (auto simp: frame_matches_def word_less_nat_alt)
    ultimately show ?thesis by simp
  next
    case empty
    then have "?st = input_empty" unfolding step by simp
    moreover from empty have "\<not> frame_matches limits reference frame payload" for payload
      by (auto simp: frame_matches_def object_frame_bytes_def object_frame_prefix_def object_magic_def)
    ultimately show ?thesis by simp
  next
    case ok
    show ?thesis
    proof (cases "parse_frame (ol_max_payload_bytes limits) (0, frame)")
      case (Inl st)
      then have "?st = st" using ok unfolding step by simp
      then show ?thesis using Inl parse_frame_rejection [OF Inl] frame_matches_parse [of limits reference frame] by auto
    next
      case (Inr r)
      obtain t n q ys where r: "r = ((t, n), (q, ys))" by (metis prod.collapse)
      have "?st = object_verified_unadmitted \<longleftrightarrow> unat (or_frame_bytes reference) = length frame \<and>
          registered_type_matches t (or_stream_type reference) \<and> or_object_id reference = sha256 frame"
        unfolding step using ok Inr id sha256_bounded_eq [OF lim, of frame]
        by (auto simp: r bytes_equal_def)
      also have "\<dots> \<longleftrightarrow> (\<exists>payload. frame_matches limits reference frame payload)"
        using parse_frame_matches [of limits frame t n q ys reference] Inr r ok frame_matches_parse [of limits reference frame]
        by (auto simp: frame_matches_def registered_type_matches_iff valid_stream_type_def)
      finally show ?thesis .
    qed
  qed
qed

lemma verify_object_requires:
  assumes "ov_status (context_store_verify_object_frame_v1 frame limits manifest i) = object_verified_unadmitted"
  shows "usable_limits limits \<and> (\<exists>reference. object_selected manifest i reference) \<and> (\<exists>bs. frame = Span bs)"
proof -
  have "usable_limits limits" "authenticated_object_reference manifest i \<noteq> None"
    "authenticated_object_count manifest \<le> manifest_max_objects" "\<not> span_null frame"
    using assms unfolding usable_limits_iff
    by (auto simp: context_store_verify_object_frame_v1_def Let_def empty_object_result_def
        split: if_splits option.splits)
  then show ?thesis by (cases frame) (auto simp: object_selected_def)
qed

lemma verified_manifest_objects:
  "object_selected (context_store_verify_manifest_v1 data policy) i reference \<longleftrightarrow>
   (\<exists>m. context_store_parse_manifest_v1 data = Inr m \<and>
        vr_status (context_store_verify_manifest_v1 data policy) = authenticated_unadmitted \<and>
        i < length (pm_object_references m) \<and> reference = pm_object_references m ! i)"
proof (cases "context_store_parse_manifest_v1 data")
  case (Inr m)
  then have "length (pm_object_references m) \<le> manifest_max_objects"
    by (simp add: parse_manifest_iff wf_manifest_def)
  with Inr show ?thesis
    by (auto simp: object_selected_def authenticated_object_count_def authenticated_object_reference_def
        has_authenticated_carrier_def verify_carrier)
qed (simp add: object_selected_def authenticated_object_reference_def has_authenticated_carrier_def verify_carrier)

text \<open>
  C12: against a verified manifest, a frame is verified exactly when the manifest is
  authenticated, the index names one of its objects, the limits are usable, and the
  frame is the canonical frame of some payload under that object's stream type, of the
  declared length, hashing to the object's id.
\<close>

theorem verify_object_accepts:
  "ov_status (context_store_verify_object_frame_v1 frame limits (context_store_verify_manifest_v1 data policy) i)
     = object_verified_unadmitted \<longleftrightarrow>
   (\<exists>m bs payload. context_store_parse_manifest_v1 data = Inr m \<and>
      vr_status (context_store_verify_manifest_v1 data policy) = authenticated_unadmitted \<and>
      i < length (pm_object_references m) \<and> usable_limits limits \<and> frame = Span bs \<and>
      frame_matches limits (pm_object_references m ! i) bs payload)"
  (is "?L \<longleftrightarrow> ?R")
proof -
  let ?v = "context_store_verify_manifest_v1 data policy"
  have id: "length (or_object_id reference) = 32" if "object_selected ?v i reference" for reference
    using that unfolding verified_manifest_objects
    by (auto simp: parse_manifest_iff wf_manifest_def object_ok_def)
  show ?thesis
  proof
    assume ?L
    then obtain reference bs where *: "usable_limits limits" "object_selected ?v i reference" "frame = Span bs"
      using verify_object_requires by blast
    then show ?R
      using \<open>?L\<close> verify_object_usable [OF *(2,1) id [OF *(2)], of bs] unfolding verified_manifest_objects by auto
  next
    assume ?R
    then obtain m bs payload where m: "context_store_parse_manifest_v1 data = Inr m"
        "vr_status ?v = authenticated_unadmitted" "i < length (pm_object_references m)"
      and *: "usable_limits limits" "frame = Span bs" "frame_matches limits (pm_object_references m ! i) bs payload"
      by blast
    have sel: "object_selected ?v i (pm_object_references m ! i)" using m by (simp add: verified_manifest_objects)
    show ?L using verify_object_usable [OF sel *(1) id [OF sel], of bs] * by blast
  qed
qed

text \<open>
  the payload range a result reports lies inside the frame, whatever the frame,
  the limits and the manifest.
\<close>

theorem verify_object_range:
  "ov_payload_offset (context_store_verify_object_frame_v1 frame limits manifest i)
     + ov_payload_size (context_store_verify_object_frame_v1 frame limits manifest i) \<le> span_size frame"
proof (cases "parse_frame (ol_max_payload_bytes limits) (0, span_bytes frame)")
  case (Inl st)
  then show ?thesis
    by (auto simp: context_store_verify_object_frame_v1_def Let_def empty_object_result_def split: option.splits)
next
  case (Inr r)
  obtain t n q ys where r: "r = ((t, n), (q, ys))" by (metis prod.collapse)
  have "q + unat n = length (span_bytes frame)" using Inr by (auto simp: r parse_frame_Inr)
  moreover have "length (span_bytes frame) \<le> span_size frame" by (cases frame) simp_all
  ultimately show ?thesis using Inr
    by (auto simp: r context_store_verify_object_frame_v1_def Let_def empty_object_result_def split: option.splits)
qed

end
