(* ===== verification/Anchor.thy ===== *)
theory Anchor
  imports Auth
begin

text \<open>
  \<^verbatim>\<open>halofpx-context-store-anchor.{h,cpp}\<close>: the deterministic encoder and the verifier of
  the signed anchor, the record that names the selected manifest of a lineage. The
  buffer, the writers, the cursor and the two entry points follow the source; the
  output pointer of the encoder is a capacity, or \<^verbatim>\<open>None\<close> for a null pointer.
  Shown: the verifier accepts exactly the canonical envelopes with the right tag
  whose body matches the expectation; encoding then verifying succeeds and gives the
  same carrier; a body older than the expectation is reported as a rollback; no
  accepted envelope can fail for lack of buffer room.
\<close>

subsection \<open>Types\<close>

definition anchor_max_bytes :: nat where "anchor_max_bytes = 1024"

record anchor_body =
  ab_store_uuid :: "byte list"
  ab_namespace_id :: digest
  ab_policy_epoch :: u64
  ab_checkpoint_lineage_id :: digest
  ab_manifest_key_generation :: u64
  ab_authority_epoch :: u64
  ab_generation :: u64
  ab_selected_manifest_digest :: digest
  ab_has_predecessor :: bool
  ab_predecessor_manifest_digest :: digest

record anchor_key_record =
  ak_disposition :: key_disposition
  ak_key_id :: registered_id
  ak_generation :: u64
  ak_master_key :: byte_span

record anchor_policy =
  ap_key :: anchor_key_record
  ap_expected :: anchor_body

record authenticated_anchor =
  aa_authenticated :: bool
  aa_body :: anchor_body
  aa_key_id :: registered_id
  aa_key_generation :: u64
  aa_authority_binding :: digest
  aa_digest :: digest
  aa_envelope :: "byte list"

datatype anchor_status =
    authenticated_unadmitted | structural_rejection | invalid_policy | unknown_key | revoked_key
  | read_disabled_key | key_generation_mismatch | authentication_failed | authority_mismatch
  | rollback_detected | replay_mismatch | output_too_small

record anchor_result =
  ar_status :: anchor_status
  ar_envelope_digest :: digest
  ar_encoded_size :: nat
  ar_carrier :: authenticated_anchor

definition empty_anchor_body :: anchor_body where
  "empty_anchor_body = \<lparr>
     ab_store_uuid = replicate 16 0, ab_namespace_id = zero_digest, ab_policy_epoch = 0,
     ab_checkpoint_lineage_id = zero_digest, ab_manifest_key_generation = 0, ab_authority_epoch = 0,
     ab_generation = 0, ab_selected_manifest_digest = zero_digest, ab_has_predecessor = False,
     ab_predecessor_manifest_digest = zero_digest\<rparr>"

definition empty_authenticated_anchor :: authenticated_anchor where
  "empty_authenticated_anchor = \<lparr>
     aa_authenticated = False, aa_body = empty_anchor_body, aa_key_id = [], aa_key_generation = 0,
     aa_authority_binding = zero_digest, aa_digest = zero_digest, aa_envelope = []\<rparr>"

definition empty_anchor_result :: anchor_result where
  "empty_anchor_result = \<lparr>
     ar_status = structural_rejection, ar_envelope_digest = zero_digest, ar_encoded_size = 0,
     ar_carrier = empty_authenticated_anchor\<rparr>"

definition has_authenticated_anchor :: "anchor_result \<Rightarrow> bool" where
  "has_authenticated_anchor r \<longleftrightarrow>
     aa_authenticated (ar_carrier r) \<and> ar_status r = authenticated_unadmitted"

definition authenticated_carrier :: "anchor_result \<Rightarrow> authenticated_anchor option" where
  "authenticated_carrier r = (if has_authenticated_anchor r then Some (ar_carrier r) else None)"

subsection \<open>The encoder's buffer\<close>

definition anchor_key_domain :: "byte list" where
  "anchor_key_domain = domain_bytes ''halofpx.anchor-key.v1''"
definition anchor_auth_domain :: "byte list" where
  "anchor_auth_domain = domain_bytes ''halofpx.anchor-auth.v1''"
definition anchor_digest_domain :: "byte list" where
  "anchor_digest_domain = domain_bytes ''halofpx.anchor.v1''"
definition anchor_authority_binding_domain :: "byte list" where
  "anchor_authority_binding_domain = domain_bytes ''halofpx.anchor-authority-binding.v1''"

definition anchor_id_valid :: "registered_id \<Rightarrow> bool" where
  "anchor_id_valid i \<longleftrightarrow>
     \<not> (length i = 0 \<or> length i > registered_id_max_bytes) \<and> list_all (\<lambda>b. \<not> (b = 0 \<or> b > 0x7f)) i"

definition anchor_append_byte :: "byte \<Rightarrow> writer" where
  "anchor_append_byte = append_byte anchor_max_bytes"

definition anchor_append :: "byte list \<Rightarrow> writer" where
  "anchor_append data = append_span anchor_max_bytes (Span data)"

definition anchor_head :: "nat \<Rightarrow> u64 \<Rightarrow> writer" where
  "anchor_head major value =
     (if value < 24 then anchor_append_byte (push_bit 5 (of_nat major) OR ucast value)
      else let count = (if value \<le> 0xff then 1 else if value \<le> 0xffff then 2
                        else if value \<le> 0xffffffff then 4 else 8);
               ai = (if count = 1 then 24 else if count = 2 then 25
                     else if count = (4 :: nat) then 26 else 27 :: byte)
           in run_writers [anchor_append_byte (push_bit 5 (of_nat major) OR ai),
                           append_tail anchor_max_bytes value count])"

definition anchor_uint :: "u64 \<Rightarrow> writer" where "anchor_uint = anchor_head 0"
definition anchor_map :: "u64 \<Rightarrow> writer" where "anchor_map = anchor_head 5"
definition anchor_bstr :: "byte list \<Rightarrow> writer" where
  "anchor_bstr v = run_writers [anchor_head 2 (of_nat (length v)), anchor_append v]"
definition anchor_text :: "registered_id \<Rightarrow> writer" where
  "anchor_text i =
     (if anchor_id_valid i then run_writers [anchor_head 3 (of_nat (length i)), anchor_append i]
      else (\<lambda>_. None))"

definition generation_consistent :: "anchor_body \<Rightarrow> bool" where
  "generation_consistent a \<longleftrightarrow>
     \<not> (ab_generation a = 0 \<or> (ab_generation a = 1 \<and> ab_has_predecessor a) \<or>
        (ab_generation a > 1 \<and> \<not> ab_has_predecessor a))"

definition encode_body :: "anchor_body \<Rightarrow> writer" where
  "encode_body a =
     (if \<not> generation_consistent a then (\<lambda>_. None)
      else run_writers [
        anchor_map 11, anchor_uint 0, anchor_uint 1, anchor_uint 1, anchor_uint 0,
        anchor_uint 2, anchor_bstr (ab_store_uuid a), anchor_uint 3, anchor_bstr (ab_namespace_id a),
        anchor_uint 4, anchor_uint (ab_policy_epoch a),
        anchor_uint 5, anchor_bstr (ab_checkpoint_lineage_id a),
        anchor_uint 6, anchor_uint (ab_manifest_key_generation a),
        anchor_uint 7, anchor_uint (ab_authority_epoch a),
        anchor_uint 8, anchor_uint (ab_generation a),
        anchor_uint 9, anchor_bstr (ab_selected_manifest_digest a),
        anchor_uint 10,
        if ab_has_predecessor a then anchor_bstr (ab_predecessor_manifest_digest a)
        else anchor_append_byte 0xf6])"

definition encode_auth_input :: "anchor_body \<Rightarrow> anchor_key_record \<Rightarrow> writer" where
  "encode_auth_input anchor key =
     run_writers [
       anchor_map 4, anchor_uint 0, encode_body anchor, anchor_uint 1, anchor_text (ak_key_id key),
       anchor_uint 2, anchor_uint 1, anchor_uint 3, anchor_uint (ak_generation key)]"

definition derive_anchor_key :: "anchor_body \<Rightarrow> anchor_key_record \<Rightarrow> digest option" where
  "derive_anchor_key anchor key = do {
     input \<leftarrow> run_writers [
       anchor_append anchor_key_domain,
       anchor_append [0, of_nat (length (ak_key_id key))],
       anchor_append (ak_key_id key),
       anchor_append (ab_store_uuid anchor),
       anchor_append (ab_namespace_id anchor),
       anchor_append (uint64_be (ak_generation key))] [];
     context_store_hmac_sha256 (ak_master_key key) (Span input)
   }"

definition digest_envelope :: "byte list \<Rightarrow> digest option" where
  "digest_envelope data = do {
     input \<leftarrow> run_writers [anchor_append anchor_digest_domain, anchor_append data] [];
     context_store_sha256 (Span input)
   }"

definition authority_binding :: "digest \<Rightarrow> digest option" where
  "authority_binding derived_key =
     context_store_hmac_sha256 (Span derived_key) (Span anchor_authority_binding_domain)"

subsection \<open>The cursor and the parser\<close>

type_synonym 'a anchor_cursor = "(unit, 'a) reader"

abbreviation reject :: "nat \<Rightarrow> unit" where "reject \<equiv> \<lambda>_. ()"

definition anchor_read_head :: "nat \<Rightarrow> u64 anchor_cursor" where
  "anchor_read_head major =
     bind_reader (next_byte reject) (\<lambda>initial.
       if unat (drop_bit 5 initial) \<noteq> major then fail_reader reject
       else let ai = initial AND 31 in
         if ai < 24 then return_reader (ucast ai)
         else if ai > 27 then fail_reader reject
         else bind_reader (take_bytes reject (2 ^ (unat ai - 24))) (\<lambda>bs.
           let v = be_value bs;
               minimum = (if ai = 24 then 24 else if ai = 25 then 0x100
                          else if ai = 26 then 0x10000 else 0x100000000)
           in if v \<ge> minimum then return_reader v else fail_reader reject))"

definition cursor_number :: "u64 anchor_cursor" where
  "cursor_number = anchor_read_head 0"
definition cursor_map_n :: "u64 \<Rightarrow> unit anchor_cursor" where
  "cursor_map_n n = bind_reader (anchor_read_head 5) (\<lambda>v. check reject (v = n))"
definition cursor_key :: "u64 \<Rightarrow> unit anchor_cursor" where
  "cursor_key n = bind_reader cursor_number (\<lambda>v. check reject (v = n))"
definition cursor_bytes :: "nat \<Rightarrow> byte list anchor_cursor" where
  "cursor_bytes N = bind_reader (anchor_read_head 2) (\<lambda>n.
     bind_reader (check reject (n = of_nat N)) (\<lambda>_. take_bytes reject N))"
definition cursor_id :: "registered_id anchor_cursor" where
  "cursor_id = bind_reader (anchor_read_head 3) (\<lambda>n.
     bind_reader (check reject (\<not> (n = 0 \<or> n > of_nat registered_id_max_bytes))) (\<lambda>_.
     bind_reader (take_bytes reject (unat n)) (\<lambda>out.
     bind_reader (check reject (anchor_id_valid out)) (\<lambda>_. return_reader out))))"
definition cursor_predecessor :: "(bool \<times> digest) anchor_cursor" where
  "cursor_predecessor = bind_reader (peek_byte reject) (\<lambda>b.
     if b = 0xf6 then bind_reader (next_byte reject) (\<lambda>_. return_reader (False, zero_digest))
     else bind_reader (cursor_bytes 32) (\<lambda>d. return_reader (True, d)))"

definition cursor_field :: "u64 \<Rightarrow> 'a anchor_cursor \<Rightarrow> ('a \<Rightarrow> 'b anchor_cursor) \<Rightarrow> 'b anchor_cursor" where
  "cursor_field k P f = bind_reader (cursor_key k) (\<lambda>_. bind_reader P f)"

definition cursor_demand :: "bool \<Rightarrow> 'a anchor_cursor \<Rightarrow> 'a anchor_cursor" where
  "cursor_demand b P = bind_reader (check reject b) (\<lambda>_. P)"

record parsed_anchor =
  pa_body :: anchor_body
  pa_key_id :: registered_id
  pa_key_generation :: u64
  pa_tag :: digest
  pa_auth_offset :: nat
  pa_auth_size :: nat

definition parse_anchor_body :: "anchor_body anchor_cursor" where
  "parse_anchor_body =
     bind_reader (cursor_map_n 11) (\<lambda>_.
     cursor_field 0 cursor_number (\<lambda>v. cursor_demand (v = 1) (
     cursor_field 1 cursor_number (\<lambda>v. cursor_demand (v = 0) (
     cursor_field 2 (cursor_bytes 16) (\<lambda>store_uuid.
     cursor_field 3 (cursor_bytes 32) (\<lambda>namespace_id.
     cursor_field 4 cursor_number (\<lambda>policy_epoch.
     cursor_field 5 (cursor_bytes 32) (\<lambda>checkpoint_lineage_id.
     cursor_field 6 cursor_number (\<lambda>manifest_key_generation.
     cursor_field 7 cursor_number (\<lambda>authority_epoch.
     cursor_field 8 cursor_number (\<lambda>generation. cursor_demand (generation \<noteq> 0) (
     cursor_field 9 (cursor_bytes 32) (\<lambda>selected_manifest_digest.
     cursor_field 10 cursor_predecessor (\<lambda>(has_predecessor, predecessor_manifest_digest).
     cursor_demand (\<not> ((generation = 1) \<noteq> (\<not> has_predecessor))) (
     return_reader \<lparr>
       ab_store_uuid = store_uuid, ab_namespace_id = namespace_id, ab_policy_epoch = policy_epoch,
       ab_checkpoint_lineage_id = checkpoint_lineage_id,
       ab_manifest_key_generation = manifest_key_generation, ab_authority_epoch = authority_epoch,
       ab_generation = generation, ab_selected_manifest_digest = selected_manifest_digest,
       ab_has_predecessor = has_predecessor,
       ab_predecessor_manifest_digest = predecessor_manifest_digest\<rparr>))))))))))))))))"

definition parse_anchor_envelope :: "parsed_anchor anchor_cursor" where
  "parse_anchor_envelope =
     bind_reader (cursor_map_n 2) (\<lambda>_.
     bind_reader (cursor_key 0) (\<lambda>_.
     bind_reader read_position (\<lambda>auth_offset.
     bind_reader (cursor_map_n 4) (\<lambda>_.
     cursor_field 0 parse_anchor_body (\<lambda>body.
     cursor_field 1 cursor_id (\<lambda>key_id.
     cursor_field 2 cursor_number (\<lambda>v. cursor_demand (v = 1) (
     cursor_field 3 cursor_number (\<lambda>key_generation.
     bind_reader read_position (\<lambda>position.
     cursor_field 1 (cursor_bytes 32) (\<lambda>tag.
     return_reader \<lparr>pa_body = body, pa_key_id = key_id, pa_key_generation = key_generation,
       pa_tag = tag, pa_auth_offset = auth_offset, pa_auth_size = position - auth_offset\<rparr>)))))))))))"

definition parse_anchor :: "byte_span \<Rightarrow> parsed_anchor option" where
  "parse_anchor data =
     (if span_null data \<or> span_size data = 0 \<or> span_size data > anchor_max_bytes then None
      else case parse_anchor_envelope (0, span_bytes data) of
          Inr (parsed, (_, rest)) \<Rightarrow> if rest = [] then Some parsed else None
        | Inl _ \<Rightarrow> None)"

subsection \<open>The entry points\<close>

definition id_equal :: "registered_id \<Rightarrow> registered_id \<Rightarrow> bool" where
  "id_equal a b = (if length a \<noteq> length b then False else ct_equal a b)"

definition digest_equal :: "digest \<Rightarrow> digest \<Rightarrow> bool" where
  "digest_equal a b = ct_equal a b"

definition same_authority :: "anchor_body \<Rightarrow> anchor_body \<Rightarrow> bool" where
  "same_authority a b \<longleftrightarrow>
     ab_store_uuid a = ab_store_uuid b \<and> ab_namespace_id a = ab_namespace_id b \<and>
     ab_policy_epoch a = ab_policy_epoch b \<and> ab_checkpoint_lineage_id a = ab_checkpoint_lineage_id b \<and>
     ab_authority_epoch a = ab_authority_epoch b"

definition same_replay :: "anchor_body \<Rightarrow> anchor_body \<Rightarrow> bool" where
  "same_replay a b \<longleftrightarrow>
     ab_manifest_key_generation a = ab_manifest_key_generation b \<and> ab_generation a = ab_generation b \<and>
     ab_selected_manifest_digest a = ab_selected_manifest_digest b \<and>
     ab_has_predecessor a = ab_has_predecessor b \<and>
     (\<not> ab_has_predecessor a \<or> ab_predecessor_manifest_digest a = ab_predecessor_manifest_digest b)"

definition anchor_carrier ::
    "anchor_body \<Rightarrow> registered_id \<Rightarrow> u64 \<Rightarrow> digest \<Rightarrow> digest \<Rightarrow> byte list \<Rightarrow> authenticated_anchor" where
  "anchor_carrier body key_id key_generation binding digest envelope = \<lparr>
     aa_authenticated = True, aa_body = body, aa_key_id = key_id, aa_key_generation = key_generation,
     aa_authority_binding = binding, aa_digest = digest, aa_envelope = envelope\<rparr>"

definition context_store_encode_anchor_v1 ::
    "anchor_body \<Rightarrow> anchor_key_record \<Rightarrow> nat option \<Rightarrow> anchor_result \<times> byte list option" where
  "context_store_encode_anchor_v1 anchor key output =
     (let result = empty_anchor_result;
          refuse = (\<lambda>r st. (r\<lparr>ar_status := st\<rparr>, None))
      in if ak_disposition key \<noteq> active \<or> \<not> anchor_id_valid (ak_key_id key) \<or>
            span_null (ak_master_key key) \<or> span_size (ak_master_key key) = 0 \<or>
            span_size (ak_master_key key) > master_key_max_bytes
         then refuse result invalid_policy
         else case do {
             auth \<leftarrow> encode_auth_input anchor key [];
             derived \<leftarrow> derive_anchor_key anchor key;
             message \<leftarrow> run_writers [anchor_append anchor_auth_domain, anchor_append auth] [];
             tag \<leftarrow> context_store_hmac_sha256 (Span derived) (Span message);
             binding \<leftarrow> authority_binding derived;
             Some (auth, tag, binding)
           } of
             None \<Rightarrow> refuse result invalid_policy
           | Some (auth, tag, binding) \<Rightarrow>
             (case run_writers [anchor_map 2, anchor_uint 0, anchor_append auth,
                                anchor_uint 1, anchor_bstr tag] [] of
                None \<Rightarrow> refuse result invalid_policy
              | Some envelope \<Rightarrow>
                (let result = result\<lparr>ar_encoded_size := length envelope\<rparr>
                 in case output of
                      None \<Rightarrow> refuse result output_too_small
                    | Some capacity \<Rightarrow>
                      if capacity < length envelope then refuse result output_too_small
                      else (case digest_envelope envelope of
                        None \<Rightarrow> (result\<lparr>ar_status := invalid_policy\<rparr>, Some envelope)
                      | Some digest \<Rightarrow>
                        (result\<lparr>ar_envelope_digest := digest,
                           ar_carrier := anchor_carrier anchor (ak_key_id key) (ak_generation key)
                                           binding digest envelope,
                           ar_status := authenticated_unadmitted\<rparr>, Some envelope)))))"

definition anchor_key_rejection :: "parsed_anchor \<Rightarrow> anchor_policy \<Rightarrow> anchor_status option" where
  "anchor_key_rejection parsed policy =
     (let key = ap_key policy; expected = ap_expected policy in
      if \<not> anchor_id_valid (ak_key_id key) \<or> ab_generation expected = 0 \<or>
         (ab_generation expected = 1 \<and> ab_has_predecessor expected) \<or>
         (ab_generation expected > 1 \<and> \<not> ab_has_predecessor expected)
      then Some invalid_policy
      else if \<not> id_equal (pa_key_id parsed) (ak_key_id key) \<or> ak_disposition key = unknown
      then Some unknown_key
      else if ak_disposition key = revoked then Some revoked_key
      else if ak_disposition key = read_disabled then Some read_disabled_key
      else if ak_disposition key \<noteq> active \<or> span_null (ak_master_key key) \<or>
              span_size (ak_master_key key) = 0 \<or> span_size (ak_master_key key) > master_key_max_bytes
      then Some invalid_policy
      else if pa_key_generation parsed \<noteq> ak_generation key then Some key_generation_mismatch
      else None)"

definition context_store_verify_anchor_v1 :: "byte_span \<Rightarrow> anchor_policy \<Rightarrow> anchor_result" where
  "context_store_verify_anchor_v1 data policy =
     (case parse_anchor data of
        None \<Rightarrow> empty_anchor_result
      | Some parsed \<Rightarrow>
        (let result = empty_anchor_result\<lparr>ar_encoded_size := span_size data\<rparr>
         in case anchor_key_rejection parsed policy of
              Some st \<Rightarrow> result\<lparr>ar_status := st\<rparr>
            | None \<Rightarrow>
              (case do {
                 derived \<leftarrow> derive_anchor_key (pa_body parsed) (ap_key policy);
                 message \<leftarrow> run_writers [anchor_append anchor_auth_domain,
                   append_span anchor_max_bytes
                     (span_range data (pa_auth_offset parsed) (pa_auth_size parsed))] [];
                 expected_tag \<leftarrow> context_store_hmac_sha256 (Span derived) (Span message);
                 binding \<leftarrow> authority_binding derived;
                 if digest_equal expected_tag (pa_tag parsed) then Some binding else None
               } of
                 None \<Rightarrow> result\<lparr>ar_status := authentication_failed\<rparr>
               | Some binding \<Rightarrow>
                 if \<not> same_authority (pa_body parsed) (ap_expected policy)
                 then result\<lparr>ar_status := authority_mismatch\<rparr>
                 else if ab_generation (pa_body parsed) < ab_generation (ap_expected policy)
                 then result\<lparr>ar_status := rollback_detected\<rparr>
                 else if \<not> same_replay (pa_body parsed) (ap_expected policy)
                 then result\<lparr>ar_status := replay_mismatch\<rparr>
                 else (case digest_envelope (span_bytes data) of
                   None \<Rightarrow> result\<lparr>ar_status := invalid_policy\<rparr>
                 | Some digest \<Rightarrow>
                   result\<lparr>ar_envelope_digest := digest,
                     ar_carrier := anchor_carrier (pa_body parsed) (pa_key_id parsed)
                       (pa_key_generation parsed) binding digest (span_bytes data),
                     ar_status := authenticated_unadmitted\<rparr>))))"

subsection \<open>What the writers emit\<close>

definition anchor_body_bytes :: "anchor_body \<Rightarrow> byte list" where
  "anchor_body_bytes a =
     cbor_head 5 11 @ cbor_uint 0 @ cbor_uint 1 @ cbor_uint 1 @ cbor_uint 0
     @ cbor_uint 2 @ cbor_bytes (ab_store_uuid a) @ cbor_uint 3 @ cbor_bytes (ab_namespace_id a)
     @ cbor_uint 4 @ cbor_uint (ab_policy_epoch a)
     @ cbor_uint 5 @ cbor_bytes (ab_checkpoint_lineage_id a)
     @ cbor_uint 6 @ cbor_uint (ab_manifest_key_generation a)
     @ cbor_uint 7 @ cbor_uint (ab_authority_epoch a)
     @ cbor_uint 8 @ cbor_uint (ab_generation a)
     @ cbor_uint 9 @ cbor_bytes (ab_selected_manifest_digest a)
     @ cbor_uint 10 @ optional_digest_bytes (ab_has_predecessor a) (ab_predecessor_manifest_digest a)"

definition anchor_auth_bytes :: "anchor_body \<Rightarrow> registered_id \<Rightarrow> u64 \<Rightarrow> byte list" where
  "anchor_auth_bytes a key_id key_generation =
     cbor_head 5 4 @ cbor_uint 0 @ anchor_body_bytes a @ cbor_uint 1 @ cbor_text key_id
     @ cbor_uint 2 @ cbor_uint 1 @ cbor_uint 3 @ cbor_uint key_generation"

definition anchor_envelope_bytes :: "anchor_body \<Rightarrow> registered_id \<Rightarrow> u64 \<Rightarrow> digest \<Rightarrow> byte list" where
  "anchor_envelope_bytes a key_id key_generation tag =
     cbor_head 5 2 @ cbor_uint 0 @ anchor_auth_bytes a key_id key_generation
     @ cbor_uint 1 @ cbor_bytes tag"

definition wf_anchor :: "anchor_body \<Rightarrow> bool" where
  "wf_anchor a \<longleftrightarrow>
     length (ab_store_uuid a) = 16 \<and> length (ab_namespace_id a) = 32 \<and>
     length (ab_checkpoint_lineage_id a) = 32 \<and> length (ab_selected_manifest_digest a) = 32 \<and>
     (if ab_has_predecessor a then length (ab_predecessor_manifest_digest a) = 32
      else ab_predecessor_manifest_digest a = zero_digest) \<and>
     ab_generation a \<noteq> 0 \<and> (ab_has_predecessor a \<longleftrightarrow> ab_generation a \<noteq> 1)"

lemma generation_consistent_iff:
  "generation_consistent a \<longleftrightarrow> ab_generation a \<noteq> 0 \<and> (ab_has_predecessor a \<longleftrightarrow> ab_generation a \<noteq> 1)"
  by (auto simp: generation_consistent_def word_gt_1)

lemma emits_anchor_head [emits_intros]: "emits anchor_max_bytes (anchor_head m v) (cbor_head m v)"
proof -
  have "anchor_head m v = counted_head anchor_max_bytes m v"
    by (simp add: anchor_head_def counted_head_def anchor_append_byte_def Let_def)
  then show ?thesis by (simp add: counted_head.emits_head)
qed

interpretation anchor_encoder: encoder anchor_max_bytes anchor_head
  by unfold_locales (rule emits_anchor_head)

lemma emits_anchor_fields [emits_intros]:
  "emits anchor_max_bytes (anchor_uint v) (cbor_uint v)"
  "emits anchor_max_bytes (anchor_map v) (cbor_head 5 v)"
  "emits anchor_max_bytes (anchor_append bs) bs"
  "emits anchor_max_bytes (anchor_append_byte b) [b]"
  "emits anchor_max_bytes (anchor_bstr bs) (cbor_bytes bs)"
  "anchor_id_valid i \<Longrightarrow> emits anchor_max_bytes (anchor_text i) (cbor_text i)"
  by (simp_all add: anchor_uint_def anchor_map_def anchor_append_def anchor_append_byte_def anchor_bstr_def
      anchor_text_def anchor_encoder.emits_byte_string anchor_encoder.emits_text_string emits_anchor_head
      emits_append_span emits_append_byte del: run_writers.simps)

lemma emits_encode_body [emits_intros]:
  assumes "generation_consistent a"
  shows "emits anchor_max_bytes (encode_body a) (anchor_body_bytes a)"
proof -
  have "emits anchor_max_bytes
      (if ab_has_predecessor a then anchor_bstr (ab_predecessor_manifest_digest a) else anchor_append_byte 0xf6)
      (optional_digest_bytes (ab_has_predecessor a) (ab_predecessor_manifest_digest a))"
    by (simp add: optional_digest_bytes_def cbor_null_def emits_intros)
  note last = emits_Cons [OF this emits_Nil, simplified append_Nil2]
  show ?thesis
    unfolding encode_body_def anchor_body_bytes_def
    by (simp only: assms simp_thms if_False) (intro emits_intros last)
qed

lemma emits_encode_auth_input:
  assumes "generation_consistent a" "anchor_id_valid (ak_key_id key)"
  shows "emits anchor_max_bytes (encode_auth_input a key)
           (anchor_auth_bytes a (ak_key_id key) (ak_generation key))"
proof -
  note last = emits_Cons [OF emits_anchor_fields(1) emits_Nil, simplified append_Nil2]
  show ?thesis unfolding encode_auth_input_def anchor_auth_bytes_def
    by (intro emits_intros last assms)
qed

lemma anchor_auth_bound:
  assumes "wf_anchor a" "length key_id \<le> 128"
  shows "length (anchor_auth_bytes a key_id g) \<le> 512"
proof -
  note u = length_cbor_head_le [of 0]
  have p: "length (optional_digest_bytes (ab_has_predecessor a) (ab_predecessor_manifest_digest a)) \<le> 34"
    using assms(1) by (auto simp: optional_digest_bytes_def wf_anchor_def length_cbor_bytes)
  show ?thesis
    using assms p u [of "ab_policy_epoch a"] u [of "ab_manifest_key_generation a"] u [of "ab_authority_epoch a"]
      u [of "ab_generation a"] u [of g] length_cbor_text_le [of key_id]
    by (simp add: anchor_auth_bytes_def anchor_body_bytes_def length_head_small wf_anchor_def length_cbor_bytes)
qed

subsection \<open>What the parser accepts\<close>

lemma anchor_read_head_reference: "anchor_read_head = cbor_read_head reject reject reject"
  by (simp add: fun_eq_iff anchor_read_head_def cbor_read_head_def Let_def head_width_def head_minimum_def
      cong: if_cong)

interpretation anchor_cursor: head_reader anchor_read_head
  by unfold_locales (simp_all add: anchor_read_head_reference cbor_read_head_accepts cbor_read_head_canonical)

lemma anchor_cursor_Inr [reader_simps]:
  "cursor_number (p, xs) = Inr (v, (q, ys)) \<longleftrightarrow> xs = cbor_uint v @ ys \<and> q = p + length (cbor_uint v)"
  "cursor_map_n n (p, xs) = Inr (u, (q, ys)) \<longleftrightarrow> xs = cbor_head 5 n @ ys \<and> q = p + length (cbor_head 5 n)"
  "cursor_key n (p, xs) = Inr (u, (q, ys)) \<longleftrightarrow> xs = cbor_uint n @ ys \<and> q = p + length (cbor_uint n)"
  "N < 2 ^ 64 \<Longrightarrow> cursor_bytes N (p, xs) = Inr (bs, (q, ys)) \<longleftrightarrow>
     length bs = N \<and> xs = cbor_bytes bs @ ys \<and> q = p + length (cbor_bytes bs)"
  by (simp_all add: cursor_number_def cursor_map_n_def cursor_key_def cursor_bytes_def
      anchor_cursor.head_iff anchor_cursor.expect_iff anchor_cursor.fixed_bytes_iff)

lemma cursor_id_Inr [reader_simps]:
  "cursor_id (p, xs) = Inr (v, (q, ys)) \<longleftrightarrow>
     anchor_id_valid v \<and> xs = cbor_text v @ ys \<and> q = p + length (cbor_text v)"
proof -
  have range: "\<not> (n = 0 \<or> n > of_nat registered_id_max_bytes) \<longleftrightarrow> of_nat 1 \<le> n \<and> n \<le> of_nat registered_id_max_bytes"
    for n :: u64 by (auto simp: word_ge_1 not_less)
  have "cursor_id (p, xs) = Inr (v, (q, ys)) \<longleftrightarrow> anchor_id_valid v \<and>
      bind_reader (anchor_read_head 3) (\<lambda>n. bind_reader
        (check reject (of_nat 1 \<le> n \<and> n \<le> of_nat registered_id_max_bytes))
        (\<lambda>_. take_bytes reject (unat n))) (p, xs) = Inr (v, (q, ys))"
    unfolding cursor_id_def range by (auto simp: reader_simps)
  then show ?thesis
    using anchor_cursor.text_iff [of 1 registered_id_max_bytes reject reject p xs v q ys]
    by (auto simp: anchor_id_valid_def registered_id_max_bytes_def Suc_le_eq)
qed

lemma cursor_predecessor_Inr [reader_simps]:
  "cursor_predecessor (p, xs) = Inr ((present, d), (q, ys)) \<longleftrightarrow>
     (if present then length d = 32 else d = zero_digest) \<and>
     xs = optional_digest_bytes present d @ ys \<and> q = p + length (optional_digest_bytes present d)"
  using cbor_head_not_null [of 2 "of_nat (length d)"] cbor_head_uncons [of 2 "of_nat (length d)"]
  by (auto simp: cursor_predecessor_def reader_simps optional_digest_bytes_def cbor_bytes_def cbor_null_def)

lemma cursor_field_Inr [reader_simps]:
  "cursor_field k P f (p, xs) = Inr r \<longleftrightarrow>
     (\<exists>ys. xs = cbor_uint k @ ys \<and> bind_reader P f (p + length (cbor_uint k), ys) = Inr r)"
  by (auto simp: cursor_field_def bind_reader_Inr [of "cursor_key k"] reader_simps)

lemma cursor_demand_Inr [reader_simps]: "cursor_demand b P c = Inr r \<longleftrightarrow> b \<and> P c = Inr r"
  by (cases c) (auto simp: cursor_demand_def reader_simps)

lemma anchor_cursor_eval [reader_eval]:
  "cursor_number (p, cbor_uint v @ ys) = Inr (v, (p + length (cbor_uint v), ys))"
  "cursor_map_n n (p, cbor_head 5 n @ ys) = Inr ((), (p + length (cbor_head 5 n), ys))"
  "cursor_key n (p, cbor_uint n @ ys) = Inr ((), (p + length (cbor_uint n), ys))"
  "length bs = N \<Longrightarrow> N < 2 ^ 64 \<Longrightarrow> cursor_bytes N (p, cbor_bytes bs @ ys) = Inr (bs, (p + length (cbor_bytes bs), ys))"
  "anchor_id_valid bs \<Longrightarrow> cursor_id (p, cbor_text bs @ ys) = Inr (bs, (p + length (cbor_text bs), ys))"
  "(if present then length d = 32 else d = zero_digest) \<Longrightarrow>
     cursor_predecessor (p, optional_digest_bytes present d @ ys) =
     Inr ((present, d), (p + length (optional_digest_bytes present d), ys))"
  by (simp_all add: reader_simps)

lemma cursor_field_eval [reader_eval]:
  "cursor_field k P f (p, cbor_uint k @ ys) = bind_reader P f (p + length (cbor_uint k), ys)"
  by (simp add: cursor_field_def bind_reader_def anchor_cursor_eval)

lemma cursor_demand_eval [reader_eval]: "b \<Longrightarrow> cursor_demand b P c = P c"
  by (simp add: cursor_demand_def bind_check)

lemma parse_anchor_body_Inr:
  "parse_anchor_body (p, xs) = Inr (a, (q, ys)) \<longleftrightarrow>
     wf_anchor a \<and> xs = anchor_body_bytes a @ ys \<and> q = p + length (anchor_body_bytes a)"
  (is "?L \<longleftrightarrow> ?R")
proof
  assume ?L
  then show ?R
    by (auto simp: parse_anchor_body_def reader_simps wf_anchor_def anchor_body_bytes_def)
next
  assume ?R
  then show ?L
    by (simp add: parse_anchor_body_def reader_eval wf_anchor_def anchor_body_bytes_def)
qed

definition wf_parsed_anchor :: "parsed_anchor \<Rightarrow> bool" where
  "wf_parsed_anchor pa \<longleftrightarrow>
     wf_anchor (pa_body pa) \<and> anchor_id_valid (pa_key_id pa) \<and> length (pa_tag pa) = 32 \<and>
     pa_auth_offset pa = 2 \<and>
     pa_auth_size pa = length (anchor_auth_bytes (pa_body pa) (pa_key_id pa) (pa_key_generation pa))"

definition parsed_anchor_bytes :: "parsed_anchor \<Rightarrow> byte list" where
  "parsed_anchor_bytes pa = anchor_envelope_bytes (pa_body pa) (pa_key_id pa) (pa_key_generation pa) (pa_tag pa)"

lemma parse_anchor_envelope_Inr:
  "parse_anchor_envelope (0, xs) = Inr (pa, (q, ys)) \<longleftrightarrow>
     wf_parsed_anchor pa \<and> xs = parsed_anchor_bytes pa @ ys \<and> q = length (parsed_anchor_bytes pa)"
  (is "?L \<longleftrightarrow> ?R")
proof
  assume ?L
  then show ?R
    by (auto simp: parse_anchor_envelope_def reader_simps parse_anchor_body_Inr wf_parsed_anchor_def
        parsed_anchor_bytes_def anchor_envelope_bytes_def anchor_auth_bytes_def length_head_small)
next
  assume R: ?R
  have b: "wf_anchor a \<Longrightarrow> parse_anchor_body (p, anchor_body_bytes a @ ys) =
      Inr (a, (p + length (anchor_body_bytes a), ys))" for p a ys
    by (simp add: parse_anchor_body_Inr)
  from R show ?L
    by (cases pa) (simp add: parse_anchor_envelope_def reader_eval b wf_parsed_anchor_def
        parsed_anchor_bytes_def anchor_envelope_bytes_def anchor_auth_bytes_def length_head_small)
qed

lemma anchor_envelope_bound:
  assumes "wf_anchor a" "length key_id \<le> 128" "length tag = 32"
  shows "length (anchor_envelope_bytes a key_id g tag) \<le> 549"
  using anchor_auth_bound [OF assms(1,2), of g] assms(3)
  by (simp add: anchor_envelope_bytes_def length_head_small length_cbor_bytes)

lemma wf_parsed_anchor_bound: "wf_parsed_anchor pa \<Longrightarrow> length (parsed_anchor_bytes pa) \<le> 549"
  unfolding parsed_anchor_bytes_def
  by (rule anchor_envelope_bound) (auto simp: wf_parsed_anchor_def anchor_id_valid_def registered_id_max_bytes_def)

lemma parse_anchor_iff:
  "parse_anchor data = Some pa \<longleftrightarrow> wf_parsed_anchor pa \<and> data = Span (parsed_anchor_bytes pa)"
proof (cases data)
  case (Span bs)
  have ne: "parsed_anchor_bytes pa \<noteq> []" by (simp add: parsed_anchor_bytes_def anchor_envelope_bytes_def)
  show ?thesis
  proof
    assume "parse_anchor data = Some pa"
    then obtain q where "parse_anchor_envelope (0, bs) = Inr (pa, (q, []))"
      by (auto simp: Span parse_anchor_def split: sum.splits if_splits)
    then show "wf_parsed_anchor pa \<and> data = Span (parsed_anchor_bytes pa)"
      by (simp add: Span parse_anchor_envelope_Inr)
  next
    assume R: "wf_parsed_anchor pa \<and> data = Span (parsed_anchor_bytes pa)"
    then have "parse_anchor_envelope (0, parsed_anchor_bytes pa) = Inr (pa, (length (parsed_anchor_bytes pa), []))"
      by (simp add: parse_anchor_envelope_Inr)
    then show "parse_anchor data = Some pa"
      using R ne wf_parsed_anchor_bound [of pa] by (simp add: parse_anchor_def anchor_max_bytes_def)
  qed
qed (simp add: parse_anchor_def)

subsection \<open>Keys, tags and digests\<close>

definition anchor_key :: "byte list \<Rightarrow> anchor_body \<Rightarrow> registered_id \<Rightarrow> u64 \<Rightarrow> digest" where
  "anchor_key master a key_id g =
     hmac_sha256 master (anchor_key_domain @ [0, of_nat (length key_id)] @ key_id
       @ ab_store_uuid a @ ab_namespace_id a @ be_bytes 8 g)"

definition anchor_tag :: "byte list \<Rightarrow> anchor_body \<Rightarrow> registered_id \<Rightarrow> u64 \<Rightarrow> digest" where
  "anchor_tag master a key_id g =
     hmac_sha256 (anchor_key master a key_id g) (anchor_auth_domain @ anchor_auth_bytes a key_id g)"

definition anchor_binding :: "byte list \<Rightarrow> anchor_body \<Rightarrow> registered_id \<Rightarrow> u64 \<Rightarrow> digest" where
  "anchor_binding master a key_id g =
     hmac_sha256 (anchor_key master a key_id g) anchor_authority_binding_domain"

definition anchor_digest :: "byte list \<Rightarrow> digest" where
  "anchor_digest envelope = sha256 (anchor_digest_domain @ envelope)"

lemma anchor_domain_lengths:
  "length anchor_key_domain = 22" "length anchor_auth_domain = 23" "length anchor_digest_domain = 18"
  "length anchor_authority_binding_domain = 36"
  by (simp_all add: anchor_key_domain_def anchor_auth_domain_def anchor_digest_domain_def
      anchor_authority_binding_domain_def domain_bytes_def ascii_bytes_def)

lemma hmac_one_span:
  "valid_span key \<Longrightarrow> span_size key \<le> master_key_max_bytes \<Longrightarrow> length msg \<le> crypto_input_max_bytes \<Longrightarrow>
   context_store_hmac_sha256 key (Span msg) = Some (hmac_sha256 (span_bytes key) msg)"
  by (simp add: context_store_hmac_sha256_def hmac_spans_iff spans_ok_def spans_bytes_def valid_span_def)

lemma hmac_derived:
  "length key = 32 \<Longrightarrow> length msg \<le> crypto_input_max_bytes \<Longrightarrow>
   context_store_hmac_sha256 (Span key) (Span msg) = Some (hmac_sha256 key msg)"
  by (simp add: hmac_one_span valid_span_def master_key_max_bytes_def)

lemma length_anchor_key [simp]: "length (anchor_key master a key_id g) = 32"
  by (simp add: anchor_key_def)

lemma run_appends:
  "length xs + length ys \<le> anchor_max_bytes \<Longrightarrow> run_writers [anchor_append xs, anchor_append ys] [] = Some (xs @ ys)"
  by (simp add: anchor_append_def append_span_def)

lemma derive_anchor_key_eq:
  assumes "length (ak_key_id key) \<le> 128" "wf_anchor a" "usable_key (ak_master_key key)"
  shows "derive_anchor_key a key =
         Some (anchor_key (span_bytes (ak_master_key key)) a (ak_key_id key) (ak_generation key))"
  using assms
  by (simp add: derive_anchor_key_def anchor_append_def append_span_def anchor_domain_lengths wf_anchor_def
      anchor_max_bytes_def uint64_be_eq hmac_one_span usable_key_def valid_span_def anchor_key_def
      crypto_input_max_bytes_def manifest_max_bytes_def) arith

lemma digest_envelope_eq: "length env \<le> 549 \<Longrightarrow> digest_envelope env = Some (anchor_digest env)"
  by (simp add: digest_envelope_def run_appends anchor_domain_lengths anchor_max_bytes_def
      context_store_sha256_def sha256_spans_iff spans_ok_def spans_bytes_def valid_span_def
      crypto_input_max_bytes_def manifest_max_bytes_def anchor_digest_def del: run_writers.simps)

lemma authority_binding_eq:
  "authority_binding (anchor_key master a key_id g) = Some (anchor_binding master a key_id g)"
  by (simp add: authority_binding_def hmac_derived anchor_binding_def anchor_domain_lengths
      crypto_input_max_bytes_def manifest_max_bytes_def)

lemma anchor_message_tag:
  assumes "length (anchor_auth_bytes a key_id g) \<le> 512"
  shows "run_writers [anchor_append anchor_auth_domain, anchor_append (anchor_auth_bytes a key_id g)] [] =
           Some (anchor_auth_domain @ anchor_auth_bytes a key_id g)"
    and "context_store_hmac_sha256 (Span (anchor_key master a key_id g))
           (Span (anchor_auth_domain @ anchor_auth_bytes a key_id g)) = Some (anchor_tag master a key_id g)"
  using assms
  by (simp_all add: run_appends anchor_domain_lengths anchor_max_bytes_def hmac_derived anchor_tag_def
      crypto_input_max_bytes_def manifest_max_bytes_def del: run_writers.simps)

definition usable_anchor_key :: "anchor_key_record \<Rightarrow> bool" where
  "usable_anchor_key key \<longleftrightarrow>
     ak_disposition key = active \<and> anchor_id_valid (ak_key_id key) \<and> usable_key (ak_master_key key)"

definition signed_anchor :: "anchor_body \<Rightarrow> anchor_key_record \<Rightarrow> byte list" where
  "signed_anchor a key =
     anchor_envelope_bytes a (ak_key_id key) (ak_generation key)
       (anchor_tag (span_bytes (ak_master_key key)) a (ak_key_id key) (ak_generation key))"

definition signed_anchor_result :: "anchor_body \<Rightarrow> anchor_key_record \<Rightarrow> anchor_result" where
  "signed_anchor_result a key =
     (let env = signed_anchor a key in
      \<lparr>ar_status = authenticated_unadmitted, ar_envelope_digest = anchor_digest env,
       ar_encoded_size = length env,
       ar_carrier = anchor_carrier a (ak_key_id key) (ak_generation key)
         (anchor_binding (span_bytes (ak_master_key key)) a (ak_key_id key) (ak_generation key))
         (anchor_digest env) env\<rparr>)"

lemma anchor_id_length: "anchor_id_valid i \<Longrightarrow> length i \<le> 128"
  by (simp add: anchor_id_valid_def registered_id_max_bytes_def)

lemma length_anchor_tag [simp]: "length (anchor_tag master a key_id g) = 32"
  by (simp add: anchor_tag_def)

lemma signed_anchor_bound:
  "wf_anchor a \<Longrightarrow> usable_anchor_key key \<Longrightarrow> length (signed_anchor a key) \<le> 549"
  unfolding signed_anchor_def
  by (rule anchor_envelope_bound) (simp_all add: usable_anchor_key_def anchor_id_length)

lemma encode_anchor_eq:
  assumes w: "wf_anchor a" and k: "usable_anchor_key key" and c: "length (signed_anchor a key) \<le> capacity"
  shows "context_store_encode_anchor_v1 a key (Some capacity) =
         (signed_anchor_result a key, Some (signed_anchor a key))"
proof -
  let ?auth = "anchor_auth_bytes a (ak_key_id key) (ak_generation key)"
  let ?tag = "anchor_tag (span_bytes (ak_master_key key)) a (ak_key_id key) (ak_generation key)"
  have id: "anchor_id_valid (ak_key_id key)" "length (ak_key_id key) \<le> 128"
    and u: "usable_key (ak_master_key key)" and d: "ak_disposition key = active"
    using k by (simp_all add: usable_anchor_key_def anchor_id_length)
  have guard: "\<not> (ak_disposition key \<noteq> active \<or> \<not> anchor_id_valid (ak_key_id key) \<or>
            span_null (ak_master_key key) \<or> span_size (ak_master_key key) = 0 \<or>
            span_size (ak_master_key key) > master_key_max_bytes)"
    using id u d by (auto simp: usable_key_def)
  have bound: "length ?auth \<le> 512" using anchor_auth_bound w id by blast
  have "generation_consistent a" using w by (simp add: generation_consistent_iff wf_anchor_def)
  then have auth: "encode_auth_input a key [] = Some ?auth"
    using emitsD [OF emits_encode_auth_input] id bound by (simp add: anchor_max_bytes_def)
  have "emits anchor_max_bytes (run_writers [anchor_map 2, anchor_uint 0, anchor_append ?auth, anchor_uint 1, anchor_bstr ?tag])
      (cbor_head 5 2 @ cbor_uint 0 @ ?auth @ cbor_uint 1 @ cbor_bytes ?tag @ [])"
    by (intro emits_intros)
  then have env: "run_writers [anchor_map 2, anchor_uint 0, anchor_append ?auth, anchor_uint 1, anchor_bstr ?tag] [] =
      Some (signed_anchor a key)"
    using emitsD signed_anchor_bound [OF w k]
    by (simp add: signed_anchor_def anchor_envelope_bytes_def anchor_max_bytes_def del: run_writers.simps)
  show ?thesis
    using guard c
    by (simp add: context_store_encode_anchor_v1_def auth derive_anchor_key_eq [OF id(2) w u]
        anchor_message_tag [OF bound] authority_binding_eq env digest_envelope_eq signed_anchor_bound [OF w k]
        signed_anchor_result_def Let_def empty_anchor_result_def del: run_writers.simps)
qed

subsection \<open>The verdict of the verifier\<close>

definition anchor_verdict :: "anchor_policy \<Rightarrow> parsed_anchor \<Rightarrow> anchor_status" where
  "anchor_verdict policy pa =
     (case anchor_key_rejection pa policy of
        Some st \<Rightarrow> st
      | None \<Rightarrow>
        if pa_tag pa \<noteq> anchor_tag (span_bytes (ak_master_key (ap_key policy))) (pa_body pa)
                         (pa_key_id pa) (pa_key_generation pa)
        then authentication_failed
        else if \<not> same_authority (pa_body pa) (ap_expected policy) then authority_mismatch
        else if ab_generation (pa_body pa) < ab_generation (ap_expected policy) then rollback_detected
        else if \<not> same_replay (pa_body pa) (ap_expected policy) then replay_mismatch
        else authenticated_unadmitted)"

lemma id_equal_iff [simp]: "id_equal a b \<longleftrightarrow> a = b"
  by (auto simp: id_equal_def)

lemma anchor_key_rejection_None:
  "anchor_key_rejection pa policy = None \<longleftrightarrow>
     usable_anchor_key (ap_key policy) \<and> generation_consistent (ap_expected policy) \<and>
     pa_key_id pa = ak_key_id (ap_key policy) \<and> pa_key_generation pa = ak_generation (ap_key policy)"
  by (cases "ak_disposition (ap_key policy)")
     (auto simp: anchor_key_rejection_def Let_def usable_anchor_key_def generation_consistent_def usable_key_def)

lemma anchor_auth_range:
  assumes "wf_parsed_anchor pa"
  shows "span_range (Span (parsed_anchor_bytes pa)) (pa_auth_offset pa) (pa_auth_size pa) =
         Span (anchor_auth_bytes (pa_body pa) (pa_key_id pa) (pa_key_generation pa))"
proof -
  have "length (cbor_head 5 2 @ cbor_uint 0) = 2" by (simp add: length_head_small)
  moreover have "parsed_anchor_bytes pa = (cbor_head 5 2 @ cbor_uint 0)
      @ anchor_auth_bytes (pa_body pa) (pa_key_id pa) (pa_key_generation pa) @ cbor_uint 1 @ cbor_bytes (pa_tag pa)"
    by (simp add: parsed_anchor_bytes_def anchor_envelope_bytes_def)
  ultimately show ?thesis using assms
    by (simp del: append_assoc add: append_assoc [symmetric] span_range_def wf_parsed_anchor_def)
qed

lemma verify_anchor_canonical:
  assumes w: "wf_parsed_anchor pa"
  shows "context_store_verify_anchor_v1 (Span (parsed_anchor_bytes pa)) policy =
    (if anchor_verdict policy pa = authenticated_unadmitted
     then empty_anchor_result\<lparr>ar_encoded_size := length (parsed_anchor_bytes pa),
       ar_envelope_digest := anchor_digest (parsed_anchor_bytes pa),
       ar_carrier := anchor_carrier (pa_body pa) (pa_key_id pa) (pa_key_generation pa)
         (anchor_binding (span_bytes (ak_master_key (ap_key policy))) (pa_body pa) (pa_key_id pa) (pa_key_generation pa))
         (anchor_digest (parsed_anchor_bytes pa)) (parsed_anchor_bytes pa),
       ar_status := authenticated_unadmitted\<rparr>
     else empty_anchor_result\<lparr>ar_encoded_size := length (parsed_anchor_bytes pa), ar_status := anchor_verdict policy pa\<rparr>)"
proof -
  have parse: "parse_anchor (Span (parsed_anchor_bytes pa)) = Some pa" using w by (simp add: parse_anchor_iff)
  show ?thesis
  proof (cases "anchor_key_rejection pa policy")
    case (Some st)
    then have "st \<noteq> authenticated_unadmitted"
      by (auto simp: anchor_key_rejection_def Let_def split: if_splits)
    with Some show ?thesis by (simp add: context_store_verify_anchor_v1_def parse anchor_verdict_def)
  next
    case None
    let ?key = "ap_key policy"
    have k: "usable_anchor_key ?key" "pa_key_id pa = ak_key_id ?key" "pa_key_generation pa = ak_generation ?key"
      using None by (simp_all add: anchor_key_rejection_None)
    have id: "length (ak_key_id ?key) \<le> 128" and u: "usable_key (ak_master_key ?key)"
      and a: "wf_anchor (pa_body pa)" and t: "length (pa_tag pa) = 32"
      using k w by (simp_all add: usable_anchor_key_def anchor_id_length wf_parsed_anchor_def)
    note bound = anchor_auth_bound [OF a id, of "ak_generation ?key"]
    have msg: "run_writers [anchor_append anchor_auth_domain, append_span anchor_max_bytes
         (span_range (Span (parsed_anchor_bytes pa)) (pa_auth_offset pa) (pa_auth_size pa))] [] =
         Some (anchor_auth_domain @ anchor_auth_bytes (pa_body pa) (ak_key_id ?key) (ak_generation ?key))"
      using anchor_message_tag(1) [OF bound] anchor_auth_range [OF w] k
      by (simp add: anchor_append_def del: run_writers.simps)
    show ?thesis
      using None k t digest_envelope_eq [OF wf_parsed_anchor_bound [OF w]]
      by (auto simp: context_store_verify_anchor_v1_def parse anchor_verdict_def Let_def msg
          derive_anchor_key_eq [OF id a u] anchor_message_tag(2) [OF bound] authority_binding_eq digest_equal_def
          simp del: run_writers.simps)
  qed
qed

lemma verify_anchor_status:
  "parse_anchor data = Some pa \<Longrightarrow> ar_status (context_store_verify_anchor_v1 data policy) = anchor_verdict policy pa"
  using verify_anchor_canonical [of pa policy] by (simp add: parse_anchor_iff)

lemma verify_anchor_unparsed:
  "parse_anchor data = None \<Longrightarrow> context_store_verify_anchor_v1 data policy = empty_anchor_result"
  by (simp add: context_store_verify_anchor_v1_def)

text \<open>
  the anchor verifier rejects every byte string that is not a canonical envelope,
  and on a canonical one returns the verdict of its ordered checks: policy and key,
  tag, authority, rollback, replay. Its buffers never run out of room.
\<close>

theorem verify_anchor_verdict:
  "ar_status (context_store_verify_anchor_v1 data policy) =
     (case parse_anchor data of None \<Rightarrow> structural_rejection | Some pa \<Rightarrow> anchor_verdict policy pa)"
  by (cases "parse_anchor data") (simp_all add: verify_anchor_status verify_anchor_unparsed empty_anchor_result_def)

definition signed_parse :: "anchor_body \<Rightarrow> anchor_key_record \<Rightarrow> parsed_anchor" where
  "signed_parse a key = \<lparr>
     pa_body = a, pa_key_id = ak_key_id key, pa_key_generation = ak_generation key,
     pa_tag = anchor_tag (span_bytes (ak_master_key key)) a (ak_key_id key) (ak_generation key),
     pa_auth_offset = 2, pa_auth_size = length (anchor_auth_bytes a (ak_key_id key) (ak_generation key))\<rparr>"

lemma signed_parse_facts:
  assumes "wf_anchor a" "usable_anchor_key key"
  shows "wf_parsed_anchor (signed_parse a key)" "parsed_anchor_bytes (signed_parse a key) = signed_anchor a key"
    "parse_anchor (Span (signed_anchor a key)) = Some (signed_parse a key)"
proof -
  show w: "wf_parsed_anchor (signed_parse a key)"
    using assms by (simp add: wf_parsed_anchor_def signed_parse_def usable_anchor_key_def)
  show b: "parsed_anchor_bytes (signed_parse a key) = signed_anchor a key"
    by (simp add: parsed_anchor_bytes_def signed_parse_def signed_anchor_def)
  show "parse_anchor (Span (signed_anchor a key)) = Some (signed_parse a key)"
    using w b by (simp add: parse_anchor_iff)
qed

lemma signed_parse_verdict:
  assumes "wf_anchor (ap_expected policy)" "usable_anchor_key (ap_key policy)"
  shows "anchor_verdict policy (signed_parse (ap_expected policy) (ap_key policy)) = authenticated_unadmitted"
proof -
  have "anchor_key_rejection (signed_parse (ap_expected policy) (ap_key policy)) policy = None"
    using assms by (simp add: anchor_key_rejection_None signed_parse_def generation_consistent_iff wf_anchor_def)
  then show ?thesis
    by (simp add: anchor_verdict_def signed_parse_def same_authority_def same_replay_def)
qed

lemma same_body:
  "wf_anchor a \<Longrightarrow> wf_anchor b \<Longrightarrow> same_authority a b \<Longrightarrow> same_replay a b \<Longrightarrow> a = b"
  by (cases a; cases b) (auto simp: same_authority_def same_replay_def wf_anchor_def split: if_splits)

lemma verdict_accepted_body:
  assumes "anchor_verdict policy pa = authenticated_unadmitted" "wf_parsed_anchor pa" "wf_anchor (ap_expected policy)"
  shows "usable_anchor_key (ap_key policy) \<and> parsed_anchor_bytes pa = signed_anchor (ap_expected policy) (ap_key policy)"
proof -
  have none: "anchor_key_rejection pa policy = None"
    using assms(1)
    by (auto simp: anchor_verdict_def anchor_key_rejection_def Let_def split: option.splits if_splits)
  then have body: "pa_body pa = ap_expected policy"
    using assms same_body [of "pa_body pa" "ap_expected policy"]
    by (auto simp: anchor_verdict_def wf_parsed_anchor_def split: if_splits)
  have "pa_tag pa = anchor_tag (span_bytes (ak_master_key (ap_key policy))) (pa_body pa)
      (pa_key_id pa) (pa_key_generation pa)"
    using assms(1) none by (simp add: anchor_verdict_def split: if_splits)
  then show ?thesis
    using none [unfolded anchor_key_rejection_None] body by (simp add: parsed_anchor_bytes_def signed_anchor_def)
qed

text \<open>
  C3: under a well-formed expectation exactly one byte string is authenticated, the
  envelope the policy's key signs over the expected body; a changed byte anywhere is
  rejected.
\<close>

theorem verify_anchor_unique:
  assumes "wf_anchor (ap_expected policy)"
  shows "ar_status (context_store_verify_anchor_v1 data policy) = authenticated_unadmitted \<longleftrightarrow>
         usable_anchor_key (ap_key policy) \<and> data = Span (signed_anchor (ap_expected policy) (ap_key policy))"
proof
  assume acc: "ar_status (context_store_verify_anchor_v1 data policy) = authenticated_unadmitted"
  then obtain pa where p: "parse_anchor data = Some pa"
    using verify_anchor_unparsed [of data policy] by (cases "parse_anchor data") (auto simp: empty_anchor_result_def)
  then show "usable_anchor_key (ap_key policy) \<and> data = Span (signed_anchor (ap_expected policy) (ap_key policy))"
    using verdict_accepted_body [of policy pa] verify_anchor_status [OF p, of policy] acc assms
    by (simp add: parse_anchor_iff)
next
  assume "usable_anchor_key (ap_key policy) \<and> data = Span (signed_anchor (ap_expected policy) (ap_key policy))"
  then show "ar_status (context_store_verify_anchor_v1 data policy) = authenticated_unadmitted"
    using signed_parse_facts [OF assms] signed_parse_verdict [OF assms] verify_anchor_status by metis
qed

definition sample_body :: anchor_body where
  "sample_body = empty_anchor_body\<lparr>ab_generation := 1\<rparr>"

definition sample_key :: anchor_key_record where
  "sample_key = \<lparr>ak_disposition = active, ak_key_id = [0x6b], ak_generation = 1, ak_master_key = Span [1, 2, 3]\<rparr>"

lemma sample_wf [simp]: "wf_anchor sample_body" "usable_anchor_key sample_key"
  by (simp_all add: sample_body_def empty_anchor_body_def wf_anchor_def zero_digest_def sample_key_def
      usable_anchor_key_def usable_key_def anchor_id_valid_def registered_id_max_bytes_def master_key_max_bytes_def)

theorem verify_anchor_unique_witness:
  "wf_anchor sample_body \<and>
   (ar_status (context_store_verify_anchor_v1 (Span (signed_anchor sample_body sample_key))
      \<lparr>ap_key = sample_key, ap_expected = sample_body\<rparr>) = authenticated_unadmitted) \<and>
   (ar_status (context_store_verify_anchor_v1 (Span [])
      \<lparr>ap_key = sample_key, ap_expected = sample_body\<rparr>) \<noteq> authenticated_unadmitted)"
  using verify_anchor_unique [of "\<lparr>ap_key = sample_key, ap_expected = sample_body\<rparr>"]
  by (simp add: signed_anchor_def anchor_envelope_bytes_def)

text \<open>
  a signed anchor verifies. Encoding a well-formed body with a usable key into a
  large enough buffer succeeds, and verifying the written bytes against that body and
  key returns the very result the encoder returned, carrier included.
\<close>

theorem encode_verify_anchor:
  assumes "wf_anchor a" "usable_anchor_key key" "549 \<le> capacity"
  shows "\<exists>r envelope. context_store_encode_anchor_v1 a key (Some capacity) = (r, Some envelope) \<and>
           has_authenticated_anchor r \<and>
           context_store_verify_anchor_v1 (Span envelope) \<lparr>ap_key = key, ap_expected = a\<rparr> = r"
proof -
  let ?policy = "\<lparr>ap_key = key, ap_expected = a\<rparr>"
  have enc: "context_store_encode_anchor_v1 a key (Some capacity) = (signed_anchor_result a key, Some (signed_anchor a key))"
    using assms signed_anchor_bound [OF assms(1,2)] by (intro encode_anchor_eq) simp_all
  have v: "anchor_verdict ?policy (signed_parse a key) = authenticated_unadmitted"
    using signed_parse_verdict [of ?policy] assms by simp
  have "context_store_verify_anchor_v1 (Span (signed_anchor a key)) ?policy = signed_anchor_result a key"
    using verify_anchor_canonical [OF signed_parse_facts(1) [OF assms(1,2)], of ?policy] v
      signed_parse_facts(2) [OF assms(1,2)]
    by (simp add: signed_anchor_result_def Let_def signed_parse_def empty_anchor_result_def)
  moreover have "has_authenticated_anchor (signed_anchor_result a key)"
    by (simp add: has_authenticated_anchor_def signed_anchor_result_def Let_def anchor_carrier_def)
  ultimately show ?thesis using enc by blast
qed

theorem encode_verify_anchor_witness:
  "wf_anchor sample_body \<and> usable_anchor_key sample_key \<and>
   (\<exists>r envelope. context_store_encode_anchor_v1 sample_body sample_key (Some 1024) = (r, Some envelope) \<and>
      has_authenticated_anchor r \<and>
      context_store_verify_anchor_v1 (Span envelope) \<lparr>ap_key = sample_key, ap_expected = sample_body\<rparr> = r)"
  using encode_verify_anchor [of sample_body sample_key 1024] by simp

text \<open>
  C31: replaying an older anchor of the same authority is reported as a rollback: a
  correctly signed body with a smaller generation than the expected one is never
  accepted and gets its own status.
\<close>

theorem verify_anchor_rollback:
  assumes "wf_anchor old" "usable_anchor_key key" "generation_consistent (expected :: anchor_body)"
    "same_authority old expected" "ab_generation old < ab_generation expected"
  shows "ar_status (context_store_verify_anchor_v1 (Span (signed_anchor old key))
           \<lparr>ap_key = key, ap_expected = expected\<rparr>) = rollback_detected"
proof -
  let ?policy = "\<lparr>ap_key = key, ap_expected = expected\<rparr>"
  have "anchor_key_rejection (signed_parse old key) ?policy = None"
    using assms by (simp add: anchor_key_rejection_None signed_parse_def)
  then have "anchor_verdict ?policy (signed_parse old key) = rollback_detected"
    using assms by (simp add: anchor_verdict_def) (simp add: signed_parse_def)
  then show ?thesis using verify_anchor_status [OF signed_parse_facts(3) [OF assms(1,2)], of ?policy] by simp
qed

theorem verify_anchor_rollback_witness:
  "ab_generation sample_body < ab_generation (sample_body\<lparr>ab_generation := 2, ab_has_predecessor := True\<rparr>) \<and>
   ar_status (context_store_verify_anchor_v1 (Span (signed_anchor sample_body sample_key))
     \<lparr>ap_key = sample_key, ap_expected = sample_body\<lparr>ab_generation := 2, ab_has_predecessor := True\<rparr>\<rparr>) = rollback_detected"
proof -
  let ?new = "sample_body\<lparr>ab_generation := 2, ab_has_predecessor := True\<rparr>"
  have "generation_consistent ?new" "same_authority sample_body ?new" "ab_generation sample_body < ab_generation ?new"
    by (simp_all add: generation_consistent_def same_authority_def sample_body_def)
  with verify_anchor_rollback [of sample_body sample_key ?new] show ?thesis by simp
qed

end
