(* ===== verification/Publication.thy ===== *)
theory Publication
  imports Anchor
begin

text \<open>
  \<^verbatim>\<open>halofpx-context-store-publication.{h,cpp}\<close>: the synchronous coordinator that
  publishes a new generation through an injected backend. The backend interface is
  a function of the method called (with its arguments) and the backend's state; a
  reply is an exception or a step result with the output parameters. The writer is
  written with its frame (result, \<^verbatim>\<open>attempt_started\<close>, \<^verbatim>\<open>anchor_attempted\<close>), its local
  closures, its early returns and its catch block.
  Shown: for every backend, \<^verbatim>\<open>publish\<close> runs a fixed script of calls up to the first
  that does not complete and then settles (abandon, fence) as that call demands.
\<close>

subsection \<open>The interface\<close>

type_synonym publication_id = "byte list"
type_synonym publication_anchor = authenticated_anchor

definition publication_max_objects :: nat where "publication_max_objects = 128"

record publication_request =
  rq_attempt_id :: publication_id
  rq_expected_predecessor :: publication_anchor
  rq_next :: publication_anchor
  rq_object_count :: nat

datatype step_result =
    ok | already_equal | conflict | no_space | quota_exhausted | reserve_exhausted | read_only
  | io_error | interrupted | anchor_absent | stale_predecessor | attempt_fenced | storage_error
  | sync_error

datatype publication_call =
    read_anchor
  | begin_attempt publication_id publication_anchor publication_anchor nat
  | stage_object publication_id nat
  | write_object publication_id nat
  | verify_object publication_id nat
  | sync_object_file publication_id nat
  | publish_object_no_replace publication_id nat
  | sync_object_directory publication_id nat
  | stage_manifest publication_id
  | write_manifest publication_id
  | verify_manifest publication_id
  | sync_manifest_file publication_id
  | publish_manifest_no_replace publication_id
  | sync_manifest_directory publication_id
  | replace_anchor_atomically publication_id publication_anchor publication_anchor
  | sync_anchor publication_id publication_anchor
  | close_durable_attempt publication_id publication_anchor
  | abandon_attempt publication_id
  | fence_attempt_uncertain publication_id

text \<open>The output parameters are the anchor of \<^verbatim>\<open>read_anchor\<close> and the digest of \<^verbatim>\<open>verify_manifest\<close>.\<close>

datatype reply = Threw | Reply step_result publication_anchor digest

type_synonym 's publication_backend = "publication_call \<Rightarrow> 's \<Rightarrow> reply \<times> 's"

datatype publication_status =
    published | invalid_request | bootstrap_required | stale_predecessor | attempt_fenced
  | writer_busy | object_collision | manifest_collision | manifest_identity_mismatch
  | storage_error | sync_error | anchor_visibility_uncertain | attempt_fencing_uncertain

record publication_result =
  pr_status :: publication_status
  pr_completed_steps :: nat
  pr_anchor_replaced :: bool
  pr_durability_acknowledged :: bool
  pr_attempt_fence_confirmed :: bool

definition empty_publication_result :: publication_result where
  "empty_publication_result = \<lparr>pr_status = invalid_request, pr_completed_steps = 0,
     pr_anchor_replaced = False, pr_durability_acknowledged = False, pr_attempt_fence_confirmed = False\<rparr>"

subsection \<open>Helpers of the writer\<close>

definition anchor_body_of :: "publication_anchor \<Rightarrow> anchor_body option" where
  "anchor_body_of a = (if aa_authenticated a then Some (aa_body a) else None)"

definition fixed_digest_equal :: "digest \<Rightarrow> digest \<Rightarrow> bool" where
  "fixed_digest_equal left right = ct_equal left right"

definition same_lineage_domain :: "publication_anchor \<Rightarrow> publication_anchor \<Rightarrow> bool" where
  "same_lineage_domain left right =
     (case (anchor_body_of left, anchor_body_of right) of
        (Some l, Some r) \<Rightarrow>
          ab_store_uuid l = ab_store_uuid r \<and> ab_namespace_id l = ab_namespace_id r \<and>
          ab_checkpoint_lineage_id l = ab_checkpoint_lineage_id r \<and>
          ab_policy_epoch l = ab_policy_epoch r \<and>
          ab_manifest_key_generation l = ab_manifest_key_generation r \<and>
          ab_authority_epoch l = ab_authority_epoch r \<and>
          length (aa_key_id left) = length (aa_key_id right) \<and> aa_key_id left = aa_key_id right \<and>
          aa_key_generation left = aa_key_generation right \<and>
          fixed_digest_equal (aa_authority_binding left) (aa_authority_binding right)
      | _ \<Rightarrow> False)"

definition valid_transition :: "publication_request \<Rightarrow> bool" where
  "valid_transition request =
     (case (anchor_body_of (rq_expected_predecessor request), anchor_body_of (rq_next request)) of
        (Some predecessor_body, Some next_body) \<Rightarrow>
          rq_attempt_id request \<noteq> zero_digest \<and>
          rq_object_count request > 0 \<and> rq_object_count request \<le> publication_max_objects \<and>
          ab_generation predecessor_body \<ge> 1 \<and> ab_generation predecessor_body \<noteq> - 1 \<and>
          same_lineage_domain (rq_expected_predecessor request) (rq_next request) \<and>
          ab_generation next_body = ab_generation predecessor_body + 1 \<and>
          ab_has_predecessor next_body \<and>
          ab_predecessor_manifest_digest next_body = ab_selected_manifest_digest predecessor_body
      | _ \<Rightarrow> False)"

definition exact_anchor :: "publication_anchor \<Rightarrow> publication_anchor \<Rightarrow> bool" where
  "exact_anchor left right \<longleftrightarrow>
     aa_authenticated left \<and> aa_authenticated right \<and>
     length (aa_envelope left) = length (aa_envelope right) \<and>
     aa_digest left = aa_digest right \<and> aa_envelope left = aa_envelope right"

definition ordinary_failure :: "step_result \<Rightarrow> publication_status \<Rightarrow> publication_status" where
  "ordinary_failure step collision =
     (if step = conflict then collision
      else if step = step_result.attempt_fenced then publication_status.attempt_fenced
      else if step = step_result.sync_error then publication_status.sync_error
      else publication_status.storage_error)"

definition completed :: "step_result \<Rightarrow> bool \<Rightarrow> bool" where
  "completed step allow_equal \<longleftrightarrow> step = ok \<or> (allow_equal \<and> step = already_equal)"

subsection \<open>The writer\<close>

record 's writer_frame =
  fr_result :: publication_result
  fr_attempt_started :: bool
  fr_anchor_attempted :: bool
  fr_state :: 's

datatype control = Go | Done | Raise

type_synonym 's writer_step = "'s writer_frame \<Rightarrow> control \<times> 's writer_frame"

definition and_then :: "'s writer_step \<Rightarrow> 's writer_step \<Rightarrow> 's writer_step" where
  "and_then m n fr = (case m fr of (Go, fr1) \<Rightarrow> n fr1 | (c, fr1) \<Rightarrow> (c, fr1))"

definition set_status :: "publication_status \<Rightarrow> 's writer_frame \<Rightarrow> 's writer_frame" where
  "set_status st fr = fr\<lparr>fr_result := (fr_result fr)\<lparr>pr_status := st\<rparr>\<rparr>"

definition count_step :: "'s writer_frame \<Rightarrow> 's writer_frame" where
  "count_step fr = fr\<lparr>fr_result := (fr_result fr)\<lparr>pr_completed_steps := pr_completed_steps (fr_result fr) + 1\<rparr>\<rparr>"

definition invoke :: "'s publication_backend \<Rightarrow> publication_call \<Rightarrow> 's writer_frame \<Rightarrow> reply \<times> 's writer_frame" where
  "invoke backend c fr = (case backend c (fr_state fr) of (r, s) \<Rightarrow> (r, fr\<lparr>fr_state := s\<rparr>))"

definition abandon :: "'s publication_backend \<Rightarrow> publication_id \<Rightarrow> 's writer_frame \<Rightarrow> bool \<times> 's writer_frame" where
  "abandon backend attempt fr =
     (if \<not> fr_attempt_started fr then (True, fr)
      else case invoke backend (abandon_attempt attempt) fr of
          (Threw, fr1) \<Rightarrow> (False, fr1)
        | (Reply abandoned _ _, fr1) \<Rightarrow>
            if \<not> completed abandoned False then (False, fr1)
            else (True, fr1\<lparr>fr_attempt_started := False\<rparr>))"

definition fence_uncertain :: "'s publication_backend \<Rightarrow> publication_id \<Rightarrow> 's writer_frame \<Rightarrow> 's writer_frame" where
  "fence_uncertain backend attempt fr =
     (case invoke backend (fence_attempt_uncertain attempt) fr of
        (r, fr1) \<Rightarrow>
          fr1\<lparr>fr_result := (fr_result fr1)\<lparr>pr_attempt_fence_confirmed :=
            (case r of Threw \<Rightarrow> False | Reply fenced _ _ \<Rightarrow> completed fenced False)\<rparr>\<rparr>)"

definition not_durable :: "'s writer_frame \<Rightarrow> 's writer_frame" where
  "not_durable fr = fr\<lparr>fr_result := (fr_result fr)\<lparr>pr_durability_acknowledged := False\<rparr>\<rparr>"

definition abandon_or_fence :: "'s publication_backend \<Rightarrow> publication_id \<Rightarrow> 's writer_frame \<Rightarrow> 's writer_frame" where
  "abandon_or_fence backend attempt fr =
     (case abandon backend attempt fr of
        (abandoned, fr1) \<Rightarrow>
          not_durable (if \<not> abandoned
            then fence_uncertain backend attempt (set_status attempt_fencing_uncertain fr1) else fr1))"

definition fail_after_abandon :: "'s publication_backend \<Rightarrow> publication_id \<Rightarrow> 's writer_step" where
  "fail_after_abandon backend attempt fr = (Done, abandon_or_fence backend attempt fr)"

definition read_step :: "'s publication_backend \<Rightarrow> publication_request \<Rightarrow> 's writer_step" where
  "read_step backend request fr =
     (case invoke backend read_anchor fr of
        (Threw, fr1) \<Rightarrow> (Raise, fr1)
      | (Reply step current _, fr1) \<Rightarrow>
          if step = anchor_absent then (Done, set_status bootstrap_required fr1)
          else if \<not> completed step False
          then (Done, set_status (ordinary_failure step publication_status.storage_error) fr1)
          else let fr2 = count_step fr1 in
            if \<not> aa_authenticated current then (Done, set_status publication_status.storage_error fr2)
            else if \<not> exact_anchor current (rq_expected_predecessor request)
            then (Done, set_status publication_status.stale_predecessor fr2)
            else (Go, fr2))"

definition begin_step :: "'s publication_backend \<Rightarrow> publication_request \<Rightarrow> 's writer_step" where
  "begin_step backend request fr =
     (case invoke backend (begin_attempt (rq_attempt_id request) (rq_expected_predecessor request)
             (rq_next request) (rq_object_count request)) fr of
        (Threw, fr1) \<Rightarrow> (Raise, fr1)
      | (Reply step _ _, fr1) \<Rightarrow>
          if step = step_result.stale_predecessor
          then (Done, set_status publication_status.stale_predecessor fr1)
          else if step = step_result.attempt_fenced
          then (Done, set_status publication_status.attempt_fenced fr1)
          else if \<not> completed step False
          then (Done, fence_uncertain backend (rq_attempt_id request) (set_status attempt_fencing_uncertain fr1))
          else (Go, (count_step fr1)\<lparr>fr_attempt_started := True\<rparr>))"

definition run_call ::
    "'s publication_backend \<Rightarrow> publication_id \<Rightarrow> publication_status \<Rightarrow> bool \<Rightarrow> publication_call \<Rightarrow> 's writer_step" where
  "run_call backend attempt collision allow_equal c fr =
     (case invoke backend c fr of
        (Threw, fr1) \<Rightarrow> (Raise, fr1)
      | (Reply step _ _, fr1) \<Rightarrow>
          if completed step allow_equal then (Go, count_step fr1)
          else fail_after_abandon backend attempt (set_status (ordinary_failure step collision) fr1))"

definition object_steps :: "'s publication_backend \<Rightarrow> publication_id \<Rightarrow> nat \<Rightarrow> 's writer_step" where
  "object_steps backend attempt index =
     (let run = run_call backend attempt object_collision in
      and_then (run False (stage_object attempt index))
      (and_then (run False (write_object attempt index))
      (and_then (run False (verify_object attempt index))
      (and_then (run False (sync_object_file attempt index))
      (and_then (run True (publish_object_no_replace attempt index))
      (run False (sync_object_directory attempt index)))))))"

fun object_loop :: "'s publication_backend \<Rightarrow> publication_id \<Rightarrow> nat list \<Rightarrow> 's writer_step" where
  "object_loop backend attempt [] = (\<lambda>fr. (Go, fr))"
| "object_loop backend attempt (index # rest) =
     and_then (object_steps backend attempt index) (object_loop backend attempt rest)"

definition verify_manifest_step :: "'s publication_backend \<Rightarrow> publication_request \<Rightarrow> 's writer_step" where
  "verify_manifest_step backend request fr =
     (case invoke backend (verify_manifest (rq_attempt_id request)) fr of
        (Threw, fr1) \<Rightarrow> (Raise, fr1)
      | (Reply step _ verified_manifest_digest, fr1) \<Rightarrow>
          if \<not> completed step False
          then fail_after_abandon backend (rq_attempt_id request)
                 (set_status (ordinary_failure step manifest_collision) fr1)
          else if (case anchor_body_of (rq_next request) of
                     None \<Rightarrow> True
                   | Some body \<Rightarrow> verified_manifest_digest \<noteq> ab_selected_manifest_digest body)
          then fail_after_abandon backend (rq_attempt_id request) (set_status manifest_identity_mismatch fr1)
          else (Go, count_step fr1))"

definition replace_step :: "'s publication_backend \<Rightarrow> publication_request \<Rightarrow> 's writer_step" where
  "replace_step backend request fr =
     (case invoke backend (replace_anchor_atomically (rq_attempt_id request)
             (rq_expected_predecessor request) (rq_next request)) (fr\<lparr>fr_anchor_attempted := True\<rparr>) of
        (Threw, fr1) \<Rightarrow> (Raise, fr1)
      | (Reply step _ _, fr1) \<Rightarrow>
          if step = step_result.stale_predecessor
          then fail_after_abandon backend (rq_attempt_id request)
                 ((set_status publication_status.stale_predecessor fr1)\<lparr>fr_anchor_attempted := False\<rparr>)
          else if step = step_result.attempt_fenced
          then fail_after_abandon backend (rq_attempt_id request)
                 ((set_status publication_status.attempt_fenced fr1)\<lparr>fr_anchor_attempted := False\<rparr>)
          else if \<not> completed step False
          then (Done, fence_uncertain backend (rq_attempt_id request) (set_status anchor_visibility_uncertain fr1))
          else let fr2 = count_step fr1 in
            (Go, fr2\<lparr>fr_result := (fr_result fr2)\<lparr>pr_anchor_replaced := True\<rparr>\<rparr>))"

definition anchor_call :: "'s publication_backend \<Rightarrow> publication_id \<Rightarrow> publication_call \<Rightarrow> 's writer_step" where
  "anchor_call backend attempt c fr =
     (case invoke backend c fr of
        (Threw, fr1) \<Rightarrow> (Raise, fr1)
      | (Reply step _ _, fr1) \<Rightarrow>
          if \<not> completed step False
          then (Done, fence_uncertain backend attempt (set_status anchor_visibility_uncertain fr1))
          else (Go, count_step fr1))"

definition finish_step :: "'s writer_step" where
  "finish_step fr = (Done, fr\<lparr>fr_attempt_started := False,
     fr_result := (fr_result fr)\<lparr>pr_status := published, pr_durability_acknowledged := True\<rparr>\<rparr>)"

definition publish_body :: "'s publication_backend \<Rightarrow> publication_request \<Rightarrow> 's writer_step" where
  "publish_body backend request =
     (let attempt = rq_attempt_id request;
          run_manifest = run_call backend attempt manifest_collision in
      and_then (read_step backend request)
      (and_then (begin_step backend request)
      (and_then (object_loop backend attempt [0..<rq_object_count request])
      (and_then (run_manifest False (stage_manifest attempt))
      (and_then (run_manifest False (write_manifest attempt))
      (and_then (verify_manifest_step backend request)
      (and_then (run_manifest False (sync_manifest_file attempt))
      (and_then (run_manifest True (publish_manifest_no_replace attempt))
      (and_then (run_manifest False (sync_manifest_directory attempt))
      (and_then (replace_step backend request)
      (and_then (anchor_call backend attempt (sync_anchor attempt (rq_next request)))
      (and_then (anchor_call backend attempt (close_durable_attempt attempt (rq_next request)))
      finish_step))))))))))))"

definition catch_block :: "'s publication_backend \<Rightarrow> publication_id \<Rightarrow> 's writer_frame \<Rightarrow> 's writer_frame" where
  "catch_block backend attempt fr =
     (if fr_anchor_attempted fr
      then not_durable (fence_uncertain backend attempt (set_status anchor_visibility_uncertain fr))
      else abandon_or_fence backend attempt (set_status publication_status.storage_error fr))"

definition initial_frame :: "'s \<Rightarrow> 's writer_frame" where
  "initial_frame s = \<lparr>fr_result = empty_publication_result, fr_attempt_started = False,
     fr_anchor_attempted = False, fr_state = s\<rparr>"

text \<open>
  The root fence is the flag: \<^verbatim>\<open>publish\<close> takes it with \<^verbatim>\<open>test_and_set\<close> and the guard
  clears it on every path out.
\<close>

definition publish ::
    "'s publication_backend \<Rightarrow> publication_request \<Rightarrow> bool \<Rightarrow> 's \<Rightarrow> publication_result \<times> bool \<times> 's" where
  "publish backend request held s =
     (if held then (empty_publication_result\<lparr>pr_status := writer_busy\<rparr>, True, s)
      else if \<not> valid_transition request
      then (empty_publication_result\<lparr>pr_status := invalid_request\<rparr>, False, s)
      else let fr = (case publish_body backend request (initial_frame s) of
                       (Raise, fr1) \<Rightarrow> catch_block backend (rq_attempt_id request) fr1
                     | (_, fr1) \<Rightarrow> fr1)
           in (fr_result fr, False, fr_state fr))"


subsection \<open>The script and its judge\<close>

text \<open>
  The specification of a publication: the calls in order, what each reply means, and
  how an attempt that fails is settled.
\<close>

definition object_script :: "publication_id \<Rightarrow> nat \<Rightarrow> publication_call list" where
  "object_script a i = [stage_object a i, write_object a i, verify_object a i, sync_object_file a i,
     publish_object_no_replace a i, sync_object_directory a i]"

definition manifest_script :: "publication_id \<Rightarrow> publication_call list" where
  "manifest_script a = [stage_manifest a, write_manifest a, verify_manifest a, sync_manifest_file a,
     publish_manifest_no_replace a, sync_manifest_directory a]"

definition begin_call :: "publication_request \<Rightarrow> publication_call" where
  "begin_call q = begin_attempt (rq_attempt_id q) (rq_expected_predecessor q) (rq_next q) (rq_object_count q)"

definition replace_call :: "publication_request \<Rightarrow> publication_call" where
  "replace_call q = replace_anchor_atomically (rq_attempt_id q) (rq_expected_predecessor q) (rq_next q)"

definition prepare_script :: "publication_request \<Rightarrow> publication_call list" where
  "prepare_script q = [read_anchor, begin_call q]
     @ concat (map (object_script (rq_attempt_id q)) [0..<rq_object_count q])
     @ manifest_script (rq_attempt_id q)"

definition script :: "publication_request \<Rightarrow> publication_call list" where
  "script q = prepare_script q
     @ [replace_call q, sync_anchor (rq_attempt_id q) (rq_next q),
        close_durable_attempt (rq_attempt_id q) (rq_next q)]"

datatype settlement = Leave | Abandon | Fence

record failure =
  fl_status :: publication_status
  fl_settle :: settlement
  fl_extra :: nat
  fl_replaced :: bool

definition failed :: "publication_status \<Rightarrow> settlement \<Rightarrow> failure" where
  "failed st how = \<lparr>fl_status = st, fl_settle = how, fl_extra = 0, fl_replaced = False\<rparr>"

fun thrown :: "publication_call \<Rightarrow> failure" where
  "thrown read_anchor = failed publication_status.storage_error Leave"
| "thrown (begin_attempt _ _ _ _) = failed publication_status.storage_error Leave"
| "thrown (replace_anchor_atomically _ _ _) = failed anchor_visibility_uncertain Fence"
| "thrown (sync_anchor _ _) = (failed anchor_visibility_uncertain Fence)\<lparr>fl_replaced := True\<rparr>"
| "thrown (close_durable_attempt _ _) = (failed anchor_visibility_uncertain Fence)\<lparr>fl_replaced := True\<rparr>"
| "thrown _ = failed publication_status.storage_error Abandon"

definition completes :: "step_result \<Rightarrow> bool \<Rightarrow> publication_status \<Rightarrow> failure option" where
  "completes step allow_equal collision =
     (if completed step allow_equal then None else Some (failed (ordinary_failure step collision) Abandon))"

definition anchor_completes :: "step_result \<Rightarrow> failure option" where
  "anchor_completes step = (if step = ok then None
     else Some ((failed anchor_visibility_uncertain Fence)\<lparr>fl_replaced := True\<rparr>))"

fun replied :: "publication_request \<Rightarrow> publication_call \<Rightarrow> step_result \<Rightarrow> publication_anchor \<Rightarrow> digest \<Rightarrow> failure option" where
  "replied q read_anchor step current d =
     (if step = anchor_absent then Some (failed bootstrap_required Leave)
      else if step \<noteq> ok then Some (failed (ordinary_failure step publication_status.storage_error) Leave)
      else if \<not> aa_authenticated current
      then Some ((failed publication_status.storage_error Leave)\<lparr>fl_extra := 1\<rparr>)
      else if \<not> exact_anchor current (rq_expected_predecessor q)
      then Some ((failed publication_status.stale_predecessor Leave)\<lparr>fl_extra := 1\<rparr>)
      else None)"
| "replied q (begin_attempt _ _ _ _) step current d =
     (if step = ok then None
      else Some (if step = step_result.stale_predecessor
                 then failed publication_status.stale_predecessor Leave
                 else if step = step_result.attempt_fenced
                 then failed publication_status.attempt_fenced Leave
                 else failed attempt_fencing_uncertain Fence))"
| "replied q (publish_object_no_replace _ _) step current d = completes step True object_collision"
| "replied q (verify_manifest _) step current d =
     (if step = ok \<and> map_option ab_selected_manifest_digest (anchor_body_of (rq_next q)) = Some d then None
      else Some (failed (if step = ok then manifest_identity_mismatch
                         else ordinary_failure step manifest_collision) Abandon))"
| "replied q (publish_manifest_no_replace _) step current d = completes step True manifest_collision"
| "replied q (replace_anchor_atomically _ _ _) step current d =
     (if step = ok then None
      else Some (if step = step_result.stale_predecessor
                 then failed publication_status.stale_predecessor Abandon
                 else if step = step_result.attempt_fenced
                 then failed publication_status.attempt_fenced Abandon
                 else failed anchor_visibility_uncertain Fence))"
| "replied q (sync_anchor _ _) step current d = anchor_completes step"
| "replied q (close_durable_attempt _ _) step current d = anchor_completes step"
| "replied q (stage_object _ _) step current d = completes step False object_collision"
| "replied q (write_object _ _) step current d = completes step False object_collision"
| "replied q (verify_object _ _) step current d = completes step False object_collision"
| "replied q (sync_object_file _ _) step current d = completes step False object_collision"
| "replied q (sync_object_directory _ _) step current d = completes step False object_collision"
| "replied q _ step current d = completes step False manifest_collision"

definition judge :: "publication_request \<Rightarrow> publication_call \<Rightarrow> reply \<Rightarrow> failure option" where
  "judge q c r = (case r of Threw \<Rightarrow> Some (thrown c) | Reply step current d \<Rightarrow> replied q c step current d)"

fun run_script ::
    "'s publication_backend \<Rightarrow> publication_request \<Rightarrow> publication_call list \<Rightarrow> 's \<Rightarrow> failure option \<times> nat \<times> 's" where
  "run_script b q [] s = (None, 0, s)"
| "run_script b q (c # cs) s =
     (case b c s of (r, t) \<Rightarrow>
        (case judge q c r of
           Some f \<Rightarrow> (Some f, 0, t)
         | None \<Rightarrow> (case run_script b q cs t of (f, n, u) \<Rightarrow> (f, Suc n, u))))"

definition confirms :: "reply \<Rightarrow> bool" where
  "confirms r = (case r of Threw \<Rightarrow> False | Reply step _ _ \<Rightarrow> step = ok)"

definition settle ::
    "'s publication_backend \<Rightarrow> publication_request \<Rightarrow> failure \<Rightarrow> nat \<Rightarrow> 's \<Rightarrow> publication_result \<times> 's" where
  "settle b q f n s =
     (let failed_result = (\<lambda>st confirmed. \<lparr>pr_status = st, pr_completed_steps = n + fl_extra f,
            pr_anchor_replaced = fl_replaced f, pr_durability_acknowledged = False,
            pr_attempt_fence_confirmed = confirmed\<rparr>);
          fence = (\<lambda>st s. case b (fence_attempt_uncertain (rq_attempt_id q)) s of
            (r, t) \<Rightarrow> (failed_result st (confirms r), t))
      in case fl_settle f of
           Leave \<Rightarrow> (failed_result (fl_status f) False, s)
         | Fence \<Rightarrow> fence (fl_status f) s
         | Abandon \<Rightarrow> (case b (abandon_attempt (rq_attempt_id q)) s of
             (r, t) \<Rightarrow> if confirms r then (failed_result (fl_status f) False, t)
                        else fence attempt_fencing_uncertain t))"

definition published_result :: "nat \<Rightarrow> publication_result" where
  "published_result n = \<lparr>pr_status = published, pr_completed_steps = n, pr_anchor_replaced = True,
     pr_durability_acknowledged = True, pr_attempt_fence_confirmed = False\<rparr>"

definition publish_spec :: "'s publication_backend \<Rightarrow> publication_request \<Rightarrow> 's \<Rightarrow> publication_result \<times> 's" where
  "publish_spec b q s = (case run_script b q (script q) s of
     (None, n, t) \<Rightarrow> (published_result n, t)
   | (Some f, n, t) \<Rightarrow> settle b q f n t)"


subsection \<open>The writer refines the script\<close>

definition frame_at :: "bool \<times> bool \<times> bool \<Rightarrow> nat \<Rightarrow> 's \<Rightarrow> 's writer_frame" where
  "frame_at p n s = (case p of (started, attempted, replaced) \<Rightarrow>
     \<lparr>fr_result = \<lparr>pr_status = invalid_request, pr_completed_steps = n, pr_anchor_replaced = replaced,
        pr_durability_acknowledged = False, pr_attempt_fence_confirmed = False\<rparr>,
      fr_attempt_started = started, fr_anchor_attempted = attempted, fr_state = s\<rparr>)"

definition conclude ::
    "'s publication_backend \<Rightarrow> publication_request \<Rightarrow> control \<times> 's writer_frame \<Rightarrow> publication_result \<times> 's" where
  "conclude b q x = (case x of (c, fr) \<Rightarrow>
     (let fr1 = (if c = Raise then catch_block b (rq_attempt_id q) fr else fr)
      in (fr_result fr1, fr_state fr1)))"

definition implements ::
    "'s publication_backend \<Rightarrow> publication_request \<Rightarrow> 's writer_step \<Rightarrow> publication_call list
      \<Rightarrow> bool \<times> bool \<times> bool \<Rightarrow> bool \<times> bool \<times> bool \<Rightarrow> bool" where
  "implements b q m cs p p' \<longleftrightarrow> (\<forall>n s. case run_script b q cs s of
     (None, k, t) \<Rightarrow> m (frame_at p n s) = (Go, frame_at p' (n + k) t)
   | (Some f, k, t) \<Rightarrow> fst (m (frame_at p n s)) \<noteq> Go \<and>
       conclude b q (m (frame_at p n s)) = settle b q f (n + k) t)"

lemma run_script_append:
  "run_script b q (cs @ ds) s =
     (case run_script b q cs s of
        (Some f, n, t) \<Rightarrow> (Some f, n, t)
      | (None, n, t) \<Rightarrow> (case run_script b q ds t of (f, k, u) \<Rightarrow> (f, n + k, u)))"
  by (induction cs arbitrary: s) (auto split: prod.splits option.splits)

lemma implements_and_then:
  assumes "implements b q m cs p p'" "implements b q m' ds p' p''"
  shows "implements b q (and_then m m') (cs @ ds) p p''"
  unfolding implements_def
proof (intro allI)
  fix n s
  obtain f k t where r: "run_script b q cs s = (f, k, t)" by (metis prod_cases3)
  show "case run_script b q (cs @ ds) s of
      (None, k, t) \<Rightarrow> and_then m m' (frame_at p n s) = (Go, frame_at p'' (n + k) t)
    | (Some f, k, t) \<Rightarrow> fst (and_then m m' (frame_at p n s)) \<noteq> Go \<and>
        conclude b q (and_then m m' (frame_at p n s)) = settle b q f (n + k) t"
  proof (cases f)
    case None
    then have m: "m (frame_at p n s) = (Go, frame_at p' (n + k) t)"
      using assms(1)[unfolded implements_def, rule_format, of n s] r by simp
    show ?thesis
      using assms(2)[unfolded implements_def, rule_format, of "n + k" t] None r m
      by (auto simp: run_script_append and_then_def add.assoc split: prod.splits option.splits)
  next
    case (Some f')
    obtain c fr where m: "m (frame_at p n s) = (c, fr)" by force
    then have c: "c \<noteq> Go" "conclude b q (c, fr) = settle b q f' (n + k) t"
      using assms(1)[unfolded implements_def, rule_format, of n s] r Some by simp_all
    then have "and_then m m' (frame_at p n s) = (c, fr)"
      using m by (cases c) (simp_all add: and_then_def)
    then show ?thesis using c r Some by (simp add: run_script_append)
  qed
qed

lemmas implements_steady = implements_and_then[where p = "(True, False, False)" and p' = "(True, False, False)"]

lemmas writer_defs = frame_at_def conclude_def invoke_def judge_def settle_def confirms_def catch_block_def
  abandon_or_fence_def abandon_def fence_uncertain_def not_durable_def set_status_def count_step_def
  fail_after_abandon_def completed_def completes_def anchor_completes_def failed_def

lemma implements_single:
  assumes "\<And>n s r t. b c s = (r, t) \<Longrightarrow>
    (case judge q c r of
       None \<Rightarrow> m (frame_at p n s) = (Go, frame_at p' (Suc n) t)
     | Some f \<Rightarrow> fst (m (frame_at p n s)) \<noteq> Go \<and> conclude b q (m (frame_at p n s)) = settle b q f n t)"
  shows "implements b q m [c] p p'"
  unfolding implements_def
proof (intro allI)
  fix n s
  obtain r t where "b c s = (r, t)" by force
  with assms[OF this, of n]
  show "case run_script b q [c] s of
      (None, k, t) \<Rightarrow> m (frame_at p n s) = (Go, frame_at p' (n + k) t)
    | (Some f, k, t) \<Rightarrow> fst (m (frame_at p n s)) \<noteq> Go \<and>
        conclude b q (m (frame_at p n s)) = settle b q f (n + k) t"
    by (cases "judge q c r") simp_all
qed

lemma implements_read: "implements b q (read_step b q) [read_anchor] (False, False, False) (False, False, False)"
  by (rule implements_single)
    (auto simp: read_step_def writer_defs Let_def split: reply.splits if_splits)

lemma implements_begin:
  "implements b q (begin_step b q) [begin_call q] (False, False, False) (True, False, False)"
  by (rule implements_single)
    (auto simp: begin_step_def begin_call_def writer_defs Let_def split: reply.splits prod.splits if_splits)

text \<open>An ordinary call of the writer: judged by its step result alone, abandoned when it fails.\<close>

definition ordinary_call :: "publication_request \<Rightarrow> publication_status \<Rightarrow> bool \<Rightarrow> publication_call \<Rightarrow> bool" where
  "ordinary_call q collision allow_equal c \<longleftrightarrow>
     (\<forall>step current d. replied q c step current d = completes step allow_equal collision) \<and>
     thrown c = failed publication_status.storage_error Abandon"

lemma implements_run_call:
  assumes "ordinary_call q collision allow_equal c"
  shows "implements b q (run_call b (rq_attempt_id q) collision allow_equal c) [c]
    (True, False, False) (True, False, False)"
  using assms
  by (intro implements_single)
    (auto simp: run_call_def ordinary_call_def writer_defs Let_def split: reply.splits prod.splits if_splits)

lemma implements_object:
  "implements b q (object_steps b (rq_attempt_id q) i) (object_script (rq_attempt_id q) i)
    (True, False, False) (True, False, False)"
proof -
  note single = implements_run_call[where b = b and q = q and collision = object_collision]
  have "implements b q (object_steps b (rq_attempt_id q) i)
      ([stage_object (rq_attempt_id q) i] @ [write_object (rq_attempt_id q) i] @ [verify_object (rq_attempt_id q) i]
        @ [sync_object_file (rq_attempt_id q) i] @ [publish_object_no_replace (rq_attempt_id q) i]
        @ [sync_object_directory (rq_attempt_id q) i])
      (True, False, False) (True, False, False)"
    unfolding object_steps_def Let_def
    by (intro implements_steady single) (simp_all add: ordinary_call_def)
  then show ?thesis by (simp add: object_script_def)
qed

lemma implements_loop:
  "implements b q (object_loop b (rq_attempt_id q) is) (concat (map (object_script (rq_attempt_id q)) is))
    (True, False, False) (True, False, False)"
  by (induction "is") (simp_all add: implements_steady implements_object implements_def[of _ _ _ "[]"])

lemma implements_verify_manifest:
  "implements b q (verify_manifest_step b q) [verify_manifest (rq_attempt_id q)]
    (True, False, False) (True, False, False)"
  by (rule implements_single)
    (auto simp: verify_manifest_step_def writer_defs Let_def
      split: reply.splits prod.splits if_splits option.splits)

lemma implements_replace:
  "implements b q (replace_step b q) [replace_call q] (True, False, False) (True, True, True)"
  by (rule implements_single)
    (auto simp: replace_step_def replace_call_def writer_defs Let_def
      split: reply.splits prod.splits if_splits)

lemma implements_anchor_call:
  assumes "c = sync_anchor a x \<or> c = close_durable_attempt a x"
  shows "implements b q (anchor_call b (rq_attempt_id q) c) [c] (True, True, True) (True, True, True)"
  using assms
  by (intro implements_single)
    (auto simp: anchor_call_def writer_defs Let_def split: reply.splits prod.splits if_splits)


lemma implements_manifest_start:
  "implements b q (run_call b (rq_attempt_id q) manifest_collision False (stage_manifest (rq_attempt_id q)))
     [stage_manifest (rq_attempt_id q)] (True, False, False) (True, False, False)"
  "implements b q (run_call b (rq_attempt_id q) manifest_collision False (write_manifest (rq_attempt_id q)))
     [write_manifest (rq_attempt_id q)] (True, False, False) (True, False, False)"
  "implements b q (run_call b (rq_attempt_id q) manifest_collision False (sync_manifest_file (rq_attempt_id q)))
     [sync_manifest_file (rq_attempt_id q)] (True, False, False) (True, False, False)"
  "implements b q (run_call b (rq_attempt_id q) manifest_collision True (publish_manifest_no_replace (rq_attempt_id q)))
     [publish_manifest_no_replace (rq_attempt_id q)] (True, False, False) (True, False, False)"
  "implements b q (run_call b (rq_attempt_id q) manifest_collision False (sync_manifest_directory (rq_attempt_id q)))
     [sync_manifest_directory (rq_attempt_id q)] (True, False, False) (True, False, False)"
  by (simp_all add: implements_run_call ordinary_call_def)

lemma publish_body_refines:
  "conclude b q (publish_body b q (initial_frame s)) = publish_spec b q s"
proof -
  let ?a = "rq_attempt_id q"
  let ?m = "and_then (read_step b q) (and_then (begin_step b q)
     (and_then (object_loop b ?a [0..<rq_object_count q])
     (and_then (run_call b ?a manifest_collision False (stage_manifest ?a))
     (and_then (run_call b ?a manifest_collision False (write_manifest ?a))
     (and_then (verify_manifest_step b q)
     (and_then (run_call b ?a manifest_collision False (sync_manifest_file ?a))
     (and_then (run_call b ?a manifest_collision True (publish_manifest_no_replace ?a))
     (and_then (run_call b ?a manifest_collision False (sync_manifest_directory ?a))
     (and_then (replace_step b q)
     (and_then (anchor_call b ?a (sync_anchor ?a (rq_next q)))
     (anchor_call b ?a (close_durable_attempt ?a (rq_next q)))))))))))))"
  have assoc: "and_then (and_then m n) k = and_then m (and_then n k)"
    for m n k :: "'a writer_step"
    by (rule ext) (simp add: and_then_def split: prod.splits control.splits)
  have body: "publish_body b q = and_then ?m finish_step"
    by (simp add: publish_body_def Let_def assoc)
  have "implements b q ?m ([read_anchor] @ [begin_call q]
      @ concat (map (object_script ?a) [0..<rq_object_count q])
      @ [stage_manifest ?a] @ [write_manifest ?a] @ [verify_manifest ?a] @ [sync_manifest_file ?a]
      @ [publish_manifest_no_replace ?a] @ [sync_manifest_directory ?a]
      @ [replace_call q] @ [sync_anchor ?a (rq_next q)] @ [close_durable_attempt ?a (rq_next q)])
      (False, False, False) (True, True, True)"
    by (intro implements_and_then[OF implements_read] implements_and_then[OF implements_begin]
      implements_and_then[OF implements_loop] implements_and_then[OF implements_manifest_start(1)]
      implements_and_then[OF implements_manifest_start(2)] implements_and_then[OF implements_verify_manifest]
      implements_and_then[OF implements_manifest_start(3)] implements_and_then[OF implements_manifest_start(4)]
      implements_and_then[OF implements_manifest_start(5)] implements_and_then[OF implements_replace]
      implements_and_then[OF implements_anchor_call] implements_anchor_call) simp_all
  then have m: "implements b q ?m (script q) (False, False, False) (True, True, True)"
    by (simp add: script_def prepare_script_def manifest_script_def)
  have start: "initial_frame s = frame_at (False, False, False) 0 s"
    by (simp add: initial_frame_def frame_at_def empty_publication_result_def)
  obtain f k t where r: "run_script b q (script q) s = (f, k, t)" by (metis prod_cases3)
  show ?thesis
  proof (cases f)
    case None
    then have "?m (frame_at (False, False, False) 0 s) = (Go, frame_at (True, True, True) k t)"
      using m[unfolded implements_def, rule_format, of 0 s] r by simp
    then show ?thesis
      using None r
      by (simp add: body start and_then_def[of ?m] finish_step_def frame_at_def conclude_def
        publish_spec_def published_result_def)
  next
    case (Some f')
    obtain c fr where x: "?m (frame_at (False, False, False) 0 s) = (c, fr)" by force
    have "c \<noteq> Go" "conclude b q (c, fr) = settle b q f' k t"
      using m[unfolded implements_def, rule_format, of 0 s] r Some x by simp_all
    then show ?thesis
      using Some r x by (cases c) (simp_all add: body start and_then_def[of ?m] publish_spec_def)
  qed
qed

lemma publish_refines_script:
  "publish b q held s =
     (if held then (empty_publication_result\<lparr>pr_status := writer_busy\<rparr>, True, s)
      else if \<not> valid_transition q then (empty_publication_result, False, s)
      else (case publish_spec b q s of (r, t) \<Rightarrow> (r, False, t)))"
proof -
  obtain c fr where x: "publish_body b q (initial_frame s) = (c, fr)" by force
  show ?thesis
    using publish_body_refines[of b q s] x
    by (cases c) (auto simp: publish_def conclude_def Let_def empty_publication_result_def split: prod.splits)
qed


subsection \<open>What every backend observes\<close>

text \<open>A backend that also records each call with the reply it gave.\<close>

type_synonym call_log = "(publication_call \<times> reply) list"

definition logged :: "'s publication_backend \<Rightarrow> ('s \<times> call_log) publication_backend" where
  "logged b c x = (case x of (s, log) \<Rightarrow> (case b c s of (r, t) \<Rightarrow> (r, (t, log @ [(c, r)]))))"

definition accepted :: "publication_request \<Rightarrow> publication_call \<times> reply \<Rightarrow> bool" where
  "accepted q x \<longleftrightarrow> judge q (fst x) (snd x) = None"

lemma logged_app: "b c s = (r, t) \<Longrightarrow> logged b c (s, log) = (r, (t, log @ [(c, r)]))"
  by (simp add: logged_def)

lemma run_script_logged:
  assumes "run_script (logged b) q cs (s, log) = (f, n, (t, log'))"
  shows "run_script b q cs s = (f, n, t) \<and>
    (\<exists>ds. log' = log @ ds \<and> (\<forall>x\<in>set (take n ds). accepted q x) \<and>
      (case f of
         None \<Rightarrow> map fst ds = cs \<and> n = length cs
       | Some x \<Rightarrow> length ds = Suc n \<and> n < length cs \<and> map fst ds = take (Suc n) cs \<and>
           judge q (cs ! n) (snd (ds ! n)) = Some x))"
  using assms
proof (induction cs arbitrary: s log n)
  case Nil
  then show ?case by simp
next
  case (Cons c cs)
  obtain r t1 where b: "b c s = (r, t1)" by force
  show ?case
  proof (cases "judge q c r")
    case None
    obtain f1 n1 t2 log2 where r: "run_script (logged b) q cs (t1, log @ [(c, r)]) = (f1, n1, (t2, log2))"
      by (metis prod_cases3 surj_pair)
    then have eqs: "f1 = f" "n = Suc n1" "t2 = t" "log2 = log'"
      using Cons.prems None by (simp_all add: logged_app[of b, OF b])
    obtain ds where ds: "log' = log @ (c, r) # ds" "\<forall>x\<in>set (take n1 ds). accepted q x"
      "(case f of None \<Rightarrow> map fst ds = cs \<and> n1 = length cs
        | Some x \<Rightarrow> length ds = Suc n1 \<and> n1 < length cs \<and> map fst ds = take (Suc n1) cs \<and>
           judge q (cs ! n1) (snd (ds ! n1)) = Some x)" "run_script b q cs t1 = (f, n1, t)"
      using Cons.IH[OF r[unfolded eqs]] by auto
    show ?thesis
      using ds b None eqs
      by (intro conjI exI[of _ "(c, r) # ds"]) (auto simp: accepted_def split: option.splits)
  next
    case (Some x)
    then have "f = Some x" "n = 0" "t = t1" "log' = log @ [(c, r)]"
      using Cons.prems by (auto simp: logged_app[of b, OF b])
    then show ?thesis
      using b Some by (intro conjI exI[of _ "[(c, r)]"]) simp_all
  qed
qed

text \<open>What follows the failing call, and what the caller is then told of the attempt's fencing.\<close>

definition settled_by :: "publication_request \<Rightarrow> failure \<Rightarrow> publication_result \<Rightarrow> call_log \<Rightarrow> bool" where
  "settled_by q f r rest \<longleftrightarrow>
     pr_anchor_replaced r = fl_replaced f \<and> \<not> pr_durability_acknowledged r \<and>
     (case fl_settle f of
        Leave \<Rightarrow> rest = [] \<and> pr_status r = fl_status f \<and> \<not> pr_attempt_fence_confirmed r
      | Fence \<Rightarrow> (\<exists>x. rest = [(fence_attempt_uncertain (rq_attempt_id q), x)] \<and>
          pr_status r = fl_status f \<and> pr_attempt_fence_confirmed r = confirms x)
      | Abandon \<Rightarrow>
          (\<exists>x. rest = [(abandon_attempt (rq_attempt_id q), x)] \<and> confirms x \<and>
             pr_status r = fl_status f \<and> \<not> pr_attempt_fence_confirmed r) \<or>
          (\<exists>x y. rest = [(abandon_attempt (rq_attempt_id q), x), (fence_attempt_uncertain (rq_attempt_id q), y)] \<and>
             \<not> confirms x \<and> pr_status r = attempt_fencing_uncertain \<and> pr_attempt_fence_confirmed r = confirms y))"

lemma settle_logged:
  assumes "settle (logged b) q f n (s, log) = (r, (t, log'))"
  shows "settle b q f n s = (r, t) \<and> (\<exists>rest. log' = log @ rest \<and> settled_by q f r rest)"
  using assms
  by (cases "fl_settle f") (auto simp: settle_def settled_by_def logged_def Let_def split: prod.splits if_splits)

lemma thrown_not_published: "fl_status (thrown c) \<noteq> published"
  by (cases c) (simp_all add: failed_def)

lemma ordinary_not_published: "collision \<noteq> published \<Longrightarrow> ordinary_failure step collision \<noteq> published"
  by (simp add: ordinary_failure_def)

lemma judge_not_published: "judge q c r = Some f \<Longrightarrow> fl_status f \<noteq> published"
proof (cases r)
  case (Reply step current d)
  assume "judge q c r = Some f"
  then show ?thesis
    using Reply
    by (cases c) (auto simp: judge_def completes_def anchor_completes_def failed_def ordinary_not_published
      split: if_splits)
qed (auto simp: judge_def thrown_not_published)

lemma publish_spec_logged:
  assumes "publish_spec (logged b) q (s, []) = (r, (t, log))"
  shows "publish_spec b q s = (r, t)"
    and "\<exists>ds rest. log = ds @ rest \<and>
      (if pr_status r = published
       then map fst ds = script q \<and> list_all (accepted q) ds \<and> rest = [] \<and>
         r = published_result (length (script q))
       else \<exists>n f. n < length (script q) \<and> map fst ds = take (Suc n) (script q) \<and>
         list_all (accepted q) (take n ds) \<and> judge q (script q ! n) (snd (ds ! n)) = Some f \<and>
         pr_completed_steps r = n + fl_extra f \<and> settled_by q f r rest)"
proof -
  obtain f n t1 log1 where run: "run_script (logged b) q (script q) (s, []) = (f, n, (t1, log1))"
    by (metis prod_cases3 surj_pair)
  note log = run_script_logged[OF run]
  have "publish_spec b q s = (r, t) \<and> (\<exists>ds rest. log = ds @ rest \<and>
      (if pr_status r = published
       then map fst ds = script q \<and> list_all (accepted q) ds \<and> rest = [] \<and>
         r = published_result (length (script q))
       else \<exists>n f. n < length (script q) \<and> map fst ds = take (Suc n) (script q) \<and>
         list_all (accepted q) (take n ds) \<and> judge q (script q ! n) (snd (ds ! n)) = Some f \<and>
         pr_completed_steps r = n + fl_extra f \<and> settled_by q f r rest))"
  proof (cases f)
    case None
    then have eqs: "r = published_result n" "t = t1" "log = log1" "map fst log1 = script q" "n = length (script q)"
      "list_all (accepted q) log1" "run_script b q (script q) s = (None, n, t1)"
      using assms run log map_eq_imp_length_eq[of fst log1 id "script q"]
      by (auto simp: publish_spec_def list_all_iff)
    then show ?thesis
      by (simp add: publish_spec_def) (rule exI[of _ log1], simp add: published_result_def)
  next
    case (Some x)
    then have st: "settle (logged b) q x n (t1, log1) = (r, (t, log))"
      using assms run by (simp add: publish_spec_def)
    obtain rest where rest: "log = log1 @ rest" "settled_by q x r rest" "settle b q x n t1 = (r, t)"
      using settle_logged[OF st] by blast
    have ev: "n < length (script q)" "map fst log1 = take (Suc n) (script q)"
      "list_all (accepted q) (take n log1)" "judge q (script q ! n) (snd (log1 ! n)) = Some x"
      "run_script b q (script q) s = (Some x, n, t1)"
      using log Some by (auto simp: list_all_iff)
    have steps: "pr_completed_steps r = n + fl_extra x"
      using rest(3) by (cases "fl_settle x") (auto simp: settle_def Let_def split: prod.splits if_splits)
    have "pr_status r \<noteq> published"
      using rest(2) judge_not_published[OF ev(4)] by (auto simp: settled_by_def split: settlement.splits)
    then show ?thesis
      using rest ev steps by (simp add: publish_spec_def) (intro exI[of _ log1] exI[of _ rest] conjI, auto)
  qed
  then show "publish_spec b q s = (r, t)"
    and "\<exists>ds rest. log = ds @ rest \<and>
      (if pr_status r = published
       then map fst ds = script q \<and> list_all (accepted q) ds \<and> rest = [] \<and>
         r = published_result (length (script q))
       else \<exists>n f. n < length (script q) \<and> map fst ds = take (Suc n) (script q) \<and>
         list_all (accepted q) (take n ds) \<and> judge q (script q ! n) (snd (ds ! n)) = Some f \<and>
         pr_completed_steps r = n + fl_extra f \<and> settled_by q f r rest)"
    by blast+
qed

lemma publish_spec_failed:
  assumes "publish_spec (logged b) q (s, []) = (r, (t, log))" "pr_status r \<noteq> published"
  obtains ds rest n f where "log = ds @ rest" "n < length (script q)" "map fst ds = take (Suc n) (script q)"
    "list_all (accepted q) (take n ds)" "judge q (script q ! n) (snd (ds ! n)) = Some f"
    "pr_completed_steps r = n + fl_extra f" "settled_by q f r rest"
  using publish_spec_logged(2)[OF assms(1), unfolded if_not_P[OF assms(2)]] by blast

lemma length_script: "length (script q) = 6 * rq_object_count q + 11"
proof -
  have "length (concat (map (object_script a) is)) = 6 * length is" for a "is"
    by (induction "is") (simp_all add: object_script_def)
  then show ?thesis by (simp add: script_def prepare_script_def manifest_script_def)
qed


lemma prepare_before_replace:
  assumes "map fst ds = take n (script q)" "replace_call q \<in> set (take n (script q))"
  shows "\<exists>pre r post. ds = pre @ (replace_call q, r) # post \<and> map fst pre = prepare_script q"
proof -
  have notin: "replace_call q \<notin> set (prepare_script q)"
    by (auto simp: prepare_script_def replace_call_def begin_call_def object_script_def manifest_script_def)
  let ?k = "length (prepare_script q)"
  have "?k < n"
  proof (rule ccontr)
    assume "\<not> ?k < n"
    then have "take n (script q) = take n (prepare_script q)" by (simp add: script_def)
    with assms(2) notin show False by (metis in_set_takeD)
  qed
  then have len: "?k < length ds" and fst: "fst (ds ! ?k) = replace_call q"
    and pre: "map fst (take ?k ds) = prepare_script q"
  proof -
    have l: "length ds = min n (length (script q))"
      using arg_cong[OF assms(1), of length] by simp
    show "?k < length ds" using l \<open>?k < n\<close> by (simp add: script_def)
    then show "fst (ds ! ?k) = replace_call q"
      using arg_cong[OF assms(1), of "\<lambda>xs. xs ! ?k"] \<open>?k < n\<close> by (simp add: script_def nth_append)
    show "map fst (take ?k ds) = prepare_script q"
      using \<open>?k < n\<close> by (simp add: take_map[symmetric] assms(1) script_def min_def)
  qed
  then show ?thesis
    by (metis id_take_nth_drop prod.collapse)
qed

lemma publish_replaces_after_evidence:
  assumes "publish (logged b) q False (s, []) = (r, h, (t, log))" and "replace_call q \<in> set (map fst log)"
  shows "\<exists>pre x post. log = pre @ (replace_call q, x) # post \<and> map fst pre = prepare_script q \<and>
    list_all (accepted q) pre"
proof -
  have valid: "valid_transition q" and spec: "publish_spec (logged b) q (s, []) = (r, (t, log))"
    using assms by (auto simp: publish_refines_script split: if_splits prod.splits)
  have fact: "\<exists>ds rest m. log = ds @ rest \<and> map fst ds = take m (script q) \<and>
      list_all (accepted q) (take (length ds - 1) ds) \<and> replace_call q \<notin> set (map fst rest)"
  proof (cases "pr_status r = published")
    case True
    then obtain ds where "log = ds" "map fst ds = script q" "list_all (accepted q) ds"
      using publish_spec_logged(2)[OF spec] by auto
    then show ?thesis
      by (intro exI[of _ ds] exI[of _ "[]"] exI[of _ "length (script q)"])
        (auto simp: list_all_iff dest: in_set_takeD)
  next
    case False
    then obtain ds rest n f where e: "log = ds @ rest" "n < length (script q)"
        "map fst ds = take (Suc n) (script q)" "list_all (accepted q) (take n ds)" "settled_by q f r rest"
      using publish_spec_failed[OF spec] by metis
    have "length ds = Suc n"
      using arg_cong[OF e(3), of length] e(2) by simp
    moreover have "replace_call q \<notin> set (map fst rest)"
      using e(5) by (auto simp: settled_by_def replace_call_def split: settlement.splits)
    ultimately show ?thesis using e by (intro exI[of _ ds] exI[of _ rest] exI[of _ "Suc n"]) simp
  qed
  then obtain ds rest m where log: "log = ds @ rest" "map fst ds = take m (script q)"
      "list_all (accepted q) (take (length ds - 1) ds)" "replace_call q \<notin> set (map fst rest)"
    by blast
  have "replace_call q \<in> set (take m (script q))"
    using assms(2) log by (metis Un_iff map_append set_append)
  then obtain pre x post where ds: "ds = pre @ (replace_call q, x) # post" "map fst pre = prepare_script q"
    using prepare_before_replace[OF log(2)] by blast
  have "set pre \<subseteq> set (take (length ds - 1) ds)"
    using ds by auto
  then have "list_all (accepted q) pre" using log(3) by (auto simp: list_all_iff)
  then show ?thesis using log(1) ds by auto
qed

lemma publish_result_shape:
  "case publish b q held s of (r, h, t) \<Rightarrow> h = held \<and>
     (pr_durability_acknowledged r \<longleftrightarrow> pr_status r = published) \<and>
     (pr_status r = published \<longleftrightarrow> pr_completed_steps r = 6 * rq_object_count q + 11) \<and>
     pr_completed_steps r \<le> 6 * rq_object_count q + 11"
proof (cases "held \<or> \<not> valid_transition q")
  case True
  then show ?thesis
    by (auto simp: publish_refines_script empty_publication_result_def)
next
  case False
  obtain r t log where spec: "publish_spec (logged b) q (s, []) = (r, (t, log))" by (metis prod_cases3)
  show ?thesis
  proof (cases "pr_status r = published")
    case True
    then show ?thesis
      using False publish_spec_logged[OF spec]
      by (auto simp: publish_refines_script published_result_def length_script)
  next
    case fail: False
    obtain n f rest and ds :: call_log where e: "n < length (script q)" "judge q (script q ! n) (snd (ds ! n)) = Some f"
        "pr_completed_steps r = n + fl_extra f" "settled_by q f r rest"
      by (rule publish_spec_failed[OF spec fail]) blast
    have "n + fl_extra f < 6 * rq_object_count q + 11"
    proof (cases "n = 0")
      case True
      then show ?thesis
        using e(2) by (auto simp: script_def prepare_script_def judge_def failed_def
          split: reply.splits if_splits)
    next
      case n: False
      have "script q ! n \<noteq> read_anchor"
      proof -
        have "script q ! n \<in> set (tl (script q))"
          using n e(1) by (metis Nitpick.size_list_simp(2) Suc_less_SucD length_tl list.size(3) not_less_zero
            nth_mem nth_tl not0_implies_Suc)
        then show ?thesis
          by (auto simp: script_def prepare_script_def begin_call_def replace_call_def object_script_def
            manifest_script_def)
      qed
      then have "fl_extra f = 0"
        using e(2)
        by (cases "script q ! n"; cases "snd (ds ! n)")
          (auto simp: judge_def failed_def completes_def anchor_completes_def split: if_splits)
      then show ?thesis using e(1) by (simp add: length_script)
    qed
    then show ?thesis
      using False fail e publish_spec_logged(1)[OF spec]
      by (auto simp: publish_refines_script settled_by_def)
  qed
qed


subsection \<open>The writer's contract\<close>

text \<open>
  C8: For every backend and request, \<^verbatim>\<open>publish\<close> is the execution of the script: a
  busy root is refused untouched, an invalid transition reaches no backend call, and
  otherwise the calls of \<^verbatim>\<open>script\<close> run in order up to the first reply that the judge
  does not accept, whose failure is settled as the judge demands; the root fence is
  always released.
\<close>
theorem publish_refines:
  "publish backend request held s =
     (if held then (empty_publication_result\<lparr>pr_status := writer_busy\<rparr>, True, s)
      else if \<not> valid_transition request then (empty_publication_result, False, s)
      else (case publish_spec backend request s of (r, t) \<Rightarrow> (r, False, t)))"
  by (rule publish_refines_script)

text \<open>
  Whatever the backend answers: durability is acknowledged exactly for the status
  \<^verbatim>\<open>published\<close>, which is reported exactly when all 6 n + 11 steps of a plan of n objects
  completed; the step counter never exceeds that number, and the root fence is left as
  it was found.
\<close>
theorem publish_acknowledges:
  "case publish backend request held s of (r, h, t) \<Rightarrow> h = held \<and>
     (pr_durability_acknowledged r \<longleftrightarrow> pr_status r = published) \<and>
     (pr_status r = published \<longleftrightarrow> pr_completed_steps r = 6 * rq_object_count request + 11) \<and>
     pr_completed_steps r \<le> 6 * rq_object_count request + 11"
  by (rule publish_result_shape)

text \<open>
  The calls a backend receives for a valid request: either the whole script, every
  reply accepted, and the result \<^verbatim>\<open>published\<close>; or a prefix of the script that ends with the
  first reply not accepted, followed by exactly the abandon and fence calls that
  failure demands, with the status and fence confirmation the caller is told.
\<close>
theorem publish_call_log:
  "case publish (logged backend) request False (s, []) of (r, h, (t, log)) \<Rightarrow>
     (if \<not> valid_transition request then log = [] \<and> r = empty_publication_result
      else publish backend request False s = (r, h, t) \<and>
        (\<exists>ds rest. log = ds @ rest \<and>
          (if pr_status r = published
           then map fst ds = script request \<and> list_all (accepted request) ds \<and> rest = [] \<and>
             r = published_result (length (script request))
           else \<exists>n f. n < length (script request) \<and> map fst ds = take (Suc n) (script request) \<and>
             list_all (accepted request) (take n ds) \<and>
             judge request (script request ! n) (snd (ds ! n)) = Some f \<and>
             pr_completed_steps r = n + fl_extra f \<and> settled_by request f r rest)))"
proof (cases "valid_transition request")
  case True
  obtain r t log where spec: "publish_spec (logged backend) request (s, []) = (r, (t, log))"
    by (metis prod_cases3)
  show ?thesis
    using True spec publish_spec_logged[OF spec] by (simp add: publish_refines_script)
qed (simp add: publish_refines_script)

definition sample_anchor :: "anchor_body \<Rightarrow> byte list \<Rightarrow> publication_anchor" where
  "sample_anchor body envelope = \<lparr>aa_authenticated = True, aa_body = body, aa_key_id = [0x6b],
     aa_key_generation = 1, aa_authority_binding = zero_digest, aa_digest = zero_digest, aa_envelope = envelope\<rparr>"

definition sample_request :: publication_request where
  "sample_request = \<lparr>rq_attempt_id = replicate 32 1,
     rq_expected_predecessor = sample_anchor sample_body [1],
     rq_next = sample_anchor (sample_body\<lparr>ab_generation := 2, ab_has_predecessor := True\<rparr>) [2],
     rq_object_count = 1\<rparr>"

definition willing_backend :: "unit publication_backend" where
  "willing_backend c s = (Reply ok (rq_expected_predecessor sample_request) zero_digest, s)"

lemma valid_sample_request: "valid_transition sample_request"
  by (simp add: valid_transition_def sample_request_def sample_anchor_def anchor_body_of_def sample_body_def
    empty_anchor_body_def publication_max_objects_def same_lineage_domain_def fixed_digest_equal_def
    zero_digest_def replicate_eq_replicate)

lemma script_sample_request:
  "script sample_request = (let a = replicate 32 1 in [read_anchor, begin_call sample_request] @ object_script a 0
     @ manifest_script a @ [replace_call sample_request, sync_anchor a (rq_next sample_request),
        close_durable_attempt a (rq_next sample_request)])"
  by (simp add: script_def prepare_script_def sample_request_def Let_def)

lemma sample_digest: "map_option ab_selected_manifest_digest (anchor_body_of (rq_next sample_request)) = Some zero_digest"
  by (simp add: sample_request_def sample_anchor_def anchor_body_of_def sample_body_def empty_anchor_body_def)

lemma sample_predecessor:
  "aa_authenticated (rq_expected_predecessor sample_request)"
  "exact_anchor (rq_expected_predecessor sample_request) (rq_expected_predecessor sample_request)"
  by (simp_all add: sample_request_def sample_anchor_def exact_anchor_def)

lemma willing_publishes:
  "\<exists>t log. publish (logged willing_backend) sample_request False ((), []) = (published_result 17, False, (t, log)) \<and>
     replace_call sample_request \<in> set (map fst log)"
proof -
  have "fst (run_script (logged willing_backend) sample_request (script sample_request) ((), [])) = None"
    by (simp add: script_sample_request Let_def object_script_def manifest_script_def begin_call_def replace_call_def
      logged_def willing_backend_def judge_def completes_def anchor_completes_def completed_def sample_digest
      sample_predecessor split: prod.splits)
  then obtain n t log where run:
    "run_script (logged willing_backend) sample_request (script sample_request) ((), []) = (None, n, (t, log))"
    by (metis prod_cases3 fst_conv surj_pair)
  then have "n = length (script sample_request)" "map fst log = script sample_request"
    using run_script_logged[OF run] by auto
  moreover have "rq_object_count sample_request = 1" "replace_call sample_request \<in> set (script sample_request)"
    by (simp_all add: sample_request_def script_def)
  ultimately show ?thesis
    using run valid_sample_request by (simp add: publish_refines_script publish_spec_def length_script del: set_map)
qed

text \<open>
  C5: The anchor is replaced only on complete evidence: if the backend was ever asked to
  replace the anchor, then before that call it had accepted, in order, the anchor read
  (an authenticated anchor with exactly the predecessor's envelope), the attempt, all
  six steps of every object and all six steps of the manifest, whose verified digest is
  the one the next anchor selects.
\<close>
theorem publish_replaces_last:
  assumes "publish (logged backend) request False (s, []) = (r, h, (t, log))"
    and "replace_call request \<in> set (map fst log)"
  shows "\<exists>pre x post. log = pre @ (replace_call request, x) # post \<and> map fst pre = prepare_script request \<and>
    list_all (accepted request) pre"
  by (rule publish_replaces_after_evidence[OF assms])

theorem publish_replaces_last_witness:
  "\<exists>t log. publish (logged willing_backend) sample_request False ((), []) = (published_result 17, False, (t, log)) \<and>
     (\<exists>pre x post. log = pre @ (replace_call sample_request, x) # post \<and>
        map fst pre = prepare_script sample_request \<and> list_all (accepted sample_request) pre)"
proof -
  obtain t log where run: "publish (logged willing_backend) sample_request False ((), []) =
      (published_result 17, False, (t, log))" and called: "replace_call sample_request \<in> set (map fst log)"
    using willing_publishes by (elim exE conjE)
  show ?thesis
    by (rule exI[of _ t], rule exI[of _ log]) (rule conjI[OF run publish_replaces_last[OF run called]])
qed


subsection \<open>Backends that leave evidence\<close>

text \<open>A reflexive and transitive relation kept by the calls of a script is kept by the whole run.\<close>

lemma run_script_preserves:
  assumes "run_script b q cs s = (f, n, t)" "reflp R" "transp R" "\<And>c s. c \<in> set cs \<Longrightarrow> R s (snd (b c s))"
  shows "R s t"
  using assms(1,4)
proof (induction cs arbitrary: s n)
  case (Cons c cs)
  have step: "R s (snd (b c s))" using Cons.prems(2) by simp
  show ?case
  proof (cases "judge q c (fst (b c s))")
    case None
    then obtain k where "run_script b q cs (snd (b c s)) = (f, k, t)"
      using Cons.prems(1) by (simp add: split_beta) (metis prod.collapse)
    then have "R (snd (b c s)) t" using Cons.IH Cons.prems(2) by simp
    with step show ?thesis using assms(3) by (rule transpD[rotated])
  next
    case (Some g)
    then show ?thesis using Cons.prems(1) step by (simp add: split_beta)
  qed
qed (simp add: assms(2)[THEN reflpD])

lemma settle_preserves:
  assumes "reflp R" "transp R" "\<And>s. R s (snd (b (abandon_attempt (rq_attempt_id q)) s))"
    "\<And>s. R s (snd (b (fence_attempt_uncertain (rq_attempt_id q)) s))"
  shows "R s (snd (settle b q f n s))"
  using assms(3,4) reflpD[OF assms(1)] transpD[OF assms(2) assms(3) assms(4)]
  by (cases "fl_settle f") (simp_all add: settle_def Let_def split_beta)

lemma publish_preserves:
  assumes "reflp R" "transp R" "\<And>c s. R s (snd (b c s))"
  shows "R s (snd (snd (publish b q held s)))"
proof -
  obtain f n t where run: "run_script b q (script q) s = (f, n, t)" by (metis prod_cases3)
  have "R s t" by (rule run_script_preserves[OF run assms(1,2)]) (rule assms(3))
  moreover have "R t (snd (settle b q g n t))" for g
    by (rule settle_preserves[OF assms(1,2)]) (rule assms(3))+
  ultimately show ?thesis
    using run assms(3) reflpD[OF assms(1)] transpD[OF assms(2)]
    by (cases f) (auto simp: publish_refines_script publish_spec_def split_beta)
qed

lemma run_script_failure:
  "run_script b q cs s = (Some f, n, t) \<Longrightarrow> fl_status f \<noteq> published"
  by (induction cs arbitrary: s n) (auto simp: judge_not_published split: prod.splits option.splits)

lemma run_script_failed_call:
  "run_script b q cs s = (Some f, n, t) \<Longrightarrow> n < length cs \<and> (\<exists>r. judge q (cs ! n) r = Some f)"
proof (induction cs arbitrary: s n)
  case (Cons c cs)
  show ?case
  proof (cases "judge q c (fst (b c s))")
    case None
    obtain g k u where rest: "run_script b q cs (snd (b c s)) = (g, k, u)" by (metis prod_cases3)
    then have "g = Some f" "n = Suc k" using Cons.prems None by (auto simp: split_beta)
    then show ?thesis using Cons.IH[of "snd (b c s)" k] rest Cons.prems None by (simp add: split_beta)
  next
    case (Some g)
    then show ?thesis using Cons.prems by (auto simp: split_beta)
  qed
qed simp

text \<open>Once the attempt has begun, every failure is settled by an abandon or a fence.\<close>

lemma begun_failure_settled:
  assumes "run_script b q (script q) s = (Some f, n, t)" "2 \<le> n + fl_extra f"
  shows "fl_settle f \<noteq> Leave"
proof -
  obtain r where n: "n < length (script q)" and j: "judge q (script q ! n) r = Some f"
    using run_script_failed_call[OF assms(1)] by blast
  obtain rest where sc: "script q = read_anchor # begin_call q # rest"
    and rest: "read_anchor \<notin> set rest" "\<And>a p x k. begin_attempt a p x k \<notin> set rest"
    by (auto simp: script_def prepare_script_def replace_call_def object_script_def manifest_script_def)
  show ?thesis
  proof (cases "n < 2")
    case True
    then show ?thesis
      using j assms(2) sc
      by (cases n) (auto simp: begin_call_def judge_def failed_def split: reply.splits if_splits)
  next
    case False
    then have "script q ! n \<in> set rest"
      using n sc by (auto simp: nth_Cons' intro!: nth_mem)
    then have "script q ! n \<noteq> read_anchor" "\<And>a p x k. script q ! n \<noteq> begin_attempt a p x k"
      using rest by metis+
    then show ?thesis
      using j
      by (cases "script q ! n"; cases r)
        (auto simp: judge_def failed_def completes_def anchor_completes_def split: if_splits)
  qed
qed

lemma publish_spec_status:
  assumes "publish_spec b q s = (r, t)" "run_script b q (script q) s = (f, n, u)"
  shows "pr_status r = published \<longleftrightarrow> f = None"
proof (cases f)
  case (Some x)
  then have "settle b q x n u = (r, t)" using assms by (simp add: publish_spec_def)
  moreover have "fl_status x \<noteq> published" using run_script_failure[OF assms(2)[unfolded Some]] .
  ultimately show ?thesis
    using Some by (cases "fl_settle x") (auto simp: settle_def Let_def split: prod.splits if_splits)
qed (use assms in \<open>auto simp: publish_spec_def published_result_def\<close>)

text \<open>
  The interface behind crash safety. A call that was accepted leaves lasting evidence;
  a safe state stays safe under every call but the replacement of the anchor, and under
  that one too once all the evidence of the preparation is there. The writer then keeps
  every such backend safe, because it replaces the anchor last.
\<close>

fun replaces :: "publication_call \<Rightarrow> bool" where
  "replaces (replace_anchor_atomically _ _ _) = True"
| "replaces _ = False"

locale evidence_backend =
  fixes b :: "'s publication_backend"
    and honest :: "'s \<Rightarrow> bool"
    and achieved :: "publication_call \<Rightarrow> 's \<Rightarrow> bool"
    and safe :: "'s \<Rightarrow> bool"
  assumes honest_call: "honest s \<Longrightarrow> honest (snd (b c s))"
    and achieve: "honest s \<Longrightarrow> accepted q (c, fst (b c s)) \<Longrightarrow> achieved c (snd (b c s))"
    and achieved_call: "achieved c s \<Longrightarrow> achieved c (snd (b d s))"
    and safe_call: "safe s \<Longrightarrow> \<not> replaces c \<Longrightarrow> safe (snd (b c s))"
    and safe_replace: "safe s \<Longrightarrow> list_all (\<lambda>c. achieved c s) (prepare_script q) \<Longrightarrow>
      safe (snd (b (replace_call q) s))"
begin

lemma run_script_evidence:
  assumes "run_script b q cs s = (f, n, t)" "honest s" "safe s" "list_all (\<lambda>c. \<not> replaces c) cs"
    "list_all (\<lambda>c. achieved c s) ds"
  shows "honest t \<and> safe t \<and> (f = None \<longrightarrow> list_all (\<lambda>c. achieved c t) (ds @ cs))"
  using assms
proof (induction cs arbitrary: s n ds)
  case (Cons c cs)
  let ?t = "snd (b c s)"
  have t: "honest ?t" "safe ?t" "list_all (\<lambda>c. achieved c ?t) ds"
    using Cons.prems honest_call safe_call achieved_call by (auto simp: list_all_iff)
  show ?case
  proof (cases "judge q c (fst (b c s))")
    case None
    then have "achieved c ?t"
      using achieve[OF Cons.prems(2), of q c] by (simp add: accepted_def)
    moreover obtain k where "run_script b q cs ?t = (f, k, t)"
      using Cons.prems(1) None by (auto simp: split_beta) (metis prod.collapse)
    ultimately show ?thesis
      using Cons.IH[of ?t k "ds @ [c]"] t Cons.prems(4) by simp
  next
    case (Some x)
    then show ?thesis using Cons.prems(1) t by (auto simp: split_beta)
  qed
qed simp

lemma run_script_achieved:
  assumes "run_script b q cs s = (None, n, t)" "honest s" "list_all (\<lambda>c. achieved c s) ds"
  shows "list_all (\<lambda>c. achieved c t) (ds @ cs)"
  using assms
proof (induction cs arbitrary: s n ds)
  case (Cons c cs)
  let ?t = "snd (b c s)"
  have judged: "judge q c (fst (b c s)) = None"
    using Cons.prems(1) by (auto simp: split_beta split: option.splits)
  then obtain k where "run_script b q cs ?t = (None, k, t)"
    using Cons.prems(1) by (auto simp: split_beta) (metis prod.collapse)
  moreover have "honest ?t" "list_all (\<lambda>c. achieved c ?t) (ds @ [c])"
    using Cons.prems judged honest_call achieved_call achieve[OF Cons.prems(2), of q c]
    by (auto simp: list_all_iff accepted_def)
  ultimately show ?case
    using Cons.IH[of ?t k "ds @ [c]"] by simp
qed simp

lemma publish_achieved:
  assumes "publish b q held s = (r, h, t)" "pr_status r = published" "honest s"
  shows "list_all (\<lambda>c. achieved c t) (script q)"
proof -
  obtain f n u where run: "run_script b q (script q) s = (f, n, u)" by (metis prod_cases3)
  have spec: "publish_spec b q s = (r, t)"
    using assms(1,2)
    by (auto simp: publish_refines_script empty_publication_result_def split: if_splits prod.splits)
  have "f = None"
  proof (rule ccontr)
    assume "f \<noteq> None"
    then obtain x where "f = Some x" by blast
    then have "pr_status r \<noteq> published"
      using publish_spec_status[OF spec run] by simp
    with assms(2) show False by simp
  qed
  then show ?thesis
    using run_script_achieved[of q "script q" s n u "[]"] run spec assms(3) by (simp add: publish_spec_def)
qed

lemma settle_safe: "safe s \<Longrightarrow> safe (snd (settle b q f n s))"
  by (cases "fl_settle f") (simp_all add: settle_def Let_def split_beta safe_call)

lemma publish_spec_safe:
  assumes "honest s" "safe s"
  shows "safe (snd (publish_spec b q s))"
proof -
  obtain f n t where r: "run_script b q (prepare_script q) s = (f, n, t)" by (metis prod_cases3)
  have quiet: "list_all (\<lambda>c. \<not> replaces c) (prepare_script q)"
    by (auto simp: list_all_iff prepare_script_def begin_call_def object_script_def manifest_script_def)
  note prep = run_script_evidence[OF r assms quiet, of "[]", simplified]
  show ?thesis
  proof (cases f)
    case (Some x)
    then show ?thesis
      using prep r by (simp add: publish_spec_def script_def run_script_append settle_safe)
  next
    case None
    let ?u = "snd (b (replace_call q) t)"
    have u: "honest ?u" "safe ?u"
      using prep None honest_call safe_replace by simp_all
    obtain g k v where rest: "run_script b q [sync_anchor (rq_attempt_id q) (rq_next q),
        close_durable_attempt (rq_attempt_id q) (rq_next q)] ?u = (g, k, v)" by (metis prod_cases3)
    have v: "safe v"
      using run_script_evidence[OF rest u, of "[]"] by simp
    show ?thesis
    proof (cases "judge q (replace_call q) (fst (b (replace_call q) t))")
      case (Some x)
      then show ?thesis
        using None r u
        by (simp add: publish_spec_def script_def run_script_append split_beta settle_safe)
    next
      case j: None
      have "run_script b q (script q) s = (g, n + Suc k, v)"
        using r None j rest
        by (simp add: script_def run_script_append split_beta del: run_script.simps(2))
          (simp add: split_beta)
      then show ?thesis
        using v by (cases g) (simp_all add: publish_spec_def settle_safe)
    qed
  qed
qed

lemma publish_safe:
  "honest s \<Longrightarrow> safe s \<Longrightarrow> safe (snd (snd (publish b q held s)))"
  by (simp add: publish_refines_script split_beta publish_spec_safe)

end

text \<open>A process that dies after a number of calls: the state stays where it was.\<close>

definition killed :: "'s publication_backend \<Rightarrow> ('s \<times> nat) publication_backend" where
  "killed b c x = (case x of
     (s, 0) \<Rightarrow> (Threw, (s, 0))
   | (s, Suc k) \<Rightarrow> (case b c s of (r, t) \<Rightarrow> (r, (t, k))))"

lemma killed_cases:
  "fst (killed b c x) = (if snd x = 0 then Threw else fst (b c (fst x)))"
  "fst (snd (killed b c x)) = (if snd x = 0 then fst x else snd (b c (fst x)))"
  by (auto simp: killed_def split_beta split: nat.splits prod.splits)

context evidence_backend
begin

lemma killed_evidence:
  "evidence_backend (killed b) (\<lambda>x. honest (fst x)) (\<lambda>c x. achieved c (fst x)) (\<lambda>x. safe (fst x))"
proof unfold_locales
  fix q c and s :: "'s \<times> nat"
  assume "honest (fst s)" "accepted q (c, fst (killed b c s))"
  then show "achieved c (fst (snd (killed b c s)))"
    using achieve by (auto simp: killed_cases accepted_def judge_def split: if_splits)
qed (simp_all add: killed_cases honest_call achieved_call safe_call safe_replace)

end

end
