(* ===== verification/Simulator.thy ===== *)
theory Simulator
  imports Publication
begin

text \<open>
  \<^verbatim>\<open>halofpx-context-store-publication-simulator.{h,cpp}\<close>: the deterministic backend with
  separate live and durable namespaces, failpoints before and after every operation, a
  bounded trace, attempt fencing, crashes and recovery.
  Every virtual method is one definition; \<^verbatim>\<open>sim_backend\<close> is the class as a publication
  backend, so the writer of \<^verbatim>\<open>Publication\<close> runs on it unchanged.
  Shown: publication is atomic under a crash after any call with any crash policy, a
  published generation is durable, a definite failure keeps the old generation, and an
  undisturbed run publishes.
\<close>

subsection \<open>State\<close>

datatype sim_operation =
    op_read_anchor | op_begin_attempt | op_stage_object | op_write_object | op_verify_object
  | op_sync_object_file | op_publish_object | op_sync_object_directory | op_stage_manifest
  | op_write_manifest | op_verify_manifest | op_sync_manifest_file | op_publish_manifest
  | op_sync_manifest_directory | op_replace_anchor | op_sync_anchor | op_close_attempt

datatype sim_phase = before_phase | after_phase

datatype collision = absent | equal | unequal

definition no_index :: nat where "no_index = 2 ^ 64 - 1"

definition max_attempt_history :: nat where "max_attempt_history = 128"

record failpoint =
  fp_enabled :: bool
  fp_operation :: sim_operation
  fp_index :: nat
  fp_phase :: sim_phase
  fp_result :: step_result

record trace_entry =
  te_operation :: sim_operation
  te_index :: nat
  te_phase :: sim_phase
  te_result :: step_result
  te_injected :: bool

record crash_policy =
  retain_unsynced_namespace :: bool
  retain_unsynced_anchor :: bool

datatype recovery = old_generation | new_generation | miss

record entry_state =
  temp_live :: bool
  temp_written :: bool
  temp_verified :: bool
  temp_durable :: bool
  published_live :: bool
  published_durable :: bool
  published_by_attempt :: bool
  destination :: collision

record simulator =
  sim_predecessor :: publication_anchor
  sim_next :: publication_anchor
  live_anchor :: publication_anchor
  durable_anchor :: publication_anchor
  verified_manifest_digest :: digest
  objects :: "entry_state list"
  manifest :: entry_state
  sim_failpoint :: failpoint
  trace :: "trace_entry list"
  garbage_count :: nat
  trace_limit :: nat
  sim_valid :: bool
  anchor_unsynced :: bool
  trace_overflowed :: bool
  predecessor_chain_valid :: bool
  active_attempt_id :: publication_id
  terminal_attempt_ids :: "publication_id list"
  attempt_active :: bool
  attempt_uncertain :: bool
  abandonment_uncertain :: bool

definition empty_entry :: entry_state where
  "empty_entry = \<lparr>temp_live = False, temp_written = False, temp_verified = False, temp_durable = False,
     published_live = False, published_durable = False, published_by_attempt = False, destination = absent\<rparr>"

definition empty_failpoint :: failpoint where
  "empty_failpoint = \<lparr>fp_enabled = False, fp_operation = op_read_anchor, fp_index = no_index,
     fp_phase = before_phase, fp_result = io_error\<rparr>"

definition new_simulator :: "publication_anchor \<Rightarrow> publication_anchor \<Rightarrow> nat \<Rightarrow> simulator" where
  "new_simulator predecessor nxt object_count =
     (let objs = replicate (if object_count \<le> publication_max_objects then object_count else 0) empty_entry in
      \<lparr>sim_predecessor = predecessor, sim_next = nxt, live_anchor = predecessor, durable_anchor = predecessor,
       verified_manifest_digest = (case anchor_body_of nxt of None \<Rightarrow> zero_digest
         | Some body \<Rightarrow> ab_selected_manifest_digest body),
       objects = objs, manifest = empty_entry, sim_failpoint = empty_failpoint, trace = [],
       garbage_count = 0, trace_limit = 2 * (2 + 6 * length objs + 6 + 3),
       sim_valid = (aa_authenticated predecessor \<and> aa_authenticated nxt \<and>
         object_count > 0 \<and> object_count \<le> publication_max_objects),
       anchor_unsynced = False, trace_overflowed = False, predecessor_chain_valid = True,
       active_attempt_id = zero_digest, terminal_attempt_ids = [], attempt_active = False,
       attempt_uncertain = False, abandonment_uncertain = False\<rparr>)"

subsection \<open>Configuration\<close>

definition set_failpoint :: "failpoint \<Rightarrow> simulator \<Rightarrow> simulator" where
  "set_failpoint fp m = m\<lparr>sim_failpoint := fp\<rparr>"

definition clear_failpoint :: "simulator \<Rightarrow> simulator" where
  "clear_failpoint m = m\<lparr>sim_failpoint := (sim_failpoint m)\<lparr>fp_enabled := False\<rparr>\<rparr>"

definition valid_object :: "simulator \<Rightarrow> nat \<Rightarrow> bool" where
  "valid_object m index \<longleftrightarrow> sim_valid m \<and> index < length (objects m)"

definition with_destination :: "collision \<Rightarrow> entry_state \<Rightarrow> entry_state" where
  "with_destination c e = e\<lparr>destination := c, published_live := (c \<noteq> absent),
     published_durable := (c \<noteq> absent), published_by_attempt := False\<rparr>"

definition set_object_destination :: "nat \<Rightarrow> collision \<Rightarrow> simulator \<Rightarrow> simulator" where
  "set_object_destination index c m =
     (if \<not> valid_object m index then m
      else m\<lparr>objects := (objects m)[index := with_destination c (objects m ! index)]\<rparr>)"

definition set_manifest_destination :: "collision \<Rightarrow> simulator \<Rightarrow> simulator" where
  "set_manifest_destination c m = m\<lparr>manifest := with_destination c (manifest m)\<rparr>"

definition set_verified_manifest_digest :: "digest \<Rightarrow> simulator \<Rightarrow> simulator" where
  "set_verified_manifest_digest d m = m\<lparr>verified_manifest_digest := d\<rparr>"

definition invalidate_predecessor_chain :: "simulator \<Rightarrow> simulator" where
  "invalidate_predecessor_chain m = m\<lparr>predecessor_chain_valid := False\<rparr>"

definition set_abandonment_uncertain :: "bool \<Rightarrow> simulator \<Rightarrow> simulator" where
  "set_abandonment_uncertain on m = m\<lparr>abandonment_uncertain := on\<rparr>"

subsection \<open>Failpoints and attempts\<close>

definition record_trace :: "sim_operation \<Rightarrow> nat \<Rightarrow> sim_phase \<Rightarrow> step_result \<Rightarrow> bool \<Rightarrow> simulator \<Rightarrow> simulator" where
  "record_trace op index phase result injected m = m\<lparr>trace := trace m @
     [\<lparr>te_operation = op, te_index = index, te_phase = phase, te_result = result, te_injected = injected\<rparr>]\<rparr>"

definition fires :: "failpoint \<Rightarrow> sim_operation \<Rightarrow> nat \<Rightarrow> sim_phase \<Rightarrow> bool" where
  "fires fp op index phase \<longleftrightarrow>
     fp_enabled fp \<and> fp_operation fp = op \<and> fp_index fp = index \<and> fp_phase fp = phase"

text \<open>\<^verbatim>\<open>before\<close> answers the result to return at once, or nothing when the operation goes on.\<close>

definition sim_before :: "sim_operation \<Rightarrow> nat \<Rightarrow> simulator \<Rightarrow> step_result option \<times> simulator" where
  "sim_before op index m =
     (if length (trace m) \<ge> trace_limit m
      then (Some step_result.storage_error, m\<lparr>trace_overflowed := True\<rparr>)
      else if fires (sim_failpoint m) op index before_phase
      then (Some (fp_result (sim_failpoint m)),
            record_trace op index before_phase (fp_result (sim_failpoint m)) True m)
      else (None, record_trace op index before_phase ok False m))"

definition sim_after :: "sim_operation \<Rightarrow> nat \<Rightarrow> step_result \<Rightarrow> simulator \<Rightarrow> step_result \<times> simulator" where
  "sim_after op index result m =
     (if length (trace m) \<ge> trace_limit m
      then (step_result.storage_error, m\<lparr>trace_overflowed := True\<rparr>)
      else if fires (sim_failpoint m) op index after_phase
      then let result = fp_result (sim_failpoint m);
               result = (if op = op_replace_anchor \<and> result = step_result.stale_predecessor
                         then interrupted else result)
           in (result, record_trace op index after_phase result True m)
      else (result, record_trace op index after_phase result False m))"

definition active_attempt :: "simulator \<Rightarrow> publication_id \<Rightarrow> bool" where
  "active_attempt m attempt \<longleftrightarrow>
     attempt_active m \<and> \<not> attempt_uncertain m \<and> attempt = active_attempt_id m"

definition attempt_seen :: "simulator \<Rightarrow> publication_id \<Rightarrow> bool" where
  "attempt_seen m attempt \<longleftrightarrow> list_ex (\<lambda>x. x = attempt) (terminal_attempt_ids m)"

definition record_terminal_attempt :: "publication_id \<Rightarrow> simulator \<Rightarrow> bool \<times> simulator" where
  "record_terminal_attempt attempt m =
     (if attempt_seen m attempt then (True, m)
      else if length (terminal_attempt_ids m) \<ge> max_attempt_history then (False, m)
      else (True, m\<lparr>terminal_attempt_ids := terminal_attempt_ids m @ [attempt]\<rparr>))"

subsection \<open>Operations\<close>

definition sim_read_anchor :: "simulator \<Rightarrow> (step_result \<times> publication_anchor) \<times> simulator" where
  "sim_read_anchor m =
     (case sim_before op_read_anchor no_index m of
        (Some r, m1) \<Rightarrow> ((r, empty_authenticated_anchor), m1)
      | (None, m1) \<Rightarrow>
          if \<not> sim_valid m1 \<or> \<not> predecessor_chain_valid m1
          then (case sim_after op_read_anchor no_index step_result.storage_error m1 of
                  (r, m2) \<Rightarrow> ((r, empty_authenticated_anchor), m2))
          else (case sim_after op_read_anchor no_index ok m1 of (r, m2) \<Rightarrow> ((r, live_anchor m1), m2)))"

definition sim_begin_attempt ::
    "publication_id \<Rightarrow> publication_anchor \<Rightarrow> publication_anchor \<Rightarrow> nat \<Rightarrow> simulator \<Rightarrow> step_result \<times> simulator" where
  "sim_begin_attempt attempt expected_predecessor nxt object_count m =
     (case sim_before op_begin_attempt no_index m of
        (Some r, m1) \<Rightarrow> (r, m1)
      | (None, m1) \<Rightarrow>
          if \<not> sim_valid m1 \<or> attempt = zero_digest \<or> attempt_seen m1 attempt \<or> attempt_active m1 \<or>
             attempt_uncertain m1 \<or> length (terminal_attempt_ids m1) \<ge> max_attempt_history
          then sim_after op_begin_attempt no_index step_result.attempt_fenced m1
          else if \<not> exact_anchor (live_anchor m1) expected_predecessor
          then sim_after op_begin_attempt no_index step_result.stale_predecessor m1
          else if \<not> exact_anchor expected_predecessor (sim_predecessor m1) \<or> \<not> exact_anchor nxt (sim_next m1) \<or>
             object_count \<noteq> length (objects m1)
          then sim_after op_begin_attempt no_index step_result.attempt_fenced m1
          else (case sim_after op_begin_attempt no_index ok m1 of
                  (final, m2) \<Rightarrow> (final, m2\<lparr>active_attempt_id := attempt, attempt_active := True,
                     attempt_uncertain := (final \<noteq> ok)\<rparr>)))"

text \<open>
  The methods on one object and on the manifest share a skeleton: the failpoint, the
  attempt, the precondition on the entry, then the effect with the result it reports.
\<close>

definition object_operation ::
    "sim_operation \<Rightarrow> (entry_state \<Rightarrow> bool) \<Rightarrow> (entry_state \<Rightarrow> step_result \<times> entry_state)
      \<Rightarrow> publication_id \<Rightarrow> nat \<Rightarrow> simulator \<Rightarrow> step_result \<times> simulator" where
  "object_operation op requires effect attempt index m =
     (case sim_before op index m of
        (Some r, m1) \<Rightarrow> (r, m1)
      | (None, m1) \<Rightarrow>
          if \<not> active_attempt m1 attempt then (step_result.attempt_fenced, m1)
          else if \<not> valid_object m1 index \<or> \<not> requires (objects m1 ! index)
          then sim_after op index step_result.storage_error m1
          else (case effect (objects m1 ! index) of
                  (r, e) \<Rightarrow> sim_after op index r (m1\<lparr>objects := (objects m1)[index := e]\<rparr>)))"

definition manifest_operation ::
    "sim_operation \<Rightarrow> (entry_state \<Rightarrow> bool) \<Rightarrow> (entry_state \<Rightarrow> step_result \<times> entry_state)
      \<Rightarrow> publication_id \<Rightarrow> simulator \<Rightarrow> step_result \<times> simulator" where
  "manifest_operation op requires effect attempt m =
     (case sim_before op no_index m of
        (Some r, m1) \<Rightarrow> (r, m1)
      | (None, m1) \<Rightarrow>
          if \<not> active_attempt m1 attempt then (step_result.attempt_fenced, m1)
          else if \<not> sim_valid m1 \<or> \<not> requires (manifest m1)
          then sim_after op no_index step_result.storage_error m1
          else (case effect (manifest m1) of
                  (r, e) \<Rightarrow> sim_after op no_index r (m1\<lparr>manifest := e\<rparr>)))"

definition publish_entry :: "entry_state \<Rightarrow> step_result \<times> entry_state" where
  "publish_entry e =
     (if destination e = unequal then (conflict, e)
      else if destination e = equal then (already_equal, e)
      else (ok, e\<lparr>published_live := True, published_by_attempt := True, temp_live := False,
                  temp_written := False, temp_verified := False, temp_durable := False\<rparr>))"

definition sim_stage_object :: "publication_id \<Rightarrow> nat \<Rightarrow> simulator \<Rightarrow> step_result \<times> simulator" where
  "sim_stage_object = object_operation op_stage_object (\<lambda>e. \<not> temp_live e) (\<lambda>e. (ok, e\<lparr>temp_live := True\<rparr>))"

definition sim_write_object :: "publication_id \<Rightarrow> nat \<Rightarrow> simulator \<Rightarrow> step_result \<times> simulator" where
  "sim_write_object = object_operation op_write_object temp_live (\<lambda>e. (ok, e\<lparr>temp_written := True\<rparr>))"

definition sim_verify_object :: "publication_id \<Rightarrow> nat \<Rightarrow> simulator \<Rightarrow> step_result \<times> simulator" where
  "sim_verify_object = object_operation op_verify_object temp_written (\<lambda>e. (ok, e\<lparr>temp_verified := True\<rparr>))"

definition sim_sync_object_file :: "publication_id \<Rightarrow> nat \<Rightarrow> simulator \<Rightarrow> step_result \<times> simulator" where
  "sim_sync_object_file = object_operation op_sync_object_file temp_verified (\<lambda>e. (ok, e\<lparr>temp_durable := True\<rparr>))"

definition sim_publish_object_no_replace :: "publication_id \<Rightarrow> nat \<Rightarrow> simulator \<Rightarrow> step_result \<times> simulator" where
  "sim_publish_object_no_replace = object_operation op_publish_object temp_durable publish_entry"

definition sim_sync_object_directory :: "publication_id \<Rightarrow> nat \<Rightarrow> simulator \<Rightarrow> step_result \<times> simulator" where
  "sim_sync_object_directory =
     object_operation op_sync_object_directory published_live (\<lambda>e. (ok, e\<lparr>published_durable := True\<rparr>))"

definition sim_stage_manifest :: "publication_id \<Rightarrow> simulator \<Rightarrow> step_result \<times> simulator" where
  "sim_stage_manifest = manifest_operation op_stage_manifest (\<lambda>e. \<not> temp_live e) (\<lambda>e. (ok, e\<lparr>temp_live := True\<rparr>))"

definition sim_write_manifest :: "publication_id \<Rightarrow> simulator \<Rightarrow> step_result \<times> simulator" where
  "sim_write_manifest = manifest_operation op_write_manifest temp_live (\<lambda>e. (ok, e\<lparr>temp_written := True\<rparr>))"

definition sim_verify_manifest :: "publication_id \<Rightarrow> simulator \<Rightarrow> (step_result \<times> digest) \<times> simulator" where
  "sim_verify_manifest attempt m =
     (case sim_before op_verify_manifest no_index m of
        (Some r, m1) \<Rightarrow> ((r, zero_digest), m1)
      | (None, m1) \<Rightarrow>
          if \<not> active_attempt m1 attempt then ((step_result.attempt_fenced, zero_digest), m1)
          else if \<not> sim_valid m1 \<or> \<not> temp_written (manifest m1)
          then (case sim_after op_verify_manifest no_index step_result.storage_error m1 of
                  (r, m2) \<Rightarrow> ((r, zero_digest), m2))
          else (case sim_after op_verify_manifest no_index ok
                       (m1\<lparr>manifest := (manifest m1)\<lparr>temp_verified := True\<rparr>\<rparr>) of
                  (r, m2) \<Rightarrow> ((r, verified_manifest_digest m1), m2)))"

definition sim_sync_manifest_file :: "publication_id \<Rightarrow> simulator \<Rightarrow> step_result \<times> simulator" where
  "sim_sync_manifest_file =
     manifest_operation op_sync_manifest_file temp_verified (\<lambda>e. (ok, e\<lparr>temp_durable := True\<rparr>))"

definition sim_publish_manifest_no_replace :: "publication_id \<Rightarrow> simulator \<Rightarrow> step_result \<times> simulator" where
  "sim_publish_manifest_no_replace = manifest_operation op_publish_manifest temp_durable publish_entry"

definition sim_sync_manifest_directory :: "publication_id \<Rightarrow> simulator \<Rightarrow> step_result \<times> simulator" where
  "sim_sync_manifest_directory =
     manifest_operation op_sync_manifest_directory published_live (\<lambda>e. (ok, e\<lparr>published_durable := True\<rparr>))"

definition sim_replace_anchor_atomically ::
    "publication_id \<Rightarrow> publication_anchor \<Rightarrow> publication_anchor \<Rightarrow> simulator \<Rightarrow> step_result \<times> simulator" where
  "sim_replace_anchor_atomically attempt expected_predecessor nxt m =
     (case sim_before op_replace_anchor no_index m of
        (Some r, m1) \<Rightarrow> (r, m1)
      | (None, m1) \<Rightarrow>
          if \<not> active_attempt m1 attempt \<or> \<not> published_durable (manifest m1) \<or> \<not> exact_anchor nxt (sim_next m1)
          then sim_after op_replace_anchor no_index step_result.storage_error m1
          else if \<not> exact_anchor (live_anchor m1) expected_predecessor
          then sim_after op_replace_anchor no_index step_result.stale_predecessor m1
          else sim_after op_replace_anchor no_index ok (m1\<lparr>live_anchor := nxt, anchor_unsynced := True\<rparr>))"

definition sim_sync_anchor :: "publication_id \<Rightarrow> publication_anchor \<Rightarrow> simulator \<Rightarrow> step_result \<times> simulator" where
  "sim_sync_anchor attempt nxt m =
     (case sim_before op_sync_anchor no_index m of
        (Some r, m1) \<Rightarrow> (r, m1)
      | (None, m1) \<Rightarrow>
          if \<not> active_attempt m1 attempt then (step_result.attempt_fenced, m1)
          else if \<not> sim_valid m1 \<or> \<not> anchor_unsynced m1 \<or> \<not> exact_anchor nxt (sim_next m1) \<or>
             \<not> exact_anchor (live_anchor m1) (sim_next m1)
          then sim_after op_sync_anchor no_index step_result.sync_error m1
          else sim_after op_sync_anchor no_index ok
                 (m1\<lparr>durable_anchor := live_anchor m1, anchor_unsynced := False\<rparr>))"

definition sim_close_durable_attempt ::
    "publication_id \<Rightarrow> publication_anchor \<Rightarrow> simulator \<Rightarrow> step_result \<times> simulator" where
  "sim_close_durable_attempt attempt nxt m =
     (case sim_before op_close_attempt no_index m of
        (Some r, m1) \<Rightarrow> (r, m1)
      | (None, m1) \<Rightarrow>
          if \<not> active_attempt m1 attempt \<or> \<not> exact_anchor nxt (sim_next m1) \<or>
             \<not> exact_anchor (durable_anchor m1) (sim_next m1)
          then sim_after op_close_attempt no_index step_result.attempt_fenced m1
          else (case sim_after op_close_attempt no_index ok m1 of
                  (final, m2) \<Rightarrow>
                    if final \<noteq> ok then (final, m2\<lparr>attempt_uncertain := True\<rparr>)
                    else (case record_terminal_attempt attempt m2 of
                       (recorded, m3) \<Rightarrow>
                         if \<not> recorded then (interrupted, m3\<lparr>attempt_uncertain := True\<rparr>)
                         else (final, m3\<lparr>active_attempt_id := zero_digest, attempt_active := False\<rparr>))))"

definition discard_temp :: "entry_state \<Rightarrow> nat \<Rightarrow> entry_state \<times> nat" where
  "discard_temp e garbage =
     (e\<lparr>temp_live := False, temp_written := False, temp_verified := False, temp_durable := False\<rparr>,
      if temp_live e then garbage + 1 else garbage)"

fun discard_temps :: "entry_state list \<Rightarrow> nat \<Rightarrow> entry_state list \<times> nat" where
  "discard_temps [] garbage = ([], garbage)"
| "discard_temps (e # es) garbage =
     (case discard_temp e garbage of (e1, g1) \<Rightarrow> (case discard_temps es g1 of (es1, g2) \<Rightarrow> (e1 # es1, g2)))"

definition discard_all :: "simulator \<Rightarrow> simulator" where
  "discard_all m =
     (case discard_temps (objects m) (garbage_count m) of (objs, g1) \<Rightarrow>
        (case discard_temp (manifest m) g1 of (e, g2) \<Rightarrow>
           m\<lparr>objects := objs, manifest := e, garbage_count := g2\<rparr>))"

definition sim_abandon_attempt :: "publication_id \<Rightarrow> simulator \<Rightarrow> step_result \<times> simulator" where
  "sim_abandon_attempt attempt m =
     (if \<not> active_attempt m attempt \<or> anchor_unsynced m then (step_result.attempt_fenced, m)
      else if abandonment_uncertain m then (interrupted, m\<lparr>attempt_uncertain := True\<rparr>)
      else (case record_terminal_attempt attempt m of
         (recorded, m1) \<Rightarrow>
           if \<not> recorded then (interrupted, m1\<lparr>attempt_uncertain := True\<rparr>)
           else (ok, discard_all (m1\<lparr>active_attempt_id := zero_digest, attempt_active := False\<rparr>))))"

definition sim_fence_attempt_uncertain :: "publication_id \<Rightarrow> simulator \<Rightarrow> step_result \<times> simulator" where
  "sim_fence_attempt_uncertain attempt m =
     (if attempt = zero_digest then (step_result.attempt_fenced, m)
      else (ok, (if \<not> attempt_active m then m\<lparr>active_attempt_id := attempt, attempt_active := True\<rparr> else m)
              \<lparr>attempt_uncertain := True\<rparr>))"

subsection \<open>Crash and recovery\<close>

definition crash_entry :: "crash_policy \<Rightarrow> entry_state \<Rightarrow> entry_state" where
  "crash_entry policy e =
     (if \<not> published_durable e
      then let live = (retain_unsynced_namespace policy \<and> published_live e)
           in e\<lparr>published_live := live, published_durable := live\<rparr>
      else e\<lparr>published_live := True\<rparr>)"

definition crash :: "crash_policy \<Rightarrow> simulator \<Rightarrow> simulator" where
  "crash policy m =
     (let m1 = (if attempt_active m
                then (snd (record_terminal_attempt (active_attempt_id m) m))
                       \<lparr>active_attempt_id := zero_digest, attempt_active := False, attempt_uncertain := True\<rparr>
                else m);
          m2 = discard_all m1;
          m3 = m2\<lparr>objects := map (crash_entry policy) (objects m2), manifest := crash_entry policy (manifest m2)\<rparr>;
          m4 = (if anchor_unsynced m3 \<and> retain_unsynced_anchor policy
                then m3\<lparr>durable_anchor := live_anchor m3\<rparr> else m3\<lparr>live_anchor := durable_anchor m3\<rparr>)
      in m4\<lparr>anchor_unsynced := False\<rparr>)"

definition entry_selected :: "entry_state \<Rightarrow> bool" where
  "entry_selected e \<longleftrightarrow> published_live e \<and> destination e \<noteq> unequal"

definition recover :: "simulator \<Rightarrow> recovery" where
  "recover m =
     (if \<not> predecessor_chain_valid m then miss
      else if exact_anchor (live_anchor m) (sim_predecessor m) then old_generation
      else if \<not> exact_anchor (live_anchor m) (sim_next m) \<or> \<not> entry_selected (manifest m) then miss
      else if list_all entry_selected (objects m) then new_generation
      else miss)"

definition retained_garbage_count :: "simulator \<Rightarrow> nat" where
  "retained_garbage_count m =
     (if recover m \<noteq> new_generation
      then garbage_count m
        + length (filter (\<lambda>e. published_live e \<and> published_by_attempt e) (objects m))
        + (if published_live (manifest m) \<and> published_by_attempt (manifest m) then 1 else 0)
      else garbage_count m)"

subsection \<open>The simulator as a backend\<close>

definition step_only :: "step_result \<times> simulator \<Rightarrow> reply \<times> simulator" where
  "step_only x = (case x of (r, m) \<Rightarrow> (Reply r empty_authenticated_anchor zero_digest, m))"

fun sim_backend :: "simulator publication_backend" where
  "sim_backend read_anchor m =
     (case sim_read_anchor m of ((r, a), m1) \<Rightarrow> (Reply r a zero_digest, m1))"
| "sim_backend (begin_attempt a p n k) m = step_only (sim_begin_attempt a p n k m)"
| "sim_backend (stage_object a i) m = step_only (sim_stage_object a i m)"
| "sim_backend (write_object a i) m = step_only (sim_write_object a i m)"
| "sim_backend (verify_object a i) m = step_only (sim_verify_object a i m)"
| "sim_backend (sync_object_file a i) m = step_only (sim_sync_object_file a i m)"
| "sim_backend (publish_object_no_replace a i) m = step_only (sim_publish_object_no_replace a i m)"
| "sim_backend (sync_object_directory a i) m = step_only (sim_sync_object_directory a i m)"
| "sim_backend (stage_manifest a) m = step_only (sim_stage_manifest a m)"
| "sim_backend (write_manifest a) m = step_only (sim_write_manifest a m)"
| "sim_backend (verify_manifest a) m =
     (case sim_verify_manifest a m of ((r, d), m1) \<Rightarrow> (Reply r empty_authenticated_anchor d, m1))"
| "sim_backend (sync_manifest_file a) m = step_only (sim_sync_manifest_file a m)"
| "sim_backend (publish_manifest_no_replace a) m = step_only (sim_publish_manifest_no_replace a m)"
| "sim_backend (sync_manifest_directory a) m = step_only (sim_sync_manifest_directory a m)"
| "sim_backend (replace_anchor_atomically a p n) m = step_only (sim_replace_anchor_atomically a p n m)"
| "sim_backend (sync_anchor a n) m = step_only (sim_sync_anchor a n m)"
| "sim_backend (close_durable_attempt a n) m = step_only (sim_close_durable_attempt a n m)"
| "sim_backend (abandon_attempt a) m = step_only (sim_abandon_attempt a m)"
| "sim_backend (fence_attempt_uncertain a) m = step_only (sim_fence_attempt_uncertain a m)"

subsection \<open>What every operation keeps\<close>

definition entry_keeps :: "entry_state \<Rightarrow> entry_state \<Rightarrow> bool" where
  "entry_keeps e f \<longleftrightarrow> destination f = destination e \<and>
     (published_live e \<longrightarrow> published_live f) \<and> (published_durable e \<longrightarrow> published_durable f)"

definition keeps :: "simulator \<Rightarrow> simulator \<Rightarrow> bool" where
  "keeps m t \<longleftrightarrow> sim_predecessor t = sim_predecessor m \<and> sim_next t = sim_next m \<and>
     sim_valid t = sim_valid m \<and> sim_failpoint t = sim_failpoint m \<and>
     predecessor_chain_valid t = predecessor_chain_valid m \<and>
     set (terminal_attempt_ids m) \<subseteq> set (terminal_attempt_ids t) \<and>
     (attempt_uncertain m \<longrightarrow> attempt_uncertain t) \<and>
     list_all2 entry_keeps (objects m) (objects t) \<and> entry_keeps (manifest m) (manifest t)"

definition same_anchors :: "simulator \<Rightarrow> simulator \<Rightarrow> bool" where
  "same_anchors m t \<longleftrightarrow> live_anchor t = live_anchor m \<and> durable_anchor t = durable_anchor m \<and>
     anchor_unsynced t = anchor_unsynced m"

lemma entry_keeps_refl [simp, intro]: "entry_keeps e e"
  by (simp add: entry_keeps_def)

lemma entry_keeps_trans [trans]: "entry_keeps e f \<Longrightarrow> entry_keeps f g \<Longrightarrow> entry_keeps e g"
  by (simp add: entry_keeps_def)

lemma keeps_refl [simp, intro]: "keeps m m"
  by (simp add: keeps_def list_all2_refl)

lemma keeps_trans [trans]: "keeps m t \<Longrightarrow> keeps t u \<Longrightarrow> keeps m u"
  unfolding keeps_def by (auto intro: entry_keeps_trans list_all2_trans[where ?P1.0 = entry_keeps and ?P2.0 = entry_keeps])

lemma same_anchors_refl [simp, intro]: "same_anchors m m"
  by (simp add: same_anchors_def)

lemma same_anchors_trans [trans]: "same_anchors m t \<Longrightarrow> same_anchors t u \<Longrightarrow> same_anchors m u"
  by (simp add: same_anchors_def)

lemma sim_before_frame:
  assumes "sim_before op i m = (r, t)"
  shows "keeps m t" "same_anchors m t" "objects t = objects m" "manifest t = manifest m"
    "attempt_active t = attempt_active m" "attempt_uncertain t = attempt_uncertain m"
    "active_attempt_id t = active_attempt_id m" "terminal_attempt_ids t = terminal_attempt_ids m"
    "abandonment_uncertain t = abandonment_uncertain m"
    "sim_valid t = sim_valid m" "verified_manifest_digest t = verified_manifest_digest m"
  using assms
  by (auto simp: sim_before_def record_trace_def keeps_def same_anchors_def list_all2_refl split: if_splits)

lemma sim_after_frame:
  assumes "sim_after op i x m = (r, t)"
  shows "keeps m t" "same_anchors m t" "objects t = objects m" "manifest t = manifest m"
    "attempt_active t = attempt_active m" "attempt_uncertain t = attempt_uncertain m"
    "active_attempt_id t = active_attempt_id m" "terminal_attempt_ids t = terminal_attempt_ids m"
    "abandonment_uncertain t = abandonment_uncertain m"
    "sim_valid t = sim_valid m" "verified_manifest_digest t = verified_manifest_digest m"
  using assms
  by (auto simp: sim_after_def record_trace_def keeps_def same_anchors_def list_all2_refl Let_def split: if_splits)

lemma list_all2_update_same:
  "entry_keeps (es ! i) e \<Longrightarrow> list_all2 entry_keeps es (es[i := e])"
proof -
  assume "entry_keeps (es ! i) e"
  then have "entry_keeps (es ! j) (es[i := e] ! j)" if "j < length es" for j
    using that by (cases "i = j") simp_all
  then show ?thesis by (simp add: list_all2_conv_all_nth)
qed

lemma sim_after_keeps:
  "keeps m t \<Longrightarrow> keeps m (snd (sim_after op i x t))"
  "same_anchors m t \<Longrightarrow> same_anchors m (snd (sim_after op i x t))"
  using sim_after_frame(1,2)[OF surjective_pairing] keeps_trans same_anchors_trans by blast+

lemma object_operation_keeps:
  assumes "\<And>e. entry_keeps e (snd (effect e))"
  shows "keeps m (snd (object_operation op requires effect a i m))"
    and "same_anchors m (snd (object_operation op requires effect a i m))"
proof -
  obtain r m1 where b: "sim_before op i m = (r, m1)" by force
  note frame = sim_before_frame[OF b]
  obtain x e where x: "effect (objects m1 ! i) = (x, e)" by force
  let ?m2 = "m1\<lparr>objects := (objects m1)[i := e]\<rparr>"
  have e: "entry_keeps (objects m1 ! i) e"
    using assms[of "objects m1 ! i"] x by simp
  then have "keeps m1 ?m2" "same_anchors m1 ?m2"
    by (auto simp: keeps_def same_anchors_def list_all2_update_same)
  then have 1: "keeps m (snd (sim_after op i x ?m2))" "same_anchors m (snd (sim_after op i x ?m2))"
    using frame(1,2) by (auto intro: sim_after_keeps keeps_trans same_anchors_trans)
  have 2: "keeps m (snd (sim_after op i x m1))" "same_anchors m (snd (sim_after op i x m1))" for x
    using frame(1,2) by (auto intro: sim_after_keeps)
  show "keeps m (snd (object_operation op requires effect a i m))"
    and "same_anchors m (snd (object_operation op requires effect a i m))"
    using b x 1 2 frame by (auto simp: object_operation_def split: option.splits)
qed

lemma manifest_operation_keeps:
  assumes "\<And>e. entry_keeps e (snd (effect e))"
  shows "keeps m (snd (manifest_operation op requires effect a m))"
    and "same_anchors m (snd (manifest_operation op requires effect a m))"
proof -
  obtain r m1 where b: "sim_before op no_index m = (r, m1)" by force
  note frame = sim_before_frame[OF b]
  obtain x e where x: "effect (manifest m1) = (x, e)" by force
  let ?m2 = "m1\<lparr>manifest := e\<rparr>"
  have e: "entry_keeps (manifest m1) e"
    using assms[of "manifest m1"] x by simp
  then have "keeps m1 ?m2" "same_anchors m1 ?m2"
    by (auto simp: keeps_def same_anchors_def list_all2_refl)
  then have 1: "keeps m (snd (sim_after op no_index x ?m2))" "same_anchors m (snd (sim_after op no_index x ?m2))"
    using frame(1,2) by (auto intro: sim_after_keeps keeps_trans same_anchors_trans)
  have 2: "keeps m (snd (sim_after op no_index x m1))" "same_anchors m (snd (sim_after op no_index x m1))" for x
    using frame(1,2) by (auto intro: sim_after_keeps)
  show "keeps m (snd (manifest_operation op requires effect a m))"
    and "same_anchors m (snd (manifest_operation op requires effect a m))"
    using b x 1 2 frame by (auto simp: manifest_operation_def split: option.splits)
qed


lemma record_terminal_frame:
  assumes "record_terminal_attempt a m = (r, t)"
  shows "keeps m t" "same_anchors m t" "objects t = objects m" "manifest t = manifest m"
    "garbage_count t = garbage_count m" "attempt_uncertain t = attempt_uncertain m"
    "set (terminal_attempt_ids m) \<subseteq> set (terminal_attempt_ids t)"
    "r \<Longrightarrow> a \<in> set (terminal_attempt_ids t)"
  using assms
  by (auto simp: record_terminal_attempt_def attempt_seen_def list_ex_iff keeps_def same_anchors_def list_all2_refl
    split: if_splits)

lemma discard_temps_keeps: "list_all2 entry_keeps es (fst (discard_temps es g))"
  by (induction es arbitrary: g) (simp_all add: discard_temp_def entry_keeps_def split_beta)

lemma discard_all_frame:
  "keeps m (discard_all m)" "same_anchors m (discard_all m)"
  "attempt_uncertain (discard_all m) = attempt_uncertain m"
  "terminal_attempt_ids (discard_all m) = terminal_attempt_ids m"
  "attempt_active (discard_all m) = attempt_active m"
  using discard_temps_keeps[of "objects m" "garbage_count m"]
  by (auto simp: discard_all_def keeps_def same_anchors_def discard_temp_def entry_keeps_def split: prod.splits)

lemma publish_entry_keeps: "entry_keeps e (snd (publish_entry e))"
  by (simp add: publish_entry_def entry_keeps_def)

lemmas entry_operations = sim_stage_object_def sim_write_object_def sim_verify_object_def
  sim_sync_object_file_def sim_publish_object_no_replace_def sim_sync_object_directory_def
  sim_stage_manifest_def sim_write_manifest_def sim_sync_manifest_file_def
  sim_publish_manifest_no_replace_def sim_sync_manifest_directory_def

text \<open>The calls that touch neither the anchors nor the attempt.\<close>

fun entry_call :: "publication_call \<Rightarrow> bool" where
  "entry_call (stage_object _ _) = True"
| "entry_call (write_object _ _) = True"
| "entry_call (verify_object _ _) = True"
| "entry_call (sync_object_file _ _) = True"
| "entry_call (publish_object_no_replace _ _) = True"
| "entry_call (sync_object_directory _ _) = True"
| "entry_call (stage_manifest _) = True"
| "entry_call (write_manifest _) = True"
| "entry_call (verify_manifest _) = True"
| "entry_call (sync_manifest_file _) = True"
| "entry_call (publish_manifest_no_replace _) = True"
| "entry_call (sync_manifest_directory _) = True"
| "entry_call read_anchor = True"
| "entry_call _ = False"

lemma snd_step_only [simp]: "snd (step_only x) = snd x"
  by (simp add: step_only_def split: prod.splits)

lemma sim_verify_manifest_frame:
  "keeps m (snd (sim_verify_manifest a m))" "same_anchors m (snd (sim_verify_manifest a m))"
proof -
  obtain r m1 where b: "sim_before op_verify_manifest no_index m = (r, m1)" by force
  note frame = sim_before_frame(1,2)[OF b]
  let ?m2 = "m1\<lparr>manifest := (manifest m1)\<lparr>temp_verified := True\<rparr>\<rparr>"
  have "keeps m1 ?m2" "same_anchors m1 ?m2"
    by (auto simp: keeps_def same_anchors_def list_all2_refl entry_keeps_def)
  then have "keeps m ?m2" "same_anchors m ?m2"
    using frame keeps_trans same_anchors_trans by blast+
  then show "keeps m (snd (sim_verify_manifest a m))" "same_anchors m (snd (sim_verify_manifest a m))"
    using b frame sim_after_keeps[of m m1] sim_after_keeps[of m ?m2]
    by (auto simp: sim_verify_manifest_def split: option.splits prod.splits) (metis snd_conv)+
qed

lemma sim_read_anchor_frame:
  "keeps m (snd (sim_read_anchor m))" "same_anchors m (snd (sim_read_anchor m))"
proof -
  obtain r m1 where b: "sim_before op_read_anchor no_index m = (r, m1)" by force
  note frame = sim_before_frame(1,2)[OF b]
  show "keeps m (snd (sim_read_anchor m))" "same_anchors m (snd (sim_read_anchor m))"
    using b frame sim_after_keeps[of m m1]
    by (auto simp: sim_read_anchor_def split: option.splits prod.splits) (metis snd_conv)+
qed

lemma entry_call_frame:
  assumes "entry_call c"
  shows "keeps m (snd (sim_backend c m)) \<and> same_anchors m (snd (sim_backend c m))"
proof -
  note obj = object_operation_keeps and man = manifest_operation_keeps
  show ?thesis
    using assms
    by (cases c)
      (auto simp: entry_operations entry_keeps_def publish_entry_keeps[unfolded entry_keeps_def]
        sim_verify_manifest_frame sim_read_anchor_frame split_beta intro!: obj man)
qed


text \<open>
  The remaining calls: all keep the namespaces; only \<^verbatim>\<open>replace_anchor_atomically\<close> moves the
  live anchor and only \<^verbatim>\<open>sync_anchor\<close> the durable one.
\<close>

lemma sim_begin_frame:
  "keeps m (snd (sim_begin_attempt a p n k m)) \<and> same_anchors m (snd (sim_begin_attempt a p n k m))"
proof -
  obtain r m1 where b: "sim_before op_begin_attempt no_index m = (r, m1)" by force
  note frame = sim_before_frame(1,2)[OF b]
  have upd: "\<not> attempt_uncertain m \<Longrightarrow> keeps m t \<Longrightarrow>
      keeps m (t\<lparr>active_attempt_id := x, attempt_active := True, attempt_uncertain := y\<rparr>)"
    "same_anchors m (t\<lparr>active_attempt_id := x, attempt_active := True, attempt_uncertain := y\<rparr>) = same_anchors m t"
    for t x y by (simp_all add: keeps_def same_anchors_def)
  show ?thesis
    using b frame sim_before_frame(6)[OF b]
    by (auto simp: sim_begin_attempt_def split_beta upd sim_after_keeps split: option.splits)
qed

lemma sim_replace_frame:
  "keeps m (snd (sim_replace_anchor_atomically a p n m))"
  "durable_anchor (snd (sim_replace_anchor_atomically a p n m)) = durable_anchor m"
  "same_anchors m (snd (sim_replace_anchor_atomically a p n m)) \<or>
     (live_anchor (snd (sim_replace_anchor_atomically a p n m)) = n \<and> exact_anchor n (sim_next m) \<and>
      anchor_unsynced (snd (sim_replace_anchor_atomically a p n m)))"
proof -
  obtain r m1 where b: "sim_before op_replace_anchor no_index m = (r, m1)" by force
  note frame = sim_before_frame(1,2)[OF b]
  let ?m2 = "m1\<lparr>live_anchor := n, anchor_unsynced := True\<rparr>"
  have k: "keeps m ?m2" "sim_next m1 = sim_next m" "durable_anchor m1 = durable_anchor m"
    using frame by (simp_all add: keeps_def same_anchors_def)
  have after: "live_anchor (snd (sim_after op i x t)) = live_anchor t"
    "durable_anchor (snd (sim_after op i x t)) = durable_anchor t"
    "anchor_unsynced (snd (sim_after op i x t)) = anchor_unsynced t" for op i x t
    using sim_after_keeps(2)[OF same_anchors_refl, of t op i x] by (simp_all add: same_anchors_def)
  show "keeps m (snd (sim_replace_anchor_atomically a p n m))"
    "durable_anchor (snd (sim_replace_anchor_atomically a p n m)) = durable_anchor m"
    "same_anchors m (snd (sim_replace_anchor_atomically a p n m)) \<or>
     (live_anchor (snd (sim_replace_anchor_atomically a p n m)) = n \<and> exact_anchor n (sim_next m) \<and>
      anchor_unsynced (snd (sim_replace_anchor_atomically a p n m)))"
    using b frame k by (auto simp: sim_replace_anchor_atomically_def sim_after_keeps after split: option.splits)
qed

lemma sim_sync_anchor_frame:
  "keeps m (snd (sim_sync_anchor a n m))"
  "live_anchor (snd (sim_sync_anchor a n m)) = live_anchor m"
  "durable_anchor (snd (sim_sync_anchor a n m)) \<in> {durable_anchor m, live_anchor m}"
proof -
  obtain r m1 where b: "sim_before op_sync_anchor no_index m = (r, m1)" by force
  note frame = sim_before_frame(1,2)[OF b]
  let ?m2 = "m1\<lparr>durable_anchor := live_anchor m1, anchor_unsynced := False\<rparr>"
  have k: "keeps m ?m2" "live_anchor m1 = live_anchor m" "durable_anchor m1 = durable_anchor m"
    using frame by (simp_all add: keeps_def same_anchors_def)
  have after: "live_anchor (snd (sim_after op i x t)) = live_anchor t"
    "durable_anchor (snd (sim_after op i x t)) = durable_anchor t" for op i x t
    using sim_after_keeps(2)[OF same_anchors_refl, of t op i x] by (simp_all add: same_anchors_def)
  show "keeps m (snd (sim_sync_anchor a n m))"
    "live_anchor (snd (sim_sync_anchor a n m)) = live_anchor m"
    "durable_anchor (snd (sim_sync_anchor a n m)) \<in> {durable_anchor m, live_anchor m}"
    using b frame k by (auto simp: sim_sync_anchor_def sim_after_keeps after split: option.splits)
qed

lemma sim_close_frame:
  "keeps m (snd (sim_close_durable_attempt a n m)) \<and> same_anchors m (snd (sim_close_durable_attempt a n m))"
proof -
  obtain r m1 where b: "sim_before op_close_attempt no_index m = (r, m1)" by force
  note frame = sim_before_frame(1,2)[OF b]
  have upd: "keeps m t \<Longrightarrow> keeps m (t\<lparr>attempt_uncertain := True\<rparr>)"
    "same_anchors m (t\<lparr>attempt_uncertain := True\<rparr>) = same_anchors m t"
    "keeps m (t\<lparr>active_attempt_id := x, attempt_active := y\<rparr>) = keeps m t"
    "same_anchors m (t\<lparr>active_attempt_id := x, attempt_active := y\<rparr>) = same_anchors m t" for t x y
    by (simp_all add: keeps_def same_anchors_def)
  have rec: "keeps m (snd (record_terminal_attempt a t))" if "keeps m t" for t
    using record_terminal_frame(1)[OF surjective_pairing, of t a] that keeps_trans by blast
  have rec2: "same_anchors m (snd (record_terminal_attempt a t))" if "same_anchors m t" for t
    using record_terminal_frame(2)[OF surjective_pairing, of t a] that same_anchors_trans by blast
  show ?thesis
    using b frame
    by (auto simp: sim_close_durable_attempt_def split_beta upd sim_after_keeps rec rec2 split: option.splits)
qed

lemma sim_abandon_frame:
  "keeps m (snd (sim_abandon_attempt a m)) \<and> same_anchors m (snd (sim_abandon_attempt a m))"
proof -
  note rec = record_terminal_frame(1,2)[OF surjective_pairing, of m a]
  let ?t = "(snd (record_terminal_attempt a m))\<lparr>active_attempt_id := zero_digest, attempt_active := False\<rparr>"
  have "keeps m ?t" "same_anchors m ?t"
    using rec by (simp_all add: keeps_def same_anchors_def)
  then have "keeps m (discard_all ?t)" "same_anchors m (discard_all ?t)"
    using discard_all_frame(1,2) keeps_trans same_anchors_trans by blast+
  then show ?thesis
    using rec by (auto simp: sim_abandon_attempt_def split_beta keeps_def same_anchors_def list_all2_refl)
qed

lemma sim_fence_frame:
  "keeps m (snd (sim_fence_attempt_uncertain a m)) \<and> same_anchors m (snd (sim_fence_attempt_uncertain a m))"
  by (auto simp: sim_fence_attempt_uncertain_def keeps_def same_anchors_def list_all2_refl)

lemma sim_backend_keeps: "keeps m (snd (sim_backend c m))"
proof (cases "entry_call c")
  case False
  then show ?thesis
    by (cases c) (simp_all add: sim_begin_frame sim_replace_frame sim_sync_anchor_frame sim_close_frame
      sim_abandon_frame sim_fence_frame)
qed (simp add: entry_call_frame)

fun moves_anchor :: "publication_call \<Rightarrow> bool" where
  "moves_anchor (replace_anchor_atomically _ _ _) = True"
| "moves_anchor (sync_anchor _ _) = True"
| "moves_anchor _ = False"

lemma sim_backend_same_anchors: "\<not> moves_anchor c \<Longrightarrow> same_anchors m (snd (sim_backend c m))"
proof (cases "entry_call c")
  case False
  then show "\<not> moves_anchor c \<Longrightarrow> ?thesis"
    by (cases c) (simp_all add: sim_begin_frame sim_close_frame sim_abandon_frame sim_fence_frame)
qed (simp add: entry_call_frame)


subsection \<open>Evidence\<close>

text \<open>A failpoint is honest when it does not inject a success.\<close>

definition honest_failpoint :: "simulator \<Rightarrow> bool" where
  "honest_failpoint m \<longleftrightarrow> fp_enabled (sim_failpoint m) \<longrightarrow> fp_result (sim_failpoint m) \<notin> {ok, already_equal}"

fun evidence :: "publication_call \<Rightarrow> simulator \<Rightarrow> bool" where
  "evidence (begin_attempt a p n k) m = (k = length (objects m))"
| "evidence (publish_object_no_replace a i) m = (i < length (objects m) \<and> destination (objects m ! i) \<noteq> unequal)"
| "evidence (sync_object_directory a i) m = (i < length (objects m) \<and>
     published_live (objects m ! i) \<and> published_durable (objects m ! i))"
| "evidence (publish_manifest_no_replace a) m = (destination (manifest m) \<noteq> unequal)"
| "evidence (sync_manifest_directory a) m = (published_live (manifest m) \<and> published_durable (manifest m))"
| "evidence (close_durable_attempt a n) m = (a \<in> set (terminal_attempt_ids m))"
| "evidence (sync_anchor a n) m =
     (exact_anchor (live_anchor m) (sim_next m) \<and> exact_anchor (durable_anchor m) (sim_next m))"
| "evidence c m = True"

lemma keeps_honest: "keeps m t \<Longrightarrow> honest_failpoint t = honest_failpoint m"
  by (simp add: keeps_def honest_failpoint_def)

lemma keeps_evidence: "keeps m t \<Longrightarrow> evidence c m \<Longrightarrow> \<not> moves_anchor c \<Longrightarrow> evidence c t"
  by (cases c) (auto simp: keeps_def entry_keeps_def list_all2_conv_all_nth)

lemma sim_before_honest:
  "sim_before op i m = (Some r, t) \<Longrightarrow> honest_failpoint m \<Longrightarrow> r \<noteq> ok \<and> r \<noteq> already_equal"
  by (auto simp: sim_before_def honest_failpoint_def fires_def split: if_splits)

lemma sim_after_honest:
  "sim_after op i x m = (r, t) \<Longrightarrow> honest_failpoint m \<Longrightarrow> r = ok \<or> r = already_equal \<Longrightarrow> r = x"
  by (auto simp: sim_after_def honest_failpoint_def fires_def Let_def split: if_splits)

lemma object_operation_success:
  assumes "object_operation op requires effect a i m = (r, t)" "honest_failpoint m" "completed r eq"
  obtains e where "i < length (objects m)" "requires (objects m ! i)" "effect (objects m ! i) = (r, e)"
    "objects t = (objects m)[i := e]"
proof -
  have r: "r = ok \<or> r = already_equal" using assms(3) by (auto simp: completed_def)
  obtain x m1 where b: "sim_before op i m = (x, m1)" by force
  have h: "honest_failpoint m1" using assms(2) keeps_honest[OF sim_before_frame(1)[OF b]] by simp
  note frame = sim_before_frame[OF b]
  have "x = None"
    using assms(1,2) b r sim_before_honest[of op i m] by (cases x) (auto simp: object_operation_def)
  obtain y e where y: "effect (objects m1 ! i) = (y, e)" by force
  let ?m2 = "m1\<lparr>objects := (objects m1)[i := e]\<rparr>"
  have h2: "honest_failpoint ?m2" using h by (simp add: honest_failpoint_def)
  have fail: "sim_after op i step_result.storage_error m1 \<noteq> (r, t)"
    using sim_after_honest[of op i step_result.storage_error m1 r t] h r by auto
  have "valid_object m1 i" "requires (objects m1 ! i)" "sim_after op i y ?m2 = (r, t)"
    using assms(1) b \<open>x = None\<close> y fail r by (auto simp: object_operation_def split: if_splits)
  moreover from this(3) have "y = r" "objects t = (objects m1)[i := e]"
    using sim_after_honest[of op i y ?m2 r t] sim_after_frame(3)[of op i y ?m2 r t] h2 r by auto
  ultimately show ?thesis
    using that y frame(3) by (auto simp: valid_object_def)
qed

lemma manifest_operation_success:
  assumes "manifest_operation op requires effect a m = (r, t)" "honest_failpoint m" "completed r eq"
  obtains e where "requires (manifest m)" "effect (manifest m) = (r, e)" "manifest t = e"
proof -
  have r: "r = ok \<or> r = already_equal" using assms(3) by (auto simp: completed_def)
  obtain x m1 where b: "sim_before op no_index m = (x, m1)" by force
  have h: "honest_failpoint m1" using assms(2) keeps_honest[OF sim_before_frame(1)[OF b]] by simp
  note frame = sim_before_frame[OF b]
  have "x = None"
    using assms(1,2) b r sim_before_honest[of op no_index m] by (cases x) (auto simp: manifest_operation_def)
  obtain y e where y: "effect (manifest m1) = (y, e)" by force
  let ?m2 = "m1\<lparr>manifest := e\<rparr>"
  have h2: "honest_failpoint ?m2" using h by (simp add: honest_failpoint_def)
  have fail: "sim_after op no_index step_result.storage_error m1 \<noteq> (r, t)"
    using sim_after_honest[of op no_index step_result.storage_error m1 r t] h r by auto
  have "requires (manifest m1)" "sim_after op no_index y ?m2 = (r, t)"
    using assms(1) b \<open>x = None\<close> y fail r by (auto simp: manifest_operation_def split: if_splits)
  moreover from this(2) have "y = r" "manifest t = e"
    using sim_after_honest[of op no_index y ?m2 r t] sim_after_frame(4)[of op no_index y ?m2 r t] h2 r by auto
  ultimately show ?thesis
    using that y frame(4) by auto
qed

lemma sim_begin_success:
  assumes "sim_begin_attempt a p n k m = (ok, t)" "honest_failpoint m"
  shows "k = length (objects m)"
proof -
  obtain x m1 where b: "sim_before op_begin_attempt no_index m = (x, m1)" by force
  note frame = sim_before_frame[OF b]
  have h: "honest_failpoint m1" using assms(2) keeps_honest[OF frame(1)] by simp
  have "x = None"
    using assms b sim_before_honest[of op_begin_attempt no_index m] by (cases x) (auto simp: sim_begin_attempt_def)
  have fails: "sim_after op_begin_attempt no_index step_result.attempt_fenced m1 \<noteq> (ok, t)"
    "sim_after op_begin_attempt no_index step_result.stale_predecessor m1 \<noteq> (ok, t)"
    using sim_after_honest[of op_begin_attempt no_index _ m1 ok t] h by blast+
  have "k = length (objects m1)"
  proof (rule ccontr)
    assume "k \<noteq> length (objects m1)"
    then have "sim_begin_attempt a p n k m \<in> {sim_after op_begin_attempt no_index step_result.attempt_fenced m1,
        sim_after op_begin_attempt no_index step_result.stale_predecessor m1}"
      unfolding sim_begin_attempt_def b \<open>x = None\<close> by simp
    with assms(1) fails show False by auto
  qed
  then show ?thesis by (simp add: frame(3))
qed

lemma sim_sync_anchor_success:
  assumes "sim_sync_anchor a n m = (ok, t)" "honest_failpoint m"
  shows "exact_anchor (live_anchor t) (sim_next t)" "exact_anchor (durable_anchor t) (sim_next t)"
proof -
  obtain x m1 where b: "sim_before op_sync_anchor no_index m = (x, m1)" by force
  note frame = sim_before_frame[OF b]
  have h: "honest_failpoint m1" using assms(2) keeps_honest[OF frame(1)] by simp
  have "x = None"
    using assms b sim_before_honest[of op_sync_anchor no_index m] by (cases x) (auto simp: sim_sync_anchor_def)
  let ?m2 = "m1\<lparr>durable_anchor := live_anchor m1, anchor_unsynced := False\<rparr>"
  have fail: "sim_after op_sync_anchor no_index step_result.sync_error m1 \<noteq> (ok, t)"
    using sim_after_honest[of op_sync_anchor no_index _ m1 ok t] h by blast
  have "exact_anchor (live_anchor m1) (sim_next m1)" "sim_after op_sync_anchor no_index ok ?m2 = (ok, t)"
    using assms(1) fail unfolding sim_sync_anchor_def b \<open>x = None\<close> by (simp_all split: if_splits)
  then show "exact_anchor (live_anchor t) (sim_next t)" "exact_anchor (durable_anchor t) (sim_next t)"
    using sim_after_frame(1,2)[of op_sync_anchor no_index ok ?m2 ok t] by (simp_all add: keeps_def same_anchors_def)
qed

lemma sim_close_success:
  assumes "sim_close_durable_attempt a n m = (ok, t)" "honest_failpoint m"
  shows "a \<in> set (terminal_attempt_ids t)"
proof -
  obtain x m1 where b: "sim_before op_close_attempt no_index m = (x, m1)" by force
  have h: "honest_failpoint m1" using assms(2) keeps_honest[OF sim_before_frame(1)[OF b]] by simp
  have "x = None"
    using assms b sim_before_honest[of op_close_attempt no_index m] by (cases x) (auto simp: sim_close_durable_attempt_def)
  obtain y m2 where after: "sim_after op_close_attempt no_index ok m1 = (y, m2)" by force
  obtain z m3 where rec: "record_terminal_attempt a m2 = (z, m3)" by force
  have fail: "sim_after op_close_attempt no_index step_result.attempt_fenced m1 \<noteq> (ok, t)"
    using sim_after_honest[of op_close_attempt no_index _ m1 ok t] h by blast
  have "z \<and> terminal_attempt_ids t = terminal_attempt_ids m3"
    using assms(1) fail after rec unfolding sim_close_durable_attempt_def b \<open>x = None\<close>
    by (auto split: if_splits)
  then show ?thesis using record_terminal_frame(8)[OF rec] by simp
qed

lemma accepted_step_only:
  "accepted q (c, fst (step_only x)) \<longleftrightarrow> replied q c (fst x) empty_authenticated_anchor zero_digest = None"
  by (simp add: accepted_def judge_def step_only_def split: prod.splits)

lemma sim_backend_achieves:
  assumes "honest_failpoint m" "accepted q (c, fst (sim_backend c m))"
  shows "evidence c (snd (sim_backend c m))"
proof (cases c)
  case (begin_attempt a p n k)
  obtain r t where x: "sim_begin_attempt a p n k m = (r, t)" by force
  have "r = ok" using assms(2) begin_attempt x by (auto simp: accepted_step_only split: if_splits)
  then have "k = length (objects m)" using sim_begin_success x assms(1) by blast
  then have "evidence c m" using begin_attempt by simp
  then show ?thesis by (rule keeps_evidence[OF sim_backend_keeps]) (simp add: begin_attempt)
next
  case (publish_object_no_replace a i)
  obtain r t where x: "sim_publish_object_no_replace a i m = (r, t)" by force
  have "completed r True"
    using assms(2) publish_object_no_replace x by (auto simp: accepted_step_only completes_def split: if_splits)
  then obtain e where "i < length (objects m)" "publish_entry (objects m ! i) = (r, e)"
    using object_operation_success[OF x[unfolded sim_publish_object_no_replace_def] assms(1)] by metis
  then have "evidence c m"
    using publish_object_no_replace \<open>completed r True\<close>
    by (auto simp: publish_entry_def completed_def split: if_splits)
  then show ?thesis by (rule keeps_evidence[OF sim_backend_keeps]) (simp add: publish_object_no_replace)
next
  case (sync_object_directory a i)
  obtain r t where x: "sim_sync_object_directory a i m = (r, t)" by force
  have "completed r False"
    using assms(2) sync_object_directory x by (auto simp: accepted_step_only completes_def split: if_splits)
  then have "i < length (objects m) \<and> published_live (objects m ! i) \<and> objects t = (objects m)[i := (objects m ! i)\<lparr>published_durable := True\<rparr>]"
    by (rule object_operation_success[OF x[unfolded sim_sync_object_directory_def] assms(1)]) simp
  then show ?thesis using sync_object_directory x by simp
next
  case (publish_manifest_no_replace a)
  obtain r t where x: "sim_publish_manifest_no_replace a m = (r, t)" by force
  have "completed r True"
    using assms(2) publish_manifest_no_replace x by (auto simp: accepted_step_only completes_def split: if_splits)
  then obtain e where "publish_entry (manifest m) = (r, e)"
    using manifest_operation_success[OF x[unfolded sim_publish_manifest_no_replace_def] assms(1)] by metis
  then have "evidence c m"
    using publish_manifest_no_replace \<open>completed r True\<close>
    by (auto simp: publish_entry_def completed_def split: if_splits)
  then show ?thesis by (rule keeps_evidence[OF sim_backend_keeps]) (simp add: publish_manifest_no_replace)
next
  case (sync_manifest_directory a)
  obtain r t where x: "sim_sync_manifest_directory a m = (r, t)" by force
  have "completed r False"
    using assms(2) sync_manifest_directory x by (auto simp: accepted_step_only completes_def split: if_splits)
  then have "published_live (manifest m) \<and> manifest t = (manifest m)\<lparr>published_durable := True\<rparr>"
    by (rule manifest_operation_success[OF x[unfolded sim_sync_manifest_directory_def] assms(1)]) simp
  then show ?thesis using sync_manifest_directory x by simp
next
  case (close_durable_attempt a n)
  obtain r t where x: "sim_close_durable_attempt a n m = (r, t)" by force
  have "r = ok"
    using assms(2) close_durable_attempt x by (auto simp: accepted_step_only anchor_completes_def split: if_splits)
  then show ?thesis
    using sim_close_success[of a n m t] x assms(1) close_durable_attempt by simp
next
  case (sync_anchor a n)
  obtain r t where x: "sim_sync_anchor a n m = (r, t)" by force
  have "r = ok"
    using assms(2) sync_anchor x by (auto simp: accepted_step_only anchor_completes_def split: if_splits)
  then show ?thesis
    using sim_sync_anchor_success[of a n m t] x assms(1) sync_anchor by simp
qed simp_all

lemma sim_backend_anchor_sources:
  "live_anchor (snd (sim_backend d m)) = live_anchor m \<or> exact_anchor (live_anchor (snd (sim_backend d m))) (sim_next m)"
  "durable_anchor (snd (sim_backend d m)) \<in> {durable_anchor m, live_anchor m}"
proof -
  have "(live_anchor (snd (sim_backend d m)) = live_anchor m \<or>
      exact_anchor (live_anchor (snd (sim_backend d m))) (sim_next m)) \<and>
    durable_anchor (snd (sim_backend d m)) \<in> {durable_anchor m, live_anchor m}"
  proof (cases d)
    case (replace_anchor_atomically a p n)
    then show ?thesis
      using sim_replace_frame(2,3)[where m = m and a = a and p = p and n = n] by (auto simp: same_anchors_def)
  next
    case (sync_anchor a n)
    then show ?thesis using sim_sync_anchor_frame(2,3)[where m = m and a = a and n = n] by auto
  qed (use sim_backend_same_anchors[of d m] in \<open>simp_all add: same_anchors_def\<close>)
  then show "live_anchor (snd (sim_backend d m)) = live_anchor m \<or>
      exact_anchor (live_anchor (snd (sim_backend d m))) (sim_next m)"
    and "durable_anchor (snd (sim_backend d m)) \<in> {durable_anchor m, live_anchor m}" by blast+
qed

lemma evidence_call: "evidence c m \<Longrightarrow> evidence c (snd (sim_backend d m))"
proof (cases "moves_anchor c")
  case True
  then show "evidence c m \<Longrightarrow> ?thesis"
    using sim_backend_keeps[of m d] sim_backend_anchor_sources[of d m]
    by (cases c) (auto simp: keeps_def)
qed (rule keeps_evidence[OF sim_backend_keeps])

subsection \<open>Safety of the anchors\<close>

lemma exact_anchor_refl: "aa_authenticated a \<Longrightarrow> exact_anchor a a"
  by (simp add: exact_anchor_def)

lemma exact_anchor_sym: "exact_anchor a c \<Longrightarrow> exact_anchor c a"
  by (simp add: exact_anchor_def)

lemma exact_anchor_trans: "exact_anchor a c \<Longrightarrow> exact_anchor c d \<Longrightarrow> exact_anchor a d"
  by (simp add: exact_anchor_def)

definition entry_durable :: "entry_state \<Rightarrow> bool" where
  "entry_durable e \<longleftrightarrow> published_live e \<and> published_durable e \<and> destination e \<noteq> unequal"

definition generation_durable :: "simulator \<Rightarrow> bool" where
  "generation_durable m \<longleftrightarrow> entry_durable (manifest m) \<and> list_all entry_durable (objects m)"

definition anchor_safe :: "simulator \<Rightarrow> publication_anchor \<Rightarrow> bool" where
  "anchor_safe m a \<longleftrightarrow> exact_anchor a (sim_predecessor m) \<or> (exact_anchor a (sim_next m) \<and> generation_durable m)"

text \<open>The live and the durable anchor each select the old generation or a durable new one.\<close>

definition sim_safe :: "simulator \<Rightarrow> bool" where
  "sim_safe m \<longleftrightarrow> anchor_safe m (live_anchor m) \<and> anchor_safe m (durable_anchor m)"

lemma keeps_durable: "keeps m t \<Longrightarrow> generation_durable m \<Longrightarrow> generation_durable t"
  by (auto simp: keeps_def entry_keeps_def generation_durable_def entry_durable_def list_all_length
    list_all2_conv_all_nth)

lemma keeps_anchor_safe: "keeps m t \<Longrightarrow> anchor_safe m a \<Longrightarrow> anchor_safe t a"
  using keeps_durable[of m t] by (auto simp: anchor_safe_def keeps_def)

lemma same_anchors_safe: "keeps m t \<Longrightarrow> same_anchors m t \<Longrightarrow> sim_safe m \<Longrightarrow> sim_safe t"
  by (simp add: sim_safe_def same_anchors_def keeps_anchor_safe)

lemma sim_sync_anchor_safe: "sim_safe m \<Longrightarrow> sim_safe (snd (sim_sync_anchor a n m))"
  using sim_sync_anchor_frame[where m = m and a = a and n = n]
    keeps_anchor_safe[OF sim_sync_anchor_frame(1)[where m = m and a = a and n = n]]
  by (auto simp: sim_safe_def)

lemma sim_safe_call: "sim_safe m \<Longrightarrow> \<not> replaces c \<Longrightarrow> sim_safe (snd (sim_backend c m))"
proof (cases "moves_anchor c")
  case True
  then show "sim_safe m \<Longrightarrow> \<not> replaces c \<Longrightarrow> ?thesis"
    by (cases c) (simp_all add: sim_sync_anchor_safe)
qed (simp add: same_anchors_safe[OF sim_backend_keeps sim_backend_same_anchors])

lemma prepared_durable:
  assumes "list_all (\<lambda>c. evidence c m) (prepare_script q)"
  shows "generation_durable m"
proof -
  let ?a = "rq_attempt_id q"
  have ev: "evidence c m" if "c \<in> set (prepare_script q)" for c
    using assms that by (simp add: list_all_iff)
  have n: "rq_object_count q = length (objects m)"
    using ev[of "begin_call q"] by (simp add: prepare_script_def begin_call_def)
  have man: "destination (manifest m) \<noteq> unequal" "published_live (manifest m)" "published_durable (manifest m)"
    using ev[of "publish_manifest_no_replace ?a"] ev[of "sync_manifest_directory ?a"]
    by (simp_all add: prepare_script_def manifest_script_def)
  have obj: "published_live (objects m ! i) \<and> published_durable (objects m ! i) \<and> destination (objects m ! i) \<noteq> unequal"
    if "i < length (objects m)" for i
  proof -
    have "set (object_script ?a i) \<subseteq> set (prepare_script q)"
      using that n by (auto simp: prepare_script_def)
    moreover have "publish_object_no_replace ?a i \<in> set (object_script ?a i)"
      "sync_object_directory ?a i \<in> set (object_script ?a i)"
      by (simp_all add: object_script_def)
    ultimately show ?thesis
      using ev[of "publish_object_no_replace ?a i"] ev[of "sync_object_directory ?a i"] by auto
  qed
  then show ?thesis
    using man by (simp add: generation_durable_def entry_durable_def list_all_length)
qed

lemma sim_safe_replace:
  assumes "sim_safe m" "list_all (\<lambda>c. evidence c m) (prepare_script q)"
  shows "sim_safe (snd (sim_backend (replace_call q) m))"
proof -
  let ?t = "snd (sim_replace_anchor_atomically (rq_attempt_id q) (rq_expected_predecessor q) (rq_next q) m)"
  note frame = sim_replace_frame[where m = m and a = "rq_attempt_id q" and p = "rq_expected_predecessor q" and n = "rq_next q"]
  have durable: "generation_durable ?t"
    using keeps_durable[OF frame(1) prepared_durable[OF assms(2)]] .
  have "sim_safe ?t" if "same_anchors m ?t"
    using same_anchors_safe[OF frame(1) that assms(1)] .
  moreover have "sim_safe ?t" if "live_anchor ?t = rq_next q" "exact_anchor (rq_next q) (sim_next m)"
  proof -
    have "anchor_safe ?t (durable_anchor ?t)"
      using assms(1) keeps_anchor_safe[OF frame(1)] frame(2) by (simp add: sim_safe_def)
    moreover have "anchor_safe ?t (live_anchor ?t)"
      using that durable frame(1) by (simp add: anchor_safe_def keeps_def)
    ultimately show ?thesis by (simp add: sim_safe_def)
  qed
  ultimately show ?thesis
    using frame(3) by (auto simp: replace_call_def)
qed

interpretation sim: evidence_backend sim_backend honest_failpoint evidence sim_safe
proof unfold_locales
  show "honest_failpoint s \<Longrightarrow> honest_failpoint (snd (sim_backend c s))" for s c
    using keeps_honest[OF sim_backend_keeps] by simp
  show "honest_failpoint s \<Longrightarrow> accepted q (c, fst (sim_backend c s)) \<Longrightarrow> evidence c (snd (sim_backend c s))" for s q c
    by (rule sim_backend_achieves)
  show "evidence c s \<Longrightarrow> evidence c (snd (sim_backend d s))" for c s d
    by (rule evidence_call)
  show "sim_safe s \<Longrightarrow> \<not> replaces c \<Longrightarrow> sim_safe (snd (sim_backend c s))" for s c
    by (rule sim_safe_call)
  show "sim_safe s \<Longrightarrow> list_all (\<lambda>c. evidence c s) (prepare_script q) \<Longrightarrow>
      sim_safe (snd (sim_backend (replace_call q) s))" for s q
    by (rule sim_safe_replace)
qed

text \<open>The same simulator under a process that dies after some number of calls.\<close>

interpretation killed_sim: evidence_backend "killed sim_backend" "\<lambda>x. honest_failpoint (fst x)"
    "\<lambda>c x. evidence c (fst x)" "\<lambda>x. sim_safe (fst x)"
  by (rule sim.killed_evidence)


subsection \<open>Crashes\<close>

lemma discard_temps_live:
  "list_all2 (\<lambda>e f. published_live f = published_live e \<and> published_durable f = published_durable e \<and>
     destination f = destination e) es (fst (discard_temps es g))"
  by (induction es arbitrary: g) (simp_all add: discard_temp_def split_beta)

lemma crash_frame:
  "sim_predecessor (crash policy m) = sim_predecessor m" "sim_next (crash policy m) = sim_next m"
  "predecessor_chain_valid (crash policy m) = predecessor_chain_valid m"
  "sim_failpoint (crash policy m) = sim_failpoint m"
  "live_anchor (crash policy m) = durable_anchor (crash policy m)"
  "durable_anchor (crash policy m) \<in> {durable_anchor m, live_anchor m}"
  "\<not> attempt_active (crash policy m)"
  by (auto simp: crash_def Let_def discard_all_def split_beta record_terminal_attempt_def)

lemma crash_durable: "generation_durable m \<Longrightarrow> generation_durable (crash policy m)"
proof -
  assume m: "generation_durable m"
  define m1 where "m1 = (if attempt_active m
    then (snd (record_terminal_attempt (active_attempt_id m) m))
      \<lparr>active_attempt_id := zero_digest, attempt_active := False, attempt_uncertain := True\<rparr> else m)"
  have m1: "objects m1 = objects m" "manifest m1 = manifest m"
    by (simp_all add: m1_def record_terminal_attempt_def)
  have "generation_durable (discard_all m1)"
    using keeps_durable[OF discard_all_frame(1), of m1] m by (simp add: generation_durable_def m1)
  moreover have "entry_durable e \<Longrightarrow> entry_durable (crash_entry policy e)" for e
    by (simp add: entry_durable_def crash_entry_def)
  ultimately show ?thesis
    by (simp add: generation_durable_def crash_def Let_def flip: m1_def) (auto simp: list_all_iff)
qed

lemma crash_safe: "sim_safe m \<Longrightarrow> sim_safe (crash policy m)"
  using crash_durable[of m policy] crash_frame[of policy m] by (auto simp: sim_safe_def anchor_safe_def)

lemma safe_recovers: "sim_safe m \<Longrightarrow> predecessor_chain_valid m \<Longrightarrow> recover m \<noteq> miss"
  by (auto simp: sim_safe_def anchor_safe_def recover_def generation_durable_def entry_durable_def
    entry_selected_def list_all_iff)

subsection \<open>Reachable states\<close>

text \<open>
  A configured simulator: freshly constructed, with any destinations and verified digest.
  From there any sequence of publications (any request, any honest failpoint, the process
  dying after any number of backend calls) and crashes.
\<close>

inductive configured :: "publication_anchor \<Rightarrow> publication_anchor \<Rightarrow> nat \<Rightarrow> simulator \<Rightarrow> bool" for p n k where
  fresh: "configured p n k (new_simulator p n k)"
| object: "configured p n k m \<Longrightarrow> configured p n k (set_object_destination i c m)"
| manifest: "configured p n k m \<Longrightarrow> configured p n k (set_manifest_destination c m)"
| digest: "configured p n k m \<Longrightarrow> configured p n k (set_verified_manifest_digest d m)"

inductive reachable :: "publication_anchor \<Rightarrow> publication_anchor \<Rightarrow> nat \<Rightarrow> simulator \<Rightarrow> bool" for p n k where
  configured: "configured p n k m \<Longrightarrow> reachable p n k m"
| failpoint: "reachable p n k m \<Longrightarrow> honest_failpoint (set_failpoint fp m) \<Longrightarrow> reachable p n k (set_failpoint fp m)"
| uncertain: "reachable p n k m \<Longrightarrow> reachable p n k (set_abandonment_uncertain on m)"
| publishes: "reachable p n k m \<Longrightarrow>
    reachable p n k (fst (snd (snd (publish (killed sim_backend) q held (m, calls)))))"
| crashes: "reachable p n k m \<Longrightarrow> reachable p n k (crash policy m)"

lemma configured_invariant:
  "configured p n k m \<Longrightarrow> sim_predecessor m = p \<and> sim_next m = n \<and> live_anchor m = p \<and> durable_anchor m = p \<and>
     predecessor_chain_valid m \<and> \<not> fp_enabled (sim_failpoint m) \<and> \<not> anchor_unsynced m \<and> \<not> attempt_active m \<and>
     \<not> attempt_uncertain m \<and> terminal_attempt_ids m = [] \<and> trace m = [] \<and>
     length (objects m) = (if k \<le> publication_max_objects then k else 0) \<and>
     trace_limit m = 2 * (2 + 6 * length (objects m) + 6 + 3) \<and>
     sim_valid m = (aa_authenticated p \<and> aa_authenticated n \<and> k > 0 \<and> k \<le> publication_max_objects)"
  by (induction rule: configured.induct)
    (simp_all add: new_simulator_def Let_def empty_failpoint_def set_object_destination_def
      set_manifest_destination_def set_verified_manifest_digest_def)

lemma keeps_preorder: "reflp keeps" "transp keeps"
  using keeps_trans by (auto intro: reflpI transpI)

lemma publish_keeps: "keeps m (snd (snd (publish sim_backend q held m)))"
  by (rule publish_preserves[OF keeps_preorder sim_backend_keeps])

lemma killed_publish_keeps: "keeps m (fst (snd (snd (publish (killed sim_backend) q held (m, calls)))))"
proof -
  have "keeps (fst (m, calls)) (fst (snd (snd (publish (killed sim_backend) q held (m, calls)))))"
  proof (rule publish_preserves[of "\<lambda>x y. keeps (fst x) (fst y)"])
    show "transp (\<lambda>x y. keeps (fst x) (fst y))"
      by (rule transpI) (rule keeps_trans)
    show "keeps (fst s) (fst (snd (killed sim_backend c s)))" for c s
      by (simp add: killed_cases sim_backend_keeps)
  qed (simp add: reflpI)
  then show ?thesis by simp
qed

lemma reachable_invariant:
  assumes "reachable p n k m" "aa_authenticated p"
  shows "sim_safe m \<and> honest_failpoint m \<and> predecessor_chain_valid m"
  using assms(1)
proof (induction rule: reachable.induct)
  case (configured m)
  then show ?case
    using configured_invariant[OF configured] exact_anchor_refl[OF assms(2)]
    by (simp add: sim_safe_def anchor_safe_def honest_failpoint_def)
next
  case (publishes m q held calls)
  then show ?case
    using killed_sim.publish_safe[of "(m, calls)" q held] killed_publish_keeps[of m q held calls]
    by (simp add: keeps_honest) (simp add: keeps_def)
next
  case (crashes m policy)
  then show ?case
    by (simp add: crash_safe honest_failpoint_def crash_frame)
qed (simp_all add: set_failpoint_def set_abandonment_uncertain_def sim_safe_def anchor_safe_def
  generation_durable_def honest_failpoint_def)


subsection \<open>Definite failures and replays\<close>

lemma same_anchors_preorder: "reflp same_anchors" "transp same_anchors"
  using same_anchors_trans by (auto intro: reflpI transpI)

lemma settle_same_anchors: "same_anchors m (snd (settle sim_backend q f n m))"
  by (rule settle_preserves[OF same_anchors_preorder]) (simp_all add: sim_abandon_frame sim_fence_frame)

lemma replace_refusal:
  assumes "judge q (replace_call q) (fst (sim_backend (replace_call q) m)) = Some f"
    "\<not> same_anchors m (snd (sim_backend (replace_call q) m))"
  shows "pr_status (fst (settle sim_backend q f n (snd (sim_backend (replace_call q) m))))
    \<in> {anchor_visibility_uncertain, attempt_fencing_uncertain}"
proof -
  let ?t = "snd (sim_backend (replace_call q) m)"
  have unsynced: "anchor_unsynced ?t"
    using sim_replace_frame(3)[where m = m and a = "rq_attempt_id q" and p = "rq_expected_predecessor q"
      and n = "rq_next q"] assms(2) by (simp add: replace_call_def)
  have abandon: "fst (sim_backend (abandon_attempt (rq_attempt_id q)) ?t)
      = Reply step_result.attempt_fenced empty_authenticated_anchor zero_digest"
    using unsynced by (simp add: step_only_def sim_abandon_attempt_def)
  have "fl_settle f = Abandon \<or> (fl_settle f = Fence \<and> fl_status f = anchor_visibility_uncertain)"
    using assms(1)
    by (cases "fst (sim_backend (replace_call q) m)")
      (auto simp: judge_def replace_call_def failed_def split: if_splits)
  then show ?thesis
    using abandon by (auto simp: settle_def Let_def split_beta confirms_def)
qed

lemma anchor_failure:
  "judge q (sync_anchor a x) r = Some f \<or> judge q (close_durable_attempt a x) r = Some f \<Longrightarrow>
   fl_settle f = Fence \<and> fl_status f = anchor_visibility_uncertain"
  by (auto simp: judge_def anchor_completes_def failed_def split: reply.splits if_splits)

lemma definite_failure:
  assumes "publish_spec sim_backend q m = (r, t)"
    "pr_status r \<notin> {published, anchor_visibility_uncertain, attempt_fencing_uncertain}"
  shows "same_anchors m t"
proof -
  let ?a = "rq_attempt_id q" and ?last = "[sync_anchor (rq_attempt_id q) (rq_next q),
    close_durable_attempt (rq_attempt_id q) (rq_next q)]"
  obtain f n u where run: "run_script sim_backend q (prepare_script q) m = (f, n, u)" by (metis prod_cases3)
  have "\<not> moves_anchor c" if "c \<in> set (prepare_script q)" for c
    using that by (auto simp: prepare_script_def begin_call_def object_script_def manifest_script_def)
  then have prep: "same_anchors m u"
    using run_script_preserves[OF run same_anchors_preorder] sim_backend_same_anchors by blast
  show ?thesis
  proof (cases f)
    case (Some g)
    then have "settle sim_backend q g n u = (r, t)"
      using assms(1) run by (simp add: publish_spec_def script_def run_script_append)
    then show ?thesis
      using same_anchors_trans[OF prep settle_same_anchors[of u q g n]] by simp
  next
    case None
    let ?v = "snd (sim_backend (replace_call q) u)"
    obtain g k w where rest: "run_script sim_backend q ?last ?v = (g, k, w)" by (metis prod_cases3)
    show ?thesis
    proof (cases "judge q (replace_call q) (fst (sim_backend (replace_call q) u))")
      case (Some h)
      then have st: "settle sim_backend q h n ?v = (r, t)"
        using assms(1) run None by (simp add: publish_spec_def script_def run_script_append split_beta)
      have "same_anchors u ?v"
        using replace_refusal[OF Some, of n] st assms(2) by auto
      then show ?thesis
        using same_anchors_trans[OF same_anchors_trans[OF prep] settle_same_anchors[of ?v q h n]] st by simp
    next
      case accepted: None
      have whole: "run_script sim_backend q (script q) m = (g, n + Suc k, w)"
        using run None accepted rest
        by (simp add: script_def run_script_append split_beta del: run_script.simps(2)) (simp add: split_beta)
      have "g \<noteq> None"
        using publish_spec_status[OF assms(1) whole] assms(2) by auto
      then obtain h where h: "g = Some h" by blast
      then have "fl_settle h = Fence \<and> fl_status h = anchor_visibility_uncertain"
        using rest anchor_failure[of q] by (auto split: prod.splits option.splits)
      then have "pr_status r = anchor_visibility_uncertain"
        using assms(1) whole h by (auto simp: publish_spec_def settle_def Let_def split_beta)
      then show ?thesis using assms(2) by simp
    qed
  qed
qed


text \<open>An attempt is spent once it is terminal or the root is uncertain; nothing revives it.\<close>

definition spent :: "publication_id \<Rightarrow> simulator \<Rightarrow> bool" where
  "spent a m \<longleftrightarrow> a \<in> set (terminal_attempt_ids m) \<or> attempt_uncertain m"

inductive later :: "simulator \<Rightarrow> simulator \<Rightarrow> bool" for m where
  now: "later m m"
| set_failpoint: "later m t \<Longrightarrow> later m (set_failpoint fp t)"
| set_uncertain: "later m t \<Longrightarrow> later m (set_abandonment_uncertain on t)"
| publishes: "later m t \<Longrightarrow> later m (snd (snd (publish sim_backend q held t)))"
| crashes: "later m t \<Longrightarrow> later m (crash policy t)"

lemma keeps_spent: "keeps m t \<Longrightarrow> spent a m \<Longrightarrow> spent a t"
  by (auto simp: keeps_def spent_def)

lemma crash_spent: "spent a m \<Longrightarrow> spent a (crash policy m)"
  by (auto simp: spent_def crash_def Let_def discard_all_def split_beta record_terminal_attempt_def)

lemma later_spent: "later m t \<Longrightarrow> spent a m \<Longrightarrow> spent a t"
proof (induction rule: later.induct)
  case (publishes t q held)
  then show ?case using keeps_spent[OF publish_keeps] by blast
qed (simp_all add: crash_spent spent_def[of _ "set_failpoint _ _"] spent_def[of _ "set_abandonment_uncertain _ _"],
  simp_all add: spent_def set_failpoint_def set_abandonment_uncertain_def)

lemma spent_begin_refused:
  assumes "spent a m" "honest_failpoint m"
  shows "fst (sim_begin_attempt a p n k m) \<noteq> ok"
proof -
  obtain x m1 where b: "sim_before op_begin_attempt no_index m = (x, m1)" by force
  have h: "honest_failpoint m1" using assms(2) keeps_honest[OF sim_before_frame(1)[OF b]] by simp
  show ?thesis
  proof (cases x)
    case None
    have "attempt_seen m1 a \<or> attempt_uncertain m1"
      using assms(1) sim_before_frame(6,8)[OF b] by (auto simp: spent_def attempt_seen_def list_ex_iff)
    then have "sim_begin_attempt a p n k m = sim_after op_begin_attempt no_index step_result.attempt_fenced m1"
      unfolding sim_begin_attempt_def b None by auto
    then show ?thesis
      using sim_after_honest[of op_begin_attempt no_index step_result.attempt_fenced m1] h
      by (metis prod.collapse step_result.distinct)
  next
    case (Some r)
    then show ?thesis
      using sim_before_honest[of op_begin_attempt no_index m r m1] b assms(2) by (simp add: sim_begin_attempt_def)
  qed
qed

lemma spent_not_published:
  assumes "spent (rq_attempt_id q) m" "honest_failpoint m"
  shows "pr_status (fst (publish sim_backend q held m)) \<noteq> published"
proof -
  obtain f n t where run: "run_script sim_backend q (script q) m = (f, n, t)" by (metis prod_cases3)
  let ?u = "snd (sim_backend read_anchor m)"
  have u: "keeps m ?u" by (rule sim_backend_keeps)
  have refused: "fst (sim_begin_attempt (rq_attempt_id q) p nx k ?u) \<noteq> ok" for p nx k
    using spent_begin_refused keeps_spent[OF u assms(1)] keeps_honest[OF u] assms(2) by simp
  obtain rest where "script q = read_anchor # begin_call q # rest"
    by (simp add: script_def prepare_script_def)
  then have "f \<noteq> None"
    using run refused
    by (auto simp: begin_call_def judge_def step_only_def split_beta simp del: sim_backend.simps(1)
      split: option.splits reply.splits if_splits)
  then show ?thesis
    using publish_spec_status[OF _ run]
    by (auto simp: publish_refines_script empty_publication_result_def split_beta) (metis prod.collapse)
qed


lemma fence_spends: "a \<noteq> zero_digest \<Longrightarrow> spent a (snd (sim_fence_attempt_uncertain a m))"
  by (simp add: sim_fence_attempt_uncertain_def spent_def)

lemma abandon_spends: "fst (sim_abandon_attempt a m) = ok \<Longrightarrow> spent a (snd (sim_abandon_attempt a m))"
  using record_terminal_frame(8)[OF surjective_pairing, of a m]
  by (auto simp: sim_abandon_attempt_def spent_def split_beta discard_all_frame split: if_splits)

lemma publish_spends:
  assumes "publish sim_backend q held m = (r, h, t)" "honest_failpoint m" "2 \<le> pr_completed_steps r"
  shows "spent (rq_attempt_id q) t"
proof -
  let ?a = "rq_attempt_id q"
  have valid: "valid_transition q" "\<not> held" and spec: "publish_spec sim_backend q m = (r, t)"
    using assms(1,3) by (auto simp: publish_refines_script empty_publication_result_def split: if_splits prod.splits)
  have a: "?a \<noteq> zero_digest" using valid by (auto simp: valid_transition_def split: option.splits)
  obtain f n u where run: "run_script sim_backend q (script q) m = (f, n, u)" by (metis prod_cases3)
  show ?thesis
  proof (cases f)
    case None
    then have "list_all (\<lambda>c. evidence c t) (script q)"
      using sim.publish_achieved[OF assms(1) _ assms(2)] publish_spec_status[OF spec run] by simp
    then show ?thesis by (simp add: script_def spent_def)
  next
    case (Some g)
    have st: "settle sim_backend q g n u = (r, t)" using spec run Some by (simp add: publish_spec_def)
    then have "pr_completed_steps r = n + fl_extra g"
      by (cases "fl_settle g") (auto simp: settle_def Let_def split: prod.splits if_splits)
    then have "fl_settle g \<noteq> Leave" using begun_failure_settled run assms(3) Some by simp
    then show ?thesis
      using st fence_spends[OF a] abandon_spends[of ?a u]
      by (cases "fl_settle g")
        (auto simp: settle_def Let_def split_beta confirms_def step_only_def split: if_splits)
  qed
qed

lemma published_outcome:
  assumes "publish sim_backend q held m = (r, h, t)" "pr_status r = published" "honest_failpoint m"
  shows "exact_anchor (live_anchor (crash policy t)) (sim_next m)" "generation_durable (crash policy t)"
proof -
  have ev: "list_all (\<lambda>c. evidence c t) (script q)" by (rule sim.publish_achieved[OF assms])
  then have "exact_anchor (live_anchor t) (sim_next t)" "exact_anchor (durable_anchor t) (sim_next t)"
    by (simp_all add: script_def)
  moreover have "sim_next t = sim_next m"
    using publish_keeps[of m q held] assms(1) by (simp add: keeps_def)
  ultimately show "exact_anchor (live_anchor (crash policy t)) (sim_next m)"
    using crash_frame(5,6)[of policy t] by auto
  have "list_all (\<lambda>c. evidence c t) (prepare_script q)" using ev by (simp add: script_def)
  then show "generation_durable (crash policy t)" by (intro crash_durable prepared_durable)
qed


subsection \<open>Undisturbed runs\<close>

definition ready :: "publication_id \<Rightarrow> simulator \<Rightarrow> bool" where
  "ready a m \<longleftrightarrow> sim_valid m \<and> \<not> fp_enabled (sim_failpoint m) \<and> active_attempt m a"

definition room :: "simulator \<Rightarrow> nat \<Rightarrow> bool" where
  "room m n \<longleftrightarrow> length (trace m) + n \<le> trace_limit m"

text \<open>Between the beginning of an attempt and the anchor only the entries and the trace change.\<close>

definition advances :: "simulator \<Rightarrow> nat \<Rightarrow> simulator \<Rightarrow> bool" where
  "advances m n t \<longleftrightarrow> t = m\<lparr>objects := objects t, manifest := manifest t, trace := trace t\<rparr> \<and>
     length (trace t) = length (trace m) + n \<and> length (objects t) = length (objects m)"

lemma room_mono: "room m n \<Longrightarrow> k \<le> n \<Longrightarrow> room m k"
  by (simp add: room_def)

lemma advances_trans: "advances m i t \<Longrightarrow> advances t j u \<Longrightarrow> advances m (i + j) u"
  unfolding advances_def by (cases m; cases t; cases u) simp

lemma advances_ready: "advances m n t \<Longrightarrow> ready a t = ready a m"
  unfolding advances_def ready_def active_attempt_def by (cases m; cases t) simp

lemma advances_room: "advances m n t \<Longrightarrow> room t k = room m (n + k)"
  unfolding advances_def room_def by (cases m; cases t) auto

lemma advances_fields:
  "advances m n t \<Longrightarrow> length (objects t) = length (objects m)"
  "advances m n t \<Longrightarrow> verified_manifest_digest t = verified_manifest_digest m"
  "advances m n t \<Longrightarrow> same_anchors m t"
  "advances m n t \<Longrightarrow> sim_next t = sim_next m"
  "advances m n t \<Longrightarrow> terminal_attempt_ids t = terminal_attempt_ids m"
  unfolding advances_def same_anchors_def by (cases m; cases t; simp)+

lemma quiet_before:
  assumes "\<not> fp_enabled (sim_failpoint m)" "length (trace m) < trace_limit m"
  shows "sim_before op i m = (None, record_trace op i before_phase ok False m)"
  using assms by (simp add: sim_before_def fires_def)

lemma quiet_after:
  assumes "\<not> fp_enabled (sim_failpoint m)" "length (trace m) < trace_limit m"
  shows "sim_after op i x m = (x, record_trace op i after_phase x False m)"
  using assms by (simp add: sim_after_def fires_def)

lemma object_quiet:
  assumes "ready a m" "room m 2" "i < length (objects m)" "requires (objects m ! i)"
  shows "\<exists>t. object_operation op requires effect a i m = (fst (effect (objects m ! i)), t) \<and> advances m 2 t \<and>
    objects t = (objects m)[i := snd (effect (objects m ! i))] \<and> manifest t = manifest m"
proof -
  obtain x e where x: "effect (objects m ! i) = (x, e)" by force
  let ?m1 = "record_trace op i before_phase ok False m"
  let ?m2 = "?m1\<lparr>objects := (objects m)[i := e]\<rparr>"
  let ?t = "record_trace op i after_phase x False ?m2"
  have quiet: "\<not> fp_enabled (sim_failpoint m)" "length (trace m) + 1 < trace_limit m"
    using assms(1,2) by (simp_all add: ready_def room_def)
  have "sim_before op i m = (None, ?m1)"
    by (rule quiet_before) (use quiet in simp_all)
  moreover have "sim_after op i x ?m2 = (x, ?t)"
    by (rule quiet_after) (use quiet in \<open>simp_all add: record_trace_def\<close>)
  moreover have "active_attempt ?m1 a" "valid_object ?m1 i" "objects ?m1 = objects m"
    using assms(1,3) by (simp_all add: ready_def active_attempt_def valid_object_def record_trace_def)
  ultimately have "object_operation op requires effect a i m = (x, ?t)"
    using assms(4) x by (simp add: object_operation_def)
  moreover have "advances m 2 ?t" "objects ?t = (objects m)[i := e]" "manifest ?t = manifest m"
    by (simp_all add: advances_def record_trace_def)
  ultimately show ?thesis using x by auto
qed

lemma manifest_quiet:
  assumes "ready a m" "room m 2" "requires (manifest m)"
  shows "\<exists>t. manifest_operation op requires effect a m = (fst (effect (manifest m)), t) \<and> advances m 2 t \<and>
    manifest t = snd (effect (manifest m))"
proof -
  obtain x e where x: "effect (manifest m) = (x, e)" by force
  let ?m1 = "record_trace op no_index before_phase ok False m"
  let ?m2 = "?m1\<lparr>manifest := e\<rparr>"
  let ?t = "record_trace op no_index after_phase x False ?m2"
  have quiet: "\<not> fp_enabled (sim_failpoint m)" "length (trace m) + 1 < trace_limit m"
    using assms(1,2) by (simp_all add: ready_def room_def)
  have "sim_before op no_index m = (None, ?m1)"
    by (rule quiet_before) (use quiet in simp_all)
  moreover have "sim_after op no_index x ?m2 = (x, ?t)"
    by (rule quiet_after) (use quiet in \<open>simp_all add: record_trace_def\<close>)
  moreover have "active_attempt ?m1 a" "sim_valid ?m1" "manifest ?m1 = manifest m"
    using assms(1) by (simp_all add: ready_def active_attempt_def record_trace_def)
  ultimately have "manifest_operation op requires effect a m = (x, ?t)"
    using assms(3) x by (simp add: manifest_operation_def)
  moreover have "advances m 2 ?t" "manifest ?t = e"
    by (simp_all add: advances_def record_trace_def)
  ultimately show ?thesis using x by auto
qed

definition runs :: "publication_request \<Rightarrow> publication_call list \<Rightarrow> simulator \<Rightarrow> simulator \<Rightarrow> bool" where
  "runs q cs m t \<longleftrightarrow> run_script sim_backend q cs m = (None, length cs, t)"

lemma runs_Nil: "runs q [] m m"
  by (simp add: runs_def)

lemma runs_append: "runs q cs m t \<Longrightarrow> runs q ds t u \<Longrightarrow> runs q (cs @ ds) m u"
  by (simp add: runs_def run_script_append)

lemma runs_step:
  assumes "op = (r, t)" "sim_backend c m = step_only op"
    "replied q c r empty_authenticated_anchor zero_digest = None" "runs q cs t u"
  shows "runs q (c # cs) m u"
  using assms by (simp add: runs_def step_only_def judge_def)

definition clean :: "entry_state \<Rightarrow> bool" where
  "clean e \<longleftrightarrow> \<not> temp_live e \<and> destination e \<noteq> unequal \<and> (destination e = equal \<longrightarrow> published_live e)"

lemma publish_clean:
  assumes "destination e \<noteq> unequal" "destination e = equal \<longrightarrow> published_live e"
  obtains x f where "publish_entry e = (x, f)" "x = ok \<or> x = already_equal" "published_live f" "destination f = destination e"
  using assms by (cases "destination e") (auto simp: publish_entry_def)

lemma object_script_runs:
  assumes "ready a m" "room m 12" "i < length (objects m)" "clean (objects m ! i)"
  obtains e t where "runs q (object_script a i) m t" "advances m 12 t" "objects t = (objects m)[i := e]"
    "manifest t = manifest m"
proof -
  let ?e = "objects m ! i"
  obtain t1 where 1: "sim_stage_object a i m = (ok, t1)" "advances m 2 t1"
      "objects t1 = (objects m)[i := ?e\<lparr>temp_live := True\<rparr>]" "manifest t1 = manifest m"
    using object_quiet[of a m i "\<lambda>e. \<not> temp_live e" op_stage_object "\<lambda>e. (ok, e\<lparr>temp_live := True\<rparr>)"] assms
    by (auto simp: sim_stage_object_def room_def clean_def)
  obtain t2 where 2: "sim_write_object a i t1 = (ok, t2)" "advances t1 2 t2"
      "objects t2 = (objects m)[i := ?e\<lparr>temp_live := True, temp_written := True\<rparr>]" "manifest t2 = manifest m"
    using object_quiet[of a t1 i temp_live op_write_object "(\<lambda>e. (ok, e\<lparr>temp_written := True\<rparr>))"] assms 1
    by (auto simp: sim_write_object_def advances_ready[OF 1(2)] advances_room[OF 1(2)] room_mono[OF assms(2)])
  have a2: "advances m 4 t2" using advances_trans[OF 1(2) 2(2)] by simp
  obtain t3 where 3: "sim_verify_object a i t2 = (ok, t3)" "advances t2 2 t3"
      "objects t3 = (objects m)[i := ?e\<lparr>temp_live := True, temp_written := True, temp_verified := True\<rparr>]"
      "manifest t3 = manifest m"
    using object_quiet[of a t2 i temp_written op_verify_object "(\<lambda>e. (ok, e\<lparr>temp_verified := True\<rparr>))"] assms 2
    by (auto simp: sim_verify_object_def advances_ready[OF a2] advances_room[OF a2] room_mono[OF assms(2)])
  have a3: "advances m 6 t3" using advances_trans[OF a2 3(2)] by simp
  obtain t4 where 4: "sim_sync_object_file a i t3 = (ok, t4)" "advances t3 2 t4"
      "objects t4 = (objects m)[i := ?e\<lparr>temp_live := True, temp_written := True, temp_verified := True,
         temp_durable := True\<rparr>]" "manifest t4 = manifest m"
    using object_quiet[of a t3 i temp_verified op_sync_object_file "(\<lambda>e. (ok, e\<lparr>temp_durable := True\<rparr>))"] assms 3
    by (auto simp: sim_sync_object_file_def advances_ready[OF a3] advances_room[OF a3] room_mono[OF assms(2)])
  have a4: "advances m 8 t4" using advances_trans[OF a3 4(2)] by simp
  let ?f = "?e\<lparr>temp_live := True, temp_written := True, temp_verified := True, temp_durable := True\<rparr>"
  obtain x g where g: "publish_entry ?f = (x, g)" "x = ok \<or> x = already_equal" "published_live g"
    by (rule publish_clean[of ?f]) (use assms(4) in \<open>auto simp: clean_def\<close>)
  obtain t5 where 5: "sim_publish_object_no_replace a i t4 = (x, t5)" "advances t4 2 t5"
      "objects t5 = (objects m)[i := g]" "manifest t5 = manifest m"
    using object_quiet[of a t4 i temp_durable op_publish_object publish_entry] assms 4 g(1)
    by (auto simp: sim_publish_object_no_replace_def advances_ready[OF a4] advances_room[OF a4] room_mono[OF assms(2)])
  have a5: "advances m 10 t5" using advances_trans[OF a4 5(2)] by simp
  obtain t6 where 6: "sim_sync_object_directory a i t5 = (ok, t6)" "advances t5 2 t6"
      "objects t6 = (objects m)[i := g\<lparr>published_durable := True\<rparr>]" "manifest t6 = manifest m"
    using object_quiet[of a t5 i published_live op_sync_object_directory "(\<lambda>e. (ok, e\<lparr>published_durable := True\<rparr>))"] assms 5 g
    by (auto simp: sim_sync_object_directory_def advances_ready[OF a5] advances_room[OF a5] room_mono[OF assms(2)])
  have "advances m 12 t6" using advances_trans[OF a5 6(2)] by simp
  moreover have "runs q (object_script a i) m t6"
    unfolding object_script_def
    by (rule runs_step[OF 1(1)] runs_step[OF 2(1)] runs_step[OF 3(1)] runs_step[OF 4(1)] runs_step[OF 5(1)]
      runs_step[OF 6(1)] runs_Nil | (use g(2) in \<open>auto simp: completes_def completed_def\<close>; fail))+
  ultimately show thesis using that 6(3,4) by blast
qed


lemma object_loop_runs:
  assumes "ready a m" "room m (12 * length is)" "distinct is"
    "list_all (\<lambda>i. i < length (objects m) \<and> clean (objects m ! i)) is"
  shows "\<exists>t. runs q (concat (map (object_script a) is)) m t \<and> advances m (12 * length is) t \<and>
    manifest t = manifest m"
  using assms
proof (induction "is" arbitrary: m)
  case Nil
  then show ?case by (intro exI[of _ m]) (simp add: runs_Nil advances_def)
next
  case (Cons i "is")
  obtain e t where t: "runs q (object_script a i) m t" "advances m 12 t" "objects t = (objects m)[i := e]"
      "manifest t = manifest m"
    using object_script_runs[of a m i q thesis] Cons.prems by (auto simp: room_def)
  have "list_all (\<lambda>i. i < length (objects t) \<and> clean (objects t ! i)) is"
    using Cons.prems(3,4) t(3) by (auto simp: list_all_iff) (metis nth_list_update_neq)
  then obtain u where u: "runs q (concat (map (object_script a) is)) t u" "advances t (12 * length is) u"
      "manifest u = manifest t"
    using Cons.IH[of t] Cons.prems(1-3) by (auto simp: advances_ready[OF t(2)] advances_room[OF t(2)])
  then show ?case
    using runs_append[OF t(1) u(1)] advances_trans[OF t(2) u(2)] t(4) by auto
qed

lemma verify_manifest_quiet:
  assumes "ready a m" "room m 2" "temp_written (manifest m)"
  shows "\<exists>t. sim_verify_manifest a m = ((ok, verified_manifest_digest m), t) \<and> advances m 2 t \<and>
    manifest t = (manifest m)\<lparr>temp_verified := True\<rparr>"
proof -
  let ?m1 = "record_trace op_verify_manifest no_index before_phase ok False m"
  let ?m2 = "?m1\<lparr>manifest := (manifest m)\<lparr>temp_verified := True\<rparr>\<rparr>"
  let ?t = "record_trace op_verify_manifest no_index after_phase ok False ?m2"
  have quiet: "\<not> fp_enabled (sim_failpoint m)" "length (trace m) + 1 < trace_limit m"
    using assms(1,2) by (simp_all add: ready_def room_def)
  have "sim_before op_verify_manifest no_index m = (None, ?m1)"
    by (rule quiet_before) (use quiet in simp_all)
  moreover have "sim_after op_verify_manifest no_index ok ?m2 = (ok, ?t)"
    by (rule quiet_after) (use quiet in \<open>simp_all add: record_trace_def\<close>)
  moreover have "active_attempt ?m1 a" "sim_valid ?m1" "manifest ?m1 = manifest m"
    "verified_manifest_digest ?m1 = verified_manifest_digest m"
    using assms(1) by (simp_all add: ready_def active_attempt_def record_trace_def)
  ultimately have "sim_verify_manifest a m = ((ok, verified_manifest_digest m), ?t)"
    using assms(3) by (simp add: sim_verify_manifest_def)
  moreover have "advances m 2 ?t" "manifest ?t = (manifest m)\<lparr>temp_verified := True\<rparr>"
    by (simp_all add: advances_def record_trace_def)
  ultimately show ?thesis by blast
qed

lemma manifest_script_runs:
  assumes "ready a m" "room m 12" "clean (manifest m)"
    "map_option ab_selected_manifest_digest (anchor_body_of (rq_next q)) = Some (verified_manifest_digest m)"
  shows "\<exists>t. runs q (manifest_script a) m t \<and> advances m 12 t \<and> published_durable (manifest t)"
proof -
  let ?e = "manifest m"
  obtain t1 where 1: "sim_stage_manifest a m = (ok, t1)" "advances m 2 t1" "manifest t1 = ?e\<lparr>temp_live := True\<rparr>"
    using manifest_quiet[of a m "\<lambda>e. \<not> temp_live e" op_stage_manifest "\<lambda>e. (ok, e\<lparr>temp_live := True\<rparr>)"] assms
    by (auto simp: sim_stage_manifest_def room_mono[OF assms(2)] clean_def)
  obtain t2 where 2: "sim_write_manifest a t1 = (ok, t2)" "advances t1 2 t2"
      "manifest t2 = ?e\<lparr>temp_live := True, temp_written := True\<rparr>"
    using manifest_quiet[of a t1 temp_live op_write_manifest "\<lambda>e. (ok, e\<lparr>temp_written := True\<rparr>)"] assms 1
    by (auto simp: sim_write_manifest_def advances_ready[OF 1(2)] advances_room[OF 1(2)] room_mono[OF assms(2)])
  have a2: "advances m 4 t2" using advances_trans[OF 1(2) 2(2)] by simp
  obtain t3 where 3: "sim_verify_manifest a t2 = ((ok, verified_manifest_digest m), t3)" "advances t2 2 t3"
      "manifest t3 = ?e\<lparr>temp_live := True, temp_written := True, temp_verified := True\<rparr>"
    using verify_manifest_quiet[of a t2] assms 2
    by (auto simp: advances_ready[OF a2] advances_room[OF a2] advances_fields(2)[OF a2] room_mono[OF assms(2)])
  have a3: "advances m 6 t3" using advances_trans[OF a2 3(2)] by simp
  let ?f = "?e\<lparr>temp_live := True, temp_written := True, temp_verified := True, temp_durable := True\<rparr>"
  obtain t4 where 4: "sim_sync_manifest_file a t3 = (ok, t4)" "advances t3 2 t4" "manifest t4 = ?f"
    using manifest_quiet[of a t3 temp_verified op_sync_manifest_file "\<lambda>e. (ok, e\<lparr>temp_durable := True\<rparr>)"] assms 3
    by (auto simp: sim_sync_manifest_file_def advances_ready[OF a3] advances_room[OF a3] room_mono[OF assms(2)])
  have a4: "advances m 8 t4" using advances_trans[OF a3 4(2)] by simp
  obtain x g where g: "publish_entry ?f = (x, g)" "x = ok \<or> x = already_equal" "published_live g"
    by (rule publish_clean[of ?f]) (use assms(3) in \<open>auto simp: clean_def\<close>)
  obtain t5 where 5: "sim_publish_manifest_no_replace a t4 = (x, t5)" "advances t4 2 t5" "manifest t5 = g"
    using manifest_quiet[of a t4 temp_durable op_publish_manifest publish_entry] assms 4 g(1)
    by (auto simp: sim_publish_manifest_no_replace_def advances_ready[OF a4] advances_room[OF a4] room_mono[OF assms(2)])
  have a5: "advances m 10 t5" using advances_trans[OF a4 5(2)] by simp
  obtain t6 where 6: "sim_sync_manifest_directory a t5 = (ok, t6)" "advances t5 2 t6"
      "manifest t6 = g\<lparr>published_durable := True\<rparr>"
    using manifest_quiet[of a t5 published_live op_sync_manifest_directory "\<lambda>e. (ok, e\<lparr>published_durable := True\<rparr>)"]
      assms 5 g
    by (auto simp: sim_sync_manifest_directory_def advances_ready[OF a5] advances_room[OF a5] room_mono[OF assms(2)])
  have "runs q [sync_manifest_file a, publish_manifest_no_replace a, sync_manifest_directory a] t3 t6"
    by (rule runs_step[OF 4(1)] runs_step[OF 5(1)] runs_step[OF 6(1)] runs_Nil
      | (use g(2) in \<open>auto simp: completes_def completed_def\<close>; fail))+
  then have "runs q (verify_manifest a # [sync_manifest_file a, publish_manifest_no_replace a,
      sync_manifest_directory a]) t2 t6"
    using 3(1) assms(4) by (simp add: runs_def judge_def del: replied.simps(3,5))
  then have "runs q (manifest_script a) m t6"
    unfolding manifest_script_def
    by - (rule runs_step[OF 1(1)], simp, simp add: completes_def completed_def,
      rule runs_step[OF 2(1)], simp, simp add: completes_def completed_def)
  moreover have "advances m 12 t6" using advances_trans[OF a5 6(2)] by simp
  ultimately show ?thesis using 6(3) by auto
qed

lemmas quiet_eval = ready_def room_def quiet_before quiet_after record_trace_def active_attempt_def

lemma replace_quiet:
  assumes "ready a m" "room m 2" "published_durable (manifest m)" "exact_anchor x (sim_next m)"
    "exact_anchor (live_anchor m) p"
  shows "\<exists>t. sim_replace_anchor_atomically a p x m = (ok, t) \<and> ready a t \<and> length (trace t) = length (trace m) + 2 \<and>
    trace_limit t = trace_limit m \<and> live_anchor t = x \<and> anchor_unsynced t \<and> sim_next t = sim_next m \<and>
    terminal_attempt_ids t = terminal_attempt_ids m"
  using assms by (simp add: sim_replace_anchor_atomically_def quiet_eval)

lemma sync_anchor_quiet:
  assumes "ready a m" "room m 2" "anchor_unsynced m" "exact_anchor x (sim_next m)" "live_anchor m = x"
  shows "\<exists>t. sim_sync_anchor a x m = (ok, t) \<and> ready a t \<and> length (trace t) = length (trace m) + 2 \<and>
    trace_limit t = trace_limit m \<and> durable_anchor t = x \<and> sim_next t = sim_next m \<and>
    terminal_attempt_ids t = terminal_attempt_ids m"
  using assms by (simp add: sim_sync_anchor_def quiet_eval)

lemma close_quiet:
  assumes "ready a m" "room m 2" "exact_anchor x (sim_next m)" "durable_anchor m = x"
    "length (terminal_attempt_ids m) < max_attempt_history"
  shows "\<exists>t. sim_close_durable_attempt a x m = (ok, t)"
  using assms by (simp add: sim_close_durable_attempt_def quiet_eval record_terminal_attempt_def split_beta)

lemma anchor_script_runs:
  assumes "ready (rq_attempt_id q) m" "room m 6" "published_durable (manifest m)"
    "exact_anchor (rq_next q) (sim_next m)" "exact_anchor (live_anchor m) (rq_expected_predecessor q)"
    "length (terminal_attempt_ids m) < max_attempt_history"
  shows "\<exists>t. runs q [replace_call q, sync_anchor (rq_attempt_id q) (rq_next q),
    close_durable_attempt (rq_attempt_id q) (rq_next q)] m t"
proof -
  let ?a = "rq_attempt_id q" and ?n = "rq_next q"
  obtain t1 where 1: "sim_replace_anchor_atomically ?a (rq_expected_predecessor q) ?n m = (ok, t1)" "ready ?a t1"
      "room t1 4" "live_anchor t1 = ?n" "anchor_unsynced t1" "sim_next t1 = sim_next m"
      "terminal_attempt_ids t1 = terminal_attempt_ids m"
    using replace_quiet[OF assms(1) room_mono[OF assms(2)] assms(3-5)] assms(2) by (auto simp: room_def)
  obtain t2 where 2: "sim_sync_anchor ?a ?n t1 = (ok, t2)" "ready ?a t2" "room t2 2" "durable_anchor t2 = ?n"
      "sim_next t2 = sim_next m" "terminal_attempt_ids t2 = terminal_attempt_ids m"
    using sync_anchor_quiet[OF 1(2) room_mono[OF 1(3)] 1(5) _ 1(4)] assms(4) 1 by (auto simp: room_def)
  obtain t3 where 3: "sim_close_durable_attempt ?a ?n t2 = (ok, t3)"
    using close_quiet[OF 2(2,3) _ 2(4)] assms(4,6) 2(5,6) by auto
  have "runs q [replace_call q, sync_anchor ?a ?n, close_durable_attempt ?a ?n] m t3"
    unfolding replace_call_def
    by (rule runs_step[OF 1(1)], simp, simp, rule runs_step[OF 2(1)], simp, simp add: anchor_completes_def,
      rule runs_step[OF 3], simp, simp add: anchor_completes_def, rule runs_Nil)
  then show ?thesis by blast
qed


lemma configured_entries:
  "configured p n k m \<Longrightarrow> list_all (\<lambda>e. \<not> temp_live e \<and> (destination e = equal \<longrightarrow> published_live e))
     (manifest m # objects m)"
proof (induction rule: configured.induct)
  case (object m i c)
  then show ?case
    by (auto simp: set_object_destination_def with_destination_def list_all_iff dest!: set_update_subset_insert[THEN subsetD]
      split: if_splits) (auto simp: valid_object_def)
qed (auto simp: new_simulator_def Let_def empty_entry_def list_all_iff set_manifest_destination_def with_destination_def
  set_verified_manifest_digest_def)

lemma begin_quiet:
  assumes "configured p n k m" "sim_valid m" "rq_attempt_id q \<noteq> zero_digest" "rq_object_count q = k"
    "exact_anchor p (rq_expected_predecessor q)" "exact_anchor (rq_next q) n"
  shows "\<exists>t. runs q [read_anchor, begin_call q] m t \<and> ready (rq_attempt_id q) t \<and> length (trace t) = 4 \<and>
    trace_limit t = trace_limit m \<and> objects t = objects m \<and> manifest t = manifest m \<and> sim_next t = n \<and>
    live_anchor t = p \<and> terminal_attempt_ids t = [] \<and> verified_manifest_digest t = verified_manifest_digest m"
proof -
  note inv = configured_invariant[OF assms(1)]
  have lim: "4 \<le> trace_limit m" using inv by simp
  have auth: "aa_authenticated p" using assms(5) by (simp add: exact_anchor_def)
  obtain tr where tr: "sim_read_anchor m = ((ok, p), m\<lparr>trace := tr\<rparr>)" "length tr = 2"
    using inv lim assms(2) by (simp add: sim_read_anchor_def quiet_before quiet_after record_trace_def)
  define t1 where "t1 = m\<lparr>trace := tr\<rparr>"
  have 1: "sim_read_anchor m = ((ok, p), t1)" "length (trace t1) = 2"
    using tr by (simp_all add: t1_def)
  have t1: "sim_valid t1" "\<not> fp_enabled (sim_failpoint t1)" "trace_limit t1 = trace_limit m" "live_anchor t1 = p"
    "sim_predecessor t1 = p" "sim_next t1 = n" "\<not> attempt_active t1" "\<not> attempt_uncertain t1"
    "terminal_attempt_ids t1 = []" "objects t1 = objects m" "manifest t1 = manifest m"
    "verified_manifest_digest t1 = verified_manifest_digest m"
    using inv assms(2) by (simp_all add: t1_def)
  have len: "length (objects m) = k" using inv assms(2) by simp
  have "exact_anchor (rq_expected_predecessor q) p" using assms(5) by (simp add: exact_anchor_def)
  define r2 where "r2 = sim_begin_attempt (rq_attempt_id q) (rq_expected_predecessor q) (rq_next q) k t1"
  have "fst r2 = ok" "ready (rq_attempt_id q) (snd r2)" "length (trace (snd r2)) = 4"
      "trace_limit (snd r2) = trace_limit m" "objects (snd r2) = objects m" "manifest (snd r2) = manifest m"
      "sim_next (snd r2) = n" "live_anchor (snd r2) = p" "terminal_attempt_ids (snd r2) = []"
      "verified_manifest_digest (snd r2) = verified_manifest_digest m"
    using t1 1(2) lim assms(3,5,6) len \<open>exact_anchor (rq_expected_predecessor q) p\<close>
    by (simp_all add: r2_def sim_begin_attempt_def quiet_eval attempt_seen_def max_attempt_history_def)
  then obtain t2 where 2: "sim_begin_attempt (rq_attempt_id q) (rq_expected_predecessor q) (rq_next q) k t1 = (ok, t2)"
      "ready (rq_attempt_id q) t2" "length (trace t2) = 4" "trace_limit t2 = trace_limit m"
      "objects t2 = objects m" "manifest t2 = manifest m" "sim_next t2 = n" "live_anchor t2 = p"
      "terminal_attempt_ids t2 = []" "verified_manifest_digest t2 = verified_manifest_digest m"
    using r2_def by (metis prod.collapse)
  have "runs q [read_anchor, begin_call q] m t2"
    using 1(1) 2(1) assms(4,5) auth by (simp add: runs_def judge_def begin_call_def step_only_def)
  then show ?thesis using 2 by blast
qed

lemma undisturbed_run:
  assumes "configured p n k m" "valid_transition q" "rq_object_count q = k"
    "exact_anchor p (rq_expected_predecessor q)" "exact_anchor (rq_next q) n"
    "list_all (\<lambda>e. destination e \<noteq> unequal) (manifest m # objects m)"
    "map_option ab_selected_manifest_digest (anchor_body_of (rq_next q)) = Some (verified_manifest_digest m)"
  shows "\<exists>t. publish sim_backend q False m = (published_result (6 * k + 11), False, t)"
proof -
  let ?a = "rq_attempt_id q"
  note inv = configured_invariant[OF assms(1)]
  have tr: "?a \<noteq> zero_digest" "k > 0" "k \<le> publication_max_objects"
    using assms(2,3) by (auto simp: valid_transition_def split: option.splits)
  have valid: "sim_valid m" using inv tr assms(4,5) by (simp add: exact_anchor_def)
  have len: "length (objects m) = k" using inv tr by simp
  obtain t where t: "runs q [read_anchor, begin_call q] m t" "ready ?a t" "length (trace t) = 4"
      "trace_limit t = trace_limit m" "objects t = objects m" "manifest t = manifest m" "sim_next t = n"
      "live_anchor t = p" "terminal_attempt_ids t = []" "verified_manifest_digest t = verified_manifest_digest m"
    using begin_quiet[OF assms(1) valid tr(1) assms(3-5)] by blast
  have clean: "list_all clean (manifest m # objects m)"
    using configured_entries[OF assms(1)] assms(6) by (auto simp: clean_def list_all_iff)
  have room: "room t (12 * k + 18)" using t(3,4) inv len by (simp add: room_def)
  obtain u where u: "runs q (concat (map (object_script ?a) [0..<k])) t u" "advances t (12 * k) u" "manifest u = manifest t"
    using object_loop_runs[OF t(2), of "[0..<k]" q] room_mono[OF room, of "12 * k"] clean len t(5)
    by (auto simp: list_all_iff)
  have roomu: "room u 18" using room by (simp add: advances_room[OF u(2)])
  have readyu: "ready ?a u" using t(2) by (simp add: advances_ready[OF u(2)])
  obtain v where v: "runs q (manifest_script ?a) u v" "advances u 12 v" "published_durable (manifest v)"
    using manifest_script_runs[OF readyu room_mono[OF roomu], of q] clean u(3) t(6,10) assms(7)
      advances_fields(2)[OF u(2)] by auto
  have tv: "advances t (12 * k + 12) v" by (rule advances_trans[OF u(2) v(2)])
  have "ready ?a v" "room v 6" "exact_anchor (rq_next q) (sim_next v)"
    "exact_anchor (live_anchor v) (rq_expected_predecessor q)" "terminal_attempt_ids v = []"
    using t(2,7-9) room assms(4,5) advances_fields[OF tv] advances_ready[OF tv] advances_room[OF tv]
    by (simp_all add: same_anchors_def add.commute)
  then obtain w where "runs q [replace_call q, sync_anchor ?a (rq_next q), close_durable_attempt ?a (rq_next q)] v w"
    using anchor_script_runs[of q v] v(3) by (auto simp: max_attempt_history_def)
  then have "runs q (script q) m w"
    using runs_append[OF t(1) runs_append[OF u(1) runs_append[OF v(1)]]] assms(3)
    by (simp add: script_def prepare_script_def)
  then show ?thesis
    using assms(2,3) by (simp add: runs_def publish_refines_script publish_spec_def length_script)
qed


subsection \<open>The guarantees of publication\<close>

definition sample_simulator :: simulator where
  "sample_simulator = new_simulator (rq_expected_predecessor sample_request) (rq_next sample_request) 1"

lemma sample_configured:
  "configured (rq_expected_predecessor sample_request) (rq_next sample_request) 1 sample_simulator"
  unfolding sample_simulator_def by (rule configured.fresh)

lemma sample_exact:
  "exact_anchor (rq_expected_predecessor sample_request) (rq_expected_predecessor sample_request)"
  "exact_anchor (rq_next sample_request) (rq_next sample_request)"
  "\<not> exact_anchor (rq_next sample_request) (rq_expected_predecessor sample_request)"
  by (simp_all add: sample_request_def sample_anchor_def exact_anchor_def)

lemma sample_counts: "rq_object_count sample_request = 1"
  "list_all (\<lambda>e. destination e \<noteq> unequal) (manifest sample_simulator # objects sample_simulator)"
  "map_option ab_selected_manifest_digest (anchor_body_of (rq_next sample_request)) =
     Some (verified_manifest_digest sample_simulator)"
  "sim_next sample_simulator = rq_next sample_request"
  "sim_predecessor sample_simulator = rq_expected_predecessor sample_request"
  "honest_failpoint sample_simulator" "predecessor_chain_valid sample_simulator"
  by (auto simp: sample_request_def sample_simulator_def new_simulator_def Let_def publication_max_objects_def
    empty_entry_def sample_anchor_def anchor_body_of_def honest_failpoint_def empty_failpoint_def list_all_iff)

lemma sample_publishes:
  "\<exists>t. publish sim_backend sample_request False sample_simulator = (published_result 17, False, t)"
  using undisturbed_run[OF sample_configured valid_sample_request sample_counts(1) sample_exact(1,2) sample_counts(2,3)]
  by simp

text \<open>
  C1: Crash atomicity. From a configured simulator over an authenticated predecessor, after
  any sequence of publications (any request, any failpoint that does not inject a
  success, the process dying after any number of backend calls), crashes under any policy
  and abandonment faults, recovery finds the old or the new generation, never a miss.
\<close>
theorem publication_crash_atomic:
  assumes "reachable p n k m" and "aa_authenticated p"
  shows "recover m \<noteq> miss"
  using reachable_invariant[OF assms] safe_recovers by blast

theorem publication_crash_atomic_witness:
  "recover (crash \<lparr>retain_unsynced_namespace = False, retain_unsynced_anchor = True\<rparr>
     (fst (snd (snd (publish (killed sim_backend) sample_request False (sample_simulator, 15)))))) \<noteq> miss"
  using publication_crash_atomic[OF reachable.crashes[OF reachable.publishes[OF reachable.configured[OF sample_configured]]]
    sample_predecessor(1)] .

text \<open>
  C24: Durability. When \<^verbatim>\<open>publish\<close> reports \<^verbatim>\<open>published\<close> on a simulator whose failpoint does
  not inject a success, then after a crash under any policy the anchor is exactly the
  next one and recovery finds the new generation (the old one only if both generations
  have the same anchor).
\<close>
theorem published_survives_crash:
  assumes "publish sim_backend q held m = (r, h, t)" and "pr_status r = published"
    and "honest_failpoint m" and "predecessor_chain_valid m"
  shows "exact_anchor (live_anchor (crash policy t)) (sim_next m) \<and>
    recover (crash policy t) =
      (if exact_anchor (sim_next m) (sim_predecessor m) then old_generation else new_generation)"
proof -
  note out = published_outcome[OF assms(1-3), of policy]
  have keep: "sim_predecessor (crash policy t) = sim_predecessor m" "sim_next (crash policy t) = sim_next m"
    "predecessor_chain_valid (crash policy t)"
    using publish_keeps[of m q held] assms(1,4) by (simp_all add: keeps_def crash_frame)
  have "exact_anchor (live_anchor (crash policy t)) (sim_predecessor m) \<longleftrightarrow>
      exact_anchor (sim_next m) (sim_predecessor m)"
    using out(1) exact_anchor_sym exact_anchor_trans by blast
  then show ?thesis
    using out keep
    by (auto simp: recover_def generation_durable_def entry_durable_def entry_selected_def list_all_iff)
qed

theorem published_survives_crash_witness:
  "\<exists>t. publish sim_backend sample_request False sample_simulator = (published_result 17, False, t) \<and>
     recover (crash \<lparr>retain_unsynced_namespace = False, retain_unsynced_anchor = False\<rparr> t) = new_generation"
proof -
  obtain t where t: "publish sim_backend sample_request False sample_simulator = (published_result 17, False, t)"
    using sample_publishes by blast
  show ?thesis
    using published_survives_crash[OF t _ sample_counts(6,7)] t sample_exact(3) sample_counts(4,5)
    by (auto simp: published_result_def)
qed

text \<open>
  Definite failures. Any status other than \<^verbatim>\<open>published\<close>, \<^verbatim>\<open>anchor_visibility_uncertain\<close>
  and \<^verbatim>\<open>attempt_fencing_uncertain\<close> means that neither the live nor the durable anchor
  has moved, whatever the failpoint injected (a success included).
\<close>
theorem definite_failure_keeps_anchor:
  assumes "publish sim_backend q held m = (r, h, t)"
    and "pr_status r \<notin> {published, anchor_visibility_uncertain, attempt_fencing_uncertain}"
  shows "live_anchor t = live_anchor m \<and> durable_anchor t = durable_anchor m"
proof (cases "held \<or> \<not> valid_transition q")
  case False
  then have "publish_spec sim_backend q m = (r, t)"
    using assms(1) by (auto simp: publish_refines_script split: prod.splits)
  then show ?thesis using definite_failure assms(2) by (auto simp: same_anchors_def)
qed (use assms in \<open>auto simp: publish_refines_script split: if_splits\<close>)

theorem definite_failure_keeps_anchor_witness:
  "case publish sim_backend sample_request True sample_simulator of (r, h, t) \<Rightarrow>
     pr_status r = writer_busy \<and> live_anchor t = live_anchor sample_simulator"
  using definite_failure_keeps_anchor[of sample_request True sample_simulator
    "empty_publication_result\<lparr>pr_status := writer_busy\<rparr>" True sample_simulator]
  by (simp add: publish_def)



text \<open>
  C28: Liveness. On a configured simulator without failpoint, with no unequal destination
  and the digest that the next anchor selects, a valid request for its transition is
  published after exactly 6 k + 11 steps; in particular the trace bound suffices.
\<close>
theorem undisturbed_publishes:
  assumes "configured p n k m" and "valid_transition q" and "rq_object_count q = k"
    and "exact_anchor p (rq_expected_predecessor q)" and "exact_anchor (rq_next q) n"
    and "list_all (\<lambda>e. destination e \<noteq> unequal) (manifest m # objects m)"
    and "map_option ab_selected_manifest_digest (anchor_body_of (rq_next q)) = Some (verified_manifest_digest m)"
  shows "\<exists>t. publish sim_backend q False m = (published_result (6 * k + 11), False, t)"
  by (rule undisturbed_run[OF assms])

theorem undisturbed_publishes_witness:
  "\<exists>t. publish sim_backend sample_request False sample_simulator = (published_result 17, False, t)"
  using undisturbed_publishes[OF sample_configured valid_sample_request sample_counts(1) sample_exact(1,2)
    sample_counts(2,3)] by simp

end
