(* ===== verification/Scope.thy ===== *)
theory Scope
  imports Auth
begin

text \<open>
  \<^verbatim>\<open>halofpx-context-store-scope.{h,cpp}\<close>: the resolver that turns the bytes of the
  authentication layer into an opaque private namespace. The preimage is a fixed array;
  a writer yields \<^verbatim>\<open>None\<close> for a write outside it, which C++ leaves undefined.
  Shown: the resolver never writes outside the array, rejects in the order of its
  checks with a zero namespace, and otherwise returns the HMAC of a canonical preimage
  that determines every field of the policy.
\<close>

definition scope_master_key_bytes :: nat where "scope_master_key_bytes = 32"
definition scope_principal_max_bytes :: nat where "scope_principal_max_bytes = 16384"
definition scope_registered_id_max_bytes :: nat where "scope_registered_id_max_bytes = 128"

datatype scope_resolve_status =
    resolved | invalid_master_key | invalid_policy_key_id | invalid_authentication_issuer
  | invalid_principal | invalid_security_domain | invalid_policy_epoch | invalid_compatibility_root

record scope_policy =
  sp_policy_key :: byte_span
  sp_policy_key_id :: byte_span
  sp_authentication_issuer :: byte_span
  sp_authenticated_principal :: byte_span
  sp_security_domain :: byte_span
  sp_policy_epoch :: u64
  sp_compatibility_root :: digest

record scope_resolve_result =
  sr_status :: scope_resolve_status
  sr_namespace_id :: digest

definition scope_resolved :: "scope_resolve_result \<Rightarrow> bool" where
  "scope_resolved r \<longleftrightarrow> sr_status r = resolved"

definition namespace_domain :: "byte list" where
  "namespace_domain = domain_bytes ''halofpx.namespace.v1''"

definition cbor_head_max_bytes :: nat where "cbor_head_max_bytes = 9"

definition preimage_max_bytes :: nat where
  "preimage_max_bytes = length namespace_domain + 1 + 7 +
     3 * (cbor_head_max_bytes + scope_registered_id_max_bytes) +
     cbor_head_max_bytes + scope_principal_max_bytes +
     cbor_head_max_bytes + 1 + 2 + 32"

definition valid_required_span :: "byte_span \<Rightarrow> nat \<Rightarrow> bool" where
  "valid_required_span value maximum \<longleftrightarrow>
     \<not> span_null value \<and> span_size value \<noteq> 0 \<and> span_size value \<le> maximum"

definition scope_valid_registered_id :: "byte_span \<Rightarrow> bool" where
  "scope_valid_registered_id value \<longleftrightarrow>
     valid_required_span value scope_registered_id_max_bytes \<and>
     list_all (\<lambda>b. \<not> (b < 0x21 \<or> b > 0x7e)) (span_bytes value)"

definition append_bytes :: "byte_span \<Rightarrow> writer" where
  "append_bytes = append_span preimage_max_bytes"

definition append_cbor_head :: "nat \<Rightarrow> u64 \<Rightarrow> writer" where
  "append_cbor_head major value =
     (let put = append_byte preimage_max_bytes; rest = append_tail preimage_max_bytes value; top = push_bit 5 (of_nat major)
      in if value < 24 then put (top OR ucast value)
         else if value \<le> 0xff then run_writers [put (top OR 24), rest 1]
         else if value \<le> 0xffff then run_writers [put (top OR 25), rest 2]
         else if value \<le> 0xffffffff then run_writers [put (top OR 26), rest 4]
         else run_writers [put (top OR 27), rest 8])"

definition append_registered_id :: "byte_span \<Rightarrow> writer" where
  "append_registered_id value =
     run_writers [append_cbor_head 3 (of_nat (span_size value)), append_bytes value]"

definition append_byte_string :: "byte_span \<Rightarrow> writer" where
  "append_byte_string value =
     run_writers [append_cbor_head 2 (of_nat (span_size value)), append_bytes value]"

definition write_preimage :: "scope_policy \<Rightarrow> writer" where
  "write_preimage policy = run_writers [
     append_bytes (Span namespace_domain),
     append_cbor_head 5 7,
     append_cbor_head 0 0, append_registered_id (sp_policy_key_id policy),
     append_cbor_head 0 1, append_registered_id (sp_authentication_issuer policy),
     append_cbor_head 0 2, append_byte_string (sp_authenticated_principal policy),
     append_cbor_head 0 3, append_registered_id (sp_security_domain policy),
     append_cbor_head 0 4, append_cbor_head 0 (sp_policy_epoch policy),
     append_cbor_head 0 5, append_cbor_head 0 0,
     append_cbor_head 0 6, append_byte_string (Span (sp_compatibility_root policy))]"

definition scope_failure :: "scope_resolve_status \<Rightarrow> scope_resolve_result" where
  "scope_failure st = \<lparr>sr_status = st, sr_namespace_id = zero_digest\<rparr>"

text \<open>\<^verbatim>\<open>None\<close> stands for a write outside the preimage array.\<close>

definition context_store_resolve_private_scope_v1 :: "scope_policy \<Rightarrow> scope_resolve_result option" where
  "context_store_resolve_private_scope_v1 policy =
     (if span_null (sp_policy_key policy) \<or> span_size (sp_policy_key policy) \<noteq> scope_master_key_bytes
      then Some (scope_failure invalid_master_key)
      else if \<not> scope_valid_registered_id (sp_policy_key_id policy)
      then Some (scope_failure invalid_policy_key_id)
      else if \<not> scope_valid_registered_id (sp_authentication_issuer policy)
      then Some (scope_failure invalid_authentication_issuer)
      else if \<not> valid_required_span (sp_authenticated_principal policy) scope_principal_max_bytes
      then Some (scope_failure invalid_principal)
      else if \<not> scope_valid_registered_id (sp_security_domain policy)
      then Some (scope_failure invalid_security_domain)
      else if sp_policy_epoch policy = 0
      then Some (scope_failure invalid_policy_epoch)
      else if \<not> nonzero (sp_compatibility_root policy)
      then Some (scope_failure invalid_compatibility_root)
      else (case write_preimage policy [] of
         None \<Rightarrow> None
       | Some preimage \<Rightarrow>
           (case context_store_hmac_sha256 (sp_policy_key policy) (Span preimage) of
              None \<Rightarrow> Some (scope_failure invalid_master_key)
            | Some namespace_id \<Rightarrow> Some \<lparr>sr_status = resolved, sr_namespace_id = namespace_id\<rparr>)))"

subsection \<open>The preimage\<close>

definition namespace_preimage :: "scope_policy \<Rightarrow> byte list" where
  "namespace_preimage policy =
     namespace_domain @ cbor_head 5 7
     @ cbor_uint 0 @ cbor_text (span_bytes (sp_policy_key_id policy))
     @ cbor_uint 1 @ cbor_text (span_bytes (sp_authentication_issuer policy))
     @ cbor_uint 2 @ cbor_bytes (span_bytes (sp_authenticated_principal policy))
     @ cbor_uint 3 @ cbor_text (span_bytes (sp_security_domain policy))
     @ cbor_uint 4 @ cbor_uint (sp_policy_epoch policy)
     @ cbor_uint 5 @ cbor_uint 0
     @ cbor_uint 6 @ cbor_bytes (sp_compatibility_root policy)"

lemma emits_append_cbor_head [emits_intros]:
  "emits preimage_max_bytes (append_cbor_head m v) (cbor_head m v)"
proof -
  have "append_cbor_head m v = head_writer preimage_max_bytes m v"
    by (simp add: append_cbor_head_def head_writer_def Let_def del: run_writers.simps cong: if_cong)
  then show ?thesis by (simp add: emits_head_writer)
qed

interpretation scope_encoder: encoder preimage_max_bytes append_cbor_head
  by unfold_locales (rule emits_append_cbor_head)

lemma emits_scope_fields:
  assumes "\<not> span_null v"
  shows "emits preimage_max_bytes (append_registered_id v) (cbor_text (span_bytes v))"
    "emits preimage_max_bytes (append_byte_string v) (cbor_bytes (span_bytes v))"
proof -
  obtain bs where "v = Span bs" using assms by (cases v) auto
  then show "emits preimage_max_bytes (append_registered_id v) (cbor_text (span_bytes v))"
    "emits preimage_max_bytes (append_byte_string v) (cbor_bytes (span_bytes v))"
    by (simp_all add: append_registered_id_def append_byte_string_def append_bytes_def
      scope_encoder.emits_byte_string scope_encoder.emits_text_string del: run_writers.simps)
qed

definition scope_policy_ok :: "scope_policy \<Rightarrow> bool" where
  "scope_policy_ok policy \<longleftrightarrow>
     \<not> span_null (sp_policy_key policy) \<and> span_size (sp_policy_key policy) = scope_master_key_bytes \<and>
     scope_valid_registered_id (sp_policy_key_id policy) \<and>
     scope_valid_registered_id (sp_authentication_issuer policy) \<and>
     valid_required_span (sp_authenticated_principal policy) scope_principal_max_bytes \<and>
     scope_valid_registered_id (sp_security_domain policy) \<and>
     sp_policy_epoch policy \<noteq> 0 \<and> nonzero (sp_compatibility_root policy)"

lemma length_namespace_domain: "length namespace_domain = 21"
  by (simp add: namespace_domain_def domain_bytes_def ascii_bytes_def)

lemma valid_required_span_bytes:
  "valid_required_span v n \<Longrightarrow> \<not> span_null v \<and> length (span_bytes v) = span_size v \<and> length (span_bytes v) \<le> n"
  by (cases v) (auto simp: valid_required_span_def)

lemma emits_write_preimage:
  assumes "scope_policy_ok policy"
  shows "emits preimage_max_bytes (write_preimage policy) (namespace_preimage policy)"
proof -
  have spans: "\<not> span_null (sp_policy_key_id policy)" "\<not> span_null (sp_authentication_issuer policy)"
    "\<not> span_null (sp_authenticated_principal policy)" "\<not> span_null (sp_security_domain policy)"
    using assms by (auto simp: scope_policy_ok_def scope_valid_registered_id_def dest: valid_required_span_bytes)
  note root = emits_Cons [OF emits_scope_fields(2) [of "Span (sp_compatibility_root policy)"] emits_Nil,
      simplified append_Nil2 span_bytes.simps span_null.simps simp_thms]
  have domain: "emits preimage_max_bytes (append_bytes (Span namespace_domain)) namespace_domain"
    by (simp add: append_bytes_def emits_append_span)
  show ?thesis
    unfolding write_preimage_def namespace_preimage_def
    by (intro emits_Cons root domain emits_append_cbor_head emits_scope_fields spans TrueI)
qed

lemma namespace_preimage_bound:
  assumes "scope_policy_ok policy" "length (sp_compatibility_root policy) = 32"
  shows "length (namespace_preimage policy) \<le> preimage_max_bytes"
proof -
  have root: "length (cbor_bytes (sp_compatibility_root policy)) = 34"
    using assms(2) by (simp add: cbor_bytes_def cbor_head_def be_bytes_def)
  have ids: "length (cbor_text (span_bytes v)) \<le> 9 + 128" if "scope_valid_registered_id v" for v
    using that valid_required_span_bytes [of v 128] length_cbor_head_le [of 3 "of_nat (length (span_bytes v))"]
    by (simp add: scope_valid_registered_id_def scope_registered_id_max_bytes_def cbor_text_def)
  have principal: "length (cbor_bytes (span_bytes (sp_authenticated_principal policy))) \<le> 9 + 16384"
    using assms(1) valid_required_span_bytes [of "sp_authenticated_principal policy" 16384]
      length_cbor_head_le [of 2 "of_nat (length (span_bytes (sp_authenticated_principal policy)))"]
    by (simp add: scope_policy_ok_def scope_principal_max_bytes_def cbor_bytes_def)
  show ?thesis
    using assms(1) ids [of "sp_policy_key_id policy"] ids [of "sp_authentication_issuer policy"]
      ids [of "sp_security_domain policy"] principal root length_cbor_head_le [of 0 "sp_policy_epoch policy"]
    by (simp add: namespace_preimage_def preimage_max_bytes_def length_namespace_domain length_small_head cbor_head_max_bytes_def
      scope_registered_id_max_bytes_def scope_principal_max_bytes_def scope_policy_ok_def)
qed

lemma resolve_scope_ok:
  assumes "scope_policy_ok policy" "length (sp_compatibility_root policy) = 32"
  shows "context_store_resolve_private_scope_v1 policy = Some \<lparr>sr_status = resolved,
    sr_namespace_id = hmac_sha256 (span_bytes (sp_policy_key policy)) (namespace_preimage policy)\<rparr>"
proof -
  have w: "write_preimage policy [] = Some (namespace_preimage policy)"
    by (rule emitsD [OF emits_write_preimage [OF assms(1)] namespace_preimage_bound [OF assms]])
  have key: "valid_span (sp_policy_key policy)" "span_size (sp_policy_key policy) \<le> master_key_max_bytes"
    using assms(1) by (simp_all add: scope_policy_ok_def valid_span_def scope_master_key_bytes_def master_key_max_bytes_def)
  have msg: "spans_ok [Span (namespace_preimage policy)] crypto_input_max_bytes"
    using namespace_preimage_bound [OF assms]
    by (simp add: spans_ok_def spans_bytes_def valid_span_def crypto_input_max_bytes_def manifest_max_bytes_def
      preimage_max_bytes_def length_namespace_domain cbor_head_max_bytes_def scope_registered_id_max_bytes_def
      scope_principal_max_bytes_def)
  have "context_store_hmac_sha256 (sp_policy_key policy) (Span (namespace_preimage policy)) =
      Some (hmac_sha256 (span_bytes (sp_policy_key policy)) (namespace_preimage policy))"
    using key msg by (simp add: context_store_hmac_sha256_def hmac_spans_iff spans_bytes_def)
  then show ?thesis
    using assms(1) w by (simp add: context_store_resolve_private_scope_v1_def scope_policy_ok_def)
qed

definition same_scope :: "scope_policy \<Rightarrow> scope_policy \<Rightarrow> bool" where
  "same_scope p q \<longleftrightarrow>
     span_bytes (sp_policy_key_id p) = span_bytes (sp_policy_key_id q) \<and>
     span_bytes (sp_authentication_issuer p) = span_bytes (sp_authentication_issuer q) \<and>
     span_bytes (sp_authenticated_principal p) = span_bytes (sp_authenticated_principal q) \<and>
     span_bytes (sp_security_domain p) = span_bytes (sp_security_domain q) \<and>
     sp_policy_epoch p = sp_policy_epoch q \<and> sp_compatibility_root p = sp_compatibility_root q"

lemma scope_lengths:
  assumes "scope_policy_ok p"
  shows "length (span_bytes (sp_policy_key_id p)) < 2 ^ 64" "length (span_bytes (sp_authentication_issuer p)) < 2 ^ 64"
    "length (span_bytes (sp_authenticated_principal p)) < 2 ^ 64" "length (span_bytes (sp_security_domain p)) < 2 ^ 64"
  using assms valid_required_span_bytes
  by (fastforce simp: scope_policy_ok_def scope_valid_registered_id_def scope_registered_id_max_bytes_def
    scope_principal_max_bytes_def)+

lemma namespace_preimage_inj:
  assumes "scope_policy_ok p" "scope_policy_ok q"
    "length (sp_compatibility_root p) = 32" "length (sp_compatibility_root q) = 32"
    "namespace_preimage p = namespace_preimage q"
  shows "same_scope p q"
proof -
  note inj = cbor_text_inj [OF scope_lengths(1) scope_lengths(1)] cbor_text_inj [OF scope_lengths(2) scope_lengths(2)]
    cbor_text_inj [OF scope_lengths(3) scope_lengths(3)] cbor_text_inj [OF scope_lengths(4) scope_lengths(4)]
  have roots: "cbor_bytes (sp_compatibility_root p) = cbor_bytes (sp_compatibility_root q) \<longleftrightarrow>
      sp_compatibility_root p = sp_compatibility_root q"
    using cbor_text_inj(2) [of "sp_compatibility_root p" "sp_compatibility_root q" "[]" "[]"] assms(3,4) by simp
  show ?thesis
    using assms(5)
    by (simp add: namespace_preimage_def same_scope_def inj [OF assms(1,2)] cbor_head_inj roots)
qed

subsection \<open>The guarantees of the resolver\<close>

text \<open>
  The scope resolver stays inside its preimage array on every input, resolves exactly the
  policies that pass all seven checks, then returns the HMAC-SHA256, under the policy
  key, of the canonical preimage, and returns the all-zero namespace on every rejection.
\<close>
theorem resolve_scope_exact:
  assumes "length (sp_compatibility_root policy) = 32"
  shows "\<exists>r. context_store_resolve_private_scope_v1 policy = Some r \<and>
    (scope_resolved r \<longleftrightarrow> scope_policy_ok policy) \<and>
    sr_namespace_id r = (if scope_policy_ok policy
      then hmac_sha256 (span_bytes (sp_policy_key policy)) (namespace_preimage policy) else zero_digest)"
proof (cases "scope_policy_ok policy")
  case True
  then show ?thesis using resolve_scope_ok [OF True assms] by (simp add: scope_resolved_def)
next
  case False
  then show ?thesis
    by (auto simp: scope_policy_ok_def context_store_resolve_private_scope_v1_def scope_failure_def scope_resolved_def)
qed

definition sample_policy :: scope_policy where
  "sample_policy = \<lparr>sp_policy_key = Span (replicate 32 1), sp_policy_key_id = Span [0x6b],
     sp_authentication_issuer = Span [0x69], sp_authenticated_principal = Span [1, 2, 3],
     sp_security_domain = Span [0x64], sp_policy_epoch = 1, sp_compatibility_root = replicate 32 7\<rparr>"

lemma sample_policy_ok: "scope_policy_ok sample_policy" "length (sp_compatibility_root sample_policy) = 32"
  by (simp_all add: sample_policy_def scope_policy_ok_def scope_master_key_bytes_def scope_valid_registered_id_def
    valid_required_span_def scope_registered_id_max_bytes_def scope_principal_max_bytes_def nonzero_iff)

theorem resolve_scope_exact_witness:
  "\<exists>r. context_store_resolve_private_scope_v1 sample_policy = Some r \<and> scope_resolved r \<and>
     sr_namespace_id r = hmac_sha256 (replicate 32 1) (namespace_preimage sample_policy)"
proof -
  have "span_bytes (sp_policy_key sample_policy) = replicate 32 1"
    by (simp add: sample_policy_def)
  then show ?thesis using resolve_scope_exact [OF sample_policy_ok(2)] sample_policy_ok(1) by auto
qed

text \<open>
  C27: Tenant isolation. Two resolved policies under the same key that receive the same
  namespace agree on key id, issuer, principal, security domain, epoch and compatibility
  root, unless their preimages are two different messages with the same HMAC-SHA256 tag
  under that key.
\<close>
theorem scope_isolation:
  assumes "length (sp_compatibility_root p) = 32" and "length (sp_compatibility_root q) = 32"
    and "span_bytes (sp_policy_key p) = k" and "span_bytes (sp_policy_key q) = k"
    and "context_store_resolve_private_scope_v1 p = Some rp" and "context_store_resolve_private_scope_v1 q = Some rq"
    and "scope_resolved rp" and "scope_resolved rq" and "sr_namespace_id rp = sr_namespace_id rq"
  shows "same_scope p q \<or> (namespace_preimage p \<noteq> namespace_preimage q \<and>
    hmac_sha256 k (namespace_preimage p) = hmac_sha256 k (namespace_preimage q))"
proof -
  have ok: "scope_policy_ok policy \<and> sr_namespace_id r = hmac_sha256 (span_bytes (sp_policy_key policy)) (namespace_preimage policy)"
    if "context_store_resolve_private_scope_v1 policy = Some r" "scope_resolved r"
      "length (sp_compatibility_root policy) = 32" for policy r
  proof (cases "scope_policy_ok policy")
    case True
    then show ?thesis using resolve_scope_ok [OF True that(3)] that(1) by auto
  next
    case False
    then show ?thesis
      using that by (auto simp: scope_policy_ok_def context_store_resolve_private_scope_v1_def scope_failure_def
        scope_resolved_def split: if_splits)
  qed
  show ?thesis
    using ok [OF assms(5,7,1)] ok [OF assms(6,8,2)] namespace_preimage_inj [of p q] assms by auto
qed

theorem scope_isolation_witness:
  "\<exists>r. context_store_resolve_private_scope_v1 sample_policy = Some r \<and> scope_resolved r \<and>
     same_scope sample_policy sample_policy"
proof -
  obtain r where r: "context_store_resolve_private_scope_v1 sample_policy = Some r" "scope_resolved r"
    using resolve_scope_ok [OF sample_policy_ok] by (simp add: scope_resolved_def)
  show ?thesis
    using scope_isolation [OF sample_policy_ok(2,2) refl refl r(1,1,2,2) refl] r by blast
qed

end
