(* ===== verification/Two_Rank.thy ===== *)
theory Two_Rank
  imports HaloFPX_Prelude
begin

text \<open>
  \<^verbatim>\<open>halofpx-context-store-two-rank-contract.{h,cpp}\<close>: the closed two-rank coordinator. The two
  provider objects and the publisher are parameters (\<^verbatim>\<open>two_rank_env\<close>, one function per
  virtual method over a shared world state); a provider pointer is an address or null.
  Enumerations that arrive from a provider keep a constructor for values outside their
  domain, which the code tests for.
  Shown: what an authorised publication rests on, that a published manifest passes the
  checks of a later restore, that a restore is accepted only on four exact receipts and
  reports every possibly changed context, and that no attempt nonce is used twice.
\<close>

subsection \<open>Data\<close>

definition two_rank_world_size :: u32 where "two_rank_world_size = 2"
definition two_rank_count :: nat where "two_rank_count = 2"
definition attempt_ledger_size :: nat where "attempt_ledger_size = 64"

record checkpoint_identity =
  ci_world_size :: u32
  ci_ordered_ranks :: "u32 list"
  ci_generation :: u64
  ci_token_count :: u64
  ci_token_boundary :: u64
  ci_model_shards_digest :: digest
  ci_runtime_state_abi_digest :: digest
  ci_kv_representation_digest :: digest
  ci_partition_plan_digest :: digest
  ci_topology_digest :: digest
  ci_checkpoint_digest :: digest
  ci_token_prefix_digest :: digest
  ci_rank_ownership_digests :: "digest list"

record two_rank_operation =
  to_checkpoint :: checkpoint_identity
  to_attempt_nonce :: digest

record capture_request =
  cr_logical_rank :: u32
  cr_expected_bytes :: u64
  cr_expected_components :: u32

datatype receipt_phase = phase_capture | phase_stage | phase_commit_apply | phase_other byte

datatype receipt_status =
    durable | ready | applied | definitely_not_applied | missing | corrupt | incompatible | timed_out | rejected
  | status_other byte

record two_rank_receipt =
  rc_phase :: receipt_phase
  rc_status :: receipt_status
  rc_checkpoint :: checkpoint_identity
  rc_attempt_nonce :: digest
  rc_logical_rank :: u32
  rc_ownership_digest :: digest
  rc_object_digest :: digest
  rc_source_receipt_nonce :: digest
  rc_receipt_nonce :: digest
  rc_verified_bytes :: u64
  rc_verified_components :: u32

record two_rank_object =
  ob_logical_rank :: u32
  ob_ownership_digest :: digest
  ob_object_digest :: digest
  ob_durable_receipt_nonce :: digest
  ob_verified_bytes :: u64
  ob_verified_components :: u32

record two_rank_manifest =
  mf_checkpoint :: checkpoint_identity
  mf_ranks :: "two_rank_object list"

datatype publication_outcome =
    outcome_published | outcome_not_published | outcome_publication_unknown | outcome_publication_other byte

datatype commit_outcome =
    commit_definitely_not_applied | commit_applied | commit_unknown | commit_other byte

record commit_result =
  cm_outcome :: commit_outcome
  cm_receipt :: two_rank_receipt

datatype two_rank_status =
    published | restore_accepted | invalid_contract | attempt_replayed | attempt_ledger_full | invalid_manifest
  | receipt_mismatch | duplicate_receipt | rank_missing | rank_corrupt | rank_incompatible | rank_timed_out
  | rank_rejected | publication_not_completed | publication_outcome_unknown | commit_not_applied
  | commit_outcome_unknown | recreation_required

record two_rank_result =
  tr_status :: two_rank_status
  tr_manifest :: two_rank_manifest
  tr_publication_authorized :: bool
  tr_commit_authorized :: bool
  tr_restore_accepted :: bool
  tr_recreation_required :: bool

type_synonym provider_pointer = "nat option"

record 's two_rank_env =
  env_capture :: "nat \<Rightarrow> two_rank_operation \<Rightarrow> capture_request \<Rightarrow> 's \<Rightarrow> two_rank_receipt \<times> 's"
  env_stage :: "nat \<Rightarrow> two_rank_operation \<Rightarrow> two_rank_object \<Rightarrow> 's \<Rightarrow> two_rank_receipt \<times> 's"
  env_commit_apply :: "nat \<Rightarrow> two_rank_operation \<Rightarrow> two_rank_object \<Rightarrow> two_rank_receipt \<Rightarrow> 's \<Rightarrow> commit_result \<times> 's"
  env_abort :: "nat \<Rightarrow> two_rank_operation \<Rightarrow> 's \<Rightarrow> 's"
  env_publish :: "two_rank_operation \<Rightarrow> two_rank_manifest \<Rightarrow> two_rank_receipt list \<Rightarrow> 's \<Rightarrow> publication_outcome \<times> 's"

text \<open>The used prefix of the coordinator's array of attempts.\<close>

type_synonym attempt_ledger = "digest list"

definition zero32 :: digest where "zero32 = replicate 32 0"

definition empty_checkpoint :: checkpoint_identity where
  "empty_checkpoint = \<lparr>ci_world_size = 0, ci_ordered_ranks = [0, 0], ci_generation = 0, ci_token_count = 0,
     ci_token_boundary = 0, ci_model_shards_digest = zero32, ci_runtime_state_abi_digest = zero32,
     ci_kv_representation_digest = zero32, ci_partition_plan_digest = zero32, ci_topology_digest = zero32,
     ci_checkpoint_digest = zero32, ci_token_prefix_digest = zero32, ci_rank_ownership_digests = [zero32, zero32]\<rparr>"

definition empty_object :: two_rank_object where
  "empty_object = \<lparr>ob_logical_rank = 0, ob_ownership_digest = zero32, ob_object_digest = zero32,
     ob_durable_receipt_nonce = zero32, ob_verified_bytes = 0, ob_verified_components = 0\<rparr>"

definition empty_result :: two_rank_result where
  "empty_result = \<lparr>tr_status = invalid_contract,
     tr_manifest = \<lparr>mf_checkpoint = empty_checkpoint, mf_ranks = [empty_object, empty_object]\<rparr>,
     tr_publication_authorized = False, tr_commit_authorized = False, tr_restore_accepted = False,
     tr_recreation_required = False\<rparr>"

subsection \<open>Checks\<close>

definition expected_ranks :: "u32 list" where "expected_ranks = [0, 1]"

definition same_checkpoint :: "checkpoint_identity \<Rightarrow> checkpoint_identity \<Rightarrow> bool" where
  "same_checkpoint left right \<longleftrightarrow>
     ci_world_size left = ci_world_size right \<and> ci_ordered_ranks left = ci_ordered_ranks right \<and>
     ci_generation left = ci_generation right \<and> ci_token_count left = ci_token_count right \<and>
     ci_token_boundary left = ci_token_boundary right \<and>
     ci_model_shards_digest left = ci_model_shards_digest right \<and>
     ci_runtime_state_abi_digest left = ci_runtime_state_abi_digest right \<and>
     ci_kv_representation_digest left = ci_kv_representation_digest right \<and>
     ci_partition_plan_digest left = ci_partition_plan_digest right \<and>
     ci_topology_digest left = ci_topology_digest right \<and>
     ci_checkpoint_digest left = ci_checkpoint_digest right \<and>
     ci_token_prefix_digest left = ci_token_prefix_digest right \<and>
     ci_rank_ownership_digests left = ci_rank_ownership_digests right"

definition valid_checkpoint :: "checkpoint_identity \<Rightarrow> bool" where
  "valid_checkpoint c \<longleftrightarrow>
     \<not> (ci_world_size c \<noteq> two_rank_world_size \<or> ci_ordered_ranks c \<noteq> expected_ranks \<or>
        ci_generation c = 0 \<or> ci_token_count c = 0 \<or> ci_token_boundary c \<noteq> ci_token_count c \<or>
        \<not> nonzero (ci_model_shards_digest c) \<or> \<not> nonzero (ci_runtime_state_abi_digest c) \<or>
        \<not> nonzero (ci_kv_representation_digest c) \<or> \<not> nonzero (ci_partition_plan_digest c) \<or>
        \<not> nonzero (ci_topology_digest c) \<or> \<not> nonzero (ci_checkpoint_digest c) \<or>
        \<not> nonzero (ci_token_prefix_digest c)) \<and>
     list_all nonzero (ci_rank_ownership_digests c)"

definition valid_operation :: "two_rank_operation \<Rightarrow> bool" where
  "valid_operation operation \<longleftrightarrow> valid_checkpoint (to_checkpoint operation) \<and> nonzero (to_attempt_nonce operation)"

fun failure_status :: "receipt_status \<Rightarrow> two_rank_status" where
  "failure_status missing = rank_missing"
| "failure_status corrupt = rank_corrupt"
| "failure_status incompatible = rank_incompatible"
| "failure_status timed_out = rank_timed_out"
| "failure_status rejected = rank_rejected"
| "failure_status definitely_not_applied = rank_rejected"
| "failure_status durable = receipt_mismatch"
| "failure_status ready = receipt_mismatch"
| "failure_status applied = receipt_mismatch"
| "failure_status (status_other _) = rank_rejected"

definition exact_receipt_base ::
    "two_rank_receipt \<Rightarrow> two_rank_operation \<Rightarrow> u32 \<Rightarrow> digest \<Rightarrow> u64 \<Rightarrow> u32 \<Rightarrow> bool" where
  "exact_receipt_base receipt operation logical_rank object_digest expected_bytes expected_components \<longleftrightarrow>
     same_checkpoint (rc_checkpoint receipt) (to_checkpoint operation) \<and>
     rc_attempt_nonce receipt = to_attempt_nonce operation \<and>
     rc_logical_rank receipt = logical_rank \<and>
     rc_ownership_digest receipt = ci_rank_ownership_digests (to_checkpoint operation) ! unat logical_rank \<and>
     rc_object_digest receipt = object_digest \<and>
     nonzero (rc_object_digest receipt) \<and> nonzero (rc_receipt_nonce receipt) \<and>
     rc_verified_bytes receipt = expected_bytes \<and> rc_verified_components receipt = expected_components"

definition exact_capture_receipt :: "two_rank_receipt \<Rightarrow> two_rank_operation \<Rightarrow> capture_request \<Rightarrow> bool" where
  "exact_capture_receipt receipt operation request \<longleftrightarrow>
     rc_phase receipt = phase_capture \<and> rc_status receipt = durable \<and>
     same_checkpoint (rc_checkpoint receipt) (to_checkpoint operation) \<and>
     rc_attempt_nonce receipt = to_attempt_nonce operation \<and>
     rc_logical_rank receipt = cr_logical_rank request \<and>
     rc_ownership_digest receipt = ci_rank_ownership_digests (to_checkpoint operation) ! unat (cr_logical_rank request) \<and>
     nonzero (rc_object_digest receipt) \<and>
     \<not> nonzero (rc_source_receipt_nonce receipt) \<and> nonzero (rc_receipt_nonce receipt) \<and>
     rc_verified_bytes receipt = cr_expected_bytes request \<and>
     rc_verified_components receipt = cr_expected_components request"

definition exact_stage_receipt :: "two_rank_receipt \<Rightarrow> two_rank_operation \<Rightarrow> two_rank_object \<Rightarrow> bool" where
  "exact_stage_receipt receipt operation object \<longleftrightarrow>
     rc_phase receipt = phase_stage \<and> rc_status receipt = ready \<and>
     rc_source_receipt_nonce receipt = ob_durable_receipt_nonce object \<and>
     exact_receipt_base receipt operation (ob_logical_rank object) (ob_object_digest object)
       (ob_verified_bytes object) (ob_verified_components object)"

definition exact_applied_receipt ::
    "two_rank_receipt \<Rightarrow> two_rank_operation \<Rightarrow> two_rank_object \<Rightarrow> two_rank_receipt \<Rightarrow> bool" where
  "exact_applied_receipt receipt operation object rdy \<longleftrightarrow>
     rc_phase receipt = phase_commit_apply \<and> rc_status receipt = applied \<and>
     rc_source_receipt_nonce receipt = ob_durable_receipt_nonce object \<and>
     rc_receipt_nonce receipt = rc_receipt_nonce rdy \<and>
     exact_receipt_base receipt operation (ob_logical_rank object) (ob_object_digest object)
       (ob_verified_bytes object) (ob_verified_components object)"

definition exact_not_applied_receipt ::
    "two_rank_receipt \<Rightarrow> two_rank_operation \<Rightarrow> two_rank_object \<Rightarrow> two_rank_receipt \<Rightarrow> bool" where
  "exact_not_applied_receipt receipt operation object rdy \<longleftrightarrow>
     rc_phase receipt = phase_commit_apply \<and> rc_status receipt = definitely_not_applied \<and>
     rc_source_receipt_nonce receipt = ob_durable_receipt_nonce object \<and>
     rc_receipt_nonce receipt = rc_receipt_nonce rdy \<and>
     exact_receipt_base receipt operation (ob_logical_rank object) (ob_object_digest object)
       (ob_verified_bytes object) (ob_verified_components object)"

definition valid_manifest_object :: "two_rank_operation \<Rightarrow> nat \<Rightarrow> two_rank_object \<Rightarrow> bool" where
  "valid_manifest_object operation index object \<longleftrightarrow>
     \<not> (ob_logical_rank object \<noteq> expected_ranks ! index \<or>
        ob_ownership_digest object \<noteq> ci_rank_ownership_digests (to_checkpoint operation) ! index \<or>
        \<not> nonzero (ob_object_digest object) \<or> \<not> nonzero (ob_durable_receipt_nonce object) \<or>
        ob_verified_bytes object = 0 \<or> ob_verified_components object = 0)"

definition valid_manifest :: "two_rank_manifest \<Rightarrow> two_rank_operation \<Rightarrow> bool" where
  "valid_manifest manifest operation \<longleftrightarrow>
     same_checkpoint (mf_checkpoint manifest) (to_checkpoint operation) \<and>
     list_all (\<lambda>index. valid_manifest_object operation index (mf_ranks manifest ! index)) [0..<two_rank_count] \<and>
     ob_durable_receipt_nonce (mf_ranks manifest ! 0) \<noteq> ob_durable_receipt_nonce (mf_ranks manifest ! 1)"

fun abort_attempted ::
    "'s two_rank_env \<Rightarrow> two_rank_operation \<Rightarrow> nat list \<Rightarrow> nat \<Rightarrow> 's \<Rightarrow> 's" where
  "abort_attempted env operation providers 0 s = s"
| "abort_attempted env operation providers (Suc attempted_count) s =
     abort_attempted env operation providers attempted_count
       (env_abort env (providers ! attempted_count) operation s)"

datatype attempt_admission = admitted | invalid | replayed | ledger_full

definition consume_attempt :: "two_rank_operation \<Rightarrow> attempt_ledger \<Rightarrow> attempt_admission \<times> attempt_ledger" where
  "consume_attempt operation used_attempts =
     (if \<not> valid_operation operation then (invalid, used_attempts)
      else if list_ex (\<lambda>a. a = to_attempt_nonce operation) used_attempts then (replayed, used_attempts)
      else if length used_attempts = attempt_ledger_size then (ledger_full, used_attempts)
      else (admitted, used_attempts @ [to_attempt_nonce operation]))"

definition admission_failure :: "attempt_admission \<Rightarrow> two_rank_result" where
  "admission_failure admission =
     (if admission = replayed then empty_result\<lparr>tr_status := attempt_replayed\<rparr>
      else if admission = ledger_full then empty_result\<lparr>tr_status := attempt_ledger_full\<rparr>
      else empty_result)"

text \<open>The addresses of two distinct non-null providers.\<close>

definition valid_providers :: "provider_pointer list \<Rightarrow> bool" where
  "valid_providers providers \<longleftrightarrow>
     providers ! 0 \<noteq> None \<and> providers ! 1 \<noteq> None \<and> providers ! 0 \<noteq> providers ! 1"

subsection \<open>The coordinator\<close>

text \<open>
  The loop over the ranks that both operations run: call the provider, demand the
  positive status, then the exact receipt, then a nonce different from the first one.
\<close>

fun rank_loop ::
    "(nat \<Rightarrow> 's \<Rightarrow> two_rank_receipt \<times> 's) \<Rightarrow> receipt_status \<Rightarrow> (two_rank_receipt \<Rightarrow> nat \<Rightarrow> bool)
      \<Rightarrow> nat list \<Rightarrow> two_rank_receipt list \<Rightarrow> nat \<Rightarrow> 's
      \<Rightarrow> two_rank_status option \<times> two_rank_receipt list \<times> nat \<times> 's" where
  "rank_loop call positive exact [] receipts attempted_count s = (None, receipts, attempted_count, s)"
| "rank_loop call positive exact (index # rest) receipts attempted_count s =
     (case call index s of (receipt, t) \<Rightarrow>
        if rc_status receipt \<noteq> positive
        then (Some (failure_status (rc_status receipt)), receipts @ [receipt], attempted_count + 1, t)
        else if \<not> exact receipt index
        then (Some receipt_mismatch, receipts @ [receipt], attempted_count + 1, t)
        else if index \<noteq> 0 \<and> rc_receipt_nonce receipt = rc_receipt_nonce (receipts ! 0)
        then (Some duplicate_receipt, receipts @ [receipt], attempted_count + 1, t)
        else rank_loop call positive exact rest (receipts @ [receipt]) (attempted_count + 1) t)"

definition capture_ranks ::
    "'s two_rank_env \<Rightarrow> two_rank_operation \<Rightarrow> capture_request list \<Rightarrow> nat list \<Rightarrow> 's
      \<Rightarrow> two_rank_status option \<times> two_rank_receipt list \<times> nat \<times> 's" where
  "capture_ranks env operation requests providers =
     rank_loop (\<lambda>index. env_capture env (providers ! index) operation (requests ! index)) durable
       (\<lambda>receipt index. exact_capture_receipt receipt operation (requests ! index))
       [0..<two_rank_count] [] 0"

definition stage_ranks ::
    "'s two_rank_env \<Rightarrow> two_rank_operation \<Rightarrow> two_rank_manifest \<Rightarrow> nat list \<Rightarrow> 's
      \<Rightarrow> two_rank_status option \<times> two_rank_receipt list \<times> nat \<times> 's" where
  "stage_ranks env operation manifest providers =
     rank_loop (\<lambda>index. env_stage env (providers ! index) operation (mf_ranks manifest ! index)) ready
       (\<lambda>receipt index. exact_stage_receipt receipt operation (mf_ranks manifest ! index))
       [0..<two_rank_count] [] 0"

definition captured_object :: "two_rank_receipt list \<Rightarrow> nat \<Rightarrow> two_rank_object" where
  "captured_object receipts index = \<lparr>ob_logical_rank = of_nat index,
     ob_ownership_digest = rc_ownership_digest (receipts ! index),
     ob_object_digest = rc_object_digest (receipts ! index),
     ob_durable_receipt_nonce = rc_receipt_nonce (receipts ! index),
     ob_verified_bytes = rc_verified_bytes (receipts ! index),
     ob_verified_components = rc_verified_components (receipts ! index)\<rparr>"

definition valid_requests :: "capture_request list \<Rightarrow> bool" where
  "valid_requests requests \<longleftrightarrow>
     \<not> (cr_logical_rank (requests ! 0) \<noteq> 0 \<or> cr_logical_rank (requests ! 1) \<noteq> 1 \<or>
        cr_expected_bytes (requests ! 0) = 0 \<or> cr_expected_bytes (requests ! 1) = 0 \<or>
        cr_expected_components (requests ! 0) = 0 \<or> cr_expected_components (requests ! 1) = 0)"

definition publish_captured ::
    "'s two_rank_env \<Rightarrow> two_rank_operation \<Rightarrow> nat list \<Rightarrow> two_rank_receipt list \<Rightarrow> nat \<Rightarrow> 's
      \<Rightarrow> two_rank_result \<times> 's" where
  "publish_captured env operation providers receipts attempted_count s =
     (let manifest = \<lparr>mf_checkpoint = to_checkpoint operation, mf_ranks = map (captured_object receipts) [0..<two_rank_count]\<rparr>;
          result = empty_result\<lparr>tr_manifest := manifest, tr_publication_authorized := True\<rparr>
      in case env_publish env operation manifest receipts s of (outcome, t) \<Rightarrow>
           if outcome = outcome_published then (result\<lparr>tr_status := published\<rparr>, t)
           else if outcome = outcome_not_published
           then (result\<lparr>tr_status := publication_not_completed\<rparr>,
                 abort_attempted env operation providers attempted_count t)
           else (result\<lparr>tr_status := publication_outcome_unknown\<rparr>, t))"

definition capture_and_publish ::
    "'s two_rank_env \<Rightarrow> two_rank_operation \<Rightarrow> capture_request list \<Rightarrow> provider_pointer list
      \<Rightarrow> attempt_ledger \<Rightarrow> 's \<Rightarrow> two_rank_result \<times> attempt_ledger \<times> 's" where
  "capture_and_publish env operation requests providers used_attempts s =
     (if \<not> valid_providers providers \<or> \<not> valid_requests requests then (empty_result, used_attempts, s)
      else case consume_attempt operation used_attempts of (admission, used) \<Rightarrow>
        if admission \<noteq> admitted then (admission_failure admission, used, s)
        else let addresses = map the providers in
          (case capture_ranks env operation requests addresses s of
             (Some status, receipts, attempted_count, t) \<Rightarrow>
               (empty_result\<lparr>tr_status := status\<rparr>, used, abort_attempted env operation addresses attempted_count t)
           | (None, receipts, attempted_count, t) \<Rightarrow>
               (case publish_captured env operation addresses receipts attempted_count t of
                  (result, u) \<Rightarrow> (result, used, u))))"

definition recreate :: "two_rank_status \<Rightarrow> two_rank_result \<Rightarrow> two_rank_result" where
  "recreate st result = result\<lparr>tr_status := st, tr_recreation_required := True\<rparr>"

definition commit_ranks ::
    "'s two_rank_env \<Rightarrow> two_rank_operation \<Rightarrow> two_rank_manifest \<Rightarrow> nat list \<Rightarrow> two_rank_receipt list \<Rightarrow> nat
      \<Rightarrow> two_rank_result \<Rightarrow> 's \<Rightarrow> two_rank_result \<times> 's" where
  "commit_ranks env operation manifest providers rdy attempted_count result s =
     (let quit = abort_attempted env operation providers attempted_count in
      case env_commit_apply env (providers ! 1) operation (mf_ranks manifest ! 1) (rdy ! 1) s of (remote, t) \<Rightarrow>
        if cm_outcome remote = commit_unknown then (recreate commit_outcome_unknown result, quit t)
        else if cm_outcome remote = commit_definitely_not_applied
        then (if exact_not_applied_receipt (cm_receipt remote) operation (mf_ranks manifest ! 1) (rdy ! 1)
              then result\<lparr>tr_status := commit_not_applied\<rparr>
              else recreate recreation_required result, quit t)
        else if cm_outcome remote \<noteq> commit_applied then (recreate recreation_required result, quit t)
        else if \<not> exact_applied_receipt (cm_receipt remote) operation (mf_ranks manifest ! 1) (rdy ! 1)
        then (recreate recreation_required result, quit t)
        else (case env_commit_apply env (providers ! 0) operation (mf_ranks manifest ! 0) (rdy ! 0) t of (local, u) \<Rightarrow>
           if cm_outcome local \<noteq> commit_applied \<or>
              \<not> exact_applied_receipt (cm_receipt local) operation (mf_ranks manifest ! 0) (rdy ! 0)
           then (recreate recreation_required result, quit u)
           else (result\<lparr>tr_status := restore_accepted, tr_restore_accepted := True\<rparr>, u)))"

definition restore ::
    "'s two_rank_env \<Rightarrow> two_rank_operation \<Rightarrow> two_rank_manifest \<Rightarrow> provider_pointer list
      \<Rightarrow> attempt_ledger \<Rightarrow> 's \<Rightarrow> two_rank_result \<times> attempt_ledger \<times> 's" where
  "restore env operation manifest providers used_attempts s =
     (if \<not> valid_providers providers then (empty_result, used_attempts, s)
      else case consume_attempt operation used_attempts of (admission, used) \<Rightarrow>
        if admission \<noteq> admitted then (admission_failure admission, used, s)
        else if \<not> valid_manifest manifest operation
        then (empty_result\<lparr>tr_status := invalid_manifest\<rparr>, used, s)
        else let addresses = map the providers; result = empty_result\<lparr>tr_manifest := manifest\<rparr> in
          (case stage_ranks env operation manifest addresses s of
             (Some status, rdy, attempted_count, t) \<Rightarrow>
               (result\<lparr>tr_status := status\<rparr>, used, abort_attempted env operation addresses attempted_count t)
           | (None, rdy, attempted_count, t) \<Rightarrow>
               (case commit_ranks env operation manifest addresses rdy attempted_count
                       (result\<lparr>tr_commit_authorized := True\<rparr>) t of
                  (final, u) \<Rightarrow> (final, used, u))))"

fun two_rank_status_name :: "two_rank_status \<Rightarrow> string" where
  "two_rank_status_name published = ''published''"
| "two_rank_status_name restore_accepted = ''restore-accepted''"
| "two_rank_status_name invalid_contract = ''invalid-contract''"
| "two_rank_status_name attempt_replayed = ''attempt-replayed''"
| "two_rank_status_name attempt_ledger_full = ''attempt-ledger-full''"
| "two_rank_status_name invalid_manifest = ''invalid-manifest''"
| "two_rank_status_name receipt_mismatch = ''receipt-mismatch''"
| "two_rank_status_name duplicate_receipt = ''duplicate-receipt''"
| "two_rank_status_name rank_missing = ''rank-missing''"
| "two_rank_status_name rank_corrupt = ''rank-corrupt''"
| "two_rank_status_name rank_incompatible = ''rank-incompatible''"
| "two_rank_status_name rank_timed_out = ''rank-timed-out''"
| "two_rank_status_name rank_rejected = ''rank-rejected''"
| "two_rank_status_name publication_not_completed = ''publication-not-completed''"
| "two_rank_status_name publication_outcome_unknown = ''publication-outcome-unknown''"
| "two_rank_status_name commit_not_applied = ''commit-not-applied''"
| "two_rank_status_name commit_outcome_unknown = ''commit-outcome-unknown''"
| "two_rank_status_name recreation_required = ''recreation-required''"

lemma two_rank_status_name_eq [simp]: "two_rank_status_name a = two_rank_status_name b \<longleftrightarrow> a = b"
  by (cases a; cases b; simp)

subsection \<open>What the world observes\<close>

datatype two_rank_event =
    Captured nat two_rank_receipt
  | Staged nat two_rank_receipt
  | Committed nat commit_result
  | Aborted nat
  | Published two_rank_manifest publication_outcome

definition observed :: "'s two_rank_env \<Rightarrow> ('s \<times> two_rank_event list) two_rank_env" where
  "observed env = \<lparr>
     env_capture = (\<lambda>p op req (s, log). case env_capture env p op req s of (r, t) \<Rightarrow> (r, (t, log @ [Captured p r]))),
     env_stage = (\<lambda>p op ob (s, log). case env_stage env p op ob s of (r, t) \<Rightarrow> (r, (t, log @ [Staged p r]))),
     env_commit_apply = (\<lambda>p op ob rdy (s, log). case env_commit_apply env p op ob rdy s of
        (r, t) \<Rightarrow> (r, (t, log @ [Committed p r]))),
     env_abort = (\<lambda>p op (s, log). (env_abort env p op s, log @ [Aborted p])),
     env_publish = (\<lambda>op mf rs (s, log). case env_publish env op mf rs s of
        (r, t) \<Rightarrow> (r, (t, log @ [Published mf r])))\<rparr>"

lemma ranks_two: "[0..<two_rank_count] = [0, 1]"
  by (simp add: two_rank_count_def upt_rec)

lemma abort_two: "abort_attempted env op ps 2 s = env_abort env (ps ! 0) op (env_abort env (ps ! 1) op s)"
  "abort_attempted env op ps (Suc 0) s = env_abort env (ps ! 0) op s"
  by (simp_all add: numeral_2_eq_2)

text \<open>Both loops over two ranks, unfolded once.\<close>

lemma rank_loop_two:
  "rank_loop call positive exact [0, 1] [] 0 s =
     (case call 0 s of (a, t) \<Rightarrow>
        if rc_status a \<noteq> positive then (Some (failure_status (rc_status a)), [a], 1, t)
        else if \<not> exact a 0 then (Some receipt_mismatch, [a], 1, t)
        else (case call 1 t of (b, u) \<Rightarrow>
           if rc_status b \<noteq> positive then (Some (failure_status (rc_status b)), [a, b], 2, u)
           else if \<not> exact b 1 then (Some receipt_mismatch, [a, b], 2, u)
           else if rc_receipt_nonce b = rc_receipt_nonce a then (Some duplicate_receipt, [a, b], 2, u)
           else (None, [a, b], 2, u)))"
  by (simp add: split_beta)


lemma observed_calls [simp]:
  "env_capture (observed env) p op req (s, log) =
     (case env_capture env p op req s of (r, t) \<Rightarrow> (r, (t, log @ [Captured p r])))"
  "env_stage (observed env) p op ob (s, log) =
     (case env_stage env p op ob s of (r, t) \<Rightarrow> (r, (t, log @ [Staged p r])))"
  "env_commit_apply (observed env) p op ob rdy (s, log) =
     (case env_commit_apply env p op ob rdy s of (c, t) \<Rightarrow> (c, (t, log @ [Committed p c])))"
  "env_abort (observed env) p op (s, log) = (env_abort env p op s, log @ [Aborted p])"
  "env_publish (observed env) op mf rs (s, log) =
     (case env_publish env op mf rs s of (out, t) \<Rightarrow> (out, (t, log @ [Published mf out])))"
  by (simp_all add: observed_def)

lemma abort_observed:
  "abort_attempted (observed env) op ps 2 (s, log) =
     (abort_attempted env op ps 2 s, log @ [Aborted (ps ! 1), Aborted (ps ! 0)])"
  "abort_attempted (observed env) op ps (Suc 0) (s, log) = (abort_attempted env op ps (Suc 0) s, log @ [Aborted (ps ! 0)])"
  by (simp_all add: abort_two)

definition rank_failure :: "two_rank_status \<Rightarrow> bool" where
  "rank_failure st \<longleftrightarrow> st \<in> {rank_missing, rank_corrupt, rank_incompatible, rank_timed_out, rank_rejected,
     receipt_mismatch, duplicate_receipt}"

lemma failure_status_range [simp]: "rank_failure (failure_status x)"
  by (cases x) (simp_all add: rank_failure_def)

lemma rank_failure_simps [simp]: "rank_failure receipt_mismatch" "rank_failure duplicate_receipt"
  by (simp_all add: rank_failure_def)

text \<open>What a loop over the ranks leaves in the log when it succeeds and when it fails.\<close>

definition rank_evidence ::
    "(nat \<Rightarrow> two_rank_receipt \<Rightarrow> two_rank_event) \<Rightarrow> (two_rank_receipt \<Rightarrow> nat \<Rightarrow> bool) \<Rightarrow> nat list
      \<Rightarrow> two_rank_receipt list \<Rightarrow> two_rank_event list \<Rightarrow> bool" where
  "rank_evidence event exact ps rs log \<longleftrightarrow> (\<exists>a b. rs = [a, b] \<and> log = [event (ps ! 0) a, event (ps ! 1) b] \<and>
     exact a 0 \<and> exact b 1 \<and> rc_receipt_nonce b \<noteq> rc_receipt_nonce a)"

definition rank_refusal :: "(nat \<Rightarrow> two_rank_receipt \<Rightarrow> two_rank_event) \<Rightarrow> nat list \<Rightarrow> nat \<Rightarrow> two_rank_event list \<Rightarrow> bool" where
  "rank_refusal event ps n log \<longleftrightarrow>
     (n = 1 \<and> (\<exists>a. log = [event (ps ! 0) a])) \<or> (n = 2 \<and> (\<exists>a b. log = [event (ps ! 0) a, event (ps ! 1) b]))"

lemma rank_loop_observed:
  assumes call: "\<And>index x. call index x = (case f index (fst x) of (r, t) \<Rightarrow> (r, (t, snd x @ [event (ps ! index) r])))"
    and loop: "rank_loop call positive exact [0, 1] [] 0 (s, []) = (st, rs, n, (t, log))"
  shows "case st of
      None \<Rightarrow> n = 2 \<and> rank_evidence event exact ps rs log
    | Some x \<Rightarrow> rank_refusal event ps n log \<and> rank_failure x"
proof -
  obtain a t1 where a: "f 0 s = (a, t1)" by force
  obtain b t2 where b: "f 1 t1 = (b, t2)" by force
  have c: "call 0 (s, []) = (a, (t1, [event (ps ! 0) a]))"
    "call (Suc 0) (t1, [event (ps ! 0) a]) = (b, (t2, [event (ps ! 0) a, event (ps ! 1) b]))"
    using a b by (simp_all add: call)
  show ?thesis
    using loop unfolding rank_loop_two
    by (auto simp: c rank_evidence_def rank_refusal_def split: if_splits)
qed

lemma capture_ranks_observed:
  assumes "capture_ranks (observed env) op reqs ps (s, []) = (st, rs, n, (t, log))"
  shows "case st of
      None \<Rightarrow> n = 2 \<and> rank_evidence Captured (\<lambda>r i. exact_capture_receipt r op (reqs ! i)) ps rs log
    | Some x \<Rightarrow> rank_refusal Captured ps n log \<and> rank_failure x"
  by (rule rank_loop_observed [where f = "\<lambda>i. env_capture env (ps ! i) op (reqs ! i)" and
        call = "\<lambda>i. env_capture (observed env) (ps ! i) op (reqs ! i)"])
    (use assms in \<open>auto simp: capture_ranks_def ranks_two observed_def\<close>)

lemma stage_ranks_observed:
  assumes "stage_ranks (observed env) op mf ps (s, []) = (st, rs, n, (t, log))"
  shows "case st of
      None \<Rightarrow> n = 2 \<and> rank_evidence Staged (\<lambda>r i. exact_stage_receipt r op (mf_ranks mf ! i)) ps rs log
    | Some x \<Rightarrow> rank_refusal Staged ps n log \<and> rank_failure x"
  by (rule rank_loop_observed [where f = "\<lambda>i. env_stage env (ps ! i) op (mf_ranks mf ! i)" and
        call = "\<lambda>i. env_stage (observed env) (ps ! i) op (mf_ranks mf ! i)"])
    (use assms in \<open>auto simp: stage_ranks_def ranks_two observed_def\<close>)

subsection \<open>Publication\<close>

definition publication_run :: "two_rank_operation \<Rightarrow> capture_request list \<Rightarrow> nat list \<Rightarrow> two_rank_result \<Rightarrow> two_rank_event list \<Rightarrow> bool" where
  "publication_run op reqs ps r log \<longleftrightarrow>
     (\<exists>a b out. rank_evidence Captured (\<lambda>x i. exact_capture_receipt x op (reqs ! i)) ps [a, b]
          [Captured (ps ! 0) a, Captured (ps ! 1) b] \<and>
        tr_manifest r = \<lparr>mf_checkpoint = to_checkpoint op, mf_ranks = [captured_object [a, b] 0, captured_object [a, b] 1]\<rparr> \<and>
        log = [Captured (ps ! 0) a, Captured (ps ! 1) b, Published (tr_manifest r) out]
          @ (if out = outcome_not_published then [Aborted (ps ! 1), Aborted (ps ! 0)] else []) \<and>
        tr_status r = (if out = outcome_published then published
          else if out = outcome_not_published then publication_not_completed else publication_outcome_unknown))"

fun is_published :: "two_rank_event \<Rightarrow> bool" where
  "is_published (Published mf out) = True"
| "is_published _ = False"

lemma rank_refusal_events:
  "rank_refusal event ps n log \<Longrightarrow> (\<And>p r. \<not> P (event p r)) \<Longrightarrow> list_all (\<lambda>e. \<not> P e) log"
  by (auto simp: rank_refusal_def)

lemma abort_refusal:
  assumes "rank_refusal event ps n log"
  shows "snd (abort_attempted (observed env) op ps n (s, log)) = log @ map (\<lambda>i. Aborted (ps ! i)) (rev [0..<n])"
  using assms by (auto simp: rank_refusal_def abort_observed numeral_2_eq_2)

lemma capture_and_publish_observed:
  assumes "capture_and_publish (observed env) op reqs providers used (s, []) = (r, used', (t, log))"
  shows "if tr_publication_authorized r
    then valid_requests reqs \<and> valid_operation op \<and> publication_run op reqs (map the providers) r log
    else list_all (\<lambda>e. \<not> is_published e) log \<and> tr_status r \<noteq> published"
proof (cases "valid_providers providers \<and> valid_requests reqs \<and> fst (consume_attempt op used) = admitted")
  case False
  then show ?thesis
    using assms by (auto simp: capture_and_publish_def empty_result_def admission_failure_def split: if_splits prod.splits)
next
  case True
  then have op: "valid_operation op" by (auto simp: consume_attempt_def split: if_splits)
  let ?ps = "map the providers"
  obtain st rs n t1 log1 where cap: "capture_ranks (observed env) op reqs ?ps (s, []) = (st, rs, n, (t1, log1))"
    by (metis surj_pair)
  note ev = capture_ranks_observed [OF cap]
  show ?thesis
  proof (cases st)
    case (Some x)
    then have ref: "rank_refusal Captured ?ps n log1" and x: "x \<noteq> published" using ev by (auto simp: rank_failure_def)
    have "r = empty_result\<lparr>tr_status := x\<rparr>" "log = snd (abort_attempted (observed env) op ?ps n (t1, log1))"
      using assms True cap Some by (auto simp: capture_and_publish_def Let_def split: prod.splits)
    then show ?thesis
      using x abort_refusal [OF ref, of env op t1] rank_refusal_events [OF ref, of is_published]
      by (auto simp: empty_result_def list_all_iff)
  next
    case None
    then have n: "n = 2" and e: "rank_evidence Captured (\<lambda>x i. exact_capture_receipt x op (reqs ! i)) ?ps rs log1"
      using ev by auto
    obtain a b where ab: "rs = [a, b]" "log1 = [Captured (?ps ! 0) a, Captured (?ps ! 1) b]"
      using e by (auto simp: rank_evidence_def)
    have pub: "publish_captured (observed env) op ?ps [a, b] 2 (t1, log1) = (r, (t, log))"
      using assms True cap None n ab by (auto simp: capture_and_publish_def Let_def split: prod.splits)
    have "publication_run op reqs ?ps r log \<and> tr_publication_authorized r"
      unfolding publication_run_def
      by (rule conjI, rule exI [of _ a], rule exI [of _ b], rule exI [of _ "fst (env_publish env op (tr_manifest r) [a, b] t1)"])
        (use pub e ab in \<open>auto simp: publish_captured_def Let_def ranks_two abort_observed split_beta
          empty_result_def split: if_splits\<close>)
    then show ?thesis using True op by simp
  qed
qed


lemma published_manifest_valid:
  assumes "publication_run op reqs ps r log" "valid_requests reqs"
  shows "valid_manifest (tr_manifest r) op"
  using assms
  by (auto simp: publication_run_def valid_manifest_def rank_evidence_def ranks_two valid_manifest_object_def
    captured_object_def expected_ranks_def exact_capture_receipt_def valid_requests_def same_checkpoint_def)

subsection \<open>Restore\<close>

definition accepted_run :: "two_rank_operation \<Rightarrow> two_rank_manifest \<Rightarrow> nat list \<Rightarrow> two_rank_event list \<Rightarrow> bool" where
  "accepted_run op mf ps log \<longleftrightarrow>
     (\<exists>a b x y. log = [Staged (ps ! 0) a, Staged (ps ! 1) b, Committed (ps ! 1) x, Committed (ps ! 0) y] \<and>
        exact_stage_receipt a op (mf_ranks mf ! 0) \<and> exact_stage_receipt b op (mf_ranks mf ! 1) \<and>
        rc_receipt_nonce b \<noteq> rc_receipt_nonce a \<and>
        cm_outcome x = commit_applied \<and> exact_applied_receipt (cm_receipt x) op (mf_ranks mf ! 1) b \<and>
        cm_outcome y = commit_applied \<and> exact_applied_receipt (cm_receipt y) op (mf_ranks mf ! 0) a)"

fun is_committed :: "two_rank_event \<Rightarrow> bool" where
  "is_committed (Committed p c) = True"
| "is_committed _ = False"

text \<open>No live context can have changed: nothing was dispatched, or the one dispatch was exactly refused.\<close>

definition untouched_run :: "two_rank_operation \<Rightarrow> two_rank_manifest \<Rightarrow> nat list \<Rightarrow> two_rank_event list \<Rightarrow> bool" where
  "untouched_run op mf ps log \<longleftrightarrow> list_all (\<lambda>e. \<not> is_committed e) log \<or>
     (\<exists>a b x. log = [Staged (ps ! 0) a, Staged (ps ! 1) b, Committed (ps ! 1) x, Aborted (ps ! 1), Aborted (ps ! 0)] \<and>
        cm_outcome x = commit_definitely_not_applied \<and>
        exact_not_applied_receipt (cm_receipt x) op (mf_ranks mf ! 1) b)"

lemma commit_ranks_observed:
  assumes "commit_ranks (observed env) op mf ps [a, b] 2 r0 (s, [Staged (ps ! 0) a, Staged (ps ! 1) b]) = (r, (t, log))"
    and "exact_stage_receipt a op (mf_ranks mf ! 0)" "exact_stage_receipt b op (mf_ranks mf ! 1)"
    and "rc_receipt_nonce b \<noteq> rc_receipt_nonce a" "\<not> tr_restore_accepted r0" "\<not> tr_recreation_required r0"
  shows "if tr_restore_accepted r then tr_status r = restore_accepted \<and> accepted_run op mf ps log
    else if tr_recreation_required r
    then tr_status r \<in> {commit_outcome_unknown, recreation_required} \<and> list_ex is_committed log
    else tr_status r = commit_not_applied \<and> untouched_run op mf ps log"
proof -
  obtain x u where x: "env_commit_apply env (ps ! 1) op (mf_ranks mf ! 1) b s = (x, u)" by force
  obtain y v where y: "env_commit_apply env (ps ! 0) op (mf_ranks mf ! 0) a u = (y, v)" by force
  have x': "env_commit_apply env (ps ! Suc 0) op (mf_ranks mf ! Suc 0) b s = (x, u)" using x by simp
  show ?thesis
    using assms
    by (auto simp: commit_ranks_def x' y recreate_def abort_observed accepted_run_def untouched_run_def Let_def
      split: if_splits)
qed

lemma restore_observed:
  assumes "restore (observed env) op mf providers used (s, []) = (r, used', (t, log))"
  shows "if tr_restore_accepted r
    then tr_status r = restore_accepted \<and> valid_operation op \<and> valid_manifest mf op \<and>
      accepted_run op mf (map the providers) log
    else if tr_recreation_required r
    then tr_status r \<in> {commit_outcome_unknown, recreation_required} \<and> list_ex is_committed log
    else untouched_run op mf (map the providers) log \<and>
      tr_status r \<notin> {restore_accepted, commit_outcome_unknown, recreation_required}"
proof (cases "valid_providers providers \<and> fst (consume_attempt op used) = admitted \<and> valid_manifest mf op")
  case False
  then show ?thesis
    using assms
    by (auto simp: restore_def empty_result_def admission_failure_def untouched_run_def split: if_splits prod.splits)
next
  case True
  then have op: "valid_operation op" by (auto simp: consume_attempt_def split: if_splits)
  let ?ps = "map the providers" and ?r = "empty_result\<lparr>tr_manifest := mf\<rparr>"
  obtain st rs n t1 log1 where sta: "stage_ranks (observed env) op mf ?ps (s, []) = (st, rs, n, (t1, log1))"
    by (metis surj_pair)
  note ev = stage_ranks_observed [OF sta]
  show ?thesis
  proof (cases st)
    case (Some x)
    then have ref: "rank_refusal Staged ?ps n log1" and x: "rank_failure x" using ev by auto
    have "r = ?r\<lparr>tr_status := x\<rparr>" "log = snd (abort_attempted (observed env) op ?ps n (t1, log1))"
      using assms True sta Some by (auto simp: restore_def Let_def split: prod.splits)
    then show ?thesis
      using x abort_refusal [OF ref, of env op t1] rank_refusal_events [OF ref, of is_committed]
      by (auto simp: empty_result_def list_all_iff untouched_run_def rank_failure_def)
  next
    case None
    then have n: "n = 2" and e: "rank_evidence Staged (\<lambda>x i. exact_stage_receipt x op (mf_ranks mf ! i)) ?ps rs log1"
      using ev by auto
    obtain a b where ab: "rs = [a, b]" "log1 = [Staged (?ps ! 0) a, Staged (?ps ! 1) b]"
      "exact_stage_receipt a op (mf_ranks mf ! 0)" "exact_stage_receipt b op (mf_ranks mf ! 1)"
      "rc_receipt_nonce b \<noteq> rc_receipt_nonce a"
      using e by (auto simp: rank_evidence_def)
    have "commit_ranks (observed env) op mf ?ps [a, b] 2 (?r\<lparr>tr_commit_authorized := True\<rparr>)
        (t1, [Staged (?ps ! 0) a, Staged (?ps ! 1) b]) = (r, (t, log))"
      using assms True sta None n ab(1,2) by (auto simp: restore_def Let_def split: prod.splits)
    from commit_ranks_observed [OF this ab(3-5)] show ?thesis
      using True op by (auto simp: empty_result_def)
  qed
qed

lemma rank_loop_status:
  "rank_loop call positive exact is rs n s = (Some st, rs', n', t) \<Longrightarrow> rank_failure st"
  by (induction "is" arbitrary: rs n s) (auto split: prod.splits if_splits)

lemma restore_not_invalid:
  assumes "valid_manifest mf op"
  shows "tr_status (fst (restore env op mf ps used s)) \<noteq> invalid_manifest"
proof -
  obtain st rs n t where sta: "stage_ranks env op mf (map the ps) s = (st, rs, n, t)" by (metis prod_cases4)
  show ?thesis
  proof (cases st)
    case (Some x)
    then have "rank_failure x" using sta rank_loop_status by (auto simp: stage_ranks_def)
    then show ?thesis
      using sta Some assms
      by (auto simp: restore_def empty_result_def admission_failure_def Let_def rank_failure_def split: prod.splits)
  next
    case None
    then show ?thesis
      using sta assms
      by (auto simp: restore_def empty_result_def admission_failure_def commit_ranks_def recreate_def Let_def
        split_beta)
  qed
qed

subsection \<open>The attempt ledger\<close>

datatype coordinator_call =
    Capture two_rank_operation "capture_request list" "provider_pointer list"
  | Restore two_rank_operation two_rank_manifest "provider_pointer list"

fun call_operation :: "coordinator_call \<Rightarrow> two_rank_operation" where
  "call_operation (Capture op reqs ps) = op"
| "call_operation (Restore op mf ps) = op"

fun coordinate ::
    "'s two_rank_env \<Rightarrow> coordinator_call \<Rightarrow> attempt_ledger \<Rightarrow> 's \<Rightarrow> two_rank_result \<times> attempt_ledger \<times> 's" where
  "coordinate env (Capture op reqs ps) used s = capture_and_publish env op reqs ps used s"
| "coordinate env (Restore op mf ps) used s = restore env op mf ps used s"

fun coordinate_all ::
    "'s two_rank_env \<Rightarrow> coordinator_call list \<Rightarrow> attempt_ledger \<Rightarrow> 's
      \<Rightarrow> (digest \<times> two_rank_event list) list \<times> attempt_ledger \<times> 's" where
  "coordinate_all env [] used s = ([], used, s)"
| "coordinate_all env (c # cs) used s =
     (case coordinate (observed env) c used (s, []) of (r, used1, (t, log)) \<Rightarrow>
        (case coordinate_all env cs used1 t of (rest, used2, u) \<Rightarrow>
           ((to_attempt_nonce (call_operation c), log) # rest, used2, u)))"

lemma coordinate_ledger:
  assumes "coordinate env c used s = (r, used', t)"
  shows "used' = used \<and> t = s \<or>
    used' = used @ [to_attempt_nonce (call_operation c)] \<and> to_attempt_nonce (call_operation c) \<notin> set used \<and>
      length used \<noteq> attempt_ledger_size"
  using assms
  by (cases c) (auto simp: capture_and_publish_def restore_def consume_attempt_def list_ex_iff Let_def
    split: if_splits prod.splits option.splits)

lemma coordinate_all_ledger:
  assumes "coordinate_all env cs used s = (logs, used', t)" "distinct used" "length used \<le> attempt_ledger_size"
  shows "distinct used' \<and> length used' \<le> attempt_ledger_size \<and>
    distinct (map fst (filter (\<lambda>x. snd x \<noteq> []) logs)) \<and>
    set (map fst (filter (\<lambda>x. snd x \<noteq> []) logs)) \<inter> set used = {} \<and> set used \<subseteq> set used' \<and>
    set (map fst (filter (\<lambda>x. snd x \<noteq> []) logs)) \<subseteq> set used'"
  using assms
proof (induction cs arbitrary: used s logs)
  case (Cons c cs)
  obtain r used1 t1 log where c: "coordinate (observed env) c used (s, []) = (r, used1, (t1, log))"
    by (metis prod_cases3 surj_pair)
  obtain rest used2 u where rest: "coordinate_all env cs used1 t1 = (rest, used2, u)" by (metis prod_cases3)
  have eqs: "logs = (to_attempt_nonce (call_operation c), log) # rest" "used2 = used'" "u = t"
    using Cons.prems(1) c rest by auto
  have step: "used1 = used \<and> log = [] \<or>
      used1 = used @ [to_attempt_nonce (call_operation c)] \<and> to_attempt_nonce (call_operation c) \<notin> set used \<and>
        length used \<noteq> attempt_ledger_size"
    using coordinate_ledger [OF c] by auto
  then have inv: "distinct used1" "length used1 \<le> attempt_ledger_size"
    using Cons.prems(2,3) by auto
  show ?case
    using Cons.IH [OF rest [unfolded eqs(2,3)] inv] step eqs(1) by auto
qed simp


text \<open>Observation changes nothing: the observed run is the plain run with a log beside it.\<close>

lemma rank_loop_plain:
  assumes "\<And>i x. call' i x = (fst (call i (fst x)), (snd (call i (fst x)), snd x @ [event i (fst (call i (fst x)))]))"
    and "rank_loop call' positive exact is rs n x = (st', rs', n', y)"
    and "rank_loop call positive exact is rs n (fst x) = (st, rs2, n2, t)"
  shows "st' = st \<and> rs' = rs2 \<and> n' = n2 \<and> fst y = t"
  using assms(2,3)
proof (induction "is" arbitrary: rs n x)
  case (Cons i "is")
  show ?case
    using Cons.prems Cons.IH [of "rs @ [fst (call i (fst x))]" "n + 1"
      "(snd (call i (fst x)), snd x @ [event i (fst (call i (fst x)))])"]
    by (auto simp: assms(1) split_beta split: if_splits)
qed simp

lemma observed_plain:
  "fst (capture_and_publish (observed env) op reqs ps used (s, [])) = fst (capture_and_publish env op reqs ps used s)"
proof -
  let ?ps = "map the ps"
  obtain st rs n y where obs: "capture_ranks (observed env) op reqs ?ps (s, []) = (st, rs, n, y)" by (metis prod_cases4)
  obtain st2 rs2 n2 t where plain: "capture_ranks env op reqs ?ps s = (st2, rs2, n2, t)" by (metis prod_cases4)
  have "st = st2 \<and> rs = rs2 \<and> n = n2 \<and> fst y = t"
    by (rule rank_loop_plain [where call = "\<lambda>i. env_capture env (?ps ! i) op (reqs ! i)"
        and call' = "\<lambda>i. env_capture (observed env) (?ps ! i) op (reqs ! i)" and event = "\<lambda>i. Captured (?ps ! i)"])
      (use obs plain in \<open>auto simp: capture_ranks_def observed_def split_beta\<close>)
  moreover have "fst (publish_captured (observed env) op ?ps rs n (t, log)) = fst (publish_captured env op ?ps rs n t)" for log
    by (simp add: publish_captured_def Let_def split_beta)
  ultimately show ?thesis
    using obs plain by (cases y; cases st) (auto simp: capture_and_publish_def Let_def split_beta)
qed

subsection \<open>The guarantees of the coordinator\<close>

text \<open>
  C29: Capture. A publication is authorised only for a valid operation and requests, after an
  exact capture receipt from each rank in order with two different nonces; the publisher
  then sees exactly the manifest built from them, the ranks are aborted (in reverse) only
  when the publisher definitely did not publish, and the status tells the three outcomes
  apart. Without authorisation the publisher is never called and nothing is published.
\<close>
theorem capture_publishes_on_evidence:
  "case capture_and_publish (observed env) operation requests providers used (s, []) of (r, used', (t, log)) \<Rightarrow>
     if tr_publication_authorized r
     then valid_requests requests \<and> valid_operation operation \<and>
       publication_run operation requests (map the providers) r log
     else list_all (\<lambda>e. \<not> is_published e) log \<and> tr_status r \<noteq> published"
proof -
  obtain r used' t log where run:
    "capture_and_publish (observed env) operation requests providers used (s, []) = (r, used', (t, log))"
    by (metis prod_cases3 surj_pair)
  show ?thesis using capture_and_publish_observed [OF run] by (simp add: run)
qed

text \<open>
  C4: Restore is fail-closed. It is accepted only for a valid operation and manifest after
  four exact receipts in the order stage 0, stage 1, commit 1, commit 0, with distinct
  stage nonces; otherwise either recreation is demanded (and a commit was dispatched), or
  no live context can have changed: no commit was dispatched, or the only one was refused
  by an exact definitely-not-applied receipt and both ranks were aborted.
\<close>
theorem restore_fail_closed:
  "case restore (observed env) operation manifest providers used (s, []) of (r, used', (t, log)) \<Rightarrow>
     if tr_restore_accepted r
     then tr_status r = restore_accepted \<and> valid_operation operation \<and> valid_manifest manifest operation \<and>
       accepted_run operation manifest (map the providers) log
     else if tr_recreation_required r
     then tr_status r \<in> {commit_outcome_unknown, recreation_required} \<and> list_ex is_committed log
     else untouched_run operation manifest (map the providers) log \<and>
       tr_status r \<notin> {restore_accepted, commit_outcome_unknown, recreation_required}"
proof -
  obtain r used' t log where run:
    "restore (observed env) operation manifest providers used (s, []) = (r, used', (t, log))"
    by (metis prod_cases3 surj_pair)
  show ?thesis using restore_observed [OF run] by (simp add: run)
qed

definition sample_digest32 :: "byte \<Rightarrow> digest" where
  "sample_digest32 b = replicate 32 b"

definition sample_checkpoint :: checkpoint_identity where
  "sample_checkpoint = \<lparr>ci_world_size = 2, ci_ordered_ranks = [0, 1], ci_generation = 1, ci_token_count = 8,
     ci_token_boundary = 8, ci_model_shards_digest = sample_digest32 1, ci_runtime_state_abi_digest = sample_digest32 2,
     ci_kv_representation_digest = sample_digest32 3, ci_partition_plan_digest = sample_digest32 4,
     ci_topology_digest = sample_digest32 5, ci_checkpoint_digest = sample_digest32 6,
     ci_token_prefix_digest = sample_digest32 7, ci_rank_ownership_digests = [sample_digest32 8, sample_digest32 9]\<rparr>"

definition sample_operation :: two_rank_operation where
  "sample_operation = \<lparr>to_checkpoint = sample_checkpoint, to_attempt_nonce = sample_digest32 10\<rparr>"

definition sample_captured :: "nat \<Rightarrow> two_rank_receipt" where
  "sample_captured p = \<lparr>rc_phase = phase_capture, rc_status = durable, rc_checkpoint = sample_checkpoint,
     rc_attempt_nonce = sample_digest32 10, rc_logical_rank = of_nat p,
     rc_ownership_digest = sample_digest32 (if p = 0 then 8 else 9), rc_object_digest = sample_digest32 11,
     rc_source_receipt_nonce = sample_digest32 0, rc_receipt_nonce = sample_digest32 (if p = 0 then 12 else 13),
     rc_verified_bytes = 100, rc_verified_components = 1\<rparr>"

definition sample_env :: "unit two_rank_env" where
  "sample_env = \<lparr>env_capture = (\<lambda>p op req s. (sample_captured p, s)),
     env_stage = (\<lambda>p op ob s. (sample_captured p, s)),
     env_commit_apply = (\<lambda>p op ob rdy s. (\<lparr>cm_outcome = commit_unknown, cm_receipt = rdy\<rparr>, s)),
     env_abort = (\<lambda>p op s. s), env_publish = (\<lambda>op mf rs s. (outcome_published, s))\<rparr>"

definition sample_requests :: "capture_request list" where
  "sample_requests = [\<lparr>cr_logical_rank = 0, cr_expected_bytes = 100, cr_expected_components = 1\<rparr>,
     \<lparr>cr_logical_rank = 1, cr_expected_bytes = 100, cr_expected_components = 1\<rparr>]"

lemma sample_digest32_simps [simp]:
  "nonzero (sample_digest32 b) \<longleftrightarrow> b \<noteq> 0" "sample_digest32 b = sample_digest32 c \<longleftrightarrow> b = c"
  by (auto simp: sample_digest32_def nonzero_iff replicate_eq_replicate)

lemma sample_operation_valid: "valid_operation sample_operation"
  by (simp add: valid_operation_def sample_operation_def valid_checkpoint_def sample_checkpoint_def
    two_rank_world_size_def expected_ranks_def)

lemma sample_consumes: "consume_attempt sample_operation [] = (admitted, [sample_digest32 10])"
  using sample_operation_valid
  by (simp add: consume_attempt_def attempt_ledger_size_def) (simp add: sample_operation_def)

lemma sample_capture_publishes:
  "tr_publication_authorized (fst (capture_and_publish sample_env sample_operation sample_requests [Some 0, Some 1] [] ())) \<and>
   tr_status (fst (capture_and_publish sample_env sample_operation sample_requests [Some 0, Some 1] [] ())) = published"
  by (simp add: capture_and_publish_def sample_consumes)
    (simp add: valid_providers_def valid_requests_def sample_requests_def capture_ranks_def ranks_two sample_env_def sample_captured_def
    exact_capture_receipt_def sample_operation_def same_checkpoint_def sample_checkpoint_def publish_captured_def Let_def
    empty_result_def)

text \<open>
  C30: Round trip. The manifest of an authorised publication passes the manifest check of
  every restore for the same checkpoint: such a restore never fails with
  \<^verbatim>\<open>invalid_manifest\<close>.
\<close>
theorem published_manifest_restorable:
  assumes "tr_publication_authorized (fst (capture_and_publish env operation requests providers used s))"
    and "to_checkpoint operation' = to_checkpoint operation"
  shows "valid_manifest (tr_manifest (fst (capture_and_publish env operation requests providers used s))) operation' \<and>
    tr_status (fst (restore env' operation' (tr_manifest (fst (capture_and_publish env operation requests providers used s)))
      providers' used' s')) \<noteq> invalid_manifest"
proof -
  obtain r u t log where run: "capture_and_publish (observed env) operation requests providers used (s, []) = (r, u, (t, log))"
    by (metis prod_cases3 surj_pair)
  have r: "fst (capture_and_publish env operation requests providers used s) = r"
    using observed_plain [of env operation requests providers used s] run by simp
  have "valid_manifest (tr_manifest r) operation"
    using capture_and_publish_observed [OF run] assms(1) r published_manifest_valid by auto
  then have valid: "valid_manifest (tr_manifest r) operation'"
    using assms(2) by (simp add: valid_manifest_def valid_manifest_object_def)
  have "tr_status (fst (restore env' operation' (tr_manifest r) providers' used' s')) \<noteq> invalid_manifest"
    by (rule restore_not_invalid [OF valid])
  then show ?thesis using valid r by simp
qed

theorem published_manifest_restorable_witness:
  "valid_manifest (tr_manifest (fst (capture_and_publish sample_env sample_operation sample_requests [Some 0, Some 1] [] ())))
     (sample_operation\<lparr>to_attempt_nonce := sample_digest32 20\<rparr>)"
  using published_manifest_restorable [of sample_env sample_operation sample_requests "[Some 0, Some 1]" "[]" "()"
    "sample_operation\<lparr>to_attempt_nonce := sample_digest32 20\<rparr>" sample_env "[]" "[]" "()"]
    sample_capture_publishes by simp

text \<open>
  Replay. Over any sequence of captures and restores on one coordinator, whatever the
  providers do, the ledger stays duplicate-free and within its 64 entries, and no two calls
  that contact a provider or the publisher carry the same attempt nonce.
\<close>
theorem attempts_contact_once:
  "case coordinate_all env calls [] s of (logs, used, t) \<Rightarrow>
     distinct used \<and> length used \<le> attempt_ledger_size \<and>
     distinct (map fst (filter (\<lambda>x. snd x \<noteq> []) logs))"
proof -
  obtain logs used t where run: "coordinate_all env calls [] s = (logs, used, t)" by (metis prod_cases3)
  show ?thesis using coordinate_all_ledger [OF run] run by simp
qed

end
