(* ===== verification/Attempt_Wire.thy ===== *)
theory Attempt_Wire
  imports Auth
begin

text \<open>
  \<^verbatim>\<open>halofpx-context-store-v1-attempt-wire.{h,cpp}\<close>: the signed records that announce a
  publication attempt (pending) and close it (terminal success or terminal abort). Both are
  one canonical CBOR envelope, written into a buffer of 2048 bytes; a verifier rebuilds the
  envelope from the expected body and key and compares. A terminal status is the byte its
  enumeration has as underlying type, so that values outside the enumeration occur.
  Shown: the buffer always suffices, each verifier accepts exactly one byte string, encoding
  and verifying agree, and records of different kinds or contents are never confused.
\<close>

subsection \<open>Data\<close>

definition attempt_wire_max_bytes :: nat where "attempt_wire_max_bytes = 2048"
definition attempt_master_key_bytes :: nat where "attempt_master_key_bytes = 32"
definition attempt_anchor_max_bytes :: nat where "attempt_anchor_max_bytes = 1024"

record attempt_body =
  at_attempt_id :: "byte list"
  at_store_uuid :: "byte list"
  at_namespace_id :: digest
  at_checkpoint_lineage_id :: digest
  at_manifest_digest :: digest
  at_ordered_object_set_commitment :: digest
  at_aggregate_source_commitment :: digest
  at_data_root_identity_commitment :: digest
  at_anchor_root_identity_commitment :: digest
  at_proposed_anchor_envelope :: byte_span

definition terminal_success :: byte where "terminal_success = 1"
definition terminal_aborted :: byte where "terminal_aborted = 2"

datatype attempt_wire_status =
    authenticated_exact | invalid_policy | input_rejected | authentication_failed | output_too_small

record attempt_wire_result =
  aw_status :: attempt_wire_status
  aw_envelope_digest :: digest
  aw_proposed_anchor_envelope_digest :: digest
  aw_encoded_size :: nat

definition attempt_authenticated :: "attempt_wire_result \<Rightarrow> bool" where
  "attempt_authenticated r \<longleftrightarrow> aw_status r = authenticated_exact"

definition empty_wire_result :: attempt_wire_result where
  "empty_wire_result = \<lparr>aw_status = input_rejected, aw_envelope_digest = zero_digest,
     aw_proposed_anchor_envelope_digest = zero_digest, aw_encoded_size = 0\<rparr>"

datatype wire_kind = pending | terminal

fun kind_code :: "wire_kind \<Rightarrow> u64" where
  "kind_code pending = 0"
| "kind_code terminal = 1"

subsection \<open>Encoding\<close>

definition pending_key_domain :: "byte list" where
  "pending_key_domain = domain_bytes ''halofpx.attempt-pending-key.v1''"
definition pending_auth_domain :: "byte list" where
  "pending_auth_domain = domain_bytes ''halofpx.attempt-pending-auth.v1''"
definition pending_digest_domain :: "byte list" where
  "pending_digest_domain = domain_bytes ''halofpx.attempt-pending-envelope.v1''"
definition terminal_key_domain :: "byte list" where
  "terminal_key_domain = domain_bytes ''halofpx.attempt-terminal-key.v1''"
definition terminal_auth_domain :: "byte list" where
  "terminal_auth_domain = domain_bytes ''halofpx.attempt-terminal-auth.v1''"
definition terminal_digest_domain :: "byte list" where
  "terminal_digest_domain = domain_bytes ''halofpx.attempt-terminal-envelope.v1''"

definition wire_append_byte :: "byte \<Rightarrow> writer" where
  "wire_append_byte = append_byte attempt_wire_max_bytes"
definition wire_append :: "byte_span \<Rightarrow> writer" where
  "wire_append = append_span attempt_wire_max_bytes"
definition wire_head :: "nat \<Rightarrow> u64 \<Rightarrow> writer" where
  "wire_head = counted_head attempt_wire_max_bytes"
definition wire_uint :: "u64 \<Rightarrow> writer" where "wire_uint = wire_head 0"
definition wire_map :: "u64 \<Rightarrow> writer" where "wire_map = wire_head 5"
definition wire_bytes :: "byte list \<Rightarrow> writer" where
  "wire_bytes v = run_writers [wire_head 2 (of_nat (length v)), wire_append (Span v)]"

definition nonzero_span :: "byte_span \<Rightarrow> bool" where
  "nonzero_span v = (if span_null v \<and> span_size v \<noteq> 0 then False else nonzero (span_bytes v))"

definition valid_terminal_status :: "byte \<Rightarrow> bool" where
  "valid_terminal_status status \<longleftrightarrow> status = terminal_success \<or> status = terminal_aborted"

definition valid_attempt_policy :: "attempt_body \<Rightarrow> byte_span \<Rightarrow> bool" where
  "valid_attempt_policy body key \<longleftrightarrow>
     \<not> span_null key \<and> span_size key = attempt_master_key_bytes \<and> nonzero_span key \<and>
     nonzero (at_attempt_id body) \<and> nonzero (at_store_uuid body) \<and> nonzero (at_namespace_id body) \<and>
     nonzero (at_checkpoint_lineage_id body) \<and> nonzero (at_manifest_digest body) \<and>
     nonzero (at_ordered_object_set_commitment body) \<and> nonzero (at_aggregate_source_commitment body) \<and>
     nonzero (at_data_root_identity_commitment body) \<and> nonzero (at_anchor_root_identity_commitment body) \<and>
     \<not> span_null (at_proposed_anchor_envelope body) \<and> span_size (at_proposed_anchor_envelope body) \<noteq> 0 \<and>
     span_size (at_proposed_anchor_envelope body) \<le> attempt_anchor_max_bytes"

definition proposed_anchor_digest :: "attempt_body \<Rightarrow> digest option" where
  "proposed_anchor_digest body =
     context_store_sha256_bounded (at_proposed_anchor_envelope body) (of_nat attempt_anchor_max_bytes)"

definition encode_attempt_body :: "attempt_body \<Rightarrow> wire_kind \<Rightarrow> byte \<Rightarrow> digest \<Rightarrow> writer" where
  "encode_attempt_body body kind terminal_status anchor_digest = run_writers [
     wire_map 16,
     wire_uint 0, wire_uint 1,
     wire_uint 1, wire_uint 1,
     wire_uint 2, wire_append_byte 0xf6,
     wire_uint 3, wire_uint (kind_code kind),
     wire_uint 4, wire_uint (ucast terminal_status),
     wire_uint 5, wire_bytes (at_attempt_id body),
     wire_uint 6, wire_bytes (at_store_uuid body),
     wire_uint 7, wire_bytes (at_namespace_id body),
     wire_uint 8, wire_bytes (at_checkpoint_lineage_id body),
     wire_uint 9, wire_bytes (at_manifest_digest body),
     wire_uint 10, wire_bytes (at_ordered_object_set_commitment body),
     wire_uint 11, wire_bytes (at_aggregate_source_commitment body),
     wire_uint 12, wire_bytes (at_data_root_identity_commitment body),
     wire_uint 13, wire_bytes (at_anchor_root_identity_commitment body),
     wire_uint 14, wire_bytes anchor_digest,
     wire_uint 15, wire_uint (of_nat (span_size (at_proposed_anchor_envelope body)))]"

definition derive_attempt_key :: "attempt_body \<Rightarrow> byte_span \<Rightarrow> wire_kind \<Rightarrow> digest option" where
  "derive_attempt_key body key kind = do {
     input \<leftarrow> run_writers [
       wire_append (Span (if kind = pending then pending_key_domain else terminal_key_domain)),
       wire_append (Span [0, 0, 0, 0, 0, 0, 0, 1]),
       wire_append (Span (at_attempt_id body)), wire_append (Span (at_store_uuid body)),
       wire_append (Span (at_namespace_id body)), wire_append (Span (at_checkpoint_lineage_id body))] [];
     context_store_hmac_sha256 key (Span input)
   }"

definition compute_envelope_digest :: "byte list \<Rightarrow> wire_kind \<Rightarrow> digest option" where
  "compute_envelope_digest data kind = do {
     input \<leftarrow> run_writers [
       wire_append (Span (if kind = pending then pending_digest_domain else terminal_digest_domain)),
       wire_append (Span data)] [];
     context_store_sha256_bounded (Span input) (of_nat attempt_wire_max_bytes)
   }"

definition exact_equal :: "byte_span \<Rightarrow> byte list \<Rightarrow> bool" where
  "exact_equal left right =
     (if span_null left \<or> span_size left = 0 \<or> span_size left \<noteq> length right \<or>
         span_size left > attempt_wire_max_bytes
      then False else ct_equal (span_bytes left) right)"

text \<open>The anchor digest is an output even when a later step fails.\<close>

definition canonical_wire ::
    "attempt_body \<Rightarrow> byte_span \<Rightarrow> wire_kind \<Rightarrow> byte \<Rightarrow> digest \<times> (byte list \<times> digest) option" where
  "canonical_wire body key kind terminal_status =
     (case proposed_anchor_digest body of
        None \<Rightarrow> (zero_digest, None)
      | Some anchor_digest \<Rightarrow> (anchor_digest, do {
          authentication_input \<leftarrow> encode_attempt_body body kind terminal_status anchor_digest [];
          authentication_message \<leftarrow> run_writers [
            wire_append (Span (if kind = pending then pending_auth_domain else terminal_auth_domain)),
            wire_append (Span authentication_input)] [];
          derived_key \<leftarrow> derive_attempt_key body key kind;
          tag \<leftarrow> context_store_hmac_sha256 (Span derived_key) (Span authentication_message);
          envelope \<leftarrow> run_writers [wire_map 2, wire_uint 0, wire_append (Span authentication_input),
            wire_uint 1, wire_bytes tag] [];
          envelope_digest \<leftarrow> compute_envelope_digest envelope kind;
          Some (envelope, envelope_digest)
        }))"

subsection \<open>The encoder and the verifier\<close>

text \<open>The output buffer is null or has a capacity; the second component is what it receives.\<close>

definition encode_attempt ::
    "attempt_body \<Rightarrow> byte_span \<Rightarrow> wire_kind \<Rightarrow> byte \<Rightarrow> nat option \<Rightarrow> attempt_wire_result \<times> byte list option" where
  "encode_attempt body key kind terminal_status output =
     (if \<not> valid_attempt_policy body key \<or> (kind = terminal \<and> \<not> valid_terminal_status terminal_status)
      then (empty_wire_result\<lparr>aw_status := invalid_policy\<rparr>, None)
      else case canonical_wire body key kind terminal_status of
        (anchor_digest, None) \<Rightarrow>
          (empty_wire_result\<lparr>aw_proposed_anchor_envelope_digest := anchor_digest, aw_status := invalid_policy\<rparr>, None)
      | (anchor_digest, Some (envelope, envelope_digest)) \<Rightarrow>
          (let result = empty_wire_result\<lparr>aw_proposed_anchor_envelope_digest := anchor_digest,
                 aw_envelope_digest := envelope_digest, aw_encoded_size := length envelope\<rparr>
           in case output of
                None \<Rightarrow> (result\<lparr>aw_status := output_too_small\<rparr>, None)
              | Some output_capacity \<Rightarrow>
                  if output_capacity < length envelope then (result\<lparr>aw_status := output_too_small\<rparr>, None)
                  else (result\<lparr>aw_status := authenticated_exact\<rparr>, Some envelope)))"

definition verify_attempt ::
    "byte_span \<Rightarrow> attempt_body \<Rightarrow> byte_span \<Rightarrow> wire_kind \<Rightarrow> byte \<Rightarrow> attempt_wire_result" where
  "verify_attempt data expected key kind terminal_status =
     (if \<not> valid_attempt_policy expected key \<or> (kind = terminal \<and> \<not> valid_terminal_status terminal_status)
      then empty_wire_result\<lparr>aw_status := invalid_policy\<rparr>
      else if span_null data \<or> span_size data = 0 \<or> span_size data > attempt_wire_max_bytes
      then empty_wire_result\<lparr>aw_status := input_rejected\<rparr>
      else case canonical_wire expected key kind terminal_status of
        (anchor_digest, None) \<Rightarrow>
          empty_wire_result\<lparr>aw_proposed_anchor_envelope_digest := anchor_digest, aw_status := invalid_policy\<rparr>
      | (anchor_digest, Some (canonical, envelope_digest)) \<Rightarrow>
          if \<not> exact_equal data canonical
          then empty_wire_result\<lparr>aw_encoded_size := span_size data, aw_status := authentication_failed\<rparr>
          else empty_wire_result\<lparr>aw_proposed_anchor_envelope_digest := anchor_digest,
                 aw_envelope_digest := envelope_digest, aw_encoded_size := span_size data,
                 aw_status := authenticated_exact\<rparr>)"

definition context_store_v1_attempt_pending_encode ::
    "attempt_body \<Rightarrow> byte_span \<Rightarrow> nat option \<Rightarrow> attempt_wire_result \<times> byte list option" where
  "context_store_v1_attempt_pending_encode body key = encode_attempt body key pending 0"

definition context_store_v1_attempt_pending_verify ::
    "byte_span \<Rightarrow> attempt_body \<Rightarrow> byte_span \<Rightarrow> attempt_wire_result" where
  "context_store_v1_attempt_pending_verify data expected key = verify_attempt data expected key pending 0"

definition context_store_v1_attempt_terminal_encode ::
    "attempt_body \<Rightarrow> byte \<Rightarrow> byte_span \<Rightarrow> nat option \<Rightarrow> attempt_wire_result \<times> byte list option" where
  "context_store_v1_attempt_terminal_encode body terminal_status key = encode_attempt body key terminal terminal_status"

definition context_store_v1_attempt_terminal_verify ::
    "byte_span \<Rightarrow> attempt_body \<Rightarrow> byte \<Rightarrow> byte_span \<Rightarrow> attempt_wire_result" where
  "context_store_v1_attempt_terminal_verify data expected expected_status key =
     verify_attempt data expected key terminal expected_status"

subsection \<open>The envelope as a function\<close>

definition wf_attempt :: "attempt_body \<Rightarrow> bool" where
  "wf_attempt b \<longleftrightarrow> length (at_attempt_id b) = 32 \<and> length (at_store_uuid b) = 16 \<and>
     length (at_namespace_id b) = 32 \<and> length (at_checkpoint_lineage_id b) = 32 \<and>
     length (at_manifest_digest b) = 32 \<and> length (at_ordered_object_set_commitment b) = 32 \<and>
     length (at_aggregate_source_commitment b) = 32 \<and> length (at_data_root_identity_commitment b) = 32 \<and>
     length (at_anchor_root_identity_commitment b) = 32"

definition attempt_domain :: "byte list \<Rightarrow> byte list \<Rightarrow> wire_kind \<Rightarrow> byte list" where
  "attempt_domain p t kind = (if kind = pending then p else t)"

definition attempt_anchor_digest :: "attempt_body \<Rightarrow> digest" where
  "attempt_anchor_digest body = sha256 (span_bytes (at_proposed_anchor_envelope body))"

definition attempt_body_bytes :: "attempt_body \<Rightarrow> wire_kind \<Rightarrow> byte \<Rightarrow> byte list" where
  "attempt_body_bytes body kind st =
     cbor_head 5 16 @ cbor_uint 0 @ cbor_uint 1 @ cbor_uint 1 @ cbor_uint 1 @ cbor_uint 2 @ [0xf6]
     @ cbor_uint 3 @ cbor_uint (kind_code kind) @ cbor_uint 4 @ cbor_uint (ucast st)
     @ cbor_uint 5 @ cbor_bytes (at_attempt_id body) @ cbor_uint 6 @ cbor_bytes (at_store_uuid body)
     @ cbor_uint 7 @ cbor_bytes (at_namespace_id body) @ cbor_uint 8 @ cbor_bytes (at_checkpoint_lineage_id body)
     @ cbor_uint 9 @ cbor_bytes (at_manifest_digest body)
     @ cbor_uint 10 @ cbor_bytes (at_ordered_object_set_commitment body)
     @ cbor_uint 11 @ cbor_bytes (at_aggregate_source_commitment body)
     @ cbor_uint 12 @ cbor_bytes (at_data_root_identity_commitment body)
     @ cbor_uint 13 @ cbor_bytes (at_anchor_root_identity_commitment body)
     @ cbor_uint 14 @ cbor_bytes (attempt_anchor_digest body)
     @ cbor_uint 15 @ cbor_uint (of_nat (span_size (at_proposed_anchor_envelope body)))"

definition attempt_key :: "attempt_body \<Rightarrow> byte_span \<Rightarrow> wire_kind \<Rightarrow> digest" where
  "attempt_key body key kind = hmac_sha256 (span_bytes key)
     (attempt_domain pending_key_domain terminal_key_domain kind @ [0, 0, 0, 0, 0, 0, 0, 1]
      @ at_attempt_id body @ at_store_uuid body @ at_namespace_id body @ at_checkpoint_lineage_id body)"

definition attempt_tag :: "attempt_body \<Rightarrow> byte_span \<Rightarrow> wire_kind \<Rightarrow> byte \<Rightarrow> digest" where
  "attempt_tag body key kind st = hmac_sha256 (attempt_key body key kind)
     (attempt_domain pending_auth_domain terminal_auth_domain kind @ attempt_body_bytes body kind st)"

definition attempt_envelope :: "attempt_body \<Rightarrow> byte_span \<Rightarrow> wire_kind \<Rightarrow> byte \<Rightarrow> byte list" where
  "attempt_envelope body key kind st =
     cbor_head 5 2 @ cbor_uint 0 @ attempt_body_bytes body kind st @ cbor_uint 1 @ cbor_bytes (attempt_tag body key kind st)"

definition attempt_envelope_digest :: "attempt_body \<Rightarrow> byte_span \<Rightarrow> wire_kind \<Rightarrow> byte \<Rightarrow> digest" where
  "attempt_envelope_digest body key kind st =
     sha256 (attempt_domain pending_digest_domain terminal_digest_domain kind @ attempt_envelope body key kind st)"

interpretation attempt_encoder: encoder attempt_wire_max_bytes wire_head
  by unfold_locales (simp add: wire_head_def counted_head.emits_head)

lemma emits_wire [emits_intros]:
  "emits attempt_wire_max_bytes (wire_uint v) (cbor_uint v)"
  "emits attempt_wire_max_bytes (wire_map v) (cbor_head 5 v)"
  "emits attempt_wire_max_bytes (wire_append (Span bs)) bs"
  "emits attempt_wire_max_bytes (wire_append_byte b) [b]"
  "emits attempt_wire_max_bytes (wire_bytes bs) (cbor_bytes bs)"
  by (simp_all add: wire_uint_def wire_map_def wire_append_def wire_append_byte_def wire_bytes_def
    attempt_encoder.emits_head attempt_encoder.emits_byte_string emits_append_span emits_append_byte del: run_writers.simps)

lemma emits_last: "emits capacity w bs \<Longrightarrow> emits capacity (run_writers [w]) bs"
  using emits_Cons [OF _ emits_Nil] by (metis append_Nil2)

lemma emits_attempt_body:
  "emits attempt_wire_max_bytes (encode_attempt_body body kind st (attempt_anchor_digest body)) (attempt_body_bytes body kind st)"
  unfolding encode_attempt_body_def attempt_body_bytes_def
  by (intro emits_Cons emits_last emits_wire)

lemma attempt_domain_lengths:
  "length (attempt_domain pending_key_domain terminal_key_domain kind) \<le> 32"
  "length (attempt_domain pending_auth_domain terminal_auth_domain kind) \<le> 33"
  "length (attempt_domain pending_digest_domain terminal_digest_domain kind) \<le> 37"
  by (simp_all add: attempt_domain_def pending_key_domain_def terminal_key_domain_def pending_auth_domain_def
    terminal_auth_domain_def pending_digest_domain_def terminal_digest_domain_def domain_bytes_def ascii_bytes_def)

lemma length_kind_code: "length (cbor_uint (kind_code kind)) = 1"
  by (cases kind) (simp_all add: length_small_head)

lemma attempt_body_bound:
  assumes "wf_attempt body"
  shows "length (attempt_body_bytes body kind st) \<le> 400"
  using assms length_cbor_head_le [of 0 "ucast st"]
    length_cbor_head_le [of 0 "of_nat (span_size (at_proposed_anchor_envelope body))"]
  by (simp add: attempt_body_bytes_def wf_attempt_def length_small_head length_cbor_bytes length_kind_code
    attempt_anchor_digest_def)

lemma attempt_envelope_bound:
  assumes "wf_attempt body"
  shows "length (attempt_envelope body key kind st) \<le> 440" "attempt_envelope body key kind st \<noteq> []"
  using attempt_body_bound [OF assms, of kind st]
  by (simp_all add: attempt_envelope_def length_small_head length_cbor_bytes attempt_tag_def)

lemma proposed_anchor_digest_eq:
  assumes "valid_attempt_policy body key"
  shows "proposed_anchor_digest body = Some (attempt_anchor_digest body)"
proof -
  obtain bs where "at_proposed_anchor_envelope body = Span bs" "length bs \<le> 1024"
    using assms by (cases "at_proposed_anchor_envelope body")
      (auto simp: valid_attempt_policy_def attempt_anchor_max_bytes_def)
  then show ?thesis
    by (simp add: proposed_anchor_digest_def context_store_sha256_bounded_def sha256_spans_iff attempt_anchor_max_bytes_def
      spans_ok_def spans_bytes_def valid_span_def attempt_anchor_digest_def)
qed

lemma hmac_bounded:
  assumes "\<not> span_null key" "span_size key = 32" "length message \<le> 2048"
  shows "context_store_hmac_sha256 key (Span message) = Some (hmac_sha256 (span_bytes key) message)"
  using assms by (simp add: context_store_hmac_sha256_def hmac_spans_iff valid_span_def master_key_max_bytes_def
    spans_ok_def spans_bytes_def crypto_input_max_bytes_def)

lemma derive_attempt_key_eq:
  assumes "valid_attempt_policy body key" "wf_attempt body"
  shows "derive_attempt_key body key kind = Some (attempt_key body key kind)"
proof -
  let ?d = "attempt_domain pending_key_domain terminal_key_domain kind"
  let ?input = "?d @ [0, 0, 0, 0, 0, 0, 0, 1] @ at_attempt_id body @ at_store_uuid body @ at_namespace_id body
    @ at_checkpoint_lineage_id body"
  have "emits attempt_wire_max_bytes (run_writers [wire_append (Span ?d), wire_append (Span [0, 0, 0, 0, 0, 0, 0, 1]),
      wire_append (Span (at_attempt_id body)), wire_append (Span (at_store_uuid body)),
      wire_append (Span (at_namespace_id body)), wire_append (Span (at_checkpoint_lineage_id body))]) ?input"
    by (intro emits_Cons emits_last emits_wire)
  moreover have short: "length ?input \<le> 2048"
    using assms(2) attempt_domain_lengths(1) [of kind] by (simp add: wf_attempt_def)
  ultimately have "run_writers [wire_append (Span ?d), wire_append (Span [0, 0, 0, 0, 0, 0, 0, 1]),
      wire_append (Span (at_attempt_id body)), wire_append (Span (at_store_uuid body)),
      wire_append (Span (at_namespace_id body)), wire_append (Span (at_checkpoint_lineage_id body))] [] = Some ?input"
    using emitsD by (simp add: attempt_wire_max_bytes_def del: run_writers.simps)
  then show ?thesis
    using hmac_bounded [of key ?input] assms(1) short
    by (simp add: derive_attempt_key_def attempt_key_def attempt_domain_def valid_attempt_policy_def
      attempt_master_key_bytes_def del: run_writers.simps)
qed

lemma run_two_appends:
  assumes "length a + length b \<le> 2048"
  shows "run_writers [wire_append (Span a), wire_append (Span b)] [] = Some (a @ b)"
  using assms by (simp add: wire_append_def append_span_def attempt_wire_max_bytes_def)

lemma compute_envelope_digest_eq:
  assumes "wf_attempt body"
  shows "compute_envelope_digest (attempt_envelope body key kind st) kind = Some (attempt_envelope_digest body key kind st)"
proof -
  let ?d = "attempt_domain pending_digest_domain terminal_digest_domain kind"
  have short: "length ?d + length (attempt_envelope body key kind st) \<le> 2048"
    using attempt_envelope_bound(1) [OF assms, of key kind st] attempt_domain_lengths(3) [of kind] by simp
  show ?thesis
    using run_two_appends [OF short] short
    by (simp add: compute_envelope_digest_def attempt_domain_def attempt_envelope_digest_def context_store_sha256_bounded_def
      sha256_spans_iff attempt_wire_max_bytes_def spans_ok_def spans_bytes_def valid_span_def del: run_writers.simps)
qed

lemma canonical_wire_eq:
  assumes "valid_attempt_policy body key" "wf_attempt body"
  shows "canonical_wire body key kind st = (attempt_anchor_digest body,
    Some (attempt_envelope body key kind st, attempt_envelope_digest body key kind st))"
proof -
  let ?auth = "attempt_body_bytes body kind st"
  let ?d = "attempt_domain pending_auth_domain terminal_auth_domain kind"
  have auth: "encode_attempt_body body kind st (attempt_anchor_digest body) [] = Some ?auth"
    using emitsD [OF emits_attempt_body] attempt_body_bound [OF assms(2), of kind st]
    by (simp add: attempt_wire_max_bytes_def)
  have short: "length ?d + length ?auth \<le> 2048"
    using attempt_body_bound [OF assms(2), of kind st] attempt_domain_lengths(2) [of kind] by simp
  have tag: "context_store_hmac_sha256 (Span (attempt_key body key kind)) (Span (?d @ ?auth)) =
      Some (attempt_tag body key kind st)"
    using hmac_bounded [of "Span (attempt_key body key kind)" "?d @ ?auth"] short
    by (simp add: attempt_tag_def attempt_key_def)
  have "emits attempt_wire_max_bytes (run_writers [wire_map 2, wire_uint 0, wire_append (Span ?auth), wire_uint 1,
      wire_bytes (attempt_tag body key kind st)]) (attempt_envelope body key kind st)"
    unfolding attempt_envelope_def by (intro emits_Cons emits_last emits_wire)
  then have "run_writers [wire_map 2, wire_uint 0, wire_append (Span ?auth), wire_uint 1,
      wire_bytes (attempt_tag body key kind st)] [] = Some (attempt_envelope body key kind st)"
    using emitsD attempt_envelope_bound(1) [OF assms(2), of key kind st]
    by (simp add: attempt_wire_max_bytes_def del: run_writers.simps)
  then show ?thesis
    using run_two_appends [OF short] tag
    by (simp add: canonical_wire_def proposed_anchor_digest_eq [OF assms(1)] auth derive_attempt_key_eq [OF assms]
      compute_envelope_digest_eq [OF assms(2)] attempt_domain_def del: run_writers.simps)
qed

subsection \<open>What the records guarantee\<close>

definition accepted_result :: "attempt_body \<Rightarrow> byte_span \<Rightarrow> wire_kind \<Rightarrow> byte \<Rightarrow> attempt_wire_result" where
  "accepted_result body key kind st = \<lparr>aw_status = authenticated_exact,
     aw_envelope_digest = attempt_envelope_digest body key kind st,
     aw_proposed_anchor_envelope_digest = attempt_anchor_digest body,
     aw_encoded_size = length (attempt_envelope body key kind st)\<rparr>"

lemma exact_equal_iff:
  "exact_equal data bs \<longleftrightarrow> data = Span bs \<and> bs \<noteq> [] \<and> length bs \<le> attempt_wire_max_bytes"
  by (cases data) (auto simp: exact_equal_def)

lemma verify_attempt_eq:
  assumes "wf_attempt body"
  shows "verify_attempt data body key kind st =
    (if \<not> valid_attempt_policy body key \<or> (kind = terminal \<and> \<not> valid_terminal_status st)
     then empty_wire_result\<lparr>aw_status := invalid_policy\<rparr>
     else if span_null data \<or> span_size data = 0 \<or> span_size data > attempt_wire_max_bytes then empty_wire_result
     else if data = Span (attempt_envelope body key kind st) then accepted_result body key kind st
     else empty_wire_result\<lparr>aw_encoded_size := span_size data, aw_status := authentication_failed\<rparr>)"
proof (cases "valid_attempt_policy body key")
  case True
  have "exact_equal data (attempt_envelope body key kind st) \<longleftrightarrow> data = Span (attempt_envelope body key kind st)"
    using attempt_envelope_bound [OF assms, of key kind st]
    by (auto simp: exact_equal_iff attempt_wire_max_bytes_def)
  then show ?thesis
    by (auto simp: verify_attempt_def canonical_wire_eq [OF True assms] empty_wire_result_def accepted_result_def)
qed (simp add: verify_attempt_def)

lemma verify_attempt_accepts:
  assumes "wf_attempt body"
  shows "attempt_authenticated (verify_attempt data body key kind st) \<longleftrightarrow>
    valid_attempt_policy body key \<and> (kind = pending \<or> valid_terminal_status st) \<and>
    data = Span (attempt_envelope body key kind st)"
  using attempt_envelope_bound [OF assms, of key kind st]
  by (cases kind) (auto simp: verify_attempt_eq [OF assms] attempt_authenticated_def accepted_result_def empty_wire_result_def
    attempt_wire_max_bytes_def)

lemma encode_attempt_eq:
  assumes "wf_attempt body" "valid_attempt_policy body key" "kind = pending \<or> valid_terminal_status st"
  shows "encode_attempt body key kind st buf =
    (if buf = None \<or> the buf < length (attempt_envelope body key kind st)
     then ((accepted_result body key kind st)\<lparr>aw_status := output_too_small\<rparr>, None)
     else (accepted_result body key kind st, Some (attempt_envelope body key kind st)))"
  using assms
  by (cases buf) (auto simp: encode_attempt_def canonical_wire_eq [OF assms(2,1)] accepted_result_def empty_wire_result_def)

lemma kind_code_inj [simp]: "kind_code k = kind_code l \<longleftrightarrow> k = l"
  by (cases k; cases l) simp_all

lemma byte_code_inj [simp]: "(ucast (a :: byte) :: u64) = ucast b \<longleftrightarrow> a = b"
  by (metis ucast_ucast_byte)

definition same_attempt :: "attempt_body \<Rightarrow> attempt_body \<Rightarrow> bool" where
  "same_attempt b c \<longleftrightarrow>
     at_attempt_id b = at_attempt_id c \<and> at_store_uuid b = at_store_uuid c \<and> at_namespace_id b = at_namespace_id c \<and>
     at_checkpoint_lineage_id b = at_checkpoint_lineage_id c \<and> at_manifest_digest b = at_manifest_digest c \<and>
     at_ordered_object_set_commitment b = at_ordered_object_set_commitment c \<and>
     at_aggregate_source_commitment b = at_aggregate_source_commitment c \<and>
     at_data_root_identity_commitment b = at_data_root_identity_commitment c \<and>
     at_anchor_root_identity_commitment b = at_anchor_root_identity_commitment c \<and>
     attempt_anchor_digest b = attempt_anchor_digest c \<and>
     span_size (at_proposed_anchor_envelope b) = span_size (at_proposed_anchor_envelope c)"

lemma length_attempt_anchor_digest [simp]: "length (attempt_anchor_digest body) = 32"
  by (simp add: attempt_anchor_digest_def)

lemma attempt_size_inj:
  assumes "span_size a \<le> 1024" "span_size b \<le> 1024"
  shows "(of_nat (span_size a) :: u64) = of_nat (span_size b) \<longleftrightarrow> span_size a = span_size b"
  using assms by (simp add: word_unat_eq_iff unat_of_nat)

lemma attempt_body_bytes_inj:
  assumes "wf_attempt b" "wf_attempt c" "attempt_body_bytes b k s @ x = attempt_body_bytes c l t @ y"
    "span_size (at_proposed_anchor_envelope b) \<le> 1024" "span_size (at_proposed_anchor_envelope c) \<le> 1024"
  shows "k = l \<and> s = t \<and> same_attempt b c"
proof -
  have cb: "cbor_bytes (f b) @ x = cbor_bytes (f c) @ y \<longleftrightarrow> f b = f c \<and> x = y"
    if "length (f b) \<le> 32" "length (f c) \<le> 32" for f :: "attempt_body \<Rightarrow> byte list" and x y
    using that by (intro cbor_text_inj(2)) simp_all
  note fields = cb [where f = at_attempt_id] cb [where f = at_store_uuid] cb [where f = at_namespace_id]
    cb [where f = at_checkpoint_lineage_id] cb [where f = at_manifest_digest]
    cb [where f = at_ordered_object_set_commitment] cb [where f = at_aggregate_source_commitment]
    cb [where f = at_data_root_identity_commitment] cb [where f = at_anchor_root_identity_commitment]
    cb [where f = attempt_anchor_digest]
  show ?thesis
    using assms
    by (simp add: attempt_body_bytes_def fields wf_attempt_def cbor_head_inj same_attempt_def
      attempt_size_inj [OF assms(4,5)])
qed

lemma attempt_envelope_inj:
  assumes "wf_attempt b" "wf_attempt c" "valid_attempt_policy b key" "valid_attempt_policy c key'"
    "attempt_envelope b key k s = attempt_envelope c key' l t"
  shows "k = l \<and> s = t \<and> same_attempt b c"
  using assms attempt_body_bytes_inj [OF assms(1,2)]
  by (simp add: attempt_envelope_def cbor_head_inj valid_attempt_policy_def attempt_anchor_max_bytes_def)

text \<open>
  Exactness of attempt records. Whatever the input, the pending and the terminal verifier
  authenticate exactly one byte string, the canonical envelope of the expected body under the
  key and, for a terminal record, under a status of the enumeration; the 2048-byte
  buffer always suffices.
\<close>
theorem attempt_verify_exact:
  assumes "wf_attempt body"
  shows "(attempt_authenticated (context_store_v1_attempt_pending_verify data body key) \<longleftrightarrow>
      valid_attempt_policy body key \<and> data = Span (attempt_envelope body key pending 0)) \<and>
    (attempt_authenticated (context_store_v1_attempt_terminal_verify data body st key) \<longleftrightarrow>
      valid_attempt_policy body key \<and> valid_terminal_status st \<and> data = Span (attempt_envelope body key terminal st))"
  by (simp add: context_store_v1_attempt_pending_verify_def context_store_v1_attempt_terminal_verify_def
    verify_attempt_accepts [OF assms])

definition sample_attempt :: attempt_body where
  "sample_attempt = \<lparr>at_attempt_id = replicate 32 1, at_store_uuid = replicate 16 2, at_namespace_id = replicate 32 3,
     at_checkpoint_lineage_id = replicate 32 4, at_manifest_digest = replicate 32 5,
     at_ordered_object_set_commitment = replicate 32 6, at_aggregate_source_commitment = replicate 32 7,
     at_data_root_identity_commitment = replicate 32 8, at_anchor_root_identity_commitment = replicate 32 9,
     at_proposed_anchor_envelope = Span [1, 2, 3]\<rparr>"

definition sample_master :: byte_span where
  "sample_master = Span (replicate 32 1)"

lemma sample_attempt_ok: "wf_attempt sample_attempt" "valid_attempt_policy sample_attempt sample_master"
  "valid_terminal_status terminal_success"
  by (simp_all add: sample_attempt_def sample_master_def wf_attempt_def valid_attempt_policy_def nonzero_span_def nonzero_iff
    attempt_master_key_bytes_def attempt_anchor_max_bytes_def valid_terminal_status_def)

theorem attempt_verify_exact_witness:
  "attempt_authenticated (context_store_v1_attempt_pending_verify
     (Span (attempt_envelope sample_attempt sample_master pending 0)) sample_attempt sample_master)"
  using attempt_verify_exact [OF sample_attempt_ok(1), of "Span (attempt_envelope sample_attempt sample_master pending 0)"
    sample_master] sample_attempt_ok by blast

text \<open>
  Round trip of attempt records. With a valid body, key and status and an output buffer of at
  least 440 bytes both encoders succeed, the bytes they write verify, and the verifier
  returns the very result the encoder returned.
\<close>
theorem attempt_encode_verify:
  assumes "wf_attempt body" and "valid_attempt_policy body key" and "valid_terminal_status st" and "440 \<le> capacity"
  shows "(\<exists>r envelope. context_store_v1_attempt_pending_encode body key (Some capacity) = (r, Some envelope) \<and>
      attempt_authenticated r \<and> context_store_v1_attempt_pending_verify (Span envelope) body key = r) \<and>
    (\<exists>r envelope. context_store_v1_attempt_terminal_encode body st key (Some capacity) = (r, Some envelope) \<and>
      attempt_authenticated r \<and> context_store_v1_attempt_terminal_verify (Span envelope) body st key = r)"
proof -
  have "\<exists>r envelope. encode_attempt body key kind s (Some capacity) = (r, Some envelope) \<and>
      attempt_authenticated r \<and> verify_attempt (Span envelope) body key kind s = r"
    if "kind = pending \<or> valid_terminal_status s" for kind s
    using attempt_envelope_bound [OF assms(1), of key kind s] assms that
    by (auto simp: encode_attempt_eq verify_attempt_eq attempt_authenticated_def accepted_result_def attempt_wire_max_bytes_def)
  then show ?thesis
    using assms(3) by (simp add: context_store_v1_attempt_pending_encode_def context_store_v1_attempt_pending_verify_def
      context_store_v1_attempt_terminal_encode_def context_store_v1_attempt_terminal_verify_def)
qed

theorem attempt_encode_verify_witness:
  "\<exists>r envelope. context_store_v1_attempt_terminal_encode sample_attempt terminal_success sample_master (Some 440) =
     (r, Some envelope) \<and> attempt_authenticated r"
  using attempt_encode_verify [OF sample_attempt_ok, of 440] by blast

text \<open>
  C7: No confusion of attempt records. Whatever the bodies and keys, a byte string authenticated
  as pending is never authenticated as terminal, and one authenticated as two terminal
  records has the same status and the same body in both, the proposed anchor by its length
  and SHA-256 digest.
\<close>
theorem attempt_records_distinct:
  assumes "wf_attempt b" and "wf_attempt c"
    and "attempt_authenticated (context_store_v1_attempt_terminal_verify data b st key)"
  shows "\<not> attempt_authenticated (context_store_v1_attempt_pending_verify data c key') \<and>
    (attempt_authenticated (context_store_v1_attempt_terminal_verify data c st' key') \<longrightarrow> st = st' \<and> same_attempt b c)"
  using assms attempt_envelope_inj [OF assms(1,2)]
  by (fastforce simp: context_store_v1_attempt_pending_verify_def context_store_v1_attempt_terminal_verify_def
    verify_attempt_accepts)

theorem attempt_records_distinct_witness:
  "\<not> attempt_authenticated (context_store_v1_attempt_pending_verify
     (Span (attempt_envelope sample_attempt sample_master terminal terminal_success)) sample_attempt sample_master)"
proof -
  have "attempt_authenticated (context_store_v1_attempt_terminal_verify
      (Span (attempt_envelope sample_attempt sample_master terminal terminal_success)) sample_attempt terminal_success sample_master)"
    by (simp add: context_store_v1_attempt_terminal_verify_def verify_attempt_accepts sample_attempt_ok)
  then show ?thesis using attempt_records_distinct [OF sample_attempt_ok(1,1)] by blast
qed

end
