(* ===== verification/Provider.thy ===== *)
theory Provider
  imports HaloFPX_Prelude
begin

text \<open>
  \<^verbatim>\<open>halofpx-context-store.{h,cpp}\<close>: identities, the lookup result that owns the candidate it
  carries, the provider interface and the disabled provider. A result can only be built by
  \<^verbatim>\<open>miss\<close> and \<^verbatim>\<open>hit\<close> and then moved; moving a \<^verbatim>\<open>unique_ptr\<close> leaves a null pointer, while the
  moved-from status stays as it was. The results that live at one time are a map from
  slots, changed by a step relation.
  Shown: no result reports a hit without a candidate or hides one behind a miss, and a
  candidate has one owner at any time.
\<close>

record identity =
  id_compatibility_root :: digest
  id_scope_namespace :: digest
  id_checkpoint_lineage_id :: digest
  id_policy_epoch :: u64

datatype lookup_status =
    hit | miss_disabled | miss_not_found | miss_unauthorized | miss_incompatible | miss_unsupported
  | miss_corrupt | miss_incomplete | miss_replay | miss_storage

record 'c lookup_result =
  lr_status :: lookup_status
  lr_candidate :: "'c option"

definition lookup_miss :: "lookup_status \<Rightarrow> 'c lookup_result" where
  "lookup_miss status = \<lparr>lr_status = (if status = hit then miss_incomplete else status), lr_candidate = None\<rparr>"

definition lookup_hit :: "'c option \<Rightarrow> 'c lookup_result" where
  "lookup_hit candidate =
     (if candidate = None then lookup_miss miss_incomplete
      else \<lparr>lr_status = hit, lr_candidate = candidate\<rparr>)"

definition is_hit :: "'c lookup_result \<Rightarrow> bool" where
  "is_hit r \<longleftrightarrow> lr_status r = hit \<and> lr_candidate r \<noteq> None"

definition moved_from :: "'c lookup_result \<Rightarrow> 'c lookup_result" where
  "moved_from r = r\<lparr>lr_candidate := None\<rparr>"

datatype publish_status =
    published | disabled | rejected_unauthorized | rejected_incomplete | rejected_unsupported | rejected_replay
  | storage_error

record capabilities =
  cp_persistent_reads :: bool
  cp_persistent_writes :: bool
  cp_enumeration :: bool
  cp_anonymous_scope :: bool
  cp_shared_scope :: bool
  cp_admitted_state_profiles :: nat
  cp_admitted_codecs :: nat

text \<open>A provider; a publish request borrows a generation or null.\<close>

record ('c, 'g) provider =
  pv_name :: string
  pv_capabilities :: capabilities
  pv_lookup :: "identity \<Rightarrow> 'c lookup_result"
  pv_publish :: "'g option \<Rightarrow> publish_status"

definition disabled_provider :: "('c, 'g) provider" where
  "disabled_provider = \<lparr>pv_name = ''disabled'',
     pv_capabilities = \<lparr>cp_persistent_reads = False, cp_persistent_writes = False, cp_enumeration = False,
       cp_anonymous_scope = False, cp_shared_scope = False, cp_admitted_state_profiles = 0, cp_admitted_codecs = 0\<rparr>,
     pv_lookup = (\<lambda>request. lookup_miss miss_disabled),
     pv_publish = (\<lambda>request. disabled)\<rparr>"

subsection \<open>Ownership of candidates\<close>

type_synonym 'c lookup_store = "nat \<rightharpoonup> 'c lookup_result"

definition owns :: "'c lookup_store \<Rightarrow> nat \<Rightarrow> 'c \<Rightarrow> bool" where
  "owns m i c \<longleftrightarrow> (\<exists>r. m i = Some r \<and> lr_candidate r = Some c)"

text \<open>
  What a program can do with results: build one, with a candidate no live result owns, move
  one into a new or an existing slot, and destroy one.
\<close>

inductive lookup_step :: "'c lookup_store \<Rightarrow> 'c lookup_store \<Rightarrow> bool" where
  build_miss: "m i = None \<Longrightarrow> lookup_step m (m(i \<mapsto> lookup_miss st))"
| build_hit: "m i = None \<Longrightarrow> (\<And>j c. candidate = Some c \<Longrightarrow> \<not> owns m j c) \<Longrightarrow>
    lookup_step m (m(i \<mapsto> lookup_hit candidate))"
| move: "m i = Some r \<Longrightarrow> i \<noteq> j \<Longrightarrow> lookup_step m (m(i \<mapsto> moved_from r, j \<mapsto> r))"
| destroy: "lookup_step m (m(i := None))"

inductive lookup_reachable :: "'c lookup_store \<Rightarrow> bool" where
  start: "lookup_reachable (\<lambda>_. None)"
| step: "lookup_reachable m \<Longrightarrow> lookup_step m n \<Longrightarrow> lookup_reachable n"

definition result_sound :: "'c lookup_result \<Rightarrow> bool" where
  "result_sound r \<longleftrightarrow> (lr_candidate r \<noteq> None \<longrightarrow> lr_status r = hit)"

lemma result_sound_intros [simp]:
  "result_sound (lookup_miss st)" "result_sound (lookup_hit candidate)" "result_sound (moved_from r)"
  by (simp_all add: result_sound_def lookup_miss_def lookup_hit_def moved_from_def)

lemma result_sound_is_hit: "result_sound r \<Longrightarrow> is_hit r \<longleftrightarrow> lr_candidate r \<noteq> None"
  by (auto simp: result_sound_def is_hit_def)

definition store_sound :: "'c lookup_store \<Rightarrow> bool" where
  "store_sound m \<longleftrightarrow> (\<forall>i r. m i = Some r \<longrightarrow> result_sound r) \<and>
     (\<forall>i j c. owns m i c \<longrightarrow> owns m j c \<longrightarrow> i = j)"

lemma owns_upd:
  "owns (m(i \<mapsto> r)) j c \<longleftrightarrow> (if j = i then lr_candidate r = Some c else owns m j c)"
  "owns (m(i := None)) j c \<longleftrightarrow> j \<noteq> i \<and> owns m j c"
  by (auto simp: owns_def)

lemma built_candidate [simp]:
  "lr_candidate (lookup_miss st) = None" "lr_candidate (moved_from r) = None" "lr_candidate (lookup_hit c) = c"
  by (auto simp: lookup_miss_def moved_from_def lookup_hit_def)

lemma store_sound_step:
  assumes "lookup_step m n" "store_sound m"
  shows "store_sound n"
  using assms(1)
proof (cases rule: lookup_step.cases)
  case (move i r j)
  have "owns m i c" if "lr_candidate r = Some c" for c using that move by (simp add: owns_def)
  then show ?thesis using move assms(2) by (auto simp: store_sound_def owns_upd split: if_splits)
qed (use assms(2) in \<open>auto simp: store_sound_def owns_upd split: if_splits\<close>)

lemma reachable_store_sound: "lookup_reachable m \<Longrightarrow> store_sound m"
proof (induction rule: lookup_reachable.induct)
  case start
  then show ?case by (simp add: store_sound_def owns_def)
next
  case (step m n)
  then show ?case using store_sound_step by blast
qed

subsection \<open>Providers\<close>

text \<open>
  The constructor of a result is private, so every provider answers with a result of one
  of the two factories.
\<close>

locale result_provider =
  fixes lookup :: "identity \<Rightarrow> 'c lookup_result"
  assumes built: "(\<exists>st. lookup request = lookup_miss st) \<or> (\<exists>c. lookup request = lookup_hit c)"
begin

lemma lookup_status_candidate: "lr_status (lookup request) = hit \<longleftrightarrow> lr_candidate (lookup request) \<noteq> None"
  using built [of request] by (auto simp: lookup_miss_def lookup_hit_def split: if_splits)

lemma is_hit_candidate: "is_hit (lookup request) \<longleftrightarrow> lr_candidate (lookup request) \<noteq> None"
  using lookup_status_candidate by (auto simp: is_hit_def)

end

interpretation disabled_result: result_provider "pv_lookup disabled_provider"
  by unfold_locales (auto simp: disabled_provider_def)

text \<open>
  Ownership. Whatever sequence of results is built, moved and destroyed, a live result
  holds a candidate exactly when it reports a hit, no two live results hold the same
  candidate, and the disabled provider yields neither a candidate nor a publication.
\<close>
theorem lookup_ownership:
  assumes "lookup_reachable m"
  shows "(\<forall>i r. m i = Some r \<longrightarrow> (is_hit r \<longleftrightarrow> lr_candidate r \<noteq> None)) \<and>
    (\<forall>i j c. owns m i c \<and> owns m j c \<longrightarrow> i = j) \<and>
    \<not> is_hit (pv_lookup disabled_provider request) \<and> pv_publish disabled_provider generation \<noteq> published"
proof -
  have "\<not> is_hit (pv_lookup disabled_provider request)"
    using disabled_result.is_hit_candidate [of request] by (simp add: disabled_provider_def)
  then show ?thesis
    using reachable_store_sound [OF assms] result_sound_is_hit by (auto simp: store_sound_def disabled_provider_def)
qed

definition sample_store :: "nat lookup_store" where
  "sample_store = [0 \<mapsto> moved_from (lookup_hit (Some 7)), 1 \<mapsto> lookup_hit (Some 7)]"

lemma sample_store_reachable: "lookup_reachable sample_store"
proof -
  have "lookup_reachable [0 \<mapsto> lookup_hit (Some 7)]"
    by (rule step [OF start], rule build_hit) (simp_all add: owns_def)
  from step [OF this move [of _ 0 "lookup_hit (Some 7)" 1]] show ?thesis
    by (simp add: sample_store_def)
qed

theorem lookup_ownership_witness:
  "is_hit (lookup_hit (Some (7 :: nat))) \<and> \<not> is_hit (moved_from (lookup_hit (Some (7 :: nat))))"
proof -
  have "is_hit r \<longleftrightarrow> lr_candidate r \<noteq> None" if "sample_store i = Some r" for i r
    using lookup_ownership [OF sample_store_reachable] that by blast
  from this [of 0] this [of 1] show ?thesis by (simp add: sample_store_def)
qed

end
