(* ===== verification/Catalog_Record.thy ===== *)
theory Catalog_Record
  imports Provider Auth
begin

text \<open>
  The records of the exact-key catalogue, \<^verbatim>\<open>halofpx-context-store-v1-catalog.cpp\<close>: 496 bytes that
  bind an identity and a manifest digest to one slot of one catalogue directory, under a key
  derived from the operator's key. A record is read with a moving pointer, which the readers of
  \<^verbatim>\<open>Cbor\<close> model, and written into a zeroed array.
  Shown: decoding accepts exactly what encoding writes, so that a record is read back as it was
  written and every accepted byte string carries the tag of the key.
\<close>

subsection \<open>Data\<close>

definition directory_mode :: u32 where "directory_mode = 0x1c0"
definition file_mode :: u32 where "file_mode = 0x180"
definition catalog_key_domain :: "byte list" where
  "catalog_key_domain = domain_bytes ''halofpx.full-v1-catalog.record-key.v1''"
definition catalog_manifest_key_domain :: "byte list" where
  "catalog_manifest_key_domain = domain_bytes ''halofpx.full-v1-canary.manifest-key.v1''"
definition catalog_manifest_key_id :: registered_id where
  "catalog_manifest_key_id = ascii_bytes ''halofpx-full-v1-canary-manifest-v1''"
definition record_magic :: "byte list" where
  "record_magic = ascii_bytes ''HFPXCAT1''"
definition record_body_bytes :: nat where "record_body_bytes = 464"
definition record_bytes :: nat where "record_bytes = record_body_bytes + 32"
definition operator_key_bytes :: nat where "operator_key_bytes = 32"

record root_identity =
  ri_device :: u64
  ri_inode :: u64
  ri_mount :: u64
  ri_uid :: u64
  ri_fs :: u64
  ri_mode :: u32

record catalog_record =
  cr_kind :: byte
  cr_capacity :: u32
  cr_ordinal :: u32
  cr_uuid :: "byte list"
  cr_catalog :: root_identity
  cr_data :: root_identity
  cr_anchor :: root_identity
  cr_identity :: identity
  cr_manifest :: digest
  cr_producer :: digest
  cr_global_plan :: digest
  cr_rank_ownership :: digest
  cr_rank_placement :: digest
  cr_topology_epoch :: u64

subsection \<open>Keys\<close>

definition derive_catalog_key :: "byte_span \<Rightarrow> byte list \<Rightarrow> byte list \<Rightarrow> digest option" where
  "derive_catalog_key key uuid domain =
     (if span_null key \<or> span_size key \<noteq> operator_key_bytes \<or> length domain + length uuid > 128 then None
      else context_store_hmac_sha256 key (Span (domain @ uuid)))"

subsection \<open>Writing\<close>

definition put_u32 :: "u32 \<Rightarrow> byte list" where
  "put_u32 v = map (\<lambda>shift. ucast (drop_bit shift v)) [24, 16, 8, 0]"

definition put_u64 :: "u64 \<Rightarrow> byte list" where
  "put_u64 v = map (\<lambda>shift. ucast (drop_bit shift v)) [56, 48, 40, 32, 24, 16, 8, 0]"

definition put_root :: "root_identity \<Rightarrow> byte list" where
  "put_root x = put_u64 (ri_device x) @ put_u64 (ri_inode x) @ put_u64 (ri_mount x)
     @ put_u64 (ri_uid x) @ put_u64 (ri_fs x) @ put_u32 (ri_mode x) @ put_u32 0"

definition record_fields :: "catalog_record \<Rightarrow> byte list" where
  "record_fields r =
     put_u32 (cr_capacity r) @ put_u32 (cr_ordinal r) @ cr_uuid r
     @ put_root (cr_catalog r) @ put_root (cr_data r) @ put_root (cr_anchor r)
     @ id_scope_namespace (cr_identity r) @ id_checkpoint_lineage_id (cr_identity r)
     @ id_compatibility_root (cr_identity r) @ put_u64 (id_policy_epoch (cr_identity r))
     @ cr_manifest r @ cr_producer r @ cr_global_plan r @ cr_rank_ownership r @ cr_rank_placement r
     @ put_u64 (cr_topology_epoch r)"

definition record_body :: "catalog_record \<Rightarrow> byte list" where
  "record_body r = (let bytes = record_magic @ [1, cr_kind r, 0, 0] @ record_fields r
     in bytes @ replicate (record_body_bytes - length bytes) 0)"

definition encode_record :: "catalog_record \<Rightarrow> digest \<Rightarrow> byte list" where
  "encode_record r key =
     (case context_store_hmac_sha256 (Span key) (Span (record_body r)) of
        None \<Rightarrow> replicate record_bytes 0
      | Some tag \<Rightarrow> record_body r @ tag)"

subsection \<open>Reading\<close>

type_synonym 'a field_reader = "(unit, 'a) reader"

abbreviation no_field :: "nat \<Rightarrow> unit" where "no_field \<equiv> \<lambda>_. ()"

definition get_u32 :: "u32 field_reader" where
  "get_u32 = bind_reader (take_bytes no_field 4)
     (\<lambda>bs. return_reader (foldl (\<lambda>v b. push_bit 8 v OR ucast b) 0 bs))"

definition get_u64 :: "u64 field_reader" where
  "get_u64 = bind_reader (take_bytes no_field 8)
     (\<lambda>bs. return_reader (foldl (\<lambda>v b. push_bit 8 v OR ucast b) 0 bs))"

definition get_digest :: "digest field_reader" where
  "get_digest = take_bytes no_field 32"

definition get_root :: "root_identity field_reader" where
  "get_root =
     bind_reader get_u64 (\<lambda>device. bind_reader get_u64 (\<lambda>inode. bind_reader get_u64 (\<lambda>mount.
     bind_reader get_u64 (\<lambda>uid. bind_reader get_u64 (\<lambda>fs. bind_reader get_u32 (\<lambda>mode.
     bind_reader get_u32 (\<lambda>reserved. bind_reader (check no_field (reserved = 0)) (\<lambda>_.
     return_reader \<lparr>ri_device = device, ri_inode = inode, ri_mount = mount, ri_uid = uid,
       ri_fs = fs, ri_mode = mode\<rparr>))))))))"

definition get_identity :: "identity field_reader" where
  "get_identity =
     bind_reader get_digest (\<lambda>scope. bind_reader get_digest (\<lambda>lineage.
     bind_reader get_digest (\<lambda>compatibility. bind_reader get_u64 (\<lambda>epoch.
     return_reader \<lparr>id_compatibility_root = compatibility, id_scope_namespace = scope,
       id_checkpoint_lineage_id = lineage, id_policy_epoch = epoch\<rparr>))))"

definition get_record :: "byte \<Rightarrow> catalog_record field_reader" where
  "get_record kind =
     bind_reader get_u32 (\<lambda>capacity. bind_reader get_u32 (\<lambda>ordinal. bind_reader (take_bytes no_field 16) (\<lambda>uuid.
     bind_reader get_root (\<lambda>catalog. bind_reader get_root (\<lambda>data. bind_reader get_root (\<lambda>anchor.
     bind_reader get_identity (\<lambda>i.
     bind_reader get_digest (\<lambda>manifest. bind_reader get_digest (\<lambda>producer. bind_reader get_digest (\<lambda>plan.
     bind_reader get_digest (\<lambda>ownership. bind_reader get_digest (\<lambda>placement. bind_reader get_u64 (\<lambda>epoch.
     return_reader \<lparr>cr_kind = kind, cr_capacity = capacity, cr_ordinal = ordinal, cr_uuid = uuid,
       cr_catalog = catalog, cr_data = data, cr_anchor = anchor, cr_identity = i, cr_manifest = manifest,
       cr_producer = producer, cr_global_plan = plan, cr_rank_ownership = ownership,
       cr_rank_placement = placement, cr_topology_epoch = epoch\<rparr>)))))))))))))"

definition get_body :: "catalog_record field_reader" where
  "get_body =
     bind_reader (next_byte no_field) (\<lambda>version. bind_reader (check no_field (version = 1)) (\<lambda>_.
     bind_reader (next_byte no_field) (\<lambda>kind.
     bind_reader (next_byte no_field) (\<lambda>first. bind_reader (check no_field (first = 0)) (\<lambda>_.
     bind_reader (next_byte no_field) (\<lambda>second. bind_reader (check no_field (second = 0)) (\<lambda>_.
     bind_reader (check no_field (kind = 1 \<or> kind = 2)) (\<lambda>_. get_record kind))))))))"

definition decode_record :: "byte_span \<Rightarrow> digest \<Rightarrow> catalog_record option" where
  "decode_record bytes key =
     (if span_null bytes \<or> span_size bytes \<noteq> record_bytes then None
      else let bs = span_bytes bytes in
        case context_store_hmac_sha256 (Span key) (Span (take record_body_bytes bs)) of
          None \<Rightarrow> None
        | Some tag \<Rightarrow>
            if \<not> ct_equal tag (drop record_body_bytes bs) \<or> take 8 bs \<noteq> record_magic then None
            else (case get_body (8, drop 8 (take record_body_bytes bs)) of
              Inl _ \<Rightarrow> None
            | Inr (r, (_, rest)) \<Rightarrow> if list_all (\<lambda>b. b = 0) rest then Some r else None))"

definition same_root :: "root_identity \<Rightarrow> root_identity \<Rightarrow> bool" where
  "same_root a b \<longleftrightarrow> ri_device a = ri_device b \<and> ri_inode a = ri_inode b \<and> ri_mount a = ri_mount b \<and>
     ri_uid a = ri_uid b \<and> ri_fs a = ri_fs b \<and> ri_mode a = ri_mode b"

definition same_catalog_identity :: "identity \<Rightarrow> identity \<Rightarrow> bool" where
  "same_catalog_identity a b \<longleftrightarrow>
     ct_equal (id_scope_namespace a) (id_scope_namespace b) \<and>
     ct_equal (id_checkpoint_lineage_id a) (id_checkpoint_lineage_id b) \<and>
     ct_equal (id_compatibility_root a) (id_compatibility_root b) \<and> id_policy_epoch a = id_policy_epoch b"

subsection \<open>Fields are read back\<close>

definition wf_identity :: "identity \<Rightarrow> bool" where
  "wf_identity i \<longleftrightarrow> length (id_compatibility_root i) = 32 \<and> length (id_scope_namespace i) = 32 \<and>
     length (id_checkpoint_lineage_id i) = 32"

definition wf_record :: "catalog_record \<Rightarrow> bool" where
  "wf_record r \<longleftrightarrow> (cr_kind r = 1 \<or> cr_kind r = 2) \<and> length (cr_uuid r) = 16 \<and> wf_identity (cr_identity r) \<and>
     length (cr_manifest r) = 32 \<and> length (cr_producer r) = 32 \<and> length (cr_global_plan r) = 32 \<and>
     length (cr_rank_ownership r) = 32 \<and> length (cr_rank_placement r) = 32"

lemma same_root_iff [simp]: "same_root a b \<longleftrightarrow> a = b"
  by (cases a; cases b) (simp add: same_root_def)

lemma same_catalog_identity_iff:
  "wf_identity a \<Longrightarrow> wf_identity b \<Longrightarrow> same_catalog_identity a b \<longleftrightarrow> a = b"
  by (cases a; cases b) (auto simp: same_catalog_identity_def wf_identity_def)

lemma put_u64_eq: "put_u64 v = be_bytes 8 v"
  by (simp add: put_u64_def be_bytes_def numeral_nat upt_rec)

lemma length_put [simp, wire_simps]:
  "length (put_u32 w) = 4" "length (put_u64 v) = 8" "length (put_root x) = 48"
  by (simp_all add: put_u32_def put_u64_def put_root_def)

lemma put_u32_fold:
  "foldl (\<lambda>v b. push_bit 8 v OR ucast b) 0 bs = w \<and> length bs = 4 \<longleftrightarrow> bs = put_u32 (w :: u32)"
proof
  assume read: "foldl (\<lambda>v b. push_bit 8 v OR ucast b) 0 bs = w \<and> length bs = 4"
  then obtain a b c d where bs: "bs = [a, b, c, d]" by (auto simp: numeral_eq_Suc length_Suc_conv)
  have w: "w = push_bit 8 (push_bit 8 (push_bit 8 (push_bit 8 0 OR ucast a) OR ucast b) OR ucast c) OR ucast d"
    using read by (simp only: bs foldl_Cons foldl_Nil)
  have high: "\<not> bit (v :: byte) (8 + n)" "\<not> bit v (16 + n)" "\<not> bit v (24 + n)" for v n
    by (auto dest: bit_imp_le_length)
  have "ucast (drop_bit 24 w) = a" "ucast (drop_bit 16 w) = b" "ucast (drop_bit 8 w) = c" "ucast w = d"
    by (auto simp: w bit_simps high intro!: bit_word_eqI)
  then show "bs = put_u32 w" by (simp add: put_u32_def bs)
next
  assume bs: "bs = put_u32 w"
  have "push_bit 8 (push_bit 8 (push_bit 8 (push_bit 8 0 OR ucast (ucast (drop_bit 24 w) :: byte))
      OR ucast (ucast (drop_bit 16 w) :: byte)) OR ucast (ucast (drop_bit 8 w) :: byte)) OR ucast (ucast w :: byte) = w"
    (is "?f = w")
  proof (rule bit_word_eqI)
    fix n
    assume "n < LENGTH(32)"
    then consider "n < 8" | "8 \<le> n" "n < 16" | "16 \<le> n" "n < 24" | "24 \<le> n" "n < 32" by (cases "n < 8"; cases "n < 16"; cases "n < 24") auto
    then show "bit ?f n = bit w n" by cases (auto simp: bit_simps)
  qed
  then show "foldl (\<lambda>v b. push_bit 8 v OR ucast b) 0 bs = w \<and> length bs = 4"
    by (simp add: bs put_u32_def)
qed

lemma put_u64_fold:
  "foldl (\<lambda>v b. push_bit 8 v OR ucast b) 0 bs = w \<and> length bs = 8 \<longleftrightarrow> bs = put_u64 (w :: u64)"
  using be_bytes_be_value [of bs 8] be_value_be_bytes [OF unat_u64_bound, of w]
  by (auto simp: put_u64_eq be_value_def)

lemma get_u32_Inr [reader_simps]:
  "get_u32 (p, xs) = Inr (v, (q, ys)) \<longleftrightarrow> xs = put_u32 v @ ys \<and> q = p + 4"
  using put_u32_fold [of _ v] put_u32_fold [of "put_u32 v" v] by (auto simp: get_u32_def reader_simps)

lemma get_u64_Inr [reader_simps]:
  "get_u64 (p, xs) = Inr (v, (q, ys)) \<longleftrightarrow> xs = put_u64 v @ ys \<and> q = p + 8"
  using put_u64_fold [of _ v] put_u64_fold [of "put_u64 v" v] by (auto simp: get_u64_def reader_simps)

lemma get_digest_Inr [reader_simps]:
  "get_digest (p, xs) = Inr (v, (q, ys)) \<longleftrightarrow> length v = 32 \<and> xs = v @ ys \<and> q = p + 32"
  by (simp add: get_digest_def reader_simps)

lemma get_root_Inr [reader_simps]:
  "get_root (p, xs) = Inr (v, (q, ys)) \<longleftrightarrow> xs = put_root v @ ys \<and> q = p + 48"
  by (cases v) (auto simp: get_root_def reader_simps put_root_def)

lemma get_identity_Inr [reader_simps]:
  "get_identity (p, xs) = Inr (v, (q, ys)) \<longleftrightarrow> wf_identity v \<and>
     xs = id_scope_namespace v @ id_checkpoint_lineage_id v @ id_compatibility_root v @ put_u64 (id_policy_epoch v) @ ys \<and>
     q = p + 104"
  by (cases v) (auto simp: get_identity_def reader_simps wf_identity_def)

lemma get_record_Inr:
  assumes "kind = 1 \<or> kind = 2"
  shows "get_record kind (p, xs) = Inr (r, (q, ys)) \<longleftrightarrow>
     wf_record r \<and> cr_kind r = kind \<and> xs = record_fields r @ ys \<and> q = p + 440"
  using assms by (cases r) (auto simp: get_record_def reader_simps wf_record_def record_fields_def)

lemma get_body_Inr:
  "get_body (p, xs) = Inr (r, (q, ys)) \<longleftrightarrow>
     wf_record r \<and> xs = [1, cr_kind r, 0, 0] @ record_fields r @ ys \<and> q = p + 444"
  (is "?L \<longleftrightarrow> ?R")
proof
  assume ?L
  then show ?R by (auto simp: get_body_def reader_simps get_record_Inr)
next
  assume ?R
  moreover from this have "cr_kind r = 1 \<or> cr_kind r = 2" by (simp add: wf_record_def)
  ultimately show ?L using get_record_Inr [of "cr_kind r" "p + 4" "record_fields r @ ys" r q ys]
    by (auto simp: get_body_def bind_reader_def next_byte_def check_def return_reader_def eval_nat_numeral)
qed

subsection \<open>Records are read back\<close>

lemma length_record_fields: "wf_record r \<Longrightarrow> length (record_fields r) = 440"
  by (simp add: record_fields_def wf_record_def wf_identity_def)

lemma length_record_magic [simp]: "length record_magic = 8"
  by (simp add: record_magic_def ascii_bytes_def)

lemma record_body_eq:
  "wf_record r \<Longrightarrow> record_body r = record_magic @ [1, cr_kind r, 0, 0] @ record_fields r @ replicate 12 0"
  by (simp add: record_body_def Let_def length_record_fields record_body_bytes_def)

lemma length_record_body: "wf_record r \<Longrightarrow> length (record_body r) = record_body_bytes"
  by (simp add: record_body_eq length_record_fields record_body_bytes_def)

lemma record_hmac:
  assumes "length key = 32" "length bs \<le> 464"
  shows "context_store_hmac_sha256 (Span key) (Span bs) = Some (hmac_sha256 key bs)"
  using assms by (simp add: context_store_hmac_sha256_def hmac_spans_iff valid_span_def master_key_max_bytes_def
    spans_ok_def spans_bytes_def crypto_input_max_bytes_def)

lemma encode_record_eq:
  "wf_record r \<Longrightarrow> length key = 32 \<Longrightarrow> encode_record r key = record_body r @ hmac_sha256 key (record_body r)"
  using length_record_body [of r] by (simp add: encode_record_def record_hmac record_body_bytes_def)

lemma length_encode_record:
  "wf_record r \<Longrightarrow> length key = 32 \<Longrightarrow> length (encode_record r key) = record_bytes"
  by (simp add: encode_record_eq length_record_body record_bytes_def)

lemma zeros_iff: "list_all (\<lambda>b. b = 0) bs \<longleftrightarrow> bs = replicate (length bs) 0"
  by (induction bs) simp_all

text \<open>
  Decoding a catalogue record accepts exactly what encoding writes: a byte string is accepted
  with a record as its value if and only if the record is well formed and the string is its
  encoding under the key. So a record that was written is read back unchanged, no second byte
  string yields the same record, and no string is accepted without the tag of the key.
\<close>
theorem decode_record_exact:
  assumes "length key = 32"
  shows "decode_record bytes key = Some r \<longleftrightarrow> wf_record r \<and> bytes = Span (encode_record r key)"
proof
  assume accepted: "decode_record bytes key = Some r"
  obtain bs where bs: "bytes = Span bs" "length bs = 496"
    using accepted by (cases bytes) (auto simp: decode_record_def record_bytes_def record_body_bytes_def split: if_splits)
  let ?body = "take 464 bs"
  have "context_store_hmac_sha256 (Span key) (Span ?body) = Some (hmac_sha256 key ?body)"
    using assms by (intro record_hmac) simp_all
  with accepted bs have tag: "drop 464 bs = hmac_sha256 key ?body" and magic: "take 8 bs = record_magic"
    and "\<exists>q rest. get_body (8, drop 8 ?body) = Inr (r, (q, rest)) \<and> list_all (\<lambda>b. b = 0) rest"
    by (auto simp: decode_record_def Let_def record_bytes_def record_body_bytes_def split: if_splits sum.splits)
  then obtain q rest where body: "wf_record r" "drop 8 ?body = [1, cr_kind r, 0, 0] @ record_fields r @ rest"
    and zeros: "list_all (\<lambda>b. b = 0) rest"
    by (auto simp: get_body_Inr)
  have "length rest = 12"
    using arg_cong [OF body(2), of length] bs(2) length_record_fields [OF body(1)] by simp
  then have rest: "rest = replicate 12 0" using zeros by (simp add: zeros_iff)
  have "?body = take 8 ?body @ drop 8 ?body" by (simp only: append_take_drop_id)
  also have "\<dots> = record_body r" by (simp add: record_body_eq [OF body(1)] body(2) rest magic min_def)
  finally have "bs = record_body r @ hmac_sha256 key (record_body r)"
    using tag by (metis append_take_drop_id)
  then show "wf_record r \<and> bytes = Span (encode_record r key)"
    using body(1) bs(1) by (simp add: encode_record_eq assms)
next
  assume r: "wf_record r \<and> bytes = Span (encode_record r key)"
  have len: "length (record_body r) = 464" using r length_record_body by (simp add: record_body_bytes_def)
  have body: "get_body (8, drop 8 (record_body r)) = Inr (r, (452, replicate 12 0))"
    using r by (simp add: get_body_Inr record_body_eq)
  show "decode_record bytes key = Some r"
    using r body len assms
    by (simp add: decode_record_def encode_record_eq Let_def record_bytes_def record_body_bytes_def record_hmac)
      (simp add: record_body_eq list_all_iff)
qed

end
