(* ===== verification/Exact_Session.thy ===== *)
theory Exact_Session
  imports Auth
begin

text \<open>
  \<^verbatim>\<open>halofpx-context-store-exact-session.{h,cpp}\<close>: the identifier of one exact token sequence on
  one rank of one topology, an HMAC that is fed field by field through a streaming context.
  The token array may be longer than the count that is hashed (a caller hashes prefixes of
  one array), so it is a list with a separate count.
  Shown: which inputs are resolved and to which identifier, and that two resolved inputs
  with the same identifier agree on every field unless they exhibit an HMAC collision.
\<close>

subsection \<open>Data\<close>

definition exact_session_key_bytes :: nat where "exact_session_key_bytes = 32"
definition exact_session_max_tokens :: nat where "exact_session_max_tokens = 1024 * 1024"

datatype exact_session_profile = profile_unset | target_only_greedy_memoryless | profile_other byte

fun profile_code :: "exact_session_profile \<Rightarrow> byte" where
  "profile_code profile_unset = 0"
| "profile_code target_only_greedy_memoryless = 1"
| "profile_code (profile_other b) = b"

type_synonym llama_token = "32 word"

record exact_session_inputs =
  es_derivation_key :: byte_span
  es_scope_namespace :: digest
  es_compatibility_root :: digest
  es_tokens :: "llama_token list option"
  es_token_count :: nat
  es_logical_boundary :: u64
  es_output_boundary :: u64
  es_profile :: exact_session_profile
  es_global_plan_digest :: digest
  es_rank_ownership_digest :: digest
  es_rank_placement_digest :: digest
  es_topology_epoch :: u64
  es_world_size :: u64
  es_rank :: u64

datatype exact_session_status =
    resolved | invalid_key | invalid_scope_namespace | invalid_compatibility_root | invalid_tokens
  | invalid_boundaries | invalid_profile | invalid_topology_digest | invalid_topology | derivation_failed

record exact_session_result =
  er_status :: exact_session_status
  er_session_id :: digest

definition session_resolved :: "exact_session_result \<Rightarrow> bool" where
  "session_resolved r \<longleftrightarrow> er_status r = resolved"

subsection \<open>The streaming HMAC\<close>

record hmac_stream =
  hs_inner :: sha256_t
  hs_outer :: sha256_t
  hs_active :: bool

definition new_stream :: hmac_stream where
  "new_stream = \<lparr>hs_inner = stack_context, hs_outer = stack_context, hs_active = False\<rparr>"

definition stream_pad :: "byte list \<Rightarrow> byte \<Rightarrow> byte list" where
  "stream_pad key bits = map (\<lambda>index. (if index < length key then key ! index else 0) XOR bits) [0..<64]"

definition stream_begin :: "byte_span \<Rightarrow> hmac_stream \<Rightarrow> hmac_stream option" where
  "stream_begin key stream =
     (if span_null key \<or> span_size key \<noteq> exact_session_key_bytes then None
      else Some (stream\<lparr>hs_inner := sha256_update (sha256_init (hs_inner stream)) (stream_pad (span_bytes key) 0x36),
             hs_outer := sha256_update (sha256_init (hs_outer stream)) (stream_pad (span_bytes key) 0x5c),
             hs_active := True\<rparr>))"

definition stream_update :: "byte list \<Rightarrow> hmac_stream \<Rightarrow> hmac_stream" where
  "stream_update data stream =
     (if hs_active stream \<and> length data \<noteq> 0
      then stream\<lparr>hs_inner := sha256_update (hs_inner stream) data\<rparr> else stream)"

definition stream_finish :: "hmac_stream \<Rightarrow> digest option" where
  "stream_finish stream =
     (if \<not> hs_active stream then None
      else case sha256_final (hs_inner stream) of (_, inner_digest) \<Rightarrow>
        Some (snd (sha256_final (sha256_update (hs_outer stream) inner_digest))))"

subsection \<open>The resolver\<close>

definition session_domain :: "byte list" where
  "session_domain = domain_bytes ''halofpx.exact-session.v1''"

definition nonzero_key :: "byte_span \<Rightarrow> bool" where
  "nonzero_key v = (if span_null v \<or> span_size v \<noteq> exact_session_key_bytes then False else nonzero (span_bytes v))"

definition head_array :: "nat \<Rightarrow> u64 \<Rightarrow> byte list" where
  "head_array major value =
     (let top = push_bit 5 (of_nat major) in
      if value < 24 then [top OR ucast value]
      else if value \<le> 0xff then [top OR 24, ucast value]
      else if value \<le> 0xffff then [top OR 25, ucast (drop_bit 8 value), ucast value]
      else if value \<le> 0xffffffff
      then (top OR 26) # map (\<lambda>index. ucast (drop_bit ((3 - index) * 8) value)) [0..<4]
      else (top OR 27) # map (\<lambda>index. ucast (drop_bit ((7 - index) * 8) value)) [0..<8])"

definition append_head :: "nat \<Rightarrow> u64 \<Rightarrow> hmac_stream \<Rightarrow> hmac_stream" where
  "append_head major value = stream_update (head_array major value)"

definition append_unsigned :: "u64 \<Rightarrow> hmac_stream \<Rightarrow> hmac_stream" where
  "append_unsigned = append_head 0"

definition append_digest :: "digest \<Rightarrow> hmac_stream \<Rightarrow> hmac_stream" where
  "append_digest v stream = stream_update v (append_head 2 (of_nat (length v)) stream)"

definition token_array :: "llama_token \<Rightarrow> byte list" where
  "token_array token = [ucast (drop_bit 24 token), ucast (drop_bit 16 token), ucast (drop_bit 8 token), ucast token]"

definition append_tokens :: "llama_token list \<Rightarrow> nat \<Rightarrow> hmac_stream \<Rightarrow> hmac_stream" where
  "append_tokens tokens token_count stream =
     fold (\<lambda>index. stream_update (token_array (tokens ! index))) [0..<token_count] stream"

primrec feed :: "(hmac_stream \<Rightarrow> hmac_stream) list \<Rightarrow> hmac_stream \<Rightarrow> hmac_stream" where
  "feed [] stream = stream"
| "feed (f # fs) stream = feed fs (f stream)"

definition write_session :: "exact_session_inputs \<Rightarrow> hmac_stream \<Rightarrow> hmac_stream" where
  "write_session inputs = feed [
     stream_update session_domain,
     append_head 5 13,
     append_unsigned 0, append_digest (es_scope_namespace inputs),
     append_unsigned 1, append_digest (es_compatibility_root inputs),
     append_unsigned 2,
     append_head 2 (of_nat (es_token_count inputs) * 4),
     append_tokens (the (es_tokens inputs)) (es_token_count inputs),
     append_unsigned 3, append_unsigned (es_logical_boundary inputs),
     append_unsigned 4, append_unsigned (es_output_boundary inputs),
     append_unsigned 5, append_unsigned (ucast (profile_code (es_profile inputs))),
     append_unsigned 6, append_digest (es_global_plan_digest inputs),
     append_unsigned 7, append_digest (es_rank_ownership_digest inputs),
     append_unsigned 8, append_digest (es_rank_placement_digest inputs),
     append_unsigned 9, append_unsigned (es_topology_epoch inputs),
     append_unsigned 10, append_unsigned (es_world_size inputs),
     append_unsigned 11, append_unsigned (es_rank inputs),
     append_unsigned 12, append_unsigned 1]"

definition session_failure :: "exact_session_status \<Rightarrow> exact_session_result" where
  "session_failure st = \<lparr>er_status = st, er_session_id = zero_digest\<rparr>"

definition context_store_resolve_exact_session_v1 :: "exact_session_inputs \<Rightarrow> exact_session_result" where
  "context_store_resolve_exact_session_v1 inputs =
     (if \<not> nonzero_key (es_derivation_key inputs) then session_failure invalid_key
      else if \<not> nonzero (es_scope_namespace inputs) then session_failure invalid_scope_namespace
      else if \<not> nonzero (es_compatibility_root inputs) then session_failure invalid_compatibility_root
      else if es_tokens inputs = None \<or> es_token_count inputs = 0 \<or> es_token_count inputs > exact_session_max_tokens
      then session_failure invalid_tokens
      else if list_ex (\<lambda>index. sint (the (es_tokens inputs) ! index) < 0) [0..<es_token_count inputs]
      then session_failure invalid_tokens
      else if es_logical_boundary inputs = 0 \<or> es_output_boundary inputs = 0 \<or>
        es_logical_boundary inputs \<noteq> of_nat (es_token_count inputs) \<or>
        es_output_boundary inputs > es_logical_boundary inputs
      then session_failure invalid_boundaries
      else if es_profile inputs \<noteq> target_only_greedy_memoryless then session_failure invalid_profile
      else if \<not> nonzero (es_global_plan_digest inputs) \<or> \<not> nonzero (es_rank_ownership_digest inputs) \<or>
        \<not> nonzero (es_rank_placement_digest inputs)
      then session_failure invalid_topology_digest
      else if es_topology_epoch inputs = 0 \<or> es_world_size inputs = 0 \<or>
        es_world_size inputs > of_nat manifest_max_ranks \<or> es_rank inputs \<ge> es_world_size inputs
      then session_failure invalid_topology
      else case stream_begin (es_derivation_key inputs) new_stream of
        None \<Rightarrow> session_failure derivation_failed
      | Some stream \<Rightarrow>
          (case stream_finish (write_session inputs stream) of
             None \<Rightarrow> session_failure derivation_failed
           | Some session_id \<Rightarrow> \<lparr>er_status = resolved, er_session_id = session_id\<rparr>))"

subsection \<open>What the stream computes\<close>

definition carries :: "byte list \<Rightarrow> hmac_stream \<Rightarrow> byte list \<Rightarrow> bool" where
  "carries key stream message \<longleftrightarrow> hs_active stream \<and>
     hs_inner stream = sha256_update (sha256_init stack_context) (stream_pad key 0x36 @ message) \<and>
     hs_outer stream = sha256_update (sha256_init stack_context) (stream_pad key 0x5c)"

definition feeds :: "(hmac_stream \<Rightarrow> hmac_stream) \<Rightarrow> byte list \<Rightarrow> bool" where
  "feeds f bs \<longleftrightarrow> (\<forall>key stream message. carries key stream message \<longrightarrow> carries key (f stream) (message @ bs))"

lemma feedsD: "feeds f bs \<Longrightarrow> carries key stream message \<Longrightarrow> carries key (f stream) (message @ bs)"
  by (simp add: feeds_def)

lemma feeds_update: "feeds (stream_update bs) bs"
  by (auto simp: feeds_def carries_def stream_update_def)

lemma feeds_Nil: "feeds (feed []) []"
  by (simp add: feeds_def)

lemma feeds_Cons: "feeds f bs \<Longrightarrow> feeds (feed fs) cs \<Longrightarrow> feeds (feed (f # fs)) (bs @ cs)"
  by (fastforce simp: feeds_def)

lemma feeds_last: "feeds f bs \<Longrightarrow> feeds (feed [f]) bs"
  by (simp add: feeds_def)

lemma stream_pad_eq: "length key = 32 \<Longrightarrow> stream_pad key b = map (\<lambda>x. x XOR b) (key @ replicate 32 0)"
  by (rule nth_equalityI) (auto simp: stream_pad_def nth_append)

lemma carries_begin:
  assumes "stream_begin key new_stream = Some stream"
  shows "carries (span_bytes key) stream []"
  using assms by (auto simp: stream_begin_def carries_def new_stream_def split: if_splits)

lemma carries_finish:
  assumes "carries key stream message" "length key = 32"
  shows "stream_finish stream = Some (hmac_sha256 key message)"
proof -
  have "hmac_sha256 key message = sha256 (stream_pad key 0x5c @ sha256 (stream_pad key 0x36 @ message))"
    using assms(2) by (simp add: hmac_sha256_def stream_pad_eq Let_def)
  then show ?thesis
    using assms(1) by (simp add: carries_def stream_finish_def case_prod_unfold sha256_digest)
qed

lemma head_array_eq: "head_array m v = cbor_head m v"
  by (simp add: head_array_def cbor_head_def head_byte_def Let_def be_bytes_def upt_rec numeral_2_eq_2 mult.commute)

lemma feeds_head: "feeds (append_head m v) (cbor_head m v)"
  by (simp add: append_head_def head_array_eq feeds_update)

lemma feeds_unsigned: "feeds (append_unsigned v) (cbor_uint v)"
  by (simp add: append_unsigned_def feeds_head)

lemma feeds_digest: "feeds (append_digest v) (cbor_bytes v)"
  using feeds_head feeds_update unfolding append_digest_def cbor_bytes_def feeds_def by fastforce

definition token_bytes :: "llama_token list \<Rightarrow> byte list" where
  "token_bytes tokens = concat (map token_array tokens)"

lemma feeds_fold: "feeds (fold (\<lambda>x. stream_update (f x)) xs) (concat (map f xs))"
proof (induction xs)
  case (Cons x xs)
  then show ?case using feeds_update [of "f x"] by (fastforce simp: feeds_def)
qed (simp add: feeds_def)

lemma feeds_tokens: "n \<le> length tokens \<Longrightarrow> feeds (append_tokens tokens n) (token_bytes (take n tokens))"
proof -
  assume "n \<le> length tokens"
  then have "take n tokens = map (nth tokens) [0..<n]"
    by (intro nth_equalityI) auto
  then have "token_bytes (take n tokens) = concat (map (\<lambda>index. token_array (tokens ! index)) [0..<n])"
    by (simp add: token_bytes_def comp_def)
  then show ?thesis
    using feeds_fold [of "\<lambda>index. token_array (tokens ! index)" "[0..<n]"] by (simp add: append_tokens_def feeds_def)
qed

definition session_preimage :: "exact_session_inputs \<Rightarrow> byte list" where
  "session_preimage inputs = session_domain @ cbor_head 5 13
     @ cbor_uint 0 @ cbor_bytes (es_scope_namespace inputs)
     @ cbor_uint 1 @ cbor_bytes (es_compatibility_root inputs)
     @ cbor_uint 2 @ cbor_head 2 (of_nat (es_token_count inputs) * 4)
     @ token_bytes (take (es_token_count inputs) (the (es_tokens inputs)))
     @ cbor_uint 3 @ cbor_uint (es_logical_boundary inputs)
     @ cbor_uint 4 @ cbor_uint (es_output_boundary inputs)
     @ cbor_uint 5 @ cbor_uint (ucast (profile_code (es_profile inputs)))
     @ cbor_uint 6 @ cbor_bytes (es_global_plan_digest inputs)
     @ cbor_uint 7 @ cbor_bytes (es_rank_ownership_digest inputs)
     @ cbor_uint 8 @ cbor_bytes (es_rank_placement_digest inputs)
     @ cbor_uint 9 @ cbor_uint (es_topology_epoch inputs)
     @ cbor_uint 10 @ cbor_uint (es_world_size inputs)
     @ cbor_uint 11 @ cbor_uint (es_rank inputs)
     @ cbor_uint 12 @ cbor_uint 1"

lemma feeds_session:
  assumes "es_token_count inputs \<le> length (the (es_tokens inputs))"
  shows "feeds (write_session inputs) (session_preimage inputs)"
  unfolding write_session_def session_preimage_def
  by (intro feeds_Cons feeds_last feeds_update feeds_head feeds_unsigned feeds_digest feeds_tokens assms)

subsection \<open>Which inputs are resolved\<close>

definition wf_session :: "exact_session_inputs \<Rightarrow> bool" where
  "wf_session inputs \<longleftrightarrow> length (es_scope_namespace inputs) = 32 \<and> length (es_compatibility_root inputs) = 32 \<and>
     length (es_global_plan_digest inputs) = 32 \<and> length (es_rank_ownership_digest inputs) = 32 \<and>
     length (es_rank_placement_digest inputs) = 32 \<and>
     (case es_tokens inputs of None \<Rightarrow> True | Some tokens \<Rightarrow> es_token_count inputs \<le> length tokens)"

definition session_ok :: "exact_session_inputs \<Rightarrow> bool" where
  "session_ok inputs \<longleftrightarrow>
     nonzero_key (es_derivation_key inputs) \<and> nonzero (es_scope_namespace inputs) \<and> nonzero (es_compatibility_root inputs) \<and>
     es_tokens inputs \<noteq> None \<and> es_token_count inputs \<noteq> 0 \<and> es_token_count inputs \<le> exact_session_max_tokens \<and>
     list_all (\<lambda>token. 0 \<le> sint token) (take (es_token_count inputs) (the (es_tokens inputs))) \<and>
     es_output_boundary inputs \<noteq> 0 \<and> unat (es_logical_boundary inputs) = es_token_count inputs \<and>
     es_output_boundary inputs \<le> es_logical_boundary inputs \<and>
     es_profile inputs = target_only_greedy_memoryless \<and>
     nonzero (es_global_plan_digest inputs) \<and> nonzero (es_rank_ownership_digest inputs) \<and>
     nonzero (es_rank_placement_digest inputs) \<and>
     es_topology_epoch inputs \<noteq> 0 \<and> es_world_size inputs \<le> of_nat manifest_max_ranks \<and>
     es_rank inputs < es_world_size inputs"

lemma nonzero_key_length: "nonzero_key key \<Longrightarrow> \<not> span_null key \<and> span_size key = 32 \<and> length (span_bytes key) = 32"
  by (cases key) (auto simp: nonzero_key_def exact_session_key_bytes_def split: if_splits)

lemma session_derivation:
  assumes "nonzero_key (es_derivation_key inputs)" "es_token_count inputs \<le> length (the (es_tokens inputs))"
  shows "\<exists>stream. stream_begin (es_derivation_key inputs) new_stream = Some stream \<and>
    stream_finish (write_session inputs stream) =
      Some (hmac_sha256 (span_bytes (es_derivation_key inputs)) (session_preimage inputs))"
proof -
  obtain stream where b: "stream_begin (es_derivation_key inputs) new_stream = Some stream"
    using nonzero_key_length [OF assms(1)] by (simp add: stream_begin_def exact_session_key_bytes_def)
  have "carries (span_bytes (es_derivation_key inputs)) (write_session inputs stream) (session_preimage inputs)"
    using feedsD [OF feeds_session [OF assms(2)] carries_begin [OF b]] by simp
  then show ?thesis using b carries_finish nonzero_key_length [OF assms(1)] by blast
qed

lemma tokens_nonnegative:
  assumes "n \<le> length tokens"
  shows "list_ex (\<lambda>index. sint (tokens ! index) < 0) [0..<n] \<longleftrightarrow> \<not> list_all (\<lambda>token. 0 \<le> sint token) (take n tokens)"
  using assms by (auto simp: list_ex_iff list_all_length not_le)

lemma boundary_is_count:
  assumes "n \<le> exact_session_max_tokens"
  shows "(v :: u64) = of_nat n \<longleftrightarrow> unat v = n"
  using assms by (simp add: word_unat_eq_iff unat_of_nat exact_session_max_tokens_def)

lemma resolve_session_ok:
  assumes "wf_session inputs" "session_ok inputs"
  shows "context_store_resolve_exact_session_v1 inputs = \<lparr>er_status = resolved,
      er_session_id = hmac_sha256 (span_bytes (es_derivation_key inputs)) (session_preimage inputs)\<rparr>"
proof -
  obtain tokens where t: "es_tokens inputs = Some tokens" "es_token_count inputs \<le> length tokens"
    using assms by (auto simp: session_ok_def wf_session_def)
  obtain stream where d: "stream_begin (es_derivation_key inputs) new_stream = Some stream"
    "stream_finish (write_session inputs stream) =
      Some (hmac_sha256 (span_bytes (es_derivation_key inputs)) (session_preimage inputs))"
    using session_derivation [of inputs] assms(2) t by (auto simp: session_ok_def)
  have b: "es_logical_boundary inputs = of_nat (es_token_count inputs)" "es_logical_boundary inputs \<noteq> 0"
    "es_world_size inputs \<noteq> 0"
    using assms(2) boundary_is_count [of "es_token_count inputs" "es_logical_boundary inputs"]
    by (auto simp: session_ok_def)
  have neg: "\<not> list_ex (\<lambda>index. sint (the (es_tokens inputs) ! index) < 0) [0..<es_token_count inputs]"
    using assms(2) tokens_nonnegative [OF t(2)] t(1) by (simp add: session_ok_def)
  have bounds: "\<not> es_output_boundary inputs > es_logical_boundary inputs" "\<not> es_rank inputs \<ge> es_world_size inputs"
    "\<not> es_world_size inputs > of_nat manifest_max_ranks" "\<not> es_token_count inputs > exact_session_max_tokens"
    "es_output_boundary inputs \<noteq> 0" "es_topology_epoch inputs \<noteq> 0" "es_token_count inputs \<noteq> 0"
    "nonzero_key (es_derivation_key inputs)" "nonzero (es_scope_namespace inputs)" "nonzero (es_compatibility_root inputs)"
    "es_profile inputs = target_only_greedy_memoryless" "nonzero (es_global_plan_digest inputs)"
    "nonzero (es_rank_ownership_digest inputs)" "nonzero (es_rank_placement_digest inputs)" "es_tokens inputs \<noteq> None"
    using assms(2) by (simp_all add: session_ok_def not_less not_le)
  show ?thesis
    unfolding context_store_resolve_exact_session_v1_def
    by (simp only: bounds neg b(2,3) b(1)[symmetric] d simp_thms if_False option.case)
qed

text \<open>A guard of the resolver: a failure, or what follows.\<close>

lemma guard_resolved:
  "st \<noteq> resolved \<Longrightarrow> er_status (if b then session_failure st else r) = resolved \<longleftrightarrow> \<not> b \<and> er_status r = resolved"
  by (simp add: session_failure_def)

lemma guard_zero:
  "r = session_failure (er_status r) \<or> er_status r = resolved \<Longrightarrow>
   (if b then session_failure st else r) = session_failure (er_status (if b then session_failure st else r)) \<or>
   er_status (if b then session_failure st else r) = resolved"
  by (simp add: session_failure_def)

lemma resolve_session_zero:
  "context_store_resolve_exact_session_v1 inputs = session_failure (er_status (context_store_resolve_exact_session_v1 inputs)) \<or>
   er_status (context_store_resolve_exact_session_v1 inputs) = resolved"
  unfolding context_store_resolve_exact_session_v1_def
  by (intro guard_zero) (auto simp: session_failure_def split: option.split)

lemma resolve_session_rejects:
  assumes "wf_session inputs" "\<not> session_ok inputs"
  shows "er_status (context_store_resolve_exact_session_v1 inputs) \<noteq> resolved"
proof
  assume "er_status (context_store_resolve_exact_session_v1 inputs) = resolved"
  then have passed: "nonzero_key (es_derivation_key inputs)" "nonzero (es_scope_namespace inputs)"
    "nonzero (es_compatibility_root inputs)" "es_tokens inputs \<noteq> None" "es_token_count inputs \<noteq> 0"
    "\<not> es_token_count inputs > exact_session_max_tokens"
    "\<not> list_ex (\<lambda>index. sint (the (es_tokens inputs) ! index) < 0) [0..<es_token_count inputs]"
    "es_output_boundary inputs \<noteq> 0" "es_logical_boundary inputs = of_nat (es_token_count inputs)"
    "\<not> es_output_boundary inputs > es_logical_boundary inputs" "es_profile inputs = target_only_greedy_memoryless"
    "nonzero (es_global_plan_digest inputs)" "nonzero (es_rank_ownership_digest inputs)"
    "nonzero (es_rank_placement_digest inputs)" "es_topology_epoch inputs \<noteq> 0"
    "\<not> es_world_size inputs > of_nat manifest_max_ranks" "\<not> es_rank inputs \<ge> es_world_size inputs"
    unfolding context_store_resolve_exact_session_v1_def
    by (simp_all (no_asm_use) only: guard_resolved exact_session_status.distinct not_False_eq_True de_Morgan_disj simp_thms)
      (elim conjE, assumption)+
  then show False
    using assms boundary_is_count [of "es_token_count inputs" "es_logical_boundary inputs"]
    by (auto simp: session_ok_def wf_session_def not_less not_le tokens_nonnegative)
qed

subsection \<open>The preimage determines the session\<close>

lemma token_array_eq: "token_array t = be_bytes 4 (ucast t)"
proof -
  have "(ucast (drop_bit n t) :: byte) = ucast (drop_bit n (ucast t :: u64))" for n
    by (rule bit_word_eqI) (auto simp: bit_simps dest: bit_imp_le_length)
  from this [of 0] this show ?thesis by (simp add: token_array_def be_bytes_def upt_rec)
qed

lemma token_array_inj: "token_array t = token_array u \<Longrightarrow> t = u"
proof -
  have small: "unat (ucast (x :: llama_token) :: u64) < 256 ^ 4" for x
  proof -
    have "unat (ucast x :: u64) \<le> unat x"
      by (simp only: unsigned_ucast_eq take_bit_nat_less_eq_self)
    also have "unat x < 2 ^ 32" using unsigned_less [of x, where ?'a = nat] by simp
    finally show ?thesis by simp
  qed
  assume "token_array t = token_array u"
  then have "(ucast t :: u64) = ucast u"
    using be_value_be_bytes [OF small [of t]] be_value_be_bytes [OF small [of u]] token_array_eq by metis
  then have "(ucast (ucast t :: u64) :: llama_token) = ucast (ucast u :: u64)" by (rule arg_cong)
  moreover have "(ucast (ucast x :: u64) :: llama_token) = x" for x
    by (rule bit_word_eqI) (auto simp: bit_simps dest: bit_imp_le_length)
  ultimately show "t = u" by (simp only:)
qed

lemma length_token_bytes: "length (token_bytes ts) = 4 * length ts"
  by (induction ts) (simp_all add: token_bytes_def token_array_def)

lemma token_bytes_inj: "length ts = length us \<Longrightarrow> token_bytes ts = token_bytes us \<Longrightarrow> ts = us"
proof (induction ts us rule: list_induct2)
  case (Cons t ts u us)
  have "token_array t = token_array u \<and> token_bytes ts = token_bytes us"
    using Cons.prems by (simp add: token_bytes_def token_array_def)
  then show ?case using Cons.IH token_array_inj by blast
qed simp

definition session_tokens :: "exact_session_inputs \<Rightarrow> llama_token list" where
  "session_tokens inputs = take (es_token_count inputs) (the (es_tokens inputs))"

definition same_session :: "exact_session_inputs \<Rightarrow> exact_session_inputs \<Rightarrow> bool" where
  "same_session p q \<longleftrightarrow>
     es_scope_namespace p = es_scope_namespace q \<and> es_compatibility_root p = es_compatibility_root q \<and>
     session_tokens p = session_tokens q \<and> es_output_boundary p = es_output_boundary q \<and>
     es_global_plan_digest p = es_global_plan_digest q \<and> es_rank_ownership_digest p = es_rank_ownership_digest q \<and>
     es_rank_placement_digest p = es_rank_placement_digest q \<and> es_topology_epoch p = es_topology_epoch q \<and>
     es_world_size p = es_world_size q \<and> es_rank p = es_rank q"

lemma token_count_inj:
  assumes "n \<le> exact_session_max_tokens" "m \<le> exact_session_max_tokens"
  shows "(of_nat n * 4 :: u64) = of_nat m * 4 \<longleftrightarrow> n = m"
proof -
  have "(of_nat (n * 4) :: u64) = of_nat (m * 4) \<longleftrightarrow> n * 4 = m * 4"
    using assms by (simp add: word_unat_eq_iff unat_of_nat exact_session_max_tokens_def del: of_nat_mult)
  then show ?thesis by simp
qed

lemma session_tokens_length: "wf_session p \<Longrightarrow> session_ok p \<Longrightarrow> length (session_tokens p) = es_token_count p"
  by (auto simp: wf_session_def session_ok_def session_tokens_def)

lemma session_tokens_inj:
  assumes "wf_session p" "wf_session q" "session_ok p" "session_ok q" "es_token_count p = es_token_count q"
  shows "token_bytes (session_tokens p) @ x = token_bytes (session_tokens q) @ y \<longleftrightarrow> session_tokens p = session_tokens q \<and> x = y"
  using token_bytes_inj [of "session_tokens p" "session_tokens q"] session_tokens_length [OF assms(1,3)]
    session_tokens_length [OF assms(2,4)] assms(5)
  by (auto simp: length_token_bytes)

lemma session_preimage_inj:
  assumes "wf_session p" "wf_session q" "session_ok p" "session_ok q" "session_preimage p = session_preimage q"
  shows "same_session p q"
proof -
  have cb: "cbor_bytes (f p) @ x = cbor_bytes (f q) @ y \<longleftrightarrow> f p = f q \<and> x = y"
    if "length (f p) = 32" "length (f q) = 32" for f :: "exact_session_inputs \<Rightarrow> byte list" and x y
    using that by (intro cbor_text_inj(2)) simp_all
  note fields = cb [where f = es_scope_namespace] cb [where f = es_compatibility_root] cb [where f = es_global_plan_digest]
    cb [where f = es_rank_ownership_digest] cb [where f = es_rank_placement_digest]
  have len: "es_token_count p \<le> exact_session_max_tokens" "es_token_count q \<le> exact_session_max_tokens"
    using assms(3,4) by (simp_all add: session_ok_def)
  have wf: "length (es_scope_namespace r) = 32" "length (es_compatibility_root r) = 32" "length (es_global_plan_digest r) = 32"
    "length (es_rank_ownership_digest r) = 32" "length (es_rank_placement_digest r) = 32" if "wf_session r" for r
    using that by (simp_all add: wf_session_def)
  have count: "es_token_count p = es_token_count q"
    using assms(5) by (simp add: session_preimage_def fields wf assms(1,2) cbor_head_inj token_count_inj [OF len])
  show ?thesis
    using assms(5) session_tokens_inj [OF assms(1-4) count] 
    by (simp add: session_preimage_def fields wf assms(1,2) cbor_head_inj cbor_head_inj [of _ _ "[]" _ "[]", simplified]
      count session_tokens_def same_session_def)
qed

subsection \<open>The guarantees of the resolver\<close>

text \<open>
  The exact-session resolver resolves exactly the inputs that pass all its checks (a
  32-byte non-zero key, at most 2^20 non-negative tokens, boundaries equal to the token count,
  the one admitted profile, a topology of at most 128 ranks); the identifier is then the
  HMAC-SHA256 of the canonical preimage, computed by the streaming context, and all zero
  otherwise.
\<close>
theorem exact_session_exact:
  assumes "wf_session inputs"
  shows "(session_resolved (context_store_resolve_exact_session_v1 inputs) \<longleftrightarrow> session_ok inputs) \<and>
    er_session_id (context_store_resolve_exact_session_v1 inputs) = (if session_ok inputs
      then hmac_sha256 (span_bytes (es_derivation_key inputs)) (session_preimage inputs) else zero_digest)"
proof (cases "session_ok inputs")
  case True
  then show ?thesis using resolve_session_ok [OF assms True] by (simp add: session_resolved_def)
next
  case False
  have "er_status (context_store_resolve_exact_session_v1 inputs) \<noteq> resolved"
    by (rule resolve_session_rejects [OF assms False])
  moreover from this have "er_session_id (context_store_resolve_exact_session_v1 inputs) = zero_digest"
    using resolve_session_zero [of inputs] by (metis exact_session_result.select_convs(2) session_failure_def)
  ultimately show ?thesis using False by (simp add: session_resolved_def)
qed

definition sample_session :: exact_session_inputs where
  "sample_session = \<lparr>es_derivation_key = Span (replicate 32 1), es_scope_namespace = replicate 32 2,
     es_compatibility_root = replicate 32 3, es_tokens = Some [5, 6, 7], es_token_count = 2,
     es_logical_boundary = 2, es_output_boundary = 1, es_profile = target_only_greedy_memoryless,
     es_global_plan_digest = replicate 32 4, es_rank_ownership_digest = replicate 32 5,
     es_rank_placement_digest = replicate 32 6, es_topology_epoch = 1, es_world_size = 2, es_rank = 1\<rparr>"

lemma sample_session_ok: "wf_session sample_session" "session_ok sample_session"
  by (simp_all add: sample_session_def wf_session_def session_ok_def nonzero_key_def nonzero_iff exact_session_key_bytes_def
    exact_session_max_tokens_def manifest_max_ranks_def)

theorem exact_session_exact_witness:
  "session_resolved (context_store_resolve_exact_session_v1 sample_session)"
  using exact_session_exact [OF sample_session_ok(1)] sample_session_ok(2) by blast

text \<open>
  C26: Session isolation. Two resolved inputs under the same key with the same identifier agree
  on namespace, compatibility root, token sequence, output boundary, plan, placement and
  rank, unless their preimages are two different messages with the same tag.
\<close>
theorem exact_session_isolation:
  assumes "wf_session p" and "wf_session q"
    and "span_bytes (es_derivation_key p) = k" and "span_bytes (es_derivation_key q) = k"
    and "session_resolved (context_store_resolve_exact_session_v1 p)"
    and "session_resolved (context_store_resolve_exact_session_v1 q)"
    and "er_session_id (context_store_resolve_exact_session_v1 p) = er_session_id (context_store_resolve_exact_session_v1 q)"
  shows "same_session p q \<or> (session_preimage p \<noteq> session_preimage q \<and>
    hmac_sha256 k (session_preimage p) = hmac_sha256 k (session_preimage q))"
proof -
  have ok: "session_ok p" "session_ok q"
    using assms resolve_session_rejects by (auto simp: session_resolved_def)
  show ?thesis
    using assms(7) resolve_session_ok [OF assms(1) ok(1)] resolve_session_ok [OF assms(2) ok(2)]
      session_preimage_inj [OF assms(1,2) ok] assms(3,4) by auto
qed

theorem exact_session_isolation_witness:
  "session_resolved (context_store_resolve_exact_session_v1 sample_session) \<and> same_session sample_session sample_session"
proof -
  have r: "session_resolved (context_store_resolve_exact_session_v1 sample_session)"
    using resolve_session_ok [OF sample_session_ok] by (simp add: session_resolved_def)
  show ?thesis
    using exact_session_isolation [OF sample_session_ok(1,1) refl refl r r refl] r by blast
qed

end
