(* ===== verification/State_Transformer.thy ===== *)
theory State_Transformer
  imports Provider
begin

text \<open>
  \<^verbatim>\<open>halofpx-context-store-state-transformer-v1.{h,cpp}\<close>: capture of a live sequence into a
  snapshot and restore of a snapshot into a live context. The state interface of llama.cpp
  (\<^verbatim>\<open>context_store_transformer_state_api_v1\<close>) is a parameter over a world state; the outcome of
  the two vector allocations of a capture is a parameter too, since it decides which
  exception is caught.
  Shown: a capture is complete or leaves nothing behind, a restore touches the live context
  only after every check, and a captured snapshot passes the checks of its own restore.
\<close>

subsection \<open>Data\<close>

datatype transformer_architecture = transformer | recurrent | hybrid

record transformer_profile =
  tp_target_only :: bool
  tp_world_size :: u32
  tp_rank :: u32
  tp_architecture :: transformer_architecture
  tp_has_draft_context :: bool
  tp_has_speculative_state :: bool
  tp_has_mtp_state :: bool
  tp_has_multimodal_state :: bool
  tp_has_adapters :: bool
  tp_has_grammar_state :: bool
  tp_has_tool_state :: bool
  tp_has_sampler_state :: bool
  tp_greedy_memoryless_sampling :: bool

definition default_profile :: transformer_profile where
  "default_profile = \<lparr>tp_target_only = False, tp_world_size = 0, tp_rank = 0xffffffff, tp_architecture = transformer,
     tp_has_draft_context = False, tp_has_speculative_state = False, tp_has_mtp_state = False,
     tp_has_multimodal_state = False, tp_has_adapters = False, tp_has_grammar_state = False, tp_has_tool_state = False,
     tp_has_sampler_state = False, tp_greedy_memoryless_sampling = False\<rparr>"

record transformer_limits =
  tl_max_state_bytes :: nat
  tl_max_tokens :: nat

type_synonym token = "32 word"

record transformer_snapshot =
  ts_identity :: identity
  ts_profile :: transformer_profile
  ts_tokens :: "token list"
  ts_state :: "byte list"

definition empty_identity :: identity where
  "empty_identity = \<lparr>id_compatibility_root = replicate 32 0, id_scope_namespace = replicate 32 0,
     id_checkpoint_lineage_id = replicate 32 0, id_policy_epoch = 0\<rparr>"

definition empty_snapshot :: transformer_snapshot where
  "empty_snapshot = \<lparr>ts_identity = empty_identity, ts_profile = default_profile, ts_tokens = [], ts_state = []\<rparr>"

datatype transformer_status =
    captured | restored | invalid_argument | unsupported_profile | incomplete_identity | empty_tokens
  | token_limit_exceeded | state_unavailable | state_limit_exceeded | state_capture_failed | incompatible_identity
  | incompatible_profile | token_mismatch | state_restore_failed | allocation_failed | internal_error

text \<open>
  The state interface: sizes in bytes, the destination buffer of \<^verbatim>\<open>get_data\<close> before and after
  the call, and the world.
\<close>

record 's state_api =
  api_get_size :: "nat \<Rightarrow> 32 word \<Rightarrow> 's \<Rightarrow> nat \<times> 's"
  api_get_data :: "nat \<Rightarrow> byte list \<Rightarrow> 32 word \<Rightarrow> 's \<Rightarrow> nat \<times> byte list \<times> 's"
  api_set_data :: "nat \<Rightarrow> byte list \<Rightarrow> 32 word \<Rightarrow> 's \<Rightarrow> nat \<times> 's"

datatype allocation = allocated | bad_alloc | other_exception

record allocator =
  al_tokens :: "nat \<Rightarrow> allocation"
  al_state :: "nat \<Rightarrow> allocation"

record capture_result =
  cr_status :: transformer_status
  cr_snapshot :: transformer_snapshot

subsection \<open>Checks\<close>

definition identity_is_complete :: "identity \<Rightarrow> bool" where
  "identity_is_complete i \<longleftrightarrow>
     nonzero (id_compatibility_root i) \<and> nonzero (id_scope_namespace i) \<and> nonzero (id_checkpoint_lineage_id i)"

definition identities_equal :: "identity \<Rightarrow> identity \<Rightarrow> bool" where
  "identities_equal l r \<longleftrightarrow>
     id_compatibility_root l = id_compatibility_root r \<and> id_scope_namespace l = id_scope_namespace r \<and>
     id_checkpoint_lineage_id l = id_checkpoint_lineage_id r \<and> id_policy_epoch l = id_policy_epoch r"

definition profiles_equal :: "transformer_profile \<Rightarrow> transformer_profile \<Rightarrow> bool" where
  "profiles_equal l r \<longleftrightarrow>
     tp_target_only l = tp_target_only r \<and> tp_world_size l = tp_world_size r \<and> tp_rank l = tp_rank r \<and>
     tp_architecture l = tp_architecture r \<and> tp_has_draft_context l = tp_has_draft_context r \<and>
     tp_has_speculative_state l = tp_has_speculative_state r \<and> tp_has_mtp_state l = tp_has_mtp_state r \<and>
     tp_has_multimodal_state l = tp_has_multimodal_state r \<and> tp_has_adapters l = tp_has_adapters r \<and>
     tp_has_grammar_state l = tp_has_grammar_state r \<and> tp_has_tool_state l = tp_has_tool_state r \<and>
     tp_has_sampler_state l = tp_has_sampler_state r \<and>
     tp_greedy_memoryless_sampling l = tp_greedy_memoryless_sampling r"

definition profile_is_admitted :: "transformer_profile \<Rightarrow> bool" where
  "profile_is_admitted p \<longleftrightarrow>
     tp_target_only p \<and> tp_world_size p = 1 \<and> tp_rank p = 0 \<and> tp_architecture p = transformer \<and>
     \<not> tp_has_draft_context p \<and> \<not> tp_has_speculative_state p \<and> \<not> tp_has_mtp_state p \<and>
     \<not> tp_has_multimodal_state p \<and> \<not> tp_has_adapters p \<and> \<not> tp_has_grammar_state p \<and>
     \<not> tp_has_tool_state p \<and> \<not> tp_has_sampler_state p \<and> tp_greedy_memoryless_sampling p"

subsection \<open>Capture\<close>

definition reject_partial_capture :: "capture_result \<Rightarrow> capture_result" where
  "reject_partial_capture r = r\<lparr>cr_snapshot := (cr_snapshot r)\<lparr>ts_state := [], ts_tokens := [],
     ts_identity := empty_identity, ts_profile := default_profile\<rparr>\<rparr>"

definition capture_failure :: "transformer_status \<Rightarrow> capture_result" where
  "capture_failure st = \<lparr>cr_status = st, cr_snapshot = empty_snapshot\<rparr>"

definition capture_exception :: "allocation \<Rightarrow> transformer_snapshot \<Rightarrow> capture_result" where
  "capture_exception a snapshot = reject_partial_capture
     \<lparr>cr_status = (if a = bad_alloc then allocation_failed else internal_error), cr_snapshot = snapshot\<rparr>"

definition capture_transformer_state ::
    "'s state_api \<Rightarrow> allocator \<Rightarrow> nat option \<Rightarrow> 32 word \<Rightarrow> token list option \<Rightarrow> nat \<Rightarrow> identity
      \<Rightarrow> transformer_profile \<Rightarrow> transformer_limits \<Rightarrow> 's \<Rightarrow> capture_result \<times> 's" where
  "capture_transformer_state api alloc ctx seq_id tokens token_count compatibility_identity profile limits s =
     (if ctx = None \<or> tokens = None \<or> tl_max_state_bytes limits = 0 \<or> tl_max_tokens limits = 0
      then (capture_failure invalid_argument, s)
      else if \<not> identity_is_complete compatibility_identity then (capture_failure incomplete_identity, s)
      else if \<not> profile_is_admitted profile then (capture_failure unsupported_profile, s)
      else if token_count = 0 then (capture_failure empty_tokens, s)
      else if token_count > tl_max_tokens limits then (capture_failure token_limit_exceeded, s)
      else case api_get_size api (the ctx) seq_id s of (state_size, t) \<Rightarrow>
        if state_size = 0 then (capture_failure state_unavailable, t)
        else if state_size > tl_max_state_bytes limits then (capture_failure state_limit_exceeded, t)
        else let snapshot = empty_snapshot\<lparr>ts_identity := compatibility_identity, ts_profile := profile\<rparr> in
          if al_tokens alloc token_count \<noteq> allocated
          then (capture_exception (al_tokens alloc token_count) snapshot, t)
          else let snapshot = snapshot\<lparr>ts_tokens := take token_count (the tokens)\<rparr> in
            if al_state alloc state_size \<noteq> allocated
            then (capture_exception (al_state alloc state_size) snapshot, t)
            else case api_get_data api (the ctx) (replicate state_size 0) seq_id t of (count, buffer, u) \<Rightarrow>
              let snapshot = snapshot\<lparr>ts_state := buffer\<rparr> in
              if count \<noteq> state_size
              then (reject_partial_capture \<lparr>cr_status = state_capture_failed, cr_snapshot = snapshot\<rparr>, u)
              else (\<lparr>cr_status = captured, cr_snapshot = snapshot\<rparr>, u))"

subsection \<open>Restore\<close>

text \<open>
  The body allocates nothing, so the exception handlers of the source are not reached.
  Reading the expected tokens is bounded by the length comparison before it.
\<close>

definition restore_transformer_state ::
    "'s state_api \<Rightarrow> nat option \<Rightarrow> 32 word \<Rightarrow> transformer_snapshot \<Rightarrow> token list option \<Rightarrow> nat \<Rightarrow> identity
      \<Rightarrow> transformer_profile \<Rightarrow> transformer_limits \<Rightarrow> 's \<Rightarrow> transformer_status \<times> 's" where
  "restore_transformer_state api ctx seq_id snapshot expected_tokens expected_token_count compatibility_identity profile
      limits s =
     (if ctx = None \<or> expected_tokens = None \<or> tl_max_state_bytes limits = 0 \<or> tl_max_tokens limits = 0
      then (invalid_argument, s)
      else if \<not> identity_is_complete compatibility_identity then (incomplete_identity, s)
      else if \<not> profile_is_admitted profile then (unsupported_profile, s)
      else if ts_tokens snapshot = [] \<or> expected_token_count = 0 then (empty_tokens, s)
      else if length (ts_tokens snapshot) > tl_max_tokens limits \<or> expected_token_count > tl_max_tokens limits
      then (token_limit_exceeded, s)
      else if ts_state snapshot = [] then (state_unavailable, s)
      else if length (ts_state snapshot) > tl_max_state_bytes limits then (state_limit_exceeded, s)
      else if \<not> identity_is_complete (ts_identity snapshot) \<or>
        \<not> identities_equal (ts_identity snapshot) compatibility_identity
      then (incompatible_identity, s)
      else if \<not> profile_is_admitted (ts_profile snapshot) \<or> \<not> profiles_equal (ts_profile snapshot) profile
      then (incompatible_profile, s)
      else if expected_token_count \<noteq> length (ts_tokens snapshot) \<or>
        ts_tokens snapshot \<noteq> take (length (ts_tokens snapshot)) (the expected_tokens)
      then (token_mismatch, s)
      else case api_set_data api (the ctx) (ts_state snapshot) seq_id s of (count, t) \<Rightarrow>
        (if count = length (ts_state snapshot) then restored else state_restore_failed, t))"

subsection \<open>What capture and restore guarantee\<close>

lemma reject_partial_empty: "reject_partial_capture r = capture_failure (cr_status r)"
  by (simp add: reject_partial_capture_def capture_failure_def empty_snapshot_def)

lemma capture_exception_empty:
  "capture_exception a snapshot = capture_failure (if a = bad_alloc then allocation_failed else internal_error)"
  by (simp add: capture_exception_def reject_partial_empty)

definition exact_snapshot ::
    "identity \<Rightarrow> transformer_profile \<Rightarrow> transformer_limits \<Rightarrow> token list \<Rightarrow> transformer_snapshot \<Rightarrow> bool" where
  "exact_snapshot i p limits tokens snapshot \<longleftrightarrow>
     identity_is_complete i \<and> profile_is_admitted p \<and> ts_identity snapshot = i \<and> ts_profile snapshot = p \<and>
     ts_tokens snapshot = tokens \<and> tokens \<noteq> [] \<and> length tokens \<le> tl_max_tokens limits \<and>
     0 < tl_max_state_bytes limits"

lemma identities_equal_iff [simp]: "identities_equal i j \<longleftrightarrow> i = j"
  by (auto simp: identities_equal_def)

lemma profiles_equal_iff [simp]: "profiles_equal p q \<longleftrightarrow> p = q"
  by (cases p; cases q) (simp add: profiles_equal_def)

definition restorable ::
    "nat option \<Rightarrow> transformer_snapshot \<Rightarrow> token list option \<Rightarrow> nat \<Rightarrow> identity \<Rightarrow> transformer_profile
      \<Rightarrow> transformer_limits \<Rightarrow> bool" where
  "restorable ctx snapshot tokens n i p limits \<longleftrightarrow>
     ctx \<noteq> None \<and> (\<exists>ts. tokens = Some ts \<and> exact_snapshot i p limits (take n ts) snapshot \<and> n = length (ts_tokens snapshot)) \<and>
     ts_state snapshot \<noteq> [] \<and> length (ts_state snapshot) \<le> tl_max_state_bytes limits"

definition capture_admitted ::
    "nat option \<Rightarrow> token list option \<Rightarrow> nat \<Rightarrow> identity \<Rightarrow> transformer_profile \<Rightarrow> transformer_limits \<Rightarrow> bool" where
  "capture_admitted ctx tokens n i p limits \<longleftrightarrow>
     ctx \<noteq> None \<and> tokens \<noteq> None \<and> 0 < tl_max_state_bytes limits \<and> 0 < tl_max_tokens limits \<and>
     identity_is_complete i \<and> profile_is_admitted p \<and> 0 < n \<and> n \<le> tl_max_tokens limits"

text \<open>A guard of the capture: a failure with the empty snapshot, or what follows.\<close>

lemma guard_captured:
  "st \<noteq> captured \<Longrightarrow>
   cr_status (fst (if b then (capture_failure st, s) else x)) = captured \<longleftrightarrow> \<not> b \<and> cr_status (fst x) = captured"
  by (simp add: capture_failure_def)

lemma capture_needs_admission:
  assumes "cr_status (fst (capture_transformer_state api alloc ctx seq tokens n i p limits s)) = captured"
  shows "capture_admitted ctx tokens n i p limits"
  using assms unfolding capture_transformer_state_def capture_admitted_def
  by (simp (no_asm_use) only: guard_captured transformer_status.distinct not_False_eq_True de_Morgan_disj not_not) auto

lemma capture_unadmitted:
  assumes "\<not> capture_admitted ctx tokens n i p limits"
  shows "cr_snapshot (fst (capture_transformer_state api alloc ctx seq tokens n i p limits s)) = empty_snapshot"
proof -
  have guard: "cr_snapshot (fst (if b then (capture_failure st, s) else x)) = empty_snapshot \<longleftrightarrow>
      b \<or> cr_snapshot (fst x) = empty_snapshot" for b st x
    by (auto simp: capture_failure_def)
  have "(ctx = None \<or> tokens = None \<or> tl_max_state_bytes limits = 0 \<or> tl_max_tokens limits = 0) \<or>
      \<not> identity_is_complete i \<or> \<not> profile_is_admitted p \<or> n = 0 \<or> tl_max_tokens limits < n"
    using assms by (auto simp: capture_admitted_def)
  then show ?thesis unfolding capture_transformer_state_def guard by (elim disjE) simp_all
qed

lemma capture_admitted_eq:
  assumes "capture_admitted ctx tokens n i p limits"
  shows "capture_transformer_state api alloc ctx seq tokens n i p limits s =
    (case api_get_size api (the ctx) seq s of (len, t) \<Rightarrow>
       if len = 0 then (capture_failure state_unavailable, t)
       else if len > tl_max_state_bytes limits then (capture_failure state_limit_exceeded, t)
       else if al_tokens alloc n \<noteq> allocated
       then (capture_failure (if al_tokens alloc n = bad_alloc then allocation_failed else internal_error), t)
       else if al_state alloc len \<noteq> allocated
       then (capture_failure (if al_state alloc len = bad_alloc then allocation_failed else internal_error), t)
       else case api_get_data api (the ctx) (replicate len 0) seq t of (count, buffer, u) \<Rightarrow>
         if count \<noteq> len then (capture_failure state_capture_failed, u)
         else (\<lparr>cr_status = captured, cr_snapshot =
                 \<lparr>ts_identity = i, ts_profile = p, ts_tokens = take n (the tokens), ts_state = buffer\<rparr>\<rparr>, u))"
proof -
  obtain c ts where present: "ctx = Some c" "tokens = Some ts" using assms by (auto simp: capture_admitted_def)
  show ?thesis
  using assms
  by (simp add: present capture_transformer_state_def capture_admitted_def reject_partial_empty capture_exception_empty Let_def
    empty_snapshot_def cong: if_cong)
qed

text \<open>
  Capture is complete or empty. The status is \<^verbatim>\<open>captured\<close> only for a present context, a
  complete identity and the admitted profile, with the requested tokens and the whole buffer
  of the reported size within the limits; every other outcome, the two allocation
  failures included, returns the empty snapshot.
\<close>
theorem capture_complete_or_empty:
  "case capture_transformer_state api alloc ctx seq tokens n i p limits s of (r, u) \<Rightarrow>
     if cr_status r = captured
     then ctx \<noteq> None \<and> identity_is_complete i \<and> profile_is_admitted p \<and> 0 < n \<and> n \<le> tl_max_tokens limits \<and>
       (\<exists>ts len t buffer. tokens = Some ts \<and> api_get_size api (the ctx) seq s = (len, t) \<and>
          0 < len \<and> len \<le> tl_max_state_bytes limits \<and>
          api_get_data api (the ctx) (replicate len 0) seq t = (len, buffer, u) \<and>
          cr_snapshot r = \<lparr>ts_identity = i, ts_profile = p, ts_tokens = take n ts, ts_state = buffer\<rparr>)
     else cr_snapshot r = empty_snapshot"
proof (cases "capture_admitted ctx tokens n i p limits")
  case False
  then show ?thesis
    using capture_unadmitted [OF False, of api alloc seq s] capture_needs_admission [of api alloc ctx seq tokens n i p limits s]
    by (auto split: prod.split)
next
  case True
  then show ?thesis
    by (auto simp: capture_admitted_eq [OF True] capture_failure_def capture_admitted_def split: prod.split)
qed

lemma restorable_checks:
  assumes "case tokens of None \<Rightarrow> True | Some ts \<Rightarrow> n \<le> length ts"
  shows "restorable ctx snapshot tokens n i p limits \<longleftrightarrow>
    \<not> (ctx = None \<or> tokens = None \<or> tl_max_state_bytes limits = 0 \<or> tl_max_tokens limits = 0) \<and>
    identity_is_complete i \<and> profile_is_admitted p \<and> \<not> (ts_tokens snapshot = [] \<or> n = 0) \<and>
    \<not> (length (ts_tokens snapshot) > tl_max_tokens limits \<or> n > tl_max_tokens limits) \<and>
    ts_state snapshot \<noteq> [] \<and> \<not> length (ts_state snapshot) > tl_max_state_bytes limits \<and>
    \<not> (\<not> identity_is_complete (ts_identity snapshot) \<or> \<not> identities_equal (ts_identity snapshot) i) \<and>
    \<not> (\<not> profile_is_admitted (ts_profile snapshot) \<or> \<not> profiles_equal (ts_profile snapshot) p) \<and>
    \<not> (n \<noteq> length (ts_tokens snapshot) \<or> ts_tokens snapshot \<noteq> take (length (ts_tokens snapshot)) (the tokens))"
  using assms
  by (cases tokens) (auto simp: restorable_def exact_snapshot_def not_less, metis length_greater_0_conv order_less_le_trans)

text \<open>The verdict of the restore: what it does once every check has passed, and that it does nothing before.\<close>

definition applied :: "transformer_status \<Rightarrow> bool" where
  "applied st \<longleftrightarrow> st = restored \<or> st = state_restore_failed"

lemma applied_simps:
  "\<not> applied invalid_argument" "\<not> applied incomplete_identity" "\<not> applied unsupported_profile" "\<not> applied empty_tokens"
  "\<not> applied token_limit_exceeded" "\<not> applied state_unavailable" "\<not> applied state_limit_exceeded"
  "\<not> applied incompatible_identity" "\<not> applied incompatible_profile" "\<not> applied token_mismatch"
  by (simp_all add: applied_def)

lemma guard_applied:
  "\<not> applied st \<Longrightarrow> applied (fst (if b then (st, s) else x)) \<longleftrightarrow> \<not> b \<and> applied (fst x)"
  by simp

lemma restore_applied_iff:
  assumes "case tokens of None \<Rightarrow> True | Some ts \<Rightarrow> n \<le> length ts"
  shows "applied (fst (restore_transformer_state api ctx seq snapshot tokens n i p limits s)) \<longleftrightarrow>
    restorable ctx snapshot tokens n i p limits"
proof -
  have last: "applied (fst (case x of (count, t) \<Rightarrow> (if count = length (ts_state snapshot) then restored else state_restore_failed, t)))"
    for x :: "nat \<times> 'a"
    by (cases x) (simp add: applied_def)
  show ?thesis
    unfolding restorable_checks [OF assms] restore_transformer_state_def
    by (simp only: guard_applied [OF applied_simps(1)] guard_applied [OF applied_simps(2)] guard_applied [OF applied_simps(3)]
      guard_applied [OF applied_simps(4)] guard_applied [OF applied_simps(5)] guard_applied [OF applied_simps(6)]
      guard_applied [OF applied_simps(7)] guard_applied [OF applied_simps(8)] guard_applied [OF applied_simps(9)]
      guard_applied [OF applied_simps(10)] last simp_thms)
qed

lemma restore_untouched:
  assumes "\<not> applied (fst (restore_transformer_state api ctx seq snapshot tokens n i p limits s))"
  shows "snd (restore_transformer_state api ctx seq snapshot tokens n i p limits s) = s"
proof -
  have keep: "(\<not> applied (fst x) \<Longrightarrow> snd x = s) \<Longrightarrow> \<not> applied (fst (if b then (st, s) else x)) \<Longrightarrow>
      snd (if b then (st, s) else x) = s" for b st x
    by (auto split: if_splits)
  show ?thesis using assms unfolding restore_transformer_state_def
    by (intro keep) (auto simp: applied_def split: prod.splits if_splits)
qed

lemma restore_restorable:
  assumes "restorable ctx snapshot tokens n i p limits" "case tokens of None \<Rightarrow> True | Some ts \<Rightarrow> n \<le> length ts"
  shows "restore_transformer_state api ctx seq snapshot tokens n i p limits s =
    (case api_set_data api (the ctx) (ts_state snapshot) seq s of (count, t) \<Rightarrow>
      (if count = length (ts_state snapshot) then restored else state_restore_failed, t))"
  using assms(1) unfolding restorable_checks [OF assms(2)] restore_transformer_state_def
  by (simp only: simp_thms if_False not_not)

text \<open>
  C13: Restore touches the live context only after every check. If the snapshot carries exactly
  the expected tokens, identity and admitted profile within the limits, its state is handed to
  the context once, and the outcome is \<^verbatim>\<open>restored\<close> exactly when all of it was consumed;
  otherwise the world is unchanged and the status is neither \<^verbatim>\<open>restored\<close> nor a failed restore.
\<close>
theorem restore_only_exact:
  assumes "case tokens of None \<Rightarrow> True | Some ts \<Rightarrow> n \<le> length ts"
  shows "case restore_transformer_state api ctx seq snapshot tokens n i p limits s of (st, t) \<Rightarrow>
    if restorable ctx snapshot tokens n i p limits
    then (\<exists>count. api_set_data api (the ctx) (ts_state snapshot) seq s = (count, t) \<and>
      st = (if count = length (ts_state snapshot) then restored else state_restore_failed))
    else t = s \<and> \<not> applied st"
proof (cases "restorable ctx snapshot tokens n i p limits")
  case True
  then show ?thesis by (auto simp: restore_restorable [OF True assms] split: prod.split)
next
  case False
  then have "\<not> applied (fst (restore_transformer_state api ctx seq snapshot tokens n i p limits s))"
    by (simp add: restore_applied_iff [OF assms])
  from restore_untouched [OF this] this False show ?thesis by (auto split: prod.split)
qed

definition sample_api :: "byte list state_api" where
  "sample_api = \<lparr>api_get_size = (\<lambda>ctx seq s. (length s, s)),
     api_get_data = (\<lambda>ctx buffer seq s. (length s, take (length buffer) s @ drop (length s) buffer, s)),
     api_set_data = (\<lambda>ctx bytes seq s. (length bytes, bytes))\<rparr>"

definition sample_identity :: identity where
  "sample_identity = \<lparr>id_compatibility_root = replicate 32 1, id_scope_namespace = replicate 32 2,
     id_checkpoint_lineage_id = replicate 32 3, id_policy_epoch = 1\<rparr>"

definition sample_profile :: transformer_profile where
  "sample_profile = default_profile\<lparr>tp_target_only := True, tp_world_size := 1, tp_rank := 0,
     tp_greedy_memoryless_sampling := True\<rparr>"

definition sample_limits :: transformer_limits where
  "sample_limits = \<lparr>tl_max_state_bytes = 16, tl_max_tokens = 4\<rparr>"

definition sample_snapshot :: transformer_snapshot where
  "sample_snapshot = \<lparr>ts_identity = sample_identity, ts_profile = sample_profile, ts_tokens = [5, 6], ts_state = [1, 2, 3]\<rparr>"

lemma sample_admitted: "identity_is_complete sample_identity" "profile_is_admitted sample_profile"
  by (simp_all add: identity_is_complete_def sample_identity_def nonzero_iff profile_is_admitted_def sample_profile_def
    default_profile_def)

lemma sample_restorable: "restorable (Some 0) sample_snapshot (Some [5, 6]) 2 sample_identity sample_profile sample_limits"
  by (simp add: restorable_def exact_snapshot_def sample_admitted sample_snapshot_def sample_limits_def)

theorem restore_only_exact_witness:
  "restore_transformer_state sample_api (Some 0) 0 sample_snapshot (Some [5, 6]) 2 sample_identity sample_profile
     sample_limits [] = (restored, [1, 2, 3])"
  using restore_only_exact [where tokens = "Some [5, 6]" and n = 2 and api = sample_api and ctx = "Some 0" and seq = 0
      and snapshot = sample_snapshot and i = sample_identity and p = sample_profile and limits = sample_limits and s = "[]"]
    sample_restorable
  by (auto simp: sample_api_def sample_snapshot_def split: prod.splits)

text \<open>
  C34: Round trip of state. Provided the state interface never changes the length of the buffer
  it fills, a captured snapshot passes every check of a restore with the same tokens, identity,
  profile and limits into any context, so the restore hands the captured bytes over and
  succeeds exactly when the interface consumes all of them.
\<close>
theorem capture_restore_roundtrip:
  assumes "capture_transformer_state api alloc ctx seq (Some ts) n i p limits s = (r, u)" and "cr_status r = captured"
    and "\<forall>c b q w. length (fst (snd (api_get_data api c b q w))) = length b" and "n \<le> length ts"
  shows "restore_transformer_state api' (Some c') seq' (cr_snapshot r) (Some ts) n i p limits v =
    (case api_set_data api' c' (ts_state (cr_snapshot r)) seq' v of (count, w) \<Rightarrow>
      (if count = length (ts_state (cr_snapshot r)) then restored else state_restore_failed, w))"
proof -
  have admitted: "capture_admitted ctx (Some ts) n i p limits"
    using capture_needs_admission assms(1,2) by (metis fst_conv)
  obtain len t buffer where d: "api_get_size api (the ctx) seq s = (len, t)" "0 < len" "len \<le> tl_max_state_bytes limits"
    "api_get_data api (the ctx) (replicate len 0) seq t = (len, buffer, u)"
    "cr_snapshot r = \<lparr>ts_identity = i, ts_profile = p, ts_tokens = take n ts, ts_state = buffer\<rparr>"
    using assms(1,2) unfolding capture_admitted_eq [OF admitted]
    by (auto simp: capture_failure_def split: prod.splits if_splits)
  have "length buffer = len"
    using assms(3) [rule_format, of "the ctx" "replicate len 0" seq t] d(4) by simp
  then have "restorable (Some c') (cr_snapshot r) (Some ts) n i p limits"
    using admitted d assms(4) by (auto simp: restorable_def exact_snapshot_def capture_admitted_def)
  from restore_restorable [OF this] show ?thesis using assms(4) by simp
qed

definition sample_allocator :: allocator where
  "sample_allocator = \<lparr>al_tokens = (\<lambda>n. allocated), al_state = (\<lambda>n. allocated)\<rparr>"

theorem capture_restore_roundtrip_witness:
  "\<exists>r u. capture_transformer_state sample_api sample_allocator (Some 0) 0 (Some [5, 6]) 2 sample_identity sample_profile
      sample_limits [1, 2, 3] = (r, u) \<and> cr_status r = captured \<and>
    restore_transformer_state sample_api (Some 1) 7 (cr_snapshot r) (Some [5, 6]) 2 sample_identity sample_profile
      sample_limits [] = (restored, [1, 2, 3])"
proof -
  have c: "capture_transformer_state sample_api sample_allocator (Some 0) 0 (Some [5, 6]) 2 sample_identity sample_profile
      sample_limits [1, 2, 3] = (\<lparr>cr_status = captured, cr_snapshot = sample_snapshot\<rparr>, [1, 2, 3])"
    by (simp add: capture_transformer_state_def sample_admitted sample_limits_def sample_api_def sample_allocator_def
      sample_snapshot_def empty_snapshot_def)
  have keeps: "\<forall>c b q w. length (fst (snd (api_get_data sample_api c b q w))) = length b"
    by (auto simp: sample_api_def min_def)
  have "restore_transformer_state sample_api (Some 1) 7 sample_snapshot (Some [5, 6]) 2 sample_identity sample_profile
      sample_limits [] = (restored, [1, 2, 3])"
    using capture_restore_roundtrip [OF c _ keeps, where api' = sample_api and c' = 1 and seq' = 7 and v = "[]"]
    by (simp add: sample_snapshot_def) (simp add: sample_api_def)
  then show ?thesis using c by simp
qed

end
