(* ===== verification/Prefix_Selector.thy ===== *)
theory Prefix_Selector
  imports Exact_Session State_Transformer
begin

text \<open>
  \<^verbatim>\<open>halofpx-context-store-v1-prefix-selector.{h,cpp}\<close>: restore of the longest stored prefix of a
  token sequence. The catalogue is a parameter, its \<^verbatim>\<open>restore_exact\<close> an arbitrary function of
  the request and a world; so is the time the two clock readings are apart.
  Shown: a hit is the exact prefix it claims to be, longer candidates were all definitely
  absent, every uncertain answer ends the search without a hit, and a catalogue that has a
  checkpoint yields it.
\<close>

subsection \<open>Data\<close>

definition selector_max_boundaries :: nat where "selector_max_boundaries = 8"

datatype catalog_status =
    cat_ready | cat_published | cat_hit | cat_miss_not_found | cat_miss_corrupt | cat_miss_incompatible
  | cat_source_rejected | cat_capacity_exhausted | cat_busy | cat_storage

record catalog_restore_result =
  cs_status :: catalog_status
  cs_snapshot :: transformer_snapshot
  cs_authenticated_record_selected :: bool

type_synonym 's catalog = "token list option \<Rightarrow> nat \<Rightarrow> identity \<Rightarrow> transformer_profile \<Rightarrow> 's \<Rightarrow> catalog_restore_result \<times> 's"

datatype selector_status =
    sel_hit | sel_miss_not_found | sel_miss_corrupt | sel_miss_incompatible | sel_source_rejected | sel_busy | sel_storage

datatype fallback_reason =
    no_fallback | no_candidate_boundaries | no_eligible_prefix | invalid_request | reason_invalid_boundaries
  | reason_unsupported_profile | incompatible_topology | authenticated_state_corrupt
  | authenticated_state_incompatible | catalog_busy | reason_storage_error

record selector_request =
  sq_exact_session :: exact_session_inputs
  sq_candidate_boundaries :: "nat list option"
  sq_candidate_boundary_count :: nat
  sq_policy_epoch :: u64
  sq_profile :: transformer_profile

record selector_result =
  ss_status :: selector_status
  ss_fallback_reason :: fallback_reason
  ss_last_catalog_status :: catalog_status
  ss_authority_status :: exact_session_status
  ss_snapshot :: transformer_snapshot
  ss_matched_token_count :: nat
  ss_restored_token_count :: nat
  ss_residual_token_offset :: nat
  ss_residual_token_count :: nat
  ss_candidates_examined :: nat
  ss_validation_time_ns :: u64

definition empty_selector_result :: selector_result where
  "empty_selector_result = \<lparr>ss_status = sel_miss_not_found, ss_fallback_reason = no_eligible_prefix,
     ss_last_catalog_status = cat_miss_not_found, ss_authority_status = invalid_key, ss_snapshot = empty_snapshot,
     ss_matched_token_count = 0, ss_restored_token_count = 0, ss_residual_token_offset = 0, ss_residual_token_count = 0,
     ss_candidates_examined = 0, ss_validation_time_ns = 0\<rparr>"

definition selector_hit :: "selector_result \<Rightarrow> bool" where
  "selector_hit r \<longleftrightarrow> ss_status r = sel_hit"

subsection \<open>Steps\<close>

definition reject_request :: "fallback_reason \<Rightarrow> selector_result \<Rightarrow> selector_result" where
  "reject_request reason r = r\<lparr>ss_status := sel_source_rejected, ss_fallback_reason := reason\<rparr>"

definition same_identity :: "identity \<Rightarrow> identity \<Rightarrow> bool" where
  "same_identity l r \<longleftrightarrow>
     id_compatibility_root l = id_compatibility_root r \<and> id_scope_namespace l = id_scope_namespace r \<and>
     id_checkpoint_lineage_id l = id_checkpoint_lineage_id r \<and> id_policy_epoch l = id_policy_epoch r"

definition same_profile :: "transformer_profile \<Rightarrow> transformer_profile \<Rightarrow> bool" where
  "same_profile l r \<longleftrightarrow>
     tp_target_only l = tp_target_only r \<and> tp_world_size l = tp_world_size r \<and> tp_rank l = tp_rank r \<and>
     tp_architecture l = tp_architecture r \<and> tp_has_draft_context l = tp_has_draft_context r \<and>
     tp_has_speculative_state l = tp_has_speculative_state r \<and> tp_has_mtp_state l = tp_has_mtp_state r \<and>
     tp_has_multimodal_state l = tp_has_multimodal_state r \<and> tp_has_adapters l = tp_has_adapters r \<and>
     tp_has_grammar_state l = tp_has_grammar_state r \<and> tp_has_tool_state l = tp_has_tool_state r \<and>
     tp_has_sampler_state l = tp_has_sampler_state r \<and>
     tp_greedy_memoryless_sampling l = tp_greedy_memoryless_sampling r"

fun increasing_boundaries :: "nat \<Rightarrow> nat \<Rightarrow> nat list \<Rightarrow> bool" where
  "increasing_boundaries token_count previous [] = True"
| "increasing_boundaries token_count previous (boundary # rest) =
     (if boundary = 0 \<or> boundary > token_count \<or> boundary \<le> previous then False
      else increasing_boundaries token_count boundary rest)"

definition validate_boundaries :: "selector_request \<Rightarrow> bool" where
  "validate_boundaries request =
     (if sq_candidate_boundary_count request = 0 then True
      else if sq_candidate_boundaries request = None \<or> sq_candidate_boundary_count request > selector_max_boundaries
      then False
      else increasing_boundaries (es_token_count (sq_exact_session request)) 0
             (take (sq_candidate_boundary_count request) (the (sq_candidate_boundaries request))))"

definition identity_for :: "exact_session_inputs \<Rightarrow> exact_session_result \<Rightarrow> u64 \<Rightarrow> identity" where
  "identity_for exact r policy_epoch = \<lparr>id_compatibility_root = es_compatibility_root exact,
     id_scope_namespace = es_scope_namespace exact, id_checkpoint_lineage_id = er_session_id r, id_policy_epoch = policy_epoch\<rparr>"

fun catalog_failure :: "catalog_status \<Rightarrow> selector_status \<times> fallback_reason" where
  "catalog_failure cat_miss_corrupt = (sel_miss_corrupt, authenticated_state_corrupt)"
| "catalog_failure cat_miss_incompatible = (sel_miss_incompatible, authenticated_state_incompatible)"
| "catalog_failure cat_busy = (sel_busy, catalog_busy)"
| "catalog_failure cat_source_rejected = (sel_source_rejected, invalid_request)"
| "catalog_failure cat_storage = (sel_storage, reason_storage_error)"
| "catalog_failure cat_ready = (sel_storage, reason_storage_error)"
| "catalog_failure cat_published = (sel_storage, reason_storage_error)"
| "catalog_failure cat_hit = (sel_storage, reason_storage_error)"
| "catalog_failure cat_miss_not_found = (sel_storage, reason_storage_error)"
| "catalog_failure cat_capacity_exhausted = (sel_storage, reason_storage_error)"

definition fail_catalog :: "catalog_status \<Rightarrow> selector_result \<Rightarrow> selector_result" where
  "fail_catalog status r = r\<lparr>ss_last_catalog_status := status, ss_status := fst (catalog_failure status),
     ss_fallback_reason := snd (catalog_failure status)\<rparr>"

definition corrupt_record :: "selector_result \<Rightarrow> selector_result" where
  "corrupt_record r = r\<lparr>ss_status := sel_miss_corrupt, ss_fallback_reason := authenticated_state_corrupt,
     ss_last_catalog_status := cat_miss_corrupt\<rparr>"

definition prefix_session :: "exact_session_inputs \<Rightarrow> nat \<Rightarrow> exact_session_inputs" where
  "prefix_session exact boundary = exact\<lparr>es_token_count := boundary, es_logical_boundary := of_nat boundary,
     es_output_boundary := of_nat boundary\<rparr>"

definition snapshot_is_prefix :: "selector_request \<Rightarrow> nat \<Rightarrow> identity \<Rightarrow> transformer_snapshot \<Rightarrow> bool" where
  "snapshot_is_prefix request boundary identity snapshot \<longleftrightarrow>
     \<not> (length (ts_tokens snapshot) \<noteq> boundary \<or>
        ts_tokens snapshot \<noteq> take (length (ts_tokens snapshot)) (the (es_tokens (sq_exact_session request))) \<or>
        \<not> same_identity (ts_identity snapshot) identity \<or> \<not> same_profile (ts_profile snapshot) (sq_profile request))"

text \<open>The loop, by the number of candidates left.\<close>

primrec select_loop :: "'s catalog \<Rightarrow> selector_request \<Rightarrow> nat \<Rightarrow> selector_result \<Rightarrow> 's \<Rightarrow> selector_result \<times> 's" where
  "select_loop catalog request 0 result s =
     (result\<lparr>ss_status := sel_miss_not_found, ss_fallback_reason := no_eligible_prefix\<rparr>, s)"
| "select_loop catalog request (Suc index) result s =
     (let boundary = the (sq_candidate_boundaries request) ! index;
          exact = prefix_session (sq_exact_session request) boundary;
          authority = context_store_resolve_exact_session_v1 exact;
          result = result\<lparr>ss_candidates_examined := ss_candidates_examined result + 1,
            ss_authority_status := er_status authority\<rparr>
      in if \<not> session_resolved authority then (reject_request invalid_request result, s)
         else let identity = identity_for exact authority (sq_policy_epoch request) in
           case catalog (es_tokens (sq_exact_session request)) boundary identity (sq_profile request) s of (reply, t) \<Rightarrow>
             let result = result\<lparr>ss_last_catalog_status := cs_status reply\<rparr> in
             if \<not> cs_authenticated_record_selected reply \<and>
                (cs_status reply = cat_miss_not_found \<or> cs_status reply = cat_capacity_exhausted)
             then select_loop catalog request index result t
             else if cs_authenticated_record_selected reply \<and> cs_status reply = cat_miss_not_found
             then (corrupt_record result, t)
             else if cs_status reply \<noteq> cat_hit then (fail_catalog (cs_status reply) result, t)
             else if \<not> snapshot_is_prefix request boundary identity (cs_snapshot reply) then (corrupt_record result, t)
             else (result\<lparr>ss_status := sel_hit, ss_fallback_reason := no_fallback, ss_matched_token_count := boundary,
                    ss_restored_token_count := length (ts_tokens (cs_snapshot reply)), ss_residual_token_offset := boundary,
                    ss_residual_token_count := es_token_count (sq_exact_session request) - boundary,
                    ss_snapshot := cs_snapshot reply\<rparr>, t))"

definition select_prefix :: "'s catalog \<Rightarrow> selector_request \<Rightarrow> 's \<Rightarrow> selector_result \<times> 's" where
  "select_prefix catalog request s =
     (let exact = sq_exact_session request;
          result = empty_selector_result\<lparr>ss_residual_token_count := es_token_count exact\<rparr>
      in if sq_policy_epoch request = 0 \<or> es_logical_boundary exact \<noteq> of_nat (es_token_count exact) \<or>
           es_output_boundary exact \<noteq> of_nat (es_token_count exact)
         then (reject_request invalid_request result, s)
         else if \<not> profile_is_admitted (sq_profile request) \<or> es_profile exact \<noteq> target_only_greedy_memoryless
         then (reject_request reason_unsupported_profile result, s)
         else if es_world_size exact \<noteq> 1 \<or> es_rank exact \<noteq> 0 \<or>
           ucast (tp_world_size (sq_profile request)) \<noteq> es_world_size exact \<or>
           ucast (tp_rank (sq_profile request)) \<noteq> es_rank exact
         then (reject_request incompatible_topology result, s)
         else let full_authority = context_store_resolve_exact_session_v1 exact;
                  result = result\<lparr>ss_authority_status := er_status full_authority\<rparr>
           in if \<not> session_resolved full_authority then (reject_request invalid_request result, s)
              else if \<not> validate_boundaries request then (reject_request reason_invalid_boundaries result, s)
              else if sq_candidate_boundary_count request = 0
              then (result\<lparr>ss_fallback_reason := no_candidate_boundaries\<rparr>, s)
              else select_loop catalog request (sq_candidate_boundary_count request) result s)"

definition context_store_v1_restore_longest_prefix ::
    "'s catalog \<Rightarrow> selector_request \<Rightarrow> int \<Rightarrow> 's \<Rightarrow> selector_result \<times> 's" where
  "context_store_v1_restore_longest_prefix catalog request elapsed s =
     (case select_prefix catalog request s of (r, t) \<Rightarrow>
        (r\<lparr>ss_validation_time_ns := (if elapsed \<le> 0 then 0 else of_int elapsed)\<rparr>, t))"

subsection \<open>Prefixes of a resolved session\<close>

lemma increasing_boundaries_bounds:
  "increasing_boundaries n p bs \<longleftrightarrow> sorted_wrt (<) bs \<and> (\<forall>b \<in> set bs. p < b \<and> b \<le> n)"
  by (induction bs arbitrary: p) auto

lemma prefix_session_ok:
  assumes "wf_session exact" "session_ok exact" "0 < b" "b \<le> es_token_count exact"
  shows "wf_session (prefix_session exact b) \<and> session_ok (prefix_session exact b)"
proof -
  obtain ts where ts: "es_tokens exact = Some ts" "es_token_count exact \<le> length ts"
    using assms(1,2) by (auto simp: wf_session_def session_ok_def)
  have "list_all (\<lambda>token. 0 \<le> sint token) (take (es_token_count exact) ts)"
    using assms(2) ts by (simp add: session_ok_def)
  then have "list_all (\<lambda>token. 0 \<le> sint token) (take b (take (es_token_count exact) ts))"
    unfolding list_all_iff by (blast dest: in_set_takeD)
  then have tokens: "list_all (\<lambda>token. 0 \<le> sint token) (take b ts)" using assms(4) by (simp add: min_absorb1)
  have b: "b \<le> exact_session_max_tokens" using assms(2,4) by (simp add: session_ok_def)
  have word: "(of_nat b :: u64) \<noteq> 0" "unat (of_nat b :: u64) = b"
    using b assms(3) boundary_is_count [OF b, of "of_nat b"] boundary_is_count [of 0 "of_nat b"] by auto
  show ?thesis
    using assms ts tokens b word by (simp add: wf_session_def session_ok_def prefix_session_def)
qed

subsection \<open>The search as seen by the catalogue\<close>

type_synonym probe = "nat \<times> identity \<times> catalog_restore_result"

definition observe :: "'s catalog \<Rightarrow> ('s \<times> probe list) catalog" where
  "observe catalog tokens b i p w =
     (case catalog tokens b i p (fst w) of (reply, t) \<Rightarrow> (reply, (t, snd w @ [(b, i, reply)])))"

lemma observe_apply:
  "observe catalog tokens b i p (s, log) = (case catalog tokens b i p s of (reply, t) \<Rightarrow> (reply, (t, log @ [(b, i, reply)])))"
  by (simp add: observe_def)

definition skipped :: "probe \<Rightarrow> bool" where
  "skipped e \<longleftrightarrow> \<not> cs_authenticated_record_selected (snd (snd e)) \<and>
     (cs_status (snd (snd e)) = cat_miss_not_found \<or> cs_status (snd (snd e)) = cat_capacity_exhausted)"

definition prefix_identity :: "selector_request \<Rightarrow> nat \<Rightarrow> identity" where
  "prefix_identity request b = identity_for (prefix_session (sq_exact_session request) b)
     (context_store_resolve_exact_session_v1 (prefix_session (sq_exact_session request) b)) (sq_policy_epoch request)"

definition cold :: "selector_request \<Rightarrow> selector_result \<Rightarrow> bool" where
  "cold request r \<longleftrightarrow> ss_snapshot r = empty_snapshot \<and> ss_matched_token_count r = 0 \<and> ss_restored_token_count r = 0 \<and>
     ss_residual_token_offset r = 0 \<and> ss_residual_token_count r = es_token_count (sq_exact_session request)"

definition warm :: "selector_request \<Rightarrow> nat \<Rightarrow> transformer_snapshot \<Rightarrow> selector_result \<Rightarrow> bool" where
  "warm request b snapshot r \<longleftrightarrow> ss_status r = sel_hit \<and> ss_snapshot r = snapshot \<and> ss_matched_token_count r = b \<and>
     ss_restored_token_count r = b \<and> ss_residual_token_offset r = b \<and>
     ss_residual_token_count r = es_token_count (sq_exact_session request) - b"

text \<open>
  The outcome of a search over the candidates \<open>bs\<close>, longest first, with the given probes: all
  were skipped, or the last one decided.
\<close>

definition search_outcome :: "selector_request \<Rightarrow> nat list \<Rightarrow> probe list \<Rightarrow> selector_result \<Rightarrow> bool" where
  "search_outcome request bs probes r \<longleftrightarrow>
     map fst probes = take (length probes) bs \<and> list_all (\<lambda>(b, i, _). i = prefix_identity request b) probes \<and>
     (if list_all skipped probes then length probes = length bs \<and> ss_status r = sel_miss_not_found \<and> cold request r
      else list_all skipped (butlast probes) \<and>
        (case last probes of (b, i, reply) \<Rightarrow>
           if cs_status reply = cat_hit \<and> snapshot_is_prefix request b i (cs_snapshot reply)
           then warm request b (cs_snapshot reply) r
           else ss_status r \<notin> {sel_hit, sel_miss_not_found} \<and> cold request r))"

lemma search_outcome_skip:
  assumes "skipped (b, prefix_identity request b, reply)" "search_outcome request bs probes r"
  shows "search_outcome request (b # bs) ((b, prefix_identity request b, reply) # probes) r"
  using assms by (cases probes rule: rev_cases) (auto simp: search_outcome_def)

lemma catalog_failure_status: "fst (catalog_failure st) \<noteq> sel_hit \<and> fst (catalog_failure st) \<noteq> sel_miss_not_found"
  by (cases st) simp_all

lemma search_outcome_stop:
  assumes "\<not> skipped (b, prefix_identity request b, reply)"
    "if cs_status reply = cat_hit \<and> snapshot_is_prefix request b (prefix_identity request b) (cs_snapshot reply)
     then warm request b (cs_snapshot reply) r else ss_status r \<notin> {sel_hit, sel_miss_not_found} \<and> cold request r"
  shows "search_outcome request (b # bs) [(b, prefix_identity request b, reply)] r"
  using assms by (simp add: search_outcome_def)

lemma same_identity_iff [simp]: "same_identity i j \<longleftrightarrow> i = j"
  by (auto simp: same_identity_def)

lemma same_profile_iff [simp]: "same_profile p q \<longleftrightarrow> p = q"
  by (cases p; cases q) (simp add: same_profile_def)

lemma snapshot_is_prefix_length: "snapshot_is_prefix request b i snapshot \<Longrightarrow> length (ts_tokens snapshot) = b"
  by (simp add: snapshot_is_prefix_def)

lemma select_loop_outcome:
  assumes "\<forall>i < k. session_resolved (context_store_resolve_exact_session_v1
      (prefix_session (sq_exact_session request) (the (sq_candidate_boundaries request) ! i)))"
    "cold request result" "select_loop (observe catalog) request k result (s, log) = (r, (t, log'))"
  shows "\<exists>probes. log' = log @ probes \<and>
    search_outcome request (rev (map (nth (the (sq_candidate_boundaries request))) [0..<k])) probes r"
  using assms
proof (induction k arbitrary: result s log)
  case 0
  then show ?case by (intro exI [of _ "[]"]) (auto simp: search_outcome_def cold_def)
next
  case (Suc k)
  let ?b = "the (sq_candidate_boundaries request) ! k"
  let ?exact = "prefix_session (sq_exact_session request) ?b"
  let ?result = "result\<lparr>ss_candidates_examined := ss_candidates_examined result + 1,
    ss_authority_status := er_status (context_store_resolve_exact_session_v1 ?exact)\<rparr>"
  obtain reply u where reply:
    "catalog (es_tokens (sq_exact_session request)) ?b (prefix_identity request ?b) (sq_profile request) s = (reply, u)"
    by fastforce
  let ?e = "(?b, prefix_identity request ?b, reply)"
  let ?bs = "rev (map (nth (the (sq_candidate_boundaries request))) [0..<k])"
  have res: "session_resolved (context_store_resolve_exact_session_v1 ?exact)" using Suc.prems(1) by simp
  have cold: "cold request (?result\<lparr>ss_last_catalog_status := cs_status reply\<rparr>)"
    using Suc.prems(2) by (simp add: cold_def)
  show ?case
  proof (cases "skipped ?e")
    case True
    then have "select_loop (observe catalog) request k (?result\<lparr>ss_last_catalog_status := cs_status reply\<rparr>)
        (u, log @ [?e]) = (r, (t, log'))"
      using Suc.prems(3) res reply by (simp add: observe_apply skipped_def prefix_identity_def Let_def)
    from Suc.IH [OF _ cold this] Suc.prems(1)
    obtain probes where "log' = (log @ [?e]) @ probes" "search_outcome request ?bs probes r" by auto
    then show ?thesis using search_outcome_skip [OF True] by (intro exI [of _ "?e # probes"]) simp
  next
    case False
    let ?r = "?result\<lparr>ss_last_catalog_status := cs_status reply\<rparr>"
    have decided: "(r, (t, log')) =
        (if cs_authenticated_record_selected reply \<and> cs_status reply = cat_miss_not_found then (corrupt_record ?r, (u, log @ [?e]))
         else if cs_status reply \<noteq> cat_hit then (fail_catalog (cs_status reply) ?r, (u, log @ [?e]))
         else if \<not> snapshot_is_prefix request ?b (prefix_identity request ?b) (cs_snapshot reply)
         then (corrupt_record ?r, (u, log @ [?e]))
         else (?r\<lparr>ss_status := sel_hit, ss_fallback_reason := no_fallback, ss_matched_token_count := ?b,
                ss_restored_token_count := length (ts_tokens (cs_snapshot reply)), ss_residual_token_offset := ?b,
                ss_residual_token_count := es_token_count (sq_exact_session request) - ?b,
                ss_snapshot := cs_snapshot reply\<rparr>, (u, log @ [?e])))"
      (is "_ = ?decided")
    proof -
      have "(r, (t, log')) = select_loop (observe catalog) request (Suc k) result (s, log)" using Suc.prems(3) by simp
      also have "\<dots> = (if skipped ?e then select_loop (observe catalog) request k ?r (u, log @ [?e]) else ?decided)"
        using res reply by (simp add: observe_apply skipped_def prefix_identity_def Let_def)
      finally show ?thesis using False by (simp only: if_False)
    qed
    have "log' = log @ [?e]" using decided by (simp split: if_splits)
    moreover have "if cs_status reply = cat_hit \<and> snapshot_is_prefix request ?b (prefix_identity request ?b) (cs_snapshot reply)
       then warm request ?b (cs_snapshot reply) r else ss_status r \<notin> {sel_hit, sel_miss_not_found} \<and> cold request r"
    proof (cases "cs_status reply = cat_hit")
      case hit: True
      then show ?thesis using decided cold
        by (cases "snapshot_is_prefix request ?b (prefix_identity request ?b) (cs_snapshot reply)")
          (simp_all add: corrupt_record_def cold_def warm_def snapshot_is_prefix_length)
    next
      case False
      then show ?thesis using decided cold catalog_failure_status [of "cs_status reply"]
        by (cases "cs_authenticated_record_selected reply \<and> cs_status reply = cat_miss_not_found")
          (simp_all add: corrupt_record_def fail_catalog_def cold_def)
    qed
    ultimately show ?thesis using search_outcome_stop [OF False] by (intro exI [of _ "[?e]"]) simp
  qed
qed

subsection \<open>The guarantees of the selector\<close>

definition wf_request :: "selector_request \<Rightarrow> bool" where
  "wf_request request \<longleftrightarrow> wf_session (sq_exact_session request) \<and>
     (case sq_candidate_boundaries request of None \<Rightarrow> True
      | Some bs \<Rightarrow> sq_candidate_boundary_count request \<le> length bs)"

definition candidates :: "selector_request \<Rightarrow> nat list" where
  "candidates request = take (sq_candidate_boundary_count request) (the (sq_candidate_boundaries request))"

definition searchable :: "selector_request \<Rightarrow> bool" where
  "searchable request \<longleftrightarrow> sq_policy_epoch request \<noteq> 0 \<and>
     es_logical_boundary (sq_exact_session request) = of_nat (es_token_count (sq_exact_session request)) \<and>
     es_output_boundary (sq_exact_session request) = of_nat (es_token_count (sq_exact_session request)) \<and>
     profile_is_admitted (sq_profile request) \<and> es_world_size (sq_exact_session request) = 1 \<and>
     es_rank (sq_exact_session request) = 0 \<and> session_ok (sq_exact_session request) \<and>
     validate_boundaries request \<and> sq_candidate_boundary_count request \<noteq> 0"

lemma candidates_valid:
  assumes "wf_request request" "searchable request"
  shows "sorted_wrt (<) (candidates request)" "\<forall>b \<in> set (candidates request). 0 < b \<and> b \<le> es_token_count (sq_exact_session request)"
    "candidates request = map (nth (the (sq_candidate_boundaries request))) [0..<sq_candidate_boundary_count request]"
proof -
  obtain bs where bs: "sq_candidate_boundaries request = Some bs" "sq_candidate_boundary_count request \<le> length bs"
    "increasing_boundaries (es_token_count (sq_exact_session request)) 0 (take (sq_candidate_boundary_count request) bs)"
    using assms by (auto simp: wf_request_def searchable_def validate_boundaries_def split: if_splits)
  then show "sorted_wrt (<) (candidates request)"
    "\<forall>b \<in> set (candidates request). 0 < b \<and> b \<le> es_token_count (sq_exact_session request)"
    by (simp_all add: candidates_def increasing_boundaries_bounds)
  show "candidates request = map (nth (the (sq_candidate_boundaries request))) [0..<sq_candidate_boundary_count request]"
    using bs(1,2) by (intro nth_equalityI) (auto simp: candidates_def)
qed

lemma candidates_resolve:
  assumes "wf_request request" "searchable request"
  shows "\<forall>i < sq_candidate_boundary_count request. session_resolved (context_store_resolve_exact_session_v1
      (prefix_session (sq_exact_session request) (the (sq_candidate_boundaries request) ! i)))"
proof (intro allI impI)
  fix i assume i: "i < sq_candidate_boundary_count request"
  let ?b = "the (sq_candidate_boundaries request) ! i"
  have "?b \<in> set (candidates request)"
    using i candidates_valid(3) [OF assms] by auto
  then have "wf_session (prefix_session (sq_exact_session request) ?b) \<and> session_ok (prefix_session (sq_exact_session request) ?b)"
    using candidates_valid(2) [OF assms] assms by (intro prefix_session_ok) (auto simp: wf_request_def searchable_def)
  then show "session_resolved (context_store_resolve_exact_session_v1 (prefix_session (sq_exact_session request) ?b))"
    using resolve_session_ok by (simp add: session_resolved_def)
qed

text \<open>A guard of the selector: a rejected request, or what follows.\<close>

lemma session_resolved_iff: "wf_session x \<Longrightarrow> session_resolved (context_store_resolve_exact_session_v1 x) \<longleftrightarrow> session_ok x"
  using resolve_session_ok resolve_session_rejects by (auto simp: session_resolved_def)

lemma select_not_searchable:
  assumes "wf_request request" "\<not> searchable request"
  shows "\<exists>r. select_prefix catalog request s = (r, s) \<and> ss_status r \<noteq> sel_hit \<and> cold request r"
proof -
  let ?P = "\<lambda>x. \<exists>r. x = (r, s) \<and> ss_status r \<noteq> sel_hit \<and> cold request r"
  have wf: "wf_session (sq_exact_session request)" using assms(1) by (simp add: wf_request_def)
  have ite: "(b \<Longrightarrow> ?P x) \<Longrightarrow> (\<not> b \<Longrightarrow> ?P y) \<Longrightarrow> ?P (if b then x else y)" for b x y by simp
  show ?thesis
    unfolding select_prefix_def Let_def session_resolved_iff [OF wf]
    by (intro ite; use assms(2) in \<open>auto simp: searchable_def reject_request_def cold_def empty_selector_result_def session_ok_def
      profile_is_admitted_def\<close>)
qed

lemma select_searchable:
  assumes "wf_request request" "searchable request"
  shows "select_prefix catalog request s = select_loop catalog request (sq_candidate_boundary_count request)
    (empty_selector_result\<lparr>ss_residual_token_count := es_token_count (sq_exact_session request),
       ss_authority_status := er_status (context_store_resolve_exact_session_v1 (sq_exact_session request))\<rparr>) s"
proof -
  have wf: "wf_session (sq_exact_session request)" using assms(1) by (simp add: wf_request_def)
  have p: "ucast (tp_world_size (sq_profile request)) = es_world_size (sq_exact_session request)"
    "ucast (tp_rank (sq_profile request)) = es_rank (sq_exact_session request)"
    "es_profile (sq_exact_session request) = target_only_greedy_memoryless"
    using assms(2) by (simp_all add: searchable_def profile_is_admitted_def session_ok_def)
  show ?thesis
    using assms(2) p unfolding select_prefix_def Let_def session_resolved_iff [OF wf] searchable_def by simp
qed

lemma search_outcome_timed:
  "search_outcome request bs probes (r\<lparr>ss_validation_time_ns := v\<rparr>) \<longleftrightarrow> search_outcome request bs probes r"
proof -
  have "cold request (r\<lparr>ss_validation_time_ns := v\<rparr>) = cold request r"
    "warm request b x (r\<lparr>ss_validation_time_ns := v\<rparr>) = warm request b x r" for b x
    by (simp_all add: cold_def warm_def)
  then show ?thesis by (simp add: search_outcome_def)
qed

lemma restore_prefix_outcome:
  assumes "wf_request request"
    "context_store_v1_restore_longest_prefix (observe catalog) request elapsed (s, []) = (r, (t, log))"
  shows "if searchable request then search_outcome request (rev (candidates request)) log r
    else log = [] \<and> \<not> selector_hit r \<and> cold request r"
proof -
  obtain r' where r': "select_prefix (observe catalog) request (s, []) = (r', (t, log))"
    "r = r'\<lparr>ss_validation_time_ns := (if elapsed \<le> 0 then 0 else of_int elapsed)\<rparr>"
    using assms(2) by (auto simp: context_store_v1_restore_longest_prefix_def split: prod.splits)
  show ?thesis
  proof (cases "searchable request")
    case True
    let ?result = "empty_selector_result\<lparr>ss_residual_token_count := es_token_count (sq_exact_session request),
       ss_authority_status := er_status (context_store_resolve_exact_session_v1 (sq_exact_session request))\<rparr>"
    have start: "cold request ?result" by (simp add: cold_def empty_selector_result_def)
    have loop: "select_loop (observe catalog) request (sq_candidate_boundary_count request) ?result (s, []) = (r', (t, log))"
      using r'(1) by (simp add: select_searchable [OF assms(1) True])
    from select_loop_outcome [OF candidates_resolve [OF assms(1) True] start loop] obtain probes where "log = [] @ probes"
      "search_outcome request (rev (map (nth (the (sq_candidate_boundaries request))) [0..<sq_candidate_boundary_count request])) probes r'"
      by blast
    then have "search_outcome request (rev (candidates request)) log r'"
      by (simp add: candidates_valid(3) [OF assms(1) True])
    then show ?thesis using True r'(2) by (simp add: search_outcome_timed)
  next
    case False
    then show ?thesis
      using select_not_searchable [OF assms(1) False, of "observe catalog" "(s, [])"] r'
      by (auto simp: selector_hit_def cold_def)
  qed
qed

lemma select_loop_finds:
  assumes "\<forall>i < k. session_resolved (context_store_resolve_exact_session_v1
      (prefix_session (sq_exact_session request) (the (sq_candidate_boundaries request) ! i)))"
    "j < k"
    "\<forall>i < k. j < i \<longrightarrow> (\<forall>w. \<exists>q u. catalog (es_tokens (sq_exact_session request)) (the (sq_candidate_boundaries request) ! i)
        (prefix_identity request (the (sq_candidate_boundaries request) ! i)) (sq_profile request) w = (q, u) \<and>
        skipped (the (sq_candidate_boundaries request) ! i, prefix_identity request (the (sq_candidate_boundaries request) ! i), q))"
    "\<forall>w. \<exists>q u. catalog (es_tokens (sq_exact_session request)) (the (sq_candidate_boundaries request) ! j)
        (prefix_identity request (the (sq_candidate_boundaries request) ! j)) (sq_profile request) w = (q, u) \<and>
        cs_status q = cat_hit \<and> snapshot_is_prefix request (the (sq_candidate_boundaries request) ! j)
          (prefix_identity request (the (sq_candidate_boundaries request) ! j)) (cs_snapshot q)"
  shows "ss_status (fst (select_loop catalog request k result s)) = sel_hit \<and>
    ss_matched_token_count (fst (select_loop catalog request k result s)) = the (sq_candidate_boundaries request) ! j"
  using assms
proof (induction k arbitrary: result s)
  case (Suc k)
  let ?b = "the (sq_candidate_boundaries request) ! k"
  have res: "session_resolved (context_store_resolve_exact_session_v1 (prefix_session (sq_exact_session request) ?b))"
    using Suc.prems(1) by simp
  show ?case
  proof (cases "j = k")
    case True
    obtain q u where "catalog (es_tokens (sq_exact_session request)) ?b (prefix_identity request ?b) (sq_profile request) s = (q, u)"
      "cs_status q = cat_hit" "snapshot_is_prefix request ?b (prefix_identity request ?b) (cs_snapshot q)"
      using Suc.prems(4) True by blast
    then show ?thesis using res True by (simp add: Let_def prefix_identity_def)
  next
    case False
    then have "j < k" using Suc.prems(2) by simp
    obtain q u where q: "catalog (es_tokens (sq_exact_session request)) ?b (prefix_identity request ?b) (sq_profile request) s = (q, u)"
      "skipped (?b, prefix_identity request ?b, q)"
      using Suc.prems(3) \<open>j < k\<close> by blast
    have step: "select_loop catalog request (Suc k) result s = select_loop catalog request k
        (result\<lparr>ss_candidates_examined := ss_candidates_examined result + 1,
           ss_authority_status := er_status (context_store_resolve_exact_session_v1 (prefix_session (sq_exact_session request) ?b)),
           ss_last_catalog_status := cs_status q\<rparr>) u"
      using q res by (simp add: Let_def prefix_identity_def skipped_def)
    show ?thesis
      unfolding step using Suc.prems(1,3) \<open>j < k\<close> by (intro Suc.IH Suc.prems(4)) auto
  qed
qed simp

definition answers :: "'s catalog \<Rightarrow> selector_request \<Rightarrow> nat \<Rightarrow> (catalog_restore_result \<Rightarrow> bool) \<Rightarrow> bool" where
  "answers catalog request b P \<longleftrightarrow> (\<forall>w. \<exists>q u. catalog (es_tokens (sq_exact_session request)) b (prefix_identity request b)
     (sq_profile request) w = (q, u) \<and> P q)"

lemma restore_prefix_finds:
  assumes "wf_request request" "searchable request" "b \<in> set (candidates request)"
    "\<forall>c \<in> set (candidates request). b < c \<longrightarrow> answers catalog request c (\<lambda>q. skipped (c, prefix_identity request c, q))"
    "answers catalog request b (\<lambda>q. cs_status q = cat_hit \<and>
       snapshot_is_prefix request b (prefix_identity request b) (cs_snapshot q))"
  shows "selector_hit (fst (context_store_v1_restore_longest_prefix catalog request elapsed s)) \<and>
    ss_matched_token_count (fst (context_store_v1_restore_longest_prefix catalog request elapsed s)) = b"
proof -
  let ?bs = "the (sq_candidate_boundaries request)" and ?n = "sq_candidate_boundary_count request"
  note cand = candidates_valid [OF assms(1,2)]
  have nth: "?bs ! i = candidates request ! i" if "i < ?n" for i
    using that by (simp add: cand(3))
  have len: "length (candidates request) = ?n" by (simp add: cand(3))
  obtain j where j: "j < ?n" "candidates request ! j = b" using assms(3) len by (metis in_set_conv_nth)
  have later: "\<forall>i < ?n. j < i \<longrightarrow> b < candidates request ! i \<and> candidates request ! i \<in> set (candidates request)"
    using cand(1) j len by (auto simp: sorted_wrt_iff_nth_less)
  let ?run = "\<lambda>r. select_loop catalog request ?n r s"
  have "ss_status (fst (?run r)) = sel_hit \<and> ss_matched_token_count (fst (?run r)) = ?bs ! j" for r
    using candidates_resolve [OF assms(1,2)] j later assms(4,5)
    by (intro select_loop_finds) (auto simp: nth answers_def)
  then show ?thesis
    using j nth [OF j(1)]
    by (simp add: context_store_v1_restore_longest_prefix_def select_searchable [OF assms(1,2)] selector_hit_def split_beta)
qed

text \<open>
  Prefix search. For every catalogue and request: an inadmissible request reaches no
  catalogue call and is a cold miss; otherwise the candidates are probed from the longest down,
  each under the identity of exactly that prefix, until one is not definitely absent. That one
  alone decides: a verified hit warms the caller, anything else (corrupt, busy,
  incompatible, a snapshot that is not the prefix) is a cold result that is not reported as a
  plain miss.
\<close>
theorem prefix_search_exact:
  assumes "wf_request request"
  shows "case context_store_v1_restore_longest_prefix (observe catalog) request elapsed (s, []) of (r, (t, log)) \<Rightarrow>
    if searchable request then search_outcome request (rev (candidates request)) log r
    else log = [] \<and> \<not> selector_hit r \<and> cold request r"
proof -
  obtain r t log where run:
    "context_store_v1_restore_longest_prefix (observe catalog) request elapsed (s, []) = (r, (t, log))"
    by (metis surj_pair)
  show ?thesis using restore_prefix_outcome [OF assms run] by (simp add: run)
qed

definition sample_prefix_request :: selector_request where
  "sample_prefix_request = \<lparr>sq_exact_session = sample_session\<lparr>es_output_boundary := 2, es_world_size := 1, es_rank := 0\<rparr>,
     sq_candidate_boundaries = Some [1, 2], sq_candidate_boundary_count = 2, sq_policy_epoch = 1, sq_profile = sample_profile\<rparr>"

lemma sample_prefix_request_ok: "wf_request sample_prefix_request" "searchable sample_prefix_request"
proof -
  have "session_ok (sq_exact_session sample_prefix_request)"
    by (simp add: sample_prefix_request_def sample_session_def session_ok_def nonzero_key_def nonzero_iff exact_session_key_bytes_def
      exact_session_max_tokens_def manifest_max_ranks_def)
  then show "searchable sample_prefix_request"
    by (simp add: searchable_def sample_admitted) (simp add: sample_prefix_request_def sample_session_def validate_boundaries_def
      selector_max_boundaries_def sample_admitted)
  show "wf_request sample_prefix_request"
    using sample_session_ok(1) by (simp add: wf_request_def sample_prefix_request_def wf_session_def sample_session_def)
qed

text \<open>A catalogue that holds the checkpoint of length one of the sample request.\<close>

definition sample_reply :: "nat \<Rightarrow> identity \<Rightarrow> transformer_profile \<Rightarrow> catalog_restore_result" where
  "sample_reply b i p =
     (if b = 1 then \<lparr>cs_status = cat_hit, cs_snapshot = \<lparr>ts_identity = i, ts_profile = p, ts_tokens = [5], ts_state = [9]\<rparr>,
                     cs_authenticated_record_selected = True\<rparr>
      else \<lparr>cs_status = cat_miss_not_found, cs_snapshot = empty_snapshot, cs_authenticated_record_selected = False\<rparr>)"

definition sample_catalog :: "unit catalog" where
  "sample_catalog tokens b i p s = (sample_reply b i p, s)"

definition replies_sample :: "'s catalog \<Rightarrow> bool" where
  "replies_sample catalog \<longleftrightarrow> (\<forall>tokens b i p w. fst (catalog tokens b i p w) = sample_reply b i p)"

lemma sample_finds:
  "1 \<in> set (candidates sample_prefix_request)"
  "replies_sample catalog \<Longrightarrow> \<forall>c \<in> set (candidates sample_prefix_request). 1 < c \<longrightarrow>
     answers catalog sample_prefix_request c (\<lambda>q. skipped (c, prefix_identity sample_prefix_request c, q))"
  "replies_sample catalog \<Longrightarrow> answers catalog sample_prefix_request 1 (\<lambda>q. cs_status q = cat_hit \<and>
     snapshot_is_prefix sample_prefix_request 1 (prefix_identity sample_prefix_request 1) (cs_snapshot q))"
proof -
  have cand: "candidates sample_prefix_request = [1, 2]" by (simp add: candidates_def sample_prefix_request_def)
  then show "1 \<in> set (candidates sample_prefix_request)" by simp
  assume "replies_sample catalog"
  then have reply: "\<exists>u. catalog tokens b i p w = (sample_reply b i p, u)" for tokens b i p w
    unfolding replies_sample_def by (metis surj_pair fst_conv)
  show "\<forall>c \<in> set (candidates sample_prefix_request). 1 < c \<longrightarrow>
     answers catalog sample_prefix_request c (\<lambda>q. skipped (c, prefix_identity sample_prefix_request c, q))"
  proof -
    have "\<exists>q u. catalog tokens 2 i p w = (q, u) \<and> skipped (2, j, q)" for tokens i p w j
      using reply [of tokens 2 i p w] by (auto simp: skipped_def sample_reply_def)
    then show ?thesis by (simp add: cand answers_def)
  qed
  show "answers catalog sample_prefix_request 1 (\<lambda>q. cs_status q = cat_hit \<and>
       snapshot_is_prefix sample_prefix_request 1 (prefix_identity sample_prefix_request 1) (cs_snapshot q))"
    unfolding answers_def
  proof
    fix w
    obtain u where "catalog (es_tokens (sq_exact_session sample_prefix_request)) 1 (prefix_identity sample_prefix_request 1)
        (sq_profile sample_prefix_request) w = (sample_reply 1 (prefix_identity sample_prefix_request 1) (sq_profile sample_prefix_request), u)"
      using reply by blast
    then show "\<exists>q u. catalog (es_tokens (sq_exact_session sample_prefix_request)) 1 (prefix_identity sample_prefix_request 1)
        (sq_profile sample_prefix_request) w = (q, u) \<and> cs_status q = cat_hit \<and>
        snapshot_is_prefix sample_prefix_request 1 (prefix_identity sample_prefix_request 1) (cs_snapshot q)"
      by (simp add: sample_reply_def snapshot_is_prefix_def) (simp add: sample_prefix_request_def sample_session_def)
  qed
qed

lemma sample_plain: "replies_sample sample_catalog"
  by (simp add: replies_sample_def sample_catalog_def)

lemma sample_observed: "replies_sample (observe sample_catalog)"
  by (simp add: replies_sample_def observe_def sample_catalog_def)

theorem prefix_search_exact_witness:
  "case context_store_v1_restore_longest_prefix (observe sample_catalog) sample_prefix_request 0 ((), []) of (r, (t, log)) \<Rightarrow>
     search_outcome sample_prefix_request [2, 1] log r"
proof -
  have "rev (candidates sample_prefix_request) = [2, 1]" by (simp add: candidates_def sample_prefix_request_def)
  then show ?thesis
    using prefix_search_exact [OF sample_prefix_request_ok(1), of sample_catalog 0 "()"] sample_prefix_request_ok(2) by (simp add: split_beta)
qed

text \<open>
  C6: A hit is the longest exact prefix. The returned snapshot has exactly the first tokens of
  the request up to a candidate boundary, the profile of the request and the identity derived
  from that prefix, the residual is the rest of the tokens, and the catalogue definitely
  denied every longer candidate.
\<close>
theorem prefix_hit_longest:
  assumes "wf_request request"
    and "context_store_v1_restore_longest_prefix (observe catalog) request elapsed (s, []) = (r, (t, log))"
    and "selector_hit r"
  shows "\<exists>b \<in> set (candidates request).
    ts_tokens (ss_snapshot r) = take b (the (es_tokens (sq_exact_session request))) \<and>
    ts_identity (ss_snapshot r) = prefix_identity request b \<and> ts_profile (ss_snapshot r) = sq_profile request \<and>
    ss_matched_token_count r = b \<and> ss_residual_token_offset r = b \<and>
    ss_residual_token_count r + b = es_token_count (sq_exact_session request) \<and>
    (\<forall>c \<in> set (candidates request). b < c \<longrightarrow> (\<exists>e \<in> set log. fst e = c \<and> skipped e))"
proof -
  have searchable: "searchable request" and outcome: "search_outcome request (rev (candidates request)) log r"
    using restore_prefix_outcome [OF assms(1,2)] assms(3) by (simp_all split: if_splits)
  then have some: "\<not> list_all skipped log"
    using assms(3) by (auto simp: search_outcome_def selector_hit_def)
  then have "log \<noteq> []" by auto
  then obtain init b i reply where log: "log = init @ [(b, i, reply)]"
    by (metis append_butlast_last_id prod_cases3)
  have i: "i = prefix_identity request b" and init: "list_all skipped init"
    and hit: "snapshot_is_prefix request b i (cs_snapshot reply)" "warm request b (cs_snapshot reply) r"
    and probed: "map fst init @ [b] = take (length log) (rev (candidates request))"
    using outcome some assms(3) by (auto simp: log search_outcome_def selector_hit_def split: if_splits)
  obtain rest where split: "rev (candidates request) = map fst init @ b # rest"
    using probed append_take_drop_id [of "length log" "rev (candidates request)"] by (metis append.assoc append_Cons append_Nil)
  have "b \<in> set (rev (candidates request))" unfolding split by simp
  then have b: "b \<in> set (candidates request)" by simp
  have longer: "\<exists>e \<in> set log. fst e = c \<and> skipped e" if "c \<in> set (candidates request)" "b < c" for c
  proof -
    have "sorted_wrt (>) (map fst init @ b # rest)"
      using candidates_valid(1) [OF assms(1) searchable] by (simp add: sorted_wrt_rev flip: split)
    then have "\<forall>d \<in> set rest. d < b" by (simp add: sorted_wrt_append)
    moreover have "c \<in> set (map fst init @ b # rest)" using that(1) by (simp flip: split)
    ultimately have "c \<in> fst ` set init" using that(2) by auto
    then show ?thesis using init by (auto simp: log list_all_iff)
  qed
  have "b \<le> es_token_count (sq_exact_session request)" using candidates_valid(2) [OF assms(1) searchable] b by blast
  then show ?thesis
    using b longer hit by (intro bexI [of _ b]) (auto simp: warm_def snapshot_is_prefix_def i)
qed

theorem prefix_hit_longest_witness:
  "\<exists>r t log. context_store_v1_restore_longest_prefix (observe sample_catalog) sample_prefix_request 0 ((), []) = (r, (t, log)) \<and>
     selector_hit r \<and> length (ts_tokens (ss_snapshot r)) \<in> {1, 2}"
proof -
  obtain r t log where run:
    "context_store_v1_restore_longest_prefix (observe sample_catalog) sample_prefix_request 0 ((), []) = (r, (t, log))"
    by (metis surj_pair)
  have cand: "candidates sample_prefix_request = [1, 2]" by (simp add: candidates_def sample_prefix_request_def)
  have toks: "the (es_tokens (sq_exact_session sample_prefix_request)) = [5, 6, 7]"
    by (simp add: sample_prefix_request_def sample_session_def)
  have "selector_hit r"
    using restore_prefix_finds [OF sample_prefix_request_ok sample_finds(1) sample_finds(2,3) [OF sample_observed], of 0 "((), [])"] run
    by simp
  then show ?thesis
    using prefix_hit_longest [OF sample_prefix_request_ok(1) run] run by (auto simp: cand toks)
qed

text \<open>
  Completeness. If, whatever its state, the catalogue returns the exact checkpoint for a
  candidate boundary and definitely denies every longer candidate, then the selector hits and
  matches exactly that boundary.
\<close>
theorem prefix_found:
  assumes "wf_request request" and "searchable request" and "b \<in> set (candidates request)"
    and "\<forall>c \<in> set (candidates request). b < c \<longrightarrow> answers catalog request c (\<lambda>q. skipped (c, prefix_identity request c, q))"
    and "answers catalog request b (\<lambda>q. cs_status q = cat_hit \<and>
       snapshot_is_prefix request b (prefix_identity request b) (cs_snapshot q))"
  shows "selector_hit (fst (context_store_v1_restore_longest_prefix catalog request elapsed s)) \<and>
    ss_matched_token_count (fst (context_store_v1_restore_longest_prefix catalog request elapsed s)) = b"
  by (rule restore_prefix_finds [OF assms])

theorem prefix_found_witness:
  "ss_matched_token_count (fst (context_store_v1_restore_longest_prefix sample_catalog sample_prefix_request 0 ())) = 1"
  using prefix_found [OF sample_prefix_request_ok sample_finds(1) sample_finds(2,3) [OF sample_plain], of 0 "()"] by blast

end
