(* ===== verification/Read_Only.thy ===== *)
theory Read_Only
  imports Object Provider
begin

text \<open>
  \<^verbatim>\<open>halofpx-context-store-v1-read-only.{h,cpp}\<close>: the memory-only provider over one manifest and its
  frames. Construction copies a borrowed source after checking it; a lookup verifies the
  manifest, compares the requested identity, the admitted metadata and the admitted object
  references, verifies every frame and copies the payloads. The arrays of a source are a
  list, or \<^verbatim>\<open>None\<close> for a null pointer, with their count. Whether the two allocations of a lookup
  succeed is a parameter, since a failed one is caught and reported.
  Shown: a lookup is a hit exactly when the manifest is authenticated for the policy,
  matches the request and the admission, and every frame is the canonical frame of a payload;
  the candidate then carries exactly those payloads.
\<close>

subsection \<open>Data\<close>

record read_only_source =
  rs_manifest :: byte_span
  rs_policy :: manifest_verification_policy
  rs_admission_manifest :: authenticated_manifest_metadata
  rs_admission_objects :: "object_reference list option"
  rs_admission_object_count :: nat
  rs_frames :: "byte_span list option"
  rs_frame_count :: nat
  rs_object_limits :: object_limits
  rs_max_total_frame_bytes :: u64

record read_only_provider =
  ro_manifest :: "byte list"
  ro_master_key :: "byte list"
  ro_policy :: manifest_verification_policy
  ro_admission_metadata :: authenticated_manifest_metadata
  ro_admission_objects :: "object_reference list"
  ro_frames :: "byte list list"
  ro_limits :: object_limits
  ro_max_total_frame_bytes :: u64

text \<open>A verified range of a frame, and the candidate with its own copy of the payloads.\<close>

record verified_payload =
  vp_offset :: nat
  vp_size :: nat

record read_only_candidate =
  rc_identity :: identity
  rc_metadata :: authenticated_manifest_metadata
  rc_manifest_digest :: digest
  rc_descriptors :: "object_reference list"
  rc_payloads :: "byte list list"

subsection \<open>Comparisons\<close>

definition wipe_bytes :: "byte list \<Rightarrow> byte list" where
  "wipe_bytes value = map (\<lambda>_. 0) value"

definition stored_id_equal :: "registered_id \<Rightarrow> registered_id \<Rightarrow> bool" where
  "stored_id_equal left right =
     (if length left \<noteq> length right then False else list_all (\<lambda>(l, r). l = r) (zip left right))"

definition object_reference_equal :: "object_reference \<Rightarrow> object_reference \<Rightarrow> bool" where
  "object_reference_equal left right \<longleftrightarrow>
     or_object_id left = or_object_id right \<and>
     stored_id_equal (or_stream_type left) (or_stream_type right) \<and>
     stored_id_equal (or_codec_id left) (or_codec_id right) \<and>
     or_codec_schema_major left = or_codec_schema_major right \<and>
     or_codec_schema_minor left = or_codec_schema_minor right \<and>
     or_required left = or_required right \<and>
     or_frame_bytes left = or_frame_bytes right \<and>
     or_token_sequence_digest left = or_token_sequence_digest right \<and>
     or_logical_position left = or_logical_position right \<and>
     or_output_boundary left = or_output_boundary right \<and>
     or_has_logical_rank left = or_has_logical_rank right \<and>
     or_logical_rank left = or_logical_rank right \<and>
     or_rank_ownership_digest left = or_rank_ownership_digest right \<and>
     or_compatibility_root left = or_compatibility_root right"

text \<open>The rank arrays hold their used prefix, so the rank count is their length.\<close>

definition rank_count :: "authenticated_manifest_metadata \<Rightarrow> nat" where
  "rank_count m = length (am_rank_ownership m)"

definition metadata_equal :: "authenticated_manifest_metadata \<Rightarrow> authenticated_manifest_metadata \<Rightarrow> bool" where
  "metadata_equal left right =
     (if am_store_uuid left \<noteq> am_store_uuid right \<or>
         am_checkpoint_lineage_id left \<noteq> am_checkpoint_lineage_id right \<or>
         am_generation left \<noteq> am_generation right \<or>
         am_has_predecessor left \<noteq> am_has_predecessor right \<or>
         am_predecessor_manifest_digest left \<noteq> am_predecessor_manifest_digest right \<or>
         am_compatibility_components left \<noteq> am_compatibility_components right \<or>
         am_compatibility_root left \<noteq> am_compatibility_root right \<or>
         am_scope_namespace left \<noteq> am_scope_namespace right \<or>
         am_policy_epoch left \<noteq> am_policy_epoch right \<or>
         \<not> stored_id_equal (am_topology_plan_schema_id left) (am_topology_plan_schema_id right) \<or>
         \<not> stored_id_equal (am_topology_execution_mode left) (am_topology_execution_mode right) \<or>
         am_world_size left \<noteq> am_world_size right \<or>
         am_global_plan_digest left \<noteq> am_global_plan_digest right \<or>
         am_topology_epoch left \<noteq> am_topology_epoch right \<or>
         rank_count left \<noteq> rank_count right \<or>
         \<not> stored_id_equal (am_state_profile_id left) (am_state_profile_id right) \<or>
         am_producer_identity left \<noteq> am_producer_identity right \<or>
         am_durability_mode left \<noteq> am_durability_mode right \<or>
         rank_count left > manifest_max_ranks
      then False
      else list_all (\<lambda>index. \<not> (am_rank_ownership left ! index \<noteq> am_rank_ownership right ! index \<or>
                                am_rank_placements left ! index \<noteq> am_rank_placements right ! index))
             [0..<rank_count left])"

fun authentication_miss :: "manifest_verify_status \<Rightarrow> lookup_status" where
  "authentication_miss authenticated_unadmitted = miss_incomplete"
| "authentication_miss unknown_key = miss_unauthorized"
| "authentication_miss revoked_key = miss_unauthorized"
| "authentication_miss read_disabled_key = miss_unauthorized"
| "authentication_miss key_generation_mismatch = miss_unauthorized"
| "authentication_miss authority_mismatch = miss_replay"
| "authentication_miss replay_mismatch = miss_replay"
| "authentication_miss compatibility_corrupt = miss_incompatible"
| "authentication_miss compatibility_mismatch = miss_incompatible"
| "authentication_miss structural_rejection = miss_corrupt"
| "authentication_miss invalid_policy = miss_corrupt"
| "authentication_miss authentication_failed = miss_corrupt"

fun object_miss :: "object_verify_status \<Rightarrow> lookup_status" where
  "object_miss object_verified_unadmitted = miss_incomplete"
| "object_miss object_index_out_of_range = miss_incomplete"
| "object_miss object_verify_status.input_empty = miss_incomplete"
| "object_miss object_verify_status.truncated = miss_incomplete"
| "object_miss invalid_limits = miss_unsupported"
| "object_miss frame_limit_exceeded = miss_unsupported"
| "object_miss payload_limit_exceeded = miss_unsupported"
| "object_miss manifest_unadmitted = miss_corrupt"
| "object_miss wrong_magic = miss_corrupt"
| "object_miss wrong_domain = miss_corrupt"
| "object_miss invalid_stream_type = miss_corrupt"
| "object_miss payload_length_invalid = miss_corrupt"
| "object_miss object_verify_status.trailing_data = miss_corrupt"
| "object_miss descriptor_mismatch = miss_corrupt"
| "object_miss object_digest_mismatch = miss_corrupt"

subsection \<open>The candidate\<close>

definition make_candidate ::
    "authenticated_manifest_metadata \<Rightarrow> digest \<Rightarrow> object_reference list \<Rightarrow> byte list list \<Rightarrow> verified_payload list
      \<Rightarrow> read_only_candidate" where
  "make_candidate metadata manifest_digest descriptors frames payloads = \<lparr>
     rc_identity = \<lparr>id_compatibility_root = am_compatibility_root metadata,
       id_scope_namespace = am_scope_namespace metadata,
       id_checkpoint_lineage_id = am_checkpoint_lineage_id metadata,
       id_policy_epoch = am_policy_epoch metadata\<rparr>,
     rc_metadata = metadata, rc_manifest_digest = manifest_digest, rc_descriptors = descriptors,
     rc_payloads = map (\<lambda>index. let view = payloads ! index in
                          take (vp_size view) (drop (vp_offset view) (frames ! index))) [0..<length payloads]\<rparr>"

definition candidate_object_count :: "read_only_candidate \<Rightarrow> nat" where
  "candidate_object_count c = length (rc_descriptors c)"

definition candidate_descriptor :: "read_only_candidate \<Rightarrow> nat \<Rightarrow> object_reference option" where
  "candidate_descriptor c index =
     (if index < length (rc_descriptors c) then Some (rc_descriptors c ! index) else None)"

definition candidate_payload :: "read_only_candidate \<Rightarrow> nat \<Rightarrow> byte_span" where
  "candidate_payload c index =
     (if index \<ge> length (rc_payloads c) then NullSpan 0 else Span (rc_payloads c ! index))"

definition candidate_generation :: "read_only_candidate \<Rightarrow> u64" where
  "candidate_generation c = am_generation (rc_metadata c)"
definition candidate_state_profile_id :: "read_only_candidate \<Rightarrow> registered_id" where
  "candidate_state_profile_id c = am_state_profile_id (rc_metadata c)"
definition candidate_world_size :: "read_only_candidate \<Rightarrow> u64" where
  "candidate_world_size c = am_world_size (rc_metadata c)"
definition candidate_topology_epoch :: "read_only_candidate \<Rightarrow> u64" where
  "candidate_topology_epoch c = am_topology_epoch (rc_metadata c)"
definition candidate_producer_identity :: "read_only_candidate \<Rightarrow> digest" where
  "candidate_producer_identity c = am_producer_identity (rc_metadata c)"
definition candidate_durability_mode :: "read_only_candidate \<Rightarrow> byte" where
  "candidate_durability_mode c = am_durability_mode (rc_metadata c)"

lemmas candidate_defs = candidate_object_count_def candidate_descriptor_def candidate_payload_def
  candidate_generation_def candidate_state_profile_id_def candidate_world_size_def candidate_topology_epoch_def
  candidate_producer_identity_def candidate_durability_mode_def

subsection \<open>Construction\<close>

fun frames_within :: "u64 \<Rightarrow> u64 \<Rightarrow> byte_span list \<Rightarrow> bool" where
  "frames_within max_total total_bytes [] = True"
| "frames_within max_total total_bytes (frame # frames) =
     (if span_null frame \<or> span_size frame = 0 \<or> span_size frame > unat (max_total - total_bytes) then False
      else frames_within max_total (total_bytes + of_nat (span_size frame)) frames)"

definition source_frames :: "read_only_source \<Rightarrow> byte_span list" where
  "source_frames source = take (rs_frame_count source) (the (rs_frames source))"

definition valid_source :: "read_only_source \<Rightarrow> bool" where
  "valid_source source =
     (let key = mk_master_key (vp_key (rs_policy source)) in
      if span_null (rs_manifest source) \<or> span_size (rs_manifest source) = 0 \<or>
         span_size (rs_manifest source) > manifest_max_bytes \<or>
         span_null key \<or> span_size key = 0 \<or> span_size key > master_key_max_bytes \<or>
         rs_frames source = None \<or> rs_frame_count source = 0 \<or> rs_frame_count source > manifest_max_objects \<or>
         rs_admission_objects source = None \<or> rs_admission_object_count source = 0 \<or>
         rs_admission_object_count source \<noteq> rs_frame_count source \<or>
         ol_max_frame_bytes (rs_object_limits source) = 0 \<or> ol_max_payload_bytes (rs_object_limits source) = 0 \<or>
         rs_max_total_frame_bytes source = 0
      then False
      else frames_within (rs_max_total_frame_bytes source) 0 (source_frames source))"

definition v1_read_only_provider :: "read_only_source \<Rightarrow> read_only_provider" where
  "v1_read_only_provider source =
     (let master_key = span_bytes (mk_master_key (vp_key (rs_policy source))) in
      \<lparr>ro_manifest = span_bytes (rs_manifest source), ro_master_key = master_key,
       ro_policy = (rs_policy source)\<lparr>vp_key := (vp_key (rs_policy source))\<lparr>mk_master_key := Span master_key\<rparr>\<rparr>,
       ro_admission_metadata = rs_admission_manifest source,
       ro_admission_objects = take (rs_admission_object_count source) (the (rs_admission_objects source)),
       ro_frames = map span_bytes (source_frames source),
       ro_limits = rs_object_limits source,
       ro_max_total_frame_bytes = rs_max_total_frame_bytes source\<rparr>)"

text \<open>
  The factory throws \<^verbatim>\<open>std::invalid_argument\<close> on an invalid source, here \<^verbatim>\<open>None\<close>; the destructor
  overwrites the key, which the stored policy borrows.
\<close>

definition make_read_only_provider :: "read_only_source \<Rightarrow> read_only_provider option" where
  "make_read_only_provider source =
     (if \<not> valid_source source then None else Some (v1_read_only_provider source))"

definition destroy_read_only_provider :: "read_only_provider \<Rightarrow> read_only_provider" where
  "destroy_read_only_provider p =
     p\<lparr>ro_master_key := wipe_bytes (ro_master_key p),
       ro_policy := (ro_policy p)\<lparr>vp_key := (vp_key (ro_policy p))\<lparr>mk_master_key := Span (wipe_bytes (ro_master_key p))\<rparr>\<rparr>\<rparr>"

subsection \<open>Lookup\<close>

record lookup_allocator =
  la_reserve :: bool
  la_candidate :: bool

fun verify_objects ::
    "read_only_provider \<Rightarrow> manifest_verify_result \<Rightarrow> nat list \<Rightarrow> u64 \<Rightarrow> object_reference list \<Rightarrow> verified_payload list
      \<Rightarrow> lookup_status + (object_reference list \<times> verified_payload list)" where
  "verify_objects p verified [] aggregate_frame_bytes descriptors payloads = Inr (descriptors, payloads)"
| "verify_objects p verified (index # rest) aggregate_frame_bytes descriptors payloads =
     (case authenticated_object_reference verified index of
        None \<Rightarrow> Inl miss_unsupported
      | Some descriptor \<Rightarrow>
        if \<not> object_reference_equal descriptor (ro_admission_objects p ! index) then Inl miss_unsupported
        else if length (ro_frames p ! index) > unat (ro_max_total_frame_bytes p - aggregate_frame_bytes)
        then Inl miss_unsupported
        else let object = context_store_verify_object_frame_v1 (Span (ro_frames p ! index)) (ro_limits p) verified index in
          if ov_status object \<noteq> object_verified_unadmitted then Inl (object_miss (ov_status object))
          else verify_objects p verified rest (aggregate_frame_bytes + of_nat (length (ro_frames p ! index)))
                 (descriptors @ [descriptor])
                 (payloads @ [\<lparr>vp_offset = ov_payload_offset object, vp_size = ov_payload_size object\<rparr>]))"

definition read_only_lookup ::
    "lookup_allocator \<Rightarrow> read_only_provider \<Rightarrow> identity \<Rightarrow> read_only_candidate lookup_result" where
  "read_only_lookup alloc p request =
     (let verified = context_store_verify_manifest_v1 (Span (ro_manifest p)) (ro_policy p) in
      if vr_status verified \<noteq> authenticated_unadmitted then lookup_miss (authentication_miss (vr_status verified))
      else case authenticated_manifest_metadata_of verified of
        None \<Rightarrow> lookup_miss miss_incomplete
      | Some metadata \<Rightarrow>
        if authenticated_object_count verified \<noteq> length (ro_admission_objects p) \<or>
           length (ro_frames p) \<noteq> length (ro_admission_objects p)
        then lookup_miss miss_incomplete
        else if id_scope_namespace request \<noteq> am_scope_namespace metadata then lookup_miss miss_unauthorized
        else if id_compatibility_root request \<noteq> am_compatibility_root metadata then lookup_miss miss_incompatible
        else if id_checkpoint_lineage_id request \<noteq> am_checkpoint_lineage_id metadata \<or>
                id_policy_epoch request \<noteq> am_policy_epoch metadata
        then lookup_miss miss_replay
        else if \<not> metadata_equal metadata (ro_admission_metadata p) then lookup_miss miss_unsupported
        else if \<not> la_reserve alloc then lookup_miss miss_storage
        else (case verify_objects p verified [0..<length (ro_admission_objects p)] 0 [] [] of
            Inl st \<Rightarrow> lookup_miss st
          | Inr (descriptors, payloads) \<Rightarrow>
            if \<not> la_candidate alloc then lookup_miss miss_storage
            else lookup_hit (Some (make_candidate metadata (vr_manifest_digest verified) descriptors
                                     (ro_frames p) payloads))))"

definition v1_read_only :: "lookup_allocator \<Rightarrow> read_only_provider \<Rightarrow> (read_only_candidate, 'g) provider" where
  "v1_read_only alloc p = \<lparr>pv_name = ''v1-read-only-synthetic'',
     pv_capabilities = \<lparr>cp_persistent_reads = False, cp_persistent_writes = False, cp_enumeration = False,
       cp_anonymous_scope = False, cp_shared_scope = False, cp_admitted_state_profiles = 0, cp_admitted_codecs = 0\<rparr>,
     pv_lookup = read_only_lookup alloc p, pv_publish = (\<lambda>request. disabled)\<rparr>"

text \<open>Every branch ends in one of the two factories.\<close>

definition factory_built :: "'c lookup_result \<Rightarrow> bool" where
  "factory_built r \<longleftrightarrow> (\<exists>st. r = lookup_miss st) \<or> (\<exists>c. r = lookup_hit c)"

lemma factory_built_intros:
  "factory_built (lookup_miss st)" "factory_built (lookup_hit c)"
  "factory_built r \<Longrightarrow> factory_built r' \<Longrightarrow> factory_built (if b then r else r')"
  "factory_built r \<Longrightarrow> (\<And>x. factory_built (f x)) \<Longrightarrow> factory_built (case opt of None \<Rightarrow> r | Some x \<Rightarrow> f x)"
  "(\<And>x. factory_built (g x)) \<Longrightarrow> (\<And>x y. factory_built (h x y)) \<Longrightarrow>
     factory_built (case s of Inl x \<Rightarrow> g x | Inr (x, y) \<Rightarrow> h x y)"
  by (auto simp: factory_built_def split: option.split sum.split prod.split)

interpretation read_only_result: result_provider "read_only_lookup alloc p"
proof
  have "factory_built (read_only_lookup alloc p request)" for request
    unfolding read_only_lookup_def Let_def by (intro factory_built_intros)
  then show "(\<exists>st. read_only_lookup alloc p request = lookup_miss st) \<or> (\<exists>c. read_only_lookup alloc p request = lookup_hit c)"
    for request by (simp add: factory_built_def)
qed

subsection \<open>What a lookup accepts\<close>

lemma stored_id_equal_iff [simp]: "stored_id_equal a b \<longleftrightarrow> a = b"
  by (auto simp: stored_id_equal_def list_all_length intro: nth_equalityI)

lemma object_reference_equal_iff [simp]: "object_reference_equal a b \<longleftrightarrow> a = b"
  by (cases a; cases b) (auto simp: object_reference_equal_def)

lemma frames_within_sum:
  "frames_within m t frames \<Longrightarrow> t \<le> m \<Longrightarrow>
     unat t + sum_list (map span_size frames) \<le> unat m \<and> list_all (\<lambda>f. \<exists>bs. f = Span bs \<and> bs \<noteq> []) frames"
proof (induction m t frames rule: frames_within.induct)
  case (2 m t frame frames)
  then have f: "\<not> span_null frame" "span_size frame \<noteq> 0" "span_size frame \<le> unat (m - t)"
    and rest: "frames_within m (t + of_nat (span_size frame)) frames"
    by (auto split: if_splits)
  have d: "unat (m - t) = unat m - unat t" using 2 by (simp add: unat_sub)
  then have "unat t + span_size frame < 2 ^ 64" using f(3) 2 unat_u64_bound [of m] by (simp add: word_le_nat_alt)
  then have u: "unat (t + of_nat (span_size frame)) = unat t + span_size frame"
    using f(3) by (simp add: unat_word_ariths unat_of_nat)
  moreover have "t + of_nat (span_size frame) \<le> m" using u f(3) d 2 by (simp add: word_le_nat_alt)
  moreover have "\<exists>bs. frame = Span bs \<and> bs \<noteq> []" using f by (cases frame) auto
  ultimately show ?case using "2.IH" rest f by auto
qed (simp add: word_le_nat_alt)

lemma provider_copy:
  assumes "make_read_only_provider source = Some p"
  shows "Span (ro_manifest p) = rs_manifest source" "ro_policy p = rs_policy source"
    "map Span (ro_frames p) = source_frames source" "ro_limits p = rs_object_limits source"
    "ro_admission_metadata p = rs_admission_manifest source"
    "ro_admission_objects p = take (rs_admission_object_count source) (the (rs_admission_objects source))"
    "sum_list (map length (ro_frames p)) \<le> unat (ro_max_total_frame_bytes p)"
proof -
  have v: "valid_source source" and p: "p = v1_read_only_provider source"
    using assms by (auto simp: make_read_only_provider_def split: if_splits)
  obtain key where key: "mk_master_key (vp_key (rs_policy source)) = Span key"
    using v by (cases "mk_master_key (vp_key (rs_policy source))") (auto simp: valid_source_def Let_def)
  obtain bs where bs: "rs_manifest source = Span bs"
    using v by (cases "rs_manifest source") (auto simp: valid_source_def Let_def)
  have "frames_within (rs_max_total_frame_bytes source) 0 (source_frames source)"
    using v by (simp add: valid_source_def Let_def split: if_splits)
  from frames_within_sum [OF this]
  have f: "sum_list (map span_size (source_frames source)) \<le> unat (rs_max_total_frame_bytes source)"
    "list_all (\<lambda>f. \<exists>bs. f = Span bs \<and> bs \<noteq> []) (source_frames source)" by simp_all
  have copies: "map Span (map span_bytes (source_frames source)) = source_frames source"
    "map length (map span_bytes (source_frames source)) = map span_size (source_frames source)"
    using f(2) by (auto simp: list_all_iff intro!: map_idI)
  show "Span (ro_manifest p) = rs_manifest source" "ro_policy p = rs_policy source"
    "map Span (ro_frames p) = source_frames source" "ro_limits p = rs_object_limits source"
    "ro_admission_metadata p = rs_admission_manifest source"
    "ro_admission_objects p = take (rs_admission_object_count source) (the (rs_admission_objects source))"
    "sum_list (map length (ro_frames p)) \<le> unat (ro_max_total_frame_bytes p)"
    using f(1) copies key bs by (simp_all add: p v1_read_only_provider_def Let_def comp_def cong: map_cong)
qed

definition object_payload :: "read_only_provider \<Rightarrow> manifest_verify_result \<Rightarrow> nat \<Rightarrow> verified_payload" where
  "object_payload p verified i =
     (let object = context_store_verify_object_frame_v1 (Span (ro_frames p ! i)) (ro_limits p) verified i
      in \<lparr>vp_offset = ov_payload_offset object, vp_size = ov_payload_size object\<rparr>)"

definition object_accepted :: "read_only_provider \<Rightarrow> manifest_verify_result \<Rightarrow> nat \<Rightarrow> bool" where
  "object_accepted p verified i \<longleftrightarrow>
     authenticated_object_reference verified i = Some (ro_admission_objects p ! i) \<and>
     ov_status (context_store_verify_object_frame_v1 (Span (ro_frames p ! i)) (ro_limits p) verified i)
       = object_verified_unadmitted"

text \<open>The aggregate bound of the loop, once the sizes of all the frames fit it.\<close>

lemma aggregate_step:
  assumes "unat (t :: u64) + (n + k) \<le> unat (m :: u64)"
  shows "\<not> n > unat (m - t)" "unat (t + of_nat n) + k \<le> unat m"
proof -
  have "t \<le> m" using assms by (simp add: word_le_nat_alt)
  then show "\<not> n > unat (m - t)" using assms by (simp add: unat_sub)
  have "unat t + n < 2 ^ 64" using assms unat_u64_bound [of m] by simp
  then have "unat (t + of_nat n) = unat t + n" by (simp add: unat_word_ariths unat_of_nat)
  then show "unat (t + of_nat n) + k \<le> unat m" using assms by simp
qed

lemma verify_objects_Inr:
  "unat total_bytes + sum_list (map (\<lambda>i. length (ro_frames p ! i)) js) \<le> unat (ro_max_total_frame_bytes p) \<Longrightarrow>
   verify_objects p v js total_bytes ds ps = Inr r \<longleftrightarrow>
     list_all (object_accepted p v) js \<and>
     r = (ds @ map ((!) (ro_admission_objects p)) js, ps @ map (object_payload p v) js)"
proof (induction js arbitrary: total_bytes ds ps)
  case (Cons i rest)
  note step = aggregate_step [of total_bytes "length (ro_frames p ! i)" _ "ro_max_total_frame_bytes p"]
  show ?case
    using Cons.IH [OF step(2)] Cons.prems step(1)
    by (auto simp: object_accepted_def object_payload_def Let_def split: option.splits)
qed auto

lemma matched_payload_range:
  assumes "ov_status (context_store_verify_object_frame_v1 (Span frame) limits manifest i) = object_verified_unadmitted"
    and "authenticated_object_reference manifest i = Some reference" "frame_matches limits reference frame payload"
  shows "ov_payload_offset (context_store_verify_object_frame_v1 (Span frame) limits manifest i) =
      length (object_frame_prefix (or_stream_type reference) (of_nat (length payload)))"
    and "ov_payload_size (context_store_verify_object_frame_v1 (Span frame) limits manifest i) = length payload"
proof -
  have n: "unat (of_nat (length payload) :: u64) = length payload"
    using assms(3) unat_u64_bound [of "ol_max_payload_bytes limits"] by (simp add: frame_matches_def unat_of_nat)
  note p = frame_matches_parse [OF assms(3)]
  show "ov_payload_offset (context_store_verify_object_frame_v1 (Span frame) limits manifest i) =
      length (object_frame_prefix (or_stream_type reference) (of_nat (length payload)))"
    "ov_payload_size (context_store_verify_object_frame_v1 (Span frame) limits manifest i) = length payload"
    using assms(1,2) n
    by (auto simp: context_store_verify_object_frame_v1_def Let_def empty_object_result_def p split: option.splits if_splits)
qed

lemma matched_payload_bytes:
  assumes "object_accepted p v i" "frame_matches (ro_limits p) (ro_admission_objects p ! i) (ro_frames p ! i) payload"
  shows "take (vp_size (object_payload p v i)) (drop (vp_offset (object_payload p v i)) (ro_frames p ! i)) = payload"
proof -
  have f: "ro_frames p ! i = object_frame_prefix (or_stream_type (ro_admission_objects p ! i)) (of_nat (length payload)) @ payload"
    using assms(2) by (simp add: frame_matches_def object_frame_bytes_def)
  have "vp_offset (object_payload p v i) =
      length (object_frame_prefix (or_stream_type (ro_admission_objects p ! i)) (of_nat (length payload)))"
    "vp_size (object_payload p v i) = length payload"
    using assms matched_payload_range [of "ro_frames p ! i" "ro_limits p" v i]
    by (simp_all add: object_payload_def object_accepted_def Let_def)
  then show ?thesis by (subst f) simp
qed

text \<open>
  The abstract condition: frame by frame, the payload whose canonical frame under the
  object's reference it is.
\<close>

definition frames_carry :: "object_limits \<Rightarrow> object_reference list \<Rightarrow> byte list list \<Rightarrow> byte list list \<Rightarrow> bool" where
  "frames_carry limits references frames payloads \<longleftrightarrow>
     usable_limits limits \<and> length frames = length references \<and>
     list_all2 (\<lambda>(reference, frame) payload. frame_matches limits reference frame payload) (zip references frames) payloads"

definition manifest_identity :: "parsed_manifest \<Rightarrow> identity" where
  "manifest_identity m = \<lparr>id_compatibility_root = pm_compatibility_root m, id_scope_namespace = pm_scope_namespace m,
     id_checkpoint_lineage_id = pm_checkpoint_lineage_id m, id_policy_epoch = pm_policy_epoch m\<rparr>"

definition manifest_candidate :: "parsed_manifest \<Rightarrow> byte list list \<Rightarrow> read_only_candidate" where
  "manifest_candidate m payloads = \<lparr>rc_identity = manifest_identity m, rc_metadata = metadata_of m,
     rc_manifest_digest = sha256 (manifest_domain @ manifest_bytes m), rc_descriptors = pm_object_references m,
     rc_payloads = payloads\<rparr>"

lemma rejections_reject:
  "key_rejection m key \<noteq> Some authenticated_unadmitted" "tag_rejection data m key \<noteq> Some authenticated_unadmitted"
  "anchor_rejection m anchor \<noteq> Some authenticated_unadmitted"
  by (simp_all add: key_rejection_def tag_rejection_def anchor_rejection_def split: option.split)

lemma verify_parsed_digest:
  "vr_status (verify_parsed data policy m r) = authenticated_unadmitted \<Longrightarrow>
   context_store_manifest_digest_v1 data = Some (vr_manifest_digest (verify_parsed data policy m r))"
  by (auto simp: verify_parsed_def rejections_reject split: option.splits if_splits)

lemma verified_manifest_digest:
  assumes "vr_status (context_store_verify_manifest_v1 data policy) = authenticated_unadmitted"
    and "context_store_parse_manifest_v1 data = Inr m"
  shows "vr_manifest_digest (context_store_verify_manifest_v1 data policy) = sha256 (manifest_domain @ manifest_bytes m)"
proof -
  have "data = Span (manifest_bytes m)" "length (manifest_bytes m) \<le> manifest_max_bytes"
    using assms(2) by (simp_all add: parse_manifest_iff)
  then show ?thesis
    using assms manifest_digest_eq [of m] verify_parsed_digest [of data policy m]
    by (simp add: context_store_verify_manifest_v1_def Let_def)
qed

lemma accepted_objects:
  assumes m: "context_store_parse_manifest_v1 data = Inr m"
    and auth: "vr_status (context_store_verify_manifest_v1 data policy) = authenticated_unadmitted"
    and n: "length (pm_object_references m) = length (ro_admission_objects p)"
  shows "list_all (object_accepted p (context_store_verify_manifest_v1 data policy)) [0..<length (ro_admission_objects p)] \<longleftrightarrow>
    pm_object_references m = ro_admission_objects p \<and> usable_limits (ro_limits p) \<and>
    (\<forall>i < length (ro_admission_objects p). \<exists>payload.
       frame_matches (ro_limits p) (ro_admission_objects p ! i) (ro_frames p ! i) payload)"
proof -
  let ?v = "context_store_verify_manifest_v1 data policy" and ?n = "length (ro_admission_objects p)"
  have ref: "authenticated_object_reference ?v i = Some (pm_object_references m ! i)" if "i < ?n" for i
    using that m auth n by (simp add: authenticated_object_reference_def has_authenticated_carrier_def verify_carrier)
  have ok: "object_selected ?v i (pm_object_references m ! i)" "length (or_object_id (pm_object_references m ! i)) = 32" if "i < ?n" for i
    using that m auth n by (auto simp: verified_manifest_objects parse_manifest_iff wf_manifest_def object_ok_def)
  have st: "ov_status (context_store_verify_object_frame_v1 (Span (ro_frames p ! i)) (ro_limits p) ?v i) = object_verified_unadmitted
      \<longleftrightarrow> usable_limits (ro_limits p) \<and> (\<exists>payload. frame_matches (ro_limits p) (pm_object_references m ! i) (ro_frames p ! i) payload)"
    if "i < ?n" for i
    using verify_object_usable [OF ok(1) [OF that] _ ok(2) [OF that], of "ro_limits p" "ro_frames p ! i"] verify_object_requires by blast
  have "0 < ?n" using m n by (auto simp: parse_manifest_iff wf_manifest_def)
  moreover have "pm_object_references m = ro_admission_objects p \<longleftrightarrow> (\<forall>i < ?n. pm_object_references m ! i = ro_admission_objects p ! i)"
    using n by (auto simp: list_eq_iff_nth_eq)
  ultimately show ?thesis
    using ref st by (auto simp: list_all_length object_accepted_def)
qed

lemma candidate_if:
  "lr_candidate (if b then lookup_miss st else r) = Some c \<longleftrightarrow> \<not> b \<and> lr_candidate r = Some c"
  by simp

lemma frames_carry_nth:
  assumes "length frames = length references"
  shows "frames_carry limits references frames payloads \<longleftrightarrow>
    usable_limits limits \<and> length payloads = length references \<and>
    (\<forall>i < length references. frame_matches limits (references ! i) (frames ! i) (payloads ! i))"
  using assms by (auto simp: frames_carry_def list_all2_conv_all_nth)

text \<open>The payloads a completed loop hands to the candidate.\<close>

lemma accepted_payloads:
  assumes ok: "list_all (object_accepted p v) [0..<length (ro_admission_objects p)]"
    and n: "length (ro_frames p) = length (ro_admission_objects p)" and lim: "usable_limits (ro_limits p)"
    and some: "\<forall>i < length (ro_admission_objects p). \<exists>payload.
       frame_matches (ro_limits p) (ro_admission_objects p ! i) (ro_frames p ! i) payload"
  shows "frames_carry (ro_limits p) (ro_admission_objects p) (ro_frames p) payloads \<longleftrightarrow>
    payloads = rc_payloads (make_candidate metadata d ds (ro_frames p)
      (map (object_payload p v) [0..<length (ro_admission_objects p)]))"
proof -
  let ?n = "length (ro_admission_objects p)"
  define bytes where "bytes i = take (vp_size (object_payload p v i)) (drop (vp_offset (object_payload p v i)) (ro_frames p ! i))" for i
  have b: "frame_matches (ro_limits p) (ro_admission_objects p ! i) (ro_frames p ! i) payload \<longleftrightarrow> payload = bytes i" if "i < ?n" for i payload
    using that ok some matched_payload_bytes [of p v i] by (auto simp: list_all_length bytes_def)
  have "rc_payloads (make_candidate metadata d ds (ro_frames p) (map (object_payload p v) [0..<?n])) = map bytes [0..<?n]"
    by (simp add: make_candidate_def bytes_def Let_def)
  moreover have "payloads = map bytes [0..<?n] \<longleftrightarrow> length payloads = ?n \<and> (\<forall>i < ?n. payloads ! i = bytes i)"
    by (auto intro: nth_equalityI)
  ultimately show ?thesis using b n lim by (simp add: frames_carry_nth)
qed

lemma verify_all_objects:
  assumes "length (ro_frames p) = length (ro_admission_objects p)"
    and "sum_list (map length (ro_frames p)) \<le> unat (ro_max_total_frame_bytes p)"
  shows "verify_objects p v [0..<length (ro_admission_objects p)] 0 [] [] = Inr r \<longleftrightarrow>
    list_all (object_accepted p v) [0..<length (ro_admission_objects p)] \<and>
    r = (ro_admission_objects p, map (object_payload p v) [0..<length (ro_admission_objects p)])"
proof -
  have "map (\<lambda>i. length (ro_frames p ! i)) [0..<length (ro_admission_objects p)] = map length (ro_frames p)"
    using assms(1) by (intro nth_equalityI) simp_all
  then show ?thesis
    using verify_objects_Inr [of 0 p "[0..<length (ro_admission_objects p)]" v "[]" "[]" r] assms(2) by (simp add: map_nth)
qed

lemma lookup_loop_candidate:
  assumes "length (ro_frames p) = length (ro_admission_objects p)"
    and "sum_list (map length (ro_frames p)) \<le> unat (ro_max_total_frame_bytes p)"
  shows "lr_candidate (case verify_objects p v [0..<length (ro_admission_objects p)] 0 [] [] of Inl st \<Rightarrow> lookup_miss st
      | Inr (ds, ps) \<Rightarrow> if \<not> b then lookup_miss miss_storage else lookup_hit (Some (f ds ps))) = Some c \<longleftrightarrow>
    b \<and> list_all (object_accepted p v) [0..<length (ro_admission_objects p)] \<and>
    c = f (ro_admission_objects p) (map (object_payload p v) [0..<length (ro_admission_objects p)])"
proof (cases "verify_objects p v [0..<length (ro_admission_objects p)] 0 [] []")
  case (Inl st)
  then show ?thesis using verify_all_objects [OF assms, of v] by (metis Inl_Inr_False built_candidate(1) option.distinct(1) old.sum.simps(5))
next
  case (Inr q)
  then show ?thesis using verify_all_objects [OF assms, of v q] by auto
qed

lemma lookup_candidate_iff:
  assumes m: "context_store_parse_manifest_v1 (Span (ro_manifest p)) = Inr m"
    and auth: "vr_status (context_store_verify_manifest_v1 (Span (ro_manifest p)) (ro_policy p)) = authenticated_unadmitted"
    and total_bytes: "sum_list (map length (ro_frames p)) \<le> unat (ro_max_total_frame_bytes p)"
  shows "lr_candidate (read_only_lookup alloc p request) = Some c \<longleftrightarrow>
    request = manifest_identity m \<and> metadata_equal (metadata_of m) (ro_admission_metadata p) \<and>
    pm_object_references m = ro_admission_objects p \<and> la_reserve alloc \<and> la_candidate alloc \<and>
    (\<exists>payloads. frames_carry (ro_limits p) (ro_admission_objects p) (ro_frames p) payloads \<and> c = manifest_candidate m payloads)"
    (is "?L \<longleftrightarrow> ?R")
proof -
  let ?v = "context_store_verify_manifest_v1 (Span (ro_manifest p)) (ro_policy p)" and ?n = "length (ro_admission_objects p)"
  let ?cand = "make_candidate (metadata_of m) (vr_manifest_digest ?v) (ro_admission_objects p) (ro_frames p)
    (map (object_payload p ?v) [0..<?n])"
  have v: "authenticated_manifest_metadata_of ?v = Some (metadata_of m)"
    "authenticated_object_count ?v = length (pm_object_references m)"
    using m auth by (simp_all add: authenticated_manifest_metadata_of_def authenticated_object_count_def
      has_authenticated_carrier_def verify_carrier)
  have id: "request = manifest_identity m \<longleftrightarrow> id_scope_namespace request = am_scope_namespace (metadata_of m) \<and>
      id_compatibility_root request = am_compatibility_root (metadata_of m) \<and>
      id_checkpoint_lineage_id request = am_checkpoint_lineage_id (metadata_of m) \<and>
      id_policy_epoch request = am_policy_epoch (metadata_of m)"
    by (cases request) (auto simp: manifest_identity_def metadata_of_def)
  have L: "?L \<longleftrightarrow> length (pm_object_references m) = ?n \<and> length (ro_frames p) = ?n \<and> request = manifest_identity m \<and>
      metadata_equal (metadata_of m) (ro_admission_metadata p) \<and> la_reserve alloc \<and> la_candidate alloc \<and>
      list_all (object_accepted p ?v) [0..<?n] \<and> c = ?cand"
    unfolding id
    by (simp add: read_only_lookup_def Let_def auth v candidate_if lookup_loop_candidate [OF _ total_bytes] cong: conj_cong)
  have cand: "?cand = manifest_candidate m (rc_payloads ?cand)" if "pm_object_references m = ro_admission_objects p"
    using that verified_manifest_digest [OF auth m]
    by (simp add: manifest_candidate_def make_candidate_def manifest_identity_def metadata_of_def)
  show ?thesis
  proof (cases "length (pm_object_references m) = ?n \<and> length (ro_frames p) = ?n \<and>
      list_all (object_accepted p ?v) [0..<?n]")
    case True
    then have *: "pm_object_references m = ro_admission_objects p" "usable_limits (ro_limits p)"
      "\<forall>i < ?n. \<exists>payload. frame_matches (ro_limits p) (ro_admission_objects p ! i) (ro_frames p ! i) payload"
      using accepted_objects [OF m auth, of p] by auto
    then show ?thesis
      using True L cand accepted_payloads [of p ?v _ "metadata_of m" "vr_manifest_digest ?v" "ro_admission_objects p"] by auto
  next
    case False
    have "length (pm_object_references m) = ?n \<and> length (ro_frames p) = ?n \<and> list_all (object_accepted p ?v) [0..<?n]"
      if "pm_object_references m = ro_admission_objects p" "frames_carry (ro_limits p) (ro_admission_objects p) (ro_frames p) payloads" for payloads
      using that accepted_objects [OF m auth, of p] frames_carry_nth [of "ro_frames p" "ro_admission_objects p" "ro_limits p" payloads]
      by (auto simp: frames_carry_def)
    then show ?thesis using False L by blast
  qed
qed

lemma lookup_unauthenticated:
  assumes "vr_status (context_store_verify_manifest_v1 (Span (ro_manifest p)) (ro_policy p)) \<noteq> authenticated_unadmitted"
  shows "lr_candidate (read_only_lookup alloc p request) = None"
  using assms by (simp add: read_only_lookup_def Let_def)


end
