(* ===== verification/Transformer_Codec.thy ===== *)
theory Transformer_Codec
  imports Read_Only State_Transformer
begin

text \<open>
  \<^verbatim>\<open>halofpx-context-store-v1-transformer-codec.{h,cpp}\<close>: a captured snapshot written as two object
  frames under a signed manifest, and read back from a verified candidate. The encoder builds
  the frames and the manifest bytes, signs them and runs the manifest verifier on its own
  output. Growing byte vectors are byte strings that are concatenated; whether the
  allocations of each stage succeed is a parameter. A rejecting return leaves the encoded
  snapshot cleared, so the stages fail with a status only.
  Shown: when the encoder succeeds and that its output is then the canonical manifest of the
  snapshot; that a read-only provider over the output serves it and the decoder returns the
  very snapshot; what the decoder and the inspection accept.
\<close>

subsection \<open>Data\<close>

definition token_stream :: "byte list" where "token_stream = ascii_bytes ''halofpx.tokens.i32be.v1''"
definition state_stream :: "byte list" where "state_stream = ascii_bytes ''halofpx.target-seq-state.opaque.v1''"
definition token_codec :: "byte list" where "token_codec = ascii_bytes ''halofpx.tokens.int32be.v1''"
definition state_codec :: "byte list" where "state_codec = ascii_bytes ''halofpx.llama-state-seq-ext.opaque.v1''"
definition state_profile :: "byte list" where
  "state_profile = ascii_bytes ''halofpx.transformer.world1-rank0.memoryless-greedy.v1''"
definition topology_schema :: "byte list" where "topology_schema = ascii_bytes ''halofpx.topology.single-rank.v1''"
definition execution_mode :: "byte list" where "execution_mode = ascii_bytes ''single-rank''"
definition token_digest_domain :: "byte list" where
  "token_digest_domain = domain_bytes ''halofpx.token-sequence.int32be.v1''"

lemmas codec_names = token_stream_def state_stream_def token_codec_def state_codec_def state_profile_def
  topology_schema_def execution_mode_def token_digest_domain_def

definition transformer_frame_count :: nat where "transformer_frame_count = 2"

record manifest_parameters =
  mp_store_uuid :: "byte list"
  mp_compatibility_components :: "digest list"
  mp_producer_identity :: digest
  mp_global_plan_digest :: digest
  mp_rank_ownership_digest :: digest
  mp_rank_placement_digest :: digest
  mp_generation :: u64
  mp_has_predecessor :: bool
  mp_predecessor_manifest_digest :: digest
  mp_topology_epoch :: u64
  mp_logical_position :: u64
  mp_output_boundary :: u64
  mp_durability_mode :: byte
  mp_signing_key :: manifest_key_record

record codec_limits =
  cl_snapshot :: transformer_limits
  cl_max_frame_bytes :: u64
  cl_max_manifest_bytes :: u64

datatype codec_status =
    encoded | decoded | invalid_argument | unsupported_profile | incomplete_identity | incompatible_identity
  | incompatible_runtime | wrong_profile | wrong_object_roster | wrong_descriptor | wrong_schema | wrong_boundary
  | token_mismatch | token_limit_exceeded | state_limit_exceeded | corrupt_payload | authentication_failed
  | limit_exceeded | allocation_failed | internal_error

record encoded_snapshot =
  es_manifest :: "byte list"
  es_frames :: "byte list list"
  es_manifest_digest :: digest
  es_admission_metadata :: authenticated_manifest_metadata
  es_admission_objects :: "object_reference list"

record encode_result =
  er_status :: codec_status
  er_encoded :: encoded_snapshot

record decode_request =
  dq_candidate :: "read_only_candidate option"
  dq_expected_tokens :: "token list option"
  dq_expected_token_count :: nat
  dq_compatibility_identity :: identity
  dq_profile :: transformer_profile
  dq_producer_identity :: digest
  dq_rank_ownership_digest :: digest
  dq_topology_epoch :: u64
  dq_logical_position :: u64
  dq_output_boundary :: u64
  dq_limits :: transformer_limits

record decode_result =
  dr_status :: codec_status
  dr_snapshot :: transformer_snapshot

record inspection_request =
  iq_metadata :: "authenticated_manifest_metadata option"
  iq_objects :: "object_reference list option"
  iq_object_count :: nat
  iq_compatibility_identity :: identity
  iq_profile :: transformer_profile
  iq_store_uuid :: "byte list"
  iq_producer_identity :: digest
  iq_global_plan_digest :: digest
  iq_rank_ownership_digest :: digest
  iq_rank_placement_digest :: digest
  iq_topology_epoch :: u64
  iq_limits :: codec_limits

record inspection_result =
  ir_status :: codec_status
  ir_token_count :: nat

subsection \<open>Bytes\<close>

definition codec_complete :: "identity \<Rightarrow> bool" where
  "codec_complete i \<longleftrightarrow>
     nonzero (id_compatibility_root i) \<and> nonzero (id_scope_namespace i) \<and> nonzero (id_checkpoint_lineage_id i)"

definition same_identity :: "identity \<Rightarrow> identity \<Rightarrow> bool" where
  "same_identity l r \<longleftrightarrow>
     id_compatibility_root l = id_compatibility_root r \<and> id_scope_namespace l = id_scope_namespace r \<and>
     id_checkpoint_lineage_id l = id_checkpoint_lineage_id r \<and> id_policy_epoch l = id_policy_epoch r"

definition valid_id :: "registered_id \<Rightarrow> bool" where
  "valid_id i = (if length i = 0 \<or> length i > registered_id_max_bytes then False
                 else list_all (\<lambda>b. \<not> (b = 0 \<or> b \<ge> 0x80)) i)"

definition same_id :: "registered_id \<Rightarrow> byte list \<Rightarrow> bool" where
  "same_id i expected \<longleftrightarrow> length i = length expected \<and> list_all (\<lambda>(e, b). e = b) (zip expected i)"

definition append_u16 :: "16 word \<Rightarrow> byte list" where
  "append_u16 value = [ucast (drop_bit 8 value), ucast value]"

definition append_u32 :: "u32 \<Rightarrow> byte list" where
  "append_u32 value = map (\<lambda>shift. ucast (drop_bit shift value)) [24, 16, 8, 0]"

definition append_u64 :: "u64 \<Rightarrow> byte list" where
  "append_u64 value = map (\<lambda>shift. ucast (drop_bit shift value)) [56, 48, 40, 32, 24, 16, 8, 0]"

definition codec_head :: "nat \<Rightarrow> u64 \<Rightarrow> byte list" where
  "codec_head major value =
     (if value < 24 then [push_bit 5 (of_nat major) OR ucast value]
      else if value \<le> 0xff then [push_bit 5 (of_nat major) OR 24] @ [ucast value]
      else if value \<le> 0xffff then [push_bit 5 (of_nat major) OR 25] @ append_u16 (ucast value)
      else if value \<le> 0xffffffff then [push_bit 5 (of_nat major) OR 26] @ append_u32 (ucast value)
      else [push_bit 5 (of_nat major) OR 27] @ append_u64 value)"

definition codec_uint :: "u64 \<Rightarrow> byte list" where "codec_uint value = codec_head 0 value"
definition codec_map :: "u64 \<Rightarrow> byte list" where "codec_map n = codec_head 5 n"
definition codec_array :: "u64 \<Rightarrow> byte list" where "codec_array n = codec_head 4 n"
definition codec_bytes :: "byte list \<Rightarrow> byte list" where "codec_bytes bs = codec_head 2 (of_nat (length bs)) @ bs"
definition codec_text :: "byte list \<Rightarrow> byte list" where "codec_text bs = codec_head 3 (of_nat (length bs)) @ bs"

definition domain_hash :: "byte list \<Rightarrow> byte list \<Rightarrow> digest" where
  "domain_hash domain body =
     (case context_store_sha256 (Span (domain @ body)) of None \<Rightarrow> zero_digest | Some digest \<Rightarrow> digest)"

definition make_frame :: "byte list \<Rightarrow> byte list \<Rightarrow> byte list" where
  "make_frame type payload =
     [0x48, 0x41, 0x4c, 0x4f, 0x4f, 0x42, 0x4a, 0x01]
     @ append_u16 (of_nat (length object_domain)) @ object_domain
     @ append_u16 (of_nat (length type)) @ type
     @ append_u64 (of_nat (length payload)) @ payload"

definition expected_frame_size :: "byte list \<Rightarrow> nat \<Rightarrow> u64" where
  "expected_frame_size type payload_size =
     (let fixed = 8 + 2 + 2 + 8; variable_bytes = length object_domain + length type in
      if payload_size > 2 ^ 64 - 1 - fixed - variable_bytes then 0
      else of_nat (fixed + variable_bytes + payload_size))"

definition frame_overhead :: "byte list \<Rightarrow> u64" where
  "frame_overhead type = 8 + 2 + 2 + 8 + of_nat (length object_domain) + of_nat (length type)"

definition derive_codec_key :: "manifest_parameters \<Rightarrow> identity \<Rightarrow> digest option" where
  "derive_codec_key parameters i =
     (let key = mp_signing_key parameters in
      context_store_hmac_sha256 (mk_master_key key)
        (Span (manifest_key_domain @ append_u16 (of_nat (length (mk_key_id key))) @ mk_key_id key
          @ mp_store_uuid parameters @ id_scope_namespace i @ append_u64 (mk_generation key))))"

definition emit_descriptor ::
    "digest \<Rightarrow> byte list \<Rightarrow> byte list \<Rightarrow> u64 \<Rightarrow> digest \<Rightarrow> manifest_parameters \<Rightarrow> identity \<Rightarrow> byte list" where
  "emit_descriptor object_id stream codec frame_bytes token_digest parameters i =
     codec_map 13
     @ codec_uint 0 @ codec_bytes object_id
     @ codec_uint 1 @ codec_text stream
     @ codec_uint 2 @ codec_text codec
     @ codec_uint 3 @ codec_uint 1
     @ codec_uint 4 @ codec_uint 0
     @ codec_uint 5 @ [0xf5]
     @ codec_uint 6 @ codec_uint frame_bytes
     @ codec_uint 7 @ codec_bytes token_digest
     @ codec_uint 8 @ codec_uint (mp_logical_position parameters)
     @ codec_uint 9 @ codec_uint (mp_output_boundary parameters)
     @ codec_uint 10 @ codec_uint 0
     @ codec_uint 11 @ codec_bytes (mp_rank_ownership_digest parameters)
     @ codec_uint 12 @ codec_bytes (id_compatibility_root i)"

subsection \<open>The encoder\<close>

definition empty_metadata :: authenticated_manifest_metadata where
  "empty_metadata = \<lparr>am_store_uuid = replicate 16 0, am_checkpoint_lineage_id = zero_digest, am_generation = 0,
     am_has_predecessor = False, am_predecessor_manifest_digest = zero_digest,
     am_compatibility_components = replicate 16 zero_digest, am_compatibility_root = zero_digest,
     am_scope_namespace = zero_digest, am_policy_epoch = 0, am_topology_plan_schema_id = [],
     am_topology_execution_mode = [], am_world_size = 0, am_global_plan_digest = zero_digest, am_topology_epoch = 0,
     am_rank_ownership = [], am_rank_placements = [], am_state_profile_id = [], am_producer_identity = zero_digest,
     am_durability_mode = 0\<rparr>"

definition empty_reference :: object_reference where
  "empty_reference = \<lparr>or_object_id = zero_digest, or_stream_type = [], or_codec_id = [], or_codec_schema_major = 0,
     or_codec_schema_minor = 0, or_required = False, or_frame_bytes = 0, or_token_sequence_digest = zero_digest,
     or_logical_position = 0, or_output_boundary = 0, or_has_logical_rank = False, or_logical_rank = 0,
     or_rank_ownership_digest = zero_digest, or_compatibility_root = zero_digest\<rparr>"

definition clear_encoded :: encoded_snapshot where
  "clear_encoded = \<lparr>es_manifest = [], es_frames = [[], []], es_manifest_digest = zero_digest,
     es_admission_metadata = empty_metadata, es_admission_objects = [empty_reference, empty_reference]\<rparr>"

datatype encode_stage = compatibility_stage | token_stage | frame_stage | signing_stage | manifest_stage

type_synonym encode_allocator = "encode_stage \<Rightarrow> allocation"

definition caught :: "allocation \<Rightarrow> codec_status" where
  "caught a = (if a = bad_alloc then allocation_failed else internal_error)"

text \<open>The checks of the arguments, before anything is allocated.\<close>

definition encode_rejection ::
    "transformer_snapshot \<Rightarrow> manifest_parameters \<Rightarrow> codec_limits \<Rightarrow> codec_status option" where
  "encode_rejection snapshot parameters limits =
     (let key = mp_signing_key parameters; token_count = length (ts_tokens snapshot) in
      if tl_max_tokens (cl_snapshot limits) = 0 \<or> tl_max_state_bytes (cl_snapshot limits) = 0 \<or>
         cl_max_frame_bytes limits = 0 \<or> cl_max_manifest_bytes limits = 0 \<or>
         unat (cl_max_manifest_bytes limits) > manifest_max_bytes \<or>
         mk_disposition key \<noteq> active \<or> \<not> valid_id (mk_key_id key) \<or> mk_generation key = 0 \<or>
         span_null (mk_master_key key) \<or> span_size (mk_master_key key) = 0 \<or>
         span_size (mk_master_key key) > master_key_max_bytes \<or>
         mp_generation parameters = 0 \<or> mp_durability_mode parameters > 2 \<or>
         \<not> nonzero (mp_store_uuid parameters) \<or> \<not> nonzero (mp_producer_identity parameters) \<or>
         \<not> nonzero (mp_global_plan_digest parameters) \<or> \<not> nonzero (mp_rank_ownership_digest parameters) \<or>
         \<not> nonzero (mp_rank_placement_digest parameters)
      then Some invalid_argument
      else if \<not> codec_complete (ts_identity snapshot) then Some incomplete_identity
      else if \<not> profile_is_admitted (ts_profile snapshot) then Some unsupported_profile
      else if ts_tokens snapshot = [] \<or> token_count > tl_max_tokens (cl_snapshot limits) \<or>
              token_count > (2 ^ 64 - 1) div 4
      then Some token_limit_exceeded
      else if ts_state snapshot = [] \<or> length (ts_state snapshot) > tl_max_state_bytes (cl_snapshot limits)
      then Some state_limit_exceeded
      else if unat (mp_logical_position parameters) \<noteq> token_count \<or>
              mp_output_boundary parameters > mp_logical_position parameters
      then Some wrong_boundary
      else if mp_has_predecessor parameters \<noteq> nonzero (mp_predecessor_manifest_digest parameters)
      then Some invalid_argument
      else if \<not> list_all nonzero (mp_compatibility_components parameters) then Some incomplete_identity
      else let token_frame_bytes = expected_frame_size token_stream (token_count * 4);
               state_frame_bytes = expected_frame_size state_stream (length (ts_state snapshot)) in
        if token_frame_bytes = 0 \<or> state_frame_bytes = 0 \<or> token_frame_bytes > cl_max_frame_bytes limits \<or>
           state_frame_bytes > cl_max_frame_bytes limits
        then Some limit_exceeded else None)"

fun compatibility_fields :: "nat \<Rightarrow> digest list \<Rightarrow> byte list" where
  "compatibility_fields i [] = []"
| "compatibility_fields i (component # components) =
     codec_uint (of_nat i) @ codec_bytes component @ compatibility_fields (Suc i) components"

definition compatibility_map :: "digest list \<Rightarrow> byte list" where
  "compatibility_map components =
     codec_map (of_nat compatibility_component_count) @ compatibility_fields 0 components"

definition token_payload :: "token list \<Rightarrow> byte list" where
  "token_payload tokens = concat (map append_u32 tokens)"

text \<open>The token digest, the two frames and their object ids.\<close>

definition encode_frames ::
    "encode_allocator \<Rightarrow> transformer_snapshot \<Rightarrow> manifest_parameters \<Rightarrow> codec_limits
      \<Rightarrow> codec_status + (digest \<times> byte list list \<times> digest list)" where
  "encode_frames alloc snapshot parameters limits =
     (if alloc compatibility_stage \<noteq> allocated then Inl (caught (alloc compatibility_stage))
      else let computed = domain_hash compatibility_domain (compatibility_map (mp_compatibility_components parameters)) in
        if \<not> nonzero computed \<or> computed \<noteq> id_compatibility_root (ts_identity snapshot) then Inl incompatible_identity
        else if alloc token_stage \<noteq> allocated then Inl (caught (alloc token_stage))
        else let payload = token_payload (ts_tokens snapshot); token_digest = domain_hash token_digest_domain payload in
          if \<not> nonzero token_digest then Inl internal_error
          else if alloc frame_stage \<noteq> allocated then Inl (caught (alloc frame_stage))
          else let frames = [make_frame token_stream payload, make_frame state_stream (ts_state snapshot)] in
            if \<not> list_all (\<lambda>frame. \<not> (frame = [] \<or> length frame > unat (cl_max_frame_bytes limits))) frames
            then Inl limit_exceeded
            else case context_store_sha256 (Span (frames ! 0)) of
                None \<Rightarrow> Inl internal_error
              | Some id0 \<Rightarrow> (case context_store_sha256 (Span (frames ! 1)) of
                  None \<Rightarrow> Inl internal_error
                | Some id1 \<Rightarrow> Inr (token_digest, frames, [id0, id1])))"

definition manifest_body ::
    "transformer_snapshot \<Rightarrow> manifest_parameters \<Rightarrow> digest \<Rightarrow> byte list list \<Rightarrow> digest list \<Rightarrow> byte list" where
  "manifest_body snapshot parameters token_digest frames object_ids =
     (let i = ts_identity snapshot in
     codec_map 15
     @ codec_uint 0 @ codec_uint 1
     @ codec_uint 1 @ codec_uint 0
     @ codec_uint 2 @ codec_bytes (mp_store_uuid parameters)
     @ codec_uint 3 @ codec_bytes (id_checkpoint_lineage_id i)
     @ codec_uint 4 @ codec_uint (mp_generation parameters)
     @ codec_uint 5
     @ (if mp_has_predecessor parameters then codec_bytes (mp_predecessor_manifest_digest parameters) else [0xf6])
     @ codec_uint 6 @ compatibility_map (mp_compatibility_components parameters)
     @ codec_uint 7 @ codec_bytes (id_compatibility_root i)
     @ codec_uint 8 @ codec_bytes (id_scope_namespace i)
     @ codec_uint 9 @ codec_uint (id_policy_epoch i)
     @ codec_uint 10 @ codec_map 6
     @ codec_uint 0 @ codec_text topology_schema
     @ codec_uint 1 @ codec_text execution_mode
     @ codec_uint 2 @ codec_uint 1
     @ codec_uint 3 @ codec_bytes (mp_global_plan_digest parameters)
     @ codec_uint 4 @ codec_uint (mp_topology_epoch parameters)
     @ codec_uint 5 @ codec_array 1 @ codec_map 3
     @ codec_uint 0 @ codec_uint 0
     @ codec_uint 1 @ codec_bytes (mp_rank_ownership_digest parameters)
     @ codec_uint 2 @ codec_bytes (mp_rank_placement_digest parameters)
     @ codec_uint 11 @ codec_text state_profile
     @ codec_uint 12 @ codec_array (of_nat transformer_frame_count)
     @ emit_descriptor (object_ids ! 0) token_stream token_codec (of_nat (length (frames ! 0))) token_digest parameters i
     @ emit_descriptor (object_ids ! 1) state_stream state_codec (of_nat (length (frames ! 1))) token_digest parameters i
     @ codec_uint 13 @ codec_bytes (mp_producer_identity parameters)
     @ codec_uint 14 @ codec_uint (ucast (mp_durability_mode parameters)))"

definition codec_auth_input :: "byte list \<Rightarrow> manifest_key_record \<Rightarrow> byte list" where
  "codec_auth_input body key =
     codec_map 4
     @ codec_uint 0 @ body
     @ codec_uint 1 @ codec_text (mk_key_id key)
     @ codec_uint 2 @ codec_uint 1
     @ codec_uint 3 @ codec_uint (mk_generation key)"

definition self_policy :: "transformer_snapshot \<Rightarrow> manifest_parameters \<Rightarrow> digest \<Rightarrow> manifest_verification_policy" where
  "self_policy snapshot parameters manifest_digest =
     (let i = ts_identity snapshot in
      \<lparr>vp_key = mp_signing_key parameters,
       vp_anchor = \<lparr>ra_store_uuid = mp_store_uuid parameters, ra_checkpoint_lineage_id = id_checkpoint_lineage_id i,
         ra_namespace_id = id_scope_namespace i, ra_policy_epoch = id_policy_epoch i,
         ra_key_generation = mk_generation (mp_signing_key parameters), ra_generation = mp_generation parameters,
         ra_has_predecessor = mp_has_predecessor parameters,
         ra_predecessor_manifest_digest = mp_predecessor_manifest_digest parameters,
         ra_selected_manifest_digest = manifest_digest\<rparr>,
       vp_compatibility = \<lparr>ce_components = mp_compatibility_components parameters, ce_root = id_compatibility_root i\<rparr>\<rparr>)"

definition sign_manifest ::
    "encode_allocator \<Rightarrow> transformer_snapshot \<Rightarrow> manifest_parameters \<Rightarrow> codec_limits \<Rightarrow> byte list
      \<Rightarrow> codec_status + (byte list \<times> digest)" where
  "sign_manifest alloc snapshot parameters limits body =
     (let key = mp_signing_key parameters; auth_input = codec_auth_input body key in
      if alloc signing_stage \<noteq> allocated then Inl (caught (alloc signing_stage))
      else case derive_codec_key parameters (ts_identity snapshot) of
          None \<Rightarrow> Inl authentication_failed
        | Some derived_key \<Rightarrow>
          (case context_store_hmac_sha256 (Span derived_key) (Span (manifest_auth_domain @ auth_input)) of
            None \<Rightarrow> Inl authentication_failed
          | Some tag \<Rightarrow>
            if alloc manifest_stage \<noteq> allocated then Inl (caught (alloc manifest_stage))
            else let manifest = codec_map 2 @ codec_uint 0 @ auth_input @ codec_uint 1 @ codec_bytes tag in
              if length manifest > unat (cl_max_manifest_bytes limits) then Inl limit_exceeded
              else (case context_store_manifest_digest_v1 (Span manifest) of
                  None \<Rightarrow> Inl limit_exceeded
                | Some manifest_digest \<Rightarrow> Inr (manifest, manifest_digest))))"

definition self_verify ::
    "transformer_snapshot \<Rightarrow> manifest_parameters \<Rightarrow> byte list list \<Rightarrow> byte list \<Rightarrow> digest \<Rightarrow> codec_status + encoded_snapshot" where
  "self_verify snapshot parameters frames manifest manifest_digest =
     (let verified = context_store_verify_manifest_v1 (Span manifest) (self_policy snapshot parameters manifest_digest) in
      if vr_status verified \<noteq> authenticated_unadmitted \<or>
         authenticated_object_count verified \<noteq> transformer_frame_count then Inl authentication_failed
      else case (authenticated_manifest_metadata_of verified, authenticated_object_reference verified 0,
                 authenticated_object_reference verified 1) of
          (Some metadata, Some object0, Some object1) \<Rightarrow>
            Inr \<lparr>es_manifest = manifest, es_frames = frames, es_manifest_digest = manifest_digest,
                 es_admission_metadata = metadata, es_admission_objects = [object0, object1]\<rparr>
        | _ \<Rightarrow> Inl authentication_failed)"

definition encode_steps ::
    "encode_allocator \<Rightarrow> transformer_snapshot \<Rightarrow> manifest_parameters \<Rightarrow> codec_limits \<Rightarrow> codec_status + encoded_snapshot" where
  "encode_steps alloc snapshot parameters limits =
     (case encode_rejection snapshot parameters limits of Some st \<Rightarrow> Inl st | None \<Rightarrow>
     (case encode_frames alloc snapshot parameters limits of Inl st \<Rightarrow> Inl st | Inr (token_digest, frames, object_ids) \<Rightarrow>
     (case sign_manifest alloc snapshot parameters limits
             (manifest_body snapshot parameters token_digest frames object_ids) of Inl st \<Rightarrow> Inl st
      | Inr (manifest, manifest_digest) \<Rightarrow> self_verify snapshot parameters frames manifest manifest_digest)))"

definition encode_transformer_snapshot ::
    "encode_allocator \<Rightarrow> transformer_snapshot \<Rightarrow> manifest_parameters \<Rightarrow> codec_limits \<Rightarrow> encode_result" where
  "encode_transformer_snapshot alloc snapshot parameters limits =
     (case encode_steps alloc snapshot parameters limits of
        Inl st \<Rightarrow> \<lparr>er_status = st, er_encoded = clear_encoded\<rparr>
      | Inr result \<Rightarrow> \<lparr>er_status = encoded, er_encoded = result\<rparr>)"

subsection \<open>The decoder\<close>

datatype decode_stage = digest_stage | decoded_tokens_stage | decoded_state_stage

definition token_at :: "byte list \<Rightarrow> nat \<Rightarrow> token" where
  "token_at payload offset =
     push_bit 24 (ucast (payload ! offset)) OR push_bit 16 (ucast (payload ! (offset + 1)))
     OR push_bit 8 (ucast (payload ! (offset + 2))) OR ucast (payload ! (offset + 3))"

fun decode_tokens :: "byte list \<Rightarrow> token list \<Rightarrow> nat list \<Rightarrow> token list \<Rightarrow> codec_status + token list" where
  "decode_tokens payload expected_tokens [] decoded_tokens = Inr decoded_tokens"
| "decode_tokens payload expected_tokens (i # rest) decoded_tokens =
     (let token = token_at payload (4 * i) in
      if token \<noteq> expected_tokens ! i then Inl token_mismatch
      else decode_tokens payload expected_tokens rest (decoded_tokens @ [token]))"

definition decode_rejection :: "decode_request \<Rightarrow> codec_status option" where
  "decode_rejection request =
     (if dq_candidate request = None \<or> dq_expected_tokens request = None \<or> dq_expected_token_count request = 0 \<or>
         tl_max_tokens (dq_limits request) = 0 \<or> tl_max_state_bytes (dq_limits request) = 0 \<or>
         \<not> nonzero (dq_producer_identity request) \<or> \<not> nonzero (dq_rank_ownership_digest request)
      then Some invalid_argument
      else if \<not> codec_complete (dq_compatibility_identity request) then Some incomplete_identity
      else if \<not> profile_is_admitted (dq_profile request) then Some unsupported_profile
      else if dq_expected_token_count request > tl_max_tokens (dq_limits request) then Some token_limit_exceeded
      else if unat (dq_logical_position request) \<noteq> dq_expected_token_count request \<or>
              dq_output_boundary request > dq_logical_position request
      then Some wrong_boundary else None)"

definition candidate_rejection :: "decode_request \<Rightarrow> read_only_candidate \<Rightarrow> codec_status option" where
  "candidate_rejection request candidate =
     (if \<not> same_identity (rc_identity candidate) (dq_compatibility_identity request) then Some incompatible_identity
      else if candidate_producer_identity candidate \<noteq> dq_producer_identity request then Some incompatible_runtime
      else if \<not> same_id (candidate_state_profile_id candidate) state_profile then Some wrong_profile
      else if candidate_world_size candidate \<noteq> 1 \<or> candidate_topology_epoch candidate \<noteq> dq_topology_epoch request \<or>
              candidate_object_count candidate \<noteq> transformer_frame_count
      then Some wrong_object_roster else None)"

definition descriptor_rejection ::
    "decode_request \<Rightarrow> object_reference \<Rightarrow> object_reference \<Rightarrow> byte_span \<Rightarrow> byte_span \<Rightarrow> codec_status option" where
  "descriptor_rejection request tokens_descriptor state_descriptor tokens_payload state_payload =
     (if \<not> same_id (or_stream_type tokens_descriptor) token_stream \<or>
         \<not> same_id (or_codec_id tokens_descriptor) token_codec \<or>
         \<not> same_id (or_stream_type state_descriptor) state_stream \<or>
         \<not> same_id (or_codec_id state_descriptor) state_codec \<or>
         \<not> or_required tokens_descriptor \<or> \<not> or_required state_descriptor \<or>
         \<not> or_has_logical_rank tokens_descriptor \<or> \<not> or_has_logical_rank state_descriptor \<or>
         or_logical_rank tokens_descriptor \<noteq> 0 \<or> or_logical_rank state_descriptor \<noteq> 0 \<or>
         or_rank_ownership_digest tokens_descriptor \<noteq> dq_rank_ownership_digest request \<or>
         or_rank_ownership_digest state_descriptor \<noteq> dq_rank_ownership_digest request \<or>
         or_compatibility_root tokens_descriptor \<noteq> id_compatibility_root (dq_compatibility_identity request) \<or>
         or_compatibility_root state_descriptor \<noteq> id_compatibility_root (dq_compatibility_identity request)
      then Some wrong_descriptor
      else if or_codec_schema_major tokens_descriptor \<noteq> 1 \<or> or_codec_schema_minor tokens_descriptor \<noteq> 0 \<or>
              or_codec_schema_major state_descriptor \<noteq> 1 \<or> or_codec_schema_minor state_descriptor \<noteq> 0
      then Some wrong_schema
      else if or_logical_position tokens_descriptor \<noteq> dq_logical_position request \<or>
              or_logical_position state_descriptor \<noteq> dq_logical_position request \<or>
              or_output_boundary tokens_descriptor \<noteq> dq_output_boundary request \<or>
              or_output_boundary state_descriptor \<noteq> dq_output_boundary request \<or>
              or_frame_bytes tokens_descriptor \<noteq> expected_frame_size token_stream (span_size tokens_payload) \<or>
              or_frame_bytes state_descriptor \<noteq> expected_frame_size state_stream (span_size state_payload)
      then Some wrong_boundary
      else if span_size tokens_payload mod 4 \<noteq> 0 \<or> span_size tokens_payload div 4 \<noteq> dq_expected_token_count request
      then Some token_mismatch
      else if span_size state_payload > tl_max_state_bytes (dq_limits request) then Some state_limit_exceeded
      else None)"

definition decode_payloads ::
    "(decode_stage \<Rightarrow> allocation) \<Rightarrow> decode_request \<Rightarrow> object_reference \<Rightarrow> object_reference \<Rightarrow> byte list \<Rightarrow> byte list
      \<Rightarrow> codec_status + transformer_snapshot" where
  "decode_payloads alloc request tokens_descriptor state_descriptor tokens_payload state_payload =
     (if alloc digest_stage \<noteq> allocated then Inl (caught (alloc digest_stage))
      else let token_digest = domain_hash token_digest_domain tokens_payload in
        if \<not> nonzero token_digest \<or> or_token_sequence_digest tokens_descriptor \<noteq> token_digest \<or>
           or_token_sequence_digest state_descriptor \<noteq> token_digest
        then Inl token_mismatch
        else if alloc decoded_tokens_stage \<noteq> allocated then Inl (caught (alloc decoded_tokens_stage))
        else case decode_tokens tokens_payload (the (dq_expected_tokens request)) [0..<length tokens_payload div 4] [] of
            Inl st \<Rightarrow> Inl st
          | Inr decoded_tokens \<Rightarrow>
            if alloc decoded_state_stage \<noteq> allocated then Inl (caught (alloc decoded_state_stage))
            else Inr \<lparr>ts_identity = dq_compatibility_identity request, ts_profile = dq_profile request,
                      ts_tokens = decoded_tokens, ts_state = state_payload\<rparr>)"

definition decode_candidate ::
    "(decode_stage \<Rightarrow> allocation) \<Rightarrow> decode_request \<Rightarrow> read_only_candidate \<Rightarrow> codec_status + transformer_snapshot" where
  "decode_candidate alloc request candidate =
     (let tokens_payload = candidate_payload candidate 0; state_payload = candidate_payload candidate 1 in
      case (candidate_descriptor candidate 0, candidate_descriptor candidate 1) of
        (Some tokens_descriptor, Some state_descriptor) \<Rightarrow>
          if span_null tokens_payload \<or> span_null state_payload \<or> span_size tokens_payload = 0 \<or> span_size state_payload = 0
          then Inl corrupt_payload
          else (case descriptor_rejection request tokens_descriptor state_descriptor tokens_payload state_payload of
              Some st \<Rightarrow> Inl st
            | None \<Rightarrow> decode_payloads alloc request tokens_descriptor state_descriptor (span_bytes tokens_payload)
                        (span_bytes state_payload))
      | _ \<Rightarrow> Inl corrupt_payload)"

definition decode_steps ::
    "(decode_stage \<Rightarrow> allocation) \<Rightarrow> decode_request \<Rightarrow> codec_status + transformer_snapshot" where
  "decode_steps alloc request =
     (case decode_rejection request of Some st \<Rightarrow> Inl st | None \<Rightarrow>
     (let candidate = the (dq_candidate request) in
      case candidate_rejection request candidate of Some st \<Rightarrow> Inl st | None \<Rightarrow>
      decode_candidate alloc request candidate))"

definition decode_transformer_snapshot :: "(decode_stage \<Rightarrow> allocation) \<Rightarrow> decode_request \<Rightarrow> decode_result" where
  "decode_transformer_snapshot alloc request =
     (case decode_steps alloc request of
        Inl st \<Rightarrow> \<lparr>dr_status = st, dr_snapshot = empty_snapshot\<rparr>
      | Inr snapshot \<Rightarrow> \<lparr>dr_status = decoded, dr_snapshot = snapshot\<rparr>)"

subsection \<open>The inspection\<close>

definition inspect_invalid :: "inspection_request \<Rightarrow> bool" where
  "inspect_invalid request \<longleftrightarrow>
     iq_metadata request = None \<or> iq_objects request = None \<or> iq_object_count request \<noteq> transformer_frame_count \<or>
     \<not> codec_complete (iq_compatibility_identity request) \<or> \<not> profile_is_admitted (iq_profile request) \<or>
     tp_world_size (iq_profile request) \<noteq> 1 \<or> tp_rank (iq_profile request) \<noteq> 0 \<or>
     tp_architecture (iq_profile request) \<noteq> transformer \<or>
     \<not> nonzero (iq_store_uuid request) \<or> \<not> nonzero (iq_producer_identity request) \<or>
     \<not> nonzero (iq_global_plan_digest request) \<or> \<not> nonzero (iq_rank_ownership_digest request) \<or>
     \<not> nonzero (iq_rank_placement_digest request) \<or> iq_topology_epoch request = 0 \<or>
     tl_max_tokens (cl_snapshot (iq_limits request)) = 0 \<or> tl_max_state_bytes (cl_snapshot (iq_limits request)) = 0 \<or>
     cl_max_frame_bytes (iq_limits request) = 0 \<or> cl_max_manifest_bytes (iq_limits request) = 0"

definition inspect_incompatible :: "inspection_request \<Rightarrow> authenticated_manifest_metadata \<Rightarrow> bool" where
  "inspect_incompatible request metadata \<longleftrightarrow>
     am_store_uuid metadata \<noteq> iq_store_uuid request \<or> am_generation metadata \<noteq> 1 \<or> am_has_predecessor metadata \<or>
     \<not> list_all (\<lambda>b. b = 0) (am_predecessor_manifest_digest metadata) \<or>
     am_checkpoint_lineage_id metadata \<noteq> id_checkpoint_lineage_id (iq_compatibility_identity request) \<or>
     am_compatibility_root metadata \<noteq> id_compatibility_root (iq_compatibility_identity request) \<or>
     am_scope_namespace metadata \<noteq> id_scope_namespace (iq_compatibility_identity request) \<or>
     am_policy_epoch metadata \<noteq> id_policy_epoch (iq_compatibility_identity request) \<or>
     am_world_size metadata \<noteq> 1 \<or> rank_count metadata \<noteq> 1 \<or>
     \<not> same_id (am_topology_plan_schema_id metadata) topology_schema \<or>
     \<not> same_id (am_topology_execution_mode metadata) execution_mode \<or>
     am_global_plan_digest metadata \<noteq> iq_global_plan_digest request \<or>
     am_topology_epoch metadata \<noteq> iq_topology_epoch request \<or>
     am_rank_ownership metadata ! 0 \<noteq> iq_rank_ownership_digest request \<or>
     am_rank_placements metadata ! 0 \<noteq> iq_rank_placement_digest request \<or>
     \<not> same_id (am_state_profile_id metadata) state_profile \<or>
     am_producer_identity metadata \<noteq> iq_producer_identity request \<or> am_durability_mode metadata \<noteq> 0"

definition inspect_max_total :: "codec_limits \<Rightarrow> u64" where
  "inspect_max_total limits =
     (if cl_max_frame_bytes limits > (- 1) div of_nat transformer_frame_count then - 1
      else cl_max_frame_bytes limits * of_nat transformer_frame_count)"

definition inspect_wrong_descriptor :: "inspection_request \<Rightarrow> object_reference \<Rightarrow> object_reference \<Rightarrow> bool" where
  "inspect_wrong_descriptor request token_object state_object \<longleftrightarrow>
     \<not> same_id (or_stream_type token_object) token_stream \<or> \<not> same_id (or_codec_id token_object) token_codec \<or>
     \<not> same_id (or_stream_type state_object) state_stream \<or> \<not> same_id (or_codec_id state_object) state_codec \<or>
     \<not> or_required token_object \<or> \<not> or_required state_object \<or>
     or_codec_schema_major token_object \<noteq> 1 \<or> or_codec_schema_minor token_object \<noteq> 0 \<or>
     or_codec_schema_major state_object \<noteq> 1 \<or> or_codec_schema_minor state_object \<noteq> 0 \<or>
     \<not> or_has_logical_rank token_object \<or> \<not> or_has_logical_rank state_object \<or>
     or_logical_rank token_object \<noteq> 0 \<or> or_logical_rank state_object \<noteq> 0 \<or>
     or_rank_ownership_digest token_object \<noteq> iq_rank_ownership_digest request \<or>
     or_rank_ownership_digest state_object \<noteq> iq_rank_ownership_digest request \<or>
     or_compatibility_root token_object \<noteq> id_compatibility_root (iq_compatibility_identity request) \<or>
     or_compatibility_root state_object \<noteq> id_compatibility_root (iq_compatibility_identity request) \<or>
     \<not> nonzero (or_token_sequence_digest token_object) \<or>
     or_token_sequence_digest token_object \<noteq> or_token_sequence_digest state_object \<or>
     or_logical_position token_object = 0 \<or> or_logical_position token_object \<noteq> or_output_boundary token_object \<or>
     or_logical_position token_object \<noteq> or_logical_position state_object \<or> or_output_boundary token_object \<noteq> or_output_boundary state_object \<or>
     unat (or_logical_position token_object) > tl_max_tokens (cl_snapshot (iq_limits request)) \<or>
     unat (or_logical_position token_object) > 2 ^ 64 - 1 \<or>
     or_logical_position token_object > (- 1 - frame_overhead token_stream) div 4 \<or>
     or_frame_bytes token_object \<noteq> frame_overhead token_stream + or_logical_position token_object * 4 \<or>
     or_frame_bytes state_object \<le> frame_overhead state_stream \<or>
     unat (or_frame_bytes state_object - frame_overhead state_stream) > tl_max_state_bytes (cl_snapshot (iq_limits request)) \<or>
     or_frame_bytes token_object > cl_max_frame_bytes (iq_limits request) \<or>
     or_frame_bytes state_object > cl_max_frame_bytes (iq_limits request) \<or>
     or_frame_bytes token_object > - 1 - or_frame_bytes state_object \<or>
     or_frame_bytes token_object + or_frame_bytes state_object > inspect_max_total (iq_limits request)"

definition inspect_transformer_manifest :: "inspection_request \<Rightarrow> inspection_result" where
  "inspect_transformer_manifest request =
     (if inspect_invalid request then \<lparr>ir_status = invalid_argument, ir_token_count = 0\<rparr>
      else let metadata = the (iq_metadata request) in
        if inspect_incompatible request metadata then \<lparr>ir_status = incompatible_runtime, ir_token_count = 0\<rparr>
        else let token_object = the (iq_objects request) ! 0; state_object = the (iq_objects request) ! 1 in
          if inspect_wrong_descriptor request token_object state_object then \<lparr>ir_status = wrong_descriptor, ir_token_count = 0\<rparr>
          else \<lparr>ir_status = decoded, ir_token_count = unat (or_logical_position token_object)\<rparr>)"

fun codec_status_name :: "codec_status \<Rightarrow> string" where
  "codec_status_name encoded = ''encoded''"
| "codec_status_name decoded = ''decoded''"
| "codec_status_name invalid_argument = ''invalid_argument''"
| "codec_status_name unsupported_profile = ''unsupported_profile''"
| "codec_status_name incomplete_identity = ''incomplete_identity''"
| "codec_status_name incompatible_identity = ''incompatible_identity''"
| "codec_status_name incompatible_runtime = ''incompatible_runtime''"
| "codec_status_name wrong_profile = ''wrong_profile''"
| "codec_status_name wrong_object_roster = ''wrong_object_roster''"
| "codec_status_name wrong_descriptor = ''wrong_descriptor''"
| "codec_status_name wrong_schema = ''wrong_schema''"
| "codec_status_name wrong_boundary = ''wrong_boundary''"
| "codec_status_name token_mismatch = ''token_mismatch''"
| "codec_status_name token_limit_exceeded = ''token_limit_exceeded''"
| "codec_status_name state_limit_exceeded = ''state_limit_exceeded''"
| "codec_status_name corrupt_payload = ''corrupt_payload''"
| "codec_status_name authentication_failed = ''authentication_failed''"
| "codec_status_name limit_exceeded = ''limit_exceeded''"
| "codec_status_name allocation_failed = ''allocation_failed''"
| "codec_status_name internal_error = ''internal_error''"

subsection \<open>The bytes are canonical\<close>

lemma append_u64_eq [simp]: "append_u64 v = be_bytes 8 v"
  by (simp add: append_u64_def be_bytes_def numeral_nat upt_rec)

lemma append_u32_ucast: "append_u32 (ucast (v :: u64)) = be_bytes 4 v"
  by (simp add: append_u32_def be_bytes_def numeral_nat upt_rec) (auto intro!: bit_word_eqI simp: bit_simps)

lemma append_u16_ucast: "append_u16 (ucast (v :: u64)) = be_bytes 2 v"
  by (simp add: append_u16_def be_bytes_def numeral_nat upt_rec) (auto intro!: bit_word_eqI simp: bit_simps)

lemma append_u16_eq [simp]: "append_u16 (of_nat n) = be_bytes 2 (of_nat n)"
proof -
  have "(of_nat n :: 16 word) = ucast (of_nat n :: u64)" by (rule word_unat_eq_iff [THEN iffD2]) (simp add: unsigned_ucast_eq unat_of_nat take_bit_eq_mod mod_mod_cancel)
  then show ?thesis using append_u16_ucast [of "of_nat n"] by simp
qed

lemma codec_head_eq [simp]: "codec_head = cbor_head"
proof (intro ext)
  fix major v
  have "[ucast v] = be_bytes 1 v" by (simp add: be_bytes_def)
  then show "codec_head major v = cbor_head major v"
    by (simp add: codec_head_def cbor_head_def head_byte_def append_u16_ucast append_u32_ucast)
qed

lemma codec_writers [simp]:
  "codec_uint = cbor_head 0" "codec_map = cbor_head 5" "codec_array = cbor_head 4" "codec_bytes = cbor_bytes"
  "codec_text = cbor_text"
  by (simp_all add: fun_eq_iff codec_uint_def codec_map_def codec_array_def codec_bytes_def codec_text_def
    cbor_bytes_def cbor_text_def)

lemma make_frame_eq [simp]: "make_frame type payload = object_frame_bytes type payload"
  using append_u16_eq [of 17] by (simp add: make_frame_def object_frame_bytes_def object_frame_prefix_def object_magic_def)

lemma compatibility_map_eq: "length cs = 16 \<Longrightarrow> compatibility_map cs = compatibility_bytes cs"
proof -
  have "compatibility_fields i ds = enc_each component_bytes i ds" for i ds
    by (induction ds arbitrary: i) (simp_all add: component_bytes_def)
  then show ?thesis by (simp add: compatibility_map_def compatibility_bytes_def compatibility_component_count_def)
qed

lemma same_id_iff [simp]: "same_id i expected \<longleftrightarrow> i = expected"
  by (auto simp: same_id_def list_all_length intro: nth_equalityI)

lemma codec_same_identity_iff [simp]: "same_identity a b \<longleftrightarrow> a = b"
  by (auto simp: same_identity_def)

lemma codec_complete_eq: "codec_complete = identity_is_complete"
  by (simp add: fun_eq_iff codec_complete_def identity_is_complete_def)

text \<open>Identifiers and their lengths.\<close>

lemma seven_bit_utf8: "list_all (\<lambda>b. \<not> (b = 0 \<or> b \<ge> 0x80)) bs \<Longrightarrow> valid_utf8_without_nul bs"
proof (induction bs)
  case (Cons b bs)
  then have "b \<le> 0x7f" by (simp add: word_le_nat_alt not_le word_less_nat_alt)
  then show ?case using Cons by simp
qed simp

lemma codec_name_lengths [simp]:
  "length token_stream = 23" "length state_stream = 34" "length token_codec = 25" "length state_codec = 37"
  "length state_profile = 53" "length topology_schema = 31" "length execution_mode = 11" "length token_digest_domain = 34"
  by (simp_all add: codec_names domain_bytes_def ascii_bytes_def)

lemma codec_names_seven_bit:
  "list_all (\<lambda>b. \<not> (b = 0 \<or> b \<ge> 0x80)) token_stream" "list_all (\<lambda>b. \<not> (b = 0 \<or> b \<ge> 0x80)) state_stream"
  "list_all (\<lambda>b. \<not> (b = 0 \<or> b \<ge> 0x80)) token_codec" "list_all (\<lambda>b. \<not> (b = 0 \<or> b \<ge> 0x80)) state_codec"
  "list_all (\<lambda>b. \<not> (b = 0 \<or> b \<ge> 0x80)) state_profile" "list_all (\<lambda>b. \<not> (b = 0 \<or> b \<ge> 0x80)) topology_schema"
  "list_all (\<lambda>b. \<not> (b = 0 \<or> b \<ge> 0x80)) execution_mode"
  by (simp_all add: codec_names ascii_bytes_def)

lemma codec_names_valid:
  "valid_registered_id token_stream" "valid_registered_id state_stream" "valid_registered_id token_codec"
  "valid_registered_id state_codec" "valid_registered_id state_profile" "valid_registered_id topology_schema"
  "valid_registered_id execution_mode"
  using codec_names_seven_bit [THEN seven_bit_utf8] by (simp_all add: valid_registered_id_def registered_id_max_bytes_def)

lemma valid_id_registered: "valid_id i \<Longrightarrow> valid_registered_id i"
  by (auto simp: valid_id_def valid_registered_id_def Suc_le_eq intro: seven_bit_utf8 split: if_splits)

lemma codec_streams_valid: "valid_stream_type token_stream" "valid_stream_type state_stream"
  using codec_names_seven_bit(1,2) by (simp_all add: valid_stream_type_def registered_id_max_bytes_def not_le)

text \<open>Hashes under a domain.\<close>

lemma context_store_sha256_eq:
  "context_store_sha256 (Span bs) = (if length bs \<le> crypto_input_max_bytes then Some (sha256 bs) else None)"
  by (simp add: context_store_sha256_def sha256_spans_iff spans_ok_def spans_bytes_def valid_span_def
    crypto_input_max_bytes_def manifest_max_bytes_def)

lemma domain_hash_eq:
  "domain_hash domain body = (if length domain + length body \<le> crypto_input_max_bytes then sha256 (domain @ body) else zero_digest)"
  by (simp add: domain_hash_def context_store_sha256_eq)

lemma nonzero_zero_digest [simp]: "\<not> nonzero zero_digest"
  by (simp add: nonzero_iff zero_digest_def)

lemma not_nonzero_zero_digest: "length d = 32 \<Longrightarrow> \<not> nonzero d \<Longrightarrow> d = zero_digest"
  by (intro nth_equalityI) (auto simp: nonzero_iff zero_digest_def)

lemma length_compatibility_bytes:
  assumes "length cs = 16" "\<forall>d \<in> set cs. length d = 32"
  shows "length (compatibility_bytes cs) = 561"
proof -
  have "length (enc_each component_bytes n ds) = 35 * length ds" if "n + length ds \<le> 24" "\<forall>d \<in> set ds. length d = 32" for n ds
    using that by (induction ds arbitrary: n) (simp_all add: component_bytes_small)
  from this [of 0 cs] show ?thesis using assms by (simp add: compatibility_bytes_def length_head_small)
qed

lemma length_append_u32 [simp]: "length (append_u32 t) = 4"
  by (simp add: append_u32_def)

lemma length_token_payload [simp]: "length (token_payload ts) = 4 * length ts"
  by (induction ts) (simp_all add: token_payload_def)

lemma object_frame_nonempty [simp]: "object_frame_bytes t payload \<noteq> []" "[] \<noteq> object_frame_bytes t payload"
  by (simp_all add: object_frame_bytes_def object_frame_prefix_def object_magic_def)

lemma length_object_frame: "length (object_frame_bytes t payload) = 37 + length t + length payload"
  by (simp add: object_frame_bytes_def object_frame_prefix_def)

subsection \<open>The manifest of a snapshot\<close>

text \<open>The lengths the fixed arrays of the source have by their types.\<close>

definition identity_shape :: "identity \<Rightarrow> bool" where
  "identity_shape i \<longleftrightarrow> length (id_compatibility_root i) = 32 \<and> length (id_scope_namespace i) = 32 \<and>
     length (id_checkpoint_lineage_id i) = 32"

definition parameters_shape :: "manifest_parameters \<Rightarrow> bool" where
  "parameters_shape p \<longleftrightarrow>
     length (mp_store_uuid p) = 16 \<and> length (mp_compatibility_components p) = 16 \<and>
     (\<forall>d \<in> set (mp_compatibility_components p). length d = 32) \<and> length (mp_producer_identity p) = 32 \<and>
     length (mp_global_plan_digest p) = 32 \<and> length (mp_rank_ownership_digest p) = 32 \<and>
     length (mp_rank_placement_digest p) = 32 \<and> length (mp_predecessor_manifest_digest p) = 32"

definition snapshot_token_digest :: "transformer_snapshot \<Rightarrow> digest" where
  "snapshot_token_digest s = sha256 (token_digest_domain @ token_payload (ts_tokens s))"

definition snapshot_frames :: "transformer_snapshot \<Rightarrow> byte list list" where
  "snapshot_frames s = [object_frame_bytes token_stream (token_payload (ts_tokens s)), object_frame_bytes state_stream (ts_state s)]"

definition snapshot_reference ::
    "transformer_snapshot \<Rightarrow> manifest_parameters \<Rightarrow> byte list \<Rightarrow> byte list \<Rightarrow> byte list \<Rightarrow> object_reference" where
  "snapshot_reference s p stream codec frame = \<lparr>or_object_id = sha256 frame, or_stream_type = stream, or_codec_id = codec,
     or_codec_schema_major = 1, or_codec_schema_minor = 0, or_required = True, or_frame_bytes = of_nat (length frame),
     or_token_sequence_digest = snapshot_token_digest s, or_logical_position = mp_logical_position p,
     or_output_boundary = mp_output_boundary p, or_has_logical_rank = True, or_logical_rank = 0,
     or_rank_ownership_digest = mp_rank_ownership_digest p, or_compatibility_root = id_compatibility_root (ts_identity s)\<rparr>"

definition snapshot_references :: "transformer_snapshot \<Rightarrow> manifest_parameters \<Rightarrow> object_reference list" where
  "snapshot_references s p =
     [snapshot_reference s p token_stream token_codec (snapshot_frames s ! 0),
      snapshot_reference s p state_stream state_codec (snapshot_frames s ! 1)]"

definition snapshot_facts :: "transformer_snapshot \<Rightarrow> manifest_parameters \<Rightarrow> parsed_manifest" where
  "snapshot_facts s p = \<lparr>
     pm_store_uuid = mp_store_uuid p, pm_checkpoint_lineage_id = id_checkpoint_lineage_id (ts_identity s),
     pm_generation = mp_generation p, pm_has_predecessor = mp_has_predecessor p,
     pm_predecessor_manifest_digest = mp_predecessor_manifest_digest p,
     pm_compatibility_components = mp_compatibility_components p,
     pm_compatibility_root = id_compatibility_root (ts_identity s),
     pm_compatibility_manifest_offset = 0, pm_compatibility_manifest_size = 0,
     pm_scope_namespace = id_scope_namespace (ts_identity s), pm_policy_epoch = id_policy_epoch (ts_identity s),
     pm_world_size = 1, pm_topology_plan_schema_id = topology_schema, pm_topology_execution_mode = execution_mode,
     pm_global_plan_digest = mp_global_plan_digest p, pm_topology_epoch = mp_topology_epoch p,
     pm_rank_ownership = [mp_rank_ownership_digest p], pm_rank_placements = [mp_rank_placement_digest p],
     pm_object_references = snapshot_references s p, pm_state_profile_id = state_profile,
     pm_producer_identity = mp_producer_identity p, pm_durability_mode = mp_durability_mode p,
     pm_authentication_key_id = mk_key_id (mp_signing_key p),
     pm_authentication_key_generation = mk_generation (mp_signing_key p),
     pm_authentication_tag = zero_digest, pm_authentication_input_offset = 2, pm_authentication_input_size = 0\<rparr>"

text \<open>The same with its ranges and its tag filled in.\<close>

definition snapshot_manifest :: "transformer_snapshot \<Rightarrow> manifest_parameters \<Rightarrow> parsed_manifest" where
  "snapshot_manifest s p = (snapshot_facts s p)\<lparr>
     pm_compatibility_manifest_offset := 2 + length (manifest_prefix_bytes (snapshot_facts s p)),
     pm_compatibility_manifest_size := length (compatibility_bytes (mp_compatibility_components p)),
     pm_authentication_input_size := length (manifest_auth_input (snapshot_facts s p)),
     pm_authentication_tag := manifest_tag (span_bytes (mk_master_key (mp_signing_key p))) (snapshot_facts s p)\<rparr>"

lemma manifest_bytes_update [simp]:
  "manifest_auth_input (m\<lparr>pm_compatibility_manifest_offset := a, pm_compatibility_manifest_size := b,
     pm_authentication_input_size := c, pm_authentication_tag := t\<rparr>) = manifest_auth_input m"
  "manifest_prefix_bytes (m\<lparr>pm_compatibility_manifest_offset := a, pm_compatibility_manifest_size := b,
     pm_authentication_input_size := c, pm_authentication_tag := t\<rparr>) = manifest_prefix_bytes m"
  "manifest_key k (m\<lparr>pm_compatibility_manifest_offset := a, pm_compatibility_manifest_size := b,
     pm_authentication_input_size := c, pm_authentication_tag := t\<rparr>) = manifest_key k m"
  by (simp_all add: manifest_auth_input_def manifest_prefix_bytes_def manifest_suffix_bytes_def manifest_trailer_bytes_def
    topology_bytes_def manifest_key_def)

lemma snapshot_manifest_bytes:
  "manifest_auth_input (snapshot_manifest s p) = manifest_auth_input (snapshot_facts s p)"
  "manifest_prefix_bytes (snapshot_manifest s p) = manifest_prefix_bytes (snapshot_facts s p)"
  "manifest_tag k (snapshot_manifest s p) = manifest_tag k (snapshot_facts s p)"
  by (simp_all add: snapshot_manifest_def manifest_tag_def)

lemma snapshot_manifest_fields [simp]:
  "pm_object_references (snapshot_manifest s p) = snapshot_references s p"
  "pm_generation (snapshot_manifest s p) = mp_generation p"
  "pm_has_predecessor (snapshot_manifest s p) = mp_has_predecessor p"
  by (simp_all add: snapshot_manifest_def snapshot_facts_def)

lemma emit_descriptor_eq:
  "emit_descriptor (sha256 frame) stream codec (of_nat (length frame)) (snapshot_token_digest s) p (ts_identity s) =
   object_bytes (snapshot_reference s p stream codec frame)"
  by (simp add: emit_descriptor_def object_bytes_def snapshot_reference_def optional_uint_bytes_def)

lemma codec_auth_input_eq:
  assumes "length (mp_compatibility_components p) = 16"
  shows "codec_auth_input (manifest_body s p (snapshot_token_digest s) (snapshot_frames s) (map sha256 (snapshot_frames s)))
    (mp_signing_key p) = manifest_auth_input (snapshot_facts s p)"
proof -
  have "map sha256 (snapshot_frames s) ! 0 = sha256 (snapshot_frames s ! 0)"
    "map sha256 (snapshot_frames s) ! 1 = sha256 (snapshot_frames s ! 1)"
    by (simp_all add: snapshot_frames_def)
  note d = emit_descriptor_eq [of "snapshot_frames s ! 0" token_stream token_codec s p]
    emit_descriptor_eq [of "snapshot_frames s ! 1" state_stream state_codec s p]
  show ?thesis
    unfolding codec_auth_input_def manifest_body_def Let_def \<open>map sha256 (snapshot_frames s) ! 0 = _\<close>
      \<open>map sha256 (snapshot_frames s) ! 1 = _\<close> d
    using assms
    by (simp add: manifest_auth_input_def manifest_prefix_bytes_def manifest_suffix_bytes_def manifest_trailer_bytes_def
      topology_bytes_def rank_bytes_def snapshot_facts_def snapshot_references_def compatibility_map_eq
      optional_digest_bytes_def cbor_null_def transformer_frame_count_def)
qed

subsection \<open>When the encoder succeeds\<close>

lemma rejection_None: "(if b then Some st else r) = None \<longleftrightarrow> \<not> b \<and> r = None"
  by simp

lemma expected_frame_size_eq:
  "expected_frame_size t n = (if 37 + length t + n < 2 ^ 64 then of_nat (37 + length t + n) else 0)"
  if "length t \<le> 128"
  using that by (auto simp: expected_frame_size_def Let_def not_less)

definition arguments_ok :: "transformer_snapshot \<Rightarrow> manifest_parameters \<Rightarrow> codec_limits \<Rightarrow> bool" where
  "arguments_ok s p l \<longleftrightarrow>
     0 < tl_max_tokens (cl_snapshot l) \<and> 0 < tl_max_state_bytes (cl_snapshot l) \<and> cl_max_manifest_bytes l \<noteq> 0 \<and>
     unat (cl_max_manifest_bytes l) \<le> manifest_max_bytes \<and>
     mk_disposition (mp_signing_key p) = active \<and> valid_id (mk_key_id (mp_signing_key p)) \<and>
     mk_generation (mp_signing_key p) \<noteq> 0 \<and> usable_key (mk_master_key (mp_signing_key p)) \<and>
     mp_generation p \<noteq> 0 \<and> mp_durability_mode p \<le> 2 \<and> nonzero (mp_store_uuid p) \<and> nonzero (mp_producer_identity p) \<and>
     nonzero (mp_global_plan_digest p) \<and> nonzero (mp_rank_ownership_digest p) \<and> nonzero (mp_rank_placement_digest p) \<and>
     identity_is_complete (ts_identity s) \<and> profile_is_admitted (ts_profile s) \<and>
     ts_tokens s \<noteq> [] \<and> length (ts_tokens s) \<le> tl_max_tokens (cl_snapshot l) \<and>
     ts_state s \<noteq> [] \<and> length (ts_state s) \<le> tl_max_state_bytes (cl_snapshot l) \<and>
     unat (mp_logical_position p) = length (ts_tokens s) \<and> mp_output_boundary p \<le> mp_logical_position p \<and>
     mp_has_predecessor p = nonzero (mp_predecessor_manifest_digest p) \<and>
     list_all nonzero (mp_compatibility_components p) \<and>
     list_all (\<lambda>frame. length frame \<le> unat (cl_max_frame_bytes l)) (snapshot_frames s)"

lemma frame_size_fits:
  assumes "length t \<le> 128"
  shows "expected_frame_size t n \<noteq> 0 \<and> expected_frame_size t n \<le> m \<longleftrightarrow> 37 + length t + n \<le> unat m"
proof (cases "37 + length t + n < 2 ^ 64")
  case True
  then have u: "unat (expected_frame_size t n) = 37 + length t + n"
    by (simp only: expected_frame_size_eq [OF assms] if_True unat_of_nat) simp
  then have "expected_frame_size t n \<noteq> 0" by (metis add_is_0 unat_0 zero_neq_numeral)
  then show ?thesis using u by (simp add: word_le_nat_alt)
next
  case False
  then show ?thesis using unat_u64_bound [of m] by (simp add: expected_frame_size_eq [OF assms])
qed

lemma encode_rejection_None_iff: "encode_rejection s p l = None \<longleftrightarrow> arguments_ok s p l"
proof -
  have f: "\<not> (expected_frame_size token_stream (length (ts_tokens s) * 4) = 0 \<or>
        expected_frame_size state_stream (length (ts_state s)) = 0 \<or>
        expected_frame_size token_stream (length (ts_tokens s) * 4) > cl_max_frame_bytes l \<or>
        expected_frame_size state_stream (length (ts_state s)) > cl_max_frame_bytes l) \<longleftrightarrow>
      list_all (\<lambda>frame. length frame \<le> unat (cl_max_frame_bytes l)) (snapshot_frames s)"
    using frame_size_fits [of token_stream "length (ts_tokens s) * 4" "cl_max_frame_bytes l"]
      frame_size_fits [of state_stream "length (ts_state s)" "cl_max_frame_bytes l"]
    by (auto simp: snapshot_frames_def length_object_frame not_less mult.commute)
  have z: "list_all (\<lambda>frame. length frame \<le> unat (cl_max_frame_bytes l)) (snapshot_frames s) \<Longrightarrow>
      cl_max_frame_bytes l \<noteq> 0"
    by (auto simp: snapshot_frames_def length_object_frame)
  have t: "unat (mp_logical_position p) = n \<Longrightarrow> n \<le> tl_max_tokens (cl_snapshot l) \<Longrightarrow>
      list_all (\<lambda>frame. length frame \<le> unat (cl_max_frame_bytes l)) (snapshot_frames s) \<Longrightarrow> n = length (ts_tokens s) \<Longrightarrow>
      n \<le> (2 ^ 64 - 1) div 4" for n
    using unat_u64_bound [of "cl_max_frame_bytes l"] by (auto simp: snapshot_frames_def length_object_frame)
  show ?thesis
    unfolding encode_rejection_def arguments_ok_def Let_def rejection_None f usable_key_def codec_complete_eq
    using z t by (auto simp: not_less not_le)
qed

lemma failed_step: "(if b then Inl st else r) = Inr x \<longleftrightarrow> \<not> b \<and> r = Inr x"
  by simp

lemma compatibility_hash:
  assumes "parameters_shape p"
  shows "domain_hash compatibility_domain (compatibility_map (mp_compatibility_components p)) =
    sha256 (compatibility_domain @ compatibility_bytes (mp_compatibility_components p))"
  using assms length_compatibility_bytes [of "mp_compatibility_components p"]
  by (simp add: domain_hash_eq parameters_shape_def compatibility_map_eq domain_lengths crypto_input_max_bytes_def
    manifest_max_bytes_def)

definition frames_hashable :: "transformer_snapshot \<Rightarrow> bool" where
  "frames_hashable s \<longleftrightarrow> list_all (\<lambda>frame. length frame \<le> crypto_input_max_bytes) (snapshot_frames s)"

lemma token_hash:
  "frames_hashable s \<Longrightarrow> domain_hash token_digest_domain (token_payload (ts_tokens s)) = snapshot_token_digest s"
  by (simp add: domain_hash_eq snapshot_token_digest_def frames_hashable_def snapshot_frames_def length_object_frame)

lemma encode_frames_iff:
  assumes "arguments_ok s p l" "parameters_shape p"
  shows "encode_frames alloc s p l = Inr r \<longleftrightarrow>
    list_all (\<lambda>stage. alloc stage = allocated) [compatibility_stage, token_stage, frame_stage] \<and>
    id_compatibility_root (ts_identity s) =
      sha256 (compatibility_domain @ compatibility_bytes (mp_compatibility_components p)) \<and>
    nonzero (snapshot_token_digest s) \<and> frames_hashable s \<and>
    r = (snapshot_token_digest s, snapshot_frames s, map sha256 (snapshot_frames s))"
proof -
  let ?t = "object_frame_bytes token_stream (token_payload (ts_tokens s))" and ?st = "object_frame_bytes state_stream (ts_state s)"
  have fits: "list_all (\<lambda>frame. \<not> (frame = [] \<or> length frame > unat (cl_max_frame_bytes l))) [?t, ?st]"
    using assms(1) by (simp add: arguments_ok_def snapshot_frames_def not_less object_frame_bytes_def object_frame_prefix_def
      object_magic_def)
  have root: "nonzero (id_compatibility_root (ts_identity s))"
    using assms(1) by (simp add: arguments_ok_def identity_is_complete_def)
  show ?thesis
  proof (cases "frames_hashable s")
    case True
    then have "length ?t \<le> crypto_input_max_bytes" "length ?st \<le> crypto_input_max_bytes"
      by (simp_all add: frames_hashable_def snapshot_frames_def)
    then show ?thesis
      unfolding encode_frames_def Let_def failed_step compatibility_hash [OF assms(2)] token_hash [OF True] make_frame_eq
      using True fits root by (auto simp: context_store_sha256_eq snapshot_frames_def)
  next
    case False
    then have "\<not> (length ?t \<le> crypto_input_max_bytes \<and> length ?st \<le> crypto_input_max_bytes)"
      by (simp add: frames_hashable_def snapshot_frames_def)
    then show ?thesis
      unfolding encode_frames_def Let_def failed_step make_frame_eq
      using False by (auto simp: context_store_sha256_eq)
  qed
qed

lemma be_bytes_two: "n < 256 \<Longrightarrow> be_bytes 2 (of_nat n) = [of_nat (n div 256), of_nat n]"
proof -
  assume "n < 256"
  then have "drop_bit 8 (of_nat n :: u64) = 0" by (simp add: word_unat_eq_iff unat_drop_bit_div unat_of_nat)
  moreover have "ucast (of_nat n :: u64) = (of_nat n :: byte)"
    by (rule word_unat_eq_iff [THEN iffD2]) (simp add: unsigned_ucast_eq unat_of_nat take_bit_eq_mod mod_mod_cancel)
  ultimately show ?thesis using \<open>n < 256\<close> by (simp add: be_bytes_def numeral_2_eq_2 upt_rec)
qed

lemma derive_codec_key_eq:
  assumes "arguments_ok s p l" "parameters_shape p" "identity_shape (ts_identity s)"
  shows "derive_codec_key p (ts_identity s) =
    Some (manifest_key (span_bytes (mk_master_key (mp_signing_key p))) (snapshot_facts s p))"
proof -
  have "length (mk_key_id (mp_signing_key p)) \<le> 128" "usable_key (mk_master_key (mp_signing_key p))"
    using assms(1) by (auto simp: arguments_ok_def valid_id_def registered_id_max_bytes_def split: if_splits)
  then show ?thesis
    using assms(2,3)
    by (simp add: derive_codec_key_def Let_def context_store_hmac_sha256_def hmac_spans_iff manifest_key_def usable_key_def
        snapshot_facts_def be_bytes_two valid_span_def spans_ok_def spans_bytes_def crypto_input_max_bytes_def
        manifest_max_bytes_def domain_lengths parameters_shape_def identity_shape_def)
qed

lemma sign_manifest_iff:
  assumes "arguments_ok s p l" "parameters_shape p" "identity_shape (ts_identity s)"
    and body: "codec_auth_input body (mp_signing_key p) = manifest_auth_input (snapshot_facts s p)"
  shows "sign_manifest alloc s p l body = Inr r \<longleftrightarrow>
    alloc signing_stage = allocated \<and> alloc manifest_stage = allocated \<and>
    length (manifest_bytes (snapshot_manifest s p)) \<le> unat (cl_max_manifest_bytes l) \<and>
    r = (manifest_bytes (snapshot_manifest s p), sha256 (manifest_domain @ manifest_bytes (snapshot_manifest s p)))"
proof -
  let ?m = "snapshot_manifest s p" and ?key = "manifest_key (span_bytes (mk_master_key (mp_signing_key p))) (snapshot_facts s p)"
  let ?tag = "manifest_tag (span_bytes (mk_master_key (mp_signing_key p))) (snapshot_facts s p)"
  have tag: "context_store_hmac_sha256 (Span ?key) (Span (manifest_auth_domain @ manifest_auth_input (snapshot_facts s p))) =
      (if 25 + length (manifest_auth_input (snapshot_facts s p)) \<le> crypto_input_max_bytes then Some ?tag else None)"
    by (simp add: context_store_hmac_sha256_def hmac_spans_iff manifest_tag_def valid_span_def spans_ok_def spans_bytes_def
      master_key_max_bytes_def domain_lengths manifest_key_def)
  have whole: "codec_map 2 @ codec_uint 0 @ manifest_auth_input (snapshot_facts s p) @ codec_uint 1 @ codec_bytes ?tag = manifest_bytes ?m"
    by (simp add: manifest_bytes_def snapshot_manifest_bytes) (simp add: snapshot_manifest_def)
  have small: "unat (cl_max_manifest_bytes l) \<le> manifest_max_bytes" using assms(1) by (simp add: arguments_ok_def)
  note whole_cbor = whole [unfolded codec_writers]
  have input: "length (manifest_auth_input (snapshot_facts s p)) \<le> length (manifest_bytes ?m)"
    using whole by (metis (no_types) length_append le_add1 le_add2 le_trans)
  have step: "sign_manifest alloc s p l body =
      (if alloc signing_stage \<noteq> allocated then Inl (caught (alloc signing_stage))
       else case context_store_hmac_sha256 (Span ?key) (Span (manifest_auth_domain @ manifest_auth_input (snapshot_facts s p))) of
           None \<Rightarrow> Inl authentication_failed
         | Some tag \<Rightarrow>
           if alloc manifest_stage \<noteq> allocated then Inl (caught (alloc manifest_stage))
           else let manifest = codec_map 2 @ codec_uint 0 @ manifest_auth_input (snapshot_facts s p) @ codec_uint 1 @ codec_bytes tag in
             if length manifest > unat (cl_max_manifest_bytes l) then Inl limit_exceeded
             else (case context_store_manifest_digest_v1 (Span manifest) of
                 None \<Rightarrow> Inl limit_exceeded
               | Some manifest_digest \<Rightarrow> Inr (manifest, manifest_digest)))"
    unfolding sign_manifest_def Let_def body derive_codec_key_eq [OF assms(1-3)] by simp
  show ?thesis
  proof (cases "length (manifest_bytes ?m) \<le> unat (cl_max_manifest_bytes l)")
    case True
    then show ?thesis
      using small input manifest_digest_eq [of ?m]
      unfolding step by (auto simp: tag whole_cbor crypto_input_max_bytes_def) (simp_all add: Let_def)
  next
    case False
    then show ?thesis
      unfolding step by (auto simp: tag whole_cbor)
  qed
qed

text \<open>
  A manifest whose only defect may be a repeated object id still determines its references,
  so the parser finds the repetition.
\<close>

lemma object_bytes_inj:
  assumes "object_ok m r" "object_ok m r'" "object_bytes r @ x = object_bytes r' @ y"
  shows "r = r' \<and> x = y"
proof -
  have "parse_object_descriptor m (0, object_bytes r @ x) = Inr (r, (length (object_bytes r), x))"
    "parse_object_descriptor m (0, object_bytes r @ x) = Inr (r', (length (object_bytes r'), y))"
    using assms by (simp_all add: parse_object_Inr)
  then show ?thesis by simp
qed

lemma enc_objects_inj:
  "length rs = length rs' \<Longrightarrow> \<forall>r \<in> set rs \<union> set rs'. object_ok m r \<Longrightarrow>
   enc_each (\<lambda>_. object_bytes) i rs @ x = enc_each (\<lambda>_. object_bytes) i rs' @ y \<Longrightarrow> rs = rs'"
proof (induction rs rs' arbitrary: i rule: list_induct2)
  case (Cons r rs r' rs')
  have "r = r' \<and> enc_each (\<lambda>_. object_bytes) (Suc i) rs @ x = enc_each (\<lambda>_. object_bytes) (Suc i) rs' @ y"
    using Cons.prems by (intro object_bytes_inj [of m]) simp_all
  then show ?case using Cons.IH [of "Suc i"] Cons.prems(1) by simp
qed simp

definition header_placed :: "parsed_manifest \<Rightarrow> bool" where
  "header_placed m \<longleftrightarrow> header_ok m \<and> pm_authentication_input_offset m = 2 \<and>
     pm_compatibility_manifest_offset m = 2 + length (manifest_prefix_bytes m) \<and>
     pm_compatibility_manifest_size m = length (compatibility_bytes (pm_compatibility_components m))"

lemma manifest_references_unique:
  assumes m: "header_placed m" "\<forall>r \<in> set (pm_object_references m). object_ok m r"
    "length (pm_object_references m) \<le> manifest_max_objects"
    and w: "wf_manifest n" and eq: "manifest_bytes m = manifest_bytes n"
  shows "pm_object_references m = pm_object_references n"
proof -
  define rest where "rest k = cbor_head 4 (of_nat (length (pm_object_references k)))
    @ enc_each (\<lambda>_. object_bytes) 0 (pm_object_references k) @ manifest_trailer_bytes k
    @ cbor_uint 1 @ cbor_bytes (pm_authentication_tag k)" for k
  have bytes: "manifest_bytes k = cbor_head 5 2 @ cbor_uint 0 @ manifest_prefix_bytes k
      @ compatibility_bytes (pm_compatibility_components k) @ manifest_suffix_bytes k @ rest k" for k
    by (simp add: manifest_bytes_def manifest_auth_input_def rest_def)
  have parsed: "header_placed k \<Longrightarrow> \<exists>q. parse_header (0, manifest_bytes k) = Inr (header_part k, (q, rest k))" for k
    unfolding bytes using parse_header_complete [of k "rest k"] by (auto simp: header_placed_def)
  have "header_placed n" using w by (simp add: header_placed_def wf_manifest_def)
  with parsed [OF m(1)] parsed [of n] have h: "header_part m = header_part n" and r: "rest m = rest n"
    using eq by auto
  have same: "object_ok m r \<longleftrightarrow> object_ok n r" for r
    using h header_part_simps(4) by metis
  have len: "length (pm_object_references n) \<le> manifest_max_objects" using w by (simp add: wf_manifest_def)
  have "(of_nat (length (pm_object_references m)) :: u64) = of_nat (length (pm_object_references n))"
    using r by (simp add: rest_def cbor_head_inj)
  then have "length (pm_object_references m) = length (pm_object_references n)"
    using m(3) len by (simp add: word_unat_eq_iff unat_of_nat manifest_max_objects_def)
  moreover have "\<forall>r \<in> set (pm_object_references m) \<union> set (pm_object_references n). object_ok m r"
    using m(2) w same by (auto simp: wf_manifest_def)
  ultimately show ?thesis
    using r enc_objects_inj [of "pm_object_references m" "pm_object_references n" m 0] by (simp add: rest_def cbor_head_inj)
qed

definition consistent_generation :: "manifest_parameters \<Rightarrow> bool" where
  "consistent_generation p \<longleftrightarrow> (mp_has_predecessor p \<longleftrightarrow> mp_generation p \<noteq> 1)"

definition distinct_frames :: "transformer_snapshot \<Rightarrow> bool" where
  "distinct_frames s \<longleftrightarrow> distinct (map sha256 (snapshot_frames s))"

lemma snapshot_policy_fields:
  "pm_store_uuid (snapshot_manifest s p) = mp_store_uuid p"
  "pm_checkpoint_lineage_id (snapshot_manifest s p) = id_checkpoint_lineage_id (ts_identity s)"
  "pm_scope_namespace (snapshot_manifest s p) = id_scope_namespace (ts_identity s)"
  "pm_policy_epoch (snapshot_manifest s p) = id_policy_epoch (ts_identity s)"
  "pm_predecessor_manifest_digest (snapshot_manifest s p) = mp_predecessor_manifest_digest p"
  "pm_compatibility_components (snapshot_manifest s p) = mp_compatibility_components p"
  "pm_compatibility_root (snapshot_manifest s p) = id_compatibility_root (ts_identity s)"
  "pm_authentication_key_id (snapshot_manifest s p) = mk_key_id (mp_signing_key p)"
  "pm_authentication_key_generation (snapshot_manifest s p) = mk_generation (mp_signing_key p)"
  "pm_authentication_tag (snapshot_manifest s p) =
     manifest_tag (span_bytes (mk_master_key (mp_signing_key p))) (snapshot_facts s p)"
  "pm_world_size (snapshot_manifest s p) = 1"
  "pm_topology_plan_schema_id (snapshot_manifest s p) = topology_schema"
  "pm_topology_execution_mode (snapshot_manifest s p) = execution_mode"
  "pm_global_plan_digest (snapshot_manifest s p) = mp_global_plan_digest p"
  "pm_topology_epoch (snapshot_manifest s p) = mp_topology_epoch p"
  "pm_rank_ownership (snapshot_manifest s p) = [mp_rank_ownership_digest p]"
  "pm_rank_placements (snapshot_manifest s p) = [mp_rank_placement_digest p]"
  "pm_state_profile_id (snapshot_manifest s p) = state_profile"
  "pm_producer_identity (snapshot_manifest s p) = mp_producer_identity p"
  "pm_durability_mode (snapshot_manifest s p) = mp_durability_mode p"
  "pm_authentication_input_offset (snapshot_manifest s p) = 2"
  "pm_authentication_input_size (snapshot_manifest s p) = length (manifest_auth_input (snapshot_facts s p))"
  "pm_compatibility_manifest_offset (snapshot_manifest s p) = 2 + length (manifest_prefix_bytes (snapshot_facts s p))"
  "pm_compatibility_manifest_size (snapshot_manifest s p) = length (compatibility_bytes (mp_compatibility_components p))"
  by (simp_all add: snapshot_manifest_def) (simp_all add: snapshot_facts_def)

lemma snapshot_reference_ok:
  assumes "arguments_ok s p l" "parameters_shape p" "identity_shape (ts_identity s)"
    and "frame \<in> set (snapshot_frames s)" "valid_registered_id stream" "valid_registered_id codec"
  shows "object_ok (snapshot_manifest s p) (snapshot_reference s p stream codec frame)"
proof -
  have "0 < length frame" "length frame \<le> unat (cl_max_frame_bytes l)"
    using assms(1,4) by (auto simp: arguments_ok_def snapshot_frames_def length_object_frame)
  then have "(of_nat (length frame) :: u64) \<noteq> 0"
    using unat_u64_bound [of "cl_max_frame_bytes l"] by (simp add: word_unat_eq_iff unat_of_nat)
  then show ?thesis
    using assms by (simp add: object_ok_def snapshot_reference_def snapshot_policy_fields
      snapshot_token_digest_def parameters_shape_def identity_shape_def)
qed

lemma snapshot_references_ok:
  assumes "arguments_ok s p l" "parameters_shape p" "identity_shape (ts_identity s)"
  shows "\<forall>r \<in> set (snapshot_references s p). object_ok (snapshot_manifest s p) r"
  using snapshot_reference_ok [OF assms] codec_names_valid by (simp add: snapshot_references_def snapshot_frames_def)

lemma snapshot_header:
  assumes "arguments_ok s p l" "parameters_shape p" "identity_shape (ts_identity s)"
  shows "header_placed (snapshot_manifest s p) \<longleftrightarrow> consistent_generation p"
proof -
  have "mp_has_predecessor p \<or> mp_predecessor_manifest_digest p = zero_digest"
    using assms not_nonzero_zero_digest [of "mp_predecessor_manifest_digest p"]
    by (auto simp: arguments_ok_def parameters_shape_def)
  then show ?thesis
    using assms codec_names_valid
    by (auto simp: header_placed_def header_ok_def topology_ok_def snapshot_policy_fields snapshot_manifest_bytes arguments_ok_def
      parameters_shape_def identity_shape_def consistent_generation_def compatibility_component_count_def manifest_max_ranks_def)
qed

lemma snapshot_trailer:
  assumes "arguments_ok s p l" "parameters_shape p"
  shows "trailer_ok (snapshot_manifest s p)"
  using assms valid_id_registered
  by (simp add: trailer_ok_def snapshot_policy_fields arguments_ok_def parameters_shape_def manifest_tag_def)

lemma snapshot_wf:
  assumes "arguments_ok s p l" "parameters_shape p" "identity_shape (ts_identity s)"
  shows "wf_manifest (snapshot_manifest s p) \<longleftrightarrow> consistent_generation p \<and> distinct_frames s"
proof -
  have "length (snapshot_references s p) = 2" "map or_object_id (snapshot_references s p) = map sha256 (snapshot_frames s)"
    by (simp_all add: snapshot_references_def snapshot_reference_def snapshot_frames_def)
  moreover have "pm_authentication_input_size (snapshot_manifest s p) = length (manifest_auth_input (snapshot_manifest s p))"
    by (simp add: snapshot_manifest_bytes snapshot_policy_fields)
  ultimately show ?thesis
    using snapshot_header [OF assms] snapshot_trailer [OF assms(1,2)] snapshot_references_ok [OF assms]
    by (auto simp: wf_manifest_def header_placed_def distinct_frames_def manifest_max_objects_def)
qed

lemma self_policy_accepts:
  assumes "arguments_ok s p l" "length (manifest_bytes (snapshot_manifest s p)) \<le> manifest_max_bytes"
    and "id_compatibility_root (ts_identity s) =
      sha256 (compatibility_domain @ compatibility_bytes (mp_compatibility_components p))"
  shows "manifest_verdict (self_policy s p (sha256 (manifest_domain @ manifest_bytes (snapshot_manifest s p))))
    (snapshot_manifest s p) = authenticated_unadmitted"
  unfolding verdict_accepts_iff
  using assms
  by (simp add: self_policy_def manifest_authentic_def manifest_authorized_def manifest_selected_def manifest_compatible_def
    predecessor_equal_def arguments_ok_def snapshot_policy_fields snapshot_manifest_bytes Let_def)

definition snapshot_encoding :: "transformer_snapshot \<Rightarrow> manifest_parameters \<Rightarrow> encoded_snapshot" where
  "snapshot_encoding s p = (let m = snapshot_manifest s p in
     \<lparr>es_manifest = manifest_bytes m, es_frames = snapshot_frames s,
      es_manifest_digest = sha256 (manifest_domain @ manifest_bytes m),
      es_admission_metadata = metadata_of m, es_admission_objects = pm_object_references m\<rparr>)"

lemma self_verify_iff:
  assumes args: "arguments_ok s p l" "parameters_shape p" "identity_shape (ts_identity s)"
    and len: "length (manifest_bytes (snapshot_manifest s p)) \<le> manifest_max_bytes"
    and root: "id_compatibility_root (ts_identity s) =
      sha256 (compatibility_domain @ compatibility_bytes (mp_compatibility_components p))"
  shows "self_verify s p (snapshot_frames s) (manifest_bytes (snapshot_manifest s p))
      (sha256 (manifest_domain @ manifest_bytes (snapshot_manifest s p))) = Inr e \<longleftrightarrow>
    consistent_generation p \<and> distinct_frames s \<and> e = snapshot_encoding s p"
proof (cases "consistent_generation p \<and> distinct_frames s")
  case True
  let ?m = "snapshot_manifest s p"
  have parsed: "context_store_parse_manifest_v1 (Span (manifest_bytes ?m)) = Inr ?m"
    using True snapshot_wf [OF args] len by (simp add: parse_manifest_iff)
  have auth: "vr_status (context_store_verify_manifest_v1 (Span (manifest_bytes ?m))
      (self_policy s p (sha256 (manifest_domain @ manifest_bytes ?m)))) = authenticated_unadmitted"
    using parsed self_policy_accepts [OF args(1) len root] verify_parsed_status [of ?m] True snapshot_wf [OF args] len
    by (simp add: context_store_verify_manifest_v1_def)
  have two: "length (pm_object_references ?m) = 2" by (simp add: snapshot_references_def)
  show ?thesis
    using True parsed auth two
    by (auto simp: self_verify_def Let_def authenticated_object_count_def authenticated_object_reference_def
      authenticated_manifest_metadata_of_def has_authenticated_carrier_def verify_carrier transformer_frame_count_def
      snapshot_encoding_def snapshot_references_def)
next
  case False
  let ?m = "snapshot_manifest s p" and ?v = "context_store_verify_manifest_v1 (Span (manifest_bytes (snapshot_manifest s p)))
      (self_policy s p (sha256 (manifest_domain @ manifest_bytes (snapshot_manifest s p))))"
  have "vr_status ?v \<noteq> authenticated_unadmitted"
  proof
    assume auth: "vr_status ?v = authenticated_unadmitted"
    then obtain n where n: "context_store_parse_manifest_v1 (Span (manifest_bytes ?m)) = Inr n"
      using verify_rejected_parse by (cases "context_store_parse_manifest_v1 (Span (manifest_bytes ?m))") fastforce+
    then have w: "wf_manifest n" "manifest_bytes ?m = manifest_bytes n" by (simp_all add: parse_manifest_iff)
    have "manifest_selected (vp_anchor (self_policy s p (sha256 (manifest_domain @ manifest_bytes ?m)))) n"
      using auth n verify_parsed_status [of n] w len
      by (simp add: context_store_verify_manifest_v1_def flip: verdict_accepts_iff) (simp add: verdict_accepts_iff)
    then have "consistent_generation p"
      using w(1) by (simp add: manifest_selected_def self_policy_def Let_def predecessor_equal_def wf_manifest_def header_ok_def
        consistent_generation_def)
    moreover have "distinct_frames s"
    proof -
      have "pm_object_references ?m = pm_object_references n"
        using manifest_references_unique [of ?m n] snapshot_header [OF args] snapshot_references_ok [OF args] w calculation
        by (simp add: snapshot_references_def manifest_max_objects_def)
      then show ?thesis using w(1)
        by (auto simp: wf_manifest_def distinct_frames_def snapshot_references_def snapshot_reference_def snapshot_frames_def
          dest!: sym [of "_ # _"])
    qed
    ultimately show False using False by blast
  qed
  then show ?thesis using False by (auto simp: self_verify_def Let_def)
qed

definition encode_stages :: "encode_stage list" where
  "encode_stages = [compatibility_stage, token_stage, frame_stage, signing_stage, manifest_stage]"

definition encodable ::
    "encode_allocator \<Rightarrow> transformer_snapshot \<Rightarrow> manifest_parameters \<Rightarrow> codec_limits \<Rightarrow> bool" where
  "encodable alloc s p l \<longleftrightarrow>
     arguments_ok s p l \<and> list_all (\<lambda>stage. alloc stage = allocated) encode_stages \<and>
     id_compatibility_root (ts_identity s) =
       sha256 (compatibility_domain @ compatibility_bytes (mp_compatibility_components p)) \<and>
     nonzero (snapshot_token_digest s) \<and> frames_hashable s \<and>
     length (manifest_bytes (snapshot_manifest s p)) \<le> unat (cl_max_manifest_bytes l) \<and>
     consistent_generation p \<and> distinct_frames s"

lemma encode_steps_iff:
  assumes "parameters_shape p" "identity_shape (ts_identity s)"
  shows "encode_steps alloc s p l = Inr e \<longleftrightarrow> encodable alloc s p l \<and> e = snapshot_encoding s p"
proof (cases "arguments_ok s p l")
  case False
  then have "encode_rejection s p l \<noteq> None" by (simp add: encode_rejection_None_iff)
  then show ?thesis using False by (auto simp: encode_steps_def encodable_def)
next
  case True
  then have none: "encode_rejection s p l = None" by (simp add: encode_rejection_None_iff)
  have small: "unat (cl_max_manifest_bytes l) \<le> manifest_max_bytes" using True by (simp add: arguments_ok_def)
  have body: "codec_auth_input (manifest_body s p (snapshot_token_digest s) (snapshot_frames s) (map sha256 (snapshot_frames s)))
      (mp_signing_key p) = manifest_auth_input (snapshot_facts s p)"
    using assms(1) by (intro codec_auth_input_eq) (simp add: parameters_shape_def)
  note frames = encode_frames_iff [OF True assms(1), of alloc] and signed = sign_manifest_iff [OF True assms body, of alloc]
    and verified = self_verify_iff [OF True assms]
  show ?thesis
  proof (cases "encode_frames alloc s p l")
    case (Inl st)
    then show ?thesis using none frames [of "(snapshot_token_digest s, snapshot_frames s, map sha256 (snapshot_frames s))"]
      by (auto simp: encode_steps_def encodable_def encode_stages_def)
  next
    case (Inr r)
    then have r: "r = (snapshot_token_digest s, snapshot_frames s, map sha256 (snapshot_frames s))"
      and conditions: "list_all (\<lambda>stage. alloc stage = allocated) [compatibility_stage, token_stage, frame_stage]"
        "id_compatibility_root (ts_identity s) = sha256 (compatibility_domain @ compatibility_bytes (mp_compatibility_components p))"
        "nonzero (snapshot_token_digest s)" "frames_hashable s"
      using frames [of r] by blast+
    show ?thesis
    proof (cases "sign_manifest alloc s p l
        (manifest_body s p (snapshot_token_digest s) (snapshot_frames s) (map sha256 (snapshot_frames s)))")
      case (Inl st)
      then show ?thesis
        using none Inr signed [of "(manifest_bytes (snapshot_manifest s p), sha256 (manifest_domain @ manifest_bytes (snapshot_manifest s p)))"]
        by (auto simp: r encode_steps_def encodable_def encode_stages_def)
    next
      case (Inr q)
      then show ?thesis
        using none \<open>encode_frames alloc s p l = _\<close> signed [of q] conditions small verified [of e] True
        by (auto simp: r encode_steps_def encodable_def encode_stages_def)
    qed
  qed
qed

lemma caught_real [simp]: "caught a \<noteq> encoded" "encoded \<noteq> caught a" "caught a \<noteq> decoded" "decoded \<noteq> caught a"
  by (simp_all add: caught_def)

lemma failed_status: "(if b then Inl st else r) = Inl st' \<longleftrightarrow> (if b then st = st' else r = Inl st')"
  by simp

lemma encode_never_fails_encoded: "encode_steps alloc s p l \<noteq> Inl encoded"
proof -
  have "encode_rejection s p l \<noteq> Some encoded"
    unfolding encode_rejection_def Let_def by (simp split: if_split)
  moreover have "encode_frames alloc s p l \<noteq> Inl encoded"
    unfolding encode_frames_def Let_def failed_status by (simp split: option.split)
  moreover have "sign_manifest alloc s p l body \<noteq> Inl encoded" for body
    unfolding sign_manifest_def Let_def failed_status by (simp add: failed_status split: option.split)
  moreover have "self_verify s p frames manifest d \<noteq> Inl encoded" for frames manifest d
    unfolding self_verify_def Let_def failed_status by (simp split: option.split prod.split)
  ultimately show ?thesis by (auto simp: encode_steps_def split: option.splits sum.splits)
qed

text \<open>
  C23: When the encoder succeeds and what it writes. The status is \<^verbatim>\<open>encoded\<close> exactly when the
  arguments pass the checks, the allocations succeed, the compatibility root is the hash of
  the sixteen components, the generation agrees with the presence of a predecessor, the two
  frames fit the bound of the hash and have different ids, and the signed manifest fits its
  limit; the output is then the canonical encoding of the manifest of the snapshot, its digest,
  frames and admission data, so the verification of its own output never fails without one of
  these causes. Every other outcome leaves a cleared result.
\<close>
theorem encode_exact:
  assumes "parameters_shape p" "identity_shape (ts_identity s)"
  shows "(er_status (encode_transformer_snapshot alloc s p l) = encoded \<longleftrightarrow> encodable alloc s p l) \<and>
    er_encoded (encode_transformer_snapshot alloc s p l) =
      (if encodable alloc s p l then snapshot_encoding s p else clear_encoded)"
proof (cases "encode_steps alloc s p l")
  case (Inl st)
  then show ?thesis
    using encode_steps_iff [OF assms, of alloc l] encode_never_fails_encoded [of alloc s p l]
    by (auto simp: encode_transformer_snapshot_def)
next
  case (Inr e)
  then show ?thesis using encode_steps_iff [OF assms, of alloc l e] by (simp add: encode_transformer_snapshot_def)
qed

subsection \<open>What the decoder accepts\<close>

lemma append_token_at:
  assumes "length bs = 4"
  shows "append_u32 (token_at bs 0) = bs"
proof -
  obtain a b c d where "bs = [a, b, c, d]"
    using assms by (auto simp: length_Suc_conv numeral_eq_Suc)
  moreover have high: "\<not> bit (w :: byte) (8 + n)" "\<not> bit w (16 + n)" "\<not> bit w (24 + n)" for w n
    by (auto dest: bit_imp_le_length)
  have "ucast (drop_bit 24 (token_at [a, b, c, d] 0)) = a" "ucast (drop_bit 16 (token_at [a, b, c, d] 0)) = b"
    "ucast (drop_bit 8 (token_at [a, b, c, d] 0)) = c" "ucast (token_at [a, b, c, d] 0) = d"
    by (auto simp: token_at_def bit_simps high intro!: bit_word_eqI)
  ultimately show ?thesis by (simp add: append_u32_def)
qed

lemma token_at_append: "token_at (append_u32 t @ bs) 0 = t"
proof (rule bit_word_eqI)
  fix n
  assume "n < LENGTH(32)"
  then consider "n < 8" | "8 \<le> n" "n < 16" | "16 \<le> n" "n < 24" | "24 \<le> n" "n < 32" by fastforce
  then show "bit (token_at (append_u32 t @ bs) 0) n = bit t n"
    by cases (auto simp: token_at_def append_u32_def bit_simps)
qed

lemma token_at_shift: "length as = k \<Longrightarrow> token_at (as @ bs) (k + n) = token_at bs n"
  by (simp add: token_at_def nth_append add.assoc)

lemma token_payload_Cons: "token_payload (t # ts) = append_u32 t @ token_payload ts"
  by (simp add: token_payload_def)

lemma token_at_payload: "i < length ts \<Longrightarrow> token_at (token_payload ts) (4 * i) = ts ! i"
proof (induction ts arbitrary: i)
  case (Cons t ts)
  then show ?case
  proof (cases i)
    case (Suc j)
    then have "token_at (token_payload (t # ts)) (4 * i) = token_at (append_u32 t @ token_payload ts) (4 + 4 * j)"
      by (simp add: token_payload_Cons)
    also have "\<dots> = token_at (token_payload ts) (4 * j)" by (rule token_at_shift) simp
    finally show ?thesis using Cons Suc by simp
  qed (simp add: token_payload_Cons token_at_append)
qed simp

lemma payload_of_tokens:
  "length bs = 4 * length ts \<Longrightarrow> (\<And>i. i < length ts \<Longrightarrow> token_at bs (4 * i) = ts ! i) \<Longrightarrow> bs = token_payload ts"
proof (induction ts arbitrary: bs)
  case (Cons t ts)
  define as cs where "as = take 4 bs" and "cs = drop 4 bs"
  have bs: "bs = as @ cs" "length as = 4" "length cs = 4 * length ts"
    using Cons.prems(1) by (simp_all add: as_def cs_def)
  have "token_at cs (4 * i) = ts ! i" if "i < length ts" for i
    using Cons.prems(2) [of "Suc i"] that token_at_shift [of as 4 cs "4 * i"] bs by simp
  then have "cs = token_payload ts" using Cons.IH bs(3) by blast
  moreover have "as = append_u32 t"
  proof -
    have "token_at as 0 = token_at bs 0" using bs by (simp add: token_at_def nth_append)
    then show ?thesis using append_token_at [of as] Cons.prems(2) [of 0] bs(2) by simp
  qed
  ultimately show ?case by (simp add: bs(1) token_payload_Cons)
qed (simp add: token_payload_def)

lemma decode_tokens_Inr:
  "decode_tokens payload expected js acc = Inr r \<longleftrightarrow>
     list_all (\<lambda>i. token_at payload (4 * i) = expected ! i) js \<and> r = acc @ map ((!) expected) js"
  by (induction js arbitrary: acc) (auto simp: Let_def)

lemma decode_tokens_all:
  assumes "length payload = 4 * n" "n \<le> length expected"
  shows "decode_tokens payload expected [0..<n] [] = Inr r \<longleftrightarrow> payload = token_payload (take n expected) \<and> r = take n expected"
proof -
  have take: "map ((!) expected) [0..<n] = take n expected" using assms(2) by (intro nth_equalityI) simp_all
  have "list_all (\<lambda>i. token_at payload (4 * i) = expected ! i) [0..<n] \<longleftrightarrow> payload = token_payload (take n expected)"
    using payload_of_tokens [of payload "take n expected"] token_at_payload [of _ "take n expected"] assms
    by (auto simp: list_all_length)
  then show ?thesis by (simp add: decode_tokens_Inr take)
qed

definition descriptor_fits :: "decode_request \<Rightarrow> byte list \<Rightarrow> byte list \<Rightarrow> nat \<Rightarrow> object_reference \<Rightarrow> bool" where
  "descriptor_fits q stream codec n d \<longleftrightarrow>
     or_stream_type d = stream \<and> or_codec_id d = codec \<and> or_required d \<and> or_has_logical_rank d \<and> or_logical_rank d = 0 \<and>
     or_rank_ownership_digest d = dq_rank_ownership_digest q \<and>
     or_compatibility_root d = id_compatibility_root (dq_compatibility_identity q) \<and>
     or_codec_schema_major d = 1 \<and> or_codec_schema_minor d = 0 \<and>
     or_logical_position d = dq_logical_position q \<and> or_output_boundary d = dq_output_boundary q \<and>
     or_frame_bytes d = expected_frame_size stream n"

definition request_ok :: "decode_request \<Rightarrow> bool" where
  "request_ok q \<longleftrightarrow>
     dq_expected_tokens q \<noteq> None \<and> 0 < dq_expected_token_count q \<and>
     dq_expected_token_count q \<le> tl_max_tokens (dq_limits q) \<and> 0 < tl_max_state_bytes (dq_limits q) \<and>
     nonzero (dq_producer_identity q) \<and> nonzero (dq_rank_ownership_digest q) \<and>
     identity_is_complete (dq_compatibility_identity q) \<and> profile_is_admitted (dq_profile q) \<and>
     unat (dq_logical_position q) = dq_expected_token_count q \<and> dq_output_boundary q \<le> dq_logical_position q"

definition candidate_fits :: "decode_request \<Rightarrow> read_only_candidate \<Rightarrow> bool" where
  "candidate_fits q c \<longleftrightarrow>
     rc_identity c = dq_compatibility_identity q \<and> am_producer_identity (rc_metadata c) = dq_producer_identity q \<and>
     am_state_profile_id (rc_metadata c) = state_profile \<and> am_world_size (rc_metadata c) = 1 \<and>
     am_topology_epoch (rc_metadata c) = dq_topology_epoch q"

text \<open>The two objects of a candidate carry these tokens and this state for the request.\<close>

definition objects_carry :: "decode_request \<Rightarrow> read_only_candidate \<Rightarrow> token list \<Rightarrow> byte list \<Rightarrow> bool" where
  "objects_carry q c ts st \<longleftrightarrow>
     (\<exists>d0 d1. rc_descriptors c = [d0, d1] \<and>
        descriptor_fits q token_stream token_codec (4 * length ts) d0 \<and>
        descriptor_fits q state_stream state_codec (length st) d1 \<and>
        candidate_payload c 0 = Span (token_payload ts) \<and> candidate_payload c 1 = Span st \<and>
        st \<noteq> [] \<and> length st \<le> tl_max_state_bytes (dq_limits q) \<and>
        (let digest = domain_hash token_digest_domain (token_payload ts) in
         nonzero digest \<and> or_token_sequence_digest d0 = digest \<and> or_token_sequence_digest d1 = digest))"

lemma decode_rejection_None_iff:
  "dq_candidate q \<noteq> None \<Longrightarrow> decode_rejection q = None \<longleftrightarrow> request_ok q"
  unfolding decode_rejection_def request_ok_def Let_def rejection_None codec_complete_eq by auto

lemma candidate_rejection_None_iff:
  "candidate_rejection q c = None \<longleftrightarrow> candidate_fits q c \<and> length (rc_descriptors c) = 2"
  unfolding candidate_rejection_def candidate_fits_def rejection_None
  by (auto simp: candidate_defs transformer_frame_count_def)

lemma descriptor_rejection_None_iff:
  "descriptor_rejection q d0 d1 (Span tp) (Span sp) = None \<longleftrightarrow>
     descriptor_fits q token_stream token_codec (length tp) d0 \<and> descriptor_fits q state_stream state_codec (length sp) d1 \<and>
     length tp = 4 * dq_expected_token_count q \<and> length sp \<le> tl_max_state_bytes (dq_limits q)"
  unfolding descriptor_rejection_def descriptor_fits_def rejection_None by auto

definition decode_stages :: "decode_stage list" where
  "decode_stages = [digest_stage, decoded_tokens_stage, decoded_state_stage]"

definition requested_snapshot :: "decode_request \<Rightarrow> token list \<Rightarrow> byte list \<Rightarrow> transformer_snapshot" where
  "requested_snapshot q ts st = \<lparr>ts_identity = dq_compatibility_identity q, ts_profile = dq_profile q,
     ts_tokens = ts, ts_state = st\<rparr>"

lemma decode_payloads_iff:
  assumes "length tp = 4 * n" "n \<le> length ts" "dq_expected_tokens q = Some ts"
  shows "decode_payloads alloc q d0 d1 tp sp = Inr r \<longleftrightarrow>
    list_all (\<lambda>stage. alloc stage = allocated) decode_stages \<and> tp = token_payload (take n ts) \<and>
    (let digest = domain_hash token_digest_domain tp in
     nonzero digest \<and> or_token_sequence_digest d0 = digest \<and> or_token_sequence_digest d1 = digest) \<and>
    r = requested_snapshot q (take n ts) sp"
proof -
  have l: "length tp div 4 = n" using assms(1) by simp
  show ?thesis
  proof (cases "decode_tokens tp ts [0..<n] []")
    case (Inl st)
    then show ?thesis using decode_tokens_all [OF assms(1,2)] by (auto simp: decode_payloads_def assms(3) l Let_def)
  next
    case (Inr x)
    then show ?thesis using decode_tokens_all [OF assms(1,2), of x]
      by (auto simp: decode_payloads_def assms(2,3) l Let_def decode_stages_def requested_snapshot_def min_absorb2)
  qed
qed

lemma decode_candidate_iff:
  assumes "length (rc_descriptors c) = 2" "n \<le> length ts" "dq_expected_tokens q = Some ts" "dq_expected_token_count q = n" "0 < n"
  shows "decode_candidate alloc q c = Inr r \<longleftrightarrow>
    list_all (\<lambda>stage. alloc stage = allocated) decode_stages \<and>
    (\<exists>st. objects_carry q c (take n ts) st \<and> r = requested_snapshot q (take n ts) st)"
proof -
  obtain d0 d1 where d: "rc_descriptors c = [d0, d1]" using assms(1) by (auto simp: length_Suc_conv numeral_2_eq_2)
  have desc: "candidate_descriptor c 0 = Some d0" "candidate_descriptor c 1 = Some d1" by (simp_all add: candidate_descriptor_def d)
  have len: "length (take n ts) = n" using assms(2) by simp
  show ?thesis
  proof (cases "\<exists>tp sp. candidate_payload c 0 = Span tp \<and> candidate_payload c 1 = Span sp \<and> tp \<noteq> [] \<and> sp \<noteq> []")
    case True
    then obtain tp sp where p: "candidate_payload c 0 = Span tp" "candidate_payload c 1 = Span sp" "tp \<noteq> []" "sp \<noteq> []" by blast
    have step: "decode_candidate alloc q c =
        (case descriptor_rejection q d0 d1 (Span tp) (Span sp) of
           Some st \<Rightarrow> Inl st | None \<Rightarrow> decode_payloads alloc q d0 d1 tp sp)"
      using p desc by (simp add: decode_candidate_def Let_def split: option.split)
    show ?thesis
    proof (cases "descriptor_rejection q d0 d1 (Span tp) (Span sp)")
      case None
      then have l: "length tp = 4 * n" and f: "descriptor_fits q token_stream token_codec (length tp) d0"
        "descriptor_fits q state_stream state_codec (length sp) d1" "length sp \<le> tl_max_state_bytes (dq_limits q)"
        using assms(4) unfolding descriptor_rejection_None_iff by blast+
      show ?thesis
        unfolding step None option.case decode_payloads_iff [OF l assms(2,3)]
        using f l p len by (auto simp: objects_carry_def d)
    next
      case (Some st)
      then have "\<not> objects_carry q c (take n ts) x" for x
        using p len assms(4) descriptor_rejection_None_iff [of q d0 d1 tp sp] by (auto simp: objects_carry_def d)
      then show ?thesis unfolding step Some by simp
    qed
  next
    case False
    have "token_payload (take n ts) \<noteq> []" using assms(5) len by (metis length_token_payload list.size(3) mult_is_0 neq0_conv zero_neq_numeral)
    then have "\<not> objects_carry q c (take n ts) x" for x using False by (auto simp: objects_carry_def)
    moreover have "decode_candidate alloc q c = Inl corrupt_payload"
      using False desc by (cases "candidate_payload c 0"; cases "candidate_payload c 1") (auto simp: decode_candidate_def Let_def)
    ultimately show ?thesis by simp
  qed
qed

definition decodable :: "(decode_stage \<Rightarrow> allocation) \<Rightarrow> decode_request \<Rightarrow> byte list \<Rightarrow> bool" where
  "decodable alloc q st \<longleftrightarrow>
     list_all (\<lambda>stage. alloc stage = allocated) decode_stages \<and> request_ok q \<and>
     (\<exists>c. dq_candidate q = Some c \<and> candidate_fits q c \<and>
        objects_carry q c (take (dq_expected_token_count q) (the (dq_expected_tokens q))) st)"

lemma decode_steps_iff:
  assumes "case dq_expected_tokens q of None \<Rightarrow> True | Some ts \<Rightarrow> dq_expected_token_count q \<le> length ts"
  shows "decode_steps alloc q = Inr r \<longleftrightarrow>
    (\<exists>st. decodable alloc q st \<and>
       r = requested_snapshot q (take (dq_expected_token_count q) (the (dq_expected_tokens q))) st)"
proof (cases "dq_candidate q")
  case None
  then show ?thesis by (simp add: decode_steps_def decode_rejection_def decodable_def)
next
  case (Some c)
  have some: "dq_candidate q \<noteq> None" using Some by simp
  show ?thesis
  proof (cases "request_ok q \<and> candidate_fits q c \<and> length (rc_descriptors c) = 2")
    case True
    then obtain ts where ts: "dq_expected_tokens q = Some ts" "0 < dq_expected_token_count q" by (auto simp: request_ok_def)
    have "decode_steps alloc q = decode_candidate alloc q c"
      using True Some decode_rejection_None_iff [OF some] candidate_rejection_None_iff [of q c] by (simp add: decode_steps_def Let_def)
    then show ?thesis
      using decode_candidate_iff [of c "dq_expected_token_count q" ts q alloc r] True Some ts assms by (auto simp: decodable_def)
  next
    case False
    then have "\<not> decodable alloc q st" for st using Some by (auto simp: decodable_def objects_carry_def)
    then show ?thesis
      using False Some decode_rejection_None_iff [OF some] candidate_rejection_None_iff [of q c]
      by (auto simp: decode_steps_def Let_def split: option.splits)
  qed
qed

lemma decode_never_fails_decoded: "decode_steps alloc q \<noteq> Inl decoded"
proof -
  have "decode_rejection q \<noteq> Some decoded" "candidate_rejection q c \<noteq> Some decoded"
    "descriptor_rejection q d0 d1 tp sp \<noteq> Some decoded" for c d0 d1 tp sp
    unfolding decode_rejection_def candidate_rejection_def descriptor_rejection_def by (simp_all split: if_split)
  moreover have "decode_tokens payload expected js acc \<noteq> Inl decoded" for payload expected js acc
    by (induction js arbitrary: acc) (simp_all add: Let_def)
  then have "decode_payloads alloc q d0 d1 tp sp \<noteq> Inl decoded" for d0 d1 tp sp
    unfolding decode_payloads_def Let_def failed_status by (auto split: sum.split)
  ultimately show ?thesis
    by (auto simp: decode_steps_def decode_candidate_def Let_def split: option.splits if_splits)
qed

text \<open>
  C35: What the decoder accepts. Given an expected-token array at least as long as its count,
  the status is \<^verbatim>\<open>decoded\<close> exactly when the request is complete, the candidate has its identity,
  producer, profile, world and epoch, and its two objects carry the big-endian bytes of the
  expected tokens and some state within the limit, under the descriptors and the token digest
  of the codec; the snapshot is then the requested identity and profile with those tokens and
  that state, and otherwise it is empty.
\<close>
theorem decode_exact:
  assumes "case dq_expected_tokens q of None \<Rightarrow> True | Some ts \<Rightarrow> dq_expected_token_count q \<le> length ts"
  shows "(dr_status (decode_transformer_snapshot alloc q) = decoded \<longleftrightarrow> (\<exists>st. decodable alloc q st)) \<and>
    (if \<exists>st. decodable alloc q st
     then \<exists>st. decodable alloc q st \<and> dr_snapshot (decode_transformer_snapshot alloc q) =
       requested_snapshot q (take (dq_expected_token_count q) (the (dq_expected_tokens q))) st
     else dr_snapshot (decode_transformer_snapshot alloc q) = empty_snapshot)"
proof (cases "decode_steps alloc q")
  case (Inl st)
  then show ?thesis
    using decode_steps_iff [OF assms, of alloc] decode_never_fails_decoded [of alloc q]
    by (auto simp: decode_transformer_snapshot_def)
next
  case (Inr r)
  then show ?thesis using decode_steps_iff [OF assms, of alloc r] by (auto simp: decode_transformer_snapshot_def)
qed

subsection \<open>The round trip through the read-only provider\<close>

text \<open>The source the encoded snapshot gives, and a request for it.\<close>

definition encoded_source ::
    "encoded_snapshot \<Rightarrow> manifest_verification_policy \<Rightarrow> object_limits \<Rightarrow> u64 \<Rightarrow> read_only_source" where
  "encoded_source e policy limits total_bytes = \<lparr>rs_manifest = Span (es_manifest e), rs_policy = policy,
     rs_admission_manifest = es_admission_metadata e, rs_admission_objects = Some (es_admission_objects e),
     rs_admission_object_count = length (es_admission_objects e), rs_frames = Some (map Span (es_frames e)),
     rs_frame_count = length (es_frames e), rs_object_limits = limits, rs_max_total_frame_bytes = total_bytes\<rparr>"

definition snapshot_request ::
    "transformer_snapshot \<Rightarrow> manifest_parameters \<Rightarrow> transformer_limits \<Rightarrow> read_only_candidate option \<Rightarrow> decode_request" where
  "snapshot_request s p limits c = \<lparr>dq_candidate = c, dq_expected_tokens = Some (ts_tokens s),
     dq_expected_token_count = length (ts_tokens s), dq_compatibility_identity = ts_identity s, dq_profile = ts_profile s,
     dq_producer_identity = mp_producer_identity p, dq_rank_ownership_digest = mp_rank_ownership_digest p,
     dq_topology_epoch = mp_topology_epoch p, dq_logical_position = mp_logical_position p,
     dq_output_boundary = mp_output_boundary p, dq_limits = limits\<rparr>"

text \<open>Limits of the reader that admit what the encoder was allowed to write.\<close>

definition reader_limits :: "transformer_snapshot \<Rightarrow> object_limits \<Rightarrow> u64 \<Rightarrow> bool" where
  "reader_limits s limits total_bytes \<longleftrightarrow>
     usable_limits limits \<and> list_all (\<lambda>frame. length frame \<le> unat (ol_max_frame_bytes limits)) (snapshot_frames s) \<and>
     4 * length (ts_tokens s) \<le> unat (ol_max_payload_bytes limits) \<and>
     length (ts_state s) \<le> unat (ol_max_payload_bytes limits) \<and>
     sum_list (map length (snapshot_frames s)) \<le> unat total_bytes"

lemma metadata_equal_refl:
  "length (am_rank_ownership m) \<le> manifest_max_ranks \<Longrightarrow> metadata_equal m m"
  by (simp add: metadata_equal_def rank_count_def list_all_iff)

definition snapshot_payloads :: "transformer_snapshot \<Rightarrow> byte list list" where
  "snapshot_payloads s = [token_payload (ts_tokens s), ts_state s]"

lemma snapshot_frames_carry:
  assumes "reader_limits s limits total_bytes"
  shows "frames_carry limits (snapshot_references s p) (snapshot_frames s) (snapshot_payloads s)"
proof -
  have "unat (of_nat n :: u64) = n" if "n \<le> unat (ol_max_frame_bytes limits)" for n
    using that unat_u64_bound [of "ol_max_frame_bytes limits"] by (simp add: unat_of_nat)
  then show ?thesis
    using assms codec_streams_valid
    by (simp add: frames_carry_def frame_matches_def snapshot_references_def snapshot_reference_def snapshot_frames_def
      snapshot_payloads_def reader_limits_def)
qed

definition snapshot_source :: "transformer_snapshot \<Rightarrow> manifest_parameters \<Rightarrow> object_limits \<Rightarrow> u64 \<Rightarrow> read_only_source" where
  "snapshot_source s p limits total_bytes =
     encoded_source (snapshot_encoding s p) (self_policy s p (es_manifest_digest (snapshot_encoding s p))) limits total_bytes"

lemma snapshot_source_fields:
  "rs_manifest (snapshot_source s p limits t) = Span (manifest_bytes (snapshot_manifest s p))"
  "rs_policy (snapshot_source s p limits t) =
     self_policy s p (sha256 (manifest_domain @ manifest_bytes (snapshot_manifest s p)))"
  "rs_admission_manifest (snapshot_source s p limits t) = metadata_of (snapshot_manifest s p)"
  "rs_admission_objects (snapshot_source s p limits t) = Some (snapshot_references s p)"
  "rs_admission_object_count (snapshot_source s p limits t) = 2"
  "rs_frames (snapshot_source s p limits t) = Some (map Span (snapshot_frames s))"
  "rs_frame_count (snapshot_source s p limits t) = 2"
  "rs_object_limits (snapshot_source s p limits t) = limits"
  "rs_max_total_frame_bytes (snapshot_source s p limits t) = t"
  by (simp_all add: snapshot_source_def encoded_source_def snapshot_encoding_def Let_def snapshot_references_def
    snapshot_frames_def)

lemma snapshot_source_valid:
  assumes "encodable alloc s p l" "reader_limits s limits t"
  shows "valid_source (snapshot_source s p limits t)"
proof -
  obtain f g where fg: "snapshot_frames s = [f, g]" "f \<noteq> []" "g \<noteq> []" by (simp add: snapshot_frames_def)
  have sum: "unat (0 :: u64) + (length f + length g) \<le> unat t" using assms(2) by (simp add: reader_limits_def fg)
  have "frames_within t 0 [Span f, Span g]"
    using fg(2,3) aggregate_step [OF sum] aggregate_step(1) [of "of_nat (length f)" "length g" 0 t] by simp
  moreover have "ol_max_frame_bytes limits \<noteq> 0" "ol_max_payload_bytes limits \<noteq> 0" "t \<noteq> 0"
    using assms(2) sum fg(2) by (auto simp: reader_limits_def usable_limits_def minimum_frame_bytes_def)
  moreover have "manifest_bytes m \<noteq> []" for m by (simp add: manifest_bytes_def)
  moreover have "length (manifest_bytes (snapshot_manifest s p)) \<le> manifest_max_bytes"
    "usable_key (mk_master_key (mp_signing_key p))"
    using assms(1) by (auto simp: encodable_def arguments_ok_def)
  ultimately show ?thesis
    by (simp add: valid_source_def Let_def snapshot_source_fields source_frames_def fg self_policy_def usable_key_def
      manifest_max_objects_def)
qed

definition ready :: lookup_allocator where
  "ready = \<lparr>la_reserve = True, la_candidate = True\<rparr>"

text \<open>What a lookup by the snapshot's identity yields from a provider over the encoded snapshot.\<close>

lemma snapshot_lookup:
  assumes shape: "parameters_shape p" "identity_shape (ts_identity s)" and enc: "encodable alloc s p l"
    and prov: "make_read_only_provider (snapshot_source s p limits t) = Some r"
  shows "lr_candidate (read_only_lookup ready r (ts_identity s)) = Some c \<longleftrightarrow>
    (\<exists>payloads. frames_carry limits (snapshot_references s p) (snapshot_frames s) payloads \<and>
       c = manifest_candidate (snapshot_manifest s p) payloads)"
proof -
  let ?m = "snapshot_manifest s p"
  have args: "arguments_ok s p l" and len: "length (manifest_bytes ?m) \<le> manifest_max_bytes"
    and root: "id_compatibility_root (ts_identity s) =
      sha256 (compatibility_domain @ compatibility_bytes (mp_compatibility_components p))"
    and wf: "wf_manifest ?m"
    using enc snapshot_wf [of s p l] shape by (auto simp: encodable_def arguments_ok_def)
  note copy = provider_copy [OF prov, unfolded snapshot_source_fields]
  have parsed: "context_store_parse_manifest_v1 (Span (ro_manifest r)) = Inr ?m"
    using wf len by (simp add: parse_manifest_iff copy(1))
  have auth: "vr_status (context_store_verify_manifest_v1 (Span (ro_manifest r)) (ro_policy r)) = authenticated_unadmitted"
    using parsed self_policy_accepts [OF args len root] verify_parsed_status [OF wf len]
    by (simp add: copy(1,2) context_store_verify_manifest_v1_def)
  have frames: "ro_frames r = snapshot_frames s"
    using copy(3) by (simp add: source_frames_def snapshot_source_fields snapshot_frames_def map_eq_Cons_conv)
  have "ts_identity s = manifest_identity ?m"
    by (cases "ts_identity s") (simp add: manifest_identity_def snapshot_policy_fields)
  moreover have "metadata_equal (metadata_of ?m) (metadata_of ?m)"
    by (rule metadata_equal_refl) (simp add: metadata_of_def snapshot_policy_fields manifest_max_ranks_def)
  ultimately show ?thesis
    using lookup_candidate_iff [OF parsed auth copy(7), of ready "ts_identity s" c]
    by (simp add: copy(4,5,6) frames ready_def snapshot_references_def)
qed

lemma object_frame_inj:
  assumes "object_frame_bytes a x = object_frame_bytes a y"
  shows "x = y"
proof -
  have "length x = length y" using arg_cong [OF assms, of length] by (simp add: length_object_frame)
  then show ?thesis using assms by (simp add: object_frame_bytes_def)
qed

lemma frames_carry_two:
  "frames_carry limits [r0, r1] [f0, f1] payloads \<longleftrightarrow>
     usable_limits limits \<and>
     (\<exists>x y. payloads = [x, y] \<and> frame_matches limits r0 f0 x \<and> frame_matches limits r1 f1 y)"
  by (auto simp: frames_carry_def list_all2_Cons1)

lemma frame_matches_snapshot:
  assumes "frame_matches limits (snapshot_reference s p stream codec f) (object_frame_bytes stream payload) x"
  shows "x = payload \<and> length payload \<le> unat (ol_max_payload_bytes limits) \<and>
    length (object_frame_bytes stream payload) \<le> unat (ol_max_frame_bytes limits)"
proof -
  have "object_frame_bytes stream payload = object_frame_bytes stream x"
    using assms by (simp add: frame_matches_def snapshot_reference_def)
  then have "payload = x" by (rule object_frame_inj)
  then show ?thesis using assms by (simp add: frame_matches_def snapshot_reference_def)
qed

lemma carried_payloads:
  assumes "frames_carry limits (snapshot_references s p) (snapshot_frames s) payloads"
  shows "payloads = snapshot_payloads s \<and> usable_limits limits \<and>
    list_all (\<lambda>frame. length frame \<le> unat (ol_max_frame_bytes limits)) (snapshot_frames s) \<and>
    4 * length (ts_tokens s) \<le> unat (ol_max_payload_bytes limits) \<and>
    length (ts_state s) \<le> unat (ol_max_payload_bytes limits)"
proof -
  obtain x y where xy: "payloads = [x, y]" "usable_limits limits"
    "frame_matches limits (snapshot_reference s p token_stream token_codec (snapshot_frames s ! 0))
       (object_frame_bytes token_stream (token_payload (ts_tokens s))) x"
    "frame_matches limits (snapshot_reference s p state_stream state_codec (snapshot_frames s ! 1))
       (object_frame_bytes state_stream (ts_state s)) y"
    using assms by (auto simp: snapshot_references_def frames_carry_two snapshot_frames_def)
  from frame_matches_snapshot [OF xy(3)] frame_matches_snapshot [OF xy(4)] xy(1,2) show ?thesis
    by (simp add: snapshot_payloads_def snapshot_frames_def)
qed

lemma snapshot_decodable:
  assumes shape: "parameters_shape p" and enc: "encodable alloc s p l"
  shows "decodable (\<lambda>_. allocated) (snapshot_request s p (cl_snapshot l)
      (Some (manifest_candidate (snapshot_manifest s p) (snapshot_payloads s)))) (ts_state s)"
proof -
  let ?q = "snapshot_request s p (cl_snapshot l) (Some (manifest_candidate (snapshot_manifest s p) (snapshot_payloads s)))"
  let ?c = "manifest_candidate (snapshot_manifest s p) (snapshot_payloads s)"
  have args: "arguments_ok s p l" and hash: "frames_hashable s" and digest: "nonzero (snapshot_token_digest s)"
    using enc by (auto simp: encodable_def)
  have sizes: "expected_frame_size token_stream (4 * length (ts_tokens s)) = of_nat (length (snapshot_frames s ! 0))"
    "expected_frame_size state_stream (length (ts_state s)) = of_nat (length (snapshot_frames s ! 1))"
    using hash by (simp_all add: expected_frame_size_eq snapshot_frames_def length_object_frame frames_hashable_def
      crypto_input_max_bytes_def manifest_max_bytes_def)
  have fits: "request_ok ?q" "candidate_fits ?q ?c"
    using args by (simp_all add: request_ok_def candidate_fits_def snapshot_request_def arguments_ok_def manifest_candidate_def
      manifest_identity_def metadata_of_def snapshot_policy_fields)
  have "objects_carry ?q ?c (ts_tokens s) (ts_state s)"
    unfolding objects_carry_def Let_def token_hash [OF hash]
    using args digest sizes
    by (simp add: manifest_candidate_def snapshot_references_def snapshot_reference_def descriptor_fits_def snapshot_request_def
      candidate_payload_def snapshot_payloads_def arguments_ok_def)
  then show ?thesis using fits by (simp add: decodable_def decode_stages_def) (simp add: snapshot_request_def)
qed

lemma cleared_source_invalid: "\<not> valid_source (encoded_source clear_encoded policy limits t)"
  by (simp add: valid_source_def encoded_source_def clear_encoded_def Let_def)

text \<open>The three operations in sequence, on a machine that does not run out of memory.\<close>

definition stored_and_loaded ::
    "encode_allocator \<Rightarrow> transformer_snapshot \<Rightarrow> manifest_parameters \<Rightarrow> codec_limits \<Rightarrow> object_limits \<Rightarrow> u64
      \<Rightarrow> decode_result option" where
  "stored_and_loaded alloc s p l limits total_bytes =
     (let e = er_encoded (encode_transformer_snapshot alloc s p l);
          source = encoded_source e (self_policy s p (es_manifest_digest e)) limits total_bytes in
      case make_read_only_provider source of
        None \<Rightarrow> None
      | Some r \<Rightarrow> (case lr_candidate (read_only_lookup ready r (ts_identity s)) of
          None \<Rightarrow> None
        | Some c \<Rightarrow> Some (decode_transformer_snapshot (\<lambda>_. allocated) (snapshot_request s p (cl_snapshot l) (Some c)))))"

lemma snapshot_decoded:
  assumes "parameters_shape p" "encodable alloc s p l"
  shows "decode_transformer_snapshot (\<lambda>_. allocated) (snapshot_request s p (cl_snapshot l)
      (Some (manifest_candidate (snapshot_manifest s p) (snapshot_payloads s)))) = \<lparr>dr_status = decoded, dr_snapshot = s\<rparr>"
proof -
  let ?q = "snapshot_request s p (cl_snapshot l) (Some (manifest_candidate (snapshot_manifest s p) (snapshot_payloads s)))"
  have "case dq_expected_tokens ?q of None \<Rightarrow> True | Some ts \<Rightarrow> dq_expected_token_count ?q \<le> length ts"
    "requested_snapshot ?q (take (dq_expected_token_count ?q) (the (dq_expected_tokens ?q))) (ts_state s) = s"
    by (simp_all add: snapshot_request_def requested_snapshot_def)
  then have "decode_steps (\<lambda>_. allocated) ?q = Inr s"
    using decode_steps_iff [of ?q "\<lambda>_. allocated" s] snapshot_decodable [OF assms] by metis
  then show ?thesis by (simp add: decode_transformer_snapshot_def)
qed

lemma stored_step:
  assumes "parameters_shape p" "identity_shape (ts_identity s)"
  shows "stored_and_loaded alloc s p l limits t =
    (if encodable alloc s p l then
       (case make_read_only_provider (snapshot_source s p limits t) of
          None \<Rightarrow> None
        | Some r \<Rightarrow> (case lr_candidate (read_only_lookup ready r (ts_identity s)) of
            None \<Rightarrow> None
          | Some c \<Rightarrow> Some (decode_transformer_snapshot (\<lambda>_. allocated) (snapshot_request s p (cl_snapshot l) (Some c)))))
     else None)"
proof -
  have "er_encoded (encode_transformer_snapshot alloc s p l) =
      (if encodable alloc s p l then snapshot_encoding s p else clear_encoded)"
    using encode_steps_iff [OF assms, of alloc l]
    by (cases "encode_steps alloc s p l") (auto simp: encode_transformer_snapshot_def)
  then show ?thesis
    by (simp add: stored_and_loaded_def Let_def snapshot_source_def make_read_only_provider_def cleared_source_invalid)
qed

text \<open>A provider whose limits do not admit the snapshot never serves it.\<close>

lemma unreadable_lookup:
  assumes "parameters_shape p" "identity_shape (ts_identity s)" "encodable alloc s p l" "\<not> reader_limits s limits t"
    and r: "make_read_only_provider (snapshot_source s p limits t) = Some r"
  shows "lr_candidate (read_only_lookup ready r (ts_identity s)) = None"
proof (rule ccontr)
  assume "lr_candidate (read_only_lookup ready r (ts_identity s)) \<noteq> None"
  then obtain payloads where "frames_carry limits (snapshot_references s p) (snapshot_frames s) payloads"
    using snapshot_lookup [OF assms(1-3) r] by blast
  note carried = carried_payloads [OF this]
  note copy = provider_copy [OF r, unfolded snapshot_source_fields]
  have "ro_frames r = snapshot_frames s"
    using copy(3) by (simp add: source_frames_def snapshot_source_fields snapshot_frames_def map_eq_Cons_conv)
  moreover have "ro_max_total_frame_bytes r = t"
    using r by (auto simp: make_read_only_provider_def v1_read_only_provider_def Let_def snapshot_source_fields split: if_splits)
  ultimately show False using assms(4) carried copy(7) by (simp add: reader_limits_def)
qed

text \<open>
  C2: Round trip. Encoding a snapshot, serving the output from a read-only provider under the
  policy of the encoder, looking it up by its identity and decoding the candidate returns the
  very snapshot exactly when the snapshot is encodable and the limits of the reader admit its
  frames and payloads; otherwise the snapshot is never returned.
\<close>
theorem encode_serve_decode:
  assumes "parameters_shape p" "identity_shape (ts_identity s)"
  shows "stored_and_loaded alloc s p l limits t = Some \<lparr>dr_status = decoded, dr_snapshot = s\<rparr> \<longleftrightarrow>
    encodable alloc s p l \<and> reader_limits s limits t"
proof (cases "encodable alloc s p l \<and> reader_limits s limits t")
  case True
  then obtain r where r: "make_read_only_provider (snapshot_source s p limits t) = Some r"
    using snapshot_source_valid [of alloc s p l limits t] by (simp add: make_read_only_provider_def)
  have "lr_candidate (read_only_lookup ready r (ts_identity s)) =
      Some (manifest_candidate (snapshot_manifest s p) (snapshot_payloads s))"
    using snapshot_lookup [OF assms _ r] snapshot_frames_carry True by blast
  then show ?thesis using True snapshot_decoded [OF assms(1), of alloc s l] by (simp add: stored_step [OF assms] r)
next
  case False
  then show ?thesis
    using unreadable_lookup [OF assms] by (auto simp: stored_step [OF assms] split: option.splits)
qed

subsection \<open>What the inspection promises\<close>

lemma frame_overheads: "frame_overhead token_stream = 60" "frame_overhead state_stream = 71"
  by (simp_all add: frame_overhead_def)

lemma inspected_descriptors:
  assumes "\<not> inspect_wrong_descriptor q t st"
  shows "or_stream_type t = token_stream" "or_stream_type st = state_stream" "or_logical_position t \<noteq> 0"
    "unat (or_logical_position t) \<le> tl_max_tokens (cl_snapshot (iq_limits q))"
    "unat (or_frame_bytes t) = 60 + 4 * unat (or_logical_position t)"
    "71 < unat (or_frame_bytes st)" "unat (or_frame_bytes st) - 71 \<le> tl_max_state_bytes (cl_snapshot (iq_limits q))"
proof -
  have t: "or_stream_type t = token_stream" "or_stream_type st = state_stream" "or_logical_position t \<noteq> 0"
    "unat (or_logical_position t) \<le> tl_max_tokens (cl_snapshot (iq_limits q))"
    and lp: "or_logical_position t \<le> (- 1 - 60) div 4" "or_frame_bytes t = 60 + or_logical_position t * 4"
    and fb: "71 < or_frame_bytes st" "unat (or_frame_bytes st - 71) \<le> tl_max_state_bytes (cl_snapshot (iq_limits q))"
    using assms by (simp_all add: inspect_wrong_descriptor_def frame_overheads not_less not_le)
  show "or_stream_type t = token_stream" "or_stream_type st = state_stream" "or_logical_position t \<noteq> 0"
    "unat (or_logical_position t) \<le> tl_max_tokens (cl_snapshot (iq_limits q))" by (fact t)+
  have "unat (or_logical_position t) \<le> unat ((- 1 - 60) div 4 :: u64)" using lp(1) by (simp only: word_le_nat_alt)
  then have "unat (or_logical_position t) \<le> (2 ^ 64 - 61) div 4" by (simp add: unat_div)
  then show "unat (or_frame_bytes t) = 60 + 4 * unat (or_logical_position t)"
    unfolding lp(2) by (simp add: unat_word_ariths)
  have le: "71 \<le> or_frame_bytes st" using fb(1) by simp
  show "71 < unat (or_frame_bytes st)" using fb(1) by (simp add: word_less_nat_alt)
  show "unat (or_frame_bytes st) - 71 \<le> tl_max_state_bytes (cl_snapshot (iq_limits q))"
    using fb(2) le by (simp add: unat_sub)
qed

text \<open>
  C36: What an inspection promises before any payload is loaded. When it accepts two object
  references, every frame that verifies against the first carries exactly the reported number
  of four-byte tokens, which is positive and within the limit, and every frame that verifies
  against the second carries a non-empty state within the limit.
\<close>
theorem inspect_promise:
  assumes "ir_status (inspect_transformer_manifest q) = decoded" and "iq_objects q = Some [d0, d1]"
    and "frame_matches limits d0 f0 tokens" and "frame_matches limits d1 f1 state_bytes"
  shows "length tokens = 4 * ir_token_count (inspect_transformer_manifest q) \<and>
    0 < ir_token_count (inspect_transformer_manifest q) \<and>
    ir_token_count (inspect_transformer_manifest q) \<le> tl_max_tokens (cl_snapshot (iq_limits q)) \<and>
    state_bytes \<noteq> [] \<and> length state_bytes \<le> tl_max_state_bytes (cl_snapshot (iq_limits q))"
proof -
  have ok: "\<not> inspect_wrong_descriptor q d0 d1"
    and n: "ir_token_count (inspect_transformer_manifest q) = unat (or_logical_position d0)"
    using assms(1,2) by (auto simp: inspect_transformer_manifest_def Let_def split: if_splits)
  note d = inspected_descriptors [OF ok]
  have "length f0 = 60 + length tokens" "length f1 = 71 + length state_bytes"
    using assms(3,4) d(1,2) by (simp_all add: frame_matches_def length_object_frame)
  then have "60 + length tokens = 60 + 4 * unat (or_logical_position d0)" "unat (or_frame_bytes d1) = 71 + length state_bytes"
    using assms(3,4) d(5) by (simp_all add: frame_matches_def)
  then show ?thesis using d(3,4,6,7) by (auto simp: n unat_gt_0)
qed

subsection \<open>Concrete inputs\<close>

definition sample_key :: manifest_key_record where
  "sample_key = \<lparr>mk_disposition = active, mk_key_id = [0x6b], mk_generation = 1, mk_master_key = Span (replicate 32 9)\<rparr>"

definition sample_parameters :: manifest_parameters where
  "sample_parameters = \<lparr>mp_store_uuid = replicate 16 1, mp_compatibility_components = replicate 16 (replicate 32 2),
     mp_producer_identity = replicate 32 3, mp_global_plan_digest = replicate 32 4, mp_rank_ownership_digest = replicate 32 5,
     mp_rank_placement_digest = replicate 32 6, mp_generation = 1, mp_has_predecessor = False,
     mp_predecessor_manifest_digest = replicate 32 0, mp_topology_epoch = 1, mp_logical_position = 2,
     mp_output_boundary = 2, mp_durability_mode = 0, mp_signing_key = sample_key\<rparr>"

text \<open>The limits of the server: 512 MiB of state, one more MiB for a frame.\<close>

definition server_codec_limits :: codec_limits where
  "server_codec_limits = \<lparr>cl_snapshot = \<lparr>tl_max_state_bytes = 536870912, tl_max_tokens = 1048576\<rparr>,
     cl_max_frame_bytes = 537919488, cl_max_manifest_bytes = 1048576\<rparr>"

definition large_snapshot :: transformer_snapshot where
  "large_snapshot = sample_snapshot\<lparr>ts_state := replicate 2097152 7\<rparr>"

lemma sample_shape: "parameters_shape sample_parameters" "identity_shape sample_identity"
  by (simp_all add: parameters_shape_def sample_parameters_def identity_shape_def sample_identity_def)

lemma large_snapshot_frames:
  "map length (snapshot_frames large_snapshot) = [68, 2097223]"
  by (simp add: snapshot_frames_def length_object_frame large_snapshot_def sample_snapshot_def)

theorem encode_exact_witness:
  "list_all (\<lambda>frame. length frame \<le> unat (cl_max_frame_bytes server_codec_limits)) (snapshot_frames large_snapshot) \<and>
   er_encoded (encode_transformer_snapshot (\<lambda>_. allocated) large_snapshot sample_parameters server_codec_limits) = clear_encoded"
proof -
  have shape: "identity_shape (ts_identity large_snapshot)"
    using sample_shape by (simp add: large_snapshot_def sample_snapshot_def)
  have "list_all (\<lambda>n. n \<le> crypto_input_max_bytes) (map length (snapshot_frames large_snapshot)) = False"
    by (simp add: large_snapshot_frames crypto_input_max_bytes_def manifest_max_bytes_def)
  then have "\<not> frames_hashable large_snapshot" by (simp add: frames_hashable_def list_all_iff)
  then have "\<not> encodable (\<lambda>_. allocated) large_snapshot sample_parameters server_codec_limits"
    by (simp add: encodable_def)
  moreover have "list_all (\<lambda>n. n \<le> 537919488) (map length (snapshot_frames large_snapshot))"
    by (simp add: large_snapshot_frames)
  then have "list_all (\<lambda>frame. length frame \<le> 537919488) (snapshot_frames large_snapshot)" by (simp add: list_all_iff)
  ultimately show ?thesis
    using encode_exact [OF sample_shape(1) shape, of "\<lambda>_. allocated" server_codec_limits]
    by (simp add: server_codec_limits_def)
qed

definition sample_reader_limits :: object_limits where
  "sample_reader_limits = \<lparr>ol_max_frame_bytes = 1024, ol_max_payload_bytes = 512\<rparr>"

theorem encode_serve_decode_witness:
  "stored_and_loaded (\<lambda>_. allocated) sample_snapshot sample_parameters server_codec_limits sample_reader_limits 4096 =
     Some \<lparr>dr_status = decoded, dr_snapshot = sample_snapshot\<rparr> \<longleftrightarrow>
   encodable (\<lambda>_. allocated) sample_snapshot sample_parameters server_codec_limits"
proof -
  have shape: "identity_shape (ts_identity sample_snapshot)" using sample_shape by (simp add: sample_snapshot_def)
  have "reader_limits sample_snapshot sample_reader_limits 4096"
    by (simp add: reader_limits_def usable_limits_def minimum_frame_bytes_def sample_reader_limits_def snapshot_frames_def
      length_object_frame sample_snapshot_def)
  then show ?thesis
    using encode_serve_decode [OF sample_shape(1) shape, of "\<lambda>_. allocated" server_codec_limits sample_reader_limits 4096]
    by simp
qed

theorem decode_exact_witness:
  "decode_transformer_snapshot (\<lambda>_. allocated) (snapshot_request sample_snapshot sample_parameters sample_limits None) =
     \<lparr>dr_status = dr_status (decode_transformer_snapshot (\<lambda>_. allocated)
        (snapshot_request sample_snapshot sample_parameters sample_limits None)), dr_snapshot = empty_snapshot\<rparr>"
proof -
  let ?q = "snapshot_request sample_snapshot sample_parameters sample_limits None"
  have "\<not> decodable (\<lambda>_. allocated) ?q st" for st by (simp add: decodable_def) (simp add: snapshot_request_def)
  then have "dr_snapshot (decode_transformer_snapshot (\<lambda>_. allocated) ?q) = empty_snapshot"
    using decode_exact [of ?q "\<lambda>_. allocated"] by (simp add: snapshot_request_def)
  then show ?thesis by (cases "decode_transformer_snapshot (\<lambda>_. allocated) ?q") simp
qed

definition sample_inspection :: inspection_request where
  "sample_inspection = \<lparr>
     iq_metadata = Some (metadata_of (snapshot_manifest sample_snapshot sample_parameters)),
     iq_objects = Some (map (\<lambda>d. d\<lparr>or_token_sequence_digest := replicate 32 8\<rparr>)
       (snapshot_references sample_snapshot sample_parameters)),
     iq_object_count = 2, iq_compatibility_identity = sample_identity, iq_profile = sample_profile,
     iq_store_uuid = replicate 16 1, iq_producer_identity = replicate 32 3, iq_global_plan_digest = replicate 32 4,
     iq_rank_ownership_digest = replicate 32 5, iq_rank_placement_digest = replicate 32 6, iq_topology_epoch = 1,
     iq_limits = server_codec_limits\<rparr>"

lemma sample_inspected: "inspect_transformer_manifest sample_inspection = \<lparr>ir_status = decoded, ir_token_count = 2\<rparr>"
proof -
  have "\<not> inspect_invalid sample_inspection"
    using sample_admitted
    by (simp add: inspect_invalid_def sample_inspection_def transformer_frame_count_def codec_complete_eq server_codec_limits_def
      nonzero_iff profile_is_admitted_def)
  moreover have "\<not> inspect_incompatible sample_inspection (the (iq_metadata sample_inspection))"
    by (simp add: inspect_incompatible_def sample_inspection_def metadata_of_def rank_count_def snapshot_policy_fields
      sample_snapshot_def) (simp add: sample_parameters_def list_all_iff)
  moreover have "\<not> inspect_wrong_descriptor sample_inspection (the (iq_objects sample_inspection) ! 0)
      (the (iq_objects sample_inspection) ! 1)"
    by (simp add: inspect_wrong_descriptor_def frame_overheads sample_inspection_def snapshot_references_def
      snapshot_reference_def snapshot_frames_def length_object_frame sample_snapshot_def sample_parameters_def
      server_codec_limits_def inspect_max_total_def transformer_frame_count_def nonzero_iff)
  ultimately show ?thesis
    by (simp add: inspect_transformer_manifest_def) (simp add: sample_inspection_def snapshot_references_def
      snapshot_reference_def sample_parameters_def)
qed

theorem inspect_promise_witness:
  "ir_token_count (inspect_transformer_manifest sample_inspection) = 2 \<and>
   length (token_payload [5, 6]) = 4 * ir_token_count (inspect_transformer_manifest sample_inspection)"
proof -
  have l: "map length (snapshot_frames sample_snapshot) = [68, 74]"
    by (simp add: snapshot_frames_def length_object_frame sample_snapshot_def)
  have "frame_matches sample_reader_limits ((the (iq_objects sample_inspection)) ! 0) (snapshot_frames sample_snapshot ! 0)
      (token_payload [5, 6])"
    "frame_matches sample_reader_limits ((the (iq_objects sample_inspection)) ! 1) (snapshot_frames sample_snapshot ! 1) [1, 2, 3]"
    using codec_streams_valid
    by (simp_all add: frame_matches_def sample_inspection_def snapshot_references_def snapshot_reference_def snapshot_frames_def
      length_object_frame sample_snapshot_def sample_reader_limits_def)
  moreover have "iq_objects sample_inspection =
      Some [the (iq_objects sample_inspection) ! 0, the (iq_objects sample_inspection) ! 1]"
    by (simp add: sample_inspection_def snapshot_references_def)
  ultimately show ?thesis
    using inspect_promise [of sample_inspection _ _ sample_reader_limits] by (simp add: sample_inspected)
qed

end
