(* ===== verification/Catalog.thy ===== *)
theory Catalog
  imports Catalog_Record Prefix_Selector Transformer_Codec
begin

text \<open>
  The exact-key catalogue, \<^verbatim>\<open>halofpx-context-store-v1-catalog.{h,cpp}\<close>: its directory as the
  kernel shows it, the scan of the layout, the reading of records, the exact lookup and the
  discovery of prefix lengths. Publication and opening are in \<^verbatim>\<open>Catalog_Publish\<close>.

  The kernel is part of the world: the entries of the directory in the order \<^verbatim>\<open>readdir\<close> lists
  them, which calls fail, how many bytes each \<^verbatim>\<open>pread\<close> or \<^verbatim>\<open>pwrite\<close> moves and whether it is
  interrupted first. The status of a subdirectory, where a slot keeps its anchor, depends on the
  state of the slots. The slots themselves (\<^verbatim>\<open>context_store_v1_server_canary\<close>) are arbitrary
  functions of their state. The two mutexes are flags that say whether another caller holds them.

  Shown: the lookup and the discovery read only records that are authentic and belong to this
  slot, every uncertainty is a corrupt miss, and the outcome depends on the records alone and not
  on the order in which the slots are scanned.
\<close>

subsection \<open>Slots\<close>

definition catalog_max_slots :: nat where "catalog_max_slots = 8"

datatype canary_status =
    can_ready | can_published | can_hit | can_miss_not_found | can_miss_corrupt | can_miss_incompatible
  | can_miss_unsupported | can_source_rejected | can_busy | can_storage | can_quarantined

record canary_publish_result =
  cp_status :: canary_status
  cp_selected_manifest :: digest

record canary_restore_result =
  ct_status :: canary_status
  ct_snapshot :: transformer_snapshot

record canary_manifest_result =
  cm_status :: canary_status
  cm_token_count :: nat

record 'c slot_canary =
  sc_publish :: "transformer_snapshot \<Rightarrow> 'c \<Rightarrow> canary_publish_result \<times> 'c"
  sc_restore :: "digest \<Rightarrow> token list option \<Rightarrow> nat \<Rightarrow> identity \<Rightarrow> transformer_profile \<Rightarrow> 'c \<Rightarrow> canary_restore_result \<times> 'c"
  sc_inspect_manifest :: "digest \<Rightarrow> identity \<Rightarrow> transformer_profile \<Rightarrow> 'c \<Rightarrow> canary_manifest_result \<times> 'c"

fun map_status :: "canary_status \<Rightarrow> catalog_status" where
  "map_status can_published = cat_published"
| "map_status can_hit = cat_hit"
| "map_status can_miss_not_found = cat_miss_not_found"
| "map_status can_miss_incompatible = cat_miss_incompatible"
| "map_status can_miss_corrupt = cat_miss_corrupt"
| "map_status can_quarantined = cat_miss_corrupt"
| "map_status can_busy = cat_busy"
| "map_status can_storage = cat_storage"
| "map_status can_ready = cat_source_rejected"
| "map_status can_miss_unsupported = cat_source_rejected"
| "map_status can_source_rejected = cat_source_rejected"

fun catalog_status_name :: "catalog_status \<Rightarrow> string" where
  "catalog_status_name cat_ready = ''ready''"
| "catalog_status_name cat_published = ''published''"
| "catalog_status_name cat_hit = ''hit''"
| "catalog_status_name cat_miss_not_found = ''miss-not-found''"
| "catalog_status_name cat_miss_corrupt = ''miss-corrupt''"
| "catalog_status_name cat_miss_incompatible = ''miss-incompatible''"
| "catalog_status_name cat_source_rejected = ''source-rejected''"
| "catalog_status_name cat_capacity_exhausted = ''capacity-exhausted''"
| "catalog_status_name cat_busy = ''busy''"
| "catalog_status_name cat_storage = ''storage''"

subsection \<open>The kernel\<close>

record file_status =
  st_mode :: u32
  st_nlink :: u64
  st_size :: u64
  st_dev :: u64
  st_ino :: u64
  st_uid :: u64
  st_blocks :: u64
  stx_mnt_id :: "u64 option"

definition S_ISDIR :: "u32 \<Rightarrow> bool" where "S_ISDIR mode \<longleftrightarrow> mode AND 0xf000 = 0x4000"
definition S_ISREG :: "u32 \<Rightarrow> bool" where "S_ISREG mode \<longleftrightarrow> mode AND 0xf000 = 0x8000"

datatype 'c catalog_entry = Plain file_status "byte list" | Subdirectory "'c \<Rightarrow> file_status"

datatype catalog_call =
    Open_Scan | Read_Directory | Scan_Open string | Scan_Stat string | Read_Open string | Read_Stat string
  | Create_File string | Sync_File string | Rename_File string | Sync_Root string | Stat_Volume nat

datatype transfer = Interrupted | Transfer_Failed | Moved nat

record 'c catalog_world =
  cw_entries :: "(string \<times> 'c catalog_entry) list"
  cw_fails :: "catalog_call \<Rightarrow> bool"
  cw_reads :: "string \<Rightarrow> transfer list"
  cw_writes :: "string \<Rightarrow> transfer list"
  cw_new_file :: "string \<Rightarrow> nat \<Rightarrow> file_status"
  cw_fragment :: u64
  cw_available :: "nat \<Rightarrow> u64"
  cw_slots :: 'c

fun entry_status :: "'c catalog_entry \<Rightarrow> 'c \<Rightarrow> file_status" where
  "entry_status (Plain s _) c = s"
| "entry_status (Subdirectory f) c = f c"

fun entry_bytes :: "'c catalog_entry \<Rightarrow> byte list" where
  "entry_bytes (Plain _ bs) = bs"
| "entry_bytes (Subdirectory _) = []"

text \<open>
  A positioned read into a bytes of \<^verbatim>\<open>size\<close> bytes: the kernel answers the calls one by one, at
  the end of its script it moves everything that is left.
\<close>

function read_loop :: "nat \<Rightarrow> byte list \<Rightarrow> transfer list \<Rightarrow> nat \<Rightarrow> byte list \<Rightarrow> byte list option" where
  "read_loop n content replies off bytes =
     (if off = n then Some bytes
      else let left = min (n - off) (length content - off) in
        case replies of
          [] \<Rightarrow> if left = 0 then None else read_loop n content [] (off + left) (bytes @ take left (drop off content))
        | Interrupted # rest \<Rightarrow> read_loop n content rest off bytes
        | Transfer_Failed # rest \<Rightarrow> None
        | Moved k # rest \<Rightarrow> let k = min k left in
            if k = 0 then None else read_loop n content rest (off + k) (bytes @ take k (drop off content)))"
  by pat_completeness auto
termination by (relation "measures [\<lambda>(n, content, replies, off, bytes). length replies, \<lambda>(n, content, replies, off, bytes). n - off]") auto

declare read_loop.simps [simp del]

text \<open>A positioned write of the bytes: whether it completed, and how many bytes the file holds.\<close>

function write_loop :: "nat \<Rightarrow> transfer list \<Rightarrow> nat \<Rightarrow> bool \<times> nat" where
  "write_loop n replies off =
     (if off = n then (True, off)
      else case replies of
          [] \<Rightarrow> if n - off = 0 then (False, off) else write_loop n [] (off + (n - off))
        | Interrupted # rest \<Rightarrow> write_loop n rest off
        | Transfer_Failed # rest \<Rightarrow> (False, off)
        | Moved k # rest \<Rightarrow> let k = min k (n - off) in if k = 0 then (False, off) else write_loop n rest (off + k))"
  by pat_completeness auto
termination by (relation "measures [\<lambda>(n, replies, off). length replies, \<lambda>(n, replies, off). n - off]") auto

declare write_loop.simps [simp del]

subsection \<open>Names\<close>

fun decimal :: "nat \<Rightarrow> string" where
  "decimal n = (if n < 10 then [char_of (48 + n)] else decimal (n div 10) @ [char_of (48 + n mod 10)])"

declare decimal.simps [simp del]

definition slot_directory_name :: "nat \<Rightarrow> string" where
  "slot_directory_name ordinal = ''slot-'' @ (if ordinal < 10 then ''0'' else []) @ decimal ordinal"

definition slot_file :: "nat \<Rightarrow> string \<Rightarrow> string" where
  "slot_file ordinal suffix = slot_directory_name ordinal @ ''.'' @ suffix @ ''.v1''"

definition record_suffixes :: "string list" where
  "record_suffixes = [''reserve'', ''final'', ''reserve-pending'', ''final-pending'']"

definition catalog_name_allowed :: "string \<Rightarrow> nat \<Rightarrow> bool" where
  "catalog_name_allowed name capacity =
     (if name = ''writer.lock'' then True
      else list_ex (\<lambda>i. list_ex (\<lambda>suffix. name = slot_file i suffix) record_suffixes) [0..<capacity])"

definition catalog_slot_directory :: "string \<Rightarrow> nat \<Rightarrow> nat option" where
  "catalog_slot_directory name capacity = find (\<lambda>i. name = slot_directory_name i) [0..<capacity]"

subsection \<open>The layout of the directory\<close>

record layout_scan =
  ly_count :: nat
  ly_logical :: u64
  ly_allocated :: u64
  ly_inodes :: "(u64 \<times> u64) list"

definition entry_rejected :: "root_identity \<Rightarrow> string \<Rightarrow> bool \<Rightarrow> file_status \<Rightarrow> bool" where
  "entry_rejected root name slot_directory st \<longleftrightarrow>
     (if slot_directory then \<not> S_ISDIR (st_mode st) else \<not> S_ISREG (st_mode st)) \<or>
     (\<not> slot_directory \<and> st_nlink st \<noteq> 1) \<or>
     st_mode st AND 0xfff \<noteq> (if slot_directory then directory_mode else file_mode) \<or>
     st_dev st \<noteq> ri_device root \<or> st_uid st \<noteq> ri_uid root \<or> stx_mnt_id st \<noteq> Some (ri_mount root) \<or>
     (\<not> slot_directory \<and> (if name = ''writer.lock'' then st_size st \<noteq> 0 else st_size st \<noteq> of_nat record_bytes))"

definition layout_entry ::
    "'c catalog_world \<Rightarrow> root_identity \<Rightarrow> nat \<Rightarrow> u64 \<Rightarrow> root_identity list option \<Rightarrow> string \<times> 'c catalog_entry
       \<Rightarrow> layout_scan \<Rightarrow> layout_scan option" where
  "layout_entry w root capacity quota slot_anchors entry scan =
     (let name = fst entry; st = entry_status (snd entry) (cw_slots w) in
      if name = ''.'' \<or> name = ''..'' then Some scan
      else let ordinal = catalog_slot_directory name capacity; slot_directory = (ordinal \<noteq> None);
               counted = ly_count scan + 1 in
        if counted > 1 + capacity * 5 \<or> (\<not> slot_directory \<and> \<not> catalog_name_allowed name capacity) then None
        else if cw_fails w (Scan_Open name) \<or> cw_fails w (Scan_Stat name) \<or> entry_rejected root name slot_directory st
        then None
        else if slot_directory \<and> (case slot_anchors of None \<Rightarrow> False | Some anchors \<Rightarrow>
            the ordinal \<ge> length anchors \<or> st_dev st \<noteq> ri_device (anchors ! the ordinal) \<or>
            st_ino st \<noteq> ri_inode (anchors ! the ordinal)) then None
        else if (st_dev st, st_ino st) \<in> set (ly_inodes scan) then None
        else if st_blocks st > 0xffffffffffffffff div 512 \<or> ly_logical scan > 0xffffffffffffffff - st_size st \<or>
          ly_allocated scan > 0xffffffffffffffff - st_blocks st * 512 then None
        else let logical = ly_logical scan + st_size st; allocated = ly_allocated scan + st_blocks st * 512 in
          if logical > quota \<or> allocated > quota then None
          else Some \<lparr>ly_count = counted, ly_logical = logical, ly_allocated = allocated,
            ly_inodes = ly_inodes scan @ [(st_dev st, st_ino st)]\<rparr>)"

fun layout_loop ::
    "'c catalog_world \<Rightarrow> root_identity \<Rightarrow> nat \<Rightarrow> u64 \<Rightarrow> root_identity list option \<Rightarrow> (string \<times> 'c catalog_entry) list
       \<Rightarrow> layout_scan \<Rightarrow> bool" where
  "layout_loop w root capacity quota slot_anchors [] scan \<longleftrightarrow> \<not> cw_fails w Read_Directory"
| "layout_loop w root capacity quota slot_anchors (entry # entries) scan \<longleftrightarrow>
     (case layout_entry w root capacity quota slot_anchors entry scan of
        None \<Rightarrow> False
      | Some scan' \<Rightarrow> layout_loop w root capacity quota slot_anchors entries scan')"

definition validate_catalog_layout ::
    "'c catalog_world \<Rightarrow> root_identity \<Rightarrow> nat \<Rightarrow> u64 \<Rightarrow> root_identity list option \<Rightarrow> bool" where
  "validate_catalog_layout w root capacity quota slot_anchors \<longleftrightarrow>
     \<not> cw_fails w Open_Scan \<and>
     layout_loop w root capacity quota slot_anchors (cw_entries w)
       \<lparr>ly_count = 0, ly_logical = 0, ly_allocated = 0, ly_inodes = []\<rparr>"

subsection \<open>Reading a record\<close>

datatype record_file = Absent | Valid catalog_record | Invalid

definition read_record :: "'c catalog_world \<Rightarrow> root_identity \<Rightarrow> string \<Rightarrow> digest \<Rightarrow> record_file" where
  "read_record w root filename key =
     (if cw_fails w (Read_Open filename) then Invalid
      else case map_of (cw_entries w) filename of
        None \<Rightarrow> Absent
      | Some entry \<Rightarrow> let st = entry_status entry (cw_slots w) in
          if cw_fails w (Read_Stat filename) \<or> \<not> S_ISREG (st_mode st) \<or> st_nlink st \<noteq> 1 \<or>
             st_mode st AND 0xfff \<noteq> file_mode \<or> st_size st \<noteq> of_nat record_bytes \<or>
             st_dev st \<noteq> ri_device root \<or> st_uid st \<noteq> ri_uid root \<or> stx_mnt_id st \<noteq> Some (ri_mount root)
          then Invalid
          else (case read_loop record_bytes (entry_bytes entry) (cw_reads w filename) 0 [] of
              None \<Rightarrow> Invalid
            | Some bytes \<Rightarrow> (case decode_record (Span bytes) key of None \<Rightarrow> Invalid | Some r \<Rightarrow> Valid r)))"

subsection \<open>The catalogue object\<close>

record canary_config =
  cc_operator_key :: byte_span
  cc_store_uuid :: "byte list"
  cc_compatibility :: compatibility_expectation
  cc_producer_identity :: digest
  cc_global_plan_digest :: digest
  cc_rank_ownership_digest :: digest
  cc_rank_placement_digest :: digest
  cc_topology_epoch :: u64
  cc_quota_bytes :: u64
  cc_reserve_bytes :: u64
  cc_max_entries :: nat
  cc_limits :: codec_limits

record 'c catalog_slot =
  sl_data :: root_identity
  sl_anchor :: root_identity
  sl_canary :: "'c slot_canary"

record 'c catalog_store =
  ci_identity :: root_identity
  ci_config :: canary_config
  ci_capacity :: nat
  ci_record_key :: digest
  ci_manifest_key :: digest
  ci_slots :: "'c catalog_slot list"

record 'c catalog_object =
  co_implementation :: "'c catalog_store option"
  co_mutation_held :: bool
  co_operation_held :: bool

definition expected_record :: "'c catalog_store \<Rightarrow> catalog_record \<Rightarrow> nat \<Rightarrow> byte \<Rightarrow> bool" where
  "expected_record impl r ordinal kind \<longleftrightarrow>
     cr_kind r = kind \<and> unat (cr_capacity r) = ci_capacity impl \<and> unat (cr_ordinal r) = ordinal \<and>
     cr_uuid r = cc_store_uuid (ci_config impl) \<and> same_root (cr_catalog r) (ci_identity impl) \<and>
     same_root (cr_data r) (sl_data (ci_slots impl ! ordinal)) \<and>
     same_root (cr_anchor r) (sl_anchor (ci_slots impl ! ordinal)) \<and> nonzero (cr_manifest r) \<and>
     ct_equal (cr_producer r) (cc_producer_identity (ci_config impl)) \<and>
     ct_equal (cr_global_plan r) (cc_global_plan_digest (ci_config impl)) \<and>
     ct_equal (cr_rank_ownership r) (cc_rank_ownership_digest (ci_config impl)) \<and>
     ct_equal (cr_rank_placement r) (cc_rank_placement_digest (ci_config impl)) \<and>
     cr_topology_epoch r = cc_topology_epoch (ci_config impl)"

definition make_record :: "'c catalog_store \<Rightarrow> nat \<Rightarrow> byte \<Rightarrow> identity \<Rightarrow> digest \<Rightarrow> catalog_record" where
  "make_record impl ordinal kind identity manifest = \<lparr>
     cr_kind = kind, cr_capacity = of_nat (ci_capacity impl), cr_ordinal = of_nat ordinal,
     cr_uuid = cc_store_uuid (ci_config impl), cr_catalog = ci_identity impl,
     cr_data = sl_data (ci_slots impl ! ordinal), cr_anchor = sl_anchor (ci_slots impl ! ordinal),
     cr_identity = identity, cr_manifest = manifest, cr_producer = cc_producer_identity (ci_config impl),
     cr_global_plan = cc_global_plan_digest (ci_config impl),
     cr_rank_ownership = cc_rank_ownership_digest (ci_config impl),
     cr_rank_placement = cc_rank_placement_digest (ci_config impl),
     cr_topology_epoch = cc_topology_epoch (ci_config impl)\<rparr>"

definition layout_valid :: "'c catalog_store \<Rightarrow> 'c catalog_world \<Rightarrow> bool" where
  "layout_valid impl w = validate_catalog_layout w (ci_identity impl) (ci_capacity impl)
     (cc_quota_bytes (ci_config impl)) (Some (map sl_anchor (ci_slots impl)))"

text \<open>The four record files of a slot, in the order in which every operation reads them.\<close>

record slot_files =
  sf_reservation :: record_file
  sf_final :: record_file
  sf_reserve_pending :: record_file
  sf_final_pending :: record_file

definition read_slot :: "'c catalog_store \<Rightarrow> 'c catalog_world \<Rightarrow> nat \<Rightarrow> slot_files" where
  "read_slot impl w i =
     (let read = (\<lambda>suffix. read_record w (ci_identity impl) (slot_file i suffix) (ci_record_key impl))
      in \<lparr>sf_reservation = read ''reserve'', sf_final = read ''final'',
          sf_reserve_pending = read ''reserve-pending'', sf_final_pending = read ''final-pending''\<rparr>)"

definition some_invalid :: "slot_files \<Rightarrow> bool" where
  "some_invalid f \<longleftrightarrow> sf_reservation f = Invalid \<or> sf_final f = Invalid \<or>
     sf_reserve_pending f = Invalid \<or> sf_final_pending f = Invalid"

definition all_absent :: "slot_files \<Rightarrow> bool" where
  "all_absent f \<longleftrightarrow> sf_reservation f = Absent \<and> sf_final f = Absent \<and>
     sf_reserve_pending f = Absent \<and> sf_final_pending f = Absent"

fun valid_record :: "record_file \<Rightarrow> (catalog_record \<Rightarrow> bool) \<Rightarrow> bool" where
  "valid_record (Valid r) p \<longleftrightarrow> p r"
| "valid_record Absent p \<longleftrightarrow> False"
| "valid_record Invalid p \<longleftrightarrow> False"

abbreviation is_valid :: "record_file \<Rightarrow> bool" where "is_valid f \<equiv> valid_record f (\<lambda>_. True)"

definition some_unexpected :: "'c catalog_store \<Rightarrow> slot_files \<Rightarrow> nat \<Rightarrow> bool" where
  "some_unexpected impl f i \<longleftrightarrow>
     valid_record (sf_reservation f) (\<lambda>r. \<not> expected_record impl r i 1) \<or>
     valid_record (sf_final f) (\<lambda>r. \<not> expected_record impl r i 2) \<or>
     valid_record (sf_reserve_pending f) (\<lambda>r. \<not> expected_record impl r i 1) \<or>
     valid_record (sf_final_pending f) (\<lambda>r. \<not> expected_record impl r i 2)"

definition conflicting :: "slot_files \<Rightarrow> bool" where
  "conflicting f \<longleftrightarrow>
     (is_valid (sf_final f) \<and> (is_valid (sf_reserve_pending f) \<or> is_valid (sf_final_pending f))) \<or>
     (is_valid (sf_reservation f) \<and> is_valid (sf_reserve_pending f))"

definition final_unreserved :: "slot_files \<Rightarrow> catalog_record \<Rightarrow> bool" where
  "final_unreserved f final \<longleftrightarrow>
     \<not> valid_record (sf_reservation f) (\<lambda>reservation.
         same_catalog_identity (cr_identity reservation) (cr_identity final) \<and>
         ct_equal (cr_manifest reservation) (cr_manifest final))"

subsection \<open>The exact lookup\<close>

record restore_scan =
  rs_selected :: nat
  rs_manifest :: digest
  rs_empty :: bool
  rs_incomplete :: bool
  rs_record_selected :: bool

text \<open>A scan that stops yields the flag \<^verbatim>\<open>authenticated_record_selected\<close>; its status is corrupt.\<close>

definition restore_slot :: "'c catalog_store \<Rightarrow> 'c catalog_world \<Rightarrow> identity \<Rightarrow> nat \<Rightarrow> restore_scan \<Rightarrow> bool + restore_scan" where
  "restore_slot impl w identity i scan =
     (let f = read_slot impl w i in
      if some_invalid f then Inl (rs_record_selected scan)
      else if some_unexpected impl f i then Inl (rs_record_selected scan)
      else if conflicting f then Inl (rs_record_selected scan)
      else let scan = (if all_absent f then scan\<lparr>rs_empty := True\<rparr> else scan) in
        case sf_final f of
          Valid final \<Rightarrow>
            if final_unreserved f final then Inl (rs_record_selected scan)
            else if \<not> same_catalog_identity (cr_identity final) identity then Inr scan
            else if rs_selected scan \<noteq> ci_capacity impl then Inl True
            else Inr (scan\<lparr>rs_record_selected := True, rs_selected := i, rs_manifest := cr_manifest final\<rparr>)
        | _ \<Rightarrow>
            if valid_record (sf_reservation f) (\<lambda>r. same_catalog_identity (cr_identity r) identity) \<or>
               valid_record (sf_reserve_pending f) (\<lambda>r. same_catalog_identity (cr_identity r) identity) \<or>
               valid_record (sf_final_pending f) (\<lambda>r. same_catalog_identity (cr_identity r) identity)
            then if rs_incomplete scan \<or> rs_selected scan \<noteq> ci_capacity impl then Inl True
                 else Inr (scan\<lparr>rs_record_selected := True, rs_incomplete := True\<rparr>)
            else Inr scan)"

fun restore_slots :: "'c catalog_store \<Rightarrow> 'c catalog_world \<Rightarrow> identity \<Rightarrow> nat list \<Rightarrow> restore_scan \<Rightarrow> bool + restore_scan" where
  "restore_slots impl w identity [] scan = Inr scan"
| "restore_slots impl w identity (i # rest) scan =
     (case restore_slot impl w identity i scan of
        Inl flag \<Rightarrow> Inl flag
      | Inr scan' \<Rightarrow> restore_slots impl w identity rest scan')"

definition catalog_miss :: "catalog_status \<Rightarrow> bool \<Rightarrow> catalog_restore_result" where
  "catalog_miss status selected = \<lparr>cs_status = status, cs_snapshot = empty_snapshot,
     cs_authenticated_record_selected = selected\<rparr>"

definition catalog_restore_exact :: "'c catalog_object \<Rightarrow> 'c catalog_world catalog" where
  "catalog_restore_exact object expected_tokens expected_token_count identity profile w =
     (if co_operation_held object then (catalog_miss cat_busy False, w)
      else case co_implementation object of
        None \<Rightarrow> (catalog_miss cat_miss_not_found False, w)
      | Some impl \<Rightarrow>
        if expected_tokens = None \<or> expected_token_count = 0 then (catalog_miss cat_miss_not_found False, w)
        else if \<not> layout_valid impl w then (catalog_miss cat_miss_corrupt False, w)
        else (case restore_slots impl w identity [0..<ci_capacity impl]
            \<lparr>rs_selected = ci_capacity impl, rs_manifest = zero_digest, rs_empty = False,
             rs_incomplete = False, rs_record_selected = False\<rparr> of
          Inl flag \<Rightarrow> (catalog_miss cat_miss_corrupt flag, w)
        | Inr scan \<Rightarrow>
            if rs_incomplete scan then (catalog_miss cat_miss_corrupt (rs_record_selected scan), w)
            else if rs_selected scan = ci_capacity impl
            then (catalog_miss (if rs_empty scan then cat_miss_not_found else cat_capacity_exhausted)
                    (rs_record_selected scan), w)
            else case sc_restore (sl_canary (ci_slots impl ! rs_selected scan)) (rs_manifest scan) expected_tokens
                expected_token_count identity profile (cw_slots w) of
              (child, slots) \<Rightarrow>
                (if ct_status child = can_hit
                 then \<lparr>cs_status = cat_hit, cs_snapshot = ct_snapshot child,
                        cs_authenticated_record_selected = rs_record_selected scan\<rparr>
                 else catalog_miss (map_status (ct_status child)) (rs_record_selected scan),
                 w\<lparr>cw_slots := slots\<rparr>)))"

subsection \<open>Reading through interruptions\<close>

definition transfer_progresses :: "transfer \<Rightarrow> bool" where
  "transfer_progresses reply \<longleftrightarrow> reply \<noteq> Transfer_Failed \<and> reply \<noteq> Moved 0"

lemma read_loop_steps:
  "read_loop n content replies n bs = Some bs"
  "off \<noteq> n \<Longrightarrow> read_loop n content [] off bs =
     (let left = min (n - off) (length content - off) in
      if left = 0 then None else read_loop n content [] (off + left) (bs @ take left (drop off content)))"
  "off \<noteq> n \<Longrightarrow> read_loop n content (Interrupted # rest) off bs = read_loop n content rest off bs"
  "off \<noteq> n \<Longrightarrow> read_loop n content (Transfer_Failed # rest) off bs = None"
  "off \<noteq> n \<Longrightarrow> read_loop n content (Moved k # rest) off bs =
     (let k = min k (min (n - off) (length content - off)) in
      if k = 0 then None else read_loop n content rest (off + k) (bs @ take k (drop off content)))"
  by (subst read_loop.simps; simp add: Let_def)+

lemma read_loop_Some:
  "read_loop n content replies off bs = Some out \<Longrightarrow> off \<le> n \<Longrightarrow> off \<le> length content \<Longrightarrow>
     n \<le> length content \<and> out = bs @ take (n - off) (drop off content)"
proof (induction n content replies off bs rule: read_loop.induct)
  case (1 n content replies off bs)
  let ?left = "min (n - off) (length content - off)"
  have step: "take k (drop off content) @ take (n - (off + k)) (drop (off + k) content) = take (n - off) (drop off content)"
    if "k \<le> n - off" for k
  proof -
    have "n - off = k + (n - (off + k))" using that by simp
    then have "take (n - off) (drop off content) = take (k + (n - (off + k))) (drop off content)" by (rule arg_cong)
    then show ?thesis by (simp add: take_add add.commute)
  qed
  show ?case
  proof (cases "off = n")
    case False
    show ?thesis
    proof (cases replies)
      case Nil
      then show ?thesis using False "1.IH"(1) [OF False refl Nil] "1.prems" step [of ?left]
        by (auto simp: read_loop_steps Let_def split: if_splits)
    next
      case (Cons reply rest)
      show ?thesis
      proof (cases reply)
        case Interrupted
        then show ?thesis using False "1.prems" "1.IH"(2) [OF False refl Cons] by (simp add: Cons read_loop_steps)
      next
        case Transfer_Failed
        then show ?thesis using False "1.prems" by (simp add: Cons read_loop_steps)
      next
        case (Moved k)
        let ?k = "min k ?left"
        have go: "?k \<noteq> 0" "read_loop n content rest (off + ?k) (bs @ take ?k (drop off content)) = Some out"
          using "1.prems"(1) False by (simp_all add: Cons Moved read_loop_steps Let_def split: if_splits)
        have "n \<le> length content \<and>
            out = (bs @ take ?k (drop off content)) @ take (n - (off + ?k)) (drop (off + ?k) content)"
          using "1.prems"(2,3) by (intro "1.IH"(3) [OF False refl Cons Moved refl go]) simp_all
        then show ?thesis using step [of ?k] by simp
      qed
    qed
  qed (use "1.prems" in \<open>auto simp: read_loop_steps\<close>)
qed

lemma read_loop_complete:
  "list_all transfer_progresses replies \<Longrightarrow> off \<le> n \<Longrightarrow> n \<le> length content \<Longrightarrow>
     read_loop n content replies off bs \<noteq> None"
proof (induction n content replies off bs rule: read_loop.induct)
  case (1 n content replies off bs)
  show ?case
  proof (cases "off = n")
    case False
    show ?thesis
    proof (cases replies)
      case Nil
      then show ?thesis using False "1.IH"(1) [OF False refl Nil] "1.prems"
        by (simp add: read_loop_steps Let_def)
    next
      case (Cons reply rest)
      then show ?thesis using False "1.prems" "1.IH"(2) [OF False refl Cons] "1.IH"(3) [OF False refl Cons _ refl]
        by (cases reply) (auto simp: read_loop_steps Let_def transfer_progresses_def)
    qed
  qed (simp add: read_loop_steps)
qed

lemma read_record_valid:
  assumes "read_record w root name key = Valid r" "length key = 32"
  shows "\<exists>entry. map_of (cw_entries w) name = Some entry \<and> wf_record r \<and>
    take record_bytes (entry_bytes entry) = encode_record r key"
proof -
  obtain entry bs where "map_of (cw_entries w) name = Some entry"
    and bs: "read_loop record_bytes (entry_bytes entry) (cw_reads w name) 0 [] = Some bs" "decode_record (Span bs) key = Some r"
    using assms(1) by (auto simp: read_record_def Let_def split: if_splits option.splits)
  then show ?thesis
    using read_loop_Some [OF bs(1)] assms(2) by (auto simp: decode_record_exact)
qed

subsection \<open>Slots as the operations see them\<close>

datatype slot_view = Vacant | Broken | Unfinished "catalog_record list" | Sealed catalog_record

fun record_list :: "record_file \<Rightarrow> catalog_record list" where
  "record_list (Valid r) = [r]"
| "record_list Absent = []"
| "record_list Invalid = []"

definition slot_view :: "'c catalog_store \<Rightarrow> 'c catalog_world \<Rightarrow> nat \<Rightarrow> slot_view" where
  "slot_view impl w i =
     (let f = read_slot impl w i in
      if some_invalid f \<or> some_unexpected impl f i \<or> conflicting f then Broken
      else case sf_final f of
        Valid final \<Rightarrow> if final_unreserved f final then Broken else Sealed final
      | _ \<Rightarrow> if all_absent f then Vacant
          else Unfinished (record_list (sf_reservation f) @ record_list (sf_reserve_pending f)
            @ record_list (sf_final_pending f)))"

fun unfinished_for :: "identity \<Rightarrow> slot_view \<Rightarrow> bool" where
  "unfinished_for identity (Unfinished rs) \<longleftrightarrow> list_ex (\<lambda>r. same_catalog_identity (cr_identity r) identity) rs"
| "unfinished_for identity Vacant \<longleftrightarrow> False"
| "unfinished_for identity Broken \<longleftrightarrow> False"
| "unfinished_for identity (Sealed r) \<longleftrightarrow> False"

fun sealed_for :: "identity \<Rightarrow> slot_view \<Rightarrow> bool" where
  "sealed_for identity (Sealed r) \<longleftrightarrow> same_catalog_identity (cr_identity r) identity"
| "sealed_for identity Vacant \<longleftrightarrow> False"
| "sealed_for identity Broken \<longleftrightarrow> False"
| "sealed_for identity (Unfinished rs) \<longleftrightarrow> False"

fun sealed_manifest :: "slot_view \<Rightarrow> digest" where
  "sealed_manifest (Sealed r) = cr_manifest r"
| "sealed_manifest v = []"

lemma valid_record_list: "valid_record f p \<longleftrightarrow> list_ex p (record_list f)"
  by (cases f) simp_all

lemma slot_view_cases:
  "restore_slot impl w identity i scan =
    (case slot_view impl w i of
       Broken \<Rightarrow> Inl (rs_record_selected scan)
     | Vacant \<Rightarrow> Inr (scan\<lparr>rs_empty := True\<rparr>)
     | Unfinished rs \<Rightarrow>
         if unfinished_for identity (slot_view impl w i)
         then if rs_incomplete scan \<or> rs_selected scan \<noteq> ci_capacity impl then Inl True
              else Inr (scan\<lparr>rs_record_selected := True, rs_incomplete := True\<rparr>)
         else Inr scan
     | Sealed r \<Rightarrow>
         if \<not> sealed_for identity (slot_view impl w i) then Inr scan
         else if rs_selected scan \<noteq> ci_capacity impl then Inl True
         else Inr (scan\<lparr>rs_record_selected := True, rs_selected := i, rs_manifest := cr_manifest r\<rparr>))"
proof -
  let ?f = "read_slot impl w i"
  show ?thesis
  proof (cases "some_invalid ?f \<or> some_unexpected impl ?f i \<or> conflicting ?f")
    case True
    then show ?thesis by (auto simp: restore_slot_def slot_view_def Let_def)
  next
    case False
    show ?thesis
    proof (cases "sf_final ?f")
      case (Valid final)
      then have "\<not> all_absent ?f" by (simp add: all_absent_def)
      then show ?thesis using False Valid by (simp add: restore_slot_def slot_view_def Let_def)
    qed (use False in \<open>auto simp: restore_slot_def slot_view_def Let_def some_invalid_def all_absent_def
        valid_record_list list_ex_append\<close>)
  qed
qed

subsection \<open>The verdict of a lookup\<close>

datatype catalog_verdict = Uncertain | Room | Full | Chosen nat digest

fun scan_verdict :: "'c catalog_store \<Rightarrow> bool + restore_scan \<Rightarrow> catalog_verdict" where
  "scan_verdict impl (Inl flag) = Uncertain"
| "scan_verdict impl (Inr scan) =
     (if rs_incomplete scan then Uncertain
      else if rs_selected scan = ci_capacity impl then if rs_empty scan then Room else Full
      else Chosen (rs_selected scan) (rs_manifest scan))"

definition undecided :: "(nat \<Rightarrow> slot_view) \<Rightarrow> identity \<Rightarrow> nat list \<Rightarrow> bool" where
  "undecided view identity js \<longleftrightarrow> (\<exists>j \<in> set js. view j = Broken \<or> unfinished_for identity (view j))"

definition slots_verdict :: "(nat \<Rightarrow> slot_view) \<Rightarrow> identity \<Rightarrow> nat list \<Rightarrow> bool \<Rightarrow> catalog_verdict" where
  "slots_verdict view identity js room =
     (if undecided view identity js then Uncertain
      else case filter (\<lambda>j. sealed_for identity (view j)) js of
        [] \<Rightarrow> if room \<or> Vacant \<in> view ` set js then Room else Full
      | [j] \<Rightarrow> Chosen j (sealed_manifest (view j))
      | _ \<Rightarrow> Uncertain)"

lemma undecided_Cons [simp]:
  "undecided view identity (j # js) \<longleftrightarrow>
     view j = Broken \<or> unfinished_for identity (view j) \<or> undecided view identity js"
  by (auto simp: undecided_def)

lemma incomplete_verdict:
  "rs_incomplete scan \<Longrightarrow> scan_verdict impl (restore_slots impl w identity js scan) = Uncertain"
  by (induction js arbitrary: scan) (auto simp: slot_view_cases split: slot_view.splits sum.splits)

lemma selected_verdict:
  "\<not> rs_incomplete scan \<Longrightarrow> rs_selected scan \<noteq> ci_capacity impl \<Longrightarrow>
   scan_verdict impl (restore_slots impl w identity js scan) =
     (if undecided (slot_view impl w) identity js \<or> (\<exists>j \<in> set js. sealed_for identity (slot_view impl w j))
      then Uncertain else Chosen (rs_selected scan) (rs_manifest scan))"
proof (induction js arbitrary: scan)
  case Nil
  then show ?case by (simp add: undecided_def)
next
  case (Cons j js)
  then show ?case by (cases "slot_view impl w j") (auto simp: slot_view_cases)
qed

lemma open_verdict:
  "\<not> rs_incomplete scan \<Longrightarrow> rs_selected scan = ci_capacity impl \<Longrightarrow> \<forall>j \<in> set js. j < ci_capacity impl \<Longrightarrow>
   scan_verdict impl (restore_slots impl w identity js scan) =
     slots_verdict (slot_view impl w) identity js (rs_empty scan)"
proof (induction js arbitrary: scan)
  case Nil
  then show ?case by (simp add: slots_verdict_def undecided_def)
next
  case (Cons j js)
  show ?case
  proof (cases "slot_view impl w j")
    case (Unfinished rs)
    then show ?thesis using Cons.prems Cons.IH [of scan]
      by (simp add: slot_view_cases incomplete_verdict slots_verdict_def)
  next
    case (Sealed r)
    show ?thesis
    proof (cases "sealed_for identity (Sealed r)")
      case True
      let ?scan = "scan\<lparr>rs_record_selected := True, rs_selected := j, rs_manifest := cr_manifest r\<rparr>"
      have "scan_verdict impl (restore_slots impl w identity (j # js) scan) =
          scan_verdict impl (restore_slots impl w identity js ?scan)"
        using Sealed True Cons.prems by (simp add: slot_view_cases)
      also have "\<dots> = (if undecided (slot_view impl w) identity js \<or> (\<exists>j \<in> set js. sealed_for identity (slot_view impl w j))
          then Uncertain else Chosen j (cr_manifest r))"
        using Cons.prems by (subst selected_verdict) simp_all
      also have "\<dots> = slots_verdict (slot_view impl w) identity (j # js) (rs_empty scan)"
        using Sealed True by (auto simp: slots_verdict_def filter_empty_conv split: list.splits)
      finally show ?thesis .
    next
      case False
      then show ?thesis using Sealed Cons.prems Cons.IH [of scan] by (simp add: slot_view_cases slots_verdict_def)
    qed
  qed (use Cons.prems Cons.IH [of "scan\<lparr>rs_empty := True\<rparr>"] in \<open>simp_all add: slot_view_cases slots_verdict_def\<close>)
qed

lemma scan_flag:
  "restore_slots impl w identity js scan = Inr scan' \<Longrightarrow>
   rs_record_selected scan' \<longleftrightarrow> rs_record_selected scan \<or>
     (\<exists>j \<in> set js. unfinished_for identity (slot_view impl w j) \<or> sealed_for identity (slot_view impl w j))"
proof (induction js arbitrary: scan)
  case (Cons j js)
  obtain mid where mid: "restore_slot impl w identity j scan = Inr mid" "restore_slots impl w identity js mid = Inr scan'"
    using Cons.prems by (auto split: sum.splits)
  then show ?case using Cons.IH [OF mid(2)]
    by (auto simp: slot_view_cases split: slot_view.splits if_splits)
qed simp

definition catalog_verdict :: "'c catalog_store \<Rightarrow> 'c catalog_world \<Rightarrow> identity \<Rightarrow> catalog_verdict" where
  "catalog_verdict impl w identity =
     (if layout_valid impl w then slots_verdict (slot_view impl w) identity [0..<ci_capacity impl] False else Uncertain)"

lemma slots_verdict_absent:
  assumes "slots_verdict view identity js room \<in> {Room, Full}"
  shows "\<forall>j \<in> set js. view j \<noteq> Broken \<and> \<not> unfinished_for identity (view j) \<and> \<not> sealed_for identity (view j)"
  using assms by (auto simp: slots_verdict_def undecided_def filter_empty_conv split: if_splits list.splits)

lemma slots_verdict_chosen:
  assumes "slots_verdict view identity js room = Chosen i d"
  shows "i \<in> set js \<and> (\<exists>r. view i = Sealed r \<and> same_catalog_identity (cr_identity r) identity \<and> cr_manifest r = d) \<and>
    (\<forall>j \<in> set js. view j \<noteq> Broken \<and> \<not> unfinished_for identity (view j) \<and> (sealed_for identity (view j) \<longrightarrow> j = i))"
proof -
  have one: "filter (\<lambda>j. sealed_for identity (view j)) js = [i]" and d: "d = sealed_manifest (view i)"
    and "\<not> undecided view identity js"
    using assms by (auto simp: slots_verdict_def split: if_splits list.splits)
  have "set (filter (\<lambda>j. sealed_for identity (view j)) js) = {i}" using one by simp
  then have i: "i \<in> set js" "sealed_for identity (view i)"
    "\<forall>j \<in> set js. sealed_for identity (view j) \<longrightarrow> j = i" by auto
  moreover have "\<exists>r. view i = Sealed r \<and> same_catalog_identity (cr_identity r) identity \<and> cr_manifest r = d"
    using i(2) d by (cases "view i") simp_all
  moreover have "\<forall>j \<in> set js. view j \<noteq> Broken \<and> \<not> unfinished_for identity (view j)"
    using \<open>\<not> undecided view identity js\<close> by (simp add: undecided_def)
  ultimately show ?thesis by blast
qed

lemma slots_verdict_chosen_sealed:
  assumes "slots_verdict view identity js room = Chosen i d"
  shows "i \<in> set js \<and> sealed_for identity (view i)"
proof -
  obtain r where "i \<in> set js" "view i = Sealed r" "same_catalog_identity (cr_identity r) identity"
    using slots_verdict_chosen [OF assms] by blast
  then show ?thesis by simp
qed

text \<open>
  The exact lookup. Its outcome is the verdict over the records of all slots, in whatever order
  they are scanned: any slot that is damaged or unfinished for the identity, any layout that is not
  exactly as it should be and any second record of the identity makes it a corrupt miss; otherwise
  the identity is nowhere recorded and the miss says whether a slot is free; otherwise it is
  recorded in exactly one slot, and the answer is what that slot restores for the recorded
  manifest. The flag that stops the search for shorter prefixes is off in the two definite misses
  only.
\<close>
theorem restore_exact_verdict:
  assumes "\<not> co_operation_held object" "co_implementation object = Some impl" "tokens \<noteq> None" "n \<noteq> 0"
  shows "case catalog_verdict impl w identity of
      Uncertain \<Rightarrow> \<exists>flag. catalog_restore_exact object tokens n identity profile w = (catalog_miss cat_miss_corrupt flag, w)
    | Room \<Rightarrow> catalog_restore_exact object tokens n identity profile w = (catalog_miss cat_miss_not_found False, w)
    | Full \<Rightarrow> catalog_restore_exact object tokens n identity profile w = (catalog_miss cat_capacity_exhausted False, w)
    | Chosen i d \<Rightarrow>
        (case sc_restore (sl_canary (ci_slots impl ! i)) d tokens n identity profile (cw_slots w) of (child, slots) \<Rightarrow>
           catalog_restore_exact object tokens n identity profile w =
             (if ct_status child = can_hit
              then \<lparr>cs_status = cat_hit, cs_snapshot = ct_snapshot child, cs_authenticated_record_selected = True\<rparr>
              else catalog_miss (map_status (ct_status child)) True, w\<lparr>cw_slots := slots\<rparr>))"
proof (cases "layout_valid impl w")
  case False
  then show ?thesis using assms by (auto simp: catalog_verdict_def catalog_restore_exact_def)
next
  case layout: True
  let ?js = "[0..<ci_capacity impl]"
  let ?start = "\<lparr>rs_selected = ci_capacity impl, rs_manifest = zero_digest, rs_empty = False,
    rs_incomplete = False, rs_record_selected = False\<rparr>"
  let ?v = "slots_verdict (slot_view impl w) identity ?js False"
  have v: "scan_verdict impl (restore_slots impl w identity ?js ?start) = ?v"
    by (subst open_verdict) simp_all
  have verdict: "catalog_verdict impl w identity = ?v" using layout by (simp add: catalog_verdict_def)
  show ?thesis
  proof (cases "restore_slots impl w identity ?js ?start")
    case (Inl flag)
    then have "?v = Uncertain" using v by simp
    then show ?thesis using Inl assms layout verdict by (auto simp: catalog_restore_exact_def)
  next
    case (Inr scan)
    have flag: "rs_record_selected scan \<longleftrightarrow>
        (\<exists>j \<in> set ?js. unfinished_for identity (slot_view impl w j) \<or> sealed_for identity (slot_view impl w j))"
      using scan_flag [OF Inr] by simp
    show ?thesis
    proof (cases ?v)
      case Uncertain
      then have "rs_incomplete scan" using v Inr by (auto split: if_splits)
      then show ?thesis using Inr assms layout verdict Uncertain by (auto simp: catalog_restore_exact_def)
    next
      case Room
      then have "\<not> rs_record_selected scan" using flag slots_verdict_absent [of "slot_view impl w" identity ?js False] by auto
      then show ?thesis using v Inr Room assms layout verdict by (auto simp: catalog_restore_exact_def split: if_splits)
    next
      case Full
      then have "\<not> rs_record_selected scan" using flag slots_verdict_absent [of "slot_view impl w" identity ?js False] by auto
      then show ?thesis using v Inr Full assms layout verdict by (auto simp: catalog_restore_exact_def split: if_splits)
    next
      case (Chosen i d)
      have "rs_record_selected scan" unfolding flag using slots_verdict_chosen_sealed [OF Chosen] by blast
      moreover have "rs_selected scan = i" "rs_manifest scan = d" "\<not> rs_incomplete scan" "i \<noteq> ci_capacity impl"
        using v Inr Chosen by (auto split: if_splits)
      ultimately show ?thesis using Inr assms layout verdict Chosen
        by (auto simp: catalog_restore_exact_def split: prod.splits)
    qed
  qed
qed

subsection \<open>Where a hit comes from\<close>

definition wf_catalog :: "'c catalog_store \<Rightarrow> bool" where
  "wf_catalog impl \<longleftrightarrow> length (ci_record_key impl) = 32 \<and> length (ci_manifest_key impl) = 32 \<and>
     ci_capacity impl \<le> catalog_max_slots \<and> length (ci_slots impl) = ci_capacity impl \<and>
     length (cc_store_uuid (ci_config impl)) = 16 \<and> length (cc_producer_identity (ci_config impl)) = 32 \<and>
     length (cc_global_plan_digest (ci_config impl)) = 32 \<and> length (cc_rank_ownership_digest (ci_config impl)) = 32 \<and>
     length (cc_rank_placement_digest (ci_config impl)) = 32"

lemma wf_make_record:
  assumes "wf_catalog impl" "wf_identity identity" "length manifest = 32" "kind = 1 \<or> kind = 2"
  shows "wf_record (make_record impl i kind identity manifest)"
  using assms by (auto simp: wf_record_def make_record_def wf_catalog_def)

lemma word_of_small: "n \<le> 8 \<Longrightarrow> unat (of_nat n :: u32) = n"
  by (simp add: unat_of_nat take_bit_nat_eq_self)

lemma expected_record_iff:
  assumes "wf_catalog impl" "wf_record r" "i < ci_capacity impl"
  shows "expected_record impl r i kind \<longleftrightarrow>
    r = make_record impl i kind (cr_identity r) (cr_manifest r) \<and> nonzero (cr_manifest r)"
proof -
  have small: "ci_capacity impl \<le> 8" "i \<le> 8" using assms(1,3) by (simp_all add: wf_catalog_def catalog_max_slots_def)
  have "unat w = n \<longleftrightarrow> w = of_nat n" if "n \<le> 8" for w :: u32 and n
    using word_of_small [OF that] by (auto simp: word_unat_eq_iff)
  then show ?thesis using assms small
    by (cases r) (auto simp: expected_record_def make_record_def wf_catalog_def wf_record_def)
qed

lemma view_sealed:
  assumes "slot_view impl w i = Sealed r"
  shows "sf_final (read_slot impl w i) = Valid r" "expected_record impl r i 2"
    "valid_record (sf_reservation (read_slot impl w i)) (\<lambda>q. expected_record impl q i 1 \<and>
       same_catalog_identity (cr_identity q) (cr_identity r) \<and> ct_equal (cr_manifest q) (cr_manifest r))"
proof -
  let ?f = "read_slot impl w i"
  have clean: "\<not> some_unexpected impl ?f i" using assms by (simp add: slot_view_def Let_def split: if_splits)
  show final: "sf_final ?f = Valid r"
    using assms by (cases "sf_final ?f") (auto simp: slot_view_def Let_def split: if_splits)
  then show "expected_record impl r i 2" using clean by (simp add: some_unexpected_def)
  have "\<not> final_unreserved ?f r"
    using assms final by (auto simp: slot_view_def Let_def split: if_splits)
  then show "valid_record (sf_reservation ?f) (\<lambda>q. expected_record impl q i 1 \<and>
      same_catalog_identity (cr_identity q) (cr_identity r) \<and> ct_equal (cr_manifest q) (cr_manifest r))"
    using clean by (cases "sf_reservation ?f") (auto simp: final_unreserved_def some_unexpected_def)
qed

definition holds_record :: "'c catalog_store \<Rightarrow> 'c catalog_world \<Rightarrow> string \<Rightarrow> catalog_record \<Rightarrow> bool" where
  "holds_record impl w filename r \<longleftrightarrow>
     (\<exists>entry. map_of (cw_entries w) filename = Some entry \<and>
        take record_bytes (entry_bytes entry) = encode_record r (ci_record_key impl))"

lemma sealed_files:
  assumes "wf_catalog impl" "i < ci_capacity impl" "slot_view impl w i = Sealed r"
  shows "wf_record r \<and> r = make_record impl i 2 (cr_identity r) (cr_manifest r) \<and>
    holds_record impl w (slot_file i ''final'') r \<and>
    holds_record impl w (slot_file i ''reserve'') (make_record impl i 1 (cr_identity r) (cr_manifest r))"
proof -
  have key: "length (ci_record_key impl) = 32" using assms(1) by (simp add: wf_catalog_def)
  have "read_record w (ci_identity impl) (slot_file i ''final'') (ci_record_key impl) = Valid r"
    using view_sealed(1) [OF assms(3)] by (simp add: read_slot_def Let_def)
  from read_record_valid [OF this key] have r: "wf_record r" "holds_record impl w (slot_file i ''final'') r"
    by (auto simp: holds_record_def)
  obtain q where q: "sf_reservation (read_slot impl w i) = Valid q" "expected_record impl q i 1"
      "same_catalog_identity (cr_identity q) (cr_identity r)" "ct_equal (cr_manifest q) (cr_manifest r)"
    using view_sealed(3) [OF assms(3)] by (cases "sf_reservation (read_slot impl w i)") auto
  then have "read_record w (ci_identity impl) (slot_file i ''reserve'') (ci_record_key impl) = Valid q"
    by (simp add: read_slot_def Let_def)
  from read_record_valid [OF this key] have wf: "wf_record q" "holds_record impl w (slot_file i ''reserve'') q"
    by (auto simp: holds_record_def)
  have "cr_identity q = cr_identity r" "cr_manifest q = cr_manifest r"
    using q(3,4) wf(1) r(1) by (simp_all add: wf_record_def same_catalog_identity_iff)
  then have "q = make_record impl i 1 (cr_identity r) (cr_manifest r)"
    using expected_record_iff [OF assms(1) wf(1) assms(2)] q(2) by simp
  then show ?thesis
    using r wf(2) expected_record_iff [OF assms(1) r(1) assms(2)] view_sealed(2) [OF assms(3)] by simp
qed

text \<open>
  C19: A hit of the catalogue is authentic and unique. When the exact lookup answers with a hit,
  there is exactly one slot that records the identity, its files are the encodings under the key of
  the catalogue of the reservation and of the final record that bind this slot, this directory and
  this topology to the identity and to one manifest digest, no slot is damaged or unfinished for the
  identity, and the snapshot is what the slot restored for that digest.
\<close>
theorem restore_hit_authentic:
  assumes "co_implementation object = Some impl" "wf_catalog impl" "wf_identity identity"
    and "catalog_restore_exact object tokens n identity profile w = (reply, w')" "cs_status reply = cat_hit"
  shows "\<exists>i < ci_capacity impl. \<exists>d slots. layout_valid impl w \<and>
    holds_record impl w (slot_file i ''final'') (make_record impl i 2 identity d) \<and>
    holds_record impl w (slot_file i ''reserve'') (make_record impl i 1 identity d) \<and>
    (\<forall>j < ci_capacity impl. slot_view impl w j \<noteq> Broken \<and> \<not> unfinished_for identity (slot_view impl w j) \<and>
       (sealed_for identity (slot_view impl w j) \<longrightarrow> j = i)) \<and>
    sc_restore (sl_canary (ci_slots impl ! i)) d tokens n identity profile (cw_slots w) =
      (\<lparr>ct_status = can_hit, ct_snapshot = cs_snapshot reply\<rparr>, slots) \<and> w' = w\<lparr>cw_slots := slots\<rparr>"
proof -
  have free: "\<not> co_operation_held object" "tokens \<noteq> None" "n \<noteq> 0"
    using assms(1,4,5) by (auto simp: catalog_restore_exact_def catalog_miss_def split: if_splits)
  note spec = restore_exact_verdict [OF free(1) assms(1) free(2,3), where w = w and identity = identity and profile = profile, unfolded assms(4)]
  obtain i d where chosen: "catalog_verdict impl w identity = Chosen i d"
    using spec assms(5) by (cases "catalog_verdict impl w identity") (auto simp: catalog_miss_def)
  then have layout: "layout_valid impl w"
    and verdict: "slots_verdict (slot_view impl w) identity [0..<ci_capacity impl] False = Chosen i d"
    by (auto simp: catalog_verdict_def split: if_splits)
  obtain child slots where child:
      "sc_restore (sl_canary (ci_slots impl ! i)) d tokens n identity profile (cw_slots w) = (child, slots)"
    by fastforce
  have "ct_status child = can_hit"
    using spec assms(5) by (cases "ct_status child") (auto simp: chosen child catalog_miss_def split: if_splits)
  then have hit: "child = \<lparr>ct_status = can_hit, ct_snapshot = cs_snapshot reply\<rparr>" "w' = w\<lparr>cw_slots := slots\<rparr>"
    using spec by (auto simp: chosen child)
  obtain r where r: "i < ci_capacity impl" "slot_view impl w i = Sealed r"
      "same_catalog_identity (cr_identity r) identity" "cr_manifest r = d"
    and others: "\<forall>j \<in> set [0..<ci_capacity impl]. slot_view impl w j \<noteq> Broken \<and>
      \<not> unfinished_for identity (slot_view impl w j) \<and> (sealed_for identity (slot_view impl w j) \<longrightarrow> j = i)"
    using slots_verdict_chosen [OF verdict] by auto
  note files = sealed_files [OF assms(2) r(1,2)]
  then have same: "cr_identity r = identity"
    using r(3) assms(3) by (auto simp: same_catalog_identity_iff wf_record_def)
  have "r = make_record impl i 2 identity d" using files same r(4) by simp
  then have "holds_record impl w (slot_file i ''final'') (make_record impl i 2 identity d)"
    "holds_record impl w (slot_file i ''reserve'') (make_record impl i 1 identity d)"
    using files same r(4) by auto
  moreover have "\<forall>j < ci_capacity impl. slot_view impl w j \<noteq> Broken \<and> \<not> unfinished_for identity (slot_view impl w j) \<and>
      (sealed_for identity (slot_view impl w j) \<longrightarrow> j = i)"
    using others by simp
  ultimately show ?thesis using r(1) layout child hit by (intro exI [of _ i] exI [of _ d] exI [of _ slots] conjI) simp_all
qed

end
