(* ===== verification/Catalog_Publish.thy ===== *)
theory Catalog_Publish
  imports Catalog
begin

text \<open>
  Publication into the catalogue, \<^verbatim>\<open>halofpx-context-store-v1-catalog.cpp\<close>: a record is written
  under a pending name, synchronized, renamed without replacing and the directory synchronized; a
  snapshot is published by reserving a slot with such a record, publishing in the slot and sealing it
  with a second record. Every call of the kernel may fail at any point, which is also where the
  process may stop; what is in the directory then is what the calls left there, so the contents of
  caches that a loss of power would discard are not told apart.
  Shown: a record is never overwritten and at most one free slot changes, whatever fails; an
  acknowledged publication is restored from its slot, unless an unfinished record of the same
  identity was left behind, in which case it never is.
\<close>

subsection \<open>Definitions\<close>

record catalog_publish_result =
  cq_status :: catalog_status
  cq_selected_manifest :: digest

definition publish_record ::
    "nat \<Rightarrow> string \<Rightarrow> byte list \<Rightarrow> 'c catalog_world \<Rightarrow> bool \<times> 'c catalog_world" where
  "publish_record ordinal final_suffix bytes w =
     (let pending = slot_file ordinal (final_suffix @ ''-pending''); final = slot_file ordinal final_suffix in
      if cw_fails w (Create_File pending) \<or> map_of (cw_entries w) pending \<noteq> None then (False, w)
      else (case write_loop (length bytes) (cw_writes w pending) 0 of (complete, off) \<Rightarrow>
        let written = Plain (cw_new_file w pending off) (take off bytes);
            created = w\<lparr>cw_entries := cw_entries w @ [(pending, written)]\<rparr> in
        if \<not> complete then (False, created)
        else if cw_fails w (Sync_File pending) then (False, created)
        else if cw_fails w (Rename_File pending) \<or> map_of (cw_entries w) final \<noteq> None then (False, created)
        else (\<not> cw_fails w (Sync_Root final), w\<lparr>cw_entries := cw_entries w @ [(final, written)]\<rparr>)))"

text \<open>The parameters under which the catalogue and its slots encode a snapshot.\<close>

definition catalog_manifest_parameters :: "'c catalog_store \<Rightarrow> transformer_snapshot \<Rightarrow> manifest_parameters" where
  "catalog_manifest_parameters impl snapshot =
     (let config = ci_config impl in
      \<lparr>mp_store_uuid = cc_store_uuid config, mp_compatibility_components = ce_components (cc_compatibility config),
       mp_producer_identity = cc_producer_identity config, mp_global_plan_digest = cc_global_plan_digest config,
       mp_rank_ownership_digest = cc_rank_ownership_digest config,
       mp_rank_placement_digest = cc_rank_placement_digest config, mp_generation = 1,
       mp_has_predecessor = False, mp_predecessor_manifest_digest = zero_digest,
       mp_topology_epoch = cc_topology_epoch config,
       mp_logical_position = of_nat (length (ts_tokens snapshot)),
       mp_output_boundary = of_nat (length (ts_tokens snapshot)), mp_durability_mode = 0,
       mp_signing_key = \<lparr>mk_disposition = active, mk_key_id = catalog_manifest_key_id, mk_generation = 1,
         mk_master_key = Span (ci_manifest_key impl)\<rparr>\<rparr>)"

definition predict_manifest :: "encode_allocator \<Rightarrow> 'c catalog_store \<Rightarrow> transformer_snapshot \<Rightarrow> digest" where
  "predict_manifest alloc impl snapshot =
     (let r = encode_transformer_snapshot alloc snapshot (catalog_manifest_parameters impl snapshot)
        (cc_limits (ci_config impl))
      in if Transformer_Codec.er_status r = encoded then es_manifest_digest (er_encoded r) else zero_digest)"

definition reserve_available :: "'c catalog_store \<Rightarrow> 'c catalog_world \<Rightarrow> nat \<Rightarrow> u64 \<Rightarrow> bool" where
  "reserve_available impl w k remaining_records =
     (if cw_fails w (Stat_Volume k) \<or> cw_fragment w = 0 then False
      else let fragment = cw_fragment w in
        if of_nat record_bytes > 0xffffffffffffffff - (fragment - 1) then False
        else let allocation = (of_nat record_bytes + fragment - 1) div fragment * fragment in
          if remaining_records > 0xffffffffffffffff div allocation then False
          else let remaining = remaining_records * allocation; reserve = cc_reserve_bytes (ci_config impl) in
            if reserve > 0xffffffffffffffff - remaining then False
            else let blocks = cw_available w k in
              if blocks > 0xffffffffffffffff div fragment then True
              else blocks * fragment \<ge> reserve + remaining)"

text \<open>The scan: the first free slot, or the capacity, and the manifest of an existing record.\<close>

fun publish_scan ::
    "'c catalog_store \<Rightarrow> 'c catalog_world \<Rightarrow> identity \<Rightarrow> digest \<Rightarrow> nat list \<Rightarrow> nat \<Rightarrow> digest option
       \<Rightarrow> catalog_status + nat \<times> digest option" where
  "publish_scan impl w identity predicted [] available existing = Inr (available, existing)"
| "publish_scan impl w identity predicted (i # rest) available existing =
     (let f = read_slot impl w i in
      if some_invalid f then Inl cat_miss_corrupt
      else if all_absent f
      then publish_scan impl w identity predicted rest (if available = ci_capacity impl then i else available) existing
      else if some_unexpected impl f i then Inl cat_miss_corrupt
      else if conflicting f then Inl cat_miss_corrupt
      else case sf_final f of
        Valid final \<Rightarrow>
          if final_unreserved f final then Inl cat_miss_corrupt
          else if same_catalog_identity (cr_identity final) identity
          then if existing \<noteq> None \<or> \<not> ct_equal (cr_manifest final) predicted then Inl cat_miss_corrupt
               else publish_scan impl w identity predicted rest available (Some (cr_manifest final))
          else publish_scan impl w identity predicted rest available existing
      | _ \<Rightarrow> publish_scan impl w identity predicted rest available existing)"

definition refused :: "catalog_status \<Rightarrow> catalog_publish_result" where
  "refused status = \<lparr>cq_status = status, cq_selected_manifest = zero_digest\<rparr>"

text \<open>From the prediction of the manifest on.\<close>

definition publish_predicted ::
    "'c catalog_store \<Rightarrow> digest \<Rightarrow> transformer_snapshot \<Rightarrow> 'c catalog_world \<Rightarrow> catalog_publish_result \<times> 'c catalog_world" where
  "publish_predicted impl predicted snapshot w =
     (if \<not> nonzero predicted then (refused cat_source_rejected, w)
      else (case publish_scan impl w (ts_identity snapshot) predicted [0..<ci_capacity impl] (ci_capacity impl) None of
        Inl status \<Rightarrow> (refused status, w)
      | Inr (available, Some existing) \<Rightarrow> (\<lparr>cq_status = cat_published, cq_selected_manifest = existing\<rparr>, w)
      | Inr (available, None) \<Rightarrow>
          if available = ci_capacity impl then (refused cat_capacity_exhausted, w)
          else if \<not> reserve_available impl w 0 2 then (refused cat_storage, w)
          else (case publish_record available ''reserve'' (encode_record
              (make_record impl available 1 (ts_identity snapshot) predicted) (ci_record_key impl)) w of
            (False, w1) \<Rightarrow> (refused cat_storage, w1)
          | (True, w1) \<Rightarrow>
              (case sc_publish (sl_canary (ci_slots impl ! available)) snapshot (cw_slots w1) of (child, slots) \<Rightarrow>
              let w2 = w1\<lparr>cw_slots := slots\<rparr> in
              if cp_status child \<noteq> can_published \<or> \<not> ct_equal (cp_selected_manifest child) predicted
              then (refused (map_status (cp_status child)), w2)
              else if \<not> reserve_available impl w2 1 1 then (refused cat_storage, w2)
              else (case publish_record available ''final'' (encode_record
                  (make_record impl available 2 (ts_identity snapshot) (cp_selected_manifest child)) (ci_record_key impl)) w2 of
                (False, w3) \<Rightarrow> (refused cat_storage, w3)
              | (True, w3) \<Rightarrow>
                  (\<lparr>cq_status = cat_published, cq_selected_manifest = cp_selected_manifest child\<rparr>, w3))))))"

definition catalog_publish ::
    "encode_allocator \<Rightarrow> 'c catalog_object \<Rightarrow> transformer_snapshot \<Rightarrow> 'c catalog_world
       \<Rightarrow> catalog_publish_result \<times> 'c catalog_world" where
  "catalog_publish alloc object snapshot w =
     (if co_mutation_held object then (refused cat_busy, w)
      else if co_operation_held object then (refused cat_busy, w)
      else case co_implementation object of
        None \<Rightarrow> (refused cat_source_rejected, w)
      | Some impl \<Rightarrow>
        if \<not> layout_valid impl w then (refused cat_miss_corrupt, w)
        else publish_predicted impl (predict_manifest alloc impl snapshot) snapshot w)"

text \<open>A custody token: the object with the mutation lock taken, and whether the token owns it.\<close>

definition acquire_mutation_custody :: "'c catalog_object \<Rightarrow> 'c catalog_object \<times> bool" where
  "acquire_mutation_custody object =
     (if co_mutation_held object then (object, False) else (object\<lparr>co_mutation_held := True\<rparr>, True))"

definition release_mutation_custody :: "'c catalog_object \<Rightarrow> bool \<Rightarrow> 'c catalog_object" where
  "release_mutation_custody object owned = (if owned then object\<lparr>co_mutation_held := False\<rparr> else object)"

subsection \<open>Names and frames\<close>

lemma slot_file_inject:
  assumes "i < 10" "j < 10"
  shows "slot_file i s = slot_file j t \<longleftrightarrow> i = j \<and> s = t"
proof -
  have "of_char (char_of (48 + n) :: char) = 48 + n" if "n < 10" for n :: nat using that by simp
  then have "char_of (48 + i) = (char_of (48 + j) :: char) \<longleftrightarrow> i = j" using assms by (metis add_left_cancel)
  then show ?thesis using assms by (simp add: slot_file_def slot_directory_name_def decimal.simps)
qed

lemma read_nothing: "read_loop record_bytes [] replies 0 [] = None"
  using read_loop_Some [of record_bytes "[]" replies 0 "[]"]
  by (cases "read_loop record_bytes [] replies 0 []") (simp_all add: record_bytes_def record_body_bytes_def)

definition same_kernel :: "'c catalog_world \<Rightarrow> 'c catalog_world \<Rightarrow> bool" where
  "same_kernel w w' \<longleftrightarrow> cw_fails w' = cw_fails w \<and> cw_reads w' = cw_reads w \<and> cw_writes w' = cw_writes w \<and>
     cw_new_file w' = cw_new_file w"

lemma read_record_frame:
  assumes "same_kernel w w'" "map_of (cw_entries w') name = map_of (cw_entries w) name"
  shows "read_record w' root name key = read_record w root name key"
proof (cases "map_of (cw_entries w) name")
  case (Some entry)
  then show ?thesis using assms
    by (cases entry) (auto simp: read_record_def same_kernel_def Let_def read_nothing)
qed (use assms in \<open>simp add: read_record_def same_kernel_def\<close>)

lemma slot_view_frame:
  assumes "same_kernel w w'" "\<forall>s \<in> set record_suffixes. map_of (cw_entries w') (slot_file i s) = map_of (cw_entries w) (slot_file i s)"
  shows "slot_view impl w' i = slot_view impl w i"
proof -
  have "read_slot impl w' i = read_slot impl w i"
    using assms by (simp add: read_slot_def read_record_frame record_suffixes_def)
  then show ?thesis by (simp add: slot_view_def)
qed

text \<open>What was added to the directory: files of one slot, under names not yet taken.\<close>

definition added :: "nat \<Rightarrow> 'c catalog_world \<Rightarrow> 'c catalog_world \<Rightarrow> bool" where
  "added i w w' \<longleftrightarrow> same_kernel w w' \<and> (\<exists>new. cw_entries w' = cw_entries w @ new \<and>
     (\<forall>(n, e) \<in> set new. n \<in> slot_file i ` set record_suffixes \<and> map_of (cw_entries w) n = None))"

lemma added_refl: "added i w w"
  by (auto simp: added_def same_kernel_def)

lemma added_slots: "added i w w' \<Longrightarrow> added i w (w'\<lparr>cw_slots := slots\<rparr>)"
  by (simp add: added_def same_kernel_def)

lemma added_trans:
  assumes "added i w w'" "added i w' w''"
  shows "added i w w''"
proof -
  obtain new new' where "cw_entries w' = cw_entries w @ new" "cw_entries w'' = cw_entries w' @ new'"
    "\<forall>(n, e) \<in> set new. n \<in> slot_file i ` set record_suffixes \<and> map_of (cw_entries w) n = None"
    "\<forall>(n, e) \<in> set new'. n \<in> slot_file i ` set record_suffixes \<and> map_of (cw_entries w') n = None"
    using assms by (auto simp: added_def)
  then show ?thesis using assms
    by (auto simp: added_def same_kernel_def map_add_None intro!: exI [of _ "new @ new'"])
qed

lemma added_entry:
  assumes "s \<in> set record_suffixes" "map_of (cw_entries w) (slot_file i s) = None"
  shows "added i w (w\<lparr>cw_entries := cw_entries w @ [(slot_file i s, e)]\<rparr>)"
  using assms by (auto simp: added_def same_kernel_def)

lemma publish_record_added:
  assumes "s = ''reserve'' \<or> s = ''final''" "publish_record i s bytes w = (ok, w')"
  shows "added i w w'"
proof -
  have "s \<in> set record_suffixes" "s @ ''-pending'' \<in> set record_suffixes"
    using assms(1) by (auto simp: record_suffixes_def)
  then show ?thesis using assms(2)
    by (auto simp: publish_record_def Let_def added_refl intro!: added_entry split: if_splits prod.splits)
qed

lemma added_view:
  assumes "added i w w'" "i < 10" "j < 10" "j \<noteq> i"
  shows "slot_view impl w' j = slot_view impl w j"
proof (rule slot_view_frame)
  show "same_kernel w w'" using assms(1) by (simp add: added_def)
  obtain new where new: "cw_entries w' = cw_entries w @ new"
    "\<forall>(n, e) \<in> set new. n \<in> slot_file i ` set record_suffixes" using assms(1) unfolding added_def by fast
  have "map_of new (slot_file j s) = None" for s
    using new(2) assms(2-4) by (auto simp: map_of_eq_None_iff slot_file_inject)
  then show "\<forall>s \<in> set record_suffixes. map_of (cw_entries w') (slot_file j s) = map_of (cw_entries w) (slot_file j s)"
    by (simp add: new(1) map_add_def split: option.splits)
qed

subsection \<open>The scan\<close>

lemma publish_scan_view:
  "publish_scan impl w identity predicted (i # rest) available existing =
    (case slot_view impl w i of
       Broken \<Rightarrow> Inl cat_miss_corrupt
     | Vacant \<Rightarrow> publish_scan impl w identity predicted rest (if available = ci_capacity impl then i else available) existing
     | Unfinished rs \<Rightarrow> publish_scan impl w identity predicted rest available existing
     | Sealed r \<Rightarrow>
         if \<not> sealed_for identity (Sealed r) then publish_scan impl w identity predicted rest available existing
         else if existing \<noteq> None \<or> \<not> ct_equal (cr_manifest r) predicted then Inl cat_miss_corrupt
         else publish_scan impl w identity predicted rest available (Some (cr_manifest r)))"
proof -
  let ?f = "read_slot impl w i"
  show ?thesis
  proof (cases "some_invalid ?f \<or> all_absent ?f \<or> some_unexpected impl ?f i \<or> conflicting ?f")
    case True
    then show ?thesis
      by (auto simp: slot_view_def Let_def all_absent_def some_invalid_def some_unexpected_def conflicting_def)
  next
    case False
    then show ?thesis
      by (cases "sf_final ?f") (auto simp: slot_view_def Let_def some_invalid_def)
  qed
qed

declare publish_scan.simps(2) [simp del]

fun first_vacant :: "(nat \<Rightarrow> slot_view) \<Rightarrow> nat list \<Rightarrow> nat \<Rightarrow> nat" where
  "first_vacant view [] none = none"
| "first_vacant view (j # js) none = (if view j = Vacant then j else first_vacant view js none)"

lemma first_vacant_cases: "first_vacant view js none = none \<or> (first_vacant view js none \<in> set js \<and> view (first_vacant view js none) = Vacant)"
  by (induction js) auto

lemma publish_scan_result:
  assumes "publish_scan impl w identity predicted js a e = Inr (a', e')" "\<forall>j \<in> set js. j < ci_capacity impl"
  shows "(\<forall>j \<in> set js. slot_view impl w j \<noteq> Broken) \<and>
    a' = (if a = ci_capacity impl then first_vacant (slot_view impl w) js (ci_capacity impl) else a) \<and>
    (case filter (\<lambda>j. sealed_for identity (slot_view impl w j)) js of
       [] \<Rightarrow> e' = e
     | [j] \<Rightarrow> e = None \<and> e' = Some (sealed_manifest (slot_view impl w j)) \<and> ct_equal (sealed_manifest (slot_view impl w j)) predicted
     | _ \<Rightarrow> False)"
  using assms
proof (induction js arbitrary: a e)
  case (Cons j js)
  show ?case
  proof (cases "slot_view impl w j")
    case (Sealed r)
    then show ?thesis using Cons.prems Cons.IH [of a e] Cons.IH [of a "Some (cr_manifest r)"]
      by (auto simp: publish_scan_view split: if_splits list.splits)
  next
    case (Unfinished rs)
    then show ?thesis using Cons.prems Cons.IH [of a e] by (simp add: publish_scan_view)
  next
    case Vacant
    show ?thesis
    proof (cases "a = ci_capacity impl")
      case True
      then show ?thesis using Vacant Cons.prems Cons.IH [of j e] by (simp add: publish_scan_view)
    next
      case False
      then show ?thesis using Vacant Cons.prems Cons.IH [of a e] by (simp add: publish_scan_view)
    qed
  qed (use Cons.prems in \<open>simp add: publish_scan_view\<close>)
qed simp

lemma publish_scan_fails: "publish_scan impl w identity predicted js a e = Inl st \<Longrightarrow> st = cat_miss_corrupt"
  by (induction js arbitrary: a e) (auto simp: publish_scan_view split: slot_view.splits if_splits)

subsection \<open>Nothing is overwritten\<close>

lemma publish_predicted_added:
  assumes "publish_predicted impl predicted snapshot w = (reply, w')"
  shows "w' = w \<or> (\<exists>i < ci_capacity impl. slot_view impl w i = Vacant \<and> added i w w')"
proof (cases "publish_scan impl w (ts_identity snapshot) predicted [0..<ci_capacity impl] (ci_capacity impl) None")
  case (Inl st)
  then show ?thesis using assms by (auto simp: publish_predicted_def split: if_splits)
next
  case (Inr found)
  obtain i existing where found: "found = (i, existing)" by fastforce
  have first: "i = first_vacant (slot_view impl w) [0..<ci_capacity impl] (ci_capacity impl)"
    using publish_scan_result [OF Inr [unfolded found]] by simp
  show ?thesis
  proof (cases "\<not> nonzero predicted \<or> existing \<noteq> None \<or> i = ci_capacity impl \<or> \<not> reserve_available impl w 0 2")
    case True
    then show ?thesis using assms Inr found by (auto simp: publish_predicted_def split: if_splits option.splits)
  next
    case False
    then have i: "i < ci_capacity impl" "slot_view impl w i = Vacant"
      using first_vacant_cases [of "slot_view impl w" "[0..<ci_capacity impl]" "ci_capacity impl"] first by auto
    obtain ok w1 where w1: "publish_record i ''reserve'' (encode_record
        (make_record impl i 1 (ts_identity snapshot) predicted) (ci_record_key impl)) w = (ok, w1)" by fastforce
    then have a1: "added i w w1" by (rule publish_record_added [rotated]) simp
    obtain child slots where child: "sc_publish (sl_canary (ci_slots impl ! i)) snapshot (cw_slots w1) = (child, slots)"
      by fastforce
    let ?w2 = "w1\<lparr>cw_slots := slots\<rparr>"
    obtain ok' w3 where w3: "publish_record i ''final'' (encode_record (make_record impl i 2 (ts_identity snapshot)
        (cp_selected_manifest child)) (ci_record_key impl)) ?w2 = (ok', w3)" by fastforce
    then have "added i ?w2 w3" by (rule publish_record_added [rotated]) simp
    then have a3: "added i w w3" using added_trans added_slots [OF a1] by blast
    have "w' \<in> {w1, ?w2, w3}"
      using assms False Inr found w1 child w3
      by (auto simp: publish_predicted_def Let_def split: if_splits bool.splits)
    then have "added i w w'" using a1 added_slots [OF a1, of slots] a3 by blast
    then show ?thesis using i by blast
  qed
qed


subsection \<open>What was written is read\<close>

text \<open>
  A quiet world: no read fails and no read is cut short for ever. Sound files: a new file is what
  the reader expects of a record.
\<close>

definition quiet :: "'c catalog_world \<Rightarrow> bool" where
  "quiet w \<longleftrightarrow> (\<forall>name. \<not> cw_fails w (Read_Open name) \<and> \<not> cw_fails w (Read_Stat name) \<and>
     list_all transfer_progresses (cw_reads w name))"

definition good_file :: "root_identity \<Rightarrow> file_status \<Rightarrow> bool" where
  "good_file root st \<longleftrightarrow> S_ISREG (st_mode st) \<and> st_nlink st = 1 \<and> st_mode st AND 0xfff = file_mode \<and>
     st_size st = of_nat record_bytes \<and> st_dev st = ri_device root \<and> st_uid st = ri_uid root \<and>
     stx_mnt_id st = Some (ri_mount root)"

definition sound_files :: "'c catalog_store \<Rightarrow> 'c catalog_world \<Rightarrow> bool" where
  "sound_files impl w \<longleftrightarrow> (\<forall>name. good_file (ci_identity impl) (cw_new_file w name record_bytes))"

lemma read_loop_quiet:
  assumes "list_all transfer_progresses replies"
  shows "read_loop n content replies 0 [] = (if n \<le> length content then Some (take n content) else None)"
  using read_loop_complete [OF assms, of 0 n content "[]"] read_loop_Some [of n content replies 0 "[]"]
  by (cases "read_loop n content replies 0 []") auto

lemma quiet_read_record:
  assumes "quiet w" "quiet w'" "map_of (cw_entries w') name = map_of (cw_entries w) name"
  shows "read_record w' root name key = read_record w root name key"
proof (cases "map_of (cw_entries w) name")
  case (Some entry)
  then show ?thesis using assms
    by (cases entry) (auto simp: read_record_def quiet_def Let_def read_nothing read_loop_quiet)
qed (use assms in \<open>simp add: read_record_def quiet_def\<close>)

lemma quiet_slot_view:
  assumes "quiet w" "quiet w'"
    "\<forall>s \<in> set record_suffixes. map_of (cw_entries w') (slot_file i s) = map_of (cw_entries w) (slot_file i s)"
  shows "slot_view impl w' i = slot_view impl w i"
proof -
  have "read_slot impl w' i = read_slot impl w i"
    using assms(3) by (simp add: read_slot_def quiet_read_record [OF assms(1,2)] record_suffixes_def)
  then show ?thesis by (simp add: slot_view_def)
qed

lemma read_written:
  assumes "quiet w" "map_of (cw_entries w) name = Some (Plain st (encode_record r key))" "good_file root st"
    "wf_record r" "length key = 32"
  shows "read_record w root name key = Valid r"
proof -
  have "decode_record (Span (encode_record r key)) key = Some r"
    using assms(4,5) by (simp add: decode_record_exact)
  then show ?thesis
    using assms by (simp add: read_record_def quiet_def good_file_def read_loop_quiet length_encode_record)
qed

lemma read_absent: "quiet w \<Longrightarrow> map_of (cw_entries w) name = None \<Longrightarrow> read_record w root name key = Absent"
  by (simp add: read_record_def quiet_def)

lemma read_Absent_None: "read_record w root name key = Absent \<Longrightarrow> map_of (cw_entries w) name = None"
  by (auto simp: read_record_def Let_def split: if_splits option.splits)

lemma vacant_names:
  assumes "slot_view impl w i = Vacant" "s \<in> set record_suffixes"
  shows "map_of (cw_entries w) (slot_file i s) = None"
proof -
  have "all_absent (read_slot impl w i)"
    using assms(1) by (auto simp: slot_view_def Let_def split: if_splits record_file.splits)
  then show ?thesis using assms(2)
    by (auto simp: all_absent_def read_slot_def Let_def record_suffixes_def intro: read_Absent_None)
qed

lemma write_loop_steps:
  "write_loop n replies n = (True, n)"
  "off \<noteq> n \<Longrightarrow> write_loop n [] off = (if n - off = 0 then (False, off) else write_loop n [] (off + (n - off)))"
  "off \<noteq> n \<Longrightarrow> write_loop n (Interrupted # rest) off = write_loop n rest off"
  "off \<noteq> n \<Longrightarrow> write_loop n (Transfer_Failed # rest) off = (False, off)"
  "off \<noteq> n \<Longrightarrow> write_loop n (Moved k # rest) off =
     (let k = min k (n - off) in if k = 0 then (False, off) else write_loop n rest (off + k))"
  by (subst write_loop.simps; simp add: Let_def)+

lemma write_loop_outcome:
  "off \<le> n \<Longrightarrow> (case write_loop n replies off of (complete, k) \<Rightarrow> (complete \<longleftrightarrow> k = n) \<and> k \<le> n) \<and>
     (list_all transfer_progresses replies \<longrightarrow> fst (write_loop n replies off))"
proof (induction replies arbitrary: off)
  case Nil
  then show ?case by (cases "off = n") (simp_all add: write_loop_steps)
next
  case (Cons reply rest)
  show ?case
  proof (cases "off = n")
    case False
    show ?thesis
    proof (cases reply)
      case (Moved k)
      show ?thesis
      proof (cases "min k (n - off) = 0")
        case True
        then show ?thesis using False Moved Cons.prems by (auto simp: write_loop_steps transfer_progresses_def)
      next
        case nz: False
        have "off + min k (n - off) \<le> n" using Cons.prems by simp
        note ih = Cons.IH [OF this]
        have "write_loop n (reply # rest) off = write_loop n rest (off + min k (n - off))"
          using False nz Moved by (simp only: write_loop_steps(5) Let_def if_False simp_thms)
        then show ?thesis using ih by simp
      qed
    qed (use False Cons in \<open>auto simp: write_loop_steps transfer_progresses_def\<close>)
  qed (simp add: write_loop_steps)
qed

lemma write_loop_complete: "off \<le> n \<Longrightarrow> write_loop n replies off = (True, k) \<Longrightarrow> k = n"
  using write_loop_outcome [of off n replies] by simp

lemma publish_record_True:
  assumes "publish_record i s bytes w = (True, w')"
  shows "w' = w\<lparr>cw_entries := cw_entries w @
    [(slot_file i s, Plain (cw_new_file w (slot_file i (s @ ''-pending'')) (length bytes)) bytes)]\<rparr>"
  using assms by (auto simp: publish_record_def Let_def dest!: write_loop_complete [rotated] split: if_splits prod.splits)

subsection \<open>An acknowledged publication\<close>

lemma filter_single: "i < n \<Longrightarrow> \<forall>j < n. P j \<longleftrightarrow> j = i \<Longrightarrow> filter P [0..<n] = [i]"
proof -
  have "i < n \<Longrightarrow> filter (\<lambda>j. j = i) [0..<n] = [i]" by (induction n) (auto simp: less_Suc_eq filter_empty_conv)
  moreover assume "i < n" "\<forall>j < n. P j \<longleftrightarrow> j = i"
  then have "filter P [0..<n] = filter (\<lambda>j. j = i) [0..<n]" by (intro filter_cong) auto
  ultimately show ?thesis using \<open>i < n\<close> by simp
qed

definition sealed_entries :: "'c catalog_store \<Rightarrow> 'c catalog_world \<Rightarrow> nat \<Rightarrow> identity \<Rightarrow> digest \<Rightarrow> (string \<times> 'c catalog_entry) list" where
  "sealed_entries impl w i identity d =
     [(slot_file i ''reserve'', Plain (cw_new_file w (slot_file i ''reserve-pending'') record_bytes)
         (encode_record (make_record impl i 1 identity d) (ci_record_key impl))),
      (slot_file i ''final'', Plain (cw_new_file w (slot_file i ''final-pending'') record_bytes)
         (encode_record (make_record impl i 2 identity d) (ci_record_key impl)))]"

lemma published_cases:
  assumes "wf_catalog impl" "wf_identity (ts_identity snapshot)" "length predicted = 32"
    and "publish_predicted impl predicted snapshot w = (reply, w')" "cq_status reply = cat_published"
      "nonzero (cq_selected_manifest reply)"
  shows "(\<exists>i. publish_scan impl w (ts_identity snapshot) predicted [0..<ci_capacity impl] (ci_capacity impl) None =
        Inr (i, Some (cq_selected_manifest reply)) \<and> w' = w) \<or>
    (\<exists>i. publish_scan impl w (ts_identity snapshot) predicted [0..<ci_capacity impl] (ci_capacity impl) None = Inr (i, None) \<and>
      i < ci_capacity impl \<and> slot_view impl w i = Vacant \<and> nonzero predicted \<and> added i w w' \<and>
      ct_equal (cq_selected_manifest reply) predicted \<and>
      (length (cq_selected_manifest reply) = 32 \<longrightarrow>
        cw_entries w' = cw_entries w @ sealed_entries impl w i (ts_identity snapshot) predicted))"
proof (cases "publish_scan impl w (ts_identity snapshot) predicted [0..<ci_capacity impl] (ci_capacity impl) None")
  case (Inl st)
  then show ?thesis using assms(4,5) publish_scan_fails [OF Inl]
    by (auto simp: publish_predicted_def refused_def split: if_splits)
next
  case (Inr found)
  obtain i existing where found: "found = (i, existing)" by fastforce
  show ?thesis
  proof (cases existing)
    case (Some d)
    then show ?thesis using assms(4,5) Inr found
      by (auto simp: publish_predicted_def refused_def split: if_splits)
  next
    case None
    then have ready: "nonzero predicted" "i \<noteq> ci_capacity impl" "reserve_available impl w 0 2"
      using assms(4,5) Inr found by (auto simp: publish_predicted_def refused_def split: if_splits)
    have i: "i < ci_capacity impl" "slot_view impl w i = Vacant"
      using publish_scan_result [OF Inr [unfolded found]] ready(2)
        first_vacant_cases [of "slot_view impl w" "[0..<ci_capacity impl]" "ci_capacity impl"] by auto
    obtain ok w1 where w1: "publish_record i ''reserve'' (encode_record
        (make_record impl i 1 (ts_identity snapshot) predicted) (ci_record_key impl)) w = (ok, w1)" by fastforce
    obtain child slots where child: "sc_publish (sl_canary (ci_slots impl ! i)) snapshot (cw_slots w1) = (child, slots)"
      by fastforce
    let ?w2 = "w1\<lparr>cw_slots := slots\<rparr>"
    obtain ok' w3 where w3: "publish_record i ''final'' (encode_record (make_record impl i 2 (ts_identity snapshot)
        (cp_selected_manifest child)) (ci_record_key impl)) ?w2 = (ok', w3)" by fastforce
    have zero: "\<not> nonzero zero_digest" by (simp add: nonzero_iff zero_digest_def)
    have step: "publish_predicted impl predicted snapshot w =
      (if \<not> ok then (refused cat_storage, w1)
       else if cp_status child \<noteq> can_published \<or> \<not> ct_equal (cp_selected_manifest child) predicted
       then (refused (map_status (cp_status child)), ?w2)
       else if \<not> reserve_available impl ?w2 1 1 then (refused cat_storage, ?w2)
       else if \<not> ok' then (refused cat_storage, w3)
       else (\<lparr>cq_status = cat_published, cq_selected_manifest = cp_selected_manifest child\<rparr>, w3))"
      using ready Inr found None w1 child w3
      by (cases ok; cases ok') (simp_all add: publish_predicted_def Let_def)
    then have ack: "ok" "ct_equal (cp_selected_manifest child) predicted" "ok'" "w' = w3"
        "cq_selected_manifest reply = cp_selected_manifest child"
      using assms(4-6) zero by (auto simp: refused_def split: if_splits)
    have a1: "added i w w1" using w1 by (rule publish_record_added [rotated]) simp
    have "added i ?w2 w3" using w3 by (rule publish_record_added [rotated]) simp
    then have a3: "added i w w3" using added_trans added_slots [OF a1] by blast
    have "cw_entries w3 = cw_entries w @ sealed_entries impl w i (ts_identity snapshot) predicted"
      if len: "length (cp_selected_manifest child) = 32"
    proof -
      have same: "cp_selected_manifest child = predicted" using ack(2) len assms(3) by simp
      have wf: "wf_record (make_record impl i kind (ts_identity snapshot) predicted)" if "kind = 1 \<or> kind = 2" for kind
        using wf_make_record [OF assms(1,2,3) that] .
      have key: "length (ci_record_key impl) = 32" using assms(1) by (simp add: wf_catalog_def)
      have 1: "w1 = w\<lparr>cw_entries := cw_entries w @ [(slot_file i ''reserve'',
          Plain (cw_new_file w (slot_file i ''reserve-pending'') record_bytes)
            (encode_record (make_record impl i 1 (ts_identity snapshot) predicted) (ci_record_key impl)))]\<rparr>"
        using publish_record_True [OF w1 [unfolded eqTrueI [OF ack(1)]]] length_encode_record [OF wf key] by simp
      have "w3 = ?w2\<lparr>cw_entries := cw_entries ?w2 @ [(slot_file i ''final'',
          Plain (cw_new_file ?w2 (slot_file i ''final-pending'') record_bytes)
            (encode_record (make_record impl i 2 (ts_identity snapshot) predicted) (ci_record_key impl)))]\<rparr>"
        using publish_record_True [OF w3 [unfolded eqTrueI [OF ack(3)]]] length_encode_record [OF wf key] same by simp
      then show ?thesis by (simp add: 1 sealed_entries_def)
    qed
    then show ?thesis using i ready Inr found None ack a3 by auto
  qed
qed

lemma sealed_entries_view:
  assumes "wf_catalog impl" "wf_identity identity" "length d = 32" "nonzero d" "i < ci_capacity impl"
    and "quiet w''" "sound_files impl w" "slot_view impl w i = Vacant"
    and "cw_entries w'' = cw_entries w @ sealed_entries impl w i identity d"
  shows "slot_view impl w'' i = Sealed (make_record impl i 2 identity d)"
proof -
  have small: "i < 10" using assms(1,5) by (simp add: wf_catalog_def catalog_max_slots_def)
  have key: "length (ci_record_key impl) = 32" using assms(1) by (simp add: wf_catalog_def)
  let ?r = "\<lambda>kind. make_record impl i kind identity d"
  have wf: "wf_record (?r 1)" "wf_record (?r 2)" using wf_make_record [OF assms(1-3)] by simp_all
  have free: "map_of (cw_entries w) (slot_file i s) = None" if "s \<in> set record_suffixes" for s
    using vacant_names [OF assms(8) that] .
  have at: "map_of (cw_entries w'') (slot_file i s) =
      (if s = ''reserve'' then Some (Plain (cw_new_file w (slot_file i ''reserve-pending'') record_bytes)
         (encode_record (?r 1) (ci_record_key impl)))
       else if s = ''final'' then Some (Plain (cw_new_file w (slot_file i ''final-pending'') record_bytes)
         (encode_record (?r 2) (ci_record_key impl)))
       else None)" if "s \<in> set record_suffixes" for s
    using free [OF that] by (simp add: assms(9) sealed_entries_def slot_file_inject [OF small small] map_add_def)
  have good: "good_file (ci_identity impl) (cw_new_file w name record_bytes)" for name
    using assms(7) by (simp add: sound_files_def)
  have "read_slot impl w'' i = \<lparr>sf_reservation = Valid (?r 1), sf_final = Valid (?r 2),
      sf_reserve_pending = Absent, sf_final_pending = Absent\<rparr>"
    using read_written [OF assms(6) _ good wf(1) key] read_written [OF assms(6) _ good wf(2) key]
      read_absent [OF assms(6)]
    by (simp add: read_slot_def at record_suffixes_def)
  moreover have "expected_record impl (?r kind) i kind" if "kind = 1 \<or> kind = 2" for kind
    using expected_record_iff [OF assms(1) wf_make_record [OF assms(1-3) that] assms(5)] assms(4)
    by (simp add: make_record_def)
  moreover have "same_catalog_identity identity identity" using assms(2) by (simp add: same_catalog_identity_iff)
  ultimately show ?thesis using assms(3)
    by (simp add: slot_view_def some_invalid_def some_unexpected_def conflicting_def final_unreserved_def)
      (simp add: make_record_def)
qed

lemma slots_verdict_one:
  assumes "\<forall>j < n. view j \<noteq> Broken" "i < n" "\<forall>j < n. sealed_for identity (view j) \<longleftrightarrow> j = i"
  shows "slots_verdict view identity [0..<n] room =
    (if \<exists>j < n. unfinished_for identity (view j) then Uncertain else Chosen i (sealed_manifest (view i)))"
  using assms filter_single [OF assms(2,3)] by (auto simp: slots_verdict_def undecided_def)


subsection \<open>Publication completes\<close>

lemma publish_scan_free:
  assumes "\<forall>j \<in> set js. slot_view impl w j \<noteq> Broken \<and> \<not> sealed_for identity (slot_view impl w j)"
  shows "publish_scan impl w identity predicted js a e = Inr
    (if a = ci_capacity impl then first_vacant (slot_view impl w) js (ci_capacity impl) else a, e) \<or>
    \<not> (\<forall>j \<in> set js. j < ci_capacity impl)"
  using assms
proof (induction js arbitrary: a)
  case (Cons j js)
  then show ?case
    by (cases "slot_view impl w j") (auto simp: publish_scan_view)
qed simp

lemma publish_record_completes:
  assumes "\<forall>call. \<not> cw_fails w call" "\<forall>name. list_all transfer_progresses (cw_writes w name)"
    "map_of (cw_entries w) (slot_file i (s @ ''-pending'')) = None" "map_of (cw_entries w) (slot_file i s) = None"
  shows "publish_record i s bytes w = (True, w\<lparr>cw_entries := cw_entries w @
    [(slot_file i s, Plain (cw_new_file w (slot_file i (s @ ''-pending'')) (length bytes)) bytes)]\<rparr>)"
proof -
  have "write_loop (length bytes) (cw_writes w (slot_file i (s @ ''-pending''))) 0 = (True, length bytes)"
    using write_loop_outcome [of 0 "length bytes" "cw_writes w (slot_file i (s @ ''-pending''))"] assms(2)
    by (cases "write_loop (length bytes) (cw_writes w (slot_file i (s @ ''-pending''))) 0") simp
  then show ?thesis using assms(1,3,4) by (simp add: publish_record_def Let_def)
qed

lemma reserve_available_frame [simp]:
  "reserve_available impl (w\<lparr>cw_entries := es\<rparr>) k n = reserve_available impl w k n"
  "reserve_available impl (w\<lparr>cw_slots := c\<rparr>) k n = reserve_available impl w k n"
  by (simp_all add: reserve_available_def Let_def)

lemma publish_run:
  assumes "wf_catalog impl" "wf_identity (ts_identity snapshot)" "length predicted = 32" "nonzero predicted"
    and "\<forall>call. \<not> cw_fails w call" "\<forall>name. list_all transfer_progresses (cw_writes w name)"
    and "\<forall>j < ci_capacity impl. slot_view impl w j \<noteq> Broken \<and> \<not> sealed_for (ts_identity snapshot) (slot_view impl w j)"
    and "i = first_vacant (slot_view impl w) [0..<ci_capacity impl] (ci_capacity impl)" "i < ci_capacity impl"
    and "reserve_available impl w 0 2" "reserve_available impl w 1 1"
    and "sc_publish (sl_canary (ci_slots impl ! i)) snapshot (cw_slots w) =
      (\<lparr>cp_status = can_published, cp_selected_manifest = predicted\<rparr>, slots)"
  shows "publish_predicted impl predicted snapshot w =
    (\<lparr>cq_status = cat_published, cq_selected_manifest = predicted\<rparr>,
     w\<lparr>cw_entries := cw_entries w @ sealed_entries impl w i (ts_identity snapshot) predicted, cw_slots := slots\<rparr>)"
proof -
  let ?r = "\<lambda>kind. encode_record (make_record impl i kind (ts_identity snapshot) predicted) (ci_record_key impl)"
  have key: "length (ci_record_key impl) = 32" using assms(1) by (simp add: wf_catalog_def)
  have small: "i < 10" using assms(1,9) by (simp add: wf_catalog_def catalog_max_slots_def)
  have len: "length (?r 1) = record_bytes" "length (?r 2) = record_bytes"
    using length_encode_record [OF wf_make_record [OF assms(1-3)] key] by simp_all
  have vacant: "slot_view impl w i = Vacant"
    using first_vacant_cases [of "slot_view impl w" "[0..<ci_capacity impl]" "ci_capacity impl"] assms(8,9) by auto
  have free: "map_of (cw_entries w) (slot_file i s) = None" if "s \<in> set record_suffixes" for s
    using vacant_names [OF vacant that] .
  let ?w1 = "w\<lparr>cw_entries := cw_entries w @ [(slot_file i ''reserve'',
    Plain (cw_new_file w (slot_file i ''reserve-pending'') record_bytes) (?r 1))]\<rparr>"
  have 1: "publish_record i ''reserve'' (?r 1) w = (True, ?w1)"
    using publish_record_completes [OF assms(5,6), of i "''reserve''" "?r 1"] free by (simp add: record_suffixes_def len)
  have absent: "map_of (cw_entries (?w1\<lparr>cw_slots := slots\<rparr>)) (slot_file i s) = None" if "s = ''final'' \<or> s = ''final-pending''" for s
    using free [of s] that by (auto simp: map_add_def record_suffixes_def slot_file_inject [OF small small])
  have 2: "publish_record i ''final'' (?r 2) (?w1\<lparr>cw_slots := slots\<rparr>) =
      (True, w\<lparr>cw_entries := cw_entries w @ sealed_entries impl w i (ts_identity snapshot) predicted, cw_slots := slots\<rparr>)"
    using publish_record_completes [of "?w1\<lparr>cw_slots := slots\<rparr>" i "''final''" "?r 2"] assms(5,6) absent
    by (simp add: len sealed_entries_def)
  have scan: "publish_scan impl w (ts_identity snapshot) predicted [0..<ci_capacity impl] (ci_capacity impl) None = Inr (i, None)"
    using publish_scan_free [of "[0..<ci_capacity impl]" impl w "ts_identity snapshot" predicted "ci_capacity impl" None]
      assms(7,8) by auto
  have "ct_equal predicted predicted" by simp
  then show ?thesis using assms(4,9-12) scan 1 2
    by (simp add: publish_predicted_def Let_def)
qed

lemma first_vacant_first:
  "\<exists>j \<in> {m..<n}. view j = Vacant \<Longrightarrow> first_vacant view [m..<n] n < n \<and> view (first_vacant view [m..<n] n) = Vacant \<and>
     (\<forall>j \<in> {m..<first_vacant view [m..<n] n}. view j \<noteq> Vacant)"
proof (induction "n - m" arbitrary: m)
  case (Suc k)
  show ?case
  proof (cases "view m = Vacant")
    case True
    then show ?thesis using Suc.hyps(2) by (simp add: upt_rec)
  next
    case False
    then obtain j where "j \<in> {Suc m..<n}" "view j = Vacant" using Suc.prems by (metis atLeastLessThan_iff le_neq_implies_less Suc_leI)
    then have "first_vacant view [Suc m..<n] n < n \<and> view (first_vacant view [Suc m..<n] n) = Vacant \<and>
        (\<forall>j \<in> {Suc m..<first_vacant view [Suc m..<n] n}. view j \<noteq> Vacant)"
      using Suc.hyps by (intro Suc.hyps(1)) auto
    moreover have "first_vacant view [m..<n] n = first_vacant view [Suc m..<n] n"
      using False Suc.hyps(2) by (simp add: upt_rec [of m n])
    ultimately show ?thesis using False
      by (auto simp: le_less Suc_le_eq)
  qed
qed auto

text \<open>
  C38: Publication completes. When the kernel refuses nothing and moves at least one byte per call
  it does not interrupt, no slot is damaged or holds the identity, the volume has room for both
  records and the slot publishes the predicted manifest, a publication takes the first free slot,
  adds exactly the reservation and the final record of that slot and acknowledges the manifest.
\<close>
theorem publish_completes:
  assumes "wf_catalog impl" "wf_identity (ts_identity snapshot)" "length predicted = 32" "nonzero predicted"
    and "\<forall>call. \<not> cw_fails w call" "\<forall>name. list_all transfer_progresses (cw_writes w name)"
    and "\<forall>j < ci_capacity impl. slot_view impl w j \<noteq> Broken \<and> \<not> sealed_for (ts_identity snapshot) (slot_view impl w j)"
    and "\<exists>j < ci_capacity impl. slot_view impl w j = Vacant"
    and "reserve_available impl w 0 2" "reserve_available impl w 1 1"
    and "\<forall>j < ci_capacity impl. \<exists>slots. sc_publish (sl_canary (ci_slots impl ! j)) snapshot (cw_slots w) =
      (\<lparr>cp_status = can_published, cp_selected_manifest = predicted\<rparr>, slots)"
  shows "\<exists>i slots. i < ci_capacity impl \<and> slot_view impl w i = Vacant \<and> (\<forall>j < i. slot_view impl w j \<noteq> Vacant) \<and>
    publish_predicted impl predicted snapshot w =
      (\<lparr>cq_status = cat_published, cq_selected_manifest = predicted\<rparr>,
       w\<lparr>cw_entries := cw_entries w @ sealed_entries impl w i (ts_identity snapshot) predicted, cw_slots := slots\<rparr>)"
proof -
  define i where "i = first_vacant (slot_view impl w) [0..<ci_capacity impl] (ci_capacity impl)"
  have i: "i < ci_capacity impl" "slot_view impl w i = Vacant" "\<forall>j < i. slot_view impl w j \<noteq> Vacant"
  proof -
    have "\<exists>j \<in> {0..<ci_capacity impl}. slot_view impl w j = Vacant" using assms(8) by auto
    from first_vacant_first [OF this] show "i < ci_capacity impl" "slot_view impl w i = Vacant"
      "\<forall>j < i. slot_view impl w j \<noteq> Vacant" by (auto simp: i_def)
  qed
  obtain slots where "sc_publish (sl_canary (ci_slots impl ! i)) snapshot (cw_slots w) =
      (\<lparr>cp_status = can_published, cp_selected_manifest = predicted\<rparr>, slots)"
    using assms(11) i(1) by blast
  from publish_run [OF assms(1-7) i_def i(1) assms(9,10) this] show ?thesis using i by blast
qed

subsection \<open>Concrete inputs\<close>

definition sample_root :: "u64 \<Rightarrow> root_identity" where
  "sample_root n = \<lparr>ri_device = 1, ri_inode = n, ri_mount = 1, ri_uid = 0, ri_fs = 1, ri_mode = directory_mode\<rparr>"

definition sample_canary :: "unit slot_canary" where
  "sample_canary = \<lparr>sc_publish = \<lambda>snapshot slots. (\<lparr>cp_status = can_published, cp_selected_manifest = replicate 32 1\<rparr>, slots),
     sc_restore = \<lambda>d tokens n i p slots. (\<lparr>ct_status = can_hit, ct_snapshot =
       \<lparr>ts_identity = i, ts_profile = p, ts_tokens = take n (the tokens), ts_state = [1, 2, 3]\<rparr>\<rparr>, slots),
     sc_inspect_manifest = \<lambda>d i p slots. (\<lparr>cm_status = can_ready, cm_token_count = 2\<rparr>, slots)\<rparr>"

definition sample_canary_config :: canary_config where
  "sample_canary_config = \<lparr>cc_operator_key = Span [], cc_store_uuid = replicate 16 1,
     cc_compatibility = \<lparr>ce_components = replicate 16 (replicate 32 2), ce_root = replicate 32 1\<rparr>,
     cc_producer_identity = replicate 32 3, cc_global_plan_digest = replicate 32 4,
     cc_rank_ownership_digest = replicate 32 5, cc_rank_placement_digest = replicate 32 6, cc_topology_epoch = 1,
     cc_quota_bytes = 1000000, cc_reserve_bytes = 4096, cc_max_entries = 1, cc_limits = server_codec_limits\<rparr>"

definition sample_catalog_store :: "unit catalog_store" where
  "sample_catalog_store = \<lparr>ci_identity = sample_root 1, ci_config = sample_canary_config, ci_capacity = 2,
     ci_record_key = replicate 32 7, ci_manifest_key = replicate 32 8,
     ci_slots = [\<lparr>sl_data = sample_root 2, sl_anchor = sample_root 3, sl_canary = sample_canary\<rparr>,
       \<lparr>sl_data = sample_root 4, sl_anchor = sample_root 5, sl_canary = sample_canary\<rparr>]\<rparr>"

definition sample_record_status :: "string \<Rightarrow> nat \<Rightarrow> file_status" where
  "sample_record_status name n = \<lparr>st_mode = 0x8180, st_nlink = 1, st_size = of_nat n, st_dev = 1,
     st_ino = of_nat (100 + 40 * of_char (name ! 6) + length name), st_uid = 0, st_blocks = 8, stx_mnt_id = Some 1\<rparr>"

definition sample_catalog_world :: "(string \<times> unit catalog_entry) list \<Rightarrow> unit catalog_world" where
  "sample_catalog_world entries = \<lparr>cw_entries = entries, cw_fails = \<lambda>_. False, cw_reads = \<lambda>_. [Interrupted, Moved 100],
     cw_writes = \<lambda>_. [Moved 1, Interrupted, Moved 300], cw_new_file = sample_record_status, cw_fragment = 4096,
     cw_available = \<lambda>_. 100, cw_slots = ()\<rparr>"

text \<open>The reservation an interrupted publication left in the first slot.\<close>

definition left_reservation :: "string \<times> unit catalog_entry" where
  "left_reservation = (slot_file 0 ''reserve'', Plain (sample_record_status (slot_file 0 ''reserve'') record_bytes)
     (encode_record (make_record sample_catalog_store 0 1 sample_identity (replicate 32 1)) (replicate 32 7)))"

lemma sample_catalog_facts:
  "wf_catalog sample_catalog_store" "wf_identity sample_identity" "ci_capacity sample_catalog_store = 2"
  "ci_record_key sample_catalog_store = replicate 32 7" "quiet (sample_catalog_world es)"
  "sound_files sample_catalog_store (sample_catalog_world es)"
  "reserve_available sample_catalog_store (sample_catalog_world es) k 1" "reserve_available sample_catalog_store (sample_catalog_world es) k 2"
  by (simp_all add: wf_catalog_def sample_catalog_store_def catalog_max_slots_def sample_canary_config_def wf_identity_def
    sample_identity_def quiet_def sample_catalog_world_def transfer_progresses_def sound_files_def good_file_def
    sample_record_status_def S_ISREG_def file_mode_def sample_root_def reserve_available_def record_bytes_def record_body_bytes_def)

lemma sample_free:
  assumes "\<forall>s \<in> set record_suffixes. map_of es (slot_file i s) = None"
  shows "slot_view sample_catalog_store (sample_catalog_world es) i = Vacant"
proof -
  have "read_slot sample_catalog_store (sample_catalog_world es) i = \<lparr>sf_reservation = Absent, sf_final = Absent,
      sf_reserve_pending = Absent, sf_final_pending = Absent\<rparr>"
    using assms by (simp add: read_slot_def read_record_def record_suffixes_def sample_catalog_world_def)
  then show ?thesis
    by (simp add: slot_view_def some_invalid_def some_unexpected_def conflicting_def all_absent_def)
qed

lemma left_reservation_view:
  "slot_view sample_catalog_store (sample_catalog_world [left_reservation]) 0 =
     Unfinished [make_record sample_catalog_store 0 1 sample_identity (replicate 32 1)]"
proof -
  let ?r = "make_record sample_catalog_store 0 1 sample_identity (replicate 32 1)"
  let ?w = "sample_catalog_world [left_reservation]"
  have wf: "wf_record ?r" using wf_make_record [OF sample_catalog_facts(1,2)] by simp
  have good: "good_file (ci_identity sample_catalog_store) (sample_record_status (slot_file 0 ''reserve'') record_bytes)"
    using sample_catalog_facts(6) [of "[]"] by (simp add: sound_files_def sample_catalog_world_def)
  have "map_of (cw_entries ?w) (slot_file 0 ''reserve'') = Some (Plain (sample_record_status (slot_file 0 ''reserve'') record_bytes)
      (encode_record ?r (ci_record_key sample_catalog_store)))"
    by (simp add: sample_catalog_world_def left_reservation_def sample_catalog_facts)
  from read_written [OF sample_catalog_facts(5) this good wf]
  have "read_record ?w (ci_identity sample_catalog_store) (slot_file 0 ''reserve'') (ci_record_key sample_catalog_store) = Valid ?r"
    by (simp add: sample_catalog_facts)
  moreover have "map_of (cw_entries ?w) (slot_file 0 s) = None" if "s \<noteq> ''reserve''" for s
    using that by (simp add: sample_catalog_world_def left_reservation_def slot_file_inject)
  ultimately have "read_slot sample_catalog_store ?w 0 = \<lparr>sf_reservation = Valid ?r, sf_final = Absent,
      sf_reserve_pending = Absent, sf_final_pending = Absent\<rparr>"
    using read_absent [OF sample_catalog_facts(5)] by (simp add: read_slot_def)
  moreover have "expected_record sample_catalog_store ?r 0 1"
    using expected_record_iff [OF sample_catalog_facts(1) wf, of 0 1] sample_catalog_facts(3)
    by (simp add: make_record_def nonzero_iff)
  ultimately show ?thesis
    by (simp add: slot_view_def some_invalid_def some_unexpected_def conflicting_def all_absent_def)
qed

lemma sample_publication:
  assumes "\<forall>j < 2. slot_view sample_catalog_store (sample_catalog_world es) j \<noteq> Broken \<and>
      \<not> sealed_for sample_identity (slot_view sample_catalog_store (sample_catalog_world es) j)"
    and "i = first_vacant (slot_view sample_catalog_store (sample_catalog_world es)) [0..<2] 2" "i < 2"
  shows "publish_predicted sample_catalog_store (replicate 32 1) sample_snapshot (sample_catalog_world es) =
    (\<lparr>cq_status = cat_published, cq_selected_manifest = replicate 32 1\<rparr>,
     sample_catalog_world (es @ sealed_entries sample_catalog_store (sample_catalog_world es) i sample_identity (replicate 32 1)))"
proof -
  have slot: "sl_canary (ci_slots sample_catalog_store ! i) = sample_canary"
    using assms(3) by (cases i) (simp_all add: sample_catalog_store_def less_Suc_eq)
  have "publish_predicted sample_catalog_store (replicate 32 1) sample_snapshot (sample_catalog_world es) =
    (\<lparr>cq_status = cat_published, cq_selected_manifest = replicate 32 1\<rparr>,
     sample_catalog_world es\<lparr>cw_entries := cw_entries (sample_catalog_world es) @
       sealed_entries sample_catalog_store (sample_catalog_world es) i (ts_identity sample_snapshot) (replicate 32 1), cw_slots := ()\<rparr>)"
    by (rule publish_run) (use assms slot sample_catalog_facts in \<open>simp_all add: sample_snapshot_def nonzero_iff sample_catalog_world_def
      transfer_progresses_def sample_canary_def\<close>)
  then show ?thesis by (simp add: sample_catalog_world_def sample_snapshot_def)
qed

lemma sample_views:
  "slot_view sample_catalog_store (sample_catalog_world []) i = Vacant"
  "slot_view sample_catalog_store (sample_catalog_world [left_reservation]) (Suc 0) = Vacant"
  by (rule sample_free; simp add: left_reservation_def slot_file_inject)+

lemma sample_publications:
  "publish_predicted sample_catalog_store (replicate 32 1) sample_snapshot (sample_catalog_world []) =
    (\<lparr>cq_status = cat_published, cq_selected_manifest = replicate 32 1\<rparr>,
     sample_catalog_world (sealed_entries sample_catalog_store (sample_catalog_world []) 0 sample_identity (replicate 32 1)))"
  "publish_predicted sample_catalog_store (replicate 32 1) sample_snapshot (sample_catalog_world [left_reservation]) =
    (\<lparr>cq_status = cat_published, cq_selected_manifest = replicate 32 1\<rparr>,
     sample_catalog_world (left_reservation #
       sealed_entries sample_catalog_store (sample_catalog_world [left_reservation]) 1 sample_identity (replicate 32 1)))"
proof -
  have two: "[0..<2] = [0, 1 :: nat]" by (simp add: upt_rec)
  show "publish_predicted sample_catalog_store (replicate 32 1) sample_snapshot (sample_catalog_world []) =
    (\<lparr>cq_status = cat_published, cq_selected_manifest = replicate 32 1\<rparr>,
     sample_catalog_world (sealed_entries sample_catalog_store (sample_catalog_world []) 0 sample_identity (replicate 32 1)))"
    using sample_publication [of "[]" 0] by (simp add: sample_views two)
  show "publish_predicted sample_catalog_store (replicate 32 1) sample_snapshot (sample_catalog_world [left_reservation]) =
    (\<lparr>cq_status = cat_published, cq_selected_manifest = replicate 32 1\<rparr>,
     sample_catalog_world (left_reservation #
       sealed_entries sample_catalog_store (sample_catalog_world [left_reservation]) 1 sample_identity (replicate 32 1)))"
    using sample_publication [of "[left_reservation]" 1] by (simp add: sample_views left_reservation_view two less_2_cases_iff)
qed

lemma digit_characters: "char_of (48 :: nat) = CHR ''0''" "char_of (49 :: nat) = CHR ''1''"
  by code_simp+

lemma sample_names:
  "slot_file 0 ''reserve'' = ''slot-00.reserve.v1''" "slot_file 0 ''final'' = ''slot-00.final.v1''"
  "slot_file 0 ''reserve-pending'' = ''slot-00.reserve-pending.v1''" "slot_file 0 ''final-pending'' = ''slot-00.final-pending.v1''"
  "slot_file (Suc 0) ''reserve'' = ''slot-01.reserve.v1''" "slot_file (Suc 0) ''final'' = ''slot-01.final.v1''"
  "slot_file (Suc 0) ''reserve-pending'' = ''slot-01.reserve-pending.v1''"
  "slot_file (Suc 0) ''final-pending'' = ''slot-01.final-pending.v1''"
  "slot_directory_name 0 = ''slot-00''" "slot_directory_name (Suc 0) = ''slot-01''"
  by (simp_all add: slot_file_def slot_directory_name_def decimal.simps digit_characters)

lemma sample_entry:
  assumes "cw_slots w = ()" "\<forall>call. \<not> cw_fails w call" "name = slot_file i s" "i < 2" "s \<in> {''reserve'', ''final''}"
    "st = sample_record_status other record_bytes" "(1, st_ino st) \<notin> set (ly_inodes scan)" "ly_count scan < 9"
    "ly_logical scan \<le> 4000" "ly_allocated scan \<le> 40000"
  shows "layout_entry w (sample_root 1) 2 1000000 anchors (name, Plain st bs) scan =
    Some \<lparr>ly_count = ly_count scan + 1, ly_logical = ly_logical scan + 496, ly_allocated = ly_allocated scan + 4096,
      ly_inodes = ly_inodes scan @ [(1, st_ino st)]\<rparr>"
proof -
  have two: "[0..<2] = [0, 1 :: nat]" by (simp add: upt_rec)
  have name: "name \<noteq> ''.''" "name \<noteq> ''..''" "name \<noteq> ''writer.lock''" "catalog_slot_directory name 2 = None"
      "catalog_name_allowed name 2"
    using assms(3-5) by (auto simp: less_2_cases_iff catalog_slot_directory_def catalog_name_allowed_def two
      sample_names record_suffixes_def)
  have st: "S_ISREG (st_mode st)" "st_nlink st = 1" "st_mode st AND 0xfff = file_mode" "st_dev st = 1" "st_uid st = 0"
      "stx_mnt_id st = Some 1" "st_size st = of_nat record_bytes" "st_blocks st = 8"
    by (simp_all add: assms(6) sample_record_status_def S_ISREG_def file_mode_def)
  have size: "st_size st = 496" using st(7) by (simp add: record_bytes_def record_body_bytes_def)
  have sums: "ly_logical scan + 496 \<le> 1000000" "ly_allocated scan + 4096 \<le> 1000000"
      "ly_logical scan \<le> 0xffffffffffffffff - 496" "ly_allocated scan \<le> 0xffffffffffffffff - 4096"
    using assms(9,10) by (simp_all add: word_le_nat_alt unat_word_ariths)
  show ?thesis
    using name st size sums assms(1,2,7,8)
    by (simp add: layout_entry_def entry_rejected_def sample_root_def not_less record_bytes_def record_body_bytes_def Let_def)
qed

lemma sample_world_fields [simp]:
  "cw_slots (sample_catalog_world es) = ()" "cw_fails (sample_catalog_world es) = (\<lambda>_. False)"
  "cw_entries (sample_catalog_world es) = es" "cw_new_file (sample_catalog_world es) = sample_record_status"
  "cw_writes (sample_catalog_world es) name = [Moved 1, Interrupted, Moved 300]"
  by (simp_all add: sample_catalog_world_def)

lemma sample_inodes:
  "st_ino (sample_record_status (slot_file 0 ''reserve-pending'') n) = 2046"
  "st_ino (sample_record_status (slot_file 0 ''reserve'') n) = 2038"
  "st_ino (sample_record_status (slot_file 0 ''final-pending'') n) = 2044"
  "st_ino (sample_record_status (slot_file (Suc 0) ''reserve-pending'') n) = 2086"
  "st_ino (sample_record_status (slot_file (Suc 0) ''final-pending'') n) = 2084"
  by (simp_all add: sample_record_status_def sample_names)

lemma sample_layouts:
  "layout_valid sample_catalog_store (sample_catalog_world
     (sealed_entries sample_catalog_store (sample_catalog_world []) 0 identity d))"
  "layout_valid sample_catalog_store (sample_catalog_world (left_reservation #
     sealed_entries sample_catalog_store (sample_catalog_world [left_reservation]) 1 identity d))"
proof -
  have quota: "cc_quota_bytes (ci_config sample_catalog_store) = 1000000"
    and root: "ci_identity sample_catalog_store = sample_root 1"
    by (simp_all add: sample_catalog_store_def sample_canary_config_def)
  note layout = layout_valid_def validate_catalog_layout_def quota root sample_catalog_facts(3) sealed_entries_def
    sample_entry [OF _ _ refl _ _ refl] sample_inodes left_reservation_def
  show "layout_valid sample_catalog_store (sample_catalog_world
     (sealed_entries sample_catalog_store (sample_catalog_world []) 0 identity d))"
    by (simp add: layout)
  show "layout_valid sample_catalog_store (sample_catalog_world (left_reservation #
     sealed_entries sample_catalog_store (sample_catalog_world [left_reservation]) 1 identity d))"
    by (simp add: layout)
qed


theorem publish_completes_witness:
  "cq_status (fst (publish_predicted sample_catalog_store (replicate 32 1) sample_snapshot (sample_catalog_world []))) = cat_published"
proof -
  have views: "\<forall>j < ci_capacity sample_catalog_store. slot_view sample_catalog_store (sample_catalog_world []) j = Vacant"
    using sample_views by simp
  then have free: "\<exists>j < ci_capacity sample_catalog_store. slot_view sample_catalog_store (sample_catalog_world []) j = Vacant"
    using sample_catalog_facts(3) by (intro exI [of _ 0]) simp
  have slots: "\<forall>j < ci_capacity sample_catalog_store. sl_canary (ci_slots sample_catalog_store ! j) = sample_canary"
    by (auto simp: sample_catalog_store_def less_2_cases_iff)
  have "\<exists>i slots. i < ci_capacity sample_catalog_store \<and> slot_view sample_catalog_store (sample_catalog_world []) i = Vacant \<and>
    (\<forall>j < i. slot_view sample_catalog_store (sample_catalog_world []) j \<noteq> Vacant) \<and>
    publish_predicted sample_catalog_store (replicate 32 1) sample_snapshot (sample_catalog_world []) =
      (\<lparr>cq_status = cat_published, cq_selected_manifest = replicate 32 1\<rparr>,
       sample_catalog_world []\<lparr>cw_entries := cw_entries (sample_catalog_world []) @
         sealed_entries sample_catalog_store (sample_catalog_world []) i (ts_identity sample_snapshot) (replicate 32 1), cw_slots := slots\<rparr>)"
    by (rule publish_completes) (use sample_catalog_facts views free slots in \<open>simp_all add: sample_snapshot_def nonzero_iff
      transfer_progresses_def sample_canary_def\<close>)
  then show ?thesis by auto
qed


definition sample_sealed_world :: "identity \<Rightarrow> unit catalog_world" where
  "sample_sealed_world identity = sample_catalog_world
     (sealed_entries sample_catalog_store (sample_catalog_world []) 0 identity (replicate 32 1))"

definition sample_catalog_object :: "unit catalog_object" where
  "sample_catalog_object = \<lparr>co_implementation = Some sample_catalog_store, co_mutation_held = False, co_operation_held = False\<rparr>"

lemma sample_sealed_views:
  assumes "wf_identity identity"
  shows "slot_view sample_catalog_store (sample_sealed_world identity) 0 = Sealed (make_record sample_catalog_store 0 2 identity (replicate 32 1))"
  "slot_view sample_catalog_store (sample_sealed_world identity) (Suc 0) = Vacant"
  "layout_valid sample_catalog_store (sample_sealed_world identity)"
proof -
  have "cw_entries (sample_sealed_world identity) = cw_entries (sample_catalog_world []) @
      sealed_entries sample_catalog_store (sample_catalog_world []) 0 identity (replicate 32 1)"
    by (simp add: sample_sealed_world_def)
  from sealed_entries_view [OF sample_catalog_facts(1) assms _ _ _ _ sample_catalog_facts(6) sample_views(1) this]
  show "slot_view sample_catalog_store (sample_sealed_world identity) 0 =
      Sealed (make_record sample_catalog_store 0 2 identity (replicate 32 1))"
    using sample_catalog_facts(3,5) by (simp add: sample_sealed_world_def nonzero_iff)
  show "slot_view sample_catalog_store (sample_sealed_world identity) (Suc 0) = Vacant"
    unfolding sample_sealed_world_def by (rule sample_free) (simp add: sealed_entries_def slot_file_inject)
  show "layout_valid sample_catalog_store (sample_sealed_world identity)"
    unfolding sample_sealed_world_def by (rule sample_layouts(1))
qed

lemma sample_sealed_verdict:
  assumes "wf_identity identity"
  shows "catalog_verdict sample_catalog_store (sample_sealed_world identity) identity = Chosen 0 (replicate 32 1)"
proof -
  have two: "[0..<2] = [0, 1 :: nat]" by (simp add: upt_rec)
  have "same_catalog_identity identity identity"
    using assms by (simp add: same_catalog_identity_iff)
  then show ?thesis
    by (simp add: catalog_verdict_def sample_sealed_views [OF assms] sample_catalog_facts(3) two slots_verdict_def undecided_def)
      (simp add: make_record_def)
qed

lemma sample_restore:
  "catalog_restore_exact sample_catalog_object (Some [5, 6]) 2 sample_identity sample_profile (sample_sealed_world sample_identity) =
     (\<lparr>cs_status = cat_hit, cs_snapshot = sample_snapshot, cs_authenticated_record_selected = True\<rparr>, (sample_sealed_world sample_identity))"
proof -
  have slot: "sl_canary (ci_slots sample_catalog_store ! 0) = sample_canary" by (simp add: sample_catalog_store_def)
  show ?thesis
    using restore_exact_verdict [where object = sample_catalog_object and impl = sample_catalog_store and
        tokens = "Some [5, 6]" and n = 2 and w = "sample_sealed_world sample_identity" and identity = sample_identity and
        profile = sample_profile] sample_sealed_verdict [OF sample_catalog_facts(2)] slot
    by (simp add: sample_catalog_object_def sample_canary_def sample_sealed_world_def sample_catalog_world_def sample_snapshot_def)
qed

theorem restore_hit_authentic_witness:
  "\<exists>i < 2. \<exists>d. holds_record sample_catalog_store (sample_sealed_world sample_identity) (slot_file i ''final'')
    (make_record sample_catalog_store i 2 sample_identity d)"
  using restore_hit_authentic [OF _ sample_catalog_facts(1,2) sample_restore] sample_catalog_facts(3)
  by (auto simp: sample_catalog_object_def)

end
