(* ===== verification/Catalog_Discovery.thy ===== *)
theory Catalog_Discovery
  imports Catalog_Publish
begin

text \<open>
  The discovery of stored prefix lengths, \<^verbatim>\<open>discover_prefix_token_counts\<close> of
  \<^verbatim>\<open>halofpx-context-store-v1-catalog.cpp\<close>. A manifest inspection of a slot is an arbitrary
  function; that it leaves the slots as they are, as the source says of it, is a hypothesis of the
  theorem and not of the model. The array of eight lengths is the list of those in use; a ninth
  one is a corrupt miss, as in the source, which the bound on the capacity excludes.
  Shown: the lengths reported are exactly the authenticated ones of the scope, in increasing
  order, and a failure reports none.
\<close>

record prefix_query =
  pq_compatibility_root :: digest
  pq_producer_identity :: digest
  pq_scope_namespace :: digest
  pq_policy_epoch :: u64
  pq_max_token_count :: nat
  pq_profile :: transformer_profile

record prefix_result =
  pr_status :: catalog_status
  pr_token_counts :: "nat list"

definition discovery_failed :: "catalog_status \<Rightarrow> prefix_result" where
  "discovery_failed status = \<lparr>pr_status = status, pr_token_counts = []\<rparr>"

definition query_rejected :: "prefix_query \<Rightarrow> bool" where
  "query_rejected query \<longleftrightarrow>
     \<not> nonzero (pq_compatibility_root query) \<or> \<not> nonzero (pq_producer_identity query) \<or>
     \<not> nonzero (pq_scope_namespace query) \<or> pq_policy_epoch query = 0 \<or> pq_max_token_count query = 0 \<or>
     \<not> profile_is_admitted (pq_profile query) \<or> tp_world_size (pq_profile query) \<noteq> 1 \<or>
     tp_rank (pq_profile query) \<noteq> 0 \<or> tp_architecture (pq_profile query) \<noteq> transformer"

definition relevant :: "prefix_query \<Rightarrow> catalog_record \<Rightarrow> bool" where
  "relevant query r \<longleftrightarrow>
     ct_equal (id_compatibility_root (cr_identity r)) (pq_compatibility_root query) \<and>
     ct_equal (id_scope_namespace (cr_identity r)) (pq_scope_namespace query) \<and>
     id_policy_epoch (cr_identity r) = pq_policy_epoch query"

definition inspection_failure :: "canary_status \<Rightarrow> catalog_status" where
  "inspection_failure st =
     (let status = map_status st in
      if status = cat_ready \<or> status = cat_published \<or> status = cat_hit \<or> status = cat_miss_not_found \<or>
         status = cat_capacity_exhausted
      then cat_miss_corrupt else status)"

text \<open>One slot: the identities seen, the lengths found, and the world.\<close>

definition discover_slot ::
    "'c catalog_store \<Rightarrow> prefix_query \<Rightarrow> nat \<Rightarrow> identity list \<times> nat list \<Rightarrow> 'c catalog_world
       \<Rightarrow> (catalog_status + identity list \<times> nat list) \<times> 'c catalog_world" where
  "discover_slot impl query i acc w =
     (let f = read_slot impl w i; identities = fst acc; counts = snd acc in
      if some_invalid f \<or> some_unexpected impl f i \<or> conflicting f then (Inl cat_miss_corrupt, w)
      else case sf_final f of
        Valid final \<Rightarrow>
          if final_unreserved f final \<or> list_ex (\<lambda>identity. same_catalog_identity identity (cr_identity final)) identities
          then (Inl cat_miss_corrupt, w)
          else if \<not> relevant query final then (Inr (identities @ [cr_identity final], counts), w)
          else (case sc_inspect_manifest (sl_canary (ci_slots impl ! i)) (cr_manifest final) (cr_identity final)
              (pq_profile query) (cw_slots w) of
            (inspected, slots) \<Rightarrow>
              (if cm_status inspected \<noteq> can_ready \<or> cm_token_count inspected = 0
               then Inl (inspection_failure (cm_status inspected))
               else if cm_token_count inspected > pq_max_token_count query
               then Inr (identities @ [cr_identity final], counts)
               else if cm_token_count inspected \<in> set counts then Inr (identities @ [cr_identity final], counts)
               else if length counts = catalog_max_slots then Inl cat_miss_corrupt
               else Inr (identities @ [cr_identity final], counts @ [cm_token_count inspected]),
               w\<lparr>cw_slots := slots\<rparr>))
      | _ \<Rightarrow>
          if valid_record (sf_reservation f) (relevant query) \<or> valid_record (sf_reserve_pending f) (relevant query) \<or>
             valid_record (sf_final_pending f) (relevant query)
          then (Inl cat_miss_corrupt, w)
          else (Inr acc, w))"

fun discover_slots ::
    "'c catalog_store \<Rightarrow> prefix_query \<Rightarrow> nat list \<Rightarrow> identity list \<times> nat list \<Rightarrow> 'c catalog_world
       \<Rightarrow> (catalog_status + identity list \<times> nat list) \<times> 'c catalog_world" where
  "discover_slots impl query [] acc w = (Inr acc, w)"
| "discover_slots impl query (i # rest) acc w =
     (case discover_slot impl query i acc w of
        (Inl status, w') \<Rightarrow> (Inl status, w')
      | (Inr acc', w') \<Rightarrow> discover_slots impl query rest acc' w')"

definition discover_prefix_token_counts ::
    "'c catalog_object \<Rightarrow> prefix_query \<Rightarrow> 'c catalog_world \<Rightarrow> prefix_result \<times> 'c catalog_world" where
  "discover_prefix_token_counts object query w =
     (if co_operation_held object then (discovery_failed cat_busy, w)
      else case co_implementation object of
        None \<Rightarrow> (discovery_failed cat_source_rejected, w)
      | Some impl \<Rightarrow>
        if query_rejected query then (discovery_failed cat_source_rejected, w)
        else if \<not> ct_equal (pq_producer_identity query) (cc_producer_identity (ci_config impl))
        then (discovery_failed cat_miss_incompatible, w)
        else if \<not> layout_valid impl w then (discovery_failed cat_miss_corrupt, w)
        else (case discover_slots impl query [0..<ci_capacity impl] ([], []) w of
            (Inl status, w') \<Rightarrow> (discovery_failed status, w')
          | (Inr (_, counts), w') \<Rightarrow>
              (\<lparr>pr_status = (if length counts = 0 then cat_miss_not_found else cat_ready),
                pr_token_counts = sort counts\<rparr>, w')))"

subsection \<open>What is discovered\<close>

definition inspections_pure :: "'c catalog_store \<Rightarrow> bool" where
  "inspections_pure impl \<longleftrightarrow> (\<forall>i < ci_capacity impl. \<forall>d identity profile slots.
     snd (sc_inspect_manifest (sl_canary (ci_slots impl ! i)) d identity profile slots) = slots)"

definition inspected :: "'c catalog_store \<Rightarrow> prefix_query \<Rightarrow> 'c \<Rightarrow> nat \<Rightarrow> catalog_record \<Rightarrow> canary_manifest_result" where
  "inspected impl query slots i r = fst (sc_inspect_manifest (sl_canary (ci_slots impl ! i)) (cr_manifest r)
     (cr_identity r) (pq_profile query) slots)"

fun slot_discoverable :: "'c catalog_store \<Rightarrow> prefix_query \<Rightarrow> 'c \<Rightarrow> nat \<Rightarrow> slot_view \<Rightarrow> bool" where
  "slot_discoverable impl query slots i Vacant \<longleftrightarrow> True"
| "slot_discoverable impl query slots i Broken \<longleftrightarrow> False"
| "slot_discoverable impl query slots i (Unfinished rs) \<longleftrightarrow> \<not> list_ex (relevant query) rs"
| "slot_discoverable impl query slots i (Sealed r) \<longleftrightarrow> relevant query r \<longrightarrow>
     cm_status (inspected impl query slots i r) = can_ready \<and> cm_token_count (inspected impl query slots i r) \<noteq> 0"

fun slot_identities :: "slot_view \<Rightarrow> identity list" where
  "slot_identities (Sealed r) = [cr_identity r]"
| "slot_identities Vacant = []"
| "slot_identities Broken = []"
| "slot_identities (Unfinished rs) = []"

fun slot_counts :: "'c catalog_store \<Rightarrow> prefix_query \<Rightarrow> 'c \<Rightarrow> nat \<Rightarrow> slot_view \<Rightarrow> nat set" where
  "slot_counts impl query slots i (Sealed r) =
     (if relevant query r then {cm_token_count (inspected impl query slots i r)} \<inter> {..pq_max_token_count query} else {})"
| "slot_counts impl query slots i Vacant = {}"
| "slot_counts impl query slots i Broken = {}"
| "slot_counts impl query slots i (Unfinished rs) = {}"

definition unlike :: "identity \<Rightarrow> identity \<Rightarrow> bool" where
  "unlike a b \<longleftrightarrow> \<not> same_catalog_identity a b"

definition discoverable :: "'c catalog_store \<Rightarrow> prefix_query \<Rightarrow> 'c catalog_world \<Rightarrow> nat list \<Rightarrow> identity list \<Rightarrow> bool" where
  "discoverable impl query w js identities \<longleftrightarrow>
     (\<forall>j \<in> set js. slot_discoverable impl query (cw_slots w) j (slot_view impl w j)) \<and>
     sorted_wrt unlike (identities @ concat (map (\<lambda>j. slot_identities (slot_view impl w j)) js))"

definition discovered :: "'c catalog_store \<Rightarrow> prefix_query \<Rightarrow> 'c catalog_world \<Rightarrow> nat list \<Rightarrow> nat set" where
  "discovered impl query w js = (\<Union>j \<in> set js. slot_counts impl query (cw_slots w) j (slot_view impl w j))"

definition ends_discovery :: "catalog_status \<Rightarrow> bool" where
  "ends_discovery status \<longleftrightarrow>
     status \<notin> {cat_ready, cat_published, cat_hit, cat_miss_not_found, cat_capacity_exhausted}"

lemma discovery_failures: "ends_discovery cat_miss_corrupt" "ends_discovery (inspection_failure st)"
  by (cases st; simp add: ends_discovery_def inspection_failure_def Let_def)+

lemma discover_slot_view:
  assumes "inspections_pure impl" "length counts < catalog_max_slots" "i < ci_capacity impl"
  shows "discover_slot impl query i (identities, counts) w =
    (case slot_view impl w i of
       Vacant \<Rightarrow> (Inr (identities, counts), w)
     | Broken \<Rightarrow> (Inl cat_miss_corrupt, w)
     | Unfinished rs \<Rightarrow> (if list_ex (relevant query) rs then Inl cat_miss_corrupt else Inr (identities, counts), w)
     | Sealed r \<Rightarrow>
         (if list_ex (\<lambda>identity. same_catalog_identity identity (cr_identity r)) identities then Inl cat_miss_corrupt
          else if \<not> slot_discoverable impl query (cw_slots w) i (Sealed r)
          then Inl (inspection_failure (cm_status (inspected impl query (cw_slots w) i r)))
          else Inr (identities @ [cr_identity r],
            counts @ filter (\<lambda>c. c \<notin> set counts) (sorted_list_of_set (slot_counts impl query (cw_slots w) i (Sealed r)))), w))"
proof -
  let ?f = "read_slot impl w i"
  show ?thesis
  proof (cases "some_invalid ?f \<or> some_unexpected impl ?f i \<or> conflicting ?f")
    case True
    then show ?thesis by (auto simp: discover_slot_def slot_view_def Let_def)
  next
    case False
    show ?thesis
    proof (cases "sf_final ?f")
      case (Valid final)
      obtain m slots where m: "sc_inspect_manifest (sl_canary (ci_slots impl ! i)) (cr_manifest final)
          (cr_identity final) (pq_profile query) (cw_slots w) = (m, slots)" by fastforce
      then have "slots = cw_slots w" using assms(1,3) by (metis inspections_pure_def snd_conv)
      then show ?thesis using False Valid assms(2) m
        by (auto simp: discover_slot_def slot_view_def Let_def inspected_def)
    qed (use False in \<open>auto simp: discover_slot_def slot_view_def Let_def some_invalid_def all_absent_def
        valid_record_list list_ex_append\<close>)
  qed
qed

lemma unlike_snoc:
  "sorted_wrt unlike identities \<Longrightarrow> sorted_wrt unlike (identities @ [i]) \<longleftrightarrow>
     \<not> list_ex (\<lambda>identity. same_catalog_identity identity i) identities"
  by (auto simp: sorted_wrt_append list_ex_iff unlike_def [of _ i])

lemma discover_slots_view:
  assumes "inspections_pure impl"
  shows "length counts + length js \<le> catalog_max_slots \<Longrightarrow> \<forall>j \<in> set js. j < ci_capacity impl \<Longrightarrow>
    distinct counts \<Longrightarrow> sorted_wrt unlike identities \<Longrightarrow>
    (if discoverable impl query w js identities
     then \<exists>ids cs. discover_slots impl query js (identities, counts) w = (Inr (ids, cs), w) \<and> distinct cs \<and>
       set cs = set counts \<union> discovered impl query w js
     else \<exists>st. discover_slots impl query js (identities, counts) w = (Inl st, w) \<and> ends_discovery st)"
proof (induction js arbitrary: identities counts)
  case Nil
  then show ?case by (simp add: discoverable_def discovered_def)
next
  case (Cons j js)
  have room: "length counts < catalog_max_slots" using Cons.prems(1) by simp
  have j: "j < ci_capacity impl" and js: "\<forall>j \<in> set js. j < ci_capacity impl" using Cons.prems(2) by simp_all
  note step = discover_slot_view [OF assms room j, of query identities w]
  show ?case
  proof (cases "slot_view impl w j")
    case (Sealed r)
    let ?ids = "identities @ [cr_identity r]"
    let ?cs = "counts @ filter (\<lambda>c. c \<notin> set counts) (sorted_list_of_set (slot_counts impl query (cw_slots w) j (Sealed r)))"
    have fin: "finite (slot_counts impl query (cw_slots w) j (Sealed r))" by simp
    have "slot_counts impl query (cw_slots w) j (Sealed r) \<subseteq> {cm_token_count (inspected impl query (cw_slots w) j r)}"
      by simp
    then have "slot_counts impl query (cw_slots w) j (Sealed r) = {} \<or>
        slot_counts impl query (cw_slots w) j (Sealed r) = {cm_token_count (inspected impl query (cw_slots w) j r)}"
      by (rule subset_singletonD)
    then have "length (filter (\<lambda>c. c \<notin> set counts)
        (sorted_list_of_set (slot_counts impl query (cw_slots w) j (Sealed r)))) \<le> 1"
      by (auto simp del: slot_counts.simps)
    then have len: "length ?cs + length js \<le> catalog_max_slots"
      using Cons.prems(1) by (simp del: slot_counts.simps)
    have dist: "distinct ?cs" using Cons.prems(3) by auto
    have ids: "sorted_wrt unlike ?ids \<longleftrightarrow>
        \<not> list_ex (\<lambda>identity. same_catalog_identity identity (cr_identity r)) identities"
      using Cons.prems(4) by (rule unlike_snoc)
    show ?thesis
    proof (cases "sorted_wrt unlike ?ids \<and> slot_discoverable impl query (cw_slots w) j (Sealed r)")
      case True
      have "discoverable impl query w (j # js) identities \<longleftrightarrow> discoverable impl query w js ?ids"
        using True Sealed by (simp add: discoverable_def)
      moreover have "discover_slots impl query (j # js) (identities, counts) w = discover_slots impl query js (?ids, ?cs) w"
        using True Sealed step by (simp add: ids)
      moreover have "set ?cs \<union> discovered impl query w js = set counts \<union> discovered impl query w (j # js)"
        using Sealed fin by (auto simp: discovered_def)
      ultimately show ?thesis using Cons.IH [OF len js dist conjunct1 [OF True]] by (simp only:)
    next
      case False
      have "\<not> discoverable impl query w (j # js) identities"
        using False Sealed by (auto simp: discoverable_def sorted_wrt_append unlike_def)
      then show ?thesis using False Sealed step by (auto simp: ids discovery_failures)
    qed
  next
    case (Unfinished rs)
    then show ?thesis using Cons.IH [OF _ js Cons.prems(3,4)] Cons.prems(1) step
      by (auto simp: discoverable_def discovered_def discovery_failures)
  next
    case Vacant
    then show ?thesis using Cons.IH [OF _ js Cons.prems(3,4)] Cons.prems(1) step
      by (auto simp: discoverable_def discovered_def)
  next
    case Broken
    then show ?thesis using step by (auto simp: discoverable_def discovery_failures)
  qed
qed

lemma discover_counts:
  assumes "inspections_pure impl" "ci_capacity impl \<le> catalog_max_slots"
    and "\<not> co_operation_held object" "co_implementation object = Some impl" "\<not> query_rejected query"
    and "ct_equal (pq_producer_identity query) (cc_producer_identity (ci_config impl))"
  shows "if layout_valid impl w \<and> discoverable impl query w [0..<ci_capacity impl] []
    then let found = discovered impl query w [0..<ci_capacity impl] in
      discover_prefix_token_counts object query w =
        (\<lparr>pr_status = (if found = {} then cat_miss_not_found else cat_ready), pr_token_counts = sorted_list_of_set found\<rparr>, w)
    else \<exists>st. discover_prefix_token_counts object query w = (discovery_failed st, w) \<and> ends_discovery st"
proof (cases "layout_valid impl w")
  case False
  then show ?thesis using assms by (auto simp: discover_prefix_token_counts_def intro: discovery_failures)
next
  case layout: True
  let ?js = "[0..<ci_capacity impl]"
  have len: "length ([] :: nat list) + length ?js \<le> catalog_max_slots" using assms(2) by simp
  have js: "\<forall>j \<in> set ?js. j < ci_capacity impl" by simp
  note loop = discover_slots_view [OF assms(1) len js, of "[]" query w]
  show ?thesis
  proof (cases "discoverable impl query w ?js []")
    case True
    then obtain ids cs where run: "discover_slots impl query ?js ([], []) w = (Inr (ids, cs), w)"
      and cs: "distinct cs" "set cs = discovered impl query w ?js"
      using loop by auto
    have "sort cs = sorted_list_of_set (discovered impl query w ?js)"
      using cs by (metis sorted_list_of_set_sort_remdups distinct_remdups_id)
    moreover have "length cs = 0 \<longleftrightarrow> discovered impl query w ?js = {}" using cs(2) by auto
    ultimately show ?thesis using True layout assms run
      by (simp add: discover_prefix_token_counts_def Let_def)
  next
    case False
    then show ?thesis using loop layout assms by (auto simp: discover_prefix_token_counts_def)
  qed
qed


definition sample_query :: prefix_query where
  "sample_query = \<lparr>pq_compatibility_root = replicate 32 1, pq_producer_identity = replicate 32 3,
     pq_scope_namespace = replicate 32 2, pq_policy_epoch = id_policy_epoch sample_identity, pq_max_token_count = 8,
     pq_profile = sample_profile\<rparr>"


end
