(* ===== verification/Compatibility.thy ===== *)
theory Compatibility
  imports Auth
begin

text \<open>
  \<^verbatim>\<open>halofpx-context-store-compatibility-v1.{h,cpp}\<close>: the builder of a compatibility expectation
  from sixteen labelled component digests. A label is a pointer with a size; an index that the
  source returns as -1 is \<^verbatim>\<open>None\<close>.
  Shown: it builds from the closed registry of labels, in its order, and from nothing else, and the
  root it computes in its fixed array is the root the manifest verifier recomputes.
\<close>

definition compatibility_labels :: "byte list list" where
  "compatibility_labels = map ascii_bytes
     [''model_bytes_and_shards'', ''model_metadata'', ''tokenizer_bytes_and_policy'',
      ''chat_template_bytes_renderer_and_rendered_output'', ''system_and_tool_context'',
      ''adapter_projector_set_and_order'', ''runtime_abi_and_build'', ''backend_and_device_abi'',
      ''quantization_and_kv_layout'', ''context_rope_window_and_position'', ''sampler_and_logits_processors'',
      ''grammar_parser_and_tool_state'', ''rng_state_and_counter'', ''target_draft_mtp_speculative_state'',
      ''topology_plan_rank_world_placement_epoch'', ''security_domain_and_scope_policy'']"

definition compatibility_wire_size :: nat where
  "compatibility_wire_size = length compatibility_domain + 1 + compatibility_component_count * (1 + 2 + 32)"

record component_digest =
  cd_label :: byte_span
  cd_digest :: digest

datatype build_status =
    compat_built | compat_invalid_input | wrong_component_count | unknown_component | duplicate_component
  | misordered_component | zero_component_digest

record build_result =
  br_status :: build_status
  br_expectation :: compatibility_expectation

definition label_index :: "byte_span \<Rightarrow> nat option" where
  "label_index label =
     (if span_null label \<or> span_size label = 0 then None
      else find (\<lambda>index. span_size label = length (compatibility_labels ! index) \<and>
        span_bytes label = compatibility_labels ! index) [0..<length compatibility_labels])"

definition component_label :: "nat \<Rightarrow> byte list option" where
  "component_label index =
     (if index < length compatibility_labels then Some (compatibility_labels ! index) else None)"

definition empty_expectation :: compatibility_expectation where
  "empty_expectation = \<lparr>ce_components = replicate 16 zero_digest, ce_root = zero_digest\<rparr>"

fun build_components ::
    "component_digest list \<Rightarrow> nat \<Rightarrow> bool list \<Rightarrow> digest list \<Rightarrow> build_status + digest list" where
  "build_components [] input_index seen components = Inr components"
| "build_components (component # rest) input_index seen components =
     (case label_index (cd_label component) of
        None \<Rightarrow> Inl unknown_component
      | Some index \<Rightarrow>
          if seen ! index then Inl duplicate_component
          else if index \<noteq> input_index then Inl misordered_component
          else if \<not> nonzero (cd_digest component) then Inl zero_component_digest
          else build_components rest (input_index + 1) (seen[index := True]) (components[index := cd_digest component]))"

definition compatibility_wire :: "digest list \<Rightarrow> byte list" where
  "compatibility_wire components =
     compatibility_domain @ [0xb0] @
     concat (map (\<lambda>index. [of_nat index, 0x58, 0x20] @ components ! index) [0..<length components])"

definition build_compatibility_expectation :: "component_digest list option \<Rightarrow> nat \<Rightarrow> build_result" where
  "build_compatibility_expectation components component_count =
     (let failed = (\<lambda>status. \<lparr>br_status = status, br_expectation = empty_expectation\<rparr>) in
      if component_count \<noteq> compatibility_component_count then failed wrong_component_count
      else case components of
        None \<Rightarrow> failed compat_invalid_input
      | Some given \<Rightarrow>
          (case build_components (take component_count given) 0 (replicate 16 False) (ce_components empty_expectation) of
             Inl status \<Rightarrow> failed status
           | Inr digests \<Rightarrow>
               (let wire = compatibility_wire digests in
                if length wire \<noteq> compatibility_wire_size then failed compat_invalid_input
                else case context_store_sha256_bounded (Span wire) (of_nat (length wire)) of
                  None \<Rightarrow> failed compat_invalid_input
                | Some root \<Rightarrow>
                    if \<not> nonzero root then failed compat_invalid_input
                    else \<lparr>br_status = compat_built,
                      br_expectation = \<lparr>ce_components = digests, ce_root = root\<rparr>\<rparr>)))"

fun build_status_name :: "build_status \<Rightarrow> string" where
  "build_status_name compat_built = ''built''"
| "build_status_name compat_invalid_input = ''invalid-input''"
| "build_status_name wrong_component_count = ''wrong-component-count''"
| "build_status_name unknown_component = ''unknown-component''"
| "build_status_name duplicate_component = ''duplicate-component''"
| "build_status_name misordered_component = ''misordered-component''"
| "build_status_name zero_component_digest = ''zero-component-digest''"

subsection \<open>What is built\<close>

lemma compatibility_labels_facts:
  "length compatibility_labels = 16" "distinct compatibility_labels" "[] \<notin> set compatibility_labels"
  by (simp_all add: compatibility_labels_def ascii_bytes_def)

lemma label_index_iff:
  "label_index label = Some index \<longleftrightarrow> index < 16 \<and> label = Span (compatibility_labels ! index)"
proof -
  have "[] \<noteq> compatibility_labels ! k" if "k < 16" for k
    using compatibility_labels_facts(1,3) that by (metis nth_mem)
  moreover have "find (\<lambda>k. length bs = length (compatibility_labels ! k) \<and> bs = compatibility_labels ! k) [0..<16] = Some index \<longleftrightarrow>
      index < 16 \<and> bs = compatibility_labels ! index" for bs
    using compatibility_labels_facts(1,2) by (auto simp: find_Some_iff nth_eq_iff_index_eq)
  ultimately show ?thesis
    by (cases label) (auto simp: label_index_def compatibility_labels_facts(1))
qed

definition component_ok :: "nat \<Rightarrow> component_digest \<Rightarrow> bool" where
  "component_ok k c \<longleftrightarrow> cd_label c = Span (compatibility_labels ! k) \<and> nonzero (cd_digest c)"

lemma build_components_iff:
  assumes "k + length cs \<le> 16" "length components = 16"
  shows "build_components cs k (replicate k True @ replicate (16 - k) False) components = Inr ds \<longleftrightarrow>
    (\<forall>i < length cs. component_ok (k + i) (cs ! i)) \<and>
    ds = take k components @ map cd_digest cs @ drop (k + length cs) components"
  using assms
proof (induction cs arbitrary: k components)
  case (Cons c cs)
  let ?seen = "replicate k True @ replicate (16 - k) False"
  have k: "k < 16" using Cons.prems(1) by simp
  then have mark: "?seen[k := True] = replicate (Suc k) True @ replicate (16 - Suc k) False"
    by (simp add: list_update_append Suc_diff_Suc [symmetric] replicate_append_same [symmetric] del: replicate_append_same)
  have ok: "build_components (c # cs) k ?seen components = Inr ds \<longleftrightarrow> component_ok k c \<and>
      build_components cs (Suc k) (?seen[k := True]) (components[k := cd_digest c]) = Inr ds"
  proof -
    have "cd_label c = Span (compatibility_labels ! k) \<longleftrightarrow> label_index (cd_label c) = Some k"
      using k by (simp add: label_index_iff)
    then show ?thesis using k by (auto simp: component_ok_def nth_append split: option.splits if_splits)
  qed
  have "build_components cs (Suc k) (?seen[k := True]) (components[k := cd_digest c]) = Inr ds \<longleftrightarrow>
      (\<forall>i < length cs. component_ok (Suc k + i) (cs ! i)) \<and>
      ds = take (Suc k) (components[k := cd_digest c]) @ map cd_digest cs @ drop (Suc k + length cs) (components[k := cd_digest c])"
    unfolding mark using Cons.prems by (intro Cons.IH) simp_all
  moreover have "take (Suc k) (components[k := cd_digest c]) = take k components @ [cd_digest c]"
    using k Cons.prems(2) by (simp add: take_Suc_conv_app_nth)
  ultimately show ?case unfolding ok by (auto simp: All_less_Suc2)
qed auto

lemma build_all_components:
  assumes "length cs = 16"
  shows "build_components cs 0 (replicate 16 False) (ce_components empty_expectation) = Inr ds \<longleftrightarrow>
    map cd_label cs = map Span compatibility_labels \<and> list_all (\<lambda>c. nonzero (cd_digest c)) cs \<and> ds = map cd_digest cs"
proof -
  have "map cd_label cs = map Span compatibility_labels \<longleftrightarrow> (\<forall>i < 16. cd_label (cs ! i) = Span (compatibility_labels ! i))"
    using assms compatibility_labels_facts(1) by (simp add: list_eq_iff_nth_eq)
  then show ?thesis
    using build_components_iff [of 0 cs "ce_components empty_expectation" ds] assms
    by (auto simp: empty_expectation_def component_ok_def list_all_length)
qed

lemma compatibility_wire_eq:
  assumes "length ds = 16" "\<forall>d \<in> set ds. length d = 32"
  shows "compatibility_wire ds = compatibility_domain @ compatibility_bytes ds" "length (compatibility_wire ds) = compatibility_wire_size"
proof -
  have each: "concat (map (\<lambda>i. [of_nat i, 0x58, 0x20] @ (es @ fs) ! i) [length es..<length es + length fs]) =
      enc_each component_bytes (length es) fs"
    if "length es + length fs \<le> 24" "\<forall>d \<in> set fs. length d = 32" for es fs :: "digest list"
    using that
  proof (induction fs arbitrary: es)
    case (Cons f fs)
    have "concat (map (\<lambda>i. [of_nat i, 0x58, 0x20] @ ((es @ [f]) @ fs) ! i) [length (es @ [f])..<length (es @ [f]) + length fs]) =
        enc_each component_bytes (length (es @ [f])) fs"
      using Cons.prems by (intro Cons.IH) auto
    moreover have "[length es..<length es + length (f # fs)] =
        length es # [length (es @ [f])..<length (es @ [f]) + length fs]"
      by (simp add: upt_conv_Cons del: upt_Suc)
    ultimately show ?case using Cons.prems by (simp add: component_bytes_small del: upt_Suc)
  qed simp
  have "cbor_head 5 16 = [0xb0]" by (simp add: cbor_head_def head_byte_def)
  then show eq: "compatibility_wire ds = compatibility_domain @ compatibility_bytes ds"
    using each [of "[]" ds] assms by (simp add: compatibility_wire_def compatibility_bytes_def)
  have "length (enc_each component_bytes n es) = 35 * length es" if "n + length es \<le> 24" "\<forall>d \<in> set es. length d = 32" for n es
    using that by (induction es arbitrary: n) (simp_all add: component_bytes_small)
  then show "length (compatibility_wire ds) = compatibility_wire_size"
    using assms \<open>cbor_head 5 16 = [0xb0]\<close>
    by (simp add: eq compatibility_bytes_def compatibility_wire_size_def compatibility_component_count_def)
qed

text \<open>
  The compatibility builder. It succeeds exactly for sixteen components that carry the labels of
  the closed registry in its order, none with a zero digest, whose root is not zero; the expectation
  it then returns holds these digests and the root that the manifest verifier recomputes from them,
  and in every other case it is empty.
\<close>
lemma compatibility_build:
  assumes "n \<le> length given" "\<forall>c \<in> set given. length (cd_digest c) = 32"
  shows "let cs = take n given; root = compatibility_root_from_components (map cd_digest cs);
      r = build_compatibility_expectation (Some given) n;
      ok = (n = 16 \<and> map cd_label cs = map Span compatibility_labels \<and>
        list_all (\<lambda>c. nonzero (cd_digest c)) cs \<and> nonzero root) in
    (br_status r = compat_built \<longleftrightarrow> ok) \<and>
    br_expectation r = (if ok then \<lparr>ce_components = map cd_digest cs, ce_root = root\<rparr> else empty_expectation)"
proof (cases "n = 16")
  case False
  then show ?thesis by (simp add: build_compatibility_expectation_def compatibility_component_count_def Let_def)
next
  case True
  let ?cs = "take 16 given"
  have len: "length ?cs = 16" using True assms(1) by simp
  have digests: "length (map cd_digest ?cs) = 16" "\<forall>d \<in> set (map cd_digest ?cs). length d = 32"
    using len assms(2) by (auto dest: in_set_takeD)
  note wire = compatibility_wire_eq [OF digests]
  have root: "compatibility_root_from_components (map cd_digest ?cs) = sha256 (compatibility_wire (map cd_digest ?cs))"
    using compatibility_root_spec [OF _ digests(2)] digests(1) wire(1) by (simp add: compatibility_component_count_def)
  have size: "length (compatibility_wire (map cd_digest ?cs)) = 579"
    using wire(2) by (simp add: compatibility_wire_size_def compatibility_domain_def domain_bytes_def ascii_bytes_def compatibility_component_count_def)
  have hash: "context_store_sha256_bounded (Span (compatibility_wire (map cd_digest ?cs)))
      (of_nat (length (compatibility_wire (map cd_digest ?cs)))) = Some (sha256 (compatibility_wire (map cd_digest ?cs)))"
    by (simp add: size context_store_sha256_bounded_def sha256_spans_iff spans_ok_def spans_bytes_def valid_span_def)
  show ?thesis
  proof (cases "build_components ?cs 0 (replicate 16 False) (ce_components empty_expectation)")
    case (Inl st)
    then have "\<not> (map cd_label ?cs = map Span compatibility_labels \<and> list_all (\<lambda>c. nonzero (cd_digest c)) ?cs)"
      using build_all_components [OF len, of "map cd_digest ?cs"] by auto
    moreover have "st \<noteq> compat_built"
    proof -
      have "build_components cs k seen comps \<noteq> Inl compat_built" for cs k seen comps
        by (induction cs arbitrary: k seen comps) (auto split: option.splits)
      then show ?thesis using Inl by metis
    qed
    ultimately show ?thesis using Inl True
      by (auto simp: build_compatibility_expectation_def compatibility_component_count_def Let_def)
  next
    case (Inr ds)
    then have "map cd_label ?cs = map Span compatibility_labels" "list_all (\<lambda>c. nonzero (cd_digest c)) ?cs"
      "ds = map cd_digest ?cs"
      using build_all_components [OF len, of ds] by auto
    then show ?thesis using Inr True wire(2) hash root
      by (simp add: build_compatibility_expectation_def compatibility_component_count_def Let_def)
  qed
qed

end
