(* ===== verification/Prefix_Product.thy ===== *)
theory Prefix_Product
  imports Catalog_Discovery Compatibility
begin

text \<open>
  \<^verbatim>\<open>halofpx-context-store-world1-prefix-product-v1.{h,cpp}\<close>: the composition a server uses. A lookup
  discovers the stored prefix lengths and searches them through the catalogue while it holds the
  custody that keeps publications out; an install applies a hit to a live context under the same
  authority and consumes it. Elapsed times are arguments; wiping is not modelled, clearing is.
  Shown: a hit is the longest stored prefix of the request and is found when it is stored, an
  install touches the live context for a hit bound to the same authority only, with exactly the
  bytes of the snapshot, and a lookup can be installed at most once.
\<close>

subsection \<open>Data\<close>

record cache_authority =
  ca_compatibility :: compatibility_expectation
  ca_producer_identity :: digest
  ca_global_plan_digest :: digest
  ca_rank_ownership_digest :: digest
  ca_rank_placement_digest :: digest
  ca_topology_epoch :: u64
  ca_model_generation :: u64
  ca_world_size :: u32
  ca_rank :: u32

definition empty_authority :: cache_authority where
  "empty_authority = \<lparr>ca_compatibility = empty_expectation, ca_producer_identity = zero_digest,
     ca_global_plan_digest = zero_digest, ca_rank_ownership_digest = zero_digest,
     ca_rank_placement_digest = zero_digest, ca_topology_epoch = 0, ca_model_generation = 0,
     ca_world_size = 0, ca_rank = 0xffffffff\<rparr>"

datatype prefix_source = source_cold | source_exact | source_prefix

datatype product_fallback =
    fb_none | fb_feature_off | fb_live_authority_unavailable | fb_live_authority_invalid
  | fb_authority_generation_changed | fb_authority_changed | fb_invalid_request | fb_catalog_unavailable
  | fb_live_slot_state_present | fb_no_authenticated_checkpoint | fb_authenticated_state_corrupt
  | fb_authenticated_state_incompatible | fb_catalog_busy | fb_storage_error

record product_lookup_request =
  lq_enabled :: bool
  lq_authority :: "cache_authority option"
  lq_expected_model_generation :: u64
  lq_exact_session :: exact_session_inputs
  lq_policy_epoch :: u64
  lq_profile :: transformer_profile

record product_lookup =
  pl_source :: prefix_source
  pl_fallback :: product_fallback
  pl_snapshot :: transformer_snapshot
  pl_selected_identity :: identity
  pl_bound_authority :: cache_authority
  pl_authority_bound :: bool
  pl_selected_prefix_tokens :: nat
  pl_restored_tokens :: nat
  pl_residual_tokens :: nat
  pl_candidates_examined :: nat
  pl_validation_time_ns :: u64

definition empty_lookup :: product_lookup where
  "empty_lookup = \<lparr>pl_source = source_cold, pl_fallback = fb_feature_off, pl_snapshot = empty_snapshot,
     pl_selected_identity = empty_identity, pl_bound_authority = empty_authority, pl_authority_bound = False,
     pl_selected_prefix_tokens = 0, pl_restored_tokens = 0, pl_residual_tokens = 0,
     pl_candidates_examined = 0, pl_validation_time_ns = 0\<rparr>"

definition product_hit :: "product_lookup \<Rightarrow> bool" where
  "product_hit r \<longleftrightarrow> pl_source r = source_exact \<or> pl_source r = source_prefix"

datatype install_status =
    install_installed | install_rejected | install_generation_changed | install_authority_changed | install_apply_failed

record product_install_request =
  nq_authority :: "cache_authority option"
  nq_expected_model_generation :: u64
  nq_lookup :: "product_lookup option"
  nq_context :: "nat option"
  nq_sequence :: u32
  nq_sequence_limit :: nat
  nq_full_tokens :: "token list option"
  nq_full_token_count :: nat
  nq_profile :: transformer_profile
  nq_limits :: transformer_limits

record product_install =
  pi_status :: install_status
  pi_state_status :: transformer_status
  pi_installed_prefix_tokens :: nat
  pi_residual_tokens :: nat
  pi_state_apply_input_bytes :: u64
  pi_state_apply_input_bytes_valid :: bool

record maintenance_measurements =
  mt_selected_slot_transition_measured :: bool
  mt_selected_slot_transition_ns :: u64
  mt_lookup_total_ns :: u64
  mt_state_install_cleanup_ns :: u64
  mt_postlaunch_idle_slot_saves_measured :: bool
  mt_postlaunch_idle_slot_saves_ns :: u64

subsection \<open>Authorities\<close>

definition authority_is_valid :: "cache_authority \<Rightarrow> bool" where
  "authority_is_valid authority =
     (if \<not> nonzero (ce_root (ca_compatibility authority)) \<or> \<not> nonzero (ca_producer_identity authority) \<or>
         \<not> nonzero (ca_global_plan_digest authority) \<or> \<not> nonzero (ca_rank_ownership_digest authority) \<or>
         \<not> nonzero (ca_rank_placement_digest authority) \<or> ca_topology_epoch authority = 0 \<or>
         ca_model_generation authority = 0 \<or> ca_world_size authority \<noteq> 1 \<or> ca_rank authority \<noteq> 0
      then False
      else let given = map (\<lambda>index. (component_label index, ce_components (ca_compatibility authority) ! index)) [0..<16] in
        if list_ex (\<lambda>(label, d). label = None \<or> \<not> nonzero d) given then False
        else let rebuilt = build_compatibility_expectation
            (Some (map (\<lambda>(label, d). \<lparr>cd_label = Span (the label), cd_digest = d\<rparr>) given)) 16
          in br_status rebuilt = compat_built \<and> ce_root (br_expectation rebuilt) = ce_root (ca_compatibility authority))"

definition exact_session_authority_matches :: "cache_authority \<Rightarrow> exact_session_inputs \<Rightarrow> bool" where
  "exact_session_authority_matches authority exact \<longleftrightarrow>
     es_compatibility_root exact = ce_root (ca_compatibility authority) \<and>
     es_global_plan_digest exact = ca_global_plan_digest authority \<and>
     es_rank_ownership_digest exact = ca_rank_ownership_digest authority \<and>
     es_rank_placement_digest exact = ca_rank_placement_digest authority \<and>
     es_topology_epoch exact = ca_topology_epoch authority \<and>
     es_world_size exact = ucast (ca_world_size authority) \<and> es_rank exact = ucast (ca_rank authority)"

definition same_authority :: "cache_authority \<Rightarrow> cache_authority \<Rightarrow> bool" where
  "same_authority l r \<longleftrightarrow>
     ce_root (ca_compatibility l) = ce_root (ca_compatibility r) \<and>
     ce_components (ca_compatibility l) = ce_components (ca_compatibility r) \<and>
     ca_producer_identity l = ca_producer_identity r \<and> ca_global_plan_digest l = ca_global_plan_digest r \<and>
     ca_rank_ownership_digest l = ca_rank_ownership_digest r \<and> ca_rank_placement_digest l = ca_rank_placement_digest r \<and>
     ca_topology_epoch l = ca_topology_epoch r \<and> ca_model_generation l = ca_model_generation r \<and>
     ca_world_size l = ca_world_size r \<and> ca_rank l = ca_rank r"

definition same_product_identity :: "identity \<Rightarrow> identity \<Rightarrow> bool" where
  "same_product_identity l r \<longleftrightarrow>
     id_compatibility_root l = id_compatibility_root r \<and> id_scope_namespace l = id_scope_namespace r \<and>
     id_checkpoint_lineage_id l = id_checkpoint_lineage_id r \<and> id_policy_epoch l = id_policy_epoch r"

subsection \<open>Lookup results\<close>

definition consume_lookup :: "product_lookup \<Rightarrow> product_lookup" where
  "consume_lookup r = r\<lparr>pl_snapshot := (pl_snapshot r)\<lparr>ts_state := [], ts_tokens := []\<rparr>,
     pl_selected_identity := empty_identity, pl_bound_authority := empty_authority, pl_authority_bound := False,
     pl_source := source_cold, pl_selected_prefix_tokens := 0, pl_restored_tokens := 0, pl_residual_tokens := 0\<rparr>"

text \<open>The destination and the source after a move; a vector moved from is empty once consumed.\<close>

definition move_lookup :: "product_lookup \<Rightarrow> product_lookup \<Rightarrow> product_lookup \<times> product_lookup" where
  "move_lookup destination source =
     ((consume_lookup destination)\<lparr>pl_source := pl_source source, pl_fallback := pl_fallback source,
        pl_snapshot := pl_snapshot source, pl_selected_identity := pl_selected_identity source,
        pl_bound_authority := pl_bound_authority source, pl_authority_bound := pl_authority_bound source,
        pl_selected_prefix_tokens := pl_selected_prefix_tokens source, pl_restored_tokens := pl_restored_tokens source,
        pl_residual_tokens := pl_residual_tokens source, pl_candidates_examined := pl_candidates_examined source,
        pl_validation_time_ns := pl_validation_time_ns source\<rparr>,
      (consume_lookup source)\<lparr>pl_fallback := fb_feature_off, pl_candidates_examined := 0, pl_validation_time_ns := 0\<rparr>)"

fun map_catalog :: "catalog_status \<Rightarrow> product_fallback" where
  "map_catalog cat_miss_not_found = fb_no_authenticated_checkpoint"
| "map_catalog cat_capacity_exhausted = fb_no_authenticated_checkpoint"
| "map_catalog cat_miss_corrupt = fb_authenticated_state_corrupt"
| "map_catalog cat_miss_incompatible = fb_authenticated_state_incompatible"
| "map_catalog cat_busy = fb_catalog_busy"
| "map_catalog cat_storage = fb_storage_error"
| "map_catalog cat_ready = fb_invalid_request"
| "map_catalog cat_published = fb_invalid_request"
| "map_catalog cat_hit = fb_invalid_request"
| "map_catalog cat_source_rejected = fb_invalid_request"

fun map_selector :: "fallback_reason \<Rightarrow> product_fallback" where
  "map_selector no_fallback = fb_none"
| "map_selector no_candidate_boundaries = fb_no_authenticated_checkpoint"
| "map_selector no_eligible_prefix = fb_no_authenticated_checkpoint"
| "map_selector authenticated_state_corrupt = fb_authenticated_state_corrupt"
| "map_selector authenticated_state_incompatible = fb_authenticated_state_incompatible"
| "map_selector catalog_busy = fb_catalog_busy"
| "map_selector reason_storage_error = fb_storage_error"
| "map_selector invalid_request = fb_invalid_request"
| "map_selector reason_invalid_boundaries = fb_invalid_request"
| "map_selector reason_unsupported_profile = fb_invalid_request"
| "map_selector incompatible_topology = fb_invalid_request"

subsection \<open>The lookup\<close>

definition product_query :: "cache_authority \<Rightarrow> product_lookup_request \<Rightarrow> prefix_query" where
  "product_query authority request = \<lparr>pq_compatibility_root = ce_root (ca_compatibility authority),
     pq_producer_identity = ca_producer_identity authority,
     pq_scope_namespace = es_scope_namespace (lq_exact_session request), pq_policy_epoch = lq_policy_epoch request,
     pq_max_token_count = es_token_count (lq_exact_session request), pq_profile = lq_profile request\<rparr>"

definition product_selection :: "product_lookup_request \<Rightarrow> nat list \<Rightarrow> selector_request" where
  "product_selection request counts = \<lparr>sq_exact_session = lq_exact_session request,
     sq_candidate_boundaries = Some counts, sq_candidate_boundary_count = length counts,
     sq_policy_epoch = lq_policy_epoch request, sq_profile = lq_profile request\<rparr>"

text \<open>From the check of the request on, with the time the selector measures.\<close>

definition product_search ::
    "product_lookup_request \<Rightarrow> cache_authority \<Rightarrow> 'c catalog_object \<Rightarrow> int \<Rightarrow> product_lookup \<Rightarrow> 'c catalog_world
       \<Rightarrow> product_lookup \<times> 'c catalog_object \<times> 'c catalog_world" where
  "product_search request authority object elapsed result w =
     (let exact = lq_exact_session request in
      if lq_policy_epoch request = 0 \<or> es_tokens exact = None \<or> es_token_count exact = 0 \<or>
         es_logical_boundary exact \<noteq> of_nat (es_token_count exact) \<or>
         es_output_boundary exact \<noteq> of_nat (es_token_count exact) \<or>
         \<not> exact_session_authority_matches authority exact \<or> \<not> profile_is_admitted (lq_profile request) \<or>
         tp_world_size (lq_profile request) \<noteq> 1 \<or> tp_rank (lq_profile request) \<noteq> 0 \<or>
         tp_architecture (lq_profile request) \<noteq> transformer
      then (result\<lparr>pl_fallback := fb_invalid_request\<rparr>, object, w)
      else let (held, owned) = acquire_mutation_custody object in
        if \<not> owned then (result\<lparr>pl_fallback := fb_catalog_busy\<rparr>, object, w)
        else let (discovered, w1) = discover_prefix_token_counts held (product_query authority request) w in
          if pr_status discovered \<noteq> cat_ready
          then (result\<lparr>pl_fallback := map_catalog (pr_status discovered)\<rparr>, release_mutation_custody held owned, w1)
          else let (selected, w2) = context_store_v1_restore_longest_prefix (catalog_restore_exact held)
                 (product_selection request (pr_token_counts discovered)) elapsed w1;
               result = result\<lparr>pl_candidates_examined := ss_candidates_examined selected\<rparr>;
               object' = release_mutation_custody held owned in
            if \<not> selector_hit selected
            then (result\<lparr>pl_fallback := map_selector (ss_fallback_reason selected)\<rparr>, object', w2)
            else let selected_session = prefix_session exact (ss_matched_token_count selected);
                     resolved = context_store_resolve_exact_session_v1 selected_session;
                     selected_identity = identity_for exact resolved (lq_policy_epoch request) in
              if \<not> session_resolved resolved \<or>
                 \<not> same_product_identity (ts_identity (ss_snapshot selected)) selected_identity
              then (result\<lparr>pl_fallback := fb_authenticated_state_corrupt\<rparr>, object', w2)
              else (result\<lparr>
                pl_source := (if ss_matched_token_count selected = es_token_count exact then source_exact else source_prefix),
                pl_fallback := fb_none, pl_selected_prefix_tokens := ss_matched_token_count selected,
                pl_restored_tokens := ss_restored_token_count selected,
                pl_residual_tokens := ss_residual_token_count selected, pl_selected_identity := selected_identity,
                pl_bound_authority := authority, pl_authority_bound := True, pl_snapshot := ss_snapshot selected\<rparr>,
                object', w2))"

definition timed :: "int \<Rightarrow> product_lookup \<Rightarrow> product_lookup" where
  "timed elapsed r = fst (move_lookup empty_lookup
     (r\<lparr>pl_validation_time_ns := (if elapsed \<le> 0 then 0 else of_int elapsed)\<rparr>))"

definition product_prefix_lookup ::
    "product_lookup_request \<Rightarrow> 'c catalog_object option \<Rightarrow> int \<Rightarrow> int \<Rightarrow> 'c catalog_world
       \<Rightarrow> product_lookup \<times> 'c catalog_object option \<times> 'c catalog_world" where
  "product_prefix_lookup request catalog elapsed selector_elapsed w =
     (let result = empty_lookup\<lparr>pl_residual_tokens := es_token_count (lq_exact_session request)\<rparr> in
      if \<not> lq_enabled request then (timed elapsed result, catalog, w)
      else case lq_authority request of
        None \<Rightarrow> (timed elapsed (result\<lparr>pl_fallback := fb_live_authority_unavailable\<rparr>), catalog, w)
      | Some authority \<Rightarrow>
        if \<not> authority_is_valid authority
        then (timed elapsed (result\<lparr>pl_fallback := fb_live_authority_invalid\<rparr>), catalog, w)
        else if lq_expected_model_generation request = 0 \<or>
          lq_expected_model_generation request \<noteq> ca_model_generation authority
        then (timed elapsed (result\<lparr>pl_fallback := fb_authority_generation_changed\<rparr>), catalog, w)
        else (case catalog of
            None \<Rightarrow> (timed elapsed (result\<lparr>pl_fallback := fb_catalog_unavailable\<rparr>), catalog, w)
          | Some object \<Rightarrow>
              (case product_search request authority object selector_elapsed
                  (result\<lparr>pl_fallback := fb_live_authority_unavailable\<rparr>) w of
                (r, object', w') \<Rightarrow> (timed elapsed r, Some object', w'))))"

subsection \<open>The install\<close>

definition rejected_install :: "nat \<Rightarrow> product_install" where
  "rejected_install residual = \<lparr>pi_status = install_rejected, pi_state_status = State_Transformer.invalid_argument,
     pi_installed_prefix_tokens = 0, pi_residual_tokens = residual, pi_state_apply_input_bytes = 0,
     pi_state_apply_input_bytes_valid = False\<rparr>"

definition install_arguments_ok :: "product_install_request \<Rightarrow> cache_authority \<Rightarrow> product_lookup \<Rightarrow> bool" where
  "install_arguments_ok request authority lookup \<longleftrightarrow>
     \<not> (nq_context request = None \<or> sint (nq_sequence request) < 0 \<or> nq_sequence_limit request = 0 \<or>
        nat (sint (nq_sequence request)) \<ge> nq_sequence_limit request \<or> nq_full_tokens request = None \<or>
        nq_full_token_count request = 0 \<or> pl_selected_prefix_tokens lookup = 0 \<or>
        pl_selected_prefix_tokens lookup > nq_full_token_count request \<or>
        pl_restored_tokens lookup \<noteq> pl_selected_prefix_tokens lookup \<or>
        pl_residual_tokens lookup \<noteq> nq_full_token_count request - pl_selected_prefix_tokens lookup \<or>
        length (ts_tokens (pl_snapshot lookup)) \<noteq> pl_selected_prefix_tokens lookup \<or>
        \<not> same_product_identity (ts_identity (pl_snapshot lookup)) (pl_selected_identity lookup) \<or>
        id_compatibility_root (pl_selected_identity lookup) \<noteq> ce_root (ca_compatibility authority) \<or>
        \<not> profile_is_admitted (nq_profile request) \<or> tp_world_size (nq_profile request) \<noteq> 1 \<or>
        tp_rank (nq_profile request) \<noteq> 0 \<or> tp_architecture (nq_profile request) \<noteq> transformer)"

text \<open>From the check that the lookup is a hit on: the result and the live state.\<close>

definition install_bound ::
    "'s state_api \<Rightarrow> product_install_request \<Rightarrow> cache_authority \<Rightarrow> product_lookup \<Rightarrow> 's \<Rightarrow> product_install \<times> 's" where
  "install_bound api request authority lookup s =
     (let result = rejected_install (nq_full_token_count request) in
      if \<not> product_hit lookup then (result, s)
      else if \<not> pl_authority_bound lookup \<or> \<not> same_authority (pl_bound_authority lookup) authority
      then (result\<lparr>pi_status := install_authority_changed\<rparr>, s)
      else if \<not> install_arguments_ok request authority lookup then (result, s)
      else let (state_status, t) = restore_transformer_state api (nq_context request) (nq_sequence request)
             (pl_snapshot lookup) (nq_full_tokens request) (pl_selected_prefix_tokens lookup)
             (pl_selected_identity lookup) (nq_profile request) (nq_limits request) s;
           result = result\<lparr>pi_state_status := state_status\<rparr> in
        if state_status \<noteq> restored then (result\<lparr>pi_status := install_apply_failed\<rparr>, t)
        else let bytes = length (ts_state (pl_snapshot lookup)); valid = (unat (of_nat bytes :: u64) = bytes) in
          (result\<lparr>pi_status := install_installed, pi_installed_prefix_tokens := pl_selected_prefix_tokens lookup,
             pi_residual_tokens := pl_residual_tokens lookup,
             pi_state_apply_input_bytes := (if valid then of_nat bytes else 0),
             pi_state_apply_input_bytes_valid := valid\<rparr>, t))"

text \<open>The result, the lookup afterwards and the live state.\<close>

definition product_prefix_install ::
    "'s state_api \<Rightarrow> product_install_request \<Rightarrow> 's \<Rightarrow> product_install \<times> product_lookup option \<times> 's" where
  "product_prefix_install api request s =
     (case nq_lookup request of
        None \<Rightarrow> (rejected_install (nq_full_token_count request), None, s)
      | Some lookup \<Rightarrow>
          (case nq_authority request of
             None \<Rightarrow> ((rejected_install (nq_full_token_count request))\<lparr>pi_status := install_generation_changed\<rparr>,
               Some (consume_lookup lookup), s)
           | Some authority \<Rightarrow>
               if \<not> authority_is_valid authority \<or> nq_expected_model_generation request = 0 \<or>
                  nq_expected_model_generation request \<noteq> ca_model_generation authority
               then ((rejected_install (nq_full_token_count request))\<lparr>pi_status := install_generation_changed\<rparr>,
                 Some (consume_lookup lookup), s)
               else (case install_bound api request authority lookup s of
                   (result, t) \<Rightarrow> (result, Some (consume_lookup lookup), t))))"

subsection \<open>Accounting\<close>

fun checked_sum :: "u64 list \<Rightarrow> u64 \<Rightarrow> u64 option" where
  "checked_sum [] acc = Some acc"
| "checked_sum (component # rest) acc =
     (if component > 0xffffffffffffffff - acc then None else checked_sum rest (acc + component))"

definition finalize_cache_maintenance :: "maintenance_measurements \<Rightarrow> bool \<times> u64" where
  "finalize_cache_maintenance m =
     (if (\<not> mt_selected_slot_transition_measured m \<and> mt_selected_slot_transition_ns m \<noteq> 0) \<or>
         (\<not> mt_postlaunch_idle_slot_saves_measured m \<and> mt_postlaunch_idle_slot_saves_ns m \<noteq> 0)
      then (False, 0)
      else case checked_sum [mt_selected_slot_transition_ns m, mt_lookup_total_ns m, mt_state_install_cleanup_ns m,
          mt_postlaunch_idle_slot_saves_ns m] 0 of
        None \<Rightarrow> (False, 0)
      | Some acc \<Rightarrow> (True, acc))"

definition finalize_work_accounting :: "nat \<Rightarrow> 64 word \<Rightarrow> bool \<times> nat \<times> nat" where
  "finalize_work_accounting request_prompt_tokens actual_prompt_tokens =
     (if sint actual_prompt_tokens < 0 \<or> unat actual_prompt_tokens > request_prompt_tokens then (False, 0, 0)
      else (True, unat actual_prompt_tokens, request_prompt_tokens - unat actual_prompt_tokens))"

fun prefix_source_name :: "prefix_source \<Rightarrow> string" where
  "prefix_source_name source_cold = ''cold''"
| "prefix_source_name source_exact = ''exact''"
| "prefix_source_name source_prefix = ''prefix''"

fun product_fallback_name :: "product_fallback \<Rightarrow> string" where
  "product_fallback_name fb_none = ''none''"
| "product_fallback_name fb_feature_off = ''feature-off''"
| "product_fallback_name fb_live_authority_unavailable = ''live-authority-unavailable''"
| "product_fallback_name fb_live_authority_invalid = ''live-authority-invalid''"
| "product_fallback_name fb_authority_generation_changed = ''authority-generation-changed''"
| "product_fallback_name fb_authority_changed = ''authority-changed''"
| "product_fallback_name fb_invalid_request = ''invalid-request''"
| "product_fallback_name fb_catalog_unavailable = ''catalog-unavailable''"
| "product_fallback_name fb_live_slot_state_present = ''live-slot-state-present''"
| "product_fallback_name fb_no_authenticated_checkpoint = ''no-authenticated-checkpoint''"
| "product_fallback_name fb_authenticated_state_corrupt = ''authenticated-state-corrupt''"
| "product_fallback_name fb_authenticated_state_incompatible = ''authenticated-state-incompatible''"
| "product_fallback_name fb_catalog_busy = ''catalog-busy''"
| "product_fallback_name fb_storage_error = ''storage-error''"

subsection \<open>What an install does\<close>

text \<open>The hit is for this request, this authority and these tokens.\<close>

definition installs :: "product_install_request \<Rightarrow> cache_authority \<Rightarrow> product_lookup \<Rightarrow> token list \<Rightarrow> bool" where
  "installs request authority lookup tokens \<longleftrightarrow>
     product_hit lookup \<and> pl_authority_bound lookup \<and> same_authority (pl_bound_authority lookup) authority \<and>
     nq_context request \<noteq> None \<and> 0 \<le> sint (nq_sequence request) \<and>
     nat (sint (nq_sequence request)) < nq_sequence_limit request \<and> nq_full_tokens request = Some tokens \<and>
     0 < pl_selected_prefix_tokens lookup \<and> pl_selected_prefix_tokens lookup \<le> nq_full_token_count request \<and>
     ts_tokens (pl_snapshot lookup) = take (pl_selected_prefix_tokens lookup) tokens \<and>
     pl_restored_tokens lookup = pl_selected_prefix_tokens lookup \<and>
     pl_residual_tokens lookup + pl_selected_prefix_tokens lookup = nq_full_token_count request \<and>
     ts_identity (pl_snapshot lookup) = pl_selected_identity lookup \<and>
     id_compatibility_root (pl_selected_identity lookup) = ce_root (ca_compatibility authority) \<and>
     identity_is_complete (pl_selected_identity lookup) \<and>
     profile_is_admitted (nq_profile request) \<and> tp_world_size (nq_profile request) = 1 \<and>
     tp_rank (nq_profile request) = 0 \<and> tp_architecture (nq_profile request) = transformer \<and>
     ts_profile (pl_snapshot lookup) = nq_profile request \<and>
     pl_selected_prefix_tokens lookup \<le> tl_max_tokens (nq_limits request) \<and>
     ts_state (pl_snapshot lookup) \<noteq> [] \<and> length (ts_state (pl_snapshot lookup)) \<le> tl_max_state_bytes (nq_limits request)"

lemma same_product_identity_iff [simp]: "same_product_identity i j \<longleftrightarrow> i = j"
  by (auto simp: same_product_identity_def)

definition tokens_readable :: "token list option \<Rightarrow> nat \<Rightarrow> bool" where
  "tokens_readable tokens n \<longleftrightarrow> (case tokens of None \<Rightarrow> True | Some ts \<Rightarrow> n \<le> length ts)"

abbreviation install_restorable :: "product_install_request \<Rightarrow> product_lookup \<Rightarrow> bool" where
  "install_restorable request lookup \<equiv> restorable (nq_context request) (pl_snapshot lookup) (nq_full_tokens request)
     (pl_selected_prefix_tokens lookup) (pl_selected_identity lookup) (nq_profile request) (nq_limits request)"

lemma installs_iff:
  assumes "tokens_readable (nq_full_tokens request) (nq_full_token_count request)"
  shows "(\<exists>tokens. installs request authority lookup tokens) \<longleftrightarrow>
    product_hit lookup \<and> pl_authority_bound lookup \<and> same_authority (pl_bound_authority lookup) authority \<and>
    install_arguments_ok request authority lookup \<and> install_restorable request lookup"
proof (cases "nq_full_tokens request")
  case None
  then show ?thesis by (simp add: install_arguments_ok_def installs_def)
next
  case (Some ts)
  let ?b = "pl_selected_prefix_tokens lookup" and ?n = "nq_full_token_count request"
  have ts: "?n \<le> length ts" using assms Some by (simp add: tokens_readable_def)
  have residual: "?b \<le> ?n \<Longrightarrow> pl_residual_tokens lookup + ?b = ?n \<longleftrightarrow> pl_residual_tokens lookup = ?n - ?b" by linarith
  have len: "?b \<le> ?n \<Longrightarrow> ts_tokens (pl_snapshot lookup) = take ?b ts \<Longrightarrow> length (ts_tokens (pl_snapshot lookup)) = ?b"
    using ts by simp
  show ?thesis (is "?l \<longleftrightarrow> ?r")
  proof
    assume ?l
    then have i: "installs request authority lookup ts" using Some by (auto simp: installs_def)
    then have "length (ts_tokens (pl_snapshot lookup)) = ?b" using len by (simp add: installs_def)
    moreover have "ts \<noteq> []" using i ts by (auto simp: installs_def)
    moreover have "0 < length (ts_state (pl_snapshot lookup))"
      "length (ts_state (pl_snapshot lookup)) \<le> tl_max_state_bytes (nq_limits request)"
      using i by (simp_all add: installs_def)
    then have "0 < tl_max_state_bytes (nq_limits request)" by linarith
    ultimately show ?r using i Some residual
      by (simp add: installs_def install_arguments_ok_def restorable_def exact_snapshot_def not_le)
  next
    assume r: ?r
    then have args: "install_arguments_ok request authority lookup"
      and "restorable (nq_context request) (pl_snapshot lookup) (Some ts) ?b (pl_selected_identity lookup)
        (nq_profile request) (nq_limits request)"
      using Some by simp_all
    then have snapshot: "exact_snapshot (pl_selected_identity lookup) (nq_profile request) (nq_limits request) (take ?b ts)
        (pl_snapshot lookup)" "ts_state (pl_snapshot lookup) \<noteq> []"
        "length (ts_state (pl_snapshot lookup)) \<le> tl_max_state_bytes (nq_limits request)"
      unfolding restorable_def option.inject by blast+
    have b: "0 < ?b" "?b \<le> ?n" using args unfolding install_arguments_ok_def by simp_all
    then have "?b \<le> tl_max_tokens (nq_limits request)"
      using snapshot(1) ts unfolding exact_snapshot_def by simp
    then have "installs request authority lookup ts"
      using snapshot b residual [OF b(2)] r Some args
      unfolding installs_def install_arguments_ok_def exact_snapshot_def de_Morgan_disj not_not not_le not_less same_product_identity_iff by blast
    then show ?l by blast
  qed
qed

lemma install_bound_stops:
  assumes "\<not> (product_hit lookup \<and> pl_authority_bound lookup \<and> same_authority (pl_bound_authority lookup) authority \<and>
    install_arguments_ok request authority lookup)"
  shows "snd (install_bound api request authority lookup s) = s \<and>
    pi_status (fst (install_bound api request authority lookup s)) \<noteq> install_installed"
  using assms by (auto simp: install_bound_def rejected_install_def Let_def)

lemma install_bound_restores:
  assumes "product_hit lookup" "pl_authority_bound lookup" "same_authority (pl_bound_authority lookup) authority"
    "install_arguments_ok request authority lookup"
    and "restore_transformer_state api (nq_context request) (nq_sequence request) (pl_snapshot lookup)
      (nq_full_tokens request) (pl_selected_prefix_tokens lookup) (pl_selected_identity lookup) (nq_profile request)
      (nq_limits request) s = (st, t)"
  shows "snd (install_bound api request authority lookup s) = t \<and>
    (if st = restored
     then pi_status (fst (install_bound api request authority lookup s)) = install_installed \<and>
       pi_installed_prefix_tokens (fst (install_bound api request authority lookup s)) = pl_selected_prefix_tokens lookup \<and>
       pi_residual_tokens (fst (install_bound api request authority lookup s)) = pl_residual_tokens lookup
     else pi_status (fst (install_bound api request authority lookup s)) = install_apply_failed)"
  using assms by (simp add: install_bound_def Let_def)

text \<open>
  C20: An install touches the live context for the right hit only. The state of the snapshot is
  handed to the context, once and whole, exactly when the lookup is a hit bound to the same
  authority whose tokens are the first tokens of the request, with the identity, the profile and the
  limits of the request; the prompt is reported as installed exactly when the context consumed all
  of it, and then the installed and the residual tokens add up to the request. In every other case
  the context is left as it was and nothing is reported as installed.
\<close>
theorem install_exact:
  assumes "tokens_readable (nq_full_tokens request) (nq_full_token_count request)"
  shows "case install_bound api request authority lookup s of (result, t) \<Rightarrow>
    if \<exists>tokens. installs request authority lookup tokens
    then (case api_set_data api (the (nq_context request)) (ts_state (pl_snapshot lookup)) (nq_sequence request) s of
      (n, u) \<Rightarrow> t = u \<and>
        (if n = length (ts_state (pl_snapshot lookup))
         then pi_status result = install_installed \<and>
           pi_installed_prefix_tokens result = pl_selected_prefix_tokens lookup \<and>
           pi_installed_prefix_tokens result + pi_residual_tokens result = nq_full_token_count request
         else pi_status result = install_apply_failed))
    else t = s \<and> pi_status result \<noteq> install_installed"
proof -
  let ?bound = "product_hit lookup \<and> pl_authority_bound lookup \<and> same_authority (pl_bound_authority lookup) authority \<and>
    install_arguments_ok request authority lookup"
  have readable: "case nq_full_tokens request of None \<Rightarrow> True | Some ts \<Rightarrow> pl_selected_prefix_tokens lookup \<le> length ts"
    if ?bound
    using that assms by (auto simp: install_arguments_ok_def tokens_readable_def split: option.splits)
  obtain st t where run: "restore_transformer_state api (nq_context request) (nq_sequence request) (pl_snapshot lookup)
      (nq_full_tokens request) (pl_selected_prefix_tokens lookup) (pl_selected_identity lookup) (nq_profile request)
      (nq_limits request) s = (st, t)" by fastforce
  show ?thesis
  proof (cases "?bound \<and> install_restorable request lookup")
    case True
    note step = install_bound_restores [OF _ _ _ _ run, of authority]
    have "pl_residual_tokens lookup + pl_selected_prefix_tokens lookup = nq_full_token_count request"
      using True by (auto simp: install_arguments_ok_def)
    moreover have "\<exists>tokens. installs request authority lookup tokens"
      using True by (simp add: installs_iff [OF assms])
    moreover have "(st, t) = (case api_set_data api (the (nq_context request)) (ts_state (pl_snapshot lookup))
        (nq_sequence request) s of (n, u) \<Rightarrow>
          (if n = length (ts_state (pl_snapshot lookup)) then restored else state_restore_failed, u))"
      using restore_restorable [OF conjunct2 [OF True] readable [OF conjunct1 [OF True]],
        where api = api and seq = "nq_sequence request" and s = s] run by simp
    ultimately show ?thesis
      using step True by (auto split: prod.splits if_splits)
  next
    case False
    then have no: "\<not> (\<exists>tokens. installs request authority lookup tokens)"
      by (simp add: installs_iff [OF assms])
    show ?thesis
    proof (cases ?bound)
      case True
      have "\<not> applied st"
        using restore_applied_iff [OF readable [OF True], where api = api and seq = "nq_sequence request" and s = s] run True False by (metis fst_conv)
      then have "t = s" "st \<noteq> restored"
        using restore_untouched [where api = api] run by (metis fst_conv snd_conv, auto simp: applied_def)
      then show ?thesis using no install_bound_restores [OF _ _ _ _ run, of authority] True
        by (simp add: split_beta)
    next
      case False
      then show ?thesis using no install_bound_stops [OF False] by (simp add: split_beta)
    qed
  qed
qed

definition sample_authority :: cache_authority where
  "sample_authority = \<lparr>ca_compatibility = \<lparr>ce_components = replicate 16 (replicate 32 2), ce_root = replicate 32 1\<rparr>,
     ca_producer_identity = replicate 32 3, ca_global_plan_digest = replicate 32 4,
     ca_rank_ownership_digest = replicate 32 5, ca_rank_placement_digest = replicate 32 6, ca_topology_epoch = 1,
     ca_model_generation = 1, ca_world_size = 1, ca_rank = 0\<rparr>"

definition sample_lookup :: product_lookup where
  "sample_lookup = empty_lookup\<lparr>pl_source := source_prefix, pl_fallback := fb_none, pl_snapshot := sample_snapshot,
     pl_selected_identity := sample_identity, pl_bound_authority := sample_authority, pl_authority_bound := True,
     pl_selected_prefix_tokens := 2, pl_restored_tokens := 2, pl_residual_tokens := 1\<rparr>"

definition sample_install :: product_install_request where
  "sample_install = \<lparr>nq_authority = Some sample_authority, nq_expected_model_generation = 1,
     nq_lookup = Some sample_lookup, nq_context = Some 0, nq_sequence = 0, nq_sequence_limit = 1,
     nq_full_tokens = Some [5, 6, 7], nq_full_token_count = 3, nq_profile = sample_profile, nq_limits = sample_limits\<rparr>"

theorem install_exact_witness:
  "case install_bound sample_api sample_install sample_authority sample_lookup [] of (result, t) \<Rightarrow>
     pi_status result = install_installed \<and> pi_residual_tokens result = 1 \<and> t = [1, 2, 3]"
proof -
  have "installs sample_install sample_authority sample_lookup [5, 6, 7]"
    using sample_admitted
    by (simp add: installs_def sample_install_def sample_lookup_def product_hit_def same_authority_def sample_snapshot_def
      sample_limits_def) (simp add: sample_identity_def sample_authority_def sample_profile_def default_profile_def)
  then have "\<exists>tokens. installs sample_install sample_authority sample_lookup tokens" ..
  moreover have "tokens_readable (nq_full_tokens sample_install) (nq_full_token_count sample_install)"
    by (simp add: tokens_readable_def sample_install_def)
  ultimately show ?thesis
    using install_exact [where request = sample_install and api = sample_api and authority = sample_authority and
      lookup = sample_lookup and s = "[]"]
    by (simp add: sample_api_def sample_lookup_def sample_snapshot_def sample_install_def split_beta)
qed

lemma consumed_not_hit: "\<not> product_hit (consume_lookup lookup)"
  by (simp add: product_hit_def consume_lookup_def)

lemma install_without_hit:
  assumes "case nq_lookup request of None \<Rightarrow> True | Some lookup \<Rightarrow> \<not> product_hit lookup"
  shows "case product_prefix_install api request s of (result, left, t) \<Rightarrow> t = s \<and> pi_status result \<noteq> install_installed"
  using assms by (auto simp: product_prefix_install_def rejected_install_def install_bound_def Let_def split: option.splits)

text \<open>
  C21: A hit is installed at most once and only under the live authority. Whatever the outcome, the
  lookup is left consumed, and an install of what is left of it, under any request and interface,
  does not touch the live context and reports nothing as installed. The context changes only
  through the install proper, of the lookup and the authority of the request, when that authority
  is valid and of the expected model generation.
\<close>
theorem install_at_most_once:
  "case product_prefix_install api request s of (result, left, t) \<Rightarrow>
     left = map_option consume_lookup (nq_lookup request) \<and>
     (case product_prefix_install api' (request'\<lparr>nq_lookup := left\<rparr>) u of (again, _, v) \<Rightarrow>
        v = u \<and> pi_status again \<noteq> install_installed) \<and>
     (t = s \<and> pi_status result \<noteq> install_installed \<or>
      (\<exists>authority lookup. nq_authority request = Some authority \<and> nq_lookup request = Some lookup \<and>
         authority_is_valid authority \<and> nq_expected_model_generation request = ca_model_generation authority \<and>
         (result, t) = install_bound api request authority lookup s))"
proof -
  obtain result left t where run: "product_prefix_install api request s = (result, left, t)" by (metis surj_pair)
  have left: "left = map_option consume_lookup (nq_lookup request)"
    using run by (auto simp: product_prefix_install_def split: option.splits if_splits prod.splits)
  have "case nq_lookup (request'\<lparr>nq_lookup := left\<rparr>) of None \<Rightarrow> True | Some lookup \<Rightarrow> \<not> product_hit lookup"
    by (simp add: left consumed_not_hit split: option.split)
  note again = install_without_hit [OF this, where api = api' and s = u]
  have "t = s \<and> pi_status result \<noteq> install_installed \<or>
      (\<exists>authority lookup. nq_authority request = Some authority \<and> nq_lookup request = Some lookup \<and>
         authority_is_valid authority \<and> nq_expected_model_generation request = ca_model_generation authority \<and>
         (result, t) = install_bound api request authority lookup s)"
    using run by (auto simp: product_prefix_install_def rejected_install_def split: option.splits if_splits prod.splits)
  then show ?thesis using again left run by (simp add: split_beta)
qed

end
