(* ===== verification/Prefix_Lookup.thy ===== *)
theory Prefix_Lookup
  imports Prefix_Product
begin

text \<open>
  What a product lookup finds, over the files of the catalogue: the search of
  \<^verbatim>\<open>halofpx-context-store-world1-prefix-product-v1.cpp\<close> composed with the discovery, the selector and
  the exact lookup. Shown: the lookup hits exactly on the longest stored prefix when every longer
  stored length is definitely another session's, and a hit is accepted by an install of the same
  request.
\<close>

subsection \<open>One probe of the catalogue\<close>

definition serves :: "'c catalog_object \<Rightarrow> 'c catalog_store \<Rightarrow> bool" where
  "serves object impl \<longleftrightarrow> co_implementation object = Some impl \<and> \<not> co_operation_held object"

definition absent_prefix :: "'c catalog_store \<Rightarrow> 'c catalog_world \<Rightarrow> identity \<Rightarrow> bool" where
  "absent_prefix impl w identity \<longleftrightarrow> catalog_verdict impl w identity \<in> {Room, Full}"

definition restores_prefix ::
    "'c catalog_store \<Rightarrow> 'c catalog_world \<Rightarrow> selector_request \<Rightarrow> nat \<Rightarrow> transformer_snapshot \<Rightarrow> bool" where
  "restores_prefix impl w request b snapshot \<longleftrightarrow>
     (\<exists>i d slots. catalog_verdict impl w (prefix_identity request b) = Chosen i d \<and>
        sc_restore (sl_canary (ci_slots impl ! i)) d (es_tokens (sq_exact_session request)) b (prefix_identity request b)
          (sq_profile request) (cw_slots w) = (\<lparr>ct_status = can_hit, ct_snapshot = snapshot\<rparr>, slots)) \<and>
     snapshot_is_prefix request b (prefix_identity request b) snapshot"

abbreviation probe_catalog ::
    "'c catalog_object \<Rightarrow> selector_request \<Rightarrow> nat \<Rightarrow> 'c catalog_world \<Rightarrow> catalog_restore_result \<times> 'c catalog_world" where
  "probe_catalog object request b \<equiv>
     catalog_restore_exact object (es_tokens (sq_exact_session request)) b (prefix_identity request b) (sq_profile request)"

lemma map_status_not_hit: "st \<noteq> can_hit \<Longrightarrow> map_status st \<noteq> cat_hit"
  by (cases st) simp_all

lemma probe_absent:
  assumes "serves object impl" "es_tokens (sq_exact_session request) \<noteq> None" "b \<noteq> 0"
    and "absent_prefix impl w (prefix_identity request b)"
  shows "\<exists>reply. probe_catalog object request b w = (reply, w) \<and> skipped (b, prefix_identity request b, reply)"
  using restore_exact_verdict [where object = object and impl = impl and n = b and w = w and
      identity = "prefix_identity request b" and profile = "sq_profile request", OF _ _ assms(2,3)] assms(1,4)
  by (auto simp: serves_def absent_prefix_def skipped_def catalog_miss_def)

lemma probe_present:
  assumes "serves object impl" "es_tokens (sq_exact_session request) \<noteq> None" "b \<noteq> 0"
    and "\<not> absent_prefix impl w (prefix_identity request b)"
    and "probe_catalog object request b w = (reply, u)"
  shows "\<not> skipped (b, prefix_identity request b, reply) \<and>
    (cs_status reply = cat_hit \<and> snapshot_is_prefix request b (prefix_identity request b) (cs_snapshot reply) \<and>
       cs_snapshot reply = snapshot \<longleftrightarrow> restores_prefix impl w request b snapshot)"
proof -
  let ?v = "catalog_verdict impl w (prefix_identity request b)"
  note verdict = restore_exact_verdict [where object = object and impl = impl and n = b and w = w and
      identity = "prefix_identity request b" and profile = "sq_profile request", OF _ _ assms(2,3)]
  show ?thesis
  proof (cases ?v)
    case Uncertain
    then show ?thesis using verdict assms(1,5)
      by (auto simp: serves_def skipped_def catalog_miss_def restores_prefix_def)
  next
    case (Chosen i d)
    obtain child slots where child: "sc_restore (sl_canary (ci_slots impl ! i)) d (es_tokens (sq_exact_session request)) b
        (prefix_identity request b) (sq_profile request) (cw_slots w) = (child, slots)" by fastforce
    then have "reply = (if ct_status child = can_hit
        then \<lparr>cs_status = cat_hit, cs_snapshot = ct_snapshot child, cs_authenticated_record_selected = True\<rparr>
        else catalog_miss (map_status (ct_status child)) True)"
      using verdict assms(1,5) Chosen by (auto simp: serves_def)
    then show ?thesis using Chosen child map_status_not_hit
      by (cases child) (auto simp: skipped_def catalog_miss_def restores_prefix_def)
  qed (use assms(4) in \<open>auto simp: absent_prefix_def\<close>)
qed

subsection \<open>The search\<close>

definition found :: "selector_result \<Rightarrow> nat \<Rightarrow> transformer_snapshot \<Rightarrow> bool" where
  "found r b snapshot \<longleftrightarrow> selector_hit r \<and> ss_matched_token_count r = b \<and> ss_snapshot r = snapshot"

lemma found_decided:
  assumes "session_resolved (context_store_resolve_exact_session_v1
      (prefix_session (sq_exact_session request) (the (sq_candidate_boundaries request) ! k)))"
    and "the (sq_candidate_boundaries request) ! k = c"
    and "catalog (es_tokens (sq_exact_session request)) c (prefix_identity request c) (sq_profile request) s = (reply, u)"
    and "\<not> skipped (c, prefix_identity request c, reply)"
  shows "found (fst (select_loop catalog request (Suc k) result s)) b snapshot \<longleftrightarrow>
    b = c \<and> cs_status reply = cat_hit \<and> snapshot_is_prefix request c (prefix_identity request c) (cs_snapshot reply) \<and>
    cs_snapshot reply = snapshot"
proof -
  have no: "\<not> (\<not> cs_authenticated_record_selected reply \<and>
      (cs_status reply = cat_miss_not_found \<or> cs_status reply = cat_capacity_exhausted))"
    using assms(4) by (simp add: skipped_def)
  have id: "identity_for (prefix_session (sq_exact_session request) c)
      (context_store_resolve_exact_session_v1 (prefix_session (sq_exact_session request) c)) (sq_policy_epoch request) =
      prefix_identity request c" by (simp add: prefix_identity_def)
  have fail: "fst (catalog_failure st) \<noteq> sel_hit" for st using catalog_failure_status by blast
  show ?thesis using assms(1-3) no fail
    by (simp add: id found_def selector_hit_def corrupt_record_def fail_catalog_def Let_def) auto
qed

lemma skip_step:
  assumes "session_resolved (context_store_resolve_exact_session_v1
      (prefix_session (sq_exact_session request) (the (sq_candidate_boundaries request) ! k)))"
    and "the (sq_candidate_boundaries request) ! k = c"
    and "catalog (es_tokens (sq_exact_session request)) c (prefix_identity request c) (sq_profile request) s = (reply, u)"
    and "skipped (c, prefix_identity request c, reply)"
  shows "\<exists>result'. select_loop catalog request (Suc k) result s = select_loop catalog request k result' u"
  using assms by (auto simp: skipped_def prefix_identity_def Let_def)

lemma select_loop_longest:
  assumes "serves object impl" "es_tokens (sq_exact_session request) \<noteq> None"
    and "\<forall>i < k. the (sq_candidate_boundaries request) ! i \<noteq> 0 \<and> session_resolved (context_store_resolve_exact_session_v1
      (prefix_session (sq_exact_session request) (the (sq_candidate_boundaries request) ! i)))"
  shows "found (fst (select_loop (catalog_restore_exact object) request k result w)) b snapshot \<longleftrightarrow>
    (\<exists>j < k. the (sq_candidate_boundaries request) ! j = b \<and> restores_prefix impl w request b snapshot \<and>
       (\<forall>i < k. j < i \<longrightarrow> absent_prefix impl w (prefix_identity request (the (sq_candidate_boundaries request) ! i))))"
  using assms(3)
proof (induction k arbitrary: result)
  case 0
  then show ?case by (simp add: found_def selector_hit_def)
next
  case (Suc k)
  let ?bs = "the (sq_candidate_boundaries request)"
  let ?c = "?bs ! k"
  have c: "?c \<noteq> 0" and res: "session_resolved (context_store_resolve_exact_session_v1
      (prefix_session (sq_exact_session request) ?c))" using Suc.prems by simp_all
  have present: "\<not> absent_prefix impl w (prefix_identity request d)" if "restores_prefix impl w request d snapshot" for d
    using that by (auto simp: restores_prefix_def absent_prefix_def)
  obtain reply u where reply: "probe_catalog object request ?c w = (reply, u)" by fastforce
  show ?case
  proof (cases "absent_prefix impl w (prefix_identity request ?c)")
    case True
    obtain q where q: "probe_catalog object request ?c w = (q, w)" "skipped (?c, prefix_identity request ?c, q)"
      using probe_absent [OF assms(1,2) c True] by blast
    obtain result' where "select_loop (catalog_restore_exact object) request (Suc k) result w =
        select_loop (catalog_restore_exact object) request k result' w"
      using skip_step [where catalog = "catalog_restore_exact object", OF res refl q] by blast
    moreover have "\<forall>i < k. ?bs ! i \<noteq> 0 \<and> session_resolved (context_store_resolve_exact_session_v1
        (prefix_session (sq_exact_session request) (?bs ! i)))" using Suc.prems by simp
    note Suc.IH [OF this, of result']
    ultimately show ?thesis using True present by (auto simp: less_Suc_eq)
  next
    case False
    note probe = probe_present [OF assms(1,2) c False reply, of snapshot]
    have "found (fst (select_loop (catalog_restore_exact object) request (Suc k) result w)) b snapshot \<longleftrightarrow>
        b = ?c \<and> restores_prefix impl w request ?c snapshot"
      using found_decided [where catalog = "catalog_restore_exact object", OF res refl reply] probe by blast
    then show ?thesis using False by (auto simp: less_Suc_eq)
  qed
qed

text \<open>The longest of the given lengths whose prefix is stored, when the longer ones are not.\<close>

definition longest_stored ::
    "'c catalog_store \<Rightarrow> 'c catalog_world \<Rightarrow> selector_request \<Rightarrow> nat set \<Rightarrow> nat \<Rightarrow> transformer_snapshot \<Rightarrow> bool" where
  "longest_stored impl w request lengths b snapshot \<longleftrightarrow>
     b \<in> lengths \<and> restores_prefix impl w request b snapshot \<and>
     (\<forall>c \<in> lengths. b < c \<longrightarrow> absent_prefix impl w (prefix_identity request c))"

lemma search_longest:
  assumes "serves object impl" "wf_request request" "searchable request"
  shows "found (fst (context_store_v1_restore_longest_prefix (catalog_restore_exact object) request elapsed w)) b snapshot \<longleftrightarrow>
    longest_stored impl w request (set (candidates request)) b snapshot"
proof -
  let ?bs = "the (sq_candidate_boundaries request)" and ?n = "sq_candidate_boundary_count request"
  note cand = candidates_valid [OF assms(2,3)]
  have len: "length (candidates request) = ?n" by (simp add: cand(3))
  have nth: "?bs ! i = candidates request ! i" if "i < ?n" for i
    using that by (simp add: cand(3))
  have tokens: "es_tokens (sq_exact_session request) \<noteq> None" using assms(3) by (simp add: searchable_def session_ok_def)
  have ready: "\<forall>i < ?n. ?bs ! i \<noteq> 0 \<and> session_resolved (context_store_resolve_exact_session_v1
      (prefix_session (sq_exact_session request) (?bs ! i)))"
    using candidates_resolve [OF assms(2,3)] cand(2) len nth by (metis neq0_conv nth_mem)
  have order: "j < i \<longleftrightarrow> candidates request ! j < candidates request ! i" if "i < ?n" "j < ?n" for i j
    using cand(1) that len by (metis linorder_neqE_nat order_less_asym order_less_irrefl sorted_wrt_nth_less)
  have all: "(\<forall>c \<in> set (candidates request). P c) \<longleftrightarrow> (\<forall>i < ?n. P (candidates request ! i))" for P
    using len by (auto simp: all_set_conv_all_nth)
  have timed: "found (r\<lparr>ss_validation_time_ns := v\<rparr>) b snapshot = found r b snapshot" for r v
    by (simp add: found_def selector_hit_def)
  show ?thesis
    unfolding context_store_v1_restore_longest_prefix_def longest_stored_def all
    using order nth len
    by (simp add: split_beta timed select_searchable [OF assms(2,3)] select_loop_longest [OF assms(1) tokens ready] in_set_conv_nth)
      metis
qed

subsection \<open>The product lookup\<close>

definition cold_lookup :: "product_lookup_request \<Rightarrow> product_lookup" where
  "cold_lookup request = empty_lookup\<lparr>pl_residual_tokens := es_token_count (lq_exact_session request),
     pl_fallback := fb_live_authority_unavailable\<rparr>"

definition lookup_admitted :: "product_lookup_request \<Rightarrow> cache_authority \<Rightarrow> bool" where
  "lookup_admitted request authority \<longleftrightarrow>
     lq_policy_epoch request \<noteq> 0 \<and> session_ok (lq_exact_session request) \<and>
     es_logical_boundary (lq_exact_session request) = of_nat (es_token_count (lq_exact_session request)) \<and>
     es_output_boundary (lq_exact_session request) = of_nat (es_token_count (lq_exact_session request)) \<and>
     exact_session_authority_matches authority (lq_exact_session request) \<and> nonzero (ca_producer_identity authority) \<and>
     ca_world_size authority = 1 \<and> ca_rank authority = 0 \<and>
     profile_is_admitted (lq_profile request) \<and> tp_world_size (lq_profile request) = 1 \<and>
     tp_rank (lq_profile request) = 0 \<and> tp_architecture (lq_profile request) = transformer"

text \<open>The lengths recorded in the scope of the request, none when the catalogue is not readable.\<close>

definition stored_lengths :: "'c catalog_store \<Rightarrow> 'c catalog_world \<Rightarrow> prefix_query \<Rightarrow> nat set" where
  "stored_lengths impl w query =
     (if layout_valid impl w \<and> discoverable impl query w [0..<ci_capacity impl] []
      then discovered impl query w [0..<ci_capacity impl] else {})"

lemma stored_lengths_bounds:
  "finite (stored_lengths impl w query)" "card (stored_lengths impl w query) \<le> ci_capacity impl"
  "\<forall>c \<in> stored_lengths impl w query. 0 < c \<and> c \<le> pq_max_token_count query"
proof -
  have one: "finite (slot_counts impl query slots i v) \<and> card (slot_counts impl query slots i v) \<le> 1" for slots i v
  proof (cases v)
    case (Sealed r)
    have "slot_counts impl query slots i v \<subseteq> {cm_token_count (inspected impl query slots i r)}" using Sealed by auto
    from card_mono [OF _ this] finite_subset [OF this] show ?thesis by simp
  qed simp_all
  have card: "card (discovered impl query w [0..<n]) \<le> n" for n
  proof -
    have "card (discovered impl query w [0..<n]) \<le> (\<Sum>j \<in> {0..<n}. card (slot_counts impl query (cw_slots w) j (slot_view impl w j)))"
      unfolding discovered_def set_upt by (rule card_UN_le) simp
    also have "\<dots> \<le> (\<Sum>j \<in> {0..<n}. 1)" by (rule sum_mono) (use one in blast)
    finally show ?thesis by simp
  qed
  then show "card (stored_lengths impl w query) \<le> ci_capacity impl" by (simp add: stored_lengths_def)
  show "finite (stored_lengths impl w query)" using one by (simp add: stored_lengths_def discovered_def)
  have "0 < c \<and> c \<le> pq_max_token_count query"
    if "slot_discoverable impl query (cw_slots w) j v" "c \<in> slot_counts impl query (cw_slots w) j v" for c j v
    using that by (cases v) (auto split: if_splits)
  then show "\<forall>c \<in> stored_lengths impl w query. 0 < c \<and> c \<le> pq_max_token_count query"
    by (auto simp: stored_lengths_def discoverable_def discovered_def)
qed

lemma product_discovery:
  assumes "serves object impl" "wf_catalog impl" "inspections_pure impl" "lookup_admitted request authority"
    and "wf_session (lq_exact_session request)"
    and "ct_equal (ca_producer_identity authority) (cc_producer_identity (ci_config impl))"
  shows "\<exists>discovered. discover_prefix_token_counts object (product_query authority request) w = (discovered, w) \<and>
    (if stored_lengths impl w (product_query authority request) = {} then pr_status discovered \<noteq> cat_ready
     else discovered = \<lparr>pr_status = cat_ready,
       pr_token_counts = sorted_list_of_set (stored_lengths impl w (product_query authority request))\<rparr>)"
proof -
  let ?query = "product_query authority request"
  have "nonzero (es_compatibility_root (lq_exact_session request))" "nonzero (es_scope_namespace (lq_exact_session request))"
      "es_token_count (lq_exact_session request) \<noteq> 0"
    using assms(4) by (simp_all add: lookup_admitted_def session_ok_def)
  then have ok: "\<not> query_rejected ?query"
    using assms(4) by (simp add: query_rejected_def product_query_def lookup_admitted_def exact_session_authority_matches_def)
  have "ct_equal (pq_producer_identity ?query) (cc_producer_identity (ci_config impl))"
    using assms(6) by (simp add: product_query_def)
  note counts = discover_counts [OF assms(3) _ _ _ ok this, of object w]
  show ?thesis
    using counts assms(1,2) by (auto simp: serves_def wf_catalog_def stored_lengths_def discovery_failed_def ends_discovery_def Let_def
      split: if_splits)
qed

lemma increasing_sorted:
  "finite A \<Longrightarrow> \<forall>c \<in> A. 0 < c \<and> c \<le> n \<Longrightarrow> increasing_boundaries n 0 (sorted_list_of_set A)"
  by (simp add: increasing_boundaries_bounds)

lemma product_searchable:
  assumes "lookup_admitted request authority" "wf_session (lq_exact_session request)" "finite A" "A \<noteq> {}" "card A \<le> 8"
    and "\<forall>c \<in> A. 0 < c \<and> c \<le> es_token_count (lq_exact_session request)"
  shows "wf_request (product_selection request (sorted_list_of_set A))"
    "searchable (product_selection request (sorted_list_of_set A))"
    "set (candidates (product_selection request (sorted_list_of_set A))) = A"
proof -
  have world: "es_world_size (lq_exact_session request) = 1" "es_rank (lq_exact_session request) = 0"
    using assms(1) by (simp_all add: lookup_admitted_def exact_session_authority_matches_def)
  have "length (sorted_list_of_set A) \<noteq> 0" using assms(3,4) by simp
  then show "searchable (product_selection request (sorted_list_of_set A))"
    using assms world increasing_sorted [OF assms(3,6)]
    by (simp add: searchable_def product_selection_def lookup_admitted_def validate_boundaries_def selector_max_boundaries_def)
  show "wf_request (product_selection request (sorted_list_of_set A))"
    using assms(2) by (simp add: wf_request_def product_selection_def)
  show "set (candidates (product_selection request (sorted_list_of_set A))) = A"
    using assms(3) by (simp add: candidates_def product_selection_def)
qed

lemma selection_counts:
  "prefix_identity (product_selection request cs) b = prefix_identity (product_selection request []) b"
  "restores_prefix impl w (product_selection request cs) b snapshot = restores_prefix impl w (product_selection request []) b snapshot"
  "longest_stored impl w (product_selection request cs) A b snapshot = longest_stored impl w (product_selection request []) A b snapshot"
proof -
  show id: "prefix_identity (product_selection request cs) b = prefix_identity (product_selection request []) b" for b
    by (simp add: prefix_identity_def product_selection_def)
  show stored: "restores_prefix impl w (product_selection request cs) b snapshot =
      restores_prefix impl w (product_selection request []) b snapshot"
    by (simp add: restores_prefix_def id) (simp add: product_selection_def snapshot_is_prefix_def)
  show "longest_stored impl w (product_selection request cs) A b snapshot =
      longest_stored impl w (product_selection request []) A b snapshot"
    by (simp add: longest_stored_def id stored)
qed

lemma longest_stored_identity:
  "longest_stored impl w request A b snapshot \<Longrightarrow> b \<in> A \<and> ts_identity snapshot = prefix_identity request b"
  by (simp add: longest_stored_def restores_prefix_def snapshot_is_prefix_def)

definition product_found :: "product_lookup \<Rightarrow> nat \<Rightarrow> transformer_snapshot \<Rightarrow> bool" where
  "product_found r b snapshot \<longleftrightarrow> product_hit r \<and> pl_selected_prefix_tokens r = b \<and> pl_snapshot r = snapshot"

lemma not_found [simp]:
  "\<not> product_found (cold_lookup request\<lparr>pl_fallback := f\<rparr>) b snapshot"
  "\<not> product_found (cold_lookup request\<lparr>pl_candidates_examined := n, pl_fallback := f\<rparr>) b snapshot"
  by (simp_all add: product_found_def product_hit_def cold_lookup_def empty_lookup_def)

text \<open>What remains of the lookup once the selector has answered.\<close>

lemma product_search_selected:
  assumes "serves object impl" "\<not> co_mutation_held object" "lookup_admitted request authority"
    and "discover_prefix_token_counts (object\<lparr>co_mutation_held := True\<rparr>) (product_query authority request) w = (lengths, w)"
    and "pr_status lengths = cat_ready"
    and "context_store_v1_restore_longest_prefix (catalog_restore_exact (object\<lparr>co_mutation_held := True\<rparr>))
      (product_selection request (pr_token_counts lengths)) elapsed w = (selected, w')"
    and "selector_hit selected \<Longrightarrow> session_resolved (context_store_resolve_exact_session_v1
        (prefix_session (lq_exact_session request) (ss_matched_token_count selected))) \<and>
      ts_identity (ss_snapshot selected) = prefix_identity (product_selection request []) (ss_matched_token_count selected)"
  shows "product_found (fst (product_search request authority object elapsed (cold_lookup request) w)) b snapshot \<longleftrightarrow>
    found selected b snapshot"
    "fst (snd (product_search request authority object elapsed (cold_lookup request) w)) = object"
proof -
  obtain ts where tokens: "es_tokens (lq_exact_session request) = Some ts" "es_token_count (lq_exact_session request) \<noteq> 0"
    using assms(3) by (auto simp: lookup_admitted_def session_ok_def)
  have id: "prefix_identity (product_selection request []) c = identity_for (lq_exact_session request)
      (context_store_resolve_exact_session_v1 (prefix_session (lq_exact_session request) c)) (lq_policy_epoch request)" for c
    by (simp add: prefix_identity_def product_selection_def identity_for_def prefix_session_def)
  have object: "object\<lparr>co_mutation_held := False\<rparr> = object" using assms(2) by (cases object) simp
  note run = product_search_def Let_def acquire_mutation_custody_def release_mutation_custody_def split_beta
  show "product_found (fst (product_search request authority object elapsed (cold_lookup request) w)) b snapshot \<longleftrightarrow>
      found selected b snapshot"
  proof (cases "selector_hit selected")
    case True
    then show ?thesis using assms(2-6) assms(7) [OF True] tokens
      by (simp add: run lookup_admitted_def id found_def product_found_def product_hit_def)
  next
    case False
    then show ?thesis using assms(2-6) tokens
      by (simp add: run lookup_admitted_def found_def)
  qed
  show "fst (snd (product_search request authority object elapsed (cold_lookup request) w)) = object"
    using assms(2-6) tokens object by (simp add: run lookup_admitted_def)
qed

lemma product_search_longest:
  assumes "serves object impl" "\<not> co_mutation_held object" "wf_catalog impl" "inspections_pure impl"
    and "lookup_admitted request authority" "wf_session (lq_exact_session request)"
    and "ct_equal (ca_producer_identity authority) (cc_producer_identity (ci_config impl))"
  shows "case product_search request authority object elapsed (cold_lookup request) w of (r, object', w') \<Rightarrow>
    object' = object \<and>
    (product_hit r \<and> pl_selected_prefix_tokens r = b \<and> pl_snapshot r = snapshot \<longleftrightarrow>
     longest_stored impl w (product_selection request [])
       (stored_lengths impl w (product_query authority request)) b snapshot)"
proof -
  let ?A = "stored_lengths impl w (product_query authority request)"
  let ?held = "object\<lparr>co_mutation_held := True\<rparr>"
  have serves: "serves ?held impl" using assms(1) by (simp add: serves_def)
  obtain lengths where discovered: "discover_prefix_token_counts ?held (product_query authority request) w = (lengths, w)"
    "if ?A = {} then pr_status lengths \<noteq> cat_ready
     else lengths = \<lparr>pr_status = cat_ready, pr_token_counts = sorted_list_of_set ?A\<rparr>"
    using product_discovery [OF serves assms(3,4,5,6,7)] by blast
  obtain ts where tokens: "es_tokens (lq_exact_session request) = Some ts" "es_token_count (lq_exact_session request) \<noteq> 0"
    using assms(5) by (auto simp: lookup_admitted_def session_ok_def)
  have object: "object\<lparr>co_mutation_held := False\<rparr> = object" using assms(2) by (cases object) simp
  have "product_found (fst (product_search request authority object elapsed (cold_lookup request) w)) b snapshot =
      longest_stored impl w (product_selection request []) ?A b snapshot \<and>
    fst (snd (product_search request authority object elapsed (cold_lookup request) w)) = object"
  proof (cases "?A = {}")
    case True
    then show ?thesis
      using discovered assms(2,5) tokens object
      by (simp add: product_search_def Let_def acquire_mutation_custody_def release_mutation_custody_def
        lookup_admitted_def longest_stored_def)
  next
    case some: False
    let ?selection = "product_selection request (sorted_list_of_set ?A)"
    note bounds = stored_lengths_bounds [of impl w "product_query authority request"]
    have "card ?A \<le> 8" using bounds(2) assms(3) by (simp add: wf_catalog_def catalog_max_slots_def)
    from product_searchable [OF assms(5,6) bounds(1) some this] bounds(3)
    have ok: "wf_request ?selection" "searchable ?selection" "set (candidates ?selection) = ?A"
      by (simp_all add: product_query_def)
    obtain selected u where selected: "context_store_v1_restore_longest_prefix (catalog_restore_exact ?held)
        ?selection elapsed w = (selected, u)" by fastforce
    have hit: "found selected c x \<longleftrightarrow> longest_stored impl w (product_selection request []) ?A c x" for c x
      using search_longest [OF serves ok(1,2), of elapsed w c x] selected
      by (simp add: ok(3) selection_counts(3) [where cs = "sorted_list_of_set ?A"])
    have resolved: "session_resolved (context_store_resolve_exact_session_v1
        (prefix_session (lq_exact_session request) (ss_matched_token_count selected))) \<and>
      ts_identity (ss_snapshot selected) = prefix_identity (product_selection request []) (ss_matched_token_count selected)"
      if "selector_hit selected"
    proof -
      have "longest_stored impl w (product_selection request []) ?A (ss_matched_token_count selected) (ss_snapshot selected)"
        using hit [of "ss_matched_token_count selected" "ss_snapshot selected"] that by (simp add: found_def)
      then have b: "ss_matched_token_count selected \<in> ?A" and
        id: "ts_identity (ss_snapshot selected) = prefix_identity (product_selection request []) (ss_matched_token_count selected)"
        by (simp_all add: longest_stored_identity)
      have "0 < ss_matched_token_count selected" "ss_matched_token_count selected \<le> es_token_count (lq_exact_session request)"
        using b bounds(3) by (auto simp: product_query_def)
      then show ?thesis
        using prefix_session_ok [OF assms(6)] assms(5) id by (simp add: lookup_admitted_def session_resolved_iff)
    qed
    have lengths: "pr_status lengths = cat_ready" "pr_token_counts lengths = sorted_list_of_set ?A"
      using discovered(2) some by simp_all
    note product = product_search_selected [OF assms(1,2,5) discovered(1) lengths(1) selected [folded lengths(2)] resolved]
    show ?thesis by (simp only: product hit)
  qed
  then show ?thesis by (simp add: split_beta product_found_def)
qed

text \<open>
  C15: A lookup finds the longest stored prefix. With the catalogue free, an admitted request hits
  with a given length and snapshot exactly when, over the files as they are, that is the longest
  recorded length of the scope for which the catalogue singles out a record of exactly this prefix
  whose slot restores the snapshot, the snapshot is that prefix of the request, and every longer
  recorded length is definitely not recorded for this session; nothing is found when the layout or
  any record of the scope does not pass its checks. The catalogue is left free again.
\<close>
theorem lookup_longest_stored:
  assumes "serves object impl" "\<not> co_mutation_held object" "wf_catalog impl" "inspections_pure impl"
    and "lookup_admitted request authority" "wf_session (lq_exact_session request)"
    and "ct_equal (ca_producer_identity authority) (cc_producer_identity (ci_config impl))"
  shows "case product_search request authority object elapsed (cold_lookup request) w of (r, object', w') \<Rightarrow>
    object' = object \<and>
    (product_hit r \<and> pl_selected_prefix_tokens r = b \<and> pl_snapshot r = snapshot \<longleftrightarrow>
     longest_stored impl w (product_selection request [])
       (stored_lengths impl w (product_query authority request)) b snapshot)"
  by (rule product_search_longest [OF assms])

definition sample_lookup_request :: product_lookup_request where
  "sample_lookup_request = \<lparr>lq_enabled = True, lq_authority = Some sample_authority, lq_expected_model_generation = 1,
     lq_exact_session = sample_session\<lparr>es_compatibility_root := replicate 32 1, es_token_count := 3,
       es_logical_boundary := 3, es_output_boundary := 3, es_world_size := 1, es_rank := 0\<rparr>,
     lq_policy_epoch = 1, lq_profile = sample_profile\<rparr>"

text \<open>The identity of the first two tokens of the request, the one the sample catalogue holds.\<close>

definition sample_prefix :: identity where
  "sample_prefix = prefix_identity (product_selection sample_lookup_request []) 2"

lemma sample_lookup_ok:
  "wf_session (lq_exact_session sample_lookup_request)" "lookup_admitted sample_lookup_request sample_authority"
  "wf_identity sample_prefix" "serves sample_catalog_object sample_catalog_store" "inspections_pure sample_catalog_store"
proof -
  show wf: "wf_session (lq_exact_session sample_lookup_request)"
    by (simp add: sample_lookup_request_def sample_session_def wf_session_def)
  have ok: "session_ok (lq_exact_session sample_lookup_request)"
    by (simp add: sample_lookup_request_def sample_session_def session_ok_def nonzero_key_def nonzero_iff
      exact_session_key_bytes_def exact_session_max_tokens_def manifest_max_ranks_def)
  then show "lookup_admitted sample_lookup_request sample_authority"
    using sample_admitted by (simp add: lookup_admitted_def sample_lookup_request_def sample_authority_def
      exact_session_authority_matches_def nonzero_iff) (simp add: sample_session_def sample_profile_def default_profile_def)
  have "wf_session (prefix_session (lq_exact_session sample_lookup_request) 2) \<and>
      session_ok (prefix_session (lq_exact_session sample_lookup_request) 2)"
    by (rule prefix_session_ok [OF wf ok]) (simp_all add: sample_lookup_request_def)
  then show "wf_identity sample_prefix"
    using resolve_session_ok [of "prefix_session (lq_exact_session sample_lookup_request) 2"] wf
    by (simp add: sample_prefix_def prefix_identity_def product_selection_def identity_for_def wf_identity_def wf_session_def
      prefix_session_def)
  show "serves sample_catalog_object sample_catalog_store" by (simp add: serves_def sample_catalog_object_def)
  show "inspections_pure sample_catalog_store"
    by (auto simp: inspections_pure_def sample_catalog_store_def sample_canary_def less_2_cases_iff)
qed

lemma sample_stored:
  "stored_lengths sample_catalog_store (sample_sealed_world sample_prefix) (product_query sample_authority sample_lookup_request) = {2}"
  "restores_prefix sample_catalog_store (sample_sealed_world sample_prefix) (product_selection sample_lookup_request []) 2
     \<lparr>ts_identity = sample_prefix, ts_profile = sample_profile, ts_tokens = [5, 6], ts_state = [1, 2, 3]\<rparr>"
proof -
  let ?query = "product_query sample_authority sample_lookup_request"
  have two: "[0..<2] = [0, 1 :: nat]" by (simp add: upt_rec)
  let ?r = "make_record sample_catalog_store 0 2 sample_prefix (replicate 32 1)"
  have relevant: "relevant ?query ?r"
    by (simp add: relevant_def make_record_def product_query_def sample_prefix_def prefix_identity_def identity_for_def
      product_selection_def prefix_session_def) (simp add: sample_lookup_request_def sample_authority_def sample_session_def)
  have read: "inspected sample_catalog_store ?query () 0 ?r = \<lparr>cm_status = can_ready, cm_token_count = 2\<rparr>"
    by (simp add: inspected_def sample_catalog_store_def sample_canary_def)
  note views = sample_sealed_views [OF sample_lookup_ok(3)]
  have slots: "cw_slots (sample_sealed_world sample_prefix) = ()" by simp
  have max: "pq_max_token_count ?query = 3" by (simp add: product_query_def sample_lookup_request_def)
  show "stored_lengths sample_catalog_store (sample_sealed_world sample_prefix) ?query = {2}"
    using relevant read
    by (simp add: stored_lengths_def discoverable_def discovered_def sample_catalog_facts(3) two views max)
  have slot: "sl_canary (ci_slots sample_catalog_store ! 0) = sample_canary" by (simp add: sample_catalog_store_def)
  show "restores_prefix sample_catalog_store (sample_sealed_world sample_prefix) (product_selection sample_lookup_request []) 2
     \<lparr>ts_identity = sample_prefix, ts_profile = sample_profile, ts_tokens = [5, 6], ts_state = [1, 2, 3]\<rparr>"
    using sample_sealed_verdict [OF sample_lookup_ok(3)] slot
    by (simp add: restores_prefix_def snapshot_is_prefix_def flip: sample_prefix_def)
      (simp add: sample_canary_def product_selection_def sample_lookup_request_def sample_session_def)
qed

lemma sample_longest:
  "longest_stored sample_catalog_store (sample_sealed_world sample_prefix) (product_selection sample_lookup_request [])
     (stored_lengths sample_catalog_store (sample_sealed_world sample_prefix) (product_query sample_authority sample_lookup_request)) 2
     \<lparr>ts_identity = sample_prefix, ts_profile = sample_profile, ts_tokens = [5, 6], ts_state = [1, 2, 3]\<rparr>"
  "ct_equal (ca_producer_identity sample_authority) (cc_producer_identity (ci_config sample_catalog_store))"
  "\<not> co_mutation_held sample_catalog_object"
  by (simp_all add: longest_stored_def sample_stored)
    (simp_all add: sample_authority_def sample_catalog_store_def sample_canary_config_def sample_catalog_object_def)

theorem lookup_longest_stored_witness:
  "case product_search sample_lookup_request sample_authority sample_catalog_object 0 (cold_lookup sample_lookup_request)
     (sample_sealed_world sample_prefix) of (r, object', w') \<Rightarrow>
     product_hit r \<and> pl_selected_prefix_tokens r = 2 \<and> ts_tokens (pl_snapshot r) = [5, 6]"
  using lookup_longest_stored [OF sample_lookup_ok(4) sample_longest(3) sample_catalog_facts(1) sample_lookup_ok(5,2,1)
      sample_longest(2), where elapsed = 0 and w = "sample_sealed_world sample_prefix" and b = 2 and
      snapshot = "\<lparr>ts_identity = sample_prefix, ts_profile = sample_profile, ts_tokens = [5, 6], ts_state = [1, 2, 3]\<rparr>"]
    sample_longest(1)
  by (simp add: split_beta)

subsection \<open>From a lookup to its install\<close>

lemma select_loop_observed:
  "fst (select_loop (observe catalog) request k result (s, log)) = fst (select_loop catalog request k result s)"
  by (induction k arbitrary: result s log) (auto simp: Let_def observe_apply split: prod.splits)

lemma search_observed:
  "fst (context_store_v1_restore_longest_prefix (observe catalog) request elapsed (s, [])) =
   fst (context_store_v1_restore_longest_prefix catalog request elapsed s)"
  by (simp add: context_store_v1_restore_longest_prefix_def select_prefix_def Let_def split_beta select_loop_observed)

lemma search_outcome_hit:
  assumes "search_outcome request bs probes r" "ss_status r = sel_hit"
  shows "\<exists>b \<in> set bs. \<exists>x. snapshot_is_prefix request b (prefix_identity request b) x \<and> warm request b x r"
proof -
  have some: "\<not> list_all skipped probes" using assms by (auto simp: search_outcome_def)
  then have "probes \<noteq> []" by auto
  then obtain init b i reply where probes: "probes = init @ [(b, i, reply)]"
    by (metis append_butlast_last_id prod_cases3)
  have i: "i = prefix_identity request b" and hit: "snapshot_is_prefix request b i (cs_snapshot reply)" "warm request b (cs_snapshot reply) r"
    and probed: "map fst init @ [b] = take (length probes) bs"
    using assms some by (auto simp: probes search_outcome_def split: if_splits)
  have "b \<in> set (take (length probes) bs)" by (simp flip: probed)
  then show ?thesis using hit by (auto simp: i dest: in_set_takeD)
qed

lemma search_hit:
  assumes "wf_request request" "context_store_v1_restore_longest_prefix catalog request elapsed s = (r, t)" "selector_hit r"
  shows "\<exists>b x. 0 < b \<and> b \<le> es_token_count (sq_exact_session request) \<and>
    snapshot_is_prefix request b (prefix_identity request b) x \<and> warm request b x r"
proof -
  obtain t' log where run: "context_store_v1_restore_longest_prefix (observe catalog) request elapsed (s, []) = (r, (t', log))"
    using search_observed [of catalog request elapsed s] assms(2) by (metis fst_conv surj_pair)
  have outcome: "searchable request" "search_outcome request (rev (candidates request)) log r"
    using restore_prefix_outcome [OF assms(1) run] assms(3) by (simp_all split: if_splits)
  then show ?thesis
    using search_outcome_hit [OF outcome(2)] candidates_valid(2) [OF assms(1) outcome(1)] assms(3)
    by (auto simp: selector_hit_def)
qed

lemma product_search_hit:
  fixes w :: "'c catalog_world"
  assumes "product_search request authority object elapsed (cold_lookup request) w = (r, object', w')" "product_hit r"
  shows "\<exists>(held :: 'c catalog_object) counts w1 w2 selected. es_tokens (lq_exact_session request) \<noteq> None \<and>
    exact_session_authority_matches authority (lq_exact_session request) \<and>
    profile_is_admitted (lq_profile request) \<and> tp_world_size (lq_profile request) = 1 \<and> tp_rank (lq_profile request) = 0 \<and>
    tp_architecture (lq_profile request) = transformer \<and>
    context_store_v1_restore_longest_prefix (catalog_restore_exact held) (product_selection request counts) elapsed w1 = (selected, w2) \<and>
    selector_hit selected \<and> pl_snapshot r = ss_snapshot selected \<and>
    pl_selected_prefix_tokens r = ss_matched_token_count selected \<and> pl_restored_tokens r = ss_restored_token_count selected \<and>
    pl_residual_tokens r = ss_residual_token_count selected \<and> pl_bound_authority r = authority \<and> pl_authority_bound r \<and>
    pl_selected_identity r = ts_identity (ss_snapshot selected) \<and> pl_fallback r = fb_none \<and>
    id_compatibility_root (pl_selected_identity r) = es_compatibility_root (lq_exact_session request) \<and>
    (pl_source r = source_exact \<longleftrightarrow> ss_matched_token_count selected = es_token_count (lq_exact_session request))"
proof -
  have cold: "\<not> product_hit (cold_lookup request\<lparr>pl_fallback := f\<rparr>)"
    "\<not> product_hit (cold_lookup request\<lparr>pl_candidates_examined := n, pl_fallback := f\<rparr>)" for f n
    by (simp_all add: product_hit_def cold_lookup_def empty_lookup_def)
  obtain held owned lengths w1 selected w2 where run: "acquire_mutation_custody object = (held, owned)"
      "discover_prefix_token_counts held (product_query authority request) w = (lengths, w1)"
      "context_store_v1_restore_longest_prefix (catalog_restore_exact held)
        (product_selection request (pr_token_counts lengths)) elapsed w1 = (selected, w2)"
    by (metis surj_pair)
  let ?exact = "lq_exact_session request" and ?b = "ss_matched_token_count selected"
  let ?id = "identity_for ?exact (context_store_resolve_exact_session_v1 (prefix_session ?exact ?b)) (lq_policy_epoch request)"
  let ?hit = "cold_lookup request\<lparr>pl_candidates_examined := ss_candidates_examined selected,
    pl_source := (if ?b = es_token_count ?exact then source_exact else source_prefix),
    pl_fallback := fb_none, pl_selected_prefix_tokens := ?b, pl_restored_tokens := ss_restored_token_count selected,
    pl_residual_tokens := ss_residual_token_count selected, pl_selected_identity := ?id,
    pl_bound_authority := authority, pl_authority_bound := True, pl_snapshot := ss_snapshot selected\<rparr>"
  let ?admitted = "es_tokens ?exact \<noteq> None \<and> exact_session_authority_matches authority ?exact \<and>
    profile_is_admitted (lq_profile request) \<and> tp_world_size (lq_profile request) = 1 \<and> tp_rank (lq_profile request) = 0 \<and>
    tp_architecture (lq_profile request) = transformer"
  let ?P = "\<lambda>x. product_hit (fst x) \<longrightarrow>
    ?admitted \<and> selector_hit selected \<and> ts_identity (ss_snapshot selected) = ?id \<and> fst x = ?hit"
  have ite: "(c \<Longrightarrow> ?P x) \<Longrightarrow> (\<not> c \<Longrightarrow> ?P y) \<Longrightarrow> ?P (if c then x else y)" for c x y by simp
  have "?P (product_search request authority object elapsed (cold_lookup request) w)"
    unfolding product_search_def Let_def run prod.case
    by (intro ite) (use cold in simp_all)
  then have hit: ?admitted "selector_hit selected" "ts_identity (ss_snapshot selected) = ?id" "r = ?hit"
    using assms by (simp_all only: fst_conv simp_thms)
  have root: "id_compatibility_root ?id = es_compatibility_root ?exact" by (simp add: identity_for_def)
  show ?thesis
    using hit(1-3) root
    by (intro exI [of _ held] exI [of _ "pr_token_counts lengths"] exI [of _ w1] exI [of _ w2] exI [of _ selected])
      (simp add: run hit(4))
qed

text \<open>
  C40: A hit is ready to install. Whatever the catalogue and its slots do, a lookup that hits carries
  a prefix of the tokens of its request, under the identity of that prefix and the authority of the
  request, and says exact exactly when the prefix is the whole; an install request with the same
  tokens and profile, on a context and a sequence it can use, whose limits the snapshot meets, is
  accepted under that authority if only the identity of the prefix is complete.
\<close>
theorem lookup_hit_installs:
  assumes "wf_session (lq_exact_session request)"
    and "product_search request authority object elapsed (cold_lookup request) w = (r, object', w')" and "product_hit r"
    and "nq_full_tokens install = es_tokens (lq_exact_session request)"
      "nq_full_token_count install = es_token_count (lq_exact_session request)" "nq_profile install = lq_profile request"
    and "nq_context install \<noteq> None" "0 \<le> sint (nq_sequence install)"
      "nat (sint (nq_sequence install)) < nq_sequence_limit install"
    and "pl_selected_prefix_tokens r \<le> tl_max_tokens (nq_limits install)" "ts_state (pl_snapshot r) \<noteq> []" "length (ts_state (pl_snapshot r)) \<le> tl_max_state_bytes (nq_limits install)"
  shows "((\<exists>tokens. installs install authority (timed time r) tokens) \<longleftrightarrow> identity_is_complete (pl_selected_identity r)) \<and>
    (pl_source r = source_exact \<longleftrightarrow> pl_residual_tokens r = 0)"
proof -
  obtain held :: "'a catalog_object" and counts w1 w2 selected where hit: "es_tokens (lq_exact_session request) \<noteq> None"
    "exact_session_authority_matches authority (lq_exact_session request)"
    "profile_is_admitted (lq_profile request)" "tp_world_size (lq_profile request) = 1" "tp_rank (lq_profile request) = 0"
    "tp_architecture (lq_profile request) = transformer"
    "context_store_v1_restore_longest_prefix (catalog_restore_exact held) (product_selection request counts) elapsed w1 = (selected, w2)"
    "selector_hit selected" "pl_snapshot r = ss_snapshot selected"
    "pl_selected_prefix_tokens r = ss_matched_token_count selected" "pl_restored_tokens r = ss_restored_token_count selected"
    "pl_residual_tokens r = ss_residual_token_count selected" "pl_bound_authority r = authority" "pl_authority_bound r"
    "pl_selected_identity r = ts_identity (ss_snapshot selected)"
    "id_compatibility_root (pl_selected_identity r) = es_compatibility_root (lq_exact_session request)"
    "pl_source r = source_exact \<longleftrightarrow> ss_matched_token_count selected = es_token_count (lq_exact_session request)"
    using product_search_hit [OF assms(2,3)] by blast
  have wf: "wf_request (product_selection request counts)" using assms(1) by (simp add: wf_request_def product_selection_def)
  obtain b x where b: "0 < b" "b \<le> es_token_count (lq_exact_session request)"
    and snapshot: "snapshot_is_prefix (product_selection request counts) b (prefix_identity (product_selection request counts) b) x"
    and warm: "warm (product_selection request counts) b x selected"
    using search_hit [OF wf hit(7,8)] by (auto simp: product_selection_def)
  have session: "sq_exact_session (product_selection request counts) = lq_exact_session request"
    "sq_profile (product_selection request counts) = lq_profile request" by (simp_all add: product_selection_def)
  obtain ts where ts: "es_tokens (lq_exact_session request) = Some ts" using hit(1) by blast
  have x: "ts_tokens x = take b ts" "ts_profile x = lq_profile request"
    using snapshot by (auto simp: snapshot_is_prefix_def session ts)
  have r: "pl_snapshot r = x" "pl_selected_prefix_tokens r = b" "pl_restored_tokens r = b"
    "pl_residual_tokens r + b = es_token_count (lq_exact_session request)"
    "pl_selected_identity r = ts_identity x"
    using warm hit(9-12,15) b(2) by (simp_all add: warm_def session)
  have "installs install authority r tokens \<longleftrightarrow> tokens = ts \<and> identity_is_complete (pl_selected_identity r)" for tokens
    using assms(3-12) hit(2-6,13,14,16) b x r ts
    by (auto simp: installs_def same_authority_def exact_session_authority_matches_def)
  moreover have "installs install authority (timed time r) tokens = installs install authority r tokens" for tokens
    by (simp add: installs_def timed_def move_lookup_def product_hit_def)
  moreover have "pl_source r = source_exact \<longleftrightarrow> pl_residual_tokens r = 0"
    using hit(10,17) r(2,4) by auto
  ultimately show ?thesis by blast
qed

theorem lookup_hit_installs_witness:
  "\<exists>r. product_hit r \<and> ts_tokens (pl_snapshot r) = [5, 6] \<and>
     ((\<exists>tokens. installs sample_install sample_authority (timed 0 r) tokens) \<longleftrightarrow> identity_is_complete sample_prefix)"
proof -
  obtain r object' w' where run: "product_search sample_lookup_request sample_authority sample_catalog_object 0
      (cold_lookup sample_lookup_request) (sample_sealed_world sample_prefix) = (r, object', w')" by (metis surj_pair)
  let ?x = "\<lparr>ts_identity = sample_prefix, ts_profile = sample_profile, ts_tokens = [5, 6], ts_state = [1, 2, 3]\<rparr>"
  have r: "product_hit r" "pl_selected_prefix_tokens r = 2" "pl_snapshot r = ?x"
    using product_search_longest [OF sample_lookup_ok(4) sample_longest(3) sample_catalog_facts(1) sample_lookup_ok(5,2,1)
      sample_longest(2), where elapsed = 0 and w = "sample_sealed_world sample_prefix" and b = 2 and snapshot = ?x]
      sample_longest(1) run by simp_all
  have "pl_selected_identity r = ts_identity (pl_snapshot r)" using product_search_hit [OF run r(1)] by auto
  then have id: "pl_selected_identity r = sample_prefix" by (simp add: r(3))
  have "(\<exists>tokens. installs sample_install sample_authority (timed 0 r) tokens) \<longleftrightarrow> identity_is_complete (pl_selected_identity r)"
    by (rule conjunct1 [OF lookup_hit_installs [OF sample_lookup_ok(1) run r(1)]])
      (simp_all add: r, simp_all add: sample_install_def sample_lookup_request_def sample_session_def sample_limits_def)
  then show ?thesis using r by (intro exI [of _ r]) (simp add: id)
qed

end
