(* ===== verification/Live_Hash.thy ===== *)
theory Live_Hash
  imports Compatibility "HOL-Library.Multiset"
begin

text \<open>
  The lower half of \<^verbatim>\<open>halofpx-context-store-live-authority-v1.cpp\<close>: checks on borrowed bytes and
  texts, the bounded SHA-256 accumulator, the deterministic-CBOR writer that hashes what it
  writes, the canonical order of texts, and typed values.

  An accumulator or writer whose \<^verbatim>\<open>ok_\<close> is false is \<^verbatim>\<open>None\<close>: every member function then
  returns false and no caller goes on. \<^verbatim>\<open>std::sort\<close> is insertion by the source's comparator;
  the index vectors it sorts are kept, and \<^verbatim>\<open>sort_by_unique\<close> below shows that the choice of
  algorithm cannot be observed where the callers go on.
\<close>

subsection \<open>Borrowed bytes and texts\<close>

datatype 'a array_view = Null_Array nat | Array_View "'a list"

fun view_count :: "'a array_view \<Rightarrow> nat" where
  "view_count (Null_Array n) = n"
| "view_count (Array_View xs) = length xs"

fun view_items :: "'a array_view \<Rightarrow> 'a list" where
  "view_items (Null_Array n) = []"
| "view_items (Array_View xs) = xs"

fun view_null :: "'a array_view \<Rightarrow> bool" where
  "view_null (Null_Array n) = True"
| "view_null (Array_View xs) = False"

definition hash_maximum :: u64 where
  "hash_maximum = 0x1fffffffffffffff"

definition valid_bytes :: "byte_span \<Rightarrow> bool" where
  "valid_bytes bytes \<longleftrightarrow> span_size bytes = 0 \<or> \<not> span_null bytes"

definition nonempty_bytes :: "byte_span \<Rightarrow> bool" where
  "nonempty_bytes bytes \<longleftrightarrow> \<not> span_null bytes \<and> span_size bytes \<noteq> 0 \<and> span_size bytes \<le> unat hash_maximum"

fun utf8_continuation :: "nat \<Rightarrow> u32 \<Rightarrow> byte list \<Rightarrow> (u32 \<times> byte list) option" where
  "utf8_continuation 0 value rest = Some (value, rest)"
| "utf8_continuation (Suc n) value [] = None"
| "utf8_continuation (Suc n) value (next # rest) =
     (if next AND 0xc0 \<noteq> 0x80 then None
      else utf8_continuation n (push_bit 6 value OR ucast (next AND 0x3f)) rest)"

definition utf8_lead :: "byte \<Rightarrow> (nat \<times> u32 \<times> u32) option" where
  "utf8_lead first =
     (if first AND 0xe0 = 0xc0 then Some (1, ucast (first AND 0x1f), 0x80)
      else if first AND 0xf0 = 0xe0 then Some (2, ucast (first AND 0x0f), 0x800)
      else if first AND 0xf8 = 0xf0 then Some (3, ucast (first AND 0x07), 0x10000)
      else None)"

lemma utf8_continuation_length: "utf8_continuation n v bs = Some (w, rest) \<Longrightarrow> length rest \<le> length bs"
  by (induction n v bs rule: utf8_continuation.induct) (auto split: if_splits)

function live_valid_utf8 :: "byte list \<Rightarrow> bool" where
  "live_valid_utf8 [] = True"
| "live_valid_utf8 (first # rest) =
     (if first = 0 then False
      else if first < 0x80 then live_valid_utf8 rest
      else case utf8_lead first of
        None \<Rightarrow> False
      | Some (continuation_count, value, minimum) \<Rightarrow>
          if continuation_count > length rest then False
          else (case utf8_continuation continuation_count value rest of
            None \<Rightarrow> False
          | Some (value, rest1) \<Rightarrow>
              if value < minimum \<or> 0x10ffff < value \<or> (0xd800 \<le> value \<and> value \<le> 0xdfff) then False
              else live_valid_utf8 rest1))"
  by pat_completeness auto
termination by (relation "measure length") (auto dest: utf8_continuation_length)

definition valid_text :: "byte_span \<Rightarrow> nat \<Rightarrow> bool" where
  "valid_text text maximum \<longleftrightarrow> span_size text \<noteq> 0 \<and> span_size text \<le> maximum \<and>
     \<not> span_null text \<and> live_valid_utf8 (span_bytes text)"

definition text_equal :: "byte_span \<Rightarrow> byte_span \<Rightarrow> bool" where
  "text_equal left right \<longleftrightarrow> span_size left = span_size right \<and>
     (span_size left = 0 \<or> span_bytes left = span_bytes right)"

definition text_equal_literal :: "byte_span \<Rightarrow> string \<Rightarrow> bool" where
  "text_equal_literal text literal \<longleftrightarrow> span_size text = length literal \<and> \<not> span_null text \<and>
     span_bytes text = ascii_bytes literal"

definition placeholder_text :: "byte_span \<Rightarrow> bool" where
  "placeholder_text text \<longleftrightarrow>
     list_ex (text_equal_literal text) [''unknown'', ''UNKNOWN'', ''unset'', ''UNSET'', ''0'']"

definition mutable_source_revision :: "byte_span \<Rightarrow> bool" where
  "mutable_source_revision text \<longleftrightarrow>
     list_ex (text_equal_literal text)
       [''unknown'', ''UNKNOWN'', ''unset'', ''UNSET'', ''0'', ''latest'', ''LATEST'', ''head'', ''HEAD'',
        ''tip'', ''TIP'', ''main'', ''MAIN'', ''master'', ''MASTER'']"

definition registered_text :: "byte_span \<Rightarrow> bool" where
  "registered_text text \<longleftrightarrow> valid_text text 128 \<and> \<not> placeholder_text text"

definition live_bytes_equal :: "byte_span \<Rightarrow> byte_span \<Rightarrow> bool" where
  "live_bytes_equal left right \<longleftrightarrow> span_size left = span_size right \<and>
     (span_size left = 0 \<or> span_bytes left = span_bytes right)"

subsection \<open>The hash accumulator\<close>

record hash_accumulator =
  ha_context :: sha256_t
  ha_count :: u64
  ha_maximum :: u64

type_synonym hash_step = "hash_accumulator \<Rightarrow> hash_accumulator option"

definition hash_start :: "u64 \<Rightarrow> hash_accumulator" where
  "hash_start maximum = \<lparr>ha_context = sha256_init stack_context, ha_count = 0, ha_maximum = maximum\<rparr>"

definition hash_update :: "byte_span \<Rightarrow> hash_step" where
  "hash_update data h =
     (if (span_null data \<and> span_size data \<noteq> 0) \<or> ha_maximum h < ha_count h \<or>
         unat (ha_maximum h - ha_count h) < span_size data then None
      else Some (h\<lparr>ha_context := if span_size data \<noteq> 0 then sha256_update (ha_context h) (span_bytes data)
                                 else ha_context h,
                   ha_count := ha_count h + of_nat (span_size data)\<rparr>))"

definition hash_byte :: "byte \<Rightarrow> hash_step" where
  "hash_byte value = hash_update (Span [value])"

definition hash_uint16_be :: "16 word \<Rightarrow> hash_step" where
  "hash_uint16_be value = hash_update (Span [ucast (drop_bit 8 value), ucast value])"

definition hash_uint32_be :: "u32 \<Rightarrow> hash_step" where
  "hash_uint32_be value = hash_update (Span (map (\<lambda>i. ucast (drop_bit (8 * i) value)) (rev [0..<4])))"

definition hash_uint64_be :: "u64 \<Rightarrow> hash_step" where
  "hash_uint64_be value = hash_update (Span (map (\<lambda>i. ucast (drop_bit (8 * i) value)) (rev [0..<8])))"

definition hash_finish :: "hash_accumulator \<Rightarrow> digest option" where
  "hash_finish h = (let d = snd (sha256_final (ha_context h)) in if nonzero d then Some d else None)"

primrec run_steps :: "hash_step list \<Rightarrow> hash_step" where
  "run_steps [] h = Some h"
| "run_steps (f # fs) h = Option.bind (f h) (run_steps fs)"

definition hash_exact_bytes :: "byte_span \<Rightarrow> digest option" where
  "hash_exact_bytes bytes =
     (if \<not> valid_bytes bytes \<or> span_size bytes > unat hash_maximum then None
      else Option.bind (hash_update bytes (hash_start hash_maximum)) hash_finish)"

subsection \<open>The deterministic-CBOR writer\<close>

definition component_domain :: "byte list" where
  "component_domain = domain_bytes ''halofpx.compat-component.v1''"

definition component_preimage_max :: u64 where
  "component_preimage_max = 256 * 1024 * 1024"

definition component_cbor_writer :: "nat \<Rightarrow> hash_accumulator option" where
  "component_cbor_writer component_index =
     (case component_label component_index of
        None \<Rightarrow> None
      | Some label \<Rightarrow>
          if length label > 65535 then None
          else run_steps [hash_update (Span component_domain), hash_uint16_be (of_nat (length label)),
                 hash_update (Span label)] (hash_start component_preimage_max))"

definition type_value :: "byte \<Rightarrow> u64 \<Rightarrow> hash_step" where
  "type_value major value =
     (let prefix = push_bit 5 major in
      if value < 24 then hash_byte (prefix OR ucast value)
      else if value \<le> 0xff then run_steps [hash_byte (prefix OR 24), hash_byte (ucast value)]
      else if value \<le> 0xffff then run_steps [hash_byte (prefix OR 25), hash_uint16_be (ucast value)]
      else if value \<le> 0xffffffff then run_steps [hash_byte (prefix OR 26), hash_uint32_be (ucast value)]
      else run_steps [hash_byte (prefix OR 27), hash_uint64_be value])"

definition cw_unsigned :: "u64 \<Rightarrow> hash_step" where
  "cw_unsigned value = type_value 0 value"

definition cw_negative :: "u64 \<Rightarrow> hash_step" where
  "cw_negative value = (if 0 \<le>s value then (\<lambda>h. None) else type_value 1 (- (value + 1)))"

definition cw_array :: "nat \<Rightarrow> hash_step" where
  "cw_array n = type_value 4 (of_nat n)"

definition cw_map :: "nat \<Rightarrow> hash_step" where
  "cw_map n = type_value 5 (of_nat n)"

definition cw_boolean :: "bool \<Rightarrow> hash_step" where
  "cw_boolean value = hash_byte (if value then 0xf5 else 0xf4)"

definition cw_bytes :: "byte_span \<Rightarrow> hash_step" where
  "cw_bytes value =
     (if \<not> valid_bytes value then (\<lambda>h. None)
      else run_steps [type_value 2 (of_nat (span_size value)), hash_update value])"

definition cw_digest :: "byte list \<Rightarrow> hash_step" where
  "cw_digest value = run_steps [type_value 2 (of_nat (length value)), hash_update (Span value)]"

definition cw_text :: "byte_span \<Rightarrow> hash_step" where
  "cw_text value = run_steps [type_value 3 (of_nat (span_size value)), hash_update value]"

subsection \<open>The canonical order of texts\<close>

fun memcmp :: "byte list \<Rightarrow> byte list \<Rightarrow> int" where
  "memcmp (x # xs) (y # ys) = (if x = y then memcmp xs ys else if x < y then - 1 else 1)"
| "memcmp xs ys = 0"

definition cbor_text_header :: "nat \<Rightarrow> byte list" where
  "cbor_text_header n =
     (if n < 24 then [0x60 OR of_nat n]
      else if n \<le> 0xff then [0x78, of_nat n]
      else if n \<le> 0xffff then [0x79, of_nat (n div 2 ^ 8), of_nat n]
      else if n \<le> 0xffffffff then 0x7a # map (\<lambda>i. of_nat (n div 2 ^ (8 * i))) (rev [0..<4])
      else 0x7b # map (\<lambda>i. of_nat (n div 2 ^ (8 * i))) (rev [0..<8]))"

definition canonical_text_less :: "byte_span \<Rightarrow> byte_span \<Rightarrow> bool" where
  "canonical_text_less left right =
     (let left_header = cbor_text_header (span_size left);
          right_header = cbor_text_header (span_size right);
          common_header = min (length left_header) (length right_header);
          header_order = memcmp (take common_header left_header) (take common_header right_header) in
      if header_order \<noteq> 0 then header_order < 0
      else if length left_header \<noteq> length right_header then length left_header < length right_header
      else
        (let common = min (span_size left) (span_size right);
             text_order = (if common = 0 then 0
               else memcmp (take common (span_bytes left)) (take common (span_bytes right))) in
         text_order < 0 \<or> (text_order = 0 \<and> span_size left < span_size right)))"

definition bytes_less :: "byte_span \<Rightarrow> byte_span \<Rightarrow> bool" where
  "bytes_less left right =
     (let common = min (span_size left) (span_size right);
          order = (if common = 0 then 0
            else memcmp (take common (span_bytes left)) (take common (span_bytes right))) in
      order < 0 \<or> (order = 0 \<and> span_size left < span_size right))"

primrec sort_insert :: "('a \<Rightarrow> 'a \<Rightarrow> bool) \<Rightarrow> 'a \<Rightarrow> 'a list \<Rightarrow> 'a list" where
  "sort_insert precedes x [] = [x]"
| "sort_insert precedes x (y # ys) = (if precedes y x then y # sort_insert precedes x ys else x # y # ys)"

primrec sort_by :: "('a \<Rightarrow> 'a \<Rightarrow> bool) \<Rightarrow> 'a list \<Rightarrow> 'a list" where
  "sort_by precedes [] = []"
| "sort_by precedes (x # xs) = sort_insert precedes x (sort_by precedes xs)"

definition adjacent :: "('a \<Rightarrow> 'a \<Rightarrow> bool) \<Rightarrow> 'a list \<Rightarrow> bool" where
  "adjacent same xs \<longleftrightarrow> list_ex (\<lambda>index. same (xs ! (index - 1)) (xs ! index)) [1..<length xs]"

subsection \<open>Typed values\<close>

datatype live_value =
    Unsigned_Integer u64
  | Negative_Integer u64
  | Byte_String byte_span
  | Text_String byte_span
  | Boolean bool
  | Float64_Bits "byte list"
  | Value_Array "live_value list"
  | Null_Value_Array nat

definition finite_float64 :: "byte list \<Rightarrow> bool" where
  "finite_float64 bits \<longleftrightarrow>
     push_bit 4 (ucast (bits ! 0 AND 0x7f)) OR ucast (drop_bit 4 (bits ! 1)) \<noteq> (0x7ff :: 16 word)"

fun validate_typed_value :: "live_value \<Rightarrow> nat \<Rightarrow> nat \<Rightarrow> nat option"
  and validate_typed_values :: "live_value list \<Rightarrow> nat \<Rightarrow> nat \<Rightarrow> nat option" where
  "validate_typed_value value depth item_count =
     (if depth > 16 \<or> item_count \<ge> 65535 then None
      else
        (let item_count = item_count + 1 in
         case value of
           Unsigned_Integer v \<Rightarrow> Some item_count
         | Negative_Integer v \<Rightarrow> if v <s 0 then Some item_count else None
         | Byte_String bs \<Rightarrow> if valid_bytes bs \<and> span_size bs \<le> 16384 then Some item_count else None
         | Text_String t \<Rightarrow>
             if span_size t \<le> 16384 \<and> (span_size t = 0 \<or> (\<not> span_null t \<and> live_valid_utf8 (span_bytes t)))
             then Some item_count else None
         | Boolean b \<Rightarrow> Some item_count
         | Float64_Bits bits \<Rightarrow> if finite_float64 bits then Some item_count else None
         | Value_Array values \<Rightarrow>
             if length values > 65535 - item_count then None
             else validate_typed_values values (depth + 1) item_count
         | Null_Value_Array n \<Rightarrow> if n \<noteq> 0 then None else Some item_count))"
| "validate_typed_values [] depth item_count = Some item_count"
| "validate_typed_values (value # values) depth item_count =
     (case validate_typed_value value depth item_count of
        None \<Rightarrow> None
      | Some item_count \<Rightarrow> validate_typed_values values depth item_count)"

fun encode_typed_value :: "live_value \<Rightarrow> hash_step" where
  "encode_typed_value (Unsigned_Integer v) = run_steps [cw_array 2, cw_unsigned 0, cw_unsigned v]"
| "encode_typed_value (Negative_Integer v) = run_steps [cw_array 2, cw_unsigned 1, cw_negative v]"
| "encode_typed_value (Byte_String bs) = run_steps [cw_array 2, cw_unsigned 2, cw_bytes bs]"
| "encode_typed_value (Text_String t) = run_steps [cw_array 2, cw_unsigned 3, cw_text t]"
| "encode_typed_value (Boolean b) = run_steps [cw_array 2, cw_unsigned 4, cw_boolean b]"
| "encode_typed_value (Float64_Bits bits) = run_steps [cw_array 2, cw_unsigned 5, cw_digest bits]"
| "encode_typed_value (Value_Array values) =
     run_steps [cw_array 2, cw_unsigned 6, cw_array (length values), run_steps (map encode_typed_value values)]"
| "encode_typed_value (Null_Value_Array n) = run_steps [cw_array 2, cw_unsigned 6, cw_array n]"

subsection \<open>What the accumulator holds\<close>

text \<open>
  \<^verbatim>\<open>accumulator maximum bs\<close> is the accumulator after the bytes \<^verbatim>\<open>bs\<close>, and \<^verbatim>\<open>hashes f out\<close> says that
  \<^verbatim>\<open>f\<close> adds exactly \<^verbatim>\<open>out\<close> and fails only when the bound does not admit it.
\<close>

definition accumulator :: "u64 \<Rightarrow> byte list \<Rightarrow> hash_accumulator" where
  "accumulator maximum bs =
     \<lparr>ha_context = sha256_update (sha256_init stack_context) bs, ha_count = of_nat (length bs), ha_maximum = maximum\<rparr>"

definition cbor_array :: "nat \<Rightarrow> byte list" where
  "cbor_array n = cbor_head 4 (of_nat n)"

definition cbor_map :: "nat \<Rightarrow> byte list" where
  "cbor_map n = cbor_head 5 (of_nat n)"

definition hashes :: "hash_step \<Rightarrow> byte list \<Rightarrow> bool" where
  "hashes f out \<longleftrightarrow> (\<forall>m bs. length bs \<le> unat m \<longrightarrow>
     f (accumulator m bs) = (if length bs + length out \<le> unat m then Some (accumulator m (bs @ out)) else None))"

named_theorems hashes_intros \<open>what the steps of the writer hash\<close>

lemma hash_start_accumulator: "hash_start m = accumulator m []"
  by (simp add: hash_start_def accumulator_def)

lemma span_bytes_valid: "valid_bytes data \<Longrightarrow> length (span_bytes data) = span_size data"
  by (cases data) (auto simp: valid_bytes_def)

lemma hashes_update [hashes_intros]:
  assumes "valid_bytes data"
  shows "hashes (hash_update data) (span_bytes data)"
  unfolding hashes_def
proof (intro allI impI)
  fix m :: u64 and bs :: "byte list"
  assume b: "length bs \<le> unat m"
  then have n: "unat (of_nat (length bs) :: u64) = length bs"
    using unsigned_less [of m, where ?'a = nat] by (simp add: unat_of_nat)
  then have "of_nat (length bs) \<le> m" "unat (m - of_nat (length bs)) = unat m - length bs"
    using b by (simp_all add: word_le_nat_alt unat_sub)
  then show "hash_update data (accumulator m bs) =
      (if length bs + length (span_bytes data) \<le> unat m then Some (accumulator m (bs @ span_bytes data)) else None)"
    using assms b by (cases data) (auto simp: hash_update_def accumulator_def valid_bytes_def)
qed

lemma hashes_Span [hashes_intros]: "hashes (hash_update (Span bs)) bs"
  using hashes_update [of "Span bs"] by (simp add: valid_bytes_def)

lemma hashes_Nil [hashes_intros]: "hashes (run_steps []) []"
  by (simp add: hashes_def)

lemma hashes_Cons [hashes_intros]:
  "hashes f out \<Longrightarrow> hashes (run_steps fs) outs \<Longrightarrow> hashes (run_steps (f # fs)) (out @ outs)"
  by (auto simp: hashes_def)

lemma hashes_single: "hashes f out \<Longrightarrow> hashes (run_steps [f]) out"
  by (auto simp: hashes_def split: option.splits)

lemma hashes_map:
  "(\<And>x. x \<in> set xs \<Longrightarrow> hashes (f x) (out x)) \<Longrightarrow> hashes (run_steps (map f xs)) (concat (map out xs))"
  by (induction xs) (auto intro: hashes_intros simp del: run_steps.simps)

lemma be_bytes_2: "be_bytes 2 v = [ucast (drop_bit 8 v), ucast v]"
  by (simp add: be_bytes_def numeral_2_eq_2 upt_rec)

lemma hashes_integers [hashes_intros]:
  "hashes (hash_byte b) [b]"
  "hashes (hash_uint16_be (ucast v)) (be_bytes 2 v)"
  "hashes (hash_uint32_be (ucast v)) (be_bytes 4 v)"
  "hashes (hash_uint64_be v) (be_bytes 8 v)"
proof -
  have byte16: "ucast (drop_bit 8 (ucast v :: 16 word)) = (ucast (drop_bit 8 v) :: byte)"
      "ucast (ucast v :: 16 word) = (ucast v :: byte)"
    by (rule bit_word_eqI; auto simp: bit_simps)+
  have "ucast (drop_bit (8 * i) (ucast v :: u32)) = (ucast (drop_bit (8 * i) v) :: byte)" if "i < 4" for i
    using that by (intro bit_word_eqI) (auto simp: bit_simps)
  then have byte32: "map (\<lambda>i. ucast (drop_bit (8 * i) (ucast v :: u32))) (rev [0..<4]) = be_bytes 4 v"
    unfolding be_bytes_def by (intro map_cong) auto
  show "hashes (hash_byte b) [b]" by (simp add: hash_byte_def hashes_intros)
  show "hashes (hash_uint16_be (ucast v)) (be_bytes 2 v)"
    by (simp add: hash_uint16_be_def be_bytes_2 byte16 hashes_intros)
  show "hashes (hash_uint32_be (ucast v)) (be_bytes 4 v)"
    unfolding hash_uint32_be_def byte32 by (rule hashes_intros)
  show "hashes (hash_uint64_be v) (be_bytes 8 v)"
    unfolding hash_uint64_be_def be_bytes_def by (rule hashes_intros)
qed

lemma hashes_type_value: "hashes (type_value (of_nat m) v) (cbor_head m v)"
proof -
  note two = hashes_Cons [OF _ hashes_Cons [OF _ hashes_Nil]]
  have b: "be_bytes (Suc 0) v = [ucast v]" by (simp add: be_bytes_def)
  show ?thesis
    using two [OF hashes_integers(1) hashes_integers(1)] two [OF hashes_integers(1) hashes_integers(2)]
      two [OF hashes_integers(1) hashes_integers(3)] two [OF hashes_integers(1) hashes_integers(4)]
    by (simp add: type_value_def cbor_head_def head_byte_def hashes_integers b Let_def del: run_steps.simps)
qed

lemma hashes_writer [hashes_intros]:
  "hashes (cw_unsigned v) (cbor_head 0 v)"
  "hashes (cw_array n) (cbor_array n)"
  "hashes (cw_map n) (cbor_map n)"
  "hashes (cw_boolean b) [if b then 0xf5 else 0xf4]"
  "hashes (cw_digest d) (cbor_bytes d)"
  "v <s 0 \<Longrightarrow> hashes (cw_negative v) (cbor_head 1 (- (v + 1)))"
  "valid_bytes t \<Longrightarrow> hashes (cw_text t) (cbor_text (span_bytes t))"
  "valid_bytes t \<Longrightarrow> hashes (cw_bytes t) (cbor_bytes (span_bytes t))"
proof -
  note two = hashes_Cons [OF _ hashes_Cons [OF _ hashes_Nil], simplified append_Nil2]
  show "hashes (cw_unsigned v) (cbor_head 0 v)" "hashes (cw_array n) (cbor_array n)"
    "hashes (cw_map n) (cbor_map n)" "hashes (cw_boolean b) [if b then 0xf5 else 0xf4]"
    using hashes_type_value [of 0 v] hashes_type_value [of 4 "of_nat n"] hashes_type_value [of 5 "of_nat n"]
    by (simp_all add: cw_unsigned_def cw_array_def cw_map_def cw_boolean_def cbor_array_def cbor_map_def hashes_integers)
  show "hashes (cw_digest d) (cbor_bytes d)"
    using two [OF hashes_type_value [of 2] hashes_Span] by (simp add: cw_digest_def cbor_bytes_def del: run_steps.simps)
  show "v <s 0 \<Longrightarrow> hashes (cw_negative v) (cbor_head 1 (- (v + 1)))"
    using hashes_type_value [of 1 "- (v + 1)"] signed.leD [of 0 v] by (auto simp: cw_negative_def)
  show "valid_bytes t \<Longrightarrow> hashes (cw_text t) (cbor_text (span_bytes t))"
    using two [OF hashes_type_value [of 3] hashes_update]
    by (simp add: cw_text_def cbor_text_def span_bytes_valid del: run_steps.simps)
  show "valid_bytes t \<Longrightarrow> hashes (cw_bytes t) (cbor_bytes (span_bytes t))"
    using two [OF hashes_type_value [of 2] hashes_update]
    by (simp add: cw_bytes_def cbor_bytes_def span_bytes_valid del: run_steps.simps)
qed

lemma hash_finish_accumulator:
  "hash_finish (accumulator m bs) = (if nonzero (sha256 bs) then Some (sha256 bs) else None)"
  by (simp add: hash_finish_def accumulator_def sha256_digest Let_def)

lemma hash_exact_bytes_iff:
  "hash_exact_bytes data = Some d \<longleftrightarrow> valid_bytes data \<and> span_size data \<le> unat hash_maximum \<and>
     d = sha256 (span_bytes data) \<and> nonzero d"
  using hashes_update [of data] span_bytes_valid [of data]
  by (auto simp: hash_exact_bytes_def hash_start_accumulator hashes_def hash_finish_accumulator)

lemma hash_message:
  assumes "hashes f out"
  shows "Option.bind (f (hash_start m)) hash_finish =
    (if length out \<le> unat m \<and> nonzero (sha256 out) then Some (sha256 out) else None)"
  using assms by (simp add: hash_start_accumulator hashes_def hash_finish_accumulator)

subsection \<open>Sorting by a comparator\<close>

lemma mset_sort_insert: "mset (sort_insert precedes x xs) = add_mset x (mset xs)"
  by (induction xs) auto

lemma mset_sort_by [simp]: "mset (sort_by precedes xs) = mset xs"
  by (induction xs) (simp_all add: mset_sort_insert)

lemma set_sort_by [simp]: "set (sort_by precedes xs) = set xs"
  using mset_sort_by [of precedes xs] by (metis set_mset_mset)

lemma length_sort_by [simp]: "length (sort_by precedes xs) = length xs"
  using mset_sort_by [of precedes xs] by (metis size_mset)

lemma map_sort_by: "map f (sort_by (\<lambda>a b. precedes (f a) (f b)) xs) = sort_by precedes (map f xs)"
proof -
  have "map f (sort_insert (\<lambda>a b. precedes (f a) (f b)) x xs) = sort_insert precedes (f x) (map f xs)" for x xs
    by (induction xs) auto
  then show ?thesis by (induction xs) auto
qed

lemma sort_indices:
  "map ((!) xs) (sort_by (\<lambda>l r. precedes (xs ! l) (xs ! r)) [0..<length xs]) = sort_by precedes xs"
  using map_sort_by [of "(!) xs" precedes "[0..<length xs]"] by (simp add: map_nth)

lemma adjacent_iff: "adjacent same xs \<longleftrightarrow> (\<exists>i. Suc i < length xs \<and> same (xs ! i) (xs ! Suc i))"
proof
  assume "adjacent same xs"
  then obtain k where "1 \<le> k" "k < length xs" "same (xs ! (k - 1)) (xs ! k)"
    by (auto simp: adjacent_def list_ex_iff)
  then show "\<exists>i. Suc i < length xs \<and> same (xs ! i) (xs ! Suc i)" by (intro exI [of _ "k - 1"]) simp
next
  assume "\<exists>i. Suc i < length xs \<and> same (xs ! i) (xs ! Suc i)"
  then show "adjacent same xs" by (auto simp: adjacent_def list_ex_iff intro!: bexI [of _ "Suc _"])
qed

lemma adjacent_map: "adjacent (\<lambda>l r. same (f l) (f r)) xs = adjacent same (map f xs)"
  by (auto simp: adjacent_iff)

text \<open>
  What the comparators of the source have in common: on admissible elements they are a strict
  order that leaves only elements of equal key unordered.
\<close>

locale keyed_order =
  fixes ok :: "'a \<Rightarrow> bool" and precedes :: "'a \<Rightarrow> 'a \<Rightarrow> bool" and key :: "'a \<Rightarrow> 'k"
  assumes precedes_trans: "ok a \<Longrightarrow> ok b \<Longrightarrow> ok c \<Longrightarrow> precedes a b \<Longrightarrow> precedes b c \<Longrightarrow> precedes a c"
    and precedes_linear: "ok a \<Longrightarrow> ok b \<Longrightarrow> precedes a b \<or> precedes b a \<or> key a = key b"
    and precedes_key: "ok a \<Longrightarrow> ok b \<Longrightarrow> key a = key b \<Longrightarrow> \<not> precedes a b"
begin

lemma follows_trans:
  assumes "ok a" "ok b" "ok c" "\<not> precedes b a" "\<not> precedes c b"
  shows "\<not> precedes c a"
  using assms precedes_trans precedes_linear precedes_key by metis

lemma sorted_sort_by: "list_all ok xs \<Longrightarrow> sorted_wrt (\<lambda>a b. \<not> precedes b a) (sort_by precedes xs)"
proof (induction xs)
  case (Cons x xs)
  have "sorted_wrt (\<lambda>a b. \<not> precedes b a) (sort_insert precedes x ys)"
    if "sorted_wrt (\<lambda>a b. \<not> precedes b a) ys" "ok x" "list_all ok ys" for ys
    using that
  proof (induction ys)
    case (Cons y ys)
    have members: "set (sort_insert precedes x ys) = insert x (set ys)"
      using mset_sort_insert [of precedes x ys] by (metis set_mset_add_mset_insert set_mset_mset)
    show ?case
    proof (cases "precedes y x")
      case True
      then have "\<not> precedes x y" using Cons.prems precedes_trans [of x y x] precedes_key [of x x] by auto
      then show ?thesis using True Cons members by auto
    next
      case False
      then have "\<not> precedes z x" if "z \<in> set ys" for z
        using that Cons.prems follows_trans [of x y z] by (auto simp: list_all_iff)
      then show ?thesis using False Cons by auto
    qed
  qed simp
  then show ?case using Cons by (simp add: list_all_iff)
qed simp

lemma sorted_strict:
  assumes "list_all ok xs" "\<forall>i. Suc i < length (sort_by precedes xs) \<longrightarrow>
      key (sort_by precedes xs ! i) \<noteq> key (sort_by precedes xs ! Suc i)"
  shows "sorted_wrt precedes (sort_by precedes xs)"
proof -
  let ?ys = "sort_by precedes xs"
  have in_ok: "ok (?ys ! i)" if "i < length xs" for i
    using assms(1) that nth_mem [of i ?ys] by (auto simp: list_all_iff simp del: nth_mem)
  have step: "precedes (?ys ! i) (?ys ! Suc i)" if "Suc i < length xs" for i
    using sorted_wrt_nth_less [OF sorted_sort_by [OF assms(1)], of i "Suc i"] that assms(2) in_ok [of i] in_ok [of "Suc i"]
      precedes_linear by fastforce
  have "precedes (?ys ! i) (?ys ! j)" if "i < j" "j < length xs" for i j
    using that
  proof (induction j)
    case (Suc j)
    show ?case
    proof (cases "i = j")
      case False
      then have "precedes (?ys ! i) (?ys ! j)" using Suc by simp
      then show ?thesis
        using step [of j] precedes_trans [of "?ys ! i" "?ys ! j" "?ys ! Suc j"] in_ok Suc.prems by simp
    qed (use step Suc.prems in simp)
  qed simp
  then show ?thesis by (simp add: sorted_wrt_iff_nth_less)
qed

lemma strict_keys: "sorted_wrt precedes ys \<Longrightarrow> list_all ok ys \<Longrightarrow> distinct (map key ys)"
  using precedes_key by (induction ys) (auto simp: list_all_iff)

lemma distinct_sort_strict:
  assumes "list_all ok xs" "distinct (map key xs)"
  shows "sorted_wrt precedes (sort_by precedes xs)"
proof (rule sorted_strict [OF assms(1)], intro allI impI)
  fix i assume "Suc i < length (sort_by precedes xs)"
  moreover have "distinct (map key (sort_by precedes xs))"
    using assms(2) mset_sort_by [of precedes xs] by (metis mset_map mset_eq_imp_distinct_iff)
  ultimately show "key (sort_by precedes xs ! i) \<noteq> key (sort_by precedes xs ! Suc i)"
    by (metis Suc_lessD length_map lessI less_irrefl_nat nth_eq_iff_index_eq nth_map)
qed

lemma adjacent_distinct:
  assumes "list_all ok xs" "\<And>a b. ok a \<Longrightarrow> ok b \<Longrightarrow> same a b \<longleftrightarrow> key a = key b"
  shows "adjacent same (sort_by precedes xs) \<longleftrightarrow> \<not> distinct (map key xs)"
proof -
  let ?ys = "sort_by precedes xs"
  have in_ok: "ok (?ys ! i)" if "i < length xs" for i
    using assms(1) that nth_mem [of i ?ys] by (auto simp: list_all_iff simp del: nth_mem)
  then have adj: "adjacent same ?ys \<longleftrightarrow> (\<exists>i. Suc i < length xs \<and> key (?ys ! i) = key (?ys ! Suc i))"
    using assms(2) by (auto simp: adjacent_iff)
  have perm: "distinct (map key ?ys) \<longleftrightarrow> distinct (map key xs)"
    by (metis mset_sort_by mset_map mset_eq_imp_distinct_iff)
  show ?thesis
  proof
    assume "adjacent same ?ys"
    then show "\<not> distinct (map key xs)"
      unfolding adj perm [symmetric] by (metis Suc_lessD length_map length_sort_by lessI less_irrefl_nat nth_eq_iff_index_eq nth_map)
  next
    assume "\<not> distinct (map key xs)"
    then show "adjacent same ?ys"
      using sorted_strict [OF assms(1)] strict_keys [of ?ys] assms(1) unfolding adj perm [symmetric] by (auto simp: list_all_iff)
  qed
qed

lemma strict_unique:
  "sorted_wrt precedes xs \<Longrightarrow> sorted_wrt precedes ys \<Longrightarrow> list_all ok xs \<Longrightarrow> mset xs = mset ys \<Longrightarrow> xs = ys"
proof (induction xs arbitrary: ys)
  case (Cons x xs)
  then obtain y ys1 where ys: "ys = y # ys1" by (cases ys) auto
  have sets: "insert x (set xs) = insert y (set ys1)"
    using Cons.prems(4) ys by (metis list.simps(15) set_mset_mset)
  have "x = y"
  proof (rule ccontr)
    assume "x \<noteq> y"
    then have "precedes x y" "precedes y x" "ok x" "ok y"
      using sets Cons.prems ys by (auto simp: list_all_iff)
    then show False using precedes_trans precedes_key by metis
  qed
  then show ?case using Cons ys by auto
qed simp

lemma sort_by_unique:
  assumes "list_all ok xs" "distinct (map key xs)" "mset xs = mset ys"
  shows "sort_by precedes xs = sort_by precedes ys"
proof (rule strict_unique)
  have "list_all ok ys" using assms(1,3) by (metis list_all_iff set_mset_mset)
  moreover have "distinct (map key ys)" using assms(2,3) by (metis mset_map mset_eq_imp_distinct_iff)
  ultimately show "sorted_wrt precedes (sort_by precedes ys)" by (rule distinct_sort_strict)
  show "sorted_wrt precedes (sort_by precedes xs)" by (rule distinct_sort_strict [OF assms(1,2)])
qed (use assms in \<open>auto simp: list_all_iff\<close>)

end

subsection \<open>Texts and bytes are ordered\<close>

lemma memcmp_lexordp:
  "memcmp (take (min (length xs) (length ys)) xs) (take (min (length xs) (length ys)) ys) < 0 \<or>
   memcmp (take (min (length xs) (length ys)) xs) (take (min (length xs) (length ys)) ys) = 0 \<and>
     length xs < length ys \<longleftrightarrow> ord_class.lexordp xs ys"
  by (induction xs ys rule: memcmp.induct) auto

lemma memcmp_zero: "length xs = length ys \<Longrightarrow> memcmp xs ys = 0 \<longleftrightarrow> xs = ys"
  by (induction xs ys rule: list_induct2) auto

lemma bytes_less_lexordp:
  "valid_bytes l \<Longrightarrow> valid_bytes r \<Longrightarrow> bytes_less l r \<longleftrightarrow> ord_class.lexordp (span_bytes l) (span_bytes r)"
  unfolding memcmp_lexordp [symmetric] by (cases l; cases r) (auto simp: bytes_less_def valid_bytes_def Let_def)

lemma canonical_text_less_lexordp:
  assumes "\<not> span_null l" "\<not> span_null r"
  shows "canonical_text_less l r \<longleftrightarrow>
    ord_class.lexordp (cbor_text_header (span_size l)) (cbor_text_header (span_size r)) \<or>
    cbor_text_header (span_size l) = cbor_text_header (span_size r) \<and> ord_class.lexordp (span_bytes l) (span_bytes r)"
proof -
  let ?hl = "cbor_text_header (span_size l)" and ?hr = "cbor_text_header (span_size r)"
  let ?o = "memcmp (take (min (length ?hl) (length ?hr)) ?hl) (take (min (length ?hl) (length ?hr)) ?hr)"
  have tail: "canonical_text_less l r \<longleftrightarrow> (if ?o \<noteq> 0 then ?o < 0
      else if length ?hl \<noteq> length ?hr then length ?hl < length ?hr else bytes_less l r)"
    by (simp add: canonical_text_less_def bytes_less_def Let_def)
  have eq: "length ?hl = length ?hr \<Longrightarrow> ?o = 0 \<longleftrightarrow> ?hl = ?hr" by (simp add: memcmp_zero)
  have valid: "valid_bytes l" "valid_bytes r" using assms by (simp_all add: valid_bytes_def)
  show ?thesis
    unfolding tail bytes_less_lexordp [OF valid] memcmp_lexordp [of ?hl ?hr, symmetric]
    using eq by auto
qed

lemma text_equal_iff: "\<not> span_null l \<Longrightarrow> \<not> span_null r \<Longrightarrow> text_equal l r \<longleftrightarrow> span_bytes l = span_bytes r"
  by (cases l; cases r) (auto simp: text_equal_def)

lemma byte_lexordp:
  fixes xs ys zs :: "byte list"
  shows "ord_class.lexordp xs ys \<Longrightarrow> ord_class.lexordp ys zs \<Longrightarrow> ord_class.lexordp xs zs"
    and "ord_class.lexordp xs ys \<or> ord_class.lexordp ys xs \<or> xs = ys"
    and "\<not> ord_class.lexordp xs xs"
  using lexordp_linear [of xs ys] lexordp_irreflexive' [of xs] by (auto intro: lexordp_trans)

interpretation text_order: keyed_order "\<lambda>t. \<not> span_null t" canonical_text_less span_bytes
proof
  fix a b c :: byte_span
  assume nn: "\<not> span_null a" "\<not> span_null b"
  show "canonical_text_less a b \<or> canonical_text_less b a \<or> span_bytes a = span_bytes b"
    using nn byte_lexordp(2) canonical_text_less_lexordp by metis
  show "span_bytes a = span_bytes b \<Longrightarrow> \<not> canonical_text_less a b"
    using nn byte_lexordp(3) by (cases a; cases b) (auto simp: canonical_text_less_lexordp)
  assume "\<not> span_null c" "canonical_text_less a b" "canonical_text_less b c"
  then show "canonical_text_less a c"
    using nn byte_lexordp(1) unfolding canonical_text_less_lexordp [OF nn] canonical_text_less_lexordp [OF nn(2) \<open>\<not> span_null c\<close>]
      canonical_text_less_lexordp [OF nn(1) \<open>\<not> span_null c\<close>] by metis
qed

subsection \<open>Typed values on the wire\<close>

fun value_bytes :: "live_value \<Rightarrow> byte list" where
  "value_bytes (Unsigned_Integer v) = cbor_array 2 @ cbor_head 0 0 @ cbor_head 0 v"
| "value_bytes (Negative_Integer v) = cbor_array 2 @ cbor_head 0 1 @ cbor_head 1 (- (v + 1))"
| "value_bytes (Byte_String bs) = cbor_array 2 @ cbor_head 0 2 @ cbor_bytes (span_bytes bs)"
| "value_bytes (Text_String t) = cbor_array 2 @ cbor_head 0 3 @ cbor_text (span_bytes t)"
| "value_bytes (Boolean b) = cbor_array 2 @ cbor_head 0 4 @ [if b then 0xf5 else 0xf4]"
| "value_bytes (Float64_Bits bits) = cbor_array 2 @ cbor_head 0 5 @ cbor_bytes bits"
| "value_bytes (Value_Array values) =
     cbor_array 2 @ cbor_head 0 6 @ cbor_array (length values) @ concat (map value_bytes values)"
| "value_bytes (Null_Value_Array n) = cbor_array 2 @ cbor_head 0 6 @ cbor_array n"

text \<open>The forms a null pointer of size zero can take are the empty ones.\<close>

fun plain_span :: "byte_span \<Rightarrow> byte_span" where
  "plain_span (NullSpan n) = (if n = 0 then Span [] else NullSpan n)"
| "plain_span (Span bs) = Span bs"

fun plain_value :: "live_value \<Rightarrow> live_value" where
  "plain_value (Byte_String bs) = Byte_String (plain_span bs)"
| "plain_value (Text_String t) = Text_String (plain_span t)"
| "plain_value (Value_Array values) = Value_Array (map plain_value values)"
| "plain_value (Null_Value_Array n) = (if n = 0 then Value_Array [] else Null_Value_Array n)"
| "plain_value v = v"

text \<open>What validation leaves; floating-point values are arrays of eight bytes.\<close>

fun good_value :: "live_value \<Rightarrow> bool" where
  "good_value (Negative_Integer v) = (v <s 0)"
| "good_value (Byte_String bs) = (valid_bytes bs \<and> span_size bs \<le> 16384)"
| "good_value (Text_String t) = (valid_bytes t \<and> span_size t \<le> 16384)"
| "good_value (Value_Array values) = (length values \<le> 65535 \<and> list_all good_value values)"
| "good_value (Null_Value_Array n) = (n = 0)"
| "good_value v = True"

fun wf_value :: "live_value \<Rightarrow> bool" where
  "wf_value (Float64_Bits bits) = (length bits = 8)"
| "wf_value (Value_Array values) = list_all wf_value values"
| "wf_value v = True"

declare validate_typed_value.simps [simp del]

lemma validate_cases:
  "validate_typed_value v depth n = Some m \<Longrightarrow>
     (case v of Value_Array values \<Rightarrow>
        length values \<le> 65535 \<and> validate_typed_values values (depth + 1) (n + 1) = Some m
      | _ \<Rightarrow> good_value v)"
  unfolding validate_typed_value.simps by (cases v) (auto simp: Let_def valid_bytes_def split: if_splits)

lemma validate_each:
  "validate_typed_values vs depth n = Some m \<Longrightarrow> v \<in> set vs \<Longrightarrow> \<exists>n m. validate_typed_value v depth n = Some m"
  by (induction vs arbitrary: n) (auto split: option.splits)

lemma validate_good: "validate_typed_value v depth n = Some m \<Longrightarrow> good_value v"
proof (induction v arbitrary: depth n m)
  case (Value_Array vs)
  have "good_value v" if "v \<in> set vs" for v
    using that Value_Array.IH validate_each validate_cases [OF Value_Array.prems] by fastforce
  then show ?case using validate_cases [OF Value_Array.prems] by (simp add: list_all_iff)
qed (auto dest: validate_cases)

lemma hashes_encode_typed_value [hashes_intros]: "good_value v \<Longrightarrow> hashes (encode_typed_value v) (value_bytes v)"
proof (induction v)
  case (Value_Array vs)
  have each: "hashes (run_steps (map encode_typed_value vs)) (concat (map value_bytes vs))"
    using Value_Array by (intro hashes_map) (auto simp: list_all_iff)
  show ?case
    unfolding encode_typed_value.simps value_bytes.simps
    by (rule each hashes_single hashes_intros)+
qed (unfold encode_typed_value.simps value_bytes.simps good_value.simps,
     ((rule hashes_single hashes_intros) | (erule conjunct1) | assumption)+)

lemma byte_bool_inj: "(if b then 0xf5 else 0xf4) = (if c then 0xf5 else (0xf4 :: byte)) \<longleftrightarrow> b = c"
  by simp

lemma plain_bytes: "valid_bytes s \<Longrightarrow> plain_span s = Span (span_bytes s)"
  by (cases s) (auto simp: valid_bytes_def)

lemma cbor_span_inj:
  assumes "valid_bytes a" "valid_bytes b" "span_size a < 2 ^ 64" "span_size b < 2 ^ 64"
  shows "cbor_text (span_bytes a) @ x = cbor_text (span_bytes b) @ y \<longleftrightarrow> plain_span a = plain_span b \<and> x = y"
    and "cbor_bytes (span_bytes a) @ x = cbor_bytes (span_bytes b) @ y \<longleftrightarrow> plain_span a = plain_span b \<and> x = y"
  using assms by (simp_all add: cbor_text_inj plain_bytes span_bytes_valid)

lemma of_nat_small_inj: "m < 2 ^ 64 \<Longrightarrow> n < 2 ^ 64 \<Longrightarrow> (of_nat m :: u64) = of_nat n \<longleftrightarrow> m = n"
  by (simp add: word_unat_eq_iff unat_of_nat)

lemma items_inj:
  assumes "\<And>v w x y. v \<in> set vs \<Longrightarrow> w \<in> set ws \<Longrightarrow> f v @ x = f w @ y \<Longrightarrow> g v = g w \<and> x = y"
    and "length vs = length ws" "concat (map f vs) @ x = concat (map f ws) @ y"
  shows "map g vs = map g ws \<and> x = y"
  using assms(2,1,3)
proof (induction vs ws rule: list_induct2)
  case (Cons v vs w ws)
  then have head: "g v = g w" and rest: "concat (map f vs) @ x = concat (map f ws) @ y"
    using Cons.prems(1) [of v w "concat (map f vs) @ x" "concat (map f ws) @ y"] by auto
  have "map g vs = map g ws \<and> x = y"
    by (rule Cons.IH [OF _ rest]) (use Cons.prems(1) in auto)
  then show ?case using head by simp
qed simp

lemma value_bytes_inj:
  "good_value v \<Longrightarrow> good_value w \<Longrightarrow> wf_value v \<Longrightarrow> wf_value w \<Longrightarrow> value_bytes v @ x = value_bytes w @ y \<Longrightarrow>
   plain_value v = plain_value w \<and> x = y"
proof (induction v arbitrary: w x y)
  case (Value_Array vs)
  show ?case
  proof (cases w)
    case (Value_Array ws)
    then have len: "length vs = length ws" and
      rest: "concat (map value_bytes vs) @ x = concat (map value_bytes ws) @ y"
      using Value_Array.prems by (auto simp: cbor_array_def cbor_head_inj of_nat_small_inj)
    have "map plain_value vs = map plain_value ws \<and> x = y"
      using len rest Value_Array.IH Value_Array.prems Value_Array
      by (intro items_inj [where f = value_bytes]) (auto simp: list_all_iff)
    then show ?thesis using Value_Array by simp
  next
    case (Null_Value_Array n)
    then show ?thesis using Value_Array.prems of_nat_small_inj [of "length vs" 0] by (auto simp: cbor_array_def cbor_head_inj)
  qed (use Value_Array.prems in \<open>simp_all add: cbor_array_def cbor_head_inj\<close>)
next
  case (Null_Value_Array n)
  show ?case
  proof (cases w)
    case (Value_Array ws)
    then show ?thesis
      using Null_Value_Array.prems of_nat_small_inj [of "length ws" 0] by (auto simp: cbor_array_def cbor_head_inj)
  qed (use Null_Value_Array.prems in \<open>simp_all add: cbor_array_def cbor_head_inj\<close>)
next
  case (Negative_Integer v)
  then show ?case by (cases w) (auto simp: cbor_array_def cbor_head_inj)
next
  case (Byte_String bs)
  then show ?case by (cases w) (auto simp: cbor_array_def cbor_head_inj cbor_span_inj)
next
  case (Text_String bs)
  then show ?case by (cases w) (auto simp: cbor_array_def cbor_head_inj cbor_span_inj)
next
  case (Boolean b)
  then show ?case by (cases w) (auto simp: cbor_array_def cbor_head_inj byte_bool_inj split: if_splits)
next
  case (Float64_Bits b)
  then show ?case by (cases w) (auto simp: cbor_array_def cbor_head_inj cbor_text_inj)
next
  case (Unsigned_Integer u)
  then show ?case by (cases w) (auto simp: cbor_array_def cbor_head_inj)
qed

end
