(* ===== verification/Live_Authority.thy ===== *)
theory Live_Authority
  imports Live_Hash
begin

text \<open>
  The upper half of \<^verbatim>\<open>halofpx-context-store-live-authority-v1.{h,cpp}\<close>: the borrowed facts about a
  live server, the six components derived from them, the ten supplements whose preimages the caller
  supplies, and the expectation built from the sixteen digests. A component is \<^verbatim>\<open>Inl\<close> the status it
  fails with or \<^verbatim>\<open>Inr\<close> its digest.
  The supplement validator is the interface class the caller implements and is a parameter, as is
  whether a vector allocation throws.
\<close>

subsection \<open>The borrowed inputs\<close>

record live_artifact =
  la_role :: byte_span
  la_semantic_order :: u64
  la_exact_bytes :: byte_span

record live_parameter =
  lp_id :: byte_span
  lp_value :: live_value

record live_metadata =
  lm_key :: byte_span
  lm_value :: live_value

record live_tensor =
  lt_name :: byte_span
  lt_shard_order :: u64
  lt_dimensions :: "u64 array_view"
  lt_tensor_type :: u64
  lt_container_offset :: u64
  lt_encoded_bytes :: u64

record live_model =
  md_shards :: "live_artifact array_view"
  md_declared_shard_count :: nat
  md_metadata_schema_id :: byte_span
  md_metadata :: "live_metadata array_view"
  md_tensors :: "live_tensor array_view"

record live_token =
  tk_token_id :: u64
  tk_exact_bytes :: byte_span
  tk_score_bits :: "byte list"
  tk_token_type :: u64

record live_merge =
  mg_left :: byte_span
  mg_right :: byte_span

record live_special_token =
  st_role :: byte_span
  st_token_id :: u64

record live_tokenizer =
  tz_artifacts :: "live_artifact array_view"
  tz_tokens :: "live_token array_view"
  tz_merges :: "live_merge array_view"
  tz_special_tokens :: "live_special_token array_view"
  tz_policy :: "live_parameter array_view"

record live_chat_template =
  ch_effective_candidate_count :: nat
  ch_exact_template_bytes :: byte_span
  ch_renderer_id :: byte_span
  ch_renderer_executable_bytes :: byte_span

record live_runtime =
  rt_source_revision :: byte_span
  rt_source_tree_manifest :: byte_span
  rt_source_is_immutable :: bool
  rt_source_is_dirty :: bool
  rt_dirty_tree_manifest :: byte_span
  rt_artifacts :: "live_artifact array_view"
  rt_toolchain_id :: byte_span
  rt_build_options :: "live_parameter array_view"
  rt_state_abi_id :: byte_span

record live_rank =
  rk_logical_rank :: u32
  rk_stable_endpoint_id :: byte_span
  rk_stable_device_id :: byte_span
  rk_ownership_plan :: byte_span
  rk_placement_plan :: byte_span

record live_topology =
  tp_plan_schema_id :: byte_span
  tp_execution_mode_id :: byte_span
  tp_world_size :: u32
  tp_global_plan :: byte_span
  tp_stable_topology_epoch :: u64
  tp_ranks :: "live_rank array_view"

record live_supplement =
  sp_component_index :: nat
  sp_exact_preimage :: byte_span

record live_inputs =
  li_model :: live_model
  li_tokenizer :: live_tokenizer
  li_chat_template :: live_chat_template
  li_runtime :: live_runtime
  li_topology :: live_topology
  li_supplements :: "live_supplement array_view"

datatype live_status =
    live_built | live_invalid_input | missing_model_artifact | ambiguous_shard_plan
  | incomplete_typed_model_semantics | ambiguous_model_semantics | incomplete_tokenizer
  | ambiguous_tokenizer | ambiguous_template_selection | incomplete_template_identity
  | incomplete_build_abi | mutable_build_identity | incomplete_topology | ambiguous_rank_plan
  | missing_component_preimage | duplicate_component_preimage | invalid_component_preimage
  | unvalidated_component_preimage | placeholder_equal_facts | canonicalization_failed
  | compatibility_build_failed

record live_result =
  lr_status :: live_status
  lr_failure_component :: nat
  lr_expectation :: compatibility_expectation

definition live_failure :: "live_status \<Rightarrow> nat \<Rightarrow> live_result" where
  "live_failure value component =
     \<lparr>lr_status = value, lr_failure_component = component, lr_expectation = empty_expectation\<rparr>"

subsection \<open>Artifacts and parameters\<close>

record artifact_set =
  as_order :: "nat list"
  as_digests :: "digest list"

fun check_artifacts ::
    "live_status \<Rightarrow> live_status \<Rightarrow> live_artifact list \<Rightarrow> live_artifact list \<Rightarrow> live_status + digest list" where
  "check_artifacts missing ambiguous prior [] = Inr []"
| "check_artifacts missing ambiguous prior (artifact # rest) =
     (if \<not> valid_text (la_role artifact) 128 \<or> placeholder_text (la_role artifact) \<or>
         \<not> nonempty_bytes (la_exact_bytes artifact) then Inl missing
      else case hash_exact_bytes (la_exact_bytes artifact) of
        None \<Rightarrow> Inl missing
      | Some d \<Rightarrow>
          if list_ex (\<lambda>p. la_semantic_order p = la_semantic_order artifact \<or>
               text_equal (la_role p) (la_role artifact)) prior
          then Inl ambiguous
          else (case check_artifacts missing ambiguous (prior @ [artifact]) rest of
                  Inl st \<Rightarrow> Inl st
                | Inr ds \<Rightarrow> Inr (d # ds)))"

definition collect_artifacts ::
    "live_artifact array_view \<Rightarrow> nat \<Rightarrow> live_status \<Rightarrow> live_status \<Rightarrow> live_status + artifact_set" where
  "collect_artifacts artifacts maximum missing ambiguous =
     (let n = view_count artifacts; items = view_items artifacts in
      if view_null artifacts \<or> n = 0 \<or> n > maximum then Inl missing
      else case check_artifacts missing ambiguous [] items of
        Inl st \<Rightarrow> Inl st
      | Inr digests \<Rightarrow>
          (let order = sort_by (\<lambda>left right. la_semantic_order (items ! left) < la_semantic_order (items ! right)) [0..<n] in
           if list_ex (\<lambda>index. la_semantic_order (items ! (order ! index)) \<noteq> of_nat index) [0..<n] then Inl ambiguous
           else Inr \<lparr>as_order = order, as_digests = digests\<rparr>))"

definition encode_artifacts :: "live_artifact array_view \<Rightarrow> artifact_set \<Rightarrow> hash_step" where
  "encode_artifacts artifacts collected =
     run_steps [cw_array (length (as_order collected)),
       run_steps (map (\<lambda>original_index.
         (let artifact = view_items artifacts ! original_index in
          run_steps [cw_map 4,
            cw_unsigned 0, cw_text (la_role artifact),
            cw_unsigned 1, cw_unsigned (la_semantic_order artifact),
            cw_unsigned 2, cw_unsigned (of_nat (span_size (la_exact_bytes artifact))),
            cw_unsigned 3, cw_digest (as_digests collected ! original_index)])) (as_order collected))]"

definition parameter_acceptable :: "live_parameter \<Rightarrow> bool" where
  "parameter_acceptable p \<longleftrightarrow> valid_text (lp_id p) 128 \<and> \<not> placeholder_text (lp_id p) \<and>
     validate_typed_value (lp_value p) 0 0 \<noteq> None"

definition collect_parameters :: "live_parameter array_view \<Rightarrow> bool \<Rightarrow> live_status + nat list" where
  "collect_parameters parameters require_nonempty =
     (let n = view_count parameters; items = view_items parameters in
      if (view_null parameters \<and> n \<noteq> 0) \<or> (require_nonempty \<and> n = 0) \<or> n > 65535 then Inl live_invalid_input
      else if list_ex (\<lambda>p. \<not> parameter_acceptable p) items then Inl live_invalid_input
      else
        (let order = sort_by (\<lambda>left right. canonical_text_less (lp_id (items ! left)) (lp_id (items ! right))) [0..<n] in
         if adjacent (\<lambda>prior current. text_equal (lp_id (items ! prior)) (lp_id (items ! current))) order
         then Inl duplicate_component_preimage
         else Inr order))"

definition encode_parameters :: "live_parameter array_view \<Rightarrow> nat list \<Rightarrow> hash_step" where
  "encode_parameters parameters order =
     run_steps [cw_array (length order),
       run_steps (map (\<lambda>index.
         run_steps [cw_map 2,
           cw_unsigned 0, cw_text (lp_id (view_items parameters ! index)),
           cw_unsigned 1, encode_typed_value (lp_value (view_items parameters ! index))]) order)]"

text \<open>How every builder ends: write the component, and report a refused write or a zero digest.\<close>

definition write_component :: "nat \<Rightarrow> hash_step \<Rightarrow> live_status + digest" where
  "write_component component_index body =
     (case Option.bind (Option.bind (component_cbor_writer component_index) body) hash_finish of
        None \<Rightarrow> Inl canonicalization_failed
      | Some d \<Rightarrow> Inr d)"

subsection \<open>The model components\<close>

definition build_model_bytes_component :: "live_model \<Rightarrow> live_status + digest" where
  "build_model_bytes_component model =
     (if md_declared_shard_count model = 0 \<or> view_count (md_shards model) \<noteq> md_declared_shard_count model
      then Inl missing_model_artifact
      else case collect_artifacts (md_shards model) 1024 missing_model_artifact ambiguous_shard_plan of
        Inl st \<Rightarrow> Inl st
      | Inr shards \<Rightarrow>
          write_component 0 (run_steps [cw_map 1, cw_unsigned 0, encode_artifacts (md_shards model) shards]))"

fun shard_table :: "nat \<Rightarrow> live_artifact list \<Rightarrow> bool list \<Rightarrow> u64 list \<Rightarrow> u64 list option" where
  "shard_table shard_count [] shard_seen shard_sizes = Some shard_sizes"
| "shard_table shard_count (shard # rest) shard_seen shard_sizes =
     (if unat (la_semantic_order shard) \<ge> shard_count \<or> shard_seen ! unat (la_semantic_order shard) \<or>
         \<not> nonempty_bytes (la_exact_bytes shard) then None
      else shard_table shard_count rest (shard_seen[unat (la_semantic_order shard) := True])
        (shard_sizes[unat (la_semantic_order shard) := of_nat (span_size (la_exact_bytes shard))]))"

definition metadata_acceptable :: "live_metadata \<Rightarrow> bool" where
  "metadata_acceptable entry \<longleftrightarrow> valid_text (lm_key entry) 16384 \<and> validate_typed_value (lm_value entry) 0 0 \<noteq> None"

definition metadata_plan :: "live_metadata array_view \<Rightarrow> live_status + nat list" where
  "metadata_plan metadata =
     (let n = view_count metadata; items = view_items metadata in
      if list_ex (\<lambda>entry. \<not> metadata_acceptable entry) items then Inl incomplete_typed_model_semantics
      else
        (let order = sort_by (\<lambda>left right. canonical_text_less (lm_key (items ! left)) (lm_key (items ! right))) [0..<n] in
         if adjacent (\<lambda>prior current. text_equal (lm_key (items ! prior)) (lm_key (items ! current))) order
         then Inl ambiguous_model_semantics
         else Inr order))"

definition tensor_acceptable :: "nat \<Rightarrow> u64 list \<Rightarrow> live_tensor \<Rightarrow> bool" where
  "tensor_acceptable shard_count shard_sizes tensor \<longleftrightarrow>
     \<not> (\<not> valid_text (lt_name tensor) 16384 \<or> unat (lt_shard_order tensor) \<ge> shard_count \<or>
        view_null (lt_dimensions tensor) \<or> view_count (lt_dimensions tensor) = 0 \<or>
        view_count (lt_dimensions tensor) > 16 \<or> lt_encoded_bytes tensor = 0 \<or>
        lt_container_offset tensor > - 1 - lt_encoded_bytes tensor \<or>
        lt_container_offset tensor + lt_encoded_bytes tensor > shard_sizes ! unat (lt_shard_order tensor)) \<and>
     \<not> list_ex (\<lambda>dimension. dimension = 0) (view_items (lt_dimensions tensor))"

definition tensor_less :: "live_tensor \<Rightarrow> live_tensor \<Rightarrow> bool" where
  "tensor_less lhs rhs =
     (if lt_shard_order lhs \<noteq> lt_shard_order rhs then lt_shard_order lhs < lt_shard_order rhs
      else if lt_container_offset lhs \<noteq> lt_container_offset rhs then lt_container_offset lhs < lt_container_offset rhs
      else canonical_text_less (lt_name lhs) (lt_name rhs))"

definition tensor_clash :: "live_tensor \<Rightarrow> live_tensor \<Rightarrow> bool" where
  "tensor_clash prior current_tensor \<longleftrightarrow>
     (lt_shard_order prior = lt_shard_order current_tensor \<and>
      lt_container_offset prior = lt_container_offset current_tensor) \<or>
     (lt_shard_order prior = lt_shard_order current_tensor \<and>
      (lt_container_offset prior > - 1 - lt_encoded_bytes prior \<or>
       lt_container_offset prior + lt_encoded_bytes prior > lt_container_offset current_tensor))"

definition tensor_plan :: "nat \<Rightarrow> u64 list \<Rightarrow> live_tensor array_view \<Rightarrow> live_status + nat list" where
  "tensor_plan shard_count shard_sizes tensors =
     (let n = view_count tensors; items = view_items tensors in
      if list_ex (\<lambda>tensor. \<not> tensor_acceptable shard_count shard_sizes tensor) items
      then Inl incomplete_typed_model_semantics
      else
        (let tensor_order = sort_by (\<lambda>left right. tensor_less (items ! left) (items ! right)) [0..<n] in
         if adjacent (\<lambda>prior current. tensor_clash (items ! prior) (items ! current)) tensor_order
         then Inl ambiguous_model_semantics
         else
           (let tensor_name_order = sort_by (\<lambda>left right. canonical_text_less (lt_name (items ! left)) (lt_name (items ! right)))
                  tensor_order in
            if adjacent (\<lambda>prior current. text_equal (lt_name (items ! prior)) (lt_name (items ! current))) tensor_name_order
            then Inl ambiguous_model_semantics
            else Inr tensor_order)))"

definition encode_metadata :: "live_metadata list \<Rightarrow> nat list \<Rightarrow> hash_step" where
  "encode_metadata items order = run_steps (map (\<lambda>index.
     run_steps [cw_map 2,
       cw_unsigned 0, cw_text (lm_key (items ! index)),
       cw_unsigned 1, encode_typed_value (lm_value (items ! index))]) order)"

definition encode_tensors :: "live_tensor list \<Rightarrow> nat list \<Rightarrow> hash_step" where
  "encode_tensors items order = run_steps (map (\<lambda>index.
     (let tensor = items ! index in
      run_steps [cw_map 6,
        cw_unsigned 0, cw_text (lt_name tensor),
        cw_unsigned 1, cw_array (view_count (lt_dimensions tensor)),
        run_steps (map cw_unsigned (view_items (lt_dimensions tensor))),
        cw_unsigned 2, cw_unsigned (lt_tensor_type tensor),
        cw_unsigned 3, cw_unsigned (lt_container_offset tensor),
        cw_unsigned 4, cw_unsigned (lt_encoded_bytes tensor),
        cw_unsigned 5, cw_unsigned (lt_shard_order tensor)])) order)"

definition build_model_metadata_component :: "live_model \<Rightarrow> live_status + digest" where
  "build_model_metadata_component model =
     (let shard_count = view_count (md_shards model) in
      if \<not> valid_text (md_metadata_schema_id model) 128 \<or> placeholder_text (md_metadata_schema_id model) \<or>
         view_null (md_metadata model) \<or> view_count (md_metadata model) = 0 \<or> view_count (md_metadata model) > 65535 \<or>
         view_null (md_tensors model) \<or> view_count (md_tensors model) = 0 \<or> view_count (md_tensors model) > 65535
      then Inl incomplete_typed_model_semantics
      else case shard_table shard_count (view_items (md_shards model)) (replicate shard_count False) (replicate shard_count 0) of
        None \<Rightarrow> Inl incomplete_typed_model_semantics
      | Some shard_sizes \<Rightarrow>
          (case metadata_plan (md_metadata model) of
             Inl st \<Rightarrow> Inl st
           | Inr metadata_order \<Rightarrow>
               (case tensor_plan shard_count shard_sizes (md_tensors model) of
                  Inl st \<Rightarrow> Inl st
                | Inr tensor_order \<Rightarrow>
                    write_component 1 (run_steps [cw_map 3,
                      cw_unsigned 0, cw_text (md_metadata_schema_id model),
                      cw_unsigned 1, cw_array (length metadata_order),
                      encode_metadata (view_items (md_metadata model)) metadata_order,
                      cw_unsigned 2, cw_array (length tensor_order),
                      encode_tensors (view_items (md_tensors model)) tensor_order]))))"

subsection \<open>The tokenizer, template and runtime components\<close>

definition token_acceptable :: "live_token \<Rightarrow> bool" where
  "token_acceptable token \<longleftrightarrow>
     valid_bytes (tk_exact_bytes token) \<and> span_size (tk_exact_bytes token) \<le> 16384 \<and> finite_float64 (tk_score_bits token)"

definition token_plan :: "live_token array_view \<Rightarrow> live_status + nat list" where
  "token_plan tokens =
     (let n = view_count tokens; items = view_items tokens in
      if list_ex (\<lambda>token. \<not> token_acceptable token) items then Inl incomplete_tokenizer
      else
        (let token_order = sort_by (\<lambda>left right. tk_token_id (items ! left) < tk_token_id (items ! right)) [0..<n] in
         if adjacent (\<lambda>prior current. tk_token_id (items ! prior) = tk_token_id (items ! current)) token_order
         then Inl ambiguous_tokenizer
         else if list_ex (\<lambda>index. tk_token_id (items ! (token_order ! index)) \<noteq> of_nat index) [0..<n]
         then Inl incomplete_tokenizer
         else Inr token_order))"

definition merge_acceptable :: "live_merge \<Rightarrow> bool" where
  "merge_acceptable merge \<longleftrightarrow> valid_bytes (mg_left merge) \<and> valid_bytes (mg_right merge) \<and>
     span_size (mg_left merge) \<le> 16384 \<and> span_size (mg_right merge) \<le> 16384"

definition merge_less :: "live_merge \<Rightarrow> live_merge \<Rightarrow> bool" where
  "merge_less lhs rhs =
     (if live_bytes_equal (mg_left lhs) (mg_left rhs) then bytes_less (mg_right lhs) (mg_right rhs)
      else bytes_less (mg_left lhs) (mg_left rhs))"

definition merge_check :: "live_merge array_view \<Rightarrow> live_status option" where
  "merge_check merges =
     (let n = view_count merges; items = view_items merges in
      if list_ex (\<lambda>merge. \<not> merge_acceptable merge) items then Some incomplete_tokenizer
      else
        (let merge_order = sort_by (\<lambda>left right. merge_less (items ! left) (items ! right)) [0..<n] in
         if adjacent (\<lambda>prior current. live_bytes_equal (mg_left (items ! prior)) (mg_left (items ! current)) \<and>
              live_bytes_equal (mg_right (items ! prior)) (mg_right (items ! current))) merge_order
         then Some ambiguous_tokenizer
         else None))"

definition special_plan :: "nat \<Rightarrow> live_special_token array_view \<Rightarrow> live_status + nat list" where
  "special_plan token_count special_tokens =
     (let n = view_count special_tokens; items = view_items special_tokens in
      if n > 65535 then Inl incomplete_tokenizer
      else if list_ex (\<lambda>special. \<not> valid_text (st_role special) 128 \<or> placeholder_text (st_role special)) items
      then Inl incomplete_tokenizer
      else
        (let special_order = sort_by (\<lambda>left right. canonical_text_less (st_role (items ! left)) (st_role (items ! right))) [0..<n] in
         if adjacent (\<lambda>prior current. text_equal (st_role (items ! prior)) (st_role (items ! current))) special_order
         then Inl ambiguous_tokenizer
         else if list_ex (\<lambda>index. unat (st_token_id (items ! index)) \<ge> token_count) special_order
         then Inl incomplete_tokenizer
         else Inr special_order))"

definition policy_plan :: "live_parameter array_view \<Rightarrow> live_status + nat list" where
  "policy_plan policy =
     (case collect_parameters policy True of
        Inl st \<Rightarrow> Inl (if st = duplicate_component_preimage then ambiguous_tokenizer else incomplete_tokenizer)
      | Inr policy_order \<Rightarrow> Inr policy_order)"

definition encode_tokens :: "live_token list \<Rightarrow> nat list \<Rightarrow> hash_step" where
  "encode_tokens items order = run_steps (map (\<lambda>index.
     (let token = items ! index in
      run_steps [cw_map 4,
        cw_unsigned 0, cw_unsigned (tk_token_id token),
        cw_unsigned 1, cw_bytes (tk_exact_bytes token),
        cw_unsigned 2, cw_digest (tk_score_bits token),
        cw_unsigned 3, cw_unsigned (tk_token_type token)])) order)"

definition encode_merges :: "live_merge list \<Rightarrow> hash_step" where
  "encode_merges items = run_steps (map (\<lambda>merge.
     run_steps [cw_map 2, cw_unsigned 0, cw_bytes (mg_left merge), cw_unsigned 1, cw_bytes (mg_right merge)]) items)"

definition encode_specials :: "live_special_token list \<Rightarrow> nat list \<Rightarrow> hash_step" where
  "encode_specials items order = run_steps (map (\<lambda>index.
     run_steps [cw_map 2,
       cw_unsigned 0, cw_text (st_role (items ! index)),
       cw_unsigned 1, cw_unsigned (st_token_id (items ! index))]) order)"

definition build_tokenizer_component :: "live_tokenizer \<Rightarrow> live_status + digest" where
  "build_tokenizer_component tokenizer =
     (let token_count = view_count (tz_tokens tokenizer); merge_count = view_count (tz_merges tokenizer) in
      case collect_artifacts (tz_artifacts tokenizer) 64 incomplete_tokenizer ambiguous_tokenizer of
        Inl st \<Rightarrow> Inl st
      | Inr artifacts \<Rightarrow>
          if view_null (tz_tokens tokenizer) \<or> token_count = 0 \<or> token_count > 4 * 1024 * 1024 \<or>
             (view_null (tz_merges tokenizer) \<and> merge_count \<noteq> 0) \<or> merge_count > 4 * 1024 * 1024 \<or>
             (view_null (tz_special_tokens tokenizer) \<and> view_count (tz_special_tokens tokenizer) \<noteq> 0)
          then Inl incomplete_tokenizer
          else (case token_plan (tz_tokens tokenizer) of
            Inl st \<Rightarrow> Inl st
          | Inr token_order \<Rightarrow>
              (case merge_check (tz_merges tokenizer) of
                 Some st \<Rightarrow> Inl st
               | None \<Rightarrow>
                   (case special_plan token_count (tz_special_tokens tokenizer) of
                      Inl st \<Rightarrow> Inl st
                    | Inr special_order \<Rightarrow>
                        (case policy_plan (tz_policy tokenizer) of
                           Inl st \<Rightarrow> Inl st
                         | Inr policy_order \<Rightarrow>
                             write_component 2 (run_steps [cw_map 5,
                               cw_unsigned 0, encode_artifacts (tz_artifacts tokenizer) artifacts,
                               cw_unsigned 1, cw_array (length token_order),
                               encode_tokens (view_items (tz_tokens tokenizer)) token_order,
                               cw_unsigned 2, cw_array merge_count,
                               encode_merges (view_items (tz_merges tokenizer)),
                               cw_unsigned 3, cw_array (length special_order),
                               encode_specials (view_items (tz_special_tokens tokenizer)) special_order,
                               cw_unsigned 4, encode_parameters (tz_policy tokenizer) policy_order]))))))"

definition build_chat_template_component :: "live_chat_template \<Rightarrow> live_status + digest" where
  "build_chat_template_component chat =
     (if ch_effective_candidate_count chat \<noteq> 1 then Inl ambiguous_template_selection
      else if \<not> nonempty_bytes (ch_exact_template_bytes chat) \<or> \<not> valid_text (ch_renderer_id chat) 128 \<or>
              placeholder_text (ch_renderer_id chat) \<or> \<not> nonempty_bytes (ch_renderer_executable_bytes chat)
      then Inl incomplete_template_identity
      else case (hash_exact_bytes (ch_exact_template_bytes chat), hash_exact_bytes (ch_renderer_executable_bytes chat)) of
        (Some template_digest, Some renderer_digest) \<Rightarrow>
          write_component 3 (run_steps [cw_map 4,
            cw_unsigned 0, cw_unsigned (of_nat (span_size (ch_exact_template_bytes chat))),
            cw_unsigned 1, cw_digest template_digest,
            cw_unsigned 2, cw_text (ch_renderer_id chat),
            cw_unsigned 3, cw_digest renderer_digest])
      | _ \<Rightarrow> Inl incomplete_template_identity)"

definition framed_digest :: "hash_step list \<Rightarrow> digest option" where
  "framed_digest steps = Option.bind (run_steps steps (hash_start hash_maximum)) hash_finish"

definition framed_source_identity :: "live_runtime \<Rightarrow> digest option" where
  "framed_source_identity runtime =
     (if span_size (rt_source_revision runtime) > 65535 then None
      else framed_digest [hash_update (Span (domain_bytes ''halofpx.source-tree.v1'')),
        hash_uint16_be (of_nat (span_size (rt_source_revision runtime))), hash_update (rt_source_revision runtime),
        hash_uint64_be (of_nat (span_size (rt_source_tree_manifest runtime))), hash_update (rt_source_tree_manifest runtime),
        hash_byte (if rt_source_is_dirty runtime then 1 else 0),
        hash_uint64_be (of_nat (span_size (rt_dirty_tree_manifest runtime))), hash_update (rt_dirty_tree_manifest runtime)])"

definition build_runtime_component :: "live_runtime \<Rightarrow> live_status + digest" where
  "build_runtime_component runtime =
     (if \<not> valid_text (rt_source_revision runtime) 128 \<or> mutable_source_revision (rt_source_revision runtime) \<or>
         \<not> nonempty_bytes (rt_source_tree_manifest runtime) \<or>
         \<not> valid_text (rt_toolchain_id runtime) 128 \<or> placeholder_text (rt_toolchain_id runtime) \<or>
         \<not> valid_text (rt_state_abi_id runtime) 128 \<or> placeholder_text (rt_state_abi_id runtime)
      then Inl incomplete_build_abi
      else if \<not> rt_source_is_immutable runtime \<or>
              (rt_source_is_dirty runtime \<and> \<not> nonempty_bytes (rt_dirty_tree_manifest runtime)) \<or>
              (\<not> rt_source_is_dirty runtime \<and> span_size (rt_dirty_tree_manifest runtime) \<noteq> 0) \<or>
              \<not> valid_bytes (rt_dirty_tree_manifest runtime)
      then Inl mutable_build_identity
      else case collect_artifacts (rt_artifacts runtime) 1024 incomplete_build_abi incomplete_build_abi of
        Inl st \<Rightarrow> Inl incomplete_build_abi
      | Inr artifacts \<Rightarrow>
          if as_order artifacts = [] \<or>
             \<not> text_equal_literal (la_role (view_items (rt_artifacts runtime) ! hd (as_order artifacts))) ''executable''
          then Inl incomplete_build_abi
          else (case collect_parameters (rt_build_options runtime) True of
            Inl st \<Rightarrow> Inl incomplete_build_abi
          | Inr option_order \<Rightarrow>
              (case framed_source_identity runtime of
                 None \<Rightarrow> Inl incomplete_build_abi
               | Some source_identity \<Rightarrow>
                   write_component 6 (run_steps [cw_map 5,
                     cw_unsigned 0, cw_digest source_identity,
                     cw_unsigned 1, encode_artifacts (rt_artifacts runtime) artifacts,
                     cw_unsigned 2, cw_text (rt_toolchain_id runtime),
                     cw_unsigned 3, encode_parameters (rt_build_options runtime) option_order,
                     cw_unsigned 4, cw_text (rt_state_abi_id runtime)]))))"

subsection \<open>The topology component\<close>

definition framed_global_plan :: "byte_span \<Rightarrow> digest option" where
  "framed_global_plan plan =
     framed_digest [hash_update (Span (domain_bytes ''halofpx.global-plan.v1'')),
       hash_uint64_be (of_nat (span_size plan)), hash_update plan]"

definition framed_rank_ownership :: "live_rank \<Rightarrow> digest option" where
  "framed_rank_ownership rank =
     framed_digest [hash_update (Span (domain_bytes ''halofpx.rank-ownership.v1'')),
       hash_uint32_be (rk_logical_rank rank),
       hash_uint64_be (of_nat (span_size (rk_ownership_plan rank))), hash_update (rk_ownership_plan rank)]"

definition framed_rank_placement :: "live_rank \<Rightarrow> digest option" where
  "framed_rank_placement rank =
     (if span_size (rk_stable_endpoint_id rank) > 65535 \<or> span_size (rk_stable_device_id rank) > 65535 then None
      else framed_digest [hash_update (Span (domain_bytes ''halofpx.rank-placement.v1'')),
        hash_uint32_be (rk_logical_rank rank),
        hash_uint16_be (of_nat (span_size (rk_stable_endpoint_id rank))), hash_update (rk_stable_endpoint_id rank),
        hash_uint16_be (of_nat (span_size (rk_stable_device_id rank))), hash_update (rk_stable_device_id rank),
        hash_uint64_be (of_nat (span_size (rk_placement_plan rank))), hash_update (rk_placement_plan rank)])"

record rank_facts =
  rf_raw :: "digest list"
  rf_ownership :: "digest list"
  rf_placement :: "digest list"

definition rank_acceptable :: "nat \<Rightarrow> live_rank \<Rightarrow> bool" where
  "rank_acceptable index rank \<longleftrightarrow> unat (rk_logical_rank rank) = index \<and>
     valid_text (rk_stable_endpoint_id rank) 128 \<and> \<not> placeholder_text (rk_stable_endpoint_id rank) \<and>
     valid_text (rk_stable_device_id rank) 128 \<and> \<not> placeholder_text (rk_stable_device_id rank) \<and>
     nonempty_bytes (rk_ownership_plan rank) \<and> nonempty_bytes (rk_placement_plan rank)"

fun collect_ranks :: "live_rank list \<Rightarrow> live_rank list \<Rightarrow> rank_facts \<Rightarrow> rank_facts option" where
  "collect_ranks prior [] facts = Some facts"
| "collect_ranks prior (rank # rest) facts =
     (if \<not> rank_acceptable (length prior) rank then None
      else case (hash_exact_bytes (rk_ownership_plan rank), hash_exact_bytes (rk_placement_plan rank)) of
        (Some raw_ownership, Some raw_placement) \<Rightarrow>
          if list_ex (\<lambda>p. text_equal (rk_stable_endpoint_id p) (rk_stable_endpoint_id rank) \<or>
               text_equal (rk_stable_device_id p) (rk_stable_device_id rank)) prior then None
          else (case (framed_rank_ownership rank, framed_rank_placement rank) of
            (Some ownership, Some placement) \<Rightarrow>
              collect_ranks (prior @ [rank]) rest
                \<lparr>rf_raw = rf_raw facts @ [raw_ownership, raw_placement],
                 rf_ownership = rf_ownership facts @ [ownership], rf_placement = rf_placement facts @ [placement]\<rparr>
          | _ \<Rightarrow> None)
      | _ \<Rightarrow> None)"

definition pair_equal :: "'a list \<Rightarrow> bool" where
  "pair_equal xs \<longleftrightarrow> list_ex (\<lambda>left. list_ex (\<lambda>right. xs ! left = xs ! right) [left + 1..<length xs]) [0..<length xs]"

definition build_topology_component :: "live_topology \<Rightarrow> live_status + digest" where
  "build_topology_component topology =
     (if \<not> valid_text (tp_plan_schema_id topology) 128 \<or> placeholder_text (tp_plan_schema_id topology) \<or>
         \<not> valid_text (tp_execution_mode_id topology) 128 \<or> placeholder_text (tp_execution_mode_id topology) \<or>
         tp_world_size topology \<noteq> 2 \<or> view_count (tp_ranks topology) \<noteq> 2 \<or> view_null (tp_ranks topology) \<or>
         tp_stable_topology_epoch topology = 0 \<or> \<not> nonempty_bytes (tp_global_plan topology)
      then Inl incomplete_topology
      else case hash_exact_bytes (tp_global_plan topology) of
        None \<Rightarrow> Inl incomplete_topology
      | Some raw_global \<Rightarrow>
          (case collect_ranks [] (view_items (tp_ranks topology)) \<lparr>rf_raw = [raw_global], rf_ownership = [], rf_placement = []\<rparr> of
             None \<Rightarrow> Inl ambiguous_rank_plan
           | Some facts \<Rightarrow>
               if pair_equal (rf_raw facts) then Inl placeholder_equal_facts
               else (case framed_global_plan (tp_global_plan topology) of
                 None \<Rightarrow> Inl incomplete_topology
               | Some global_plan \<Rightarrow>
                   write_component 14 (run_steps [cw_map 1, cw_unsigned 0, cw_map 6,
                     cw_unsigned 0, cw_text (tp_plan_schema_id topology),
                     cw_unsigned 1, cw_text (tp_execution_mode_id topology),
                     cw_unsigned 2, cw_unsigned (ucast (tp_world_size topology)),
                     cw_unsigned 3, cw_digest global_plan,
                     cw_unsigned 4, cw_unsigned (tp_stable_topology_epoch topology),
                     cw_unsigned 5, cw_array (view_count (tp_ranks topology)),
                     run_steps (map (\<lambda>index.
                       run_steps [cw_map 3,
                         cw_unsigned 0, cw_unsigned (ucast (rk_logical_rank (view_items (tp_ranks topology) ! index))),
                         cw_unsigned 1, cw_digest (rf_ownership facts ! index),
                         cw_unsigned 2, cw_digest (rf_placement facts ! index)])
                       [0..<view_count (tp_ranks topology)])]))))"

subsection \<open>The supplements\<close>

type_synonym supplement_validator = "nat \<Rightarrow> byte_span \<Rightarrow> bool"

definition is_derived_component :: "nat \<Rightarrow> bool" where
  "is_derived_component index \<longleftrightarrow> index \<in> set [0, 1, 2, 3, 6, 14]"

definition supplement_refused :: "byte_span \<Rightarrow> bool" where
  "supplement_refused preimage \<longleftrightarrow> \<not> nonempty_bytes preimage \<or> span_size preimage > unat component_preimage_max \<or>
     hd (span_bytes preimage) AND 0xe0 \<noteq> 0xa0 \<or> hd (span_bytes preimage) = 0xbf"

fun map_supplements ::
    "supplement_validator \<Rightarrow> live_supplement list \<Rightarrow> digest list \<Rightarrow> live_supplement option list \<Rightarrow>
     live_status + live_supplement option list" where
  "map_supplements validator [] raw_digests mapped = Inr mapped"
| "map_supplements validator (supplement # rest) raw_digests mapped =
     (if sp_component_index supplement \<ge> length mapped \<or> is_derived_component (sp_component_index supplement)
      then Inl invalid_component_preimage
      else if mapped ! sp_component_index supplement \<noteq> None then Inl duplicate_component_preimage
      else if supplement_refused (sp_exact_preimage supplement) then Inl invalid_component_preimage
      else case hash_exact_bytes (sp_exact_preimage supplement) of
        None \<Rightarrow> Inl invalid_component_preimage
      | Some raw \<Rightarrow>
          if \<not> validator (sp_component_index supplement) (sp_exact_preimage supplement)
          then Inl unvalidated_component_preimage
          else if list_ex (\<lambda>prior. prior = raw) raw_digests then Inl placeholder_equal_facts
          else map_supplements validator rest (raw_digests @ [raw]) (mapped[sp_component_index supplement := Some supplement]))"

definition collect_supplements :: "live_inputs \<Rightarrow> supplement_validator \<Rightarrow> live_status + live_supplement option list" where
  "collect_supplements inputs validator =
     (if view_count (li_supplements inputs) \<noteq> 10 \<or> view_null (li_supplements inputs) then Inl missing_component_preimage
      else case map_supplements validator (view_items (li_supplements inputs)) [] (replicate 16 None) of
        Inl st \<Rightarrow> Inl st
      | Inr mapped \<Rightarrow>
          if list_ex (\<lambda>index. \<not> is_derived_component index \<and> mapped ! index = None) [0..<length mapped]
          then Inl missing_component_preimage
          else Inr mapped)"

definition build_supplement_component :: "live_supplement \<Rightarrow> live_status + digest" where
  "build_supplement_component supplement =
     write_component (sp_component_index supplement) (hash_update (sp_exact_preimage supplement))"

fun build_supplements :: "live_supplement option list \<Rightarrow> nat list \<Rightarrow> digest list \<Rightarrow> (live_status \<times> nat) + digest list" where
  "build_supplements supplements [] components = Inr components"
| "build_supplements supplements (index # rest) components =
     (if is_derived_component index then build_supplements supplements rest components
      else case build_supplement_component (the (supplements ! index)) of
        Inl st \<Rightarrow> Inl (st, index)
      | Inr d \<Rightarrow> build_supplements supplements rest (components[index := d]))"

subsection \<open>The authority\<close>

fun first_conflict :: "(live_status \<times> nat) option list \<Rightarrow> (live_status \<times> nat) option" where
  "first_conflict [] = None"
| "first_conflict (None # rest) = first_conflict rest"
| "first_conflict (Some found # rest) = Some found"

definition component_conflict :: "digest list \<Rightarrow> (live_status \<times> nat) option" where
  "component_conflict components =
     first_conflict (concat (map (\<lambda>left.
       (if \<not> nonzero (components ! left) then Some (canonicalization_failed, left) else None) #
       map (\<lambda>right. if components ! left = components ! right then Some (placeholder_equal_facts, right) else None)
         [left + 1..<length components]) [0..<length components]))"

definition derived_digests :: "live_inputs \<Rightarrow> (live_status \<times> nat) + digest list" where
  "derived_digests inputs =
     (let components = replicate 16 zero_digest in
      case build_model_bytes_component (li_model inputs) of
        Inl current \<Rightarrow> Inl (current, 0)
      | Inr d0 \<Rightarrow>
     (case build_model_metadata_component (li_model inputs) of
        Inl current \<Rightarrow> Inl (current, 1)
      | Inr d1 \<Rightarrow>
     (case build_tokenizer_component (li_tokenizer inputs) of
        Inl current \<Rightarrow> Inl (current, 2)
      | Inr d2 \<Rightarrow>
     (case build_chat_template_component (li_chat_template inputs) of
        Inl current \<Rightarrow> Inl (current, 3)
      | Inr d3 \<Rightarrow>
     (case build_runtime_component (li_runtime inputs) of
        Inl current \<Rightarrow> Inl (current, 6)
      | Inr d6 \<Rightarrow>
     (case build_topology_component (li_topology inputs) of
        Inl current \<Rightarrow> Inl (current, 14)
      | Inr d14 \<Rightarrow> Inr (components[0 := d0, 1 := d1, 2 := d2, 3 := d3, 6 := d6, 14 := d14])))))))"

definition build_impl :: "live_inputs \<Rightarrow> supplement_validator \<Rightarrow> live_result" where
  "build_impl inputs validator =
     (case derived_digests inputs of
        Inl (current, component) \<Rightarrow> live_failure current component
      | Inr components \<Rightarrow>
     (case collect_supplements inputs validator of
        Inl current \<Rightarrow> live_failure current 16
      | Inr supplements \<Rightarrow>
     (case build_supplements supplements [0..<16] components of
        Inl (current, component) \<Rightarrow> live_failure current component
      | Inr components \<Rightarrow>
     (case component_conflict components of
        Some (current, component) \<Rightarrow> live_failure current component
      | None \<Rightarrow>
          (let closed = map (\<lambda>index. \<lparr>cd_label = Span (the (component_label index)), cd_digest = components ! index\<rparr>) [0..<16];
               built = build_compatibility_expectation (Some closed) 16 in
           if br_status built \<noteq> compat_built then live_failure compatibility_build_failed 16
           else \<lparr>lr_status = live_built, lr_failure_component = 16, lr_expectation = br_expectation built\<rparr>)))))"

definition context_store_build_live_authority :: "live_inputs \<Rightarrow> supplement_validator \<Rightarrow> bool \<Rightarrow> live_result" where
  "context_store_build_live_authority inputs validator allocation_throws =
     (if allocation_throws then live_failure canonicalization_failed 16 else build_impl inputs validator)"

fun live_status_name :: "live_status \<Rightarrow> string" where
  "live_status_name live_built = ''built''"
| "live_status_name live_invalid_input = ''invalid-input''"
| "live_status_name missing_model_artifact = ''missing-model-artifact''"
| "live_status_name ambiguous_shard_plan = ''ambiguous-shard-plan''"
| "live_status_name incomplete_typed_model_semantics = ''incomplete-typed-model-semantics''"
| "live_status_name ambiguous_model_semantics = ''ambiguous-model-semantics''"
| "live_status_name incomplete_tokenizer = ''incomplete-tokenizer''"
| "live_status_name ambiguous_tokenizer = ''ambiguous-tokenizer''"
| "live_status_name ambiguous_template_selection = ''ambiguous-template-selection''"
| "live_status_name incomplete_template_identity = ''incomplete-template-identity''"
| "live_status_name incomplete_build_abi = ''incomplete-build-abi''"
| "live_status_name mutable_build_identity = ''mutable-build-identity''"
| "live_status_name incomplete_topology = ''incomplete-topology''"
| "live_status_name ambiguous_rank_plan = ''ambiguous-rank-plan''"
| "live_status_name missing_component_preimage = ''missing-component-preimage''"
| "live_status_name duplicate_component_preimage = ''duplicate-component-preimage''"
| "live_status_name invalid_component_preimage = ''invalid-component-preimage''"
| "live_status_name unvalidated_component_preimage = ''unvalidated-component-preimage''"
| "live_status_name placeholder_equal_facts = ''placeholder-equal-facts''"
| "live_status_name canonicalization_failed = ''canonicalization-failed''"
| "live_status_name compatibility_build_failed = ''compatibility-build-failed''"

end
