(* ===== verification/Live_Components.thy ===== *)
theory Live_Components
  imports Live_Authority
begin

text \<open>
  The six derived components of the live authority: for each, the condition under which its builder
  succeeds and the bytes it then hashes, in terms of the sorted facts instead of index vectors and
  writer calls. Duplicate searches over sorted indices become distinctness of the sorted key.
\<close>

subsection \<open>Component messages\<close>

definition component_prefix :: "nat \<Rightarrow> byte list" where
  "component_prefix index = component_domain @ be_bytes 2 (of_nat (length (compatibility_labels ! index))) @
     compatibility_labels ! index"

definition written :: "nat \<Rightarrow> byte list \<Rightarrow> digest \<Rightarrow> bool" where
  "written index body d \<longleftrightarrow> length (component_prefix index @ body) \<le> unat component_preimage_max \<and>
     d = sha256 (component_prefix index @ body) \<and> nonzero d"

lemma labels_short: "index < 16 \<Longrightarrow> length (compatibility_labels ! index) \<le> 65535"
proof -
  have "\<forall>l \<in> set compatibility_labels. length l \<le> 65535" by (simp add: compatibility_labels_def ascii_bytes_def)
  then show "index < 16 \<Longrightarrow> length (compatibility_labels ! index) \<le> 65535"
    using nth_mem [of index compatibility_labels] by (simp add: compatibility_labels_facts del: nth_mem)
qed

lemma narrow16: "(ucast (of_nat n :: u64) :: 16 word) = of_nat n"
  by (simp add: word_unat_eq_iff unsigned_ucast_eq unsigned_of_nat)

lemma write_component_iff:
  assumes "index < 16" "hashes f body"
  shows "write_component index f = Inr d \<longleftrightarrow> written index body d"
proof -
  let ?label = "compatibility_labels ! index"
  have sixteen: "hashes (hash_uint16_be (of_nat (length ?label))) (be_bytes 2 (of_nat (length ?label)))"
    using hashes_integers(2) [of "of_nat (length ?label)"] by (simp add: narrow16)
  have "hashes (run_steps [hash_update (Span component_domain), hash_uint16_be (of_nat (length ?label)), hash_update (Span ?label)])
      (component_prefix index)"
    unfolding component_prefix_def by (rule hashes_single sixteen hashes_intros)+
  then have "hashes (\<lambda>h. Option.bind (run_steps [hash_update (Span component_domain), hash_uint16_be (of_nat (length ?label)),
        hash_update (Span ?label)] h) f) (component_prefix index @ body)"
    using assms(2) by (auto simp: hashes_def simp del: run_steps.simps)
  from hash_message [OF this, of component_preimage_max] show ?thesis
    using assms(1) labels_short [OF assms(1)]
    by (auto simp: write_component_def component_cbor_writer_def component_label_def compatibility_labels_facts written_def
      simp del: run_steps.simps)
qed

lemma framed_digest_iff:
  "hashes (run_steps steps) out \<Longrightarrow> framed_digest steps = Some d \<longleftrightarrow>
     length out \<le> unat hash_maximum \<and> d = sha256 out \<and> nonzero d"
  unfolding framed_digest_def using hash_message [of "run_steps steps" out hash_maximum] by auto

subsection \<open>Artifacts\<close>

definition artifact_order :: "live_artifact \<Rightarrow> live_artifact \<Rightarrow> bool" where
  "artifact_order l r \<longleftrightarrow> la_semantic_order l < la_semantic_order r"

definition artifact_ok :: "live_artifact \<Rightarrow> bool" where
  "artifact_ok a \<longleftrightarrow> valid_text (la_role a) 128 \<and> \<not> placeholder_text (la_role a) \<and> nonempty_bytes (la_exact_bytes a) \<and>
     nonzero (sha256 (span_bytes (la_exact_bytes a)))"

definition artifacts_ok :: "nat \<Rightarrow> live_artifact array_view \<Rightarrow> bool" where
  "artifacts_ok maximum v \<longleftrightarrow> \<not> view_null v \<and> view_count v \<noteq> 0 \<and> view_count v \<le> maximum \<and>
     list_all artifact_ok (view_items v) \<and> distinct (map la_semantic_order (view_items v)) \<and>
     distinct (map (span_bytes \<circ> la_role) (view_items v)) \<and>
     map la_semantic_order (sort_by artifact_order (view_items v)) = map of_nat [0..<view_count v]"

definition artifact_bytes :: "live_artifact \<Rightarrow> byte list" where
  "artifact_bytes a = cbor_map 4 @ cbor_head 0 0 @ cbor_text (span_bytes (la_role a)) @
     cbor_head 0 1 @ cbor_head 0 (la_semantic_order a) @
     cbor_head 0 2 @ cbor_head 0 (of_nat (span_size (la_exact_bytes a))) @
     cbor_head 0 3 @ cbor_bytes (sha256 (span_bytes (la_exact_bytes a)))"

definition artifacts_bytes :: "live_artifact array_view \<Rightarrow> byte list" where
  "artifacts_bytes v = cbor_array (view_count v) @ concat (map artifact_bytes (sort_by artifact_order (view_items v)))"

lemma valid_text_bytes: "valid_text t n \<Longrightarrow> valid_bytes t" "valid_text t n \<Longrightarrow> \<not> span_null t" "valid_text t n \<Longrightarrow> span_size t \<le> n"
  by (auto simp: valid_text_def valid_bytes_def)

lemma nonempty_bytes_valid: "nonempty_bytes t \<Longrightarrow> valid_bytes t" "nonempty_bytes t \<Longrightarrow> span_size t \<le> unat hash_maximum"
  by (auto simp: nonempty_bytes_def valid_bytes_def)

lemma hash_nonempty:
  "nonempty_bytes t \<Longrightarrow> hash_exact_bytes t = Some d \<longleftrightarrow> d = sha256 (span_bytes t) \<and> nonzero (sha256 (span_bytes t))"
  by (auto simp: hash_exact_bytes_iff nonempty_bytes_valid)

lemma view_items_length: "\<not> view_null v \<Longrightarrow> length (view_items v) = view_count v"
  by (cases v) auto

lemma check_artifacts_iff:
  assumes "list_all artifact_ok prior" "distinct (map la_semantic_order prior)" "distinct (map (span_bytes \<circ> la_role) prior)"
  shows "check_artifacts m a prior xs = Inr ds \<longleftrightarrow> list_all artifact_ok xs \<and>
     distinct (map la_semantic_order (prior @ xs)) \<and> distinct (map (span_bytes \<circ> la_role) (prior @ xs)) \<and>
     ds = map (sha256 \<circ> span_bytes \<circ> la_exact_bytes) xs"
  using assms
proof (induction xs arbitrary: prior ds)
  case (Cons x xs)
  show ?case
  proof (cases "artifact_ok x")
    case True
    then have x: "hash_exact_bytes (la_exact_bytes x) = Some (sha256 (span_bytes (la_exact_bytes x)))"
      "valid_text (la_role x) 128" "\<not> placeholder_text (la_role x)" "nonempty_bytes (la_exact_bytes x)"
      by (auto simp: artifact_ok_def hash_nonempty)
    have eq: "text_equal (la_role p) (la_role x) \<longleftrightarrow> span_bytes (la_role p) = span_bytes (la_role x)" if "p \<in> set prior" for p
      using that Cons.prems(1) x(2) valid_text_bytes(2) by (intro text_equal_iff) (auto simp: list_all_iff artifact_ok_def)
    show ?thesis
    proof (cases "la_semantic_order x \<in> la_semantic_order ` set prior \<or> span_bytes (la_role x) \<in> span_bytes ` la_role ` set prior")
      case clash: True
      then have "list_ex (\<lambda>p. la_semantic_order p = la_semantic_order x \<or> text_equal (la_role p) (la_role x)) prior"
        using eq by (fastforce simp: list_ex_iff)
      then show ?thesis using x clash by auto
    next
      case False
      then have fresh: "\<not> list_ex (\<lambda>p. la_semantic_order p = la_semantic_order x \<or> text_equal (la_role p) (la_role x)) prior"
        using eq unfolding list_ex_iff by (metis image_eqI)
      have IH: "check_artifacts m a (prior @ [x]) xs = Inr es \<longleftrightarrow> list_all artifact_ok xs \<and>
          distinct (map la_semantic_order ((prior @ [x]) @ xs)) \<and> distinct (map (span_bytes \<circ> la_role) ((prior @ [x]) @ xs)) \<and>
          es = map (sha256 \<circ> span_bytes \<circ> la_exact_bytes) xs" for es
        using True False Cons.prems by (intro Cons.IH) auto
      have "check_artifacts m a prior (x # xs) = Inr ds \<longleftrightarrow>
          (\<exists>es. check_artifacts m a (prior @ [x]) xs = Inr es \<and> ds = sha256 (span_bytes (la_exact_bytes x)) # es)"
        by (cases "check_artifacts m a (prior @ [x]) xs") (simp_all add: x fresh, metis)
      moreover have "(prior @ [x]) @ xs = prior @ x # xs" by simp
      moreover have "list_all artifact_ok (x # xs) \<longleftrightarrow> list_all artifact_ok xs" using True by simp
      ultimately show ?thesis unfolding IH list.map comp_def by metis
    qed
  next
    case False
    then show ?thesis by (auto simp: artifact_ok_def hash_exact_bytes_iff split: option.splits)
  qed
qed auto

interpretation artifact_order: keyed_order "\<lambda>_. True" artifact_order la_semantic_order
  by unfold_locales (auto simp: artifact_order_def)

lemma collect_artifacts_iff:
  "collect_artifacts v maximum m a = Inr s \<longleftrightarrow> artifacts_ok maximum v \<and>
     as_order s = sort_by (\<lambda>l r. artifact_order (view_items v ! l) (view_items v ! r)) [0..<view_count v] \<and>
     as_digests s = map (sha256 \<circ> span_bytes \<circ> la_exact_bytes) (view_items v)"
proof (cases v)
  case (Array_View xs)
  let ?order = "sort_by (\<lambda>l r. artifact_order (xs ! l) (xs ! r)) [0..<length xs]"
  have order: "map (\<lambda>i. la_semantic_order (xs ! i)) ?order = map la_semantic_order (sort_by artifact_order xs)"
    using arg_cong [OF sort_indices [of xs artifact_order], of "map la_semantic_order"] by (simp add: comp_def)
  have len: "length ?order = length xs" by simp
  have "list_ex (\<lambda>i. la_semantic_order (xs ! (?order ! i)) \<noteq> of_nat i) [0..<length xs] \<longleftrightarrow>
      map la_semantic_order (sort_by artifact_order xs) \<noteq> map of_nat [0..<length xs]"
    unfolding order [symmetric] by (subst list_eq_iff_nth_eq) (auto simp: list_ex_iff)
  then have sorted: "list_ex (\<lambda>i. la_semantic_order (xs ! (sort_by (\<lambda>l r. la_semantic_order (xs ! l) < la_semantic_order (xs ! r))
      [0..<length xs] ! i)) \<noteq> of_nat i) [0..<length xs] \<longleftrightarrow>
      map la_semantic_order (sort_by artifact_order xs) \<noteq> map of_nat [0..<length xs]"
    by (simp add: artifact_order_def)
  have checked: "check_artifacts m a [] xs = Inr ds \<longleftrightarrow> list_all artifact_ok xs \<and> distinct (map la_semantic_order xs) \<and>
      distinct (map (span_bytes \<circ> la_role) xs) \<and> ds = map (sha256 \<circ> span_bytes \<circ> la_exact_bytes) xs" for ds
    using check_artifacts_iff [of "[]" m a xs ds] by simp
  show ?thesis
  proof (cases "check_artifacts m a [] xs")
    case (Inl st)
    then have "\<not> artifacts_ok maximum v"
      using checked [of "map (sha256 \<circ> span_bytes \<circ> la_exact_bytes) xs"] by (auto simp: artifacts_ok_def Array_View)
    moreover have "collect_artifacts v maximum m a \<noteq> Inr s"
      unfolding collect_artifacts_def Let_def Array_View view_count.simps view_items.simps view_null.simps Inl sum.case by simp
    ultimately show ?thesis by simp
  next
    case (Inr ds)
    have "collect_artifacts v maximum m a = (if xs = [] \<or> maximum < length xs then Inl m
        else if map la_semantic_order (sort_by artifact_order xs) \<noteq> map of_nat [0..<length xs] then Inl a
        else Inr \<lparr>as_order = sort_by (\<lambda>l r. artifact_order (xs ! l) (xs ! r)) [0..<length xs], as_digests = ds\<rparr>)"
      unfolding collect_artifacts_def Let_def Array_View view_count.simps view_items.simps view_null.simps Inr sum.case sorted
      by (simp add: artifact_order_def)
    moreover have "s = \<lparr>as_order = o1, as_digests = d1\<rparr> \<longleftrightarrow> as_order s = o1 \<and> as_digests s = d1" for o1 d1 by auto
    ultimately show ?thesis using checked [of ds] Inr by (auto simp: artifacts_ok_def Array_View)
  qed
qed (simp add: collect_artifacts_def artifacts_ok_def)

lemma hashes_artifacts:
  assumes "artifacts_ok maximum v" "collect_artifacts v maximum m a = Inr s"
  shows "hashes (encode_artifacts v s) (artifacts_bytes v)"
proof -
  let ?xs = "view_items v"
  let ?order = "sort_by (\<lambda>l r. artifact_order (?xs ! l) (?xs ! r)) [0..<length ?xs]"
  have s: "as_order s = ?order" "as_digests s = map (sha256 \<circ> span_bytes \<circ> la_exact_bytes) ?xs"
    and n: "view_count v = length ?xs"
    using assms view_items_length [of v] by (simp_all add: collect_artifacts_iff artifacts_ok_def)
  have one: "hashes (let artifact = ?xs ! i in
          run_steps [cw_map 4,
            cw_unsigned 0, cw_text (la_role artifact),
            cw_unsigned 1, cw_unsigned (la_semantic_order artifact),
            cw_unsigned 2, cw_unsigned (of_nat (span_size (la_exact_bytes artifact))),
            cw_unsigned 3, cw_digest (as_digests s ! i)]) (artifact_bytes (?xs ! i))"
    if "i \<in> set ?order" for i
  proof -
    have i: "i < length ?xs" using that by simp
    then have "artifact_ok (?xs ! i)" using assms(1) by (simp add: artifacts_ok_def list_all_length)
    then have role: "valid_bytes (la_role (?xs ! i))" by (auto simp: artifact_ok_def valid_text_bytes)
    have d: "as_digests s ! i = sha256 (span_bytes (la_exact_bytes (?xs ! i)))" using i by (simp add: s)
    show ?thesis
      unfolding Let_def d artifact_bytes_def by (rule role hashes_single hashes_intros)+
  qed
  have "concat (map artifact_bytes (sort_by artifact_order ?xs)) = concat (map (\<lambda>i. artifact_bytes (?xs ! i)) ?order)"
    using arg_cong [OF sort_indices [of ?xs artifact_order], of "map artifact_bytes"] by (simp add: comp_def)
  then have body: "artifacts_bytes v = cbor_array (length ?order) @ concat (map (\<lambda>i. artifact_bytes (?xs ! i)) ?order)"
    by (simp add: artifacts_bytes_def n)
  show ?thesis
    unfolding encode_artifacts_def body s(1) by (rule hashes_map one hashes_single hashes_intros | assumption)+
qed

subsection \<open>Lists sorted by a text\<close>

text \<open>
  Parameters, metadata and special tokens are all checked one by one, sorted by a text and searched
  for an adjacent repetition.
\<close>

definition by_text :: "('a \<Rightarrow> byte_span) \<Rightarrow> 'a \<Rightarrow> 'a \<Rightarrow> bool" where
  "by_text f l r \<longleftrightarrow> canonical_text_less (f l) (f r)"

interpretation by_text: keyed_order "\<lambda>x. \<not> span_null (f x)" "by_text f" "\<lambda>x. span_bytes (f x)" for f :: "'a \<Rightarrow> byte_span"
  by unfold_locales
    (auto simp: by_text_def dest: text_order.precedes_linear text_order.precedes_key intro: text_order.precedes_trans)

lemma adjacent_texts:
  assumes "\<forall>x \<in> set xs. \<not> span_null (f x)"
  shows "adjacent (\<lambda>prior current. text_equal (f (xs ! prior)) (f (xs ! current)))
      (sort_by (\<lambda>l r. canonical_text_less (f (xs ! l)) (f (xs ! r))) [0..<length xs]) \<longleftrightarrow>
    \<not> distinct (map (\<lambda>x. span_bytes (f x)) xs)"
proof -
  have "adjacent (\<lambda>prior current. text_equal (f (xs ! prior)) (f (xs ! current)))
      (sort_by (\<lambda>l r. by_text f (xs ! l) (xs ! r)) [0..<length xs]) \<longleftrightarrow>
      adjacent (\<lambda>x y. text_equal (f x) (f y)) (sort_by (by_text f) xs)"
    using adjacent_map [of "\<lambda>x y. text_equal (f x) (f y)" "(!) xs"] sort_indices [of xs "by_text f"] by simp
  also have "\<dots> \<longleftrightarrow> \<not> distinct (map (\<lambda>x. span_bytes (f x)) xs)"
    using assms by (intro by_text.adjacent_distinct) (auto simp: list_all_iff text_equal_iff)
  finally show ?thesis by (simp add: by_text_def)
qed

lemma concat_indices:
  "concat (map (\<lambda>i. g (xs ! i)) (sort_by (\<lambda>l r. canonical_text_less (f (xs ! l)) (f (xs ! r))) [0..<length xs])) =
     concat (map g (sort_by (by_text f) xs))"
  using arg_cong [OF sort_indices [of xs "by_text f"], of "map g"] by (simp add: comp_def by_text_def)

lemma view_length: "\<not> (view_null v \<and> view_count v \<noteq> 0) \<Longrightarrow> view_count v = length (view_items v)"
  by (cases v) auto

subsection \<open>Parameters\<close>

definition parameters_ok :: "live_parameter array_view \<Rightarrow> bool" where
  "parameters_ok v \<longleftrightarrow> \<not> view_null v \<and> view_count v \<noteq> 0 \<and> view_count v \<le> 65535 \<and>
     list_all parameter_acceptable (view_items v) \<and> distinct (map (\<lambda>p. span_bytes (lp_id p)) (view_items v))"

definition parameter_bytes :: "live_parameter \<Rightarrow> byte list" where
  "parameter_bytes p = cbor_map 2 @ cbor_head 0 0 @ cbor_text (span_bytes (lp_id p)) @ cbor_head 0 1 @ value_bytes (lp_value p)"

definition parameters_bytes :: "live_parameter array_view \<Rightarrow> byte list" where
  "parameters_bytes v = cbor_array (view_count v) @ concat (map parameter_bytes (sort_by (by_text lp_id) (view_items v)))"

lemma parameter_acceptable_facts:
  "parameter_acceptable p \<Longrightarrow> \<not> span_null (lp_id p)" "parameter_acceptable p \<Longrightarrow> valid_bytes (lp_id p)"
  "parameter_acceptable p \<Longrightarrow> good_value (lp_value p)"
  by (auto simp: parameter_acceptable_def valid_text_bytes dest: validate_good)

lemma not_list_ex: "\<not> list_ex (\<lambda>x. \<not> P x) xs \<longleftrightarrow> list_all P xs"
  by (auto simp: list_ex_iff list_all_iff)

lemma collect_parameters_iff:
  "collect_parameters v True = Inr order \<longleftrightarrow> parameters_ok v \<and>
     order = sort_by (\<lambda>l r. canonical_text_less (lp_id (view_items v ! l)) (lp_id (view_items v ! r))) [0..<view_count v]"
proof (cases v)
  case (Array_View xs)
  have adj: "list_all parameter_acceptable xs \<Longrightarrow>
      adjacent (\<lambda>prior current. text_equal (lp_id (xs ! prior)) (lp_id (xs ! current)))
        (sort_by (\<lambda>l r. canonical_text_less (lp_id (xs ! l)) (lp_id (xs ! r))) [0..<length xs]) \<longleftrightarrow>
      \<not> distinct (map (\<lambda>p. span_bytes (lp_id p)) xs)"
    by (intro adjacent_texts) (auto simp: list_all_iff parameter_acceptable_facts)
  show ?thesis
    unfolding collect_parameters_def parameters_ok_def Let_def not_list_ex [symmetric]
    using adj unfolding not_list_ex [symmetric] by (auto simp: Array_View)
qed (auto simp: collect_parameters_def parameters_ok_def)

lemma hashes_parameters:
  assumes "parameters_ok v" "collect_parameters v True = Inr order"
  shows "hashes (encode_parameters v order) (parameters_bytes v)"
proof -
  let ?xs = "view_items v"
  have n: "view_count v = length ?xs" and order: "order = sort_by (\<lambda>l r. canonical_text_less (lp_id (?xs ! l)) (lp_id (?xs ! r))) [0..<length ?xs]"
    using assms view_items_length [of v] by (simp_all add: collect_parameters_iff parameters_ok_def)
  have one: "hashes (run_steps [cw_map 2, cw_unsigned 0, cw_text (lp_id (?xs ! i)), cw_unsigned 1,
      encode_typed_value (lp_value (?xs ! i))]) (parameter_bytes (?xs ! i))" if "i \<in> set order" for i
  proof -
    have p: "parameter_acceptable (?xs ! i)" using that assms(1) by (simp add: order parameters_ok_def list_all_length)
    show ?thesis
      unfolding parameter_bytes_def by (rule parameter_acceptable_facts [OF p] hashes_single hashes_intros)+
  qed
  have body: "parameters_bytes v = cbor_array (length order) @ concat (map (\<lambda>i. parameter_bytes (?xs ! i)) order)"
    by (simp add: parameters_bytes_def n order concat_indices)
  show ?thesis
    unfolding encode_parameters_def body by (rule hashes_map one hashes_single hashes_intros | assumption)+
qed

subsection \<open>Metadata and special tokens\<close>

definition metadata_ok :: "live_metadata array_view \<Rightarrow> bool" where
  "metadata_ok v \<longleftrightarrow> list_all metadata_acceptable (view_items v) \<and> distinct (map (\<lambda>e. span_bytes (lm_key e)) (view_items v))"

definition metadata_bytes :: "live_metadata \<Rightarrow> byte list" where
  "metadata_bytes e = cbor_map 2 @ cbor_head 0 0 @ cbor_text (span_bytes (lm_key e)) @ cbor_head 0 1 @ value_bytes (lm_value e)"

definition metadata_body :: "live_metadata array_view \<Rightarrow> byte list" where
  "metadata_body v = concat (map metadata_bytes (sort_by (by_text lm_key) (view_items v)))"

lemma metadata_acceptable_facts:
  "metadata_acceptable p \<Longrightarrow> \<not> span_null (lm_key p)" "metadata_acceptable p \<Longrightarrow> valid_bytes (lm_key p)"
  "metadata_acceptable p \<Longrightarrow> good_value (lm_value p)"
  by (auto simp: metadata_acceptable_def valid_text_bytes dest: validate_good)

lemma metadata_plan_iff:
  assumes "\<not> view_null v"
  shows "metadata_plan v = Inr order \<longleftrightarrow> metadata_ok v \<and>
     order = sort_by (\<lambda>l r. canonical_text_less (lm_key (view_items v ! l)) (lm_key (view_items v ! r))) [0..<view_count v]"
proof -
  let ?xs = "view_items v"
  have adj: "list_all metadata_acceptable ?xs \<Longrightarrow>
      adjacent (\<lambda>prior current. text_equal (lm_key (?xs ! prior)) (lm_key (?xs ! current)))
        (sort_by (\<lambda>l r. canonical_text_less (lm_key (?xs ! l)) (lm_key (?xs ! r))) [0..<length ?xs]) \<longleftrightarrow>
      \<not> distinct (map (\<lambda>p. span_bytes (lm_key p)) ?xs)"
    by (intro adjacent_texts) (auto simp: list_all_iff metadata_acceptable_facts)
  show ?thesis
    unfolding metadata_plan_def metadata_ok_def Let_def not_list_ex [symmetric]
    using adj view_items_length [OF assms] unfolding not_list_ex [symmetric] by auto
qed

lemma hashes_metadata:
  assumes "\<not> view_null v" "metadata_plan v = Inr order"
  shows "hashes (encode_metadata (view_items v) order) (metadata_body v)" "length order = view_count v"
proof -
  let ?xs = "view_items v"
  have ok: "metadata_ok v" and order: "order = sort_by (\<lambda>l r. canonical_text_less (lm_key (?xs ! l)) (lm_key (?xs ! r))) [0..<length ?xs]"
    using assms view_items_length [of v] by (simp_all add: metadata_plan_iff)
  have one: "hashes (run_steps [cw_map 2, cw_unsigned 0, cw_text (lm_key (?xs ! i)), cw_unsigned 1,
      encode_typed_value (lm_value (?xs ! i))]) (metadata_bytes (?xs ! i))" if "i \<in> set order" for i
  proof -
    have p: "metadata_acceptable (?xs ! i)" using that ok by (simp add: order metadata_ok_def list_all_length)
    show ?thesis
      unfolding metadata_bytes_def by (rule metadata_acceptable_facts [OF p] hashes_single hashes_intros)+
  qed
  have body: "metadata_body v = concat (map (\<lambda>i. metadata_bytes (?xs ! i)) order)"
    by (simp add: metadata_body_def order concat_indices)
  show "hashes (encode_metadata ?xs order) (metadata_body v)"
    unfolding encode_metadata_def body by (rule hashes_map one | assumption)+
  show "length order = view_count v" using view_items_length [OF assms(1)] by (simp add: order)
qed

definition special_acceptable :: "live_special_token \<Rightarrow> bool" where
  "special_acceptable s \<longleftrightarrow> valid_text (st_role s) 128 \<and> \<not> placeholder_text (st_role s)"

definition specials_ok :: "nat \<Rightarrow> live_special_token array_view \<Rightarrow> bool" where
  "specials_ok token_count v \<longleftrightarrow> view_count v \<le> 65535 \<and> list_all special_acceptable (view_items v) \<and>
     distinct (map (\<lambda>e. span_bytes (st_role e)) (view_items v)) \<and>
     list_all (\<lambda>s. unat (st_token_id s) < token_count) (view_items v)"

definition special_bytes :: "live_special_token \<Rightarrow> byte list" where
  "special_bytes s = cbor_map 2 @ cbor_head 0 0 @ cbor_text (span_bytes (st_role s)) @ cbor_head 0 1 @ cbor_head 0 (st_token_id s)"

definition specials_body :: "live_special_token array_view \<Rightarrow> byte list" where
  "specials_body v = concat (map special_bytes (sort_by (by_text st_role) (view_items v)))"

lemma special_plan_iff:
  assumes "\<not> (view_null v \<and> view_count v \<noteq> 0)"
  shows "special_plan token_count v = Inr order \<longleftrightarrow> specials_ok token_count v \<and>
     order = sort_by (\<lambda>l r. canonical_text_less (st_role (view_items v ! l)) (st_role (view_items v ! r))) [0..<view_count v]"
proof -
  let ?xs = "view_items v"
  let ?order = "sort_by (\<lambda>l r. canonical_text_less (st_role (?xs ! l)) (st_role (?xs ! r))) [0..<length ?xs]"
  have adj: "list_all special_acceptable ?xs \<Longrightarrow>
      adjacent (\<lambda>prior current. text_equal (st_role (?xs ! prior)) (st_role (?xs ! current))) ?order \<longleftrightarrow>
      \<not> distinct (map (\<lambda>p. span_bytes (st_role p)) ?xs)"
    by (intro adjacent_texts) (auto simp: list_all_iff special_acceptable_def valid_text_bytes)
  have roles: "list_ex (\<lambda>s. \<not> valid_text (st_role s) 128 \<or> placeholder_text (st_role s)) ?xs \<longleftrightarrow> \<not> list_all special_acceptable ?xs"
    by (auto simp: list_ex_iff list_all_iff special_acceptable_def)
  have ids: "list_ex (\<lambda>i. token_count \<le> unat (st_token_id (?xs ! i))) ?order \<longleftrightarrow>
      \<not> list_all (\<lambda>s. unat (st_token_id s) < token_count) ?xs"
    by (auto simp: list_ex_iff list_all_length not_less)
  show ?thesis
    unfolding special_plan_def specials_ok_def Let_def roles view_length [OF assms] ids
    using adj by (cases "list_all special_acceptable ?xs") auto
qed

lemma hashes_specials:
  assumes "\<not> (view_null v \<and> view_count v \<noteq> 0)" "special_plan token_count v = Inr order"
  shows "hashes (encode_specials (view_items v) order) (specials_body v)" "length order = view_count v"
proof -
  let ?xs = "view_items v"
  have ok: "specials_ok token_count v" and order: "order = sort_by (\<lambda>l r. canonical_text_less (st_role (?xs ! l)) (st_role (?xs ! r))) [0..<length ?xs]"
    using assms view_length [OF assms(1)] by (simp_all add: special_plan_iff)
  have one: "hashes (run_steps [cw_map 2, cw_unsigned 0, cw_text (st_role (?xs ! i)), cw_unsigned 1,
      cw_unsigned (st_token_id (?xs ! i))]) (special_bytes (?xs ! i))" if "i \<in> set order" for i
  proof -
    have p: "valid_bytes (st_role (?xs ! i))"
      using that ok by (auto simp: order specials_ok_def list_all_length special_acceptable_def valid_text_bytes)
    show ?thesis
      unfolding special_bytes_def by (rule p hashes_single hashes_intros)+
  qed
  have body: "specials_body v = concat (map (\<lambda>i. special_bytes (?xs ! i)) order)"
    by (simp add: specials_body_def order concat_indices)
  show "hashes (encode_specials ?xs order) (specials_body v)"
    unfolding encode_specials_def body by (rule hashes_map one | assumption)+
  show "length order = view_count v" using view_length [OF assms(1)] by (simp add: order)
qed

subsection \<open>Tokens and merges\<close>

definition token_order :: "live_token \<Rightarrow> live_token \<Rightarrow> bool" where
  "token_order l r \<longleftrightarrow> tk_token_id l < tk_token_id r"

interpretation token_order: keyed_order "\<lambda>_. True" token_order tk_token_id
  by unfold_locales (auto simp: token_order_def)

definition tokens_ok :: "live_token array_view \<Rightarrow> bool" where
  "tokens_ok v \<longleftrightarrow> list_all token_acceptable (view_items v) \<and> distinct (map tk_token_id (view_items v)) \<and>
     map tk_token_id (sort_by token_order (view_items v)) = map of_nat [0..<view_count v]"

definition live_token_bytes :: "live_token \<Rightarrow> byte list" where
  "live_token_bytes t = cbor_map 4 @ cbor_head 0 0 @ cbor_head 0 (tk_token_id t) @
     cbor_head 0 1 @ cbor_bytes (span_bytes (tk_exact_bytes t)) @
     cbor_head 0 2 @ cbor_bytes (tk_score_bits t) @ cbor_head 0 3 @ cbor_head 0 (tk_token_type t)"

definition tokens_body :: "live_token array_view \<Rightarrow> byte list" where
  "tokens_body v = concat (map live_token_bytes (sort_by token_order (view_items v)))"

lemma enumerated_indices:
  assumes "length order = length xs"
  shows "list_ex (\<lambda>i. f (xs ! (order ! i)) \<noteq> of_nat i) [0..<length xs] \<longleftrightarrow>
    map f (map ((!) xs) order) \<noteq> map of_nat [0..<length xs]"
  using assms by (subst list_eq_iff_nth_eq) (auto simp: list_ex_iff)

lemma token_plan_iff:
  assumes "\<not> view_null v"
  shows "token_plan v = Inr order \<longleftrightarrow> tokens_ok v \<and>
     order = sort_by (\<lambda>l r. token_order (view_items v ! l) (view_items v ! r)) [0..<view_count v]"
proof -
  let ?xs = "view_items v"
  let ?order = "sort_by (\<lambda>l r. token_order (?xs ! l) (?xs ! r)) [0..<length ?xs]"
  have adj: "adjacent (\<lambda>prior current. tk_token_id (?xs ! prior) = tk_token_id (?xs ! current)) ?order \<longleftrightarrow>
      \<not> distinct (map tk_token_id ?xs)"
    using adjacent_map [of "\<lambda>x y. tk_token_id x = tk_token_id y" "(!) ?xs"] sort_indices [of ?xs token_order]
      token_order.adjacent_distinct [of ?xs "\<lambda>x y. tk_token_id x = tk_token_id y"] by (simp add: list_all_iff)
  have ids: "list_ex (\<lambda>i. tk_token_id (?xs ! (?order ! i)) \<noteq> of_nat i) [0..<length ?xs] \<longleftrightarrow>
      map tk_token_id (sort_by token_order ?xs) \<noteq> map of_nat [0..<length ?xs]"
    by (subst enumerated_indices) (simp_all add: sort_indices)
  have plan: "token_plan v = (if \<not> list_all token_acceptable ?xs then Inl incomplete_tokenizer
      else if \<not> distinct (map tk_token_id ?xs) then Inl ambiguous_tokenizer
      else if map tk_token_id (sort_by token_order ?xs) \<noteq> map of_nat [0..<length ?xs] then Inl incomplete_tokenizer
      else Inr ?order)"
    unfolding token_plan_def Let_def view_items_length [OF assms, symmetric] token_order_def [symmetric] adj ids not_list_ex [symmetric] by simp
  show ?thesis
    unfolding plan tokens_ok_def view_items_length [OF assms, symmetric] by auto
qed

lemma hashes_tokens:
  assumes "\<not> view_null v" "token_plan v = Inr order"
  shows "hashes (encode_tokens (view_items v) order) (tokens_body v)" "length order = view_count v"
proof -
  let ?xs = "view_items v"
  have ok: "tokens_ok v" and order: "order = sort_by (\<lambda>l r. token_order (?xs ! l) (?xs ! r)) [0..<length ?xs]"
    using assms view_items_length [OF assms(1)] by (simp_all add: token_plan_iff)
  have one: "hashes (let token = ?xs ! i in
      run_steps [cw_map 4,
        cw_unsigned 0, cw_unsigned (tk_token_id token),
        cw_unsigned 1, cw_bytes (tk_exact_bytes token),
        cw_unsigned 2, cw_digest (tk_score_bits token),
        cw_unsigned 3, cw_unsigned (tk_token_type token)]) (live_token_bytes (?xs ! i))" if "i \<in> set order" for i
  proof -
    have p: "valid_bytes (tk_exact_bytes (?xs ! i))"
      using that ok by (auto simp: order tokens_ok_def list_all_length token_acceptable_def)
    show ?thesis
      unfolding live_token_bytes_def Let_def by (rule p hashes_single hashes_intros)+
  qed
  have body: "tokens_body v = concat (map (\<lambda>i. live_token_bytes (?xs ! i)) order)"
    using arg_cong [OF sort_indices [of ?xs token_order], of "map live_token_bytes"] by (simp add: tokens_body_def order comp_def)
  show "hashes (encode_tokens ?xs order) (tokens_body v)"
    unfolding encode_tokens_def body by (rule hashes_map one | assumption)+
  show "length order = view_count v" using view_items_length [OF assms(1)] by (simp add: order)
qed

definition merge_key :: "live_merge \<Rightarrow> byte list \<times> byte list" where
  "merge_key m = (span_bytes (mg_left m), span_bytes (mg_right m))"

definition merges_ok :: "live_merge array_view \<Rightarrow> bool" where
  "merges_ok v \<longleftrightarrow> list_all merge_acceptable (view_items v) \<and> distinct (map merge_key (view_items v))"

definition merge_bytes :: "live_merge \<Rightarrow> byte list" where
  "merge_bytes m = cbor_map 2 @ cbor_head 0 0 @ cbor_bytes (span_bytes (mg_left m)) @ cbor_head 0 1 @ cbor_bytes (span_bytes (mg_right m))"

definition merges_body :: "live_merge array_view \<Rightarrow> byte list" where
  "merges_body v = concat (map merge_bytes (view_items v))"

lemma live_bytes_equal_iff: "valid_bytes l \<Longrightarrow> valid_bytes r \<Longrightarrow> live_bytes_equal l r \<longleftrightarrow> span_bytes l = span_bytes r"
  by (cases l; cases r) (auto simp: live_bytes_equal_def valid_bytes_def)

lemma merge_less_iff:
  "merge_acceptable l \<Longrightarrow> merge_acceptable r \<Longrightarrow> merge_less l r \<longleftrightarrow>
     ord_class.lexordp (fst (merge_key l)) (fst (merge_key r)) \<or>
     fst (merge_key l) = fst (merge_key r) \<and> ord_class.lexordp (snd (merge_key l)) (snd (merge_key r))"
  using byte_lexordp(3) by (auto simp: merge_less_def merge_acceptable_def merge_key_def live_bytes_equal_iff bytes_less_lexordp)

interpretation merge_order: keyed_order merge_acceptable merge_less merge_key
proof
  fix a b c :: live_merge
  assume ok: "merge_acceptable a" "merge_acceptable b"
  show "merge_less a b \<or> merge_less b a \<or> merge_key a = merge_key b"
    using ok byte_lexordp(2) unfolding merge_less_iff [OF ok] merge_less_iff [OF ok(2,1)] by (metis prod.expand)
  show "merge_key a = merge_key b \<Longrightarrow> \<not> merge_less a b"
    using byte_lexordp(3) unfolding merge_less_iff [OF ok] by simp
  assume c: "merge_acceptable c" "merge_less a b" "merge_less b c"
  show "merge_less a c"
    using c(2,3) unfolding merge_less_iff [OF ok] merge_less_iff [OF ok(2) c(1)] merge_less_iff [OF ok(1) c(1)]
    by (elim disjE conjE) (simp_all, (blast intro: byte_lexordp(1))+)
qed

lemma merge_check_iff:
  assumes "\<not> (view_null v \<and> view_count v \<noteq> 0)"
  shows "merge_check v = None \<longleftrightarrow> merges_ok v"
proof -
  let ?xs = "view_items v" and ?same = "\<lambda>x y. live_bytes_equal (mg_left x) (mg_left y) \<and> live_bytes_equal (mg_right x) (mg_right y)"
  have "adjacent (\<lambda>prior current. ?same (?xs ! prior) (?xs ! current))
      (sort_by (\<lambda>l r. merge_less (?xs ! l) (?xs ! r)) [0..<length ?xs]) \<longleftrightarrow> \<not> distinct (map merge_key ?xs)"
    if "list_all merge_acceptable ?xs"
    unfolding adjacent_map [of ?same "(!) ?xs" "sort_by (\<lambda>l r. merge_less (?xs ! l) (?xs ! r)) [0..<length ?xs]"]
      sort_indices [of ?xs merge_less]
    using that by (intro merge_order.adjacent_distinct) (auto simp: merge_acceptable_def merge_key_def live_bytes_equal_iff)
  then show ?thesis
    unfolding merge_check_def merges_ok_def Let_def view_length [OF assms] not_list_ex [symmetric] by simp
qed

lemma hashes_merges: "merges_ok v \<Longrightarrow> hashes (encode_merges (view_items v)) (merges_body v)"
  unfolding encode_merges_def merges_body_def
proof (rule hashes_map)
  fix m assume "merges_ok v" "m \<in> set (view_items v)"
  then have m: "valid_bytes (mg_left m)" "valid_bytes (mg_right m)"
    by (auto simp: merges_ok_def list_all_iff merge_acceptable_def)
  show "hashes (run_steps [cw_map 2, cw_unsigned 0, cw_bytes (mg_left m), cw_unsigned 1, cw_bytes (mg_right m)]) (merge_bytes m)"
    unfolding merge_bytes_def by (rule m hashes_single hashes_intros)+
qed

subsection \<open>Tensors\<close>

definition tensor_key :: "live_tensor \<Rightarrow> u64 \<times> u64 \<times> byte list" where
  "tensor_key t = (lt_shard_order t, lt_container_offset t, span_bytes (lt_name t))"

interpretation tensor_order: keyed_order "\<lambda>t. \<not> span_null (lt_name t)" tensor_less tensor_key
proof
  fix a b c :: live_tensor
  assume ok: "\<not> span_null (lt_name a)" "\<not> span_null (lt_name b)"
  show "tensor_less a b \<or> tensor_less b a \<or> tensor_key a = tensor_key b"
    using text_order.precedes_linear [OF ok] by (auto simp: tensor_less_def tensor_key_def)
  show "tensor_key a = tensor_key b \<Longrightarrow> \<not> tensor_less a b"
    using text_order.precedes_key [OF ok] by (auto simp: tensor_less_def tensor_key_def)
  assume "\<not> span_null (lt_name c)" "tensor_less a b" "tensor_less b c"
  then show "tensor_less a c"
    using text_order.precedes_trans [OF ok] by (auto simp: tensor_less_def split: if_splits)
qed

definition tensor_end :: "live_tensor \<Rightarrow> nat" where
  "tensor_end t = unat (lt_container_offset t) + unat (lt_encoded_bytes t)"

definition tensors_ok :: "nat \<Rightarrow> u64 list \<Rightarrow> live_tensor array_view \<Rightarrow> bool" where
  "tensors_ok shard_count shard_sizes v \<longleftrightarrow> list_all (tensor_acceptable shard_count shard_sizes) (view_items v) \<and>
     \<not> adjacent tensor_clash (sort_by tensor_less (view_items v)) \<and>
     distinct (map (\<lambda>t. span_bytes (lt_name t)) (view_items v))"

definition dimension_bytes :: "u64 array_view \<Rightarrow> byte list" where
  "dimension_bytes v = cbor_array (view_count v) @ concat (map (cbor_head 0) (view_items v))"

definition tensor_bytes :: "live_tensor \<Rightarrow> byte list" where
  "tensor_bytes t = cbor_map 6 @ cbor_head 0 0 @ cbor_text (span_bytes (lt_name t)) @
     cbor_head 0 1 @ cbor_array (view_count (lt_dimensions t)) @ concat (map (cbor_head 0) (view_items (lt_dimensions t))) @
     cbor_head 0 2 @ cbor_head 0 (lt_tensor_type t) @ cbor_head 0 3 @ cbor_head 0 (lt_container_offset t) @
     cbor_head 0 4 @ cbor_head 0 (lt_encoded_bytes t) @ cbor_head 0 5 @ cbor_head 0 (lt_shard_order t)"

definition tensors_body :: "live_tensor array_view \<Rightarrow> byte list" where
  "tensors_body v = concat (map tensor_bytes (sort_by tensor_less (view_items v)))"

lemma unat_no_overflow:
  assumes "\<not> (v :: u64) > - 1 - w"
  shows "unat (v + w) = unat v + unat w"
proof -
  have "unat (- 1 - w) = unat (- 1 :: u64) - unat w"
    using word_order.extremum [of w] by (simp only: unat_sub)
  moreover have "unat (- 1 :: u64) = 2 ^ 64 - 1" by (simp add: unsigned_minus_1_eq_mask mask_eq_exp_minus_1)
  moreover have "unat v \<le> unat (- 1 - w)" using assms by (simp add: word_le_nat_alt not_less)
  ultimately have "unat v + unat w < 2 ^ 64"
    using unsigned_less [of w, where ?'a = nat] by simp
  then show ?thesis by (simp add: unat_word_ariths)
qed

lemma tensor_acceptable_facts:
  assumes "tensor_acceptable shard_count shard_sizes t"
  shows "\<not> span_null (lt_name t)" "valid_bytes (lt_name t)" "span_size (lt_name t) \<le> 16384"
    "unat (lt_shard_order t) < shard_count" "\<not> view_null (lt_dimensions t)" "view_count (lt_dimensions t) \<le> 16"
    "0 < unat (lt_encoded_bytes t)" "\<not> lt_container_offset t > - 1 - lt_encoded_bytes t"
    "tensor_end t \<le> unat (shard_sizes ! unat (lt_shard_order t))"
proof -
  have "\<not> lt_container_offset t > - 1 - lt_encoded_bytes t" "lt_encoded_bytes t \<noteq> 0"
    "lt_container_offset t + lt_encoded_bytes t \<le> shard_sizes ! unat (lt_shard_order t)"
    using assms unfolding tensor_acceptable_def by (auto simp: not_less)
  then show "\<not> lt_container_offset t > - 1 - lt_encoded_bytes t" "0 < unat (lt_encoded_bytes t)"
    "tensor_end t \<le> unat (shard_sizes ! unat (lt_shard_order t))"
    using unat_no_overflow [of "lt_encoded_bytes t" "lt_container_offset t"]
    by (simp_all add: tensor_end_def word_le_nat_alt unat_gt_0)
qed (use assms in \<open>auto simp: tensor_acceptable_def valid_text_bytes\<close>)

lemma tensor_clash_iff:
  assumes "tensor_acceptable shard_count shard_sizes p" "lt_shard_order p = lt_shard_order q"
  shows "tensor_clash p q \<longleftrightarrow> unat (lt_container_offset q) < tensor_end p \<or> lt_container_offset p = lt_container_offset q"
  using tensor_acceptable_facts(8) [OF assms(1)] assms(2) unat_no_overflow [of "lt_encoded_bytes p" "lt_container_offset p"]
  by (auto simp: tensor_clash_def tensor_end_def word_less_nat_alt)

lemma no_clash_distinct:
  assumes "list_all (tensor_acceptable shard_count shard_sizes) xs" "\<not> adjacent tensor_clash (sort_by tensor_less xs)"
  shows "distinct (map tensor_key xs)"
proof -
  have "\<not> adjacent (\<lambda>x y. tensor_key x = tensor_key y) (sort_by tensor_less xs)"
    using assms(2) by (auto simp: adjacent_iff tensor_clash_def tensor_key_def)
  then show ?thesis
    using assms(1) tensor_acceptable_facts(1) tensor_order.adjacent_distinct [of xs "\<lambda>x y. tensor_key x = tensor_key y"]
    by (auto simp: list_all_iff)
qed

lemma tensor_plan_iff:
  assumes "\<not> view_null v"
  shows "tensor_plan shard_count shard_sizes v = Inr order \<longleftrightarrow> tensors_ok shard_count shard_sizes v \<and>
     order = sort_by (\<lambda>l r. tensor_less (view_items v ! l) (view_items v ! r)) [0..<view_count v]"
proof -
  let ?xs = "view_items v"
  let ?order = "sort_by (\<lambda>l r. tensor_less (?xs ! l) (?xs ! r)) [0..<length ?xs]"
  let ?names = "sort_by (\<lambda>l r. canonical_text_less (lt_name (?xs ! l)) (lt_name (?xs ! r))) ?order"
  have clash: "adjacent (\<lambda>prior current. tensor_clash (?xs ! prior) (?xs ! current)) ?order = adjacent tensor_clash (sort_by tensor_less ?xs)"
    unfolding adjacent_map [of tensor_clash "(!) ?xs" ?order] sort_indices [of ?xs tensor_less] ..
  have "map ((!) ?xs) ?names = sort_by (by_text lt_name) (sort_by tensor_less ?xs)"
    using map_sort_by [of "(!) ?xs" "by_text lt_name" ?order] sort_indices [of ?xs tensor_less] by (simp add: by_text_def)
  then have "adjacent (\<lambda>prior current. text_equal (lt_name (?xs ! prior)) (lt_name (?xs ! current))) ?names =
      adjacent (\<lambda>x y. text_equal (lt_name x) (lt_name y)) (sort_by (by_text lt_name) (sort_by tensor_less ?xs))"
    using adjacent_map [of "\<lambda>x y. text_equal (lt_name x) (lt_name y)" "(!) ?xs" ?names] by simp
  moreover have "distinct (map (\<lambda>t. span_bytes (lt_name t)) (sort_by tensor_less ?xs)) = distinct (map (\<lambda>t. span_bytes (lt_name t)) ?xs)"
    by (metis mset_sort_by mset_map mset_eq_imp_distinct_iff)
  moreover have "adjacent (\<lambda>x y. text_equal (lt_name x) (lt_name y)) (sort_by (by_text lt_name) (sort_by tensor_less ?xs)) \<longleftrightarrow>
      \<not> distinct (map (\<lambda>t. span_bytes (lt_name t)) (sort_by tensor_less ?xs))"
    if "list_all (tensor_acceptable shard_count shard_sizes) ?xs"
    using that by (intro by_text.adjacent_distinct) (auto simp: list_all_iff text_equal_iff tensor_acceptable_facts(1))
  ultimately have names: "list_all (tensor_acceptable shard_count shard_sizes) ?xs \<Longrightarrow>
      adjacent (\<lambda>prior current. text_equal (lt_name (?xs ! prior)) (lt_name (?xs ! current))) ?names \<longleftrightarrow>
      \<not> distinct (map (\<lambda>t. span_bytes (lt_name t)) ?xs)" by simp
  show ?thesis
    unfolding tensor_plan_def tensors_ok_def Let_def view_items_length [OF assms, symmetric] clash not_list_ex [symmetric]
    using names unfolding not_list_ex [symmetric]
    by (cases "list_ex (\<lambda>t. \<not> tensor_acceptable shard_count shard_sizes t) ?xs") auto
qed

lemma hashes_tensors:
  assumes "\<not> view_null v" "tensor_plan shard_count shard_sizes v = Inr order"
  shows "hashes (encode_tensors (view_items v) order) (tensors_body v)" "length order = view_count v"
proof -
  let ?xs = "view_items v"
  have ok: "tensors_ok shard_count shard_sizes v" and order: "order = sort_by (\<lambda>l r. tensor_less (?xs ! l) (?xs ! r)) [0..<length ?xs]"
    using assms view_items_length [OF assms(1)] by (simp_all add: tensor_plan_iff)
  have one: "hashes (let tensor = ?xs ! i in
      run_steps [cw_map 6,
        cw_unsigned 0, cw_text (lt_name tensor),
        cw_unsigned 1, cw_array (view_count (lt_dimensions tensor)),
        run_steps (map cw_unsigned (view_items (lt_dimensions tensor))),
        cw_unsigned 2, cw_unsigned (lt_tensor_type tensor),
        cw_unsigned 3, cw_unsigned (lt_container_offset tensor),
        cw_unsigned 4, cw_unsigned (lt_encoded_bytes tensor),
        cw_unsigned 5, cw_unsigned (lt_shard_order tensor)]) (tensor_bytes (?xs ! i))" if "i \<in> set order" for i
  proof -
    have p: "tensor_acceptable shard_count shard_sizes (?xs ! i)"
      using that ok by (simp add: order tensors_ok_def list_all_length)
    have dims: "hashes (run_steps (map cw_unsigned ns)) (concat (map (cbor_head 0) ns))" for ns
      by (rule hashes_map) (rule hashes_intros)
    show ?thesis
      unfolding tensor_bytes_def Let_def by (rule dims tensor_acceptable_facts(2) [OF p] hashes_single hashes_intros)+
  qed
  have body: "tensors_body v = concat (map (\<lambda>i. tensor_bytes (?xs ! i)) order)"
    using arg_cong [OF sort_indices [of ?xs tensor_less], of "map tensor_bytes"] by (simp add: tensors_body_def order comp_def)
  show "hashes (encode_tensors ?xs order) (tensors_body v)"
    unfolding encode_tensors_def body by (rule hashes_map one | assumption)+
  show "length order = view_count v" using view_items_length [OF assms(1)] by (simp add: order)
qed

subsection \<open>Shard sizes\<close>

definition shard_size :: "live_artifact \<Rightarrow> u64" where
  "shard_size a = of_nat (span_size (la_exact_bytes a))"

lemma shard_table_iff:
  "length shard_seen = n \<Longrightarrow> shard_table n xs shard_seen shard_sizes = Some ss \<longleftrightarrow>
     list_all (nonempty_bytes \<circ> la_exact_bytes) xs \<and> distinct (map la_semantic_order xs) \<and>
     (\<forall>a \<in> set xs. unat (la_semantic_order a) < n \<and> \<not> shard_seen ! unat (la_semantic_order a)) \<and>
     ss = foldl (\<lambda>s a. s[unat (la_semantic_order a) := shard_size a]) shard_sizes xs"
proof (induction xs arbitrary: shard_seen shard_sizes)
  case (Cons x xs)
  have "shard_table n xs (shard_seen[unat (la_semantic_order x) := True]) (shard_sizes[unat (la_semantic_order x) := shard_size x]) = Some ss \<longleftrightarrow>
     list_all (nonempty_bytes \<circ> la_exact_bytes) xs \<and> distinct (map la_semantic_order xs) \<and>
     (\<forall>a \<in> set xs. unat (la_semantic_order a) < n \<and> \<not> shard_seen[unat (la_semantic_order x) := True] ! unat (la_semantic_order a)) \<and>
     ss = foldl (\<lambda>s a. s[unat (la_semantic_order a) := shard_size a]) (shard_sizes[unat (la_semantic_order x) := shard_size x]) xs"
    using Cons.prems by (intro Cons.IH) simp
  note rest = this
  show ?case
  proof (cases "unat (la_semantic_order x) < n \<and> \<not> shard_seen ! unat (la_semantic_order x) \<and> nonempty_bytes (la_exact_bytes x)")
    case True
    have mark: "shard_seen[unat (la_semantic_order x) := True] ! unat (la_semantic_order a) \<longleftrightarrow>
        la_semantic_order a = la_semantic_order x \<or> shard_seen ! unat (la_semantic_order a)" for a
      using True Cons.prems by (cases "la_semantic_order a = la_semantic_order x") (simp_all add: nth_list_update word_unat_eq_iff)
    have tail: "shard_table n (x # xs) shard_seen shard_sizes =
        shard_table n xs (shard_seen[unat (la_semantic_order x) := True]) (shard_sizes[unat (la_semantic_order x) := shard_size x])"
      using True by (simp add: shard_size_def not_le)
    have split: "(\<forall>a \<in> set xs. unat (la_semantic_order a) < n \<and>
          \<not> (la_semantic_order a = la_semantic_order x \<or> shard_seen ! unat (la_semantic_order a))) \<longleftrightarrow>
        la_semantic_order x \<notin> set (map la_semantic_order xs) \<and>
        (\<forall>a \<in> set xs. unat (la_semantic_order a) < n \<and> \<not> shard_seen ! unat (la_semantic_order a))"
      by (auto simp: image_iff)
    show ?thesis
      unfolding tail rest mark split using True by (simp add: conj_ac comp_def)
  next
    case False
    then have "shard_table n (x # xs) shard_seen shard_sizes = None" by auto
    then show ?thesis using False by auto
  qed
qed auto

lemma fold_sizes:
  assumes "distinct (map la_semantic_order xs)" "\<forall>a \<in> set xs. unat (la_semantic_order a) < length sizes"
  shows "length (foldl (\<lambda>s a. s[unat (la_semantic_order a) := shard_size a]) sizes xs) = length sizes"
    and "a \<in> set xs \<Longrightarrow> foldl (\<lambda>s a. s[unat (la_semantic_order a) := shard_size a]) sizes xs ! unat (la_semantic_order a) = shard_size a"
proof -
  let ?put = "foldl (\<lambda>s a. s[unat (la_semantic_order a) := shard_size a])"
  have other: "?put ss ys ! i = ss ! i" if "i \<notin> unat ` la_semantic_order ` set ys" for ss ys i
    using that by (induction ys arbitrary: ss) auto
  show "length (?put sizes xs) = length sizes"
    by (induction xs arbitrary: sizes) auto
  show "a \<in> set xs \<Longrightarrow> ?put sizes xs ! unat (la_semantic_order a) = shard_size a"
    using assms
  proof (induction xs arbitrary: sizes)
    case (Cons x xs)
    show ?case
    proof (cases "a = x")
      case True
      have "unat (la_semantic_order x) \<notin> unat ` la_semantic_order ` set xs"
        using Cons.prems(2) by (auto simp: word_unat_eq_iff)
      then show ?thesis using True Cons.prems(3) by (simp add: other)
    qed (use Cons in auto)
  qed simp
qed

definition shard_sizes_of :: "live_artifact array_view \<Rightarrow> u64 list" where
  "shard_sizes_of v = map shard_size (sort_by artifact_order (view_items v))"

lemma shard_table_sorted:
  assumes "artifacts_ok 1024 v" and "n = view_count v"
  shows "shard_table n (view_items v) (replicate n False) (replicate n 0) = Some (shard_sizes_of v)"
proof -
  let ?xs = "view_items v" and ?ys = "sort_by artifact_order (view_items v)"
  have n: "n = length ?xs" "n \<le> 1024" and ord: "map la_semantic_order ?ys = map of_nat [0..<n]"
    and ok: "list_all artifact_ok ?xs" "distinct (map la_semantic_order ?xs)"
    using assms view_items_length [of v] by (auto simp: artifacts_ok_def)
  have nth: "unat (la_semantic_order (?ys ! i)) = i" if "i < n" for i
  proof -
    have "la_semantic_order (?ys ! i) = of_nat i"
      using arg_cong [OF ord, of "\<lambda>l. l ! i"] that n(1) by simp
    then show ?thesis using that n(2) by (simp add: unat_of_nat)
  qed
  have below: "\<forall>a \<in> set ?xs. unat (la_semantic_order a) < n"
  proof
    fix a assume "a \<in> set ?xs"
    then obtain i where "i < n" "a = ?ys ! i" using n(1) by (metis in_set_conv_nth length_sort_by set_sort_by)
    then show "unat (la_semantic_order a) < n" using nth by simp
  qed
  let ?ss = "foldl (\<lambda>s a. s[unat (la_semantic_order a) := shard_size a]) (replicate n 0) ?xs"
  have "shard_table n ?xs (replicate n False) (replicate n 0) = Some ?ss"
    unfolding shard_table_iff [OF length_replicate] using ok below by (auto simp: list_all_iff artifact_ok_def)
  moreover have "?ss = shard_sizes_of v"
  proof (rule nth_equalityI)
    show len: "length ?ss = length (shard_sizes_of v)"
      using fold_sizes(1) [OF ok(2), of "replicate n 0"] below n(1) by (simp add: shard_sizes_of_def)
    fix i assume "i < length ?ss"
    then have i: "i < n" using len n(1) by (simp add: shard_sizes_of_def)
    have "?ys ! i \<in> set ?xs" using i n(1) by (metis length_sort_by nth_mem set_sort_by)
    then have "?ss ! unat (la_semantic_order (?ys ! i)) = shard_size (?ys ! i)"
      using fold_sizes(2) [OF ok(2), of "replicate n 0"] below by simp
    then show "?ss ! i = shard_sizes_of v ! i" using i n(1) nth by (simp add: shard_sizes_of_def)
  qed
  ultimately show ?thesis by simp
qed

subsection \<open>The six derived components\<close>

definition model_bytes_ok :: "live_model \<Rightarrow> bool" where
  "model_bytes_ok m \<longleftrightarrow> md_declared_shard_count m \<noteq> 0 \<and> view_count (md_shards m) = md_declared_shard_count m \<and>
     artifacts_ok 1024 (md_shards m)"

definition model_body :: "live_model \<Rightarrow> byte list" where
  "model_body m = cbor_map 1 @ cbor_head 0 0 @ artifacts_bytes (md_shards m)"

lemma build_model_bytes_iff:
  "build_model_bytes_component m = Inr d \<longleftrightarrow> model_bytes_ok m \<and> written 0 (model_body m) d"
proof (cases "collect_artifacts (md_shards m) 1024 missing_model_artifact ambiguous_shard_plan")
  case (Inl st)
  then show ?thesis
    using collect_artifacts_iff [of "md_shards m" 1024 missing_model_artifact ambiguous_shard_plan
        "\<lparr>as_order = sort_by (\<lambda>l r. artifact_order (view_items (md_shards m) ! l) (view_items (md_shards m) ! r)) [0..<view_count (md_shards m)],
          as_digests = map (sha256 \<circ> span_bytes \<circ> la_exact_bytes) (view_items (md_shards m))\<rparr>"]
    by (auto simp: build_model_bytes_component_def model_bytes_ok_def)
next
  case (Inr s)
  then have ok: "artifacts_ok 1024 (md_shards m)" by (simp add: collect_artifacts_iff)
  have body: "hashes (run_steps [cw_map 1, cw_unsigned 0, encode_artifacts (md_shards m) s]) (model_body m)"
    unfolding model_body_def by (rule hashes_artifacts [OF ok Inr] hashes_single hashes_intros)+
  show ?thesis
    using write_component_iff [OF _ body, of 0 d] ok Inr
    by (auto simp: build_model_bytes_component_def model_bytes_ok_def simp del: run_steps.simps)
qed

definition metadata_component_ok :: "live_model \<Rightarrow> bool" where
  "metadata_component_ok m \<longleftrightarrow> valid_text (md_metadata_schema_id m) 128 \<and> \<not> placeholder_text (md_metadata_schema_id m) \<and>
     \<not> view_null (md_metadata m) \<and> view_count (md_metadata m) \<noteq> 0 \<and> view_count (md_metadata m) \<le> 65535 \<and>
     \<not> view_null (md_tensors m) \<and> view_count (md_tensors m) \<noteq> 0 \<and> view_count (md_tensors m) \<le> 65535 \<and>
     metadata_ok (md_metadata m) \<and>
     tensors_ok (view_count (md_shards m)) (shard_sizes_of (md_shards m)) (md_tensors m)"

definition metadata_component_body :: "live_model \<Rightarrow> byte list" where
  "metadata_component_body m = cbor_map 3 @ cbor_head 0 0 @ cbor_text (span_bytes (md_metadata_schema_id m)) @
     cbor_head 0 1 @ cbor_array (view_count (md_metadata m)) @ metadata_body (md_metadata m) @
     cbor_head 0 2 @ cbor_array (view_count (md_tensors m)) @ tensors_body (md_tensors m)"

lemma build_model_metadata_iff:
  assumes "model_bytes_ok m"
  shows "build_model_metadata_component m = Inr d \<longleftrightarrow> metadata_component_ok m \<and> written 1 (metadata_component_body m) d"
proof (cases "metadata_component_ok m")
  case True
  have table: "shard_table (view_count (md_shards m)) (view_items (md_shards m)) (replicate (view_count (md_shards m)) False)
      (replicate (view_count (md_shards m)) 0) = Some (shard_sizes_of (md_shards m))"
    using assms by (intro shard_table_sorted) (auto simp: model_bytes_ok_def)
  have nn: "\<not> view_null (md_metadata m)" "\<not> view_null (md_tensors m)" and schema: "valid_bytes (md_metadata_schema_id m)"
    using True by (auto simp: metadata_component_ok_def valid_text_bytes)
  obtain mo to where plans: "metadata_plan (md_metadata m) = Inr mo"
      "tensor_plan (view_count (md_shards m)) (shard_sizes_of (md_shards m)) (md_tensors m) = Inr to"
    using True metadata_plan_iff [OF nn(1)] tensor_plan_iff [OF nn(2)] by (auto simp: metadata_component_ok_def)
  note meta = hashes_metadata [OF nn(1) plans(1)] and tens = hashes_tensors [OF nn(2) plans(2)]
  have body: "hashes (run_steps [cw_map 3, cw_unsigned 0, cw_text (md_metadata_schema_id m),
      cw_unsigned 1, cw_array (length mo), encode_metadata (view_items (md_metadata m)) mo,
      cw_unsigned 2, cw_array (length to), encode_tensors (view_items (md_tensors m)) to]) (metadata_component_body m)"
    unfolding metadata_component_body_def meta(2) tens(2) by (rule meta(1) tens(1) schema hashes_single hashes_intros)+
  show ?thesis
    using write_component_iff [OF _ body, of 1 d] True table plans
    by (simp add: build_model_metadata_component_def metadata_component_ok_def Let_def del: run_steps.simps)
next
  case False
  have table: "shard_table (view_count (md_shards m)) (view_items (md_shards m)) (replicate (view_count (md_shards m)) False)
      (replicate (view_count (md_shards m)) 0) = Some (shard_sizes_of (md_shards m))"
    using assms by (intro shard_table_sorted) (auto simp: model_bytes_ok_def)
  have "build_model_metadata_component m \<noteq> Inr d"
  proof
    assume b: "build_model_metadata_component m = Inr d"
    then have guards: "valid_text (md_metadata_schema_id m) 128 \<and> \<not> placeholder_text (md_metadata_schema_id m) \<and>
       \<not> view_null (md_metadata m) \<and> view_count (md_metadata m) \<noteq> 0 \<and> view_count (md_metadata m) \<le> 65535 \<and>
       \<not> view_null (md_tensors m) \<and> view_count (md_tensors m) \<noteq> 0 \<and> view_count (md_tensors m) \<le> 65535"
      unfolding build_model_metadata_component_def Let_def by (simp add: not_less split: if_splits)
    from b obtain mo to where "metadata_plan (md_metadata m) = Inr mo"
        "tensor_plan (view_count (md_shards m)) (shard_sizes_of (md_shards m)) (md_tensors m) = Inr to"
      unfolding build_model_metadata_component_def Let_def table option.case by (auto split: if_splits sum.splits)
    then show False
      using False guards metadata_plan_iff tensor_plan_iff by (simp add: metadata_component_ok_def)
  qed
  then show ?thesis using False by simp
qed

definition tokenizer_ok :: "live_tokenizer \<Rightarrow> bool" where
  "tokenizer_ok t \<longleftrightarrow> artifacts_ok 64 (tz_artifacts t) \<and>
     \<not> view_null (tz_tokens t) \<and> view_count (tz_tokens t) \<noteq> 0 \<and> view_count (tz_tokens t) \<le> 4194304 \<and>
     \<not> (view_null (tz_merges t) \<and> view_count (tz_merges t) \<noteq> 0) \<and> view_count (tz_merges t) \<le> 4194304 \<and>
     \<not> (view_null (tz_special_tokens t) \<and> view_count (tz_special_tokens t) \<noteq> 0) \<and>
     tokens_ok (tz_tokens t) \<and> merges_ok (tz_merges t) \<and>
     specials_ok (view_count (tz_tokens t)) (tz_special_tokens t) \<and> parameters_ok (tz_policy t)"

definition tokenizer_body :: "live_tokenizer \<Rightarrow> byte list" where
  "tokenizer_body t = cbor_map 5 @ cbor_head 0 0 @ artifacts_bytes (tz_artifacts t) @
     cbor_head 0 1 @ cbor_array (view_count (tz_tokens t)) @ tokens_body (tz_tokens t) @
     cbor_head 0 2 @ cbor_array (view_count (tz_merges t)) @ merges_body (tz_merges t) @
     cbor_head 0 3 @ cbor_array (view_count (tz_special_tokens t)) @ specials_body (tz_special_tokens t) @
     cbor_head 0 4 @ parameters_bytes (tz_policy t)"

lemma policy_plan_iff: "policy_plan v = Inr order \<longleftrightarrow> collect_parameters v True = Inr order"
  by (simp add: policy_plan_def split: sum.splits)

lemma build_tokenizer_iff:
  "build_tokenizer_component t = Inr d \<longleftrightarrow> tokenizer_ok t \<and> written 2 (tokenizer_body t) d"
proof (cases "tokenizer_ok t")
  case True
  then obtain s to so po where plans: "collect_artifacts (tz_artifacts t) 64 incomplete_tokenizer ambiguous_tokenizer = Inr s"
      "token_plan (tz_tokens t) = Inr to" "merge_check (tz_merges t) = None"
      "special_plan (view_count (tz_tokens t)) (tz_special_tokens t) = Inr so" "policy_plan (tz_policy t) = Inr po"
    using collect_artifacts_iff [of "tz_artifacts t" 64 incomplete_tokenizer ambiguous_tokenizer
        "\<lparr>as_order = sort_by (\<lambda>l r. artifact_order (view_items (tz_artifacts t) ! l) (view_items (tz_artifacts t) ! r)) [0..<view_count (tz_artifacts t)],
          as_digests = map (sha256 \<circ> span_bytes \<circ> la_exact_bytes) (view_items (tz_artifacts t))\<rparr>"]
    by (simp add: tokenizer_ok_def token_plan_iff merge_check_iff special_plan_iff policy_plan_iff collect_parameters_iff)
  have ok: "artifacts_ok 64 (tz_artifacts t)" "\<not> view_null (tz_tokens t)" "merges_ok (tz_merges t)"
      "\<not> (view_null (tz_special_tokens t) \<and> view_count (tz_special_tokens t) \<noteq> 0)" "parameters_ok (tz_policy t)"
    using True by (simp_all add: tokenizer_ok_def)
  note toks = hashes_tokens [OF ok(2) plans(2)] and specs = hashes_specials [OF ok(4) plans(4)]
  have body: "hashes (run_steps [cw_map 5,
      cw_unsigned 0, encode_artifacts (tz_artifacts t) s,
      cw_unsigned 1, cw_array (length to), encode_tokens (view_items (tz_tokens t)) to,
      cw_unsigned 2, cw_array (view_count (tz_merges t)), encode_merges (view_items (tz_merges t)),
      cw_unsigned 3, cw_array (length so), encode_specials (view_items (tz_special_tokens t)) so,
      cw_unsigned 4, encode_parameters (tz_policy t) po]) (tokenizer_body t)"
    unfolding tokenizer_body_def toks(2) specs(2)
    by (rule hashes_artifacts [OF ok(1) plans(1)] toks(1) specs(1) hashes_merges [OF ok(3)]
      hashes_parameters [OF ok(5) plans(5) [unfolded policy_plan_iff]] hashes_single hashes_intros)+
  have "build_tokenizer_component t = write_component 2 (run_steps [cw_map 5,
      cw_unsigned 0, encode_artifacts (tz_artifacts t) s,
      cw_unsigned 1, cw_array (length to), encode_tokens (view_items (tz_tokens t)) to,
      cw_unsigned 2, cw_array (view_count (tz_merges t)), encode_merges (view_items (tz_merges t)),
      cw_unsigned 3, cw_array (length so), encode_specials (view_items (tz_special_tokens t)) so,
      cw_unsigned 4, encode_parameters (tz_policy t) po])"
    using True plans by (auto simp: build_tokenizer_component_def tokenizer_ok_def Let_def simp del: run_steps.simps)
  then show ?thesis using write_component_iff [OF _ body, of 2 d] True by simp
next
  case False
  have "build_tokenizer_component t \<noteq> Inr d"
  proof
    assume b: "build_tokenizer_component t = Inr d"
    then obtain s where s: "collect_artifacts (tz_artifacts t) 64 incomplete_tokenizer ambiguous_tokenizer = Inr s"
      unfolding build_tokenizer_component_def Let_def by (auto split: sum.splits)
    note b1 = b [unfolded build_tokenizer_component_def Let_def s sum.case]
    from b1 have guards: "\<not> view_null (tz_tokens t) \<and> view_count (tz_tokens t) \<noteq> 0 \<and> view_count (tz_tokens t) \<le> 4194304 \<and>
       \<not> (view_null (tz_merges t) \<and> view_count (tz_merges t) \<noteq> 0) \<and> view_count (tz_merges t) \<le> 4194304 \<and>
       \<not> (view_null (tz_special_tokens t) \<and> view_count (tz_special_tokens t) \<noteq> 0)"
      by (simp add: not_less split: if_splits)
    from b1 obtain to so po where "token_plan (tz_tokens t) = Inr to" "merge_check (tz_merges t) = None"
        "special_plan (view_count (tz_tokens t)) (tz_special_tokens t) = Inr so" "policy_plan (tz_policy t) = Inr po"
      by (auto split: if_splits sum.splits option.splits)
    then show False
      using False guards s
      by (auto simp: tokenizer_ok_def token_plan_iff merge_check_iff special_plan_iff policy_plan_iff collect_parameters_iff collect_artifacts_iff)
  qed
  then show ?thesis using False by simp
qed

definition template_ok :: "live_chat_template \<Rightarrow> bool" where
  "template_ok c \<longleftrightarrow> ch_effective_candidate_count c = 1 \<and> nonempty_bytes (ch_exact_template_bytes c) \<and>
     registered_text (ch_renderer_id c) \<and> nonempty_bytes (ch_renderer_executable_bytes c) \<and>
     nonzero (sha256 (span_bytes (ch_exact_template_bytes c))) \<and> nonzero (sha256 (span_bytes (ch_renderer_executable_bytes c)))"

definition template_body :: "live_chat_template \<Rightarrow> byte list" where
  "template_body c = cbor_map 4 @ cbor_head 0 0 @ cbor_head 0 (of_nat (span_size (ch_exact_template_bytes c))) @
     cbor_head 0 1 @ cbor_bytes (sha256 (span_bytes (ch_exact_template_bytes c))) @
     cbor_head 0 2 @ cbor_text (span_bytes (ch_renderer_id c)) @
     cbor_head 0 3 @ cbor_bytes (sha256 (span_bytes (ch_renderer_executable_bytes c)))"

lemma build_template_iff:
  "build_chat_template_component c = Inr d \<longleftrightarrow> template_ok c \<and> written 3 (template_body c) d"
proof (cases "template_ok c")
  case True
  then have c: "valid_bytes (ch_renderer_id c)" by (auto simp: template_ok_def registered_text_def valid_text_bytes)
  have body: "hashes (run_steps [cw_map 4,
      cw_unsigned 0, cw_unsigned (of_nat (span_size (ch_exact_template_bytes c))),
      cw_unsigned 1, cw_digest (sha256 (span_bytes (ch_exact_template_bytes c))),
      cw_unsigned 2, cw_text (ch_renderer_id c),
      cw_unsigned 3, cw_digest (sha256 (span_bytes (ch_renderer_executable_bytes c)))]) (template_body c)"
    unfolding template_body_def by (rule c hashes_single hashes_intros)+
  have "hash_exact_bytes (ch_exact_template_bytes c) = Some (sha256 (span_bytes (ch_exact_template_bytes c)))"
    "hash_exact_bytes (ch_renderer_executable_bytes c) = Some (sha256 (span_bytes (ch_renderer_executable_bytes c)))"
    using True by (auto simp: template_ok_def hash_nonempty)
  then show ?thesis
    using write_component_iff [OF _ body, of 3 d] True
    by (simp add: build_chat_template_component_def template_ok_def registered_text_def del: run_steps.simps)
next
  case False
  then show ?thesis
    by (auto simp: build_chat_template_component_def template_ok_def registered_text_def hash_exact_bytes_iff split: option.splits)
qed

definition source_message :: "live_runtime \<Rightarrow> byte list" where
  "source_message r = domain_bytes ''halofpx.source-tree.v1'' @
     be_bytes 2 (of_nat (span_size (rt_source_revision r))) @ span_bytes (rt_source_revision r) @
     be_bytes 8 (of_nat (span_size (rt_source_tree_manifest r))) @ span_bytes (rt_source_tree_manifest r) @
     [if rt_source_is_dirty r then 1 else 0] @
     be_bytes 8 (of_nat (span_size (rt_dirty_tree_manifest r))) @ span_bytes (rt_dirty_tree_manifest r)"

definition runtime_ok :: "live_runtime \<Rightarrow> bool" where
  "runtime_ok r \<longleftrightarrow> valid_text (rt_source_revision r) 128 \<and> \<not> mutable_source_revision (rt_source_revision r) \<and>
     nonempty_bytes (rt_source_tree_manifest r) \<and> registered_text (rt_toolchain_id r) \<and> registered_text (rt_state_abi_id r) \<and>
     rt_source_is_immutable r \<and> (rt_source_is_dirty r \<longrightarrow> nonempty_bytes (rt_dirty_tree_manifest r)) \<and>
     (\<not> rt_source_is_dirty r \<longrightarrow> span_size (rt_dirty_tree_manifest r) = 0) \<and> valid_bytes (rt_dirty_tree_manifest r) \<and>
     artifacts_ok 1024 (rt_artifacts r) \<and>
     text_equal_literal (la_role (hd (sort_by artifact_order (view_items (rt_artifacts r))))) ''executable'' \<and>
     parameters_ok (rt_build_options r) \<and>
     length (source_message r) \<le> unat hash_maximum \<and> nonzero (sha256 (source_message r))"

definition runtime_body :: "live_runtime \<Rightarrow> byte list" where
  "runtime_body r = cbor_map 5 @ cbor_head 0 0 @ cbor_bytes (sha256 (source_message r)) @
     cbor_head 0 1 @ artifacts_bytes (rt_artifacts r) @
     cbor_head 0 2 @ cbor_text (span_bytes (rt_toolchain_id r)) @
     cbor_head 0 3 @ parameters_bytes (rt_build_options r) @
     cbor_head 0 4 @ cbor_text (span_bytes (rt_state_abi_id r))"

lemma hashes_narrow [hashes_intros]: "hashes (hash_uint16_be (of_nat n)) (be_bytes 2 (of_nat n))"
  using hashes_integers(2) [of "of_nat n"] by (simp add: narrow16)

lemma framed_source_iff:
  assumes "valid_text (rt_source_revision r) 128" "nonempty_bytes (rt_source_tree_manifest r)" "valid_bytes (rt_dirty_tree_manifest r)"
  shows "framed_source_identity r = Some d \<longleftrightarrow>
     length (source_message r) \<le> unat hash_maximum \<and> d = sha256 (source_message r) \<and> nonzero d"
proof -
  have v: "valid_bytes (rt_source_revision r)" "valid_bytes (rt_source_tree_manifest r)" "span_size (rt_source_revision r) \<le> 128"
    using assms by (auto simp: valid_text_bytes nonempty_bytes_valid)
  have "hashes (run_steps [hash_update (Span (domain_bytes ''halofpx.source-tree.v1'')),
        hash_uint16_be (of_nat (span_size (rt_source_revision r))), hash_update (rt_source_revision r),
        hash_uint64_be (of_nat (span_size (rt_source_tree_manifest r))), hash_update (rt_source_tree_manifest r),
        hash_byte (if rt_source_is_dirty r then 1 else 0),
        hash_uint64_be (of_nat (span_size (rt_dirty_tree_manifest r))), hash_update (rt_dirty_tree_manifest r)]) (source_message r)"
    unfolding source_message_def by (rule v(1,2) assms(3) hashes_single hashes_intros)+
  from framed_digest_iff [OF this] show ?thesis
    using v(3) by (simp add: framed_source_identity_def del: run_steps.simps)
qed

lemma first_artifact:
  assumes "artifacts_ok maximum v" "collect_artifacts v maximum m a = Inr s"
  shows "as_order s \<noteq> []" "view_items v ! hd (as_order s) = hd (sort_by artifact_order (view_items v))"
proof -
  have s: "as_order s = sort_by (\<lambda>l r. artifact_order (view_items v ! l) (view_items v ! r)) [0..<length (view_items v)]"
    and n: "length (view_items v) \<noteq> 0"
    using assms view_items_length [of v] by (auto simp: collect_artifacts_iff artifacts_ok_def)
  have "length (as_order s) = length (view_items v)" by (simp add: s)
  then show ne: "as_order s \<noteq> []" using n by auto
  show "view_items v ! hd (as_order s) = hd (sort_by artifact_order (view_items v))"
    using sort_indices [of "view_items v" artifact_order] ne by (metis s list.map_sel(1))
qed

lemma collect_artifacts_Inr: "artifacts_ok maximum v \<Longrightarrow> \<exists>s. collect_artifacts v maximum m a = Inr s"
  using collect_artifacts_iff [of v maximum m a
      "\<lparr>as_order = sort_by (\<lambda>l r. artifact_order (view_items v ! l) (view_items v ! r)) [0..<view_count v],
        as_digests = map (sha256 \<circ> span_bytes \<circ> la_exact_bytes) (view_items v)\<rparr>"] by auto

lemma build_runtime_iff:
  "build_runtime_component r = Inr d \<longleftrightarrow> runtime_ok r \<and> written 6 (runtime_body r) d"
proof (cases "runtime_ok r")
  case True
  then obtain s po where plans: "collect_artifacts (rt_artifacts r) 1024 incomplete_build_abi incomplete_build_abi = Inr s"
      "collect_parameters (rt_build_options r) True = Inr po"
    using collect_artifacts_Inr by (fastforce simp: runtime_ok_def collect_parameters_iff)
  have ok: "artifacts_ok 1024 (rt_artifacts r)" "parameters_ok (rt_build_options r)"
      "valid_bytes (rt_toolchain_id r)" "valid_bytes (rt_state_abi_id r)"
    using True by (auto simp: runtime_ok_def registered_text_def valid_text_bytes)
  have source: "framed_source_identity r = Some (sha256 (source_message r))"
    using True framed_source_iff [of r] by (auto simp: runtime_ok_def)
  have body: "hashes (run_steps [cw_map 5,
      cw_unsigned 0, cw_digest (sha256 (source_message r)),
      cw_unsigned 1, encode_artifacts (rt_artifacts r) s,
      cw_unsigned 2, cw_text (rt_toolchain_id r),
      cw_unsigned 3, encode_parameters (rt_build_options r) po,
      cw_unsigned 4, cw_text (rt_state_abi_id r)]) (runtime_body r)"
    unfolding runtime_body_def
    by (rule hashes_artifacts [OF ok(1) plans(1)] hashes_parameters [OF ok(2) plans(2)] ok(3,4) hashes_single hashes_intros)+
  have "build_runtime_component r = write_component 6 (run_steps [cw_map 5,
      cw_unsigned 0, cw_digest (sha256 (source_message r)),
      cw_unsigned 1, encode_artifacts (rt_artifacts r) s,
      cw_unsigned 2, cw_text (rt_toolchain_id r),
      cw_unsigned 3, encode_parameters (rt_build_options r) po,
      cw_unsigned 4, cw_text (rt_state_abi_id r)])"
    using True plans source first_artifact [OF ok(1) plans(1)]
    by (auto simp: build_runtime_component_def runtime_ok_def registered_text_def simp del: run_steps.simps)
  then show ?thesis using write_component_iff [OF _ body, of 6 d] True by simp
next
  case False
  have "build_runtime_component r \<noteq> Inr d"
  proof
    assume b: "build_runtime_component r = Inr d"
    then obtain s po src where plans: "collect_artifacts (rt_artifacts r) 1024 incomplete_build_abi incomplete_build_abi = Inr s"
        "collect_parameters (rt_build_options r) True = Inr po" "framed_source_identity r = Some src"
      by (auto simp: build_runtime_component_def split: if_splits sum.splits option.splits)
    note b1 = b [unfolded build_runtime_component_def plans sum.case option.case]
    have ok: "artifacts_ok 1024 (rt_artifacts r)" "parameters_ok (rt_build_options r)"
      using plans by (simp_all add: collect_artifacts_iff collect_parameters_iff)
    have guards: "valid_text (rt_source_revision r) 128 \<and> \<not> mutable_source_revision (rt_source_revision r) \<and>
       nonempty_bytes (rt_source_tree_manifest r) \<and> registered_text (rt_toolchain_id r) \<and> registered_text (rt_state_abi_id r) \<and>
       rt_source_is_immutable r \<and> (rt_source_is_dirty r \<longrightarrow> nonempty_bytes (rt_dirty_tree_manifest r)) \<and>
       (\<not> rt_source_is_dirty r \<longrightarrow> span_size (rt_dirty_tree_manifest r) = 0) \<and> valid_bytes (rt_dirty_tree_manifest r) \<and>
       text_equal_literal (la_role (view_items (rt_artifacts r) ! hd (as_order s))) ''executable''"
      using b1 by (auto simp: registered_text_def split: if_splits)
    then show False
      using False ok plans(3) framed_source_iff [of r] first_artifact(2) [OF ok(1) plans(1)] by (auto simp: runtime_ok_def)
  qed
  then show ?thesis using False by simp
qed

definition global_message :: "live_topology \<Rightarrow> byte list" where
  "global_message t = domain_bytes ''halofpx.global-plan.v1'' @
     be_bytes 8 (of_nat (span_size (tp_global_plan t))) @ span_bytes (tp_global_plan t)"

definition ownership_message :: "live_rank \<Rightarrow> byte list" where
  "ownership_message r = domain_bytes ''halofpx.rank-ownership.v1'' @ be_bytes 4 (ucast (rk_logical_rank r)) @
     be_bytes 8 (of_nat (span_size (rk_ownership_plan r))) @ span_bytes (rk_ownership_plan r)"

definition placement_message :: "live_rank \<Rightarrow> byte list" where
  "placement_message r = domain_bytes ''halofpx.rank-placement.v1'' @ be_bytes 4 (ucast (rk_logical_rank r)) @
     be_bytes 2 (of_nat (span_size (rk_stable_endpoint_id r))) @ span_bytes (rk_stable_endpoint_id r) @
     be_bytes 2 (of_nat (span_size (rk_stable_device_id r))) @ span_bytes (rk_stable_device_id r) @
     be_bytes 8 (of_nat (span_size (rk_placement_plan r))) @ span_bytes (rk_placement_plan r)"

definition live_rank_bytes :: "live_rank \<Rightarrow> byte list" where
  "live_rank_bytes r = cbor_map 3 @ cbor_head 0 0 @ cbor_head 0 (ucast (rk_logical_rank r)) @
     cbor_head 0 1 @ cbor_bytes (sha256 (ownership_message r)) @ cbor_head 0 2 @ cbor_bytes (sha256 (placement_message r))"

definition live_topology_ok :: "live_topology \<Rightarrow> bool" where
  "live_topology_ok t \<longleftrightarrow> registered_text (tp_plan_schema_id t) \<and> registered_text (tp_execution_mode_id t) \<and>
     tp_world_size t = 2 \<and> \<not> view_null (tp_ranks t) \<and> view_count (tp_ranks t) = 2 \<and> tp_stable_topology_epoch t \<noteq> 0 \<and>
     nonempty_bytes (tp_global_plan t) \<and> (\<forall>i < 2. rank_acceptable i (view_items (tp_ranks t) ! i))"

definition topology_body :: "live_topology \<Rightarrow> byte list" where
  "topology_body t = cbor_map 1 @ cbor_head 0 0 @ cbor_map 6 @ cbor_head 0 0 @ cbor_text (span_bytes (tp_plan_schema_id t)) @
     cbor_head 0 1 @ cbor_text (span_bytes (tp_execution_mode_id t)) @ cbor_head 0 2 @ cbor_head 0 (ucast (tp_world_size t)) @
     cbor_head 0 3 @ cbor_bytes (sha256 (global_message t)) @ cbor_head 0 4 @ cbor_head 0 (tp_stable_topology_epoch t) @
     cbor_head 0 5 @ cbor_array (view_count (tp_ranks t)) @ concat (map live_rank_bytes (view_items (tp_ranks t)))"

lemma hashes_wide [hashes_intros]: "hashes (hash_uint32_be v) (be_bytes 4 (ucast v))"
proof -
  have "ucast (ucast v :: u64) = v" by (rule bit_word_eqI) (auto simp: bit_simps)
  then show ?thesis using hashes_integers(3) [of "ucast v"] by simp
qed

lemma rank_acceptable_facts:
  assumes "rank_acceptable i r"
  shows "valid_bytes (rk_stable_endpoint_id r)" "valid_bytes (rk_stable_device_id r)" "valid_bytes (rk_ownership_plan r)"
    "valid_bytes (rk_placement_plan r)" "span_size (rk_stable_endpoint_id r) \<le> 128" "span_size (rk_stable_device_id r) \<le> 128"
    "span_size (rk_ownership_plan r) \<le> unat hash_maximum" "span_size (rk_placement_plan r) \<le> unat hash_maximum"
  using assms by (auto simp: rank_acceptable_def valid_text_bytes nonempty_bytes_valid)

lemma framed_plans:
  assumes "rank_acceptable i r"
  shows "framed_rank_ownership r = Some d \<Longrightarrow> d = sha256 (ownership_message r)"
    and "framed_rank_placement r = Some d \<Longrightarrow> d = sha256 (placement_message r)"
proof -
  note r = rank_acceptable_facts [OF assms]
  have "hashes (run_steps [hash_update (Span (domain_bytes ''halofpx.rank-ownership.v1'')), hash_uint32_be (rk_logical_rank r),
       hash_uint64_be (of_nat (span_size (rk_ownership_plan r))), hash_update (rk_ownership_plan r)]) (ownership_message r)"
    unfolding ownership_message_def by (rule r hashes_single hashes_intros)+
  from framed_digest_iff [OF this] show "framed_rank_ownership r = Some d \<Longrightarrow> d = sha256 (ownership_message r)"
    by (simp add: framed_rank_ownership_def del: run_steps.simps)
  have "hashes (run_steps [hash_update (Span (domain_bytes ''halofpx.rank-placement.v1'')), hash_uint32_be (rk_logical_rank r),
        hash_uint16_be (of_nat (span_size (rk_stable_endpoint_id r))), hash_update (rk_stable_endpoint_id r),
        hash_uint16_be (of_nat (span_size (rk_stable_device_id r))), hash_update (rk_stable_device_id r),
        hash_uint64_be (of_nat (span_size (rk_placement_plan r))), hash_update (rk_placement_plan r)]) (placement_message r)"
    unfolding placement_message_def by (rule r hashes_single hashes_intros)+
  from framed_digest_iff [OF this] show "framed_rank_placement r = Some d \<Longrightarrow> d = sha256 (placement_message r)"
    by (auto simp: framed_rank_placement_def simp del: run_steps.simps split: if_splits)
qed

lemma collect_ranks_Some:
  "collect_ranks prior rs facts = Some f \<Longrightarrow> (\<forall>i < length rs. rank_acceptable (length prior + i) (rs ! i)) \<and>
     rf_ownership f = rf_ownership facts @ map (sha256 \<circ> ownership_message) rs \<and>
     rf_placement f = rf_placement facts @ map (sha256 \<circ> placement_message) rs"
proof (induction rs arbitrary: prior facts)
  case (Cons r rs)
  from Cons.prems obtain raw where r: "rank_acceptable (length prior) r" and
    rec: "collect_ranks (prior @ [r]) rs \<lparr>rf_raw = raw, rf_ownership = rf_ownership facts @ [sha256 (ownership_message r)],
        rf_placement = rf_placement facts @ [sha256 (placement_message r)]\<rparr> = Some f"
    by (auto dest: framed_plans split: if_splits option.splits)
  from Cons.IH [OF rec] show ?case using r by (auto simp: All_less_Suc2)
qed simp

lemma build_topology_Inr:
  assumes "build_topology_component t = Inr d"
  shows "live_topology_ok t" "written 14 (topology_body t) d"
proof -
  have guards: "registered_text (tp_plan_schema_id t) \<and> registered_text (tp_execution_mode_id t) \<and>
     tp_world_size t = 2 \<and> \<not> view_null (tp_ranks t) \<and> view_count (tp_ranks t) = 2 \<and> tp_stable_topology_epoch t \<noteq> 0 \<and>
     nonempty_bytes (tp_global_plan t)"
    using assms unfolding build_topology_component_def registered_text_def by (simp split: if_splits)
  from assms obtain raw f g where f: "collect_ranks [] (view_items (tp_ranks t)) \<lparr>rf_raw = [raw], rf_ownership = [], rf_placement = []\<rparr> = Some f"
    and g: "framed_global_plan (tp_global_plan t) = Some g" and w: "write_component 14 (run_steps [cw_map 1, cw_unsigned 0, cw_map 6,
       cw_unsigned 0, cw_text (tp_plan_schema_id t), cw_unsigned 1, cw_text (tp_execution_mode_id t),
       cw_unsigned 2, cw_unsigned (ucast (tp_world_size t)), cw_unsigned 3, cw_digest g,
       cw_unsigned 4, cw_unsigned (tp_stable_topology_epoch t), cw_unsigned 5, cw_array (view_count (tp_ranks t)),
       run_steps (map (\<lambda>index.
         run_steps [cw_map 3, cw_unsigned 0, cw_unsigned (ucast (rk_logical_rank (view_items (tp_ranks t) ! index))),
           cw_unsigned 1, cw_digest (rf_ownership f ! index), cw_unsigned 2, cw_digest (rf_placement f ! index)])
         [0..<view_count (tp_ranks t)])]) = Inr d"
    unfolding build_topology_component_def by (auto simp del: run_steps.simps split: if_splits option.splits)
  have n: "length (view_items (tp_ranks t)) = view_count (tp_ranks t)" "view_count (tp_ranks t) = 2"
    using guards view_items_length [of "tp_ranks t"] by simp_all
  note ranks = collect_ranks_Some [OF f, simplified]
  show "live_topology_ok t" using guards ranks n by (simp add: live_topology_ok_def)
  have texts: "valid_bytes (tp_plan_schema_id t)" "valid_bytes (tp_execution_mode_id t)" "valid_bytes (tp_global_plan t)"
    using guards by (auto simp: registered_text_def valid_text_bytes nonempty_bytes_valid)
  have "hashes (run_steps [hash_update (Span (domain_bytes ''halofpx.global-plan.v1'')),
      hash_uint64_be (of_nat (span_size (tp_global_plan t))), hash_update (tp_global_plan t)]) (global_message t)"
    unfolding global_message_def by (rule texts hashes_single hashes_intros)+
  from framed_digest_iff [OF this] g have g: "g = sha256 (global_message t)"
    by (simp add: framed_global_plan_def del: run_steps.simps)
  have one: "hashes (run_steps [cw_map 3, cw_unsigned 0, cw_unsigned (ucast (rk_logical_rank (view_items (tp_ranks t) ! i))),
      cw_unsigned 1, cw_digest (rf_ownership f ! i), cw_unsigned 2, cw_digest (rf_placement f ! i)])
      (live_rank_bytes (view_items (tp_ranks t) ! i))" if "i \<in> set [0..<view_count (tp_ranks t)]" for i
  proof -
    have "rf_ownership f ! i = sha256 (ownership_message (view_items (tp_ranks t) ! i))"
      "rf_placement f ! i = sha256 (placement_message (view_items (tp_ranks t) ! i))"
      using ranks that n by simp_all
    then show ?thesis unfolding live_rank_bytes_def by (simp only:) (rule hashes_single hashes_intros)+
  qed
  have items: "map live_rank_bytes (view_items (tp_ranks t)) = map (\<lambda>i. live_rank_bytes (view_items (tp_ranks t) ! i)) [0..<view_count (tp_ranks t)]"
    using map_nth [of "view_items (tp_ranks t)"] n(1) by (metis list.map_comp comp_def map_cong)
  have "hashes (run_steps [cw_map 1, cw_unsigned 0, cw_map 6,
       cw_unsigned 0, cw_text (tp_plan_schema_id t), cw_unsigned 1, cw_text (tp_execution_mode_id t),
       cw_unsigned 2, cw_unsigned (ucast (tp_world_size t)), cw_unsigned 3, cw_digest g,
       cw_unsigned 4, cw_unsigned (tp_stable_topology_epoch t), cw_unsigned 5, cw_array (view_count (tp_ranks t)),
       run_steps (map (\<lambda>index.
         run_steps [cw_map 3, cw_unsigned 0, cw_unsigned (ucast (rk_logical_rank (view_items (tp_ranks t) ! index))),
           cw_unsigned 1, cw_digest (rf_ownership f ! index), cw_unsigned 2, cw_digest (rf_placement f ! index)])
         [0..<view_count (tp_ranks t)])]) (topology_body t)"
    unfolding topology_body_def items g by (rule texts hashes_map one hashes_single hashes_intros | assumption)+
  from write_component_iff [OF _ this, of 14 d] w show "written 14 (topology_body t) d" by simp
qed

end
