(* ===== verification/Live_Facts.thy ===== *)
theory Live_Facts
  imports Live_Components
begin

text \<open>
  What the live authority builder promises: tensor locations lie inside their shards and do not
  overlap, the order in which the caller lists artifacts, metadata, tensors, tokens, special tokens,
  parameters and supplements does not matter, and the root binds every fact of the inputs.
\<close>

subsection \<open>Tensor locations\<close>

lemma distinct_orders_cover:
  assumes "distinct (map la_semantic_order xs)" "\<forall>a \<in> set xs. unat (la_semantic_order a) < length xs" "k < length xs"
  shows "\<exists>a \<in> set xs. unat (la_semantic_order a) = k"
proof -
  let ?f = "\<lambda>a. unat (la_semantic_order a)"
  have "distinct (map ?f xs)"
    using assms(1) by (simp add: distinct_map inj_on_def word_unat_eq_iff)
  then have "card (?f ` set xs) = length xs" using distinct_card [of "map ?f xs"] by simp
  then have "?f ` set xs = {..<length xs}"
    using assms(2) by (intro card_subset_eq) auto
  then have "k \<in> ?f ` set xs" using assms(3) by simp
  then show ?thesis by auto
qed

lemma sorted_apart:
  assumes ok: "list_all (tensor_acceptable n sizes) xs" and clash: "\<not> adjacent tensor_clash (sort_by tensor_less xs)"
    and ij: "i < j" "j < length xs" and same: "lt_shard_order (sort_by tensor_less xs ! i) = lt_shard_order (sort_by tensor_less xs ! j)"
  shows "tensor_end (sort_by tensor_less xs ! i) \<le> unat (lt_container_offset (sort_by tensor_less xs ! j))"
proof -
  let ?ys = "sort_by tensor_less xs"
  have acc: "tensor_acceptable n sizes (?ys ! k)" if "k < length xs" for k
    using ok that by (metis length_sort_by list_all_iff nth_mem set_sort_by)
  have sorted: "sorted_wrt (\<lambda>a b. \<not> tensor_less b a) ?ys"
    using ok by (intro tensor_order.sorted_sort_by) (auto simp: list_all_iff tensor_acceptable_facts(1))
  have mono: "lt_shard_order (?ys ! k) \<le> lt_shard_order (?ys ! l)" if "k < l" "l < length xs" for k l
    using sorted_wrt_nth_less [OF sorted, of k l] that by (auto simp: tensor_less_def not_less split: if_splits)
  show ?thesis
    using ij same
  proof (induction j)
    case (Suc j)
    have j: "lt_shard_order (?ys ! i) = lt_shard_order (?ys ! j)" "lt_shard_order (?ys ! j) = lt_shard_order (?ys ! Suc j)"
      using Suc.prems mono [of i j] mono [of j "Suc j"] by (cases "i = j"; fastforce)+
    have "\<not> tensor_clash (?ys ! j) (?ys ! Suc j)"
      using clash Suc.prems(2) by (auto simp: adjacent_iff)
    then have step: "tensor_end (?ys ! j) \<le> unat (lt_container_offset (?ys ! Suc j))"
      using tensor_clash_iff [OF acc [of j] j(2)] Suc.prems(2) by simp
    show ?case
    proof (cases "i = j")
      case False
      then have "tensor_end (?ys ! i) \<le> unat (lt_container_offset (?ys ! j))"
        using Suc.IH Suc.prems j(1) by simp
      then show ?thesis using step by (simp add: tensor_end_def)
    qed (use step in simp)
  qed simp
qed

definition apart :: "live_tensor \<Rightarrow> live_tensor \<Rightarrow> bool" where
  "apart t u \<longleftrightarrow> lt_shard_order t = lt_shard_order u \<longrightarrow>
     tensor_end t \<le> unat (lt_container_offset u) \<or> tensor_end u \<le> unat (lt_container_offset t)"

lemma all_apart:
  assumes "list_all (tensor_acceptable n sizes) xs" "\<not> adjacent tensor_clash (sort_by tensor_less xs)"
    and "t \<in> set xs" "u \<in> set xs" "t \<noteq> u"
  shows "apart t u"
proof -
  obtain i j where "i < length xs" "t = sort_by tensor_less xs ! i" "j < length xs" "u = sort_by tensor_less xs ! j"
    using assms(3,4) by (metis in_set_conv_nth length_sort_by set_sort_by)
  then show ?thesis
    using assms(5) sorted_apart [OF assms(1,2), of i j] sorted_apart [OF assms(1,2), of j i]
    by (cases "i < j"; cases "j < i") (auto simp: apart_def)
qed

text \<open>
  C18: Tensor locations. When the shard table and the tensor plan of a model are accepted, every
  tensor is non-empty and lies, without overflow, inside the bytes of the shard it names, and no two
  tensors of a shard share a byte.
\<close>
theorem tensor_locations_sound:
  assumes "shard_table n shards (replicate n False) (replicate n 0) = Some sizes" "n = length shards"
    and "tensor_plan n sizes (Array_View tensors) = Inr order"
  shows "list_all (\<lambda>t. 0 < unat (lt_encoded_bytes t) \<and> list_ex (\<lambda>s. la_semantic_order s = lt_shard_order t \<and>
        unat (lt_container_offset t) + unat (lt_encoded_bytes t) \<le> span_size (la_exact_bytes s)) shards) tensors \<and>
    distinct tensors \<and> list_all (\<lambda>t. list_all (\<lambda>u. t = u \<or> apart t u) tensors) tensors"
proof -
  have shards: "list_all (nonempty_bytes \<circ> la_exact_bytes) shards" "distinct (map la_semantic_order shards)"
      "\<forall>a \<in> set shards. unat (la_semantic_order a) < n"
      "sizes = foldl (\<lambda>s a. s[unat (la_semantic_order a) := shard_size a]) (replicate n 0) shards"
    using assms(1) by (auto simp: shard_table_iff)
  have plan: "list_all (tensor_acceptable n sizes) tensors" "\<not> adjacent tensor_clash (sort_by tensor_less tensors)"
      "distinct (map (\<lambda>t. span_bytes (lt_name t)) tensors)"
    using assms(3) by (simp_all add: tensor_plan_iff tensors_ok_def)
  have "0 < unat (lt_encoded_bytes t) \<and> (\<exists>s \<in> set shards. la_semantic_order s = lt_shard_order t \<and>
      unat (lt_container_offset t) + unat (lt_encoded_bytes t) \<le> span_size (la_exact_bytes s))" if "t \<in> set tensors" for t
  proof -
    note t = tensor_acceptable_facts [of n sizes t]
    have acc: "tensor_acceptable n sizes t" using plan(1) that by (simp add: list_all_iff)
    obtain s where s: "s \<in> set shards" "unat (la_semantic_order s) = unat (lt_shard_order t)"
      using distinct_orders_cover [OF shards(2), of "unat (lt_shard_order t)"] shards(3) t(4) [OF acc] assms(2) by auto
    have "sizes ! unat (la_semantic_order s) = shard_size s"
      using fold_sizes(2) [OF shards(2), of "replicate n 0" s] shards(3,4) s(1) by simp
    moreover have "span_size (la_exact_bytes s) \<le> unat hash_maximum"
      using shards(1) s(1) by (auto simp: list_all_iff nonempty_bytes_def)
    then have "unat (shard_size s) = span_size (la_exact_bytes s)"
      by (simp add: shard_size_def unat_of_nat hash_maximum_def)
    ultimately have "tensor_end t \<le> span_size (la_exact_bytes s)" using t(9) [OF acc] s(2) by simp
    then show ?thesis using t(7) [OF acc] s by (auto simp: tensor_end_def word_unat_eq_iff)
  qed
  moreover have "distinct tensors" using plan(3) by (simp add: distinct_map)
  moreover have "\<forall>t \<in> set tensors. \<forall>u \<in> set tensors. t = u \<or> apart t u"
    using all_apart [OF plan(1,2)] by blast
  ultimately show ?thesis by (simp add: list_all_iff list_ex_iff)
qed

definition sample_artifact :: "string \<Rightarrow> u64 \<Rightarrow> nat \<Rightarrow> live_artifact" where
  "sample_artifact role order n =
     \<lparr>la_role = Span (ascii_bytes role), la_semantic_order = order, la_exact_bytes = Span (replicate n 7)\<rparr>"

definition sample_tensor :: "string \<Rightarrow> u64 \<Rightarrow> u64 \<Rightarrow> u64 \<Rightarrow> live_tensor" where
  "sample_tensor name shard offset bytes =
     \<lparr>lt_name = Span (ascii_bytes name), lt_shard_order = shard, lt_dimensions = Array_View [4, 2], lt_tensor_type = 1,
      lt_container_offset = offset, lt_encoded_bytes = bytes\<rparr>"

definition sample_shards :: "live_artifact list" where
  "sample_shards = [sample_artifact ''b'' 1 4, sample_artifact ''a'' 0 9]"

definition sample_tensors :: "live_tensor list" where
  "sample_tensors = [sample_tensor ''y'' 0 5 4, sample_tensor ''z'' 1 0 4, sample_tensor ''x'' 0 0 5]"

lemma unat_hash_maximum: "unat hash_maximum = 2305843009213693951"
  by (simp add: hash_maximum_def)

lemma replicate_two: "replicate 2 x = [x, x]"
  by (simp add: numeral_2_eq_2)

lemma sample_text_names [simp]:
  "ascii_bytes ''x'' = [0x78]" "ascii_bytes ''y'' = [0x79]" "ascii_bytes ''z'' = [0x7a]"
  by (simp_all add: ascii_bytes_def of_char_def)

lemma sample_plan:
  "shard_table 2 sample_shards (replicate 2 False) (replicate 2 0) = Some [9, 4]"
  "\<exists>order. tensor_plan 2 [9, 4] (Array_View sample_tensors) = Inr order"
proof -
  show "shard_table 2 sample_shards (replicate 2 False) (replicate 2 0) = Some [9, 4]"
    by (simp add: replicate_two sample_shards_def sample_artifact_def nonempty_bytes_def unat_hash_maximum)
  have "list_all (tensor_acceptable 2 [9, 4]) sample_tensors"
    by (simp add: sample_tensors_def sample_tensor_def tensor_acceptable_def valid_text_def)
  moreover have "sort_by tensor_less sample_tensors = [sample_tensor ''x'' 0 0 5, sample_tensor ''y'' 0 5 4, sample_tensor ''z'' 1 0 4]"
    by (simp add: sample_tensors_def sample_tensor_def tensor_less_def)
  moreover have "\<not> adjacent tensor_clash [sample_tensor ''x'' 0 0 5, sample_tensor ''y'' 0 5 4, sample_tensor ''z'' 1 0 4]"
    unfolding adjacent_iff
  proof clarify
    fix i
    assume i: "Suc i < length [sample_tensor ''x'' 0 0 5, sample_tensor ''y'' 0 5 4, sample_tensor ''z'' 1 0 4]"
      and clash: "tensor_clash ([sample_tensor ''x'' 0 0 5, sample_tensor ''y'' 0 5 4, sample_tensor ''z'' 1 0 4] ! i)
        ([sample_tensor ''x'' 0 0 5, sample_tensor ''y'' 0 5 4, sample_tensor ''z'' 1 0 4] ! Suc i)"
    then consider "i = 0" | "i = 1" by force
    then show False using clash by cases (simp_all add: sample_tensor_def tensor_clash_def)
  qed
  ultimately show "\<exists>order. tensor_plan 2 [9, 4] (Array_View sample_tensors) = Inr order"
    by (simp add: tensor_plan_iff tensors_ok_def sample_text_names) (simp add: sample_tensors_def sample_tensor_def)
qed

theorem tensor_locations_sound_witness:
  "distinct sample_tensors \<and> list_all (\<lambda>t. list_all (\<lambda>u. t = u \<or> apart t u) sample_tensors) sample_tensors"
proof -
  obtain order where "tensor_plan 2 [9, 4] (Array_View sample_tensors) = Inr order" using sample_plan(2) by blast
  then show ?thesis using tensor_locations_sound [OF sample_plan(1)] by (simp add: sample_shards_def)
qed

subsection \<open>Supplements\<close>

definition supplement_ok :: "supplement_validator \<Rightarrow> live_supplement \<Rightarrow> bool" where
  "supplement_ok validator s \<longleftrightarrow> sp_component_index s < 16 \<and> \<not> is_derived_component (sp_component_index s) \<and>
     \<not> supplement_refused (sp_exact_preimage s) \<and> validator (sp_component_index s) (sp_exact_preimage s) \<and>
     nonzero (sha256 (span_bytes (sp_exact_preimage s)))"

abbreviation raw_digest :: "live_supplement \<Rightarrow> digest" where
  "raw_digest s \<equiv> sha256 (span_bytes (sp_exact_preimage s))"

lemma map_supplements_iff:
  assumes "length mapped = 16" "distinct raws"
  shows "map_supplements validator xs raws mapped = Inr m \<longleftrightarrow> list_all (supplement_ok validator) xs \<and>
     distinct (map sp_component_index xs) \<and> (\<forall>s \<in> set xs. mapped ! sp_component_index s = None) \<and>
     distinct (raws @ map raw_digest xs) \<and>
     m = foldl (\<lambda>m s. m[sp_component_index s := Some s]) mapped xs"
  using assms
proof (induction xs arbitrary: raws mapped)
  case (Cons x xs)
  let ?i = "sp_component_index x"
  show ?case
  proof (cases "supplement_ok validator x \<and> mapped ! ?i = None \<and> raw_digest x \<notin> set raws")
    case True
    then have "nonempty_bytes (sp_exact_preimage x)" by (simp add: supplement_ok_def supplement_refused_def)
    then have h: "hash_exact_bytes (sp_exact_preimage x) = Some (raw_digest x)"
      using True by (simp add: hash_nonempty supplement_ok_def)
    have tail: "map_supplements validator (x # xs) raws mapped =
        map_supplements validator xs (raws @ [raw_digest x]) (mapped[?i := Some x])"
      using True Cons.prems h by (auto simp: supplement_ok_def list_ex_iff)
    have rest: "map_supplements validator xs (raws @ [raw_digest x]) (mapped[?i := Some x]) = Inr m \<longleftrightarrow>
        list_all (supplement_ok validator) xs \<and> distinct (map sp_component_index xs) \<and>
        (\<forall>s \<in> set xs. mapped[?i := Some x] ! sp_component_index s = None) \<and>
        distinct ((raws @ [raw_digest x]) @ map raw_digest xs) \<and>
        m = foldl (\<lambda>m s. m[sp_component_index s := Some s]) (mapped[?i := Some x]) xs"
      using True Cons.prems by (intro Cons.IH) auto
    have i: "?i < length mapped" using True Cons.prems by (simp add: supplement_ok_def)
    have "(\<forall>s \<in> set xs. mapped[?i := Some x] ! sp_component_index s = None) \<longleftrightarrow>
        ?i \<notin> set (map sp_component_index xs) \<and> (\<forall>s \<in> set xs. mapped ! sp_component_index s = None)"
      using i by (auto simp: nth_list_update image_iff)
    then show ?thesis unfolding tail rest using True by (simp add: conj_ac)
  next
    case False
    have "map_supplements validator (x # xs) raws mapped \<noteq> Inr m"
    proof
      assume r: "map_supplements validator (x # xs) raws mapped = Inr m"
      then have "?i < 16 \<and> \<not> is_derived_component ?i \<and> mapped ! ?i = None \<and> \<not> supplement_refused (sp_exact_preimage x)"
        using Cons.prems by (auto split: if_splits)
      moreover from r obtain d where d: "hash_exact_bytes (sp_exact_preimage x) = Some d"
        by (auto split: if_splits option.splits)
      moreover have "validator ?i (sp_exact_preimage x) \<and> \<not> list_ex (\<lambda>prior. prior = d) raws"
        using r by (simp add: d split: if_splits)
      ultimately show False using False by (auto simp: supplement_ok_def hash_exact_bytes_iff list_ex_iff)
    qed
    then show ?thesis using False by auto
  qed
qed auto

lemma fold_supplements:
  assumes "distinct (map sp_component_index xs)" "\<forall>s \<in> set xs. sp_component_index s < length mapped"
  shows "length (foldl (\<lambda>m s. m[sp_component_index s := Some s]) mapped xs) = length mapped"
    and "i < length mapped \<Longrightarrow> foldl (\<lambda>m s. m[sp_component_index s := Some s]) mapped xs ! i =
       (case find (\<lambda>s. sp_component_index s = i) xs of None \<Rightarrow> mapped ! i | Some s \<Rightarrow> Some s)"
proof -
  let ?put = "foldl (\<lambda>m s. m[sp_component_index s := Some s])"
  have other: "?put ms ys ! i = ms ! i" if "i \<notin> sp_component_index ` set ys" for ms ys i
    using that by (induction ys arbitrary: ms) auto
  show "length (?put mapped xs) = length mapped"
    by (induction xs arbitrary: mapped) auto
  show "i < length mapped \<Longrightarrow> ?put mapped xs ! i =
       (case find (\<lambda>s. sp_component_index s = i) xs of None \<Rightarrow> mapped ! i | Some s \<Rightarrow> Some s)"
    using assms
  proof (induction xs arbitrary: mapped)
    case (Cons x xs)
    then show ?case by (cases "sp_component_index x = i") (auto simp: other split: option.splits)
  qed simp
qed

definition supplements_ok :: "live_inputs \<Rightarrow> supplement_validator \<Rightarrow> bool" where
  "supplements_ok inputs validator \<longleftrightarrow> \<not> view_null (li_supplements inputs) \<and> view_count (li_supplements inputs) = 10 \<and>
     list_all (supplement_ok validator) (view_items (li_supplements inputs)) \<and>
     distinct (map sp_component_index (view_items (li_supplements inputs))) \<and>
     distinct (map raw_digest (view_items (li_supplements inputs))) \<and>
     list_all (\<lambda>i. is_derived_component i \<or> i \<in> set (map sp_component_index (view_items (li_supplements inputs)))) [0..<16]"

definition supplement_of :: "live_inputs \<Rightarrow> nat \<Rightarrow> live_supplement option" where
  "supplement_of inputs index = find (\<lambda>s. sp_component_index s = index) (view_items (li_supplements inputs))"

lemma collect_supplements_iff:
  "collect_supplements inputs validator = Inr m \<longleftrightarrow> supplements_ok inputs validator \<and> m = map (supplement_of inputs) [0..<16]"
proof (cases "view_null (li_supplements inputs) \<or> view_count (li_supplements inputs) \<noteq> 10")
  case True
  then show ?thesis by (auto simp: collect_supplements_def supplements_ok_def)
next
  case guards: False
  let ?xs = "view_items (li_supplements inputs)"
  have found: "find (\<lambda>s. sp_component_index s = i) ?xs = None \<longleftrightarrow> i \<notin> set (map sp_component_index ?xs)" for i
    by (auto simp: find_None_iff)
  show ?thesis
  proof (cases "list_all (supplement_ok validator) ?xs \<and> distinct (map sp_component_index ?xs) \<and> distinct (map raw_digest ?xs)")
    case True
    let ?m = "foldl (\<lambda>m s. m[sp_component_index s := Some s]) (replicate 16 None) ?xs"
    have below: "\<forall>s \<in> set ?xs. sp_component_index s < 16" using True by (auto simp: list_all_iff supplement_ok_def)
    then have r: "map_supplements validator ?xs [] (replicate 16 None) = Inr ?m"
      using True map_supplements_iff [of "replicate 16 None" "[]" validator ?xs ?m] by auto
    have len: "length ?m = 16" using fold_supplements(1) [of ?xs "replicate 16 None"] True below by simp
    have nth: "?m ! i = supplement_of inputs i" if "i < 16" for i
      using fold_supplements(2) [of ?xs "replicate 16 None" i] True below that by (auto simp: supplement_of_def split: option.splits)
    have m: "?m = map (supplement_of inputs) [0..<16]"
      using len nth by (intro nth_equalityI) auto
    have "list_ex (\<lambda>index. \<not> is_derived_component index \<and> ?m ! index = None) [0..<length ?m] \<longleftrightarrow>
        \<not> list_all (\<lambda>i. is_derived_component i \<or> i \<in> set (map sp_component_index ?xs)) [0..<16]"
      unfolding len using nth found by (auto simp: list_ex_iff list_all_iff supplement_of_def)
    then show ?thesis
      using guards True r unfolding m [symmetric] collect_supplements_def supplements_ok_def by auto
  next
    case False
    then have "\<not> supplements_ok inputs validator" by (auto simp: supplements_ok_def)
    moreover have "\<nexists>m. map_supplements validator ?xs [] (replicate 16 None) = Inr m"
      using False map_supplements_iff [of "replicate 16 None" "[]" validator ?xs] by auto
    ultimately show ?thesis
      using guards by (auto simp: collect_supplements_def split: sum.splits)
  qed
qed

subsection \<open>The sixteen messages\<close>

definition component_body :: "live_inputs \<Rightarrow> nat \<Rightarrow> byte list" where
  "component_body inputs index =
     (if index = 0 then model_body (li_model inputs)
      else if index = 1 then metadata_component_body (li_model inputs)
      else if index = 2 then tokenizer_body (li_tokenizer inputs)
      else if index = 3 then template_body (li_chat_template inputs)
      else if index = 6 then runtime_body (li_runtime inputs)
      else if index = 14 then topology_body (li_topology inputs)
      else span_bytes (sp_exact_preimage (the (supplement_of inputs index))))"

definition component_message :: "live_inputs \<Rightarrow> nat \<Rightarrow> byte list" where
  "component_message inputs index = component_prefix index @ component_body inputs index"

lemma derived_digests_Inr:
  "derived_digests inputs = Inr ds \<Longrightarrow> \<exists>d0 d1 d2 d3 d6 d14.
     build_model_bytes_component (li_model inputs) = Inr d0 \<and> build_model_metadata_component (li_model inputs) = Inr d1 \<and>
     build_tokenizer_component (li_tokenizer inputs) = Inr d2 \<and> build_chat_template_component (li_chat_template inputs) = Inr d3 \<and>
     build_runtime_component (li_runtime inputs) = Inr d6 \<and> build_topology_component (li_topology inputs) = Inr d14 \<and>
     ds = (replicate 16 zero_digest)[0 := d0, 1 := d1, 2 := d2, 3 := d3, 6 := d6, 14 := d14]"
  by (auto simp: derived_digests_def Let_def split: sum.splits)

definition inputs_ok :: "live_inputs \<Rightarrow> supplement_validator \<Rightarrow> bool" where
  "inputs_ok inputs validator \<longleftrightarrow> model_bytes_ok (li_model inputs) \<and> metadata_component_ok (li_model inputs) \<and>
     tokenizer_ok (li_tokenizer inputs) \<and> template_ok (li_chat_template inputs) \<and> runtime_ok (li_runtime inputs) \<and>
     live_topology_ok (li_topology inputs) \<and> supplements_ok inputs validator"

lemma is_derived_iff: "is_derived_component i \<longleftrightarrow> i = 0 \<or> i = 1 \<or> i = 2 \<or> i = 3 \<or> i = 6 \<or> i = 14"
  by (auto simp: is_derived_component_def)

lemma derived_digests_written:
  assumes "derived_digests inputs = Inr ds"
  shows "length ds = 16"
    and "model_bytes_ok (li_model inputs) \<and> metadata_component_ok (li_model inputs) \<and>
     tokenizer_ok (li_tokenizer inputs) \<and> template_ok (li_chat_template inputs) \<and> runtime_ok (li_runtime inputs) \<and>
     live_topology_ok (li_topology inputs)"
    and "is_derived_component i \<Longrightarrow> written i (component_body inputs i) (ds ! i)"
proof -
  obtain d0 d1 d2 d3 d6 d14 where
    d: "build_model_bytes_component (li_model inputs) = Inr d0" "build_model_metadata_component (li_model inputs) = Inr d1"
     "build_tokenizer_component (li_tokenizer inputs) = Inr d2" "build_chat_template_component (li_chat_template inputs) = Inr d3"
     "build_runtime_component (li_runtime inputs) = Inr d6" "build_topology_component (li_topology inputs) = Inr d14"
    and ds: "ds = (replicate 16 zero_digest)[0 := d0, 1 := d1, 2 := d2, 3 := d3, 6 := d6, 14 := d14]"
    using derived_digests_Inr [OF assms] by blast
  note zero = d(1) [unfolded build_model_bytes_iff]
  note iffs = zero d(2) [unfolded build_model_metadata_iff [OF conjunct1 [OF zero]]] d(3) [unfolded build_tokenizer_iff]
    d(4) [unfolded build_template_iff] d(5) [unfolded build_runtime_iff] build_topology_Inr [OF d(6)]
  show "length ds = 16" by (simp add: ds)
  show "model_bytes_ok (li_model inputs) \<and> metadata_component_ok (li_model inputs) \<and>
     tokenizer_ok (li_tokenizer inputs) \<and> template_ok (li_chat_template inputs) \<and> runtime_ok (li_runtime inputs) \<and>
     live_topology_ok (li_topology inputs)" using iffs by simp
  have nth: "ds ! 0 = d0" "ds ! 1 = d1" "ds ! 2 = d2" "ds ! 3 = d3" "ds ! 6 = d6" "ds ! 14 = d14"
    by (simp_all add: ds nth_list_update)
  show "is_derived_component i \<Longrightarrow> written i (component_body inputs i) (ds ! i)"
    unfolding is_derived_iff using iffs by (elim disjE) (simp_all add: component_body_def nth nth [simplified])
qed

lemma build_supplements_Inr:
  "build_supplements supplements ks ds = Inr es \<Longrightarrow> list_all (\<lambda>i. i < length ds) ks \<Longrightarrow> distinct ks \<Longrightarrow>
     length es = length ds \<and> (\<forall>i. (i \<notin> set ks \<or> is_derived_component i \<longrightarrow> es ! i = ds ! i) \<and>
       (i \<in> set ks \<and> \<not> is_derived_component i \<longrightarrow> build_supplement_component (the (supplements ! i)) = Inr (es ! i)))"
proof (induction ks arbitrary: ds)
  case (Cons k ks)
  show ?case
  proof (cases "is_derived_component k")
    case True
    then show ?thesis using Cons.IH [of ds] Cons.prems by auto
  next
    case False
    then obtain d where d: "build_supplement_component (the (supplements ! k)) = Inr d"
      using Cons.prems(1) by (auto split: sum.splits)
    then have "build_supplements supplements ks (ds[k := d]) = Inr es" using False Cons.prems(1) by simp
    from Cons.IH [OF this] have IH: "length es = length ds \<and> (\<forall>i. (i \<notin> set ks \<or> is_derived_component i \<longrightarrow> es ! i = ds[k := d] ! i) \<and>
       (i \<in> set ks \<and> \<not> is_derived_component i \<longrightarrow> build_supplement_component (the (supplements ! i)) = Inr (es ! i)))"
      using Cons.prems by simp
    have "es ! k = d" using IH Cons.prems by simp
    moreover have "ds[k := d] ! i = ds ! i" if "i \<noteq> k" for i using that by simp
    ultimately show ?thesis using IH False d by (metis set_ConsD list.set_intros)
  qed
qed simp

text \<open>No builder reports success as a failure.\<close>

lemma check_artifacts_failed:
  "m \<noteq> live_built \<Longrightarrow> a \<noteq> live_built \<Longrightarrow> check_artifacts m a prior xs \<noteq> Inl live_built"
  by (induction xs arbitrary: prior) (auto split: option.splits sum.splits)

lemma collect_artifacts_failed:
  "m \<noteq> live_built \<Longrightarrow> a \<noteq> live_built \<Longrightarrow> collect_artifacts v maximum m a \<noteq> Inl live_built"
  using check_artifacts_failed [of m a "[]" "view_items v"] by (auto simp: collect_artifacts_def Let_def split: sum.splits)

lemma plans_failed:
  "write_component i f \<noteq> Inl live_built" "metadata_plan v1 \<noteq> Inl live_built" "tensor_plan n ss v2 \<noteq> Inl live_built"
  "token_plan v3 \<noteq> Inl live_built" "merge_check v4 \<noteq> Some live_built" "special_plan n v5 \<noteq> Inl live_built"
  "policy_plan v6 \<noteq> Inl live_built"
  by (simp_all add: write_component_def metadata_plan_def tensor_plan_def token_plan_def merge_check_def special_plan_def
    policy_plan_def Let_def split: option.splits sum.splits)

lemma builders_failed:
  "build_model_bytes_component m \<noteq> Inl live_built" "build_model_metadata_component m \<noteq> Inl live_built"
  "build_tokenizer_component t \<noteq> Inl live_built" "build_chat_template_component c \<noteq> Inl live_built"
  "build_runtime_component r \<noteq> Inl live_built" "build_topology_component p \<noteq> Inl live_built"
proof -
  note f = plans_failed collect_artifacts_failed
  show "build_model_bytes_component m \<noteq> Inl live_built"
    using f(8) [of missing_model_artifact ambiguous_shard_plan] f(1)
    by (auto simp: build_model_bytes_component_def simp del: run_steps.simps split: sum.splits)
  show "build_model_metadata_component m \<noteq> Inl live_built"
    using f(1-3) by (auto simp: build_model_metadata_component_def Let_def simp del: run_steps.simps split: sum.splits option.splits)
  show "build_tokenizer_component t \<noteq> Inl live_built"
    using f(8) [of incomplete_tokenizer ambiguous_tokenizer] f(1,4-7)
    by (auto simp: build_tokenizer_component_def Let_def simp del: run_steps.simps split: sum.splits option.splits)
  show "build_chat_template_component c \<noteq> Inl live_built"
    using f(1) by (auto simp: build_chat_template_component_def simp del: run_steps.simps split: option.splits)
  show "build_runtime_component r \<noteq> Inl live_built"
    using f(1) by (auto simp: build_runtime_component_def simp del: run_steps.simps split: sum.splits option.splits)
  show "build_topology_component p \<noteq> Inl live_built"
    using f(1) by (auto simp: build_topology_component_def simp del: run_steps.simps split: option.splits)
qed

lemma derived_failed: "derived_digests inputs \<noteq> Inl (live_built, k)"
  using builders_failed by (auto simp: derived_digests_def Let_def split: sum.splits)

lemma supplements_failed:
  "collect_supplements inputs validator \<noteq> Inl live_built" "build_supplements m ks ds \<noteq> Inl (live_built, k)"
proof -
  have "map_supplements validator xs raws mapped \<noteq> Inl live_built" for xs raws mapped
    by (induction xs arbitrary: raws mapped) (auto split: option.splits)
  then show "collect_supplements inputs validator \<noteq> Inl live_built"
    by (auto simp: collect_supplements_def split: sum.splits)
  show "build_supplements m ks ds \<noteq> Inl (live_built, k)"
    using plans_failed(1) by (induction ks arbitrary: ds) (auto simp: build_supplement_component_def split: sum.splits)
qed

lemma conflict_failed: "component_conflict ds \<noteq> Some (live_built, k)"
proof -
  have "first_conflict xs = Some y \<Longrightarrow> Some y \<in> set xs" for xs y
    by (induction xs rule: first_conflict.induct) auto
  then have "component_conflict ds = Some (live_built, k) \<Longrightarrow> False"
    unfolding component_conflict_def by (fastforce split: if_splits)
  then show ?thesis by blast
qed

definition live_root :: "live_result \<Rightarrow> digest" where
  "live_root r = ce_root (lr_expectation r)"

lemma live_built_facts:
  assumes "lr_status (context_store_build_live_authority inputs validator throws) = live_built"
  shows "inputs_ok inputs validator"
    and "\<forall>i < 16. length (component_message inputs i) \<le> unat component_preimage_max"
    and "lr_expectation (context_store_build_live_authority inputs validator throws) =
      \<lparr>ce_components = map (\<lambda>i. sha256 (component_message inputs i)) [0..<16],
       ce_root = sha256 (compatibility_domain @ compatibility_bytes (map (\<lambda>i. sha256 (component_message inputs i)) [0..<16]))\<rparr>"
proof -
  have r: "context_store_build_live_authority inputs validator throws = build_impl inputs validator"
    "lr_status (build_impl inputs validator) = live_built"
    using assms by (auto simp: context_store_build_live_authority_def live_failure_def split: if_splits)
  let ?closed = "\<lambda>es. map (\<lambda>index. \<lparr>cd_label = Span (the (component_label index)), cd_digest = es ! index\<rparr>) [0..<16]"
  obtain ds m es where d: "derived_digests inputs = Inr ds" "collect_supplements inputs validator = Inr m"
      "build_supplements m [0..<16] ds = Inr es"
    and built: "br_status (build_compatibility_expectation (Some (?closed es)) 16) = compat_built"
    and res: "build_impl inputs validator = \<lparr>lr_status = live_built, lr_failure_component = 16,
       lr_expectation = br_expectation (build_compatibility_expectation (Some (?closed es)) 16)\<rparr>"
    using r(2) derived_failed supplements_failed conflict_failed
    by (auto simp: build_impl_def live_failure_def Let_def split: sum.splits option.splits if_splits)
  show "inputs_ok inputs validator"
    using derived_digests_written(2) [OF d(1)] d(2) by (simp add: inputs_ok_def collect_supplements_iff)
  have m: "m = map (supplement_of inputs) [0..<16]" and sok: "supplements_ok inputs validator"
    using d(2) by (simp_all add: collect_supplements_iff)
  have "length es = length ds \<and> (\<forall>i. (i \<notin> set [0..<16] \<or> is_derived_component i \<longrightarrow> es ! i = ds ! i) \<and>
       (i \<in> set [0..<16] \<and> \<not> is_derived_component i \<longrightarrow> build_supplement_component (the (m ! i)) = Inr (es ! i)))"
    using derived_digests_written(1) [OF d(1)] by (intro build_supplements_Inr [OF d(3)]) (auto simp: list_all_iff)
  then have es: "length es = 16" "\<And>i. is_derived_component i \<Longrightarrow> es ! i = ds ! i"
      "\<And>i. i < 16 \<Longrightarrow> \<not> is_derived_component i \<Longrightarrow> build_supplement_component (the (m ! i)) = Inr (es ! i)"
    using derived_digests_written(1) [OF d(1)] by auto
  have "written i (component_body inputs i) (es ! i)" if i: "i < 16" for i
  proof (cases "is_derived_component i")
    case True
    then show ?thesis using derived_digests_written(3) [OF d(1)] es(2) by simp
  next
    case False
    then have "i \<in> set (map sp_component_index (view_items (li_supplements inputs)))"
      using sok i by (auto simp: supplements_ok_def list_all_iff)
    then obtain s where s: "supplement_of inputs i = Some s" "sp_component_index s = i" "s \<in> set (view_items (li_supplements inputs))"
      unfolding supplement_of_def by (cases "find (\<lambda>s. sp_component_index s = i) (view_items (li_supplements inputs))")
        (auto simp: find_None_iff find_Some_iff)
    then have "valid_bytes (sp_exact_preimage s)"
      using sok by (auto simp: supplements_ok_def list_all_iff supplement_ok_def supplement_refused_def nonempty_bytes_valid)
    from write_component_iff [OF i hashes_update [OF this], of "es ! i"] show ?thesis
      using es(3) [OF i False] i s False by (simp add: m build_supplement_component_def component_body_def is_derived_iff)
  qed
  then have each: "es ! i = sha256 (component_message inputs i)" "length (component_message inputs i) \<le> unat component_preimage_max" if "i < 16" for i
    using that by (simp_all add: written_def component_message_def)
  then show "\<forall>i < 16. length (component_message inputs i) \<le> unat component_preimage_max" by simp
  have es_eq: "es = map (\<lambda>i. sha256 (component_message inputs i)) [0..<16]"
    using each(1) es(1) by (intro nth_equalityI) simp_all
  have digests: "map cd_digest (?closed es) = es" using es(1) by (intro nth_equalityI) simp_all
  have "br_expectation (build_compatibility_expectation (Some (?closed es)) 16) =
      \<lparr>ce_components = es, ce_root = compatibility_root_from_components es\<rparr>"
  proof -
    have all: "take 16 (?closed es) = ?closed es" by simp
    have "16 \<le> length (?closed es)" "\<forall>c \<in> set (?closed es). length (cd_digest c) = 32" using each(1) by auto
    from compatibility_build [OF this, unfolded Let_def all digests] built show ?thesis by presburger
  qed
  then show "lr_expectation (context_store_build_live_authority inputs validator throws) =
      \<lparr>ce_components = map (\<lambda>i. sha256 (component_message inputs i)) [0..<16],
       ce_root = sha256 (compatibility_domain @ compatibility_bytes (map (\<lambda>i. sha256 (component_message inputs i)) [0..<16]))\<rparr>"
    using r(1) res compatibility_root_spec [of es] es(1) by (simp add: es_eq compatibility_component_count_def)
qed

text \<open>
  C32: The expectation of a live authority. Exactly when the authority is built does it carry an
  expectation, and then the sixteen digests are those of the component messages (label, derived facts
  or supplement) and the root is the one the manifest verifier computes; every failure leaves it empty.
\<close>
theorem authority_expectation_exact:
  "lr_expectation (context_store_build_live_authority inputs validator throws) =
     (if lr_status (context_store_build_live_authority inputs validator throws) = live_built
      then \<lparr>ce_components = map (\<lambda>i. sha256 (component_message inputs i)) [0..<16],
        ce_root = compatibility_root_from_components (map (\<lambda>i. sha256 (component_message inputs i)) [0..<16])\<rparr>
      else empty_expectation)"
proof (cases "lr_status (context_store_build_live_authority inputs validator throws) = live_built")
  case True
  have "compatibility_root_from_components (map (\<lambda>i. sha256 (component_message inputs i)) [0..<16]) =
      sha256 (compatibility_domain @ compatibility_bytes (map (\<lambda>i. sha256 (component_message inputs i)) [0..<16]))"
    by (rule compatibility_root_spec) (auto simp: compatibility_component_count_def)
  then show ?thesis using live_built_facts(3) [OF True] True by simp
next
  case False
  then show ?thesis
    by (auto simp: context_store_build_live_authority_def build_impl_def live_failure_def Let_def
      split: sum.splits option.splits if_splits)
qed

subsection \<open>Discovery order\<close>

definition view_perm :: "'a array_view \<Rightarrow> 'a array_view \<Rightarrow> bool" where
  "view_perm a b \<longleftrightarrow> view_null a = view_null b \<and> view_count a = view_count b \<and> mset (view_items a) = mset (view_items b)"

definition rearranged :: "live_inputs \<Rightarrow> live_inputs \<Rightarrow> bool" where
  "rearranged a b \<longleftrightarrow>
     view_perm (md_shards (li_model a)) (md_shards (li_model b)) \<and>
     view_perm (md_metadata (li_model a)) (md_metadata (li_model b)) \<and>
     view_perm (md_tensors (li_model a)) (md_tensors (li_model b)) \<and>
     md_declared_shard_count (li_model a) = md_declared_shard_count (li_model b) \<and>
     md_metadata_schema_id (li_model a) = md_metadata_schema_id (li_model b) \<and>
     view_perm (tz_artifacts (li_tokenizer a)) (tz_artifacts (li_tokenizer b)) \<and>
     view_perm (tz_tokens (li_tokenizer a)) (tz_tokens (li_tokenizer b)) \<and>
     tz_merges (li_tokenizer a) = tz_merges (li_tokenizer b) \<and>
     view_perm (tz_special_tokens (li_tokenizer a)) (tz_special_tokens (li_tokenizer b)) \<and>
     view_perm (tz_policy (li_tokenizer a)) (tz_policy (li_tokenizer b)) \<and>
     li_chat_template a = li_chat_template b \<and>
     view_perm (rt_artifacts (li_runtime a)) (rt_artifacts (li_runtime b)) \<and>
     view_perm (rt_build_options (li_runtime a)) (rt_build_options (li_runtime b)) \<and>
     (li_runtime a)\<lparr>rt_artifacts := rt_artifacts (li_runtime b), rt_build_options := rt_build_options (li_runtime b)\<rparr> = li_runtime b \<and>
     li_topology a = li_topology b \<and>
     view_perm (li_supplements a) (li_supplements b)"

lemma perm_facts:
  assumes "mset xs = mset ys"
  shows "list_all P xs = list_all P ys" "distinct (map f xs) = distinct (map f ys)" "set xs = set ys"
  using assms by (metis list_all_iff set_mset_mset, metis mset_map mset_eq_imp_distinct_iff, metis set_mset_mset)

lemma view_perm_sym: "view_perm a b \<Longrightarrow> view_perm b a"
  by (simp add: view_perm_def)

lemma artifacts_perm:
  assumes "view_perm a b"
  shows "artifacts_ok n a = artifacts_ok n b" "artifacts_ok n a \<Longrightarrow> sort_by artifact_order (view_items a) = sort_by artifact_order (view_items b)"
    "artifacts_ok n a \<Longrightarrow> artifacts_bytes a = artifacts_bytes b"
proof -
  have sorted: "sort_by artifact_order (view_items a) = sort_by artifact_order (view_items b)"
    if "artifacts_ok n a" "view_perm a b" for a b
    using that by (intro artifact_order.sort_by_unique) (auto simp: artifacts_ok_def view_perm_def list_all_iff)
  have one: "artifacts_ok n b" if "artifacts_ok n a" "view_perm a b" for a b
    using that sorted [OF that] perm_facts(1) [of "view_items a" "view_items b"]
      perm_facts(2) [of "view_items a" "view_items b" la_semantic_order] perm_facts(2) [of "view_items a" "view_items b" "span_bytes \<circ> la_role"]
    by (simp add: artifacts_ok_def view_perm_def)
  show "artifacts_ok n a = artifacts_ok n b" using one assms view_perm_sym by blast
  show "artifacts_ok n a \<Longrightarrow> sort_by artifact_order (view_items a) = sort_by artifact_order (view_items b)"
    using sorted assms by blast
  then show "artifacts_ok n a \<Longrightarrow> artifacts_bytes a = artifacts_bytes b"
    using assms by (simp add: artifacts_bytes_def view_perm_def)
qed

lemma parameters_perm:
  assumes "view_perm a b"
  shows "parameters_ok a = parameters_ok b" "parameters_ok a \<Longrightarrow> parameters_bytes a = parameters_bytes b"
proof -
  show "parameters_ok a = parameters_ok b"
    using assms perm_facts(1) [of "view_items a" "view_items b"] perm_facts(2) [of "view_items a" "view_items b" "\<lambda>x. span_bytes (lp_id x)"]
    by (simp add: parameters_ok_def view_perm_def)
  show "parameters_ok a \<Longrightarrow> parameters_bytes a = parameters_bytes b"
    using assms by_text.sort_by_unique [of lp_id "view_items a" "view_items b"]
    by (auto simp: parameters_ok_def parameters_bytes_def view_perm_def list_all_iff parameter_acceptable_facts)
qed

lemma metadata_perm:
  assumes "view_perm a b"
  shows "metadata_ok a = metadata_ok b" "metadata_ok a \<Longrightarrow> metadata_body a = metadata_body b"
proof -
  show "metadata_ok a = metadata_ok b"
    using assms perm_facts(1) [of "view_items a" "view_items b"] perm_facts(2) [of "view_items a" "view_items b" "\<lambda>x. span_bytes (lm_key x)"]
    by (simp add: metadata_ok_def view_perm_def)
  show "metadata_ok a \<Longrightarrow> metadata_body a = metadata_body b"
    using assms by_text.sort_by_unique [of lm_key "view_items a" "view_items b"]
    by (auto simp: metadata_ok_def metadata_body_def view_perm_def list_all_iff metadata_acceptable_facts)
qed

lemma special_acceptable_null: "special_acceptable s \<Longrightarrow> \<not> span_null (st_role s)"
  by (auto simp: special_acceptable_def valid_text_bytes)

lemma specials_perm:
  assumes "view_perm a b"
  shows "specials_ok n a = specials_ok n b" "specials_ok n a \<Longrightarrow> specials_body a = specials_body b"
proof -
  show "specials_ok n a = specials_ok n b"
    using assms perm_facts(1) [of "view_items a" "view_items b"] perm_facts(2) [of "view_items a" "view_items b" "\<lambda>x. span_bytes (st_role x)"]
    by (simp add: specials_ok_def view_perm_def)
  show "specials_ok n a \<Longrightarrow> specials_body a = specials_body b"
    using assms by_text.sort_by_unique [of st_role "view_items a" "view_items b"]
    by (auto simp: specials_ok_def specials_body_def view_perm_def list_all_iff special_acceptable_null)
qed

lemma tokens_perm:
  assumes "view_perm a b"
  shows "tokens_ok a = tokens_ok b" "tokens_ok a \<Longrightarrow> tokens_body a = tokens_body b"
proof -
  have sorted: "sort_by token_order (view_items a) = sort_by token_order (view_items b)"
    if "tokens_ok a" "view_perm a b" for a b
    using that by (intro token_order.sort_by_unique) (auto simp: tokens_ok_def view_perm_def list_all_iff)
  have one: "tokens_ok b" if "tokens_ok a" "view_perm a b" for a b
    using that sorted [OF that] perm_facts(1) [of "view_items a" "view_items b"]
      perm_facts(2) [of "view_items a" "view_items b" tk_token_id]
    by (simp add: tokens_ok_def view_perm_def)
  show "tokens_ok a = tokens_ok b" using one assms view_perm_sym by blast
  show "tokens_ok a \<Longrightarrow> tokens_body a = tokens_body b"
    using sorted assms by (simp add: tokens_body_def)
qed

lemma tensors_perm:
  assumes "view_perm a b"
  shows "tensors_ok n ss a = tensors_ok n ss b" "tensors_ok n ss a \<Longrightarrow> tensors_body a = tensors_body b"
proof -
  have sorted: "sort_by tensor_less (view_items a) = sort_by tensor_less (view_items b)"
    if "tensors_ok n ss a" "view_perm a b" for a b
    using that no_clash_distinct [of n ss "view_items a"] tensor_acceptable_facts(1)
    by (intro tensor_order.sort_by_unique) (auto simp: tensors_ok_def view_perm_def list_all_iff)
  have one: "tensors_ok n ss b" if "tensors_ok n ss a" "view_perm a b" for a b
    using that sorted [OF that] perm_facts(1) [of "view_items a" "view_items b"]
      perm_facts(2) [of "view_items a" "view_items b" "\<lambda>t. span_bytes (lt_name t)"]
    by (simp add: tensors_ok_def view_perm_def)
  show "tensors_ok n ss a = tensors_ok n ss b" using one assms view_perm_sym by blast
  show "tensors_ok n ss a \<Longrightarrow> tensors_body a = tensors_body b"
    using sorted assms by (simp add: tensors_body_def)
qed

lemma find_unique:
  assumes "set xs = set ys" "\<And>s t. s \<in> set xs \<Longrightarrow> t \<in> set xs \<Longrightarrow> P s \<Longrightarrow> P t \<Longrightarrow> s = t"
  shows "find P xs = find P ys"
proof -
  have found: "x \<in> set zs \<and> P x" if "find P zs = Some x" for zs x
    using that by (auto simp: find_Some_iff)
  show ?thesis
  proof (cases "find P xs")
    case None
    then show ?thesis using assms(1) by (metis find_None_iff)
  next
    case (Some x)
    then obtain y where "find P ys = Some y"
      using found [OF Some] assms(1) by (metis find_None_iff option.exhaust)
    then show ?thesis using Some found assms by metis
  qed
qed

lemma supplements_perm:
  assumes "view_perm (li_supplements a) (li_supplements b)"
  shows "collect_supplements a validator = Inr m \<longleftrightarrow> collect_supplements b validator = Inr m"
proof -
  have "supplements_ok a validator = supplements_ok b validator"
    using assms perm_facts(1,3) [of "view_items (li_supplements a)" "view_items (li_supplements b)"]
      perm_facts(2) [of "view_items (li_supplements a)" "view_items (li_supplements b)" sp_component_index]
      perm_facts(2) [of "view_items (li_supplements a)" "view_items (li_supplements b)" raw_digest]
    by (simp add: supplements_ok_def view_perm_def)
  moreover have "supplement_of a i = supplement_of b i" if "supplements_ok a validator" for i
  proof -
    have "inj_on sp_component_index (set (view_items (li_supplements a)))"
      using that by (simp add: supplements_ok_def distinct_map)
    moreover have "set (view_items (li_supplements a)) = set (view_items (li_supplements b))"
      using assms perm_facts(3) by (auto simp: view_perm_def)
    ultimately show ?thesis
      unfolding supplement_of_def by (intro find_unique) (auto simp: inj_on_def)
  qed
  ultimately show ?thesis by (auto simp: collect_supplements_iff)
qed

lemma model_perm:
  assumes "rearranged a b"
  shows "build_model_bytes_component (li_model a) = Inr d \<longleftrightarrow> build_model_bytes_component (li_model b) = Inr d"
    and "build_model_bytes_component (li_model a) = Inr d \<Longrightarrow>
      build_model_metadata_component (li_model a) = Inr e \<longleftrightarrow> build_model_metadata_component (li_model b) = Inr e"
proof -
  let ?a = "li_model a" and ?b = "li_model b"
  have p: "view_perm (md_shards ?a) (md_shards ?b)" "view_perm (md_metadata ?a) (md_metadata ?b)" "view_perm (md_tensors ?a) (md_tensors ?b)"
    and same: "md_declared_shard_count ?a = md_declared_shard_count ?b" "md_metadata_schema_id ?a = md_metadata_schema_id ?b"
    using assms by (simp_all add: rearranged_def)
  have ok: "model_bytes_ok ?a = model_bytes_ok ?b"
    using artifacts_perm(1) [OF p(1)] p(1) same by (simp add: model_bytes_ok_def view_perm_def)
  moreover have "model_bytes_ok ?a \<Longrightarrow> model_body ?a = model_body ?b"
    using artifacts_perm(3) [OF p(1), of 1024] by (simp add: model_bytes_ok_def model_body_def)
  ultimately show one: "build_model_bytes_component ?a = Inr d \<longleftrightarrow> build_model_bytes_component ?b = Inr d"
    by (auto simp: build_model_bytes_iff)
  assume "build_model_bytes_component ?a = Inr d"
  then have good: "model_bytes_ok ?a" "model_bytes_ok ?b" using ok by (simp_all add: build_model_bytes_iff)
  have sizes: "shard_sizes_of (md_shards ?a) = shard_sizes_of (md_shards ?b)"
    using artifacts_perm(2) [OF p(1), of 1024] good(1) by (simp add: shard_sizes_of_def model_bytes_ok_def)
  have "metadata_component_ok ?a = metadata_component_ok ?b"
    using p same(2) sizes metadata_perm(1) [OF p(2)] tensors_perm(1) [OF p(3)]
    by (simp add: metadata_component_ok_def view_perm_def)
  moreover have "metadata_component_ok ?a \<Longrightarrow> metadata_component_body ?a = metadata_component_body ?b"
    using p same(2) metadata_perm(2) [OF p(2)] tensors_perm(2) [OF p(3), of "view_count (md_shards ?a)" "shard_sizes_of (md_shards ?a)"]
    by (simp add: metadata_component_ok_def metadata_component_body_def view_perm_def)
  ultimately show "build_model_metadata_component ?a = Inr e \<longleftrightarrow> build_model_metadata_component ?b = Inr e"
    unfolding build_model_metadata_iff [OF good(1)] build_model_metadata_iff [OF good(2)] by auto
qed

lemma tokenizer_perm:
  assumes "rearranged a b"
  shows "build_tokenizer_component (li_tokenizer a) = Inr d \<longleftrightarrow> build_tokenizer_component (li_tokenizer b) = Inr d"
proof -
  let ?a = "li_tokenizer a" and ?b = "li_tokenizer b"
  have p: "view_perm (tz_artifacts ?a) (tz_artifacts ?b)" "view_perm (tz_tokens ?a) (tz_tokens ?b)"
      "view_perm (tz_special_tokens ?a) (tz_special_tokens ?b)" "view_perm (tz_policy ?a) (tz_policy ?b)" "tz_merges ?a = tz_merges ?b"
    using assms by (simp_all add: rearranged_def)
  have "tokenizer_ok ?a = tokenizer_ok ?b"
    using p artifacts_perm(1) [OF p(1)] tokens_perm(1) [OF p(2)] specials_perm(1) [OF p(3)] parameters_perm(1) [OF p(4)]
    by (simp add: tokenizer_ok_def view_perm_def)
  moreover have "tokenizer_ok ?a \<Longrightarrow> tokenizer_body ?a = tokenizer_body ?b"
    using p artifacts_perm(3) [OF p(1), of 64] tokens_perm(2) [OF p(2)]
      specials_perm(2) [OF p(3), of "view_count (tz_tokens ?a)"] parameters_perm(2) [OF p(4)]
    by (simp add: tokenizer_ok_def tokenizer_body_def view_perm_def)
  ultimately show ?thesis by (auto simp: build_tokenizer_iff)
qed

lemma runtime_perm:
  assumes "rearranged a b"
  shows "build_runtime_component (li_runtime a) = Inr d \<longleftrightarrow> build_runtime_component (li_runtime b) = Inr d"
proof -
  let ?a = "li_runtime a" and ?b = "li_runtime b"
  have p: "view_perm (rt_artifacts ?a) (rt_artifacts ?b)" "view_perm (rt_build_options ?a) (rt_build_options ?b)"
    and b: "?b = ?a\<lparr>rt_artifacts := rt_artifacts ?b, rt_build_options := rt_build_options ?b\<rparr>"
    using assms by (simp_all add: rearranged_def)
  obtain xs ys where xy: "?b = ?a\<lparr>rt_artifacts := xs, rt_build_options := ys\<rparr>" "xs = rt_artifacts ?b" "ys = rt_build_options ?b"
    using b by blast
  note arts = artifacts_perm [OF p(1) [folded xy(2)]] and opts = parameters_perm [OF p(2) [folded xy(3)]]
  have source: "source_message ?b = source_message ?a" by (simp add: xy(1) source_message_def)
  have "runtime_ok ?a = runtime_ok ?b"
    using arts(1) [of 1024] arts(2) [of 1024] opts(1) source by (auto simp: xy(1) runtime_ok_def)
  moreover have "runtime_ok ?a \<Longrightarrow> runtime_body ?a = runtime_body ?b"
    using arts(3) [of 1024] opts(2) source by (simp add: xy(1) runtime_ok_def runtime_body_def)
  ultimately show ?thesis by (auto simp: build_runtime_iff)
qed

definition first_failure :: "(nat \<times> (live_status + digest)) list \<Rightarrow> (live_status \<times> nat) + digest list" where
  "first_failure steps = foldr (\<lambda>(i, step) rest. case step of Inl st \<Rightarrow> Inl (st, i)
     | Inr d \<Rightarrow> (case rest of Inl e \<Rightarrow> Inl e | Inr ds \<Rightarrow> Inr (d # ds))) steps (Inr [])"

lemma derived_digests_steps:
  "derived_digests inputs =
     (case first_failure [(0, build_model_bytes_component (li_model inputs)), (1, build_model_metadata_component (li_model inputs)),
        (2, build_tokenizer_component (li_tokenizer inputs)), (3, build_chat_template_component (li_chat_template inputs)),
        (6, build_runtime_component (li_runtime inputs)), (14, build_topology_component (li_topology inputs))] of
        Inl e \<Rightarrow> Inl e
      | Inr ds \<Rightarrow> Inr ((replicate 16 zero_digest)[0 := ds ! 0, 1 := ds ! 1, 2 := ds ! 2, 3 := ds ! 3, 6 := ds ! 4, 14 := ds ! 5]))"
  by (simp add: derived_digests_def first_failure_def split: sum.split)

definition same_outcome :: "(live_status \<times> nat) + digest list \<Rightarrow> (live_status \<times> nat) + digest list \<Rightarrow> bool" where
  "same_outcome x y \<longleftrightarrow> (\<exists>ds. x = Inr ds \<and> y = Inr ds) \<or> (\<exists>st st' i. x = Inl (st, i) \<and> y = Inl (st', i))"

lemma same_outcome_step:
  assumes "\<And>d. x = Inr d \<longleftrightarrow> y = Inr d" and "\<And>d. x = Inr d \<Longrightarrow> same_outcome (first_failure xs) (first_failure ys)"
  shows "same_outcome (first_failure ((i, x) # xs)) (first_failure ((i, y) # ys))"
proof (cases x)
  case (Inl st)
  then obtain st' where "y = Inl st'" using assms(1) by (cases y) auto
  then show ?thesis using Inl by (simp add: first_failure_def same_outcome_def)
next
  case (Inr d)
  then have "y = Inr d" "same_outcome (first_failure xs) (first_failure ys)" using assms by auto
  then show ?thesis using Inr by (auto simp: first_failure_def same_outcome_def)
qed

lemma derived_perm:
  assumes "rearranged a b"
  shows "same_outcome (derived_digests a) (derived_digests b)"
proof -
  have fixed: "li_chat_template a = li_chat_template b" "li_topology a = li_topology b"
    using assms by (simp_all add: rearranged_def)
  have "same_outcome (first_failure []) (first_failure [])" by (simp add: first_failure_def same_outcome_def)
  then have "same_outcome
      (first_failure [(0, build_model_bytes_component (li_model a)), (1, build_model_metadata_component (li_model a)),
        (2, build_tokenizer_component (li_tokenizer a)), (3, build_chat_template_component (li_chat_template a)),
        (6, build_runtime_component (li_runtime a)), (14, build_topology_component (li_topology a))])
      (first_failure [(0, build_model_bytes_component (li_model b)), (1, build_model_metadata_component (li_model b)),
        (2, build_tokenizer_component (li_tokenizer b)), (3, build_chat_template_component (li_chat_template b)),
        (6, build_runtime_component (li_runtime b)), (14, build_topology_component (li_topology b))])"
    unfolding fixed
    by (intro same_outcome_step model_perm [OF assms] tokenizer_perm [OF assms] runtime_perm [OF assms] refl)
  then show ?thesis
    unfolding derived_digests_steps same_outcome_def by (elim disjE exE conjE) simp_all
qed

text \<open>
  C17: Discovery order. Listing the same shards, metadata, tensors, tokenizer artifacts, tokens,
  special tokens, policy entries, runtime artifacts, build options and supplements in another order
  changes nothing: the authority is built in both cases, with the same expectation, or fails in both
  at the same component with the empty expectation.
\<close>
theorem discovery_order_irrelevant:
  assumes "rearranged a b"
  shows "let r = context_store_build_live_authority a validator throws; q = context_store_build_live_authority b validator throws in
    (lr_status r = live_built) = (lr_status q = live_built) \<and> lr_failure_component r = lr_failure_component q \<and>
    lr_expectation r = lr_expectation q"
proof (cases throws)
  case False
  have supplements: "collect_supplements a validator = Inr m \<longleftrightarrow> collect_supplements b validator = Inr m" for m
    using assms by (intro supplements_perm) (simp add: rearranged_def)
  consider ds where "derived_digests a = Inr ds" "derived_digests b = Inr ds"
    | st st' i where "derived_digests a = Inl (st, i)" "derived_digests b = Inl (st', i)"
    using derived_perm [OF assms] by (auto simp: same_outcome_def)
  then show ?thesis
  proof cases
    case 1
    then show ?thesis
    proof (cases "collect_supplements a validator")
      case (Inl st)
      then obtain st' where "collect_supplements b validator = Inl st'"
        using supplements by (cases "collect_supplements b validator") auto
      then show ?thesis using 1 Inl False supplements_failed(1)
        by (auto simp: context_store_build_live_authority_def build_impl_def live_failure_def)
    next
      case (Inr m)
      then have "collect_supplements b validator = Inr m" using supplements by simp
      then have "build_impl a validator = build_impl b validator" using 1 Inr by (simp add: build_impl_def)
      then show ?thesis by (simp add: context_store_build_live_authority_def)
    qed
  next
    case 2
    then show ?thesis using False derived_failed
      by (auto simp: context_store_build_live_authority_def build_impl_def live_failure_def)
  qed
qed (simp add: context_store_build_live_authority_def)

definition sample_inputs :: "live_artifact list \<Rightarrow> live_tensor list \<Rightarrow> live_parameter list \<Rightarrow> live_inputs" where
  "sample_inputs shards tensors options =
     \<lparr>li_model = \<lparr>md_shards = Array_View shards, md_declared_shard_count = 2, md_metadata_schema_id = Span (ascii_bytes ''gguf''),
        md_metadata = Array_View [\<lparr>lm_key = Span (ascii_bytes ''arch''), lm_value = Value_Array [Boolean True, Unsigned_Integer 3]\<rparr>],
        md_tensors = Array_View tensors\<rparr>,
      li_tokenizer = \<lparr>tz_artifacts = Array_View [sample_artifact ''vocab'' 0 3], tz_tokens = Array_View
        [\<lparr>tk_token_id = 0, tk_exact_bytes = Span [65], tk_score_bits = replicate 8 0, tk_token_type = 1\<rparr>],
        tz_merges = Null_Array 0, tz_special_tokens = Null_Array 0, tz_policy = Array_View options\<rparr>,
      li_chat_template = \<lparr>ch_effective_candidate_count = 1, ch_exact_template_bytes = Span [1], ch_renderer_id = Span (ascii_bytes ''r''),
        ch_renderer_executable_bytes = Span [2]\<rparr>,
      li_runtime = \<lparr>rt_source_revision = Span (ascii_bytes ''c0ffee''), rt_source_tree_manifest = Span [3], rt_source_is_immutable = True,
        rt_source_is_dirty = False, rt_dirty_tree_manifest = NullSpan 0, rt_artifacts = Array_View [sample_artifact ''executable'' 0 5],
        rt_toolchain_id = Span (ascii_bytes ''gcc''), rt_build_options = Array_View options, rt_state_abi_id = Span (ascii_bytes ''abi'')\<rparr>,
      li_topology = \<lparr>tp_plan_schema_id = Span (ascii_bytes ''plan''), tp_execution_mode_id = Span (ascii_bytes ''split''), tp_world_size = 2,
        tp_global_plan = Span [4], tp_stable_topology_epoch = 1, tp_ranks = Null_Array 2\<rparr>,
      li_supplements = Null_Array 10\<rparr>"

definition sample_options :: "live_parameter list" where
  "sample_options = [\<lparr>lp_id = Span (ascii_bytes ''x''), lp_value = Boolean True\<rparr>,
     \<lparr>lp_id = Span (ascii_bytes ''yy''), lp_value = Text_String (Span [])\<rparr>]"

theorem discovery_order_irrelevant_witness:
  "lr_failure_component (context_store_build_live_authority (sample_inputs sample_shards sample_tensors sample_options) (\<lambda>_ _. True) False) =
   lr_failure_component (context_store_build_live_authority
     (sample_inputs (rev sample_shards) (rev sample_tensors) (rev sample_options)) (\<lambda>_ _. True) False)"
proof -
  have "rearranged (sample_inputs sample_shards sample_tensors sample_options)
      (sample_inputs (rev sample_shards) (rev sample_tensors) (rev sample_options))"
    by (simp add: rearranged_def sample_inputs_def view_perm_def)
  from discovery_order_irrelevant [OF this] show ?thesis by (simp add: Let_def)
qed

end
