(* ===== verification/Live_Binding.thy ===== *)
theory Live_Binding
  imports Live_Facts
begin

text \<open>
  The root of a live authority binds every fact of its inputs: two accepted inputs with the same root
  agree on all of them, up to the order of discovery, unless two of the messages that were hashed
  collide under SHA-256. The messages are listed, so a violation names the collision.
\<close>

subsection \<open>The facts of the inputs\<close>

definition artifact_fact :: "live_artifact \<Rightarrow> byte_span \<times> u64 \<times> byte list" where
  "artifact_fact a = (plain_span (la_role a), la_semantic_order a, span_bytes (la_exact_bytes a))"

definition parameter_fact :: "live_parameter \<Rightarrow> byte_span \<times> live_value" where
  "parameter_fact p = (plain_span (lp_id p), plain_value (lp_value p))"

definition metadata_fact :: "live_metadata \<Rightarrow> byte_span \<times> live_value" where
  "metadata_fact e = (plain_span (lm_key e), plain_value (lm_value e))"

definition tensor_fact :: "live_tensor \<Rightarrow> byte_span \<times> u64 \<times> u64 list \<times> u64 \<times> u64 \<times> u64" where
  "tensor_fact t = (plain_span (lt_name t), lt_shard_order t, view_items (lt_dimensions t), lt_tensor_type t,
     lt_container_offset t, lt_encoded_bytes t)"

definition token_fact :: "live_token \<Rightarrow> u64 \<times> byte_span \<times> byte list \<times> u64" where
  "token_fact t = (tk_token_id t, plain_span (tk_exact_bytes t), tk_score_bits t, tk_token_type t)"

definition merge_fact :: "live_merge \<Rightarrow> byte_span \<times> byte_span" where
  "merge_fact m = (plain_span (mg_left m), plain_span (mg_right m))"

definition special_fact :: "live_special_token \<Rightarrow> byte_span \<times> u64" where
  "special_fact s = (plain_span (st_role s), st_token_id s)"

definition rank_fact :: "live_rank \<Rightarrow> u32 \<times> byte list \<times> byte list \<times> byte list \<times> byte list" where
  "rank_fact r = (rk_logical_rank r, span_bytes (rk_stable_endpoint_id r), span_bytes (rk_stable_device_id r),
     span_bytes (rk_ownership_plan r), span_bytes (rk_placement_plan r))"

definition facts_of :: "('a \<Rightarrow> 'b) \<Rightarrow> 'a array_view \<Rightarrow> 'b multiset" where
  "facts_of f v = mset (map f (view_items v))"

record authority_facts =
  af_shards :: "(byte_span \<times> u64 \<times> byte list) multiset"
  af_metadata_schema :: byte_span
  af_metadata :: "(byte_span \<times> live_value) multiset"
  af_tensors :: "(byte_span \<times> u64 \<times> u64 list \<times> u64 \<times> u64 \<times> u64) multiset"
  af_tokenizer_artifacts :: "(byte_span \<times> u64 \<times> byte list) multiset"
  af_tokens :: "(u64 \<times> byte_span \<times> byte list \<times> u64) multiset"
  af_merges :: "(byte_span \<times> byte_span) list"
  af_special_tokens :: "(byte_span \<times> u64) multiset"
  af_policy :: "(byte_span \<times> live_value) multiset"
  af_template :: "byte list \<times> byte_span \<times> byte list"
  af_source :: "byte list \<times> byte list \<times> bool \<times> byte list"
  af_runtime_artifacts :: "(byte_span \<times> u64 \<times> byte list) multiset"
  af_toolchain :: byte_span
  af_build_options :: "(byte_span \<times> live_value) multiset"
  af_state_abi :: byte_span
  af_plan_schema :: byte_span
  af_execution_mode :: byte_span
  af_global_plan :: "byte list"
  af_epoch :: u64
  af_ranks :: "(u32 \<times> byte list \<times> byte list \<times> byte list \<times> byte list) list"
  af_supplements :: "byte list list"

definition facts :: "live_inputs \<Rightarrow> authority_facts" where
  "facts inputs = (let m = li_model inputs; t = li_tokenizer inputs; c = li_chat_template inputs;
     r = li_runtime inputs; p = li_topology inputs in
     \<lparr>af_shards = facts_of artifact_fact (md_shards m), af_metadata_schema = plain_span (md_metadata_schema_id m),
      af_metadata = facts_of metadata_fact (md_metadata m), af_tensors = facts_of tensor_fact (md_tensors m),
      af_tokenizer_artifacts = facts_of artifact_fact (tz_artifacts t), af_tokens = facts_of token_fact (tz_tokens t),
      af_merges = map merge_fact (view_items (tz_merges t)), af_special_tokens = facts_of special_fact (tz_special_tokens t),
      af_policy = facts_of parameter_fact (tz_policy t),
      af_template = (span_bytes (ch_exact_template_bytes c), plain_span (ch_renderer_id c), span_bytes (ch_renderer_executable_bytes c)),
      af_source = (span_bytes (rt_source_revision r), span_bytes (rt_source_tree_manifest r), rt_source_is_dirty r,
        span_bytes (rt_dirty_tree_manifest r)),
      af_runtime_artifacts = facts_of artifact_fact (rt_artifacts r), af_toolchain = plain_span (rt_toolchain_id r),
      af_build_options = facts_of parameter_fact (rt_build_options r), af_state_abi = plain_span (rt_state_abi_id r),
      af_plan_schema = plain_span (tp_plan_schema_id p), af_execution_mode = plain_span (tp_execution_mode_id p),
      af_global_plan = span_bytes (tp_global_plan p), af_epoch = tp_stable_topology_epoch p,
      af_ranks = map rank_fact (view_items (tp_ranks p)),
      af_supplements = map (\<lambda>i. span_bytes (sp_exact_preimage (the (supplement_of inputs i))))
        (filter (\<lambda>i. \<not> is_derived_component i) [0..<16])\<rparr>)"

text \<open>Everything the builder hashes.\<close>

definition contents :: "live_artifact array_view \<Rightarrow> byte list list" where
  "contents v = map (span_bytes \<circ> la_exact_bytes) (view_items v)"

definition component_digests :: "live_inputs \<Rightarrow> digest list" where
  "component_digests inputs = map (\<lambda>i. sha256 (component_message inputs i)) [0..<16]"

definition hashed_messages :: "live_inputs \<Rightarrow> byte list list" where
  "hashed_messages inputs =
     (compatibility_domain @ compatibility_bytes (component_digests inputs)) #
     map (component_message inputs) [0..<16] @
     contents (md_shards (li_model inputs)) @ contents (tz_artifacts (li_tokenizer inputs)) @
     contents (rt_artifacts (li_runtime inputs)) @
     [span_bytes (ch_exact_template_bytes (li_chat_template inputs)),
      span_bytes (ch_renderer_executable_bytes (li_chat_template inputs)),
      source_message (li_runtime inputs), global_message (li_topology inputs)] @
     map ownership_message (view_items (tp_ranks (li_topology inputs))) @
     map placement_message (view_items (tp_ranks (li_topology inputs)))"

definition collide :: "byte list list \<Rightarrow> byte list list \<Rightarrow> bool" where
  "collide xs ys \<longleftrightarrow> list_ex (\<lambda>x. list_ex (\<lambda>y. x \<noteq> y \<and> sha256 x = sha256 y) ys) xs"

lemma no_collision: "\<not> collide xs ys \<Longrightarrow> x \<in> set xs \<Longrightarrow> y \<in> set ys \<Longrightarrow> sha256 x = sha256 y \<Longrightarrow> x = y"
  by (auto simp: collide_def list_ex_iff)

lemma no_collision_iff:
  "\<not> collide xs ys \<Longrightarrow> x \<in> set xs \<Longrightarrow> y \<in> set ys \<Longrightarrow> sha256 x = sha256 y \<longleftrightarrow> x = y"
  using no_collision by blast

lemma collide_mono: "\<not> collide xs ys \<Longrightarrow> set xs' \<subseteq> set xs \<Longrightarrow> set ys' \<subseteq> set ys \<Longrightarrow> \<not> collide xs' ys'"
  by (auto simp: collide_def list_ex_iff)

text \<open>Scores and floating-point values are arrays of eight bytes.\<close>

definition wf_inputs :: "live_inputs \<Rightarrow> bool" where
  "wf_inputs inputs \<longleftrightarrow>
     list_all (\<lambda>e. wf_value (lm_value e)) (view_items (md_metadata (li_model inputs))) \<and>
     list_all (\<lambda>t. length (tk_score_bits t) = 8) (view_items (tz_tokens (li_tokenizer inputs))) \<and>
     list_all (\<lambda>p. wf_value (lp_value p)) (view_items (tz_policy (li_tokenizer inputs))) \<and>
     list_all (\<lambda>p. wf_value (lp_value p)) (view_items (rt_build_options (li_runtime inputs)))"

subsection \<open>Encodings are injective\<close>

lemma small_span: "valid_text t 128 \<Longrightarrow> span_size t < 2 ^ 64" "nonempty_bytes b \<Longrightarrow> span_size b < 2 ^ 64"
  "n \<le> 16384 \<Longrightarrow> valid_text t n \<Longrightarrow> span_size t < 2 ^ 64"
  by (auto simp: valid_text_def nonempty_bytes_def unat_hash_maximum)

lemma text_inj:
  "valid_text a n \<Longrightarrow> valid_text b n \<Longrightarrow> n \<le> 16384 \<Longrightarrow>
     cbor_text (span_bytes a) @ x = cbor_text (span_bytes b) @ y \<longleftrightarrow> plain_span a = plain_span b \<and> x = y"
  using small_span(3) valid_text_bytes(1) by (intro cbor_span_inj) blast+

lemma count_inj:
  "m \<le> 2 ^ 32 \<Longrightarrow> n \<le> 2 ^ 32 \<Longrightarrow> cbor_array m @ x = cbor_array n @ y \<longleftrightarrow> m = n \<and> x = y"
  by (auto simp: cbor_array_def cbor_head_inj of_nat_small_inj)

lemma map_inj: "cbor_map n @ x = cbor_map n @ y \<longleftrightarrow> x = y"
  by (simp add: cbor_map_def)

lemma digest_inj: "cbor_bytes (sha256 a) @ x = cbor_bytes (sha256 b) @ y \<longleftrightarrow> sha256 a = sha256 b \<and> x = y"
  by (simp add: cbor_text_inj)

lemma sorted_inj:
  assumes "\<And>v w x y. v \<in> set xs \<Longrightarrow> w \<in> set ys \<Longrightarrow> f v @ x = f w @ y \<Longrightarrow> g v = g w \<and> x = y"
    and "length xs = length ys"
    and "concat (map f (sort_by p xs)) @ x = concat (map f (sort_by q ys)) @ y"
  shows "mset (map g xs) = mset (map g ys) \<and> x = y"
proof -
  have "map g (sort_by p xs) = map g (sort_by q ys) \<and> x = y"
    using assms by (intro items_inj [where f = f]) auto
  then show ?thesis by (metis mset_map mset_sort_by)
qed

lemma artifacts_inj:
  assumes "artifacts_ok k a" "artifacts_ok k b" "k \<le> 1024" "\<not> collide (contents a) (contents b)"
    and "artifacts_bytes a @ x = artifacts_bytes b @ y"
  shows "facts_of artifact_fact a = facts_of artifact_fact b \<and> x = y"
proof -
  have n: "view_count a = length (view_items a)" "view_count b = length (view_items b)" "view_count a \<le> 2 ^ 32" "view_count b \<le> 2 ^ 32"
    using assms(1-3) view_items_length [of a] view_items_length [of b] by (auto simp: artifacts_ok_def)
  have heads: "view_count a = view_count b"
    "concat (map artifact_bytes (sort_by artifact_order (view_items a))) @ x = concat (map artifact_bytes (sort_by artifact_order (view_items b))) @ y"
    using assms(5) count_inj [OF n(3,4)] by (simp_all add: artifacts_bytes_def)
  show ?thesis
    unfolding facts_of_def
  proof (rule sorted_inj [OF _ _ heads(2)])
    show "length (view_items a) = length (view_items b)" using heads(1) n by simp
    fix v w x y assume vw: "v \<in> set (view_items a)" "w \<in> set (view_items b)" "artifact_bytes v @ x = artifact_bytes w @ y"
    then have ok: "valid_text (la_role v) 128" "valid_text (la_role w) 128"
      using assms(1,2) by (auto simp: artifacts_ok_def list_all_iff artifact_ok_def)
    have "sha256 (span_bytes (la_exact_bytes v)) = sha256 (span_bytes (la_exact_bytes w)) \<longleftrightarrow>
        span_bytes (la_exact_bytes v) = span_bytes (la_exact_bytes w)"
      using vw(1,2) by (intro no_collision_iff [OF assms(4)]) (auto simp: contents_def)
    moreover have "cbor_text (span_bytes (la_role v)) @ r = cbor_text (span_bytes (la_role w)) @ s \<longleftrightarrow>
        plain_span (la_role v) = plain_span (la_role w) \<and> r = s" for r s
      by (rule text_inj [OF ok]) simp
    ultimately show "artifact_fact v = artifact_fact w \<and> x = y"
      using vw(3) by (simp add: artifact_bytes_def artifact_fact_def map_inj cbor_head_inj digest_inj)
  qed
qed

lemma parameters_inj:
  assumes "parameters_ok a" "parameters_ok b" "list_all (\<lambda>p. wf_value (lp_value p)) (view_items a)"
    "list_all (\<lambda>p. wf_value (lp_value p)) (view_items b)" and "parameters_bytes a @ x = parameters_bytes b @ y"
  shows "facts_of parameter_fact a = facts_of parameter_fact b \<and> x = y"
proof -
  have n: "view_count a = length (view_items a)" "view_count b = length (view_items b)" "view_count a \<le> 2 ^ 32" "view_count b \<le> 2 ^ 32"
    using assms(1,2) view_items_length [of a] view_items_length [of b] by (auto simp: parameters_ok_def)
  have heads: "view_count a = view_count b"
    "concat (map parameter_bytes (sort_by (by_text lp_id) (view_items a))) @ x = concat (map parameter_bytes (sort_by (by_text lp_id) (view_items b))) @ y"
    using assms(5) count_inj [OF n(3,4)] by (simp_all add: parameters_bytes_def)
  show ?thesis
    unfolding facts_of_def
  proof (rule sorted_inj [OF _ _ heads(2)])
    show "length (view_items a) = length (view_items b)" using heads(1) n by simp
    fix v w x y assume vw: "v \<in> set (view_items a)" "w \<in> set (view_items b)" "parameter_bytes v @ x = parameter_bytes w @ y"
    then have acc: "parameter_acceptable v" "parameter_acceptable w" and wf: "wf_value (lp_value v)" "wf_value (lp_value w)"
      using assms(1-4) by (auto simp: parameters_ok_def list_all_iff)
    then have "valid_text (lp_id v) 128" "valid_text (lp_id w) 128" by (auto simp: parameter_acceptable_def)
    from text_inj [OF this] have "plain_span (lp_id v) = plain_span (lp_id w)" "value_bytes (lp_value v) @ x = value_bytes (lp_value w) @ y"
      using vw(3) by (simp_all add: parameter_bytes_def map_inj cbor_head_inj)
    then show "parameter_fact v = parameter_fact w \<and> x = y"
      using value_bytes_inj [OF parameter_acceptable_facts(3) [OF acc(1)] parameter_acceptable_facts(3) [OF acc(2)] wf]
      by (simp add: parameter_fact_def)
  qed
qed

lemma metadata_inj:
  assumes "metadata_ok a" "metadata_ok b" "list_all (\<lambda>p. wf_value (lm_value p)) (view_items a)"
    "list_all (\<lambda>p. wf_value (lm_value p)) (view_items b)" and "length (view_items a) = length (view_items b)"
    "metadata_body a @ x = metadata_body b @ y"
  shows "facts_of metadata_fact a = facts_of metadata_fact b \<and> x = y"
  unfolding facts_of_def
proof (rule sorted_inj [OF _ assms(5) assms(6) [unfolded metadata_body_def]])
  fix v w x y assume vw: "v \<in> set (view_items a)" "w \<in> set (view_items b)" "metadata_bytes v @ x = metadata_bytes w @ y"
  then have acc: "metadata_acceptable v" "metadata_acceptable w" and wf: "wf_value (lm_value v)" "wf_value (lm_value w)"
    using assms(1-4) by (auto simp: metadata_ok_def list_all_iff)
  then have "valid_text (lm_key v) 16384" "valid_text (lm_key w) 16384" by (auto simp: metadata_acceptable_def)
  from text_inj [OF this] have "plain_span (lm_key v) = plain_span (lm_key w)" "value_bytes (lm_value v) @ x = value_bytes (lm_value w) @ y"
    using vw(3) by (simp_all add: metadata_bytes_def map_inj cbor_head_inj)
  then show "metadata_fact v = metadata_fact w \<and> x = y"
    using value_bytes_inj [OF metadata_acceptable_facts(3) [OF acc(1)] metadata_acceptable_facts(3) [OF acc(2)] wf]
    by (simp add: metadata_fact_def)
qed

lemma specials_inj:
  assumes "specials_ok n a" "specials_ok n b" "length (view_items a) = length (view_items b)"
    "specials_body a @ x = specials_body b @ y"
  shows "facts_of special_fact a = facts_of special_fact b \<and> x = y"
  unfolding facts_of_def
proof (rule sorted_inj [OF _ assms(3) assms(4) [unfolded specials_body_def]])
  fix v w x y assume vw: "v \<in> set (view_items a)" "w \<in> set (view_items b)" "special_bytes v @ x = special_bytes w @ y"
  then have "valid_text (st_role v) 128" "valid_text (st_role w) 128"
    using assms(1,2) by (auto simp: specials_ok_def list_all_iff special_acceptable_def)
  from text_inj [OF this] show "special_fact v = special_fact w \<and> x = y"
    using vw(3) by (simp add: special_bytes_def special_fact_def map_inj cbor_head_inj)
qed

lemma tokens_inj:
  assumes "tokens_ok a" "tokens_ok b" "length (view_items a) = length (view_items b)"
    "list_all (\<lambda>t. length (tk_score_bits t) = 8) (view_items a)" "list_all (\<lambda>t. length (tk_score_bits t) = 8) (view_items b)"
    "tokens_body a @ x = tokens_body b @ y"
  shows "facts_of token_fact a = facts_of token_fact b \<and> x = y"
  unfolding facts_of_def
proof (rule sorted_inj [OF _ assms(3) assms(6) [unfolded tokens_body_def]])
  fix v w x y assume vw: "v \<in> set (view_items a)" "w \<in> set (view_items b)" "live_token_bytes v @ x = live_token_bytes w @ y"
  then have "valid_bytes (tk_exact_bytes v)" "valid_bytes (tk_exact_bytes w)" "span_size (tk_exact_bytes v) < 2 ^ 64"
    "span_size (tk_exact_bytes w) < 2 ^ 64" and score: "length (tk_score_bits v) < 2 ^ 64" "length (tk_score_bits w) < 2 ^ 64"
    using assms(1,2,4,5) by (fastforce simp: tokens_ok_def list_all_iff token_acceptable_def)+
  from cbor_span_inj(2) [OF this(1-4)] cbor_text_inj(2) [OF score] show "token_fact v = token_fact w \<and> x = y"
    using vw(3) by (simp add: live_token_bytes_def token_fact_def map_inj cbor_head_inj)
qed

lemma merges_inj:
  assumes "merges_ok a" "merges_ok b" "length (view_items a) = length (view_items b)"
    "merges_body a @ x = merges_body b @ y"
  shows "map merge_fact (view_items a) = map merge_fact (view_items b) \<and> x = y"
proof (rule items_inj [OF _ assms(3) assms(4) [unfolded merges_body_def]])
  fix v w x y assume vw: "v \<in> set (view_items a)" "w \<in> set (view_items b)" "merge_bytes v @ x = merge_bytes w @ y"
  then have m: "merge_acceptable v" "merge_acceptable w" using assms(1,2) by (auto simp: merges_ok_def list_all_iff)
  then have "cbor_bytes (span_bytes (mg_left v)) @ r = cbor_bytes (span_bytes (mg_left w)) @ s \<longleftrightarrow>
      plain_span (mg_left v) = plain_span (mg_left w) \<and> r = s"
    "cbor_bytes (span_bytes (mg_right v)) @ r = cbor_bytes (span_bytes (mg_right w)) @ s \<longleftrightarrow>
      plain_span (mg_right v) = plain_span (mg_right w) \<and> r = s" for r s
    by (intro cbor_span_inj(2); simp add: merge_acceptable_def)+
  then show "merge_fact v = merge_fact w \<and> x = y"
    using vw(3) by (simp add: merge_bytes_def merge_fact_def map_inj cbor_head_inj)
qed

lemma heads_inj:
  "length ns = length ms \<Longrightarrow> concat (map (cbor_head 0) ns) @ x = concat (map (cbor_head 0) ms) @ y \<longleftrightarrow> ns = ms \<and> x = y"
  by (induction ns ms rule: list_induct2) (auto simp: cbor_head_inj)

lemma tensors_inj:
  assumes "tensors_ok n ss a" "tensors_ok n' ss' b" "length (view_items a) = length (view_items b)"
    "tensors_body a @ x = tensors_body b @ y"
  shows "facts_of tensor_fact a = facts_of tensor_fact b \<and> x = y"
  unfolding facts_of_def
proof (rule sorted_inj [OF _ assms(3) assms(4) [unfolded tensors_body_def]])
  fix v w x y assume vw: "v \<in> set (view_items a)" "w \<in> set (view_items b)" "tensor_bytes v @ x = tensor_bytes w @ y"
  then have acc: "tensor_acceptable n ss v" "tensor_acceptable n' ss' w" using assms(1,2) by (auto simp: tensors_ok_def list_all_iff)
  then have texts: "valid_text (lt_name v) 16384" "valid_text (lt_name w) 16384" by (auto simp: tensor_acceptable_def)
  have dims: "view_count (lt_dimensions v) = length (view_items (lt_dimensions v))" "view_count (lt_dimensions w) = length (view_items (lt_dimensions w))"
    "view_count (lt_dimensions v) \<le> 2 ^ 32" "view_count (lt_dimensions w) \<le> 2 ^ 32"
    using tensor_acceptable_facts(5,6) [OF acc(1)] tensor_acceptable_facts(5,6) [OF acc(2)]
      view_items_length [of "lt_dimensions v"] view_items_length [of "lt_dimensions w"] by auto
  show "tensor_fact v = tensor_fact w \<and> x = y"
    using vw(3) text_inj [OF texts] count_inj [OF dims(3,4)] heads_inj [of "view_items (lt_dimensions v)" "view_items (lt_dimensions w)"] dims(1,2)
    by (auto simp: tensor_bytes_def tensor_fact_def map_inj cbor_head_inj)
qed

subsection \<open>Framed messages\<close>

lemma length_frame:
  assumes "m < 256 ^ k" "n < 256 ^ k" "k \<le> 8"
  shows "be_bytes k (of_nat m) @ x = be_bytes k (of_nat n) @ y \<longleftrightarrow> m = n \<and> x = y"
proof -
  have "(256 :: nat) ^ k \<le> 256 ^ 8" using assms(3) by (intro power_increasing) auto
  then have "unat (of_nat m :: u64) = m" "unat (of_nat n :: u64) = n" using assms(1,2) by (simp_all add: unat_of_nat)
  then have read: "be_nat (be_bytes k (of_nat m)) = m" "be_nat (be_bytes k (of_nat n)) = n"
    using assms(1,2) by (simp_all only: be_nat_be_bytes mod_less)
  have "be_bytes k (of_nat m) = be_bytes k (of_nat n) \<Longrightarrow> m = n"
    using read by metis
  then show ?thesis by auto
qed

definition span_framed :: "nat \<Rightarrow> byte_span \<Rightarrow> byte list" where
  "span_framed k s = be_bytes k (of_nat (span_size s)) @ span_bytes s"

lemma span_frame:
  assumes "valid_bytes a" "valid_bytes b" "span_size a < 256 ^ k" "span_size b < 256 ^ k" "k \<le> 8"
  shows "span_framed k a @ x = span_framed k b @ y \<longleftrightarrow> span_bytes a = span_bytes b \<and> x = y"
  unfolding span_framed_def append_assoc length_frame [OF assms(3-5)]
  using span_bytes_valid [OF assms(1)] span_bytes_valid [OF assms(2)] by auto

lemma span_frame_last:
  assumes "valid_bytes a" "valid_bytes b" "span_size a < 256 ^ k" "span_size b < 256 ^ k" "k \<le> 8"
  shows "span_framed k a = span_framed k b \<longleftrightarrow> span_bytes a = span_bytes b"
  using span_frame [OF assms, of "[]" "[]"] by simp

lemma framed_messages:
  "source_message r = domain_bytes ''halofpx.source-tree.v1'' @ span_framed 2 (rt_source_revision r) @
     span_framed 8 (rt_source_tree_manifest r) @ [if rt_source_is_dirty r then 1 else 0] @ span_framed 8 (rt_dirty_tree_manifest r)"
  "global_message t = domain_bytes ''halofpx.global-plan.v1'' @ span_framed 8 (tp_global_plan t)"
  "ownership_message k = domain_bytes ''halofpx.rank-ownership.v1'' @ be_bytes 4 (ucast (rk_logical_rank k)) @
     span_framed 8 (rk_ownership_plan k)"
  "placement_message k = domain_bytes ''halofpx.rank-placement.v1'' @ be_bytes 4 (ucast (rk_logical_rank k)) @
     span_framed 2 (rk_stable_endpoint_id k) @ span_framed 2 (rk_stable_device_id k) @ span_framed 8 (rk_placement_plan k)"
  by (simp_all add: source_message_def global_message_def ownership_message_def placement_message_def span_framed_def)

lemma bounded_spans:
  "valid_text t 128 \<Longrightarrow> valid_bytes t \<and> span_size t < 256 ^ 2"
  "nonempty_bytes b \<Longrightarrow> valid_bytes b \<and> span_size b < 256 ^ 8"
  using valid_text_bytes(1,3) [of t 128] nonempty_bytes_valid [of b] by (simp_all add: unat_hash_maximum)

lemma source_message_inj:
  assumes "runtime_ok a" "runtime_ok b" "source_message a = source_message b"
  shows "span_bytes (rt_source_revision a) = span_bytes (rt_source_revision b) \<and>
    span_bytes (rt_source_tree_manifest a) = span_bytes (rt_source_tree_manifest b) \<and>
    rt_source_is_dirty a = rt_source_is_dirty b \<and>
    span_bytes (rt_dirty_tree_manifest a) = span_bytes (rt_dirty_tree_manifest b)"
proof -
  have dirty: "valid_bytes (rt_dirty_tree_manifest r) \<and> span_size (rt_dirty_tree_manifest r) < 256 ^ 8" if "runtime_ok r" for r
    using that bounded_spans(2) by (cases "rt_source_is_dirty r") (auto simp: runtime_ok_def)
  have revision: "valid_text (rt_source_revision r) 128" and tree: "nonempty_bytes (rt_source_tree_manifest r)" if "runtime_ok r" for r
    using that by (simp_all add: runtime_ok_def)
  have "span_framed 2 (rt_source_revision a) @ x = span_framed 2 (rt_source_revision b) @ y \<longleftrightarrow>
      span_bytes (rt_source_revision a) = span_bytes (rt_source_revision b) \<and> x = y"
    "span_framed 8 (rt_source_tree_manifest a) @ x = span_framed 8 (rt_source_tree_manifest b) @ y \<longleftrightarrow>
      span_bytes (rt_source_tree_manifest a) = span_bytes (rt_source_tree_manifest b) \<and> x = y"
    "span_framed 8 (rt_dirty_tree_manifest a) = span_framed 8 (rt_dirty_tree_manifest b) \<longleftrightarrow>
      span_bytes (rt_dirty_tree_manifest a) = span_bytes (rt_dirty_tree_manifest b)" for x y
    using bounded_spans(1) [OF revision [OF assms(1)]] bounded_spans(1) [OF revision [OF assms(2)]]
      bounded_spans(2) [OF tree [OF assms(1)]] bounded_spans(2) [OF tree [OF assms(2)]] dirty [OF assms(1)] dirty [OF assms(2)]
    by (simp_all add: span_frame span_frame_last)
  then show ?thesis
    using assms(3) by (simp add: framed_messages(1) split: if_splits)
qed

lemma rank_messages_inj:
  assumes "rank_acceptable i a" "rank_acceptable i b" "ownership_message a = ownership_message b" "placement_message a = placement_message b"
  shows "rank_fact a = rank_fact b"
proof -
  have r: "valid_text (rk_stable_endpoint_id r) 128" "valid_text (rk_stable_device_id r) 128" "nonempty_bytes (rk_ownership_plan r)"
    "nonempty_bytes (rk_placement_plan r)" "unat (rk_logical_rank r) = i" if "rank_acceptable i r" for r
    using that by (simp_all add: rank_acceptable_def)
  have "rk_logical_rank a = rk_logical_rank b" using r(5) assms(1,2) by (simp add: word_unat_eq_iff)
  moreover have "span_bytes (rk_ownership_plan a) = span_bytes (rk_ownership_plan b)"
    using assms(3) calculation bounded_spans(2) [OF r(3) [OF assms(1)]] bounded_spans(2) [OF r(3) [OF assms(2)]]
      span_frame_last [of "rk_ownership_plan a" "rk_ownership_plan b" 8] by (simp add: framed_messages(3))
  moreover have "span_bytes (rk_stable_endpoint_id a) = span_bytes (rk_stable_endpoint_id b) \<and>
      span_bytes (rk_stable_device_id a) = span_bytes (rk_stable_device_id b) \<and>
      span_bytes (rk_placement_plan a) = span_bytes (rk_placement_plan b)"
    using assms(4) calculation(1) bounded_spans(1) [OF r(1) [OF assms(1)]] bounded_spans(1) [OF r(1) [OF assms(2)]]
      bounded_spans(1) [OF r(2) [OF assms(1)]] bounded_spans(1) [OF r(2) [OF assms(2)]]
      bounded_spans(2) [OF r(4) [OF assms(1)]] bounded_spans(2) [OF r(4) [OF assms(2)]]
    by (simp add: framed_messages(4) span_frame span_frame_last)
  ultimately show ?thesis by (simp add: rank_fact_def)
qed

lemma global_message_inj:
  assumes "nonempty_bytes (tp_global_plan a)" "nonempty_bytes (tp_global_plan b)" "global_message a = global_message b"
  shows "span_bytes (tp_global_plan a) = span_bytes (tp_global_plan b)"
  using assms(3) bounded_spans(2) [OF assms(1)] bounded_spans(2) [OF assms(2)]
  by (simp add: framed_messages(2) span_frame_last)

subsection \<open>Component bodies\<close>

lemma count_facts: "\<not> (view_null v \<and> view_count v \<noteq> 0) \<Longrightarrow> view_count v \<le> 4194304 \<Longrightarrow>
    view_count v = length (view_items v) \<and> view_count v \<le> 2 ^ 32"
  using view_length [of v] by simp

lemma metadata_counts:
  "metadata_component_ok m \<Longrightarrow> view_count (md_metadata m) = length (view_items (md_metadata m)) \<and> view_count (md_metadata m) \<le> 2 ^ 32 \<and>
     view_count (md_tensors m) = length (view_items (md_tensors m)) \<and> view_count (md_tensors m) \<le> 2 ^ 32"
  using count_facts [of "md_metadata m"] count_facts [of "md_tensors m"] by (simp add: metadata_component_ok_def)

lemma tokenizer_counts:
  "tokenizer_ok t \<Longrightarrow> view_count (tz_tokens t) = length (view_items (tz_tokens t)) \<and> view_count (tz_tokens t) \<le> 2 ^ 32 \<and>
     view_count (tz_merges t) = length (view_items (tz_merges t)) \<and> view_count (tz_merges t) \<le> 2 ^ 32 \<and>
     view_count (tz_special_tokens t) = length (view_items (tz_special_tokens t)) \<and> view_count (tz_special_tokens t) \<le> 2 ^ 32"
  using count_facts [of "tz_tokens t"] count_facts [of "tz_merges t"] count_facts [of "tz_special_tokens t"]
  by (simp add: tokenizer_ok_def specials_ok_def)

lemma registered_inj:
  "registered_text a \<Longrightarrow> registered_text b \<Longrightarrow>
     cbor_text (span_bytes a) @ x = cbor_text (span_bytes b) @ y \<longleftrightarrow> plain_span a = plain_span b \<and> x = y"
  by (rule text_inj [of a 128]) (simp_all add: registered_text_def)

lemma registered_last: "registered_text a \<Longrightarrow> registered_text b \<Longrightarrow>
    cbor_text (span_bytes a) = cbor_text (span_bytes b) \<longleftrightarrow> plain_span a = plain_span b"
  using registered_inj [of a b "[]" "[]"] by simp

lemma model_inj:
  assumes "model_bytes_ok a" "model_bytes_ok b" "\<not> collide (contents (md_shards a)) (contents (md_shards b))" "model_body a = model_body b"
  shows "facts_of artifact_fact (md_shards a) = facts_of artifact_fact (md_shards b)"
  using artifacts_inj [of 1024 "md_shards a" "md_shards b" "[]" "[]"] assms
  by (simp add: model_bytes_ok_def model_body_def map_inj cbor_head_inj)

lemma metadata_component_inj:
  assumes ok: "metadata_component_ok a" "metadata_component_ok b"
    and wf: "list_all (\<lambda>p. wf_value (lm_value p)) (view_items (md_metadata a))" "list_all (\<lambda>p. wf_value (lm_value p)) (view_items (md_metadata b))"
    and eq: "metadata_component_body a = metadata_component_body b"
  shows "plain_span (md_metadata_schema_id a) = plain_span (md_metadata_schema_id b) \<and>
    facts_of metadata_fact (md_metadata a) = facts_of metadata_fact (md_metadata b) \<and>
    facts_of tensor_fact (md_tensors a) = facts_of tensor_fact (md_tensors b)"
proof -
  have c: "view_count (md_metadata a) = length (view_items (md_metadata a)) \<and> view_count (md_metadata a) \<le> 2 ^ 32"
    "view_count (md_metadata b) = length (view_items (md_metadata b)) \<and> view_count (md_metadata b) \<le> 2 ^ 32"
    "view_count (md_tensors a) = length (view_items (md_tensors a)) \<and> view_count (md_tensors a) \<le> 2 ^ 32"
    "view_count (md_tensors b) = length (view_items (md_tensors b)) \<and> view_count (md_tensors b) \<le> 2 ^ 32"
    using metadata_counts [OF ok(1)] metadata_counts [OF ok(2)] by simp_all
  have schema: "registered_text (md_metadata_schema_id a)" "registered_text (md_metadata_schema_id b)"
    using ok by (simp_all add: metadata_component_ok_def registered_text_def)
  have one: "plain_span (md_metadata_schema_id a) = plain_span (md_metadata_schema_id b)"
    "view_count (md_metadata a) = view_count (md_metadata b)"
    and rest: "metadata_body (md_metadata a) @ cbor_head 0 2 @ cbor_array (view_count (md_tensors a)) @ tensors_body (md_tensors a) =
      metadata_body (md_metadata b) @ cbor_head 0 2 @ cbor_array (view_count (md_tensors b)) @ tensors_body (md_tensors b)"
    using eq count_inj [of "view_count (md_metadata a)" "view_count (md_metadata b)"] c
    by (simp_all add: metadata_component_body_def map_inj cbor_head_inj registered_inj [OF schema])
  have two: "facts_of metadata_fact (md_metadata a) = facts_of metadata_fact (md_metadata b)"
    "cbor_head 0 2 @ cbor_array (view_count (md_tensors a)) @ tensors_body (md_tensors a) =
     cbor_head 0 2 @ cbor_array (view_count (md_tensors b)) @ tensors_body (md_tensors b)"
    using metadata_inj [OF _ _ wf _ rest] ok one(2) c by (simp_all add: metadata_component_ok_def)
  have three: "view_count (md_tensors a) = view_count (md_tensors b)" "tensors_body (md_tensors a) @ [] = tensors_body (md_tensors b) @ []"
    using two(2) count_inj [of "view_count (md_tensors a)" "view_count (md_tensors b)"] c by (simp_all add: cbor_head_inj)
  have "tensors_ok (view_count (md_shards a)) (shard_sizes_of (md_shards a)) (md_tensors a)"
    "tensors_ok (view_count (md_shards b)) (shard_sizes_of (md_shards b)) (md_tensors b)"
    using ok by (simp_all add: metadata_component_ok_def)
  from tensors_inj [OF this _ three(2)] show ?thesis using one(1) two(1) three(1) c by simp
qed

lemma tokenizer_inj:
  assumes ok: "tokenizer_ok a" "tokenizer_ok b" and nc: "\<not> collide (contents (tz_artifacts a)) (contents (tz_artifacts b))"
    and wf: "list_all (\<lambda>t. length (tk_score_bits t) = 8) (view_items (tz_tokens a))" "list_all (\<lambda>t. length (tk_score_bits t) = 8) (view_items (tz_tokens b))"
      "list_all (\<lambda>p. wf_value (lp_value p)) (view_items (tz_policy a))" "list_all (\<lambda>p. wf_value (lp_value p)) (view_items (tz_policy b))"
    and eq: "tokenizer_body a = tokenizer_body b"
  shows "facts_of artifact_fact (tz_artifacts a) = facts_of artifact_fact (tz_artifacts b) \<and>
    facts_of token_fact (tz_tokens a) = facts_of token_fact (tz_tokens b) \<and>
    map merge_fact (view_items (tz_merges a)) = map merge_fact (view_items (tz_merges b)) \<and>
    facts_of special_fact (tz_special_tokens a) = facts_of special_fact (tz_special_tokens b) \<and>
    facts_of parameter_fact (tz_policy a) = facts_of parameter_fact (tz_policy b)"
proof -
  have c: "view_count (tz_tokens a) = length (view_items (tz_tokens a)) \<and> view_count (tz_tokens a) \<le> 2 ^ 32"
    "view_count (tz_tokens b) = length (view_items (tz_tokens b)) \<and> view_count (tz_tokens b) \<le> 2 ^ 32"
    "view_count (tz_merges a) = length (view_items (tz_merges a)) \<and> view_count (tz_merges a) \<le> 2 ^ 32"
    "view_count (tz_merges b) = length (view_items (tz_merges b)) \<and> view_count (tz_merges b) \<le> 2 ^ 32"
    "view_count (tz_special_tokens a) = length (view_items (tz_special_tokens a)) \<and> view_count (tz_special_tokens a) \<le> 2 ^ 32"
    "view_count (tz_special_tokens b) = length (view_items (tz_special_tokens b)) \<and> view_count (tz_special_tokens b) \<le> 2 ^ 32"
    using tokenizer_counts [OF ok(1)] tokenizer_counts [OF ok(2)] by simp_all
  have e0: "artifacts_bytes (tz_artifacts a) @ cbor_head 0 1 @ cbor_array (view_count (tz_tokens a)) @ tokens_body (tz_tokens a) @
      cbor_head 0 2 @ cbor_array (view_count (tz_merges a)) @ merges_body (tz_merges a) @
      cbor_head 0 3 @ cbor_array (view_count (tz_special_tokens a)) @ specials_body (tz_special_tokens a) @
      cbor_head 0 4 @ parameters_bytes (tz_policy a) =
     artifacts_bytes (tz_artifacts b) @ cbor_head 0 1 @ cbor_array (view_count (tz_tokens b)) @ tokens_body (tz_tokens b) @
      cbor_head 0 2 @ cbor_array (view_count (tz_merges b)) @ merges_body (tz_merges b) @
      cbor_head 0 3 @ cbor_array (view_count (tz_special_tokens b)) @ specials_body (tz_special_tokens b) @
      cbor_head 0 4 @ parameters_bytes (tz_policy b)"
    using eq by (simp add: tokenizer_body_def map_inj cbor_head_inj)
  have arts: "artifacts_ok 64 (tz_artifacts a)" "artifacts_ok 64 (tz_artifacts b)" using ok by (simp_all add: tokenizer_ok_def)
  note r0 = artifacts_inj [OF arts _ nc e0, simplified]
  have n1: "view_count (tz_tokens a) = view_count (tz_tokens b)"
    and e1: "tokens_body (tz_tokens a) @ cbor_head 0 2 @ cbor_array (view_count (tz_merges a)) @ merges_body (tz_merges a) @
      cbor_head 0 3 @ cbor_array (view_count (tz_special_tokens a)) @ specials_body (tz_special_tokens a) @
      cbor_head 0 4 @ parameters_bytes (tz_policy a) =
     tokens_body (tz_tokens b) @ cbor_head 0 2 @ cbor_array (view_count (tz_merges b)) @ merges_body (tz_merges b) @
      cbor_head 0 3 @ cbor_array (view_count (tz_special_tokens b)) @ specials_body (tz_special_tokens b) @
      cbor_head 0 4 @ parameters_bytes (tz_policy b)"
    using r0 count_inj [of "view_count (tz_tokens a)" "view_count (tz_tokens b)"] c by (simp_all add: cbor_head_inj)
  have toks: "tokens_ok (tz_tokens a)" "tokens_ok (tz_tokens b)" "length (view_items (tz_tokens a)) = length (view_items (tz_tokens b))"
    using ok n1 c by (simp_all add: tokenizer_ok_def)
  note r1 = tokens_inj [OF toks wf(1,2) e1]
  have n2: "view_count (tz_merges a) = view_count (tz_merges b)"
    and e2: "merges_body (tz_merges a) @ cbor_head 0 3 @ cbor_array (view_count (tz_special_tokens a)) @ specials_body (tz_special_tokens a) @
      cbor_head 0 4 @ parameters_bytes (tz_policy a) =
     merges_body (tz_merges b) @ cbor_head 0 3 @ cbor_array (view_count (tz_special_tokens b)) @ specials_body (tz_special_tokens b) @
      cbor_head 0 4 @ parameters_bytes (tz_policy b)"
    using r1 count_inj [of "view_count (tz_merges a)" "view_count (tz_merges b)"] c by (simp_all add: cbor_head_inj)
  have mers: "merges_ok (tz_merges a)" "merges_ok (tz_merges b)" "length (view_items (tz_merges a)) = length (view_items (tz_merges b))"
    using ok n2 c by (simp_all add: tokenizer_ok_def)
  note r2 = merges_inj [OF mers e2]
  have n3: "view_count (tz_special_tokens a) = view_count (tz_special_tokens b)"
    and e3: "specials_body (tz_special_tokens a) @ cbor_head 0 4 @ parameters_bytes (tz_policy a) =
     specials_body (tz_special_tokens b) @ cbor_head 0 4 @ parameters_bytes (tz_policy b)"
    using r2 count_inj [of "view_count (tz_special_tokens a)" "view_count (tz_special_tokens b)"] c by (simp_all add: cbor_head_inj)
  have specs: "specials_ok (view_count (tz_tokens a)) (tz_special_tokens a)" "specials_ok (view_count (tz_tokens a)) (tz_special_tokens b)"
    "length (view_items (tz_special_tokens a)) = length (view_items (tz_special_tokens b))"
    using ok n1 n3 c by (simp_all add: tokenizer_ok_def)
  note r3 = specials_inj [OF specs e3]
  have pars: "parameters_ok (tz_policy a)" "parameters_ok (tz_policy b)" "parameters_bytes (tz_policy a) @ [] = parameters_bytes (tz_policy b) @ []"
    using ok r3 by (simp_all add: tokenizer_ok_def cbor_head_inj)
  note r4 = parameters_inj [OF pars(1,2) wf(3,4) pars(3)]
  show ?thesis using r0 r1 r2 r3 r4 by simp
qed

lemma template_inj:
  assumes "template_ok a" "template_ok b"
    "\<not> collide [span_bytes (ch_exact_template_bytes a), span_bytes (ch_renderer_executable_bytes a)]
       [span_bytes (ch_exact_template_bytes b), span_bytes (ch_renderer_executable_bytes b)]"
    and eq: "template_body a = template_body b"
  shows "span_bytes (ch_exact_template_bytes a) = span_bytes (ch_exact_template_bytes b) \<and>
    plain_span (ch_renderer_id a) = plain_span (ch_renderer_id b) \<and>
    span_bytes (ch_renderer_executable_bytes a) = span_bytes (ch_renderer_executable_bytes b)"
proof -
  have r: "registered_text (ch_renderer_id a)" "registered_text (ch_renderer_id b)" using assms(1,2) by (simp_all add: template_ok_def)
  have last: "cbor_bytes (sha256 p) = cbor_bytes (sha256 q) \<longleftrightarrow> sha256 p = sha256 q" for p q
    using digest_inj [of p "[]" q "[]"] by simp
  have "sha256 (span_bytes (ch_exact_template_bytes a)) = sha256 (span_bytes (ch_exact_template_bytes b)) \<and>
      plain_span (ch_renderer_id a) = plain_span (ch_renderer_id b) \<and>
      sha256 (span_bytes (ch_renderer_executable_bytes a)) = sha256 (span_bytes (ch_renderer_executable_bytes b))"
    using eq by (simp add: template_body_def map_inj cbor_head_inj digest_inj registered_inj [OF r] last)
  then show ?thesis
    using no_collision_iff [OF assms(3), of "span_bytes (ch_exact_template_bytes a)" "span_bytes (ch_exact_template_bytes b)"]
      no_collision_iff [OF assms(3), of "span_bytes (ch_renderer_executable_bytes a)" "span_bytes (ch_renderer_executable_bytes b)"]
    by simp
qed

lemma runtime_inj:
  assumes ok: "runtime_ok a" "runtime_ok b" and nc: "\<not> collide (contents (rt_artifacts a)) (contents (rt_artifacts b))"
    "sha256 (source_message a) = sha256 (source_message b) \<Longrightarrow> source_message a = source_message b"
    and wf: "list_all (\<lambda>p. wf_value (lp_value p)) (view_items (rt_build_options a))" "list_all (\<lambda>p. wf_value (lp_value p)) (view_items (rt_build_options b))"
    and eq: "runtime_body a = runtime_body b"
  shows "(span_bytes (rt_source_revision a), span_bytes (rt_source_tree_manifest a), rt_source_is_dirty a, span_bytes (rt_dirty_tree_manifest a)) =
      (span_bytes (rt_source_revision b), span_bytes (rt_source_tree_manifest b), rt_source_is_dirty b, span_bytes (rt_dirty_tree_manifest b)) \<and>
    facts_of artifact_fact (rt_artifacts a) = facts_of artifact_fact (rt_artifacts b) \<and>
    plain_span (rt_toolchain_id a) = plain_span (rt_toolchain_id b) \<and>
    facts_of parameter_fact (rt_build_options a) = facts_of parameter_fact (rt_build_options b) \<and>
    plain_span (rt_state_abi_id a) = plain_span (rt_state_abi_id b)"
proof -
  have t: "registered_text (rt_toolchain_id a)" "registered_text (rt_toolchain_id b)"
    "registered_text (rt_state_abi_id a)" "registered_text (rt_state_abi_id b)"
    "artifacts_ok 1024 (rt_artifacts a)" "artifacts_ok 1024 (rt_artifacts b)"
    "parameters_ok (rt_build_options a)" "parameters_ok (rt_build_options b)"
    using ok by (simp_all add: runtime_ok_def)
  have src: "sha256 (source_message a) = sha256 (source_message b)" and
    e0: "artifacts_bytes (rt_artifacts a) @ cbor_head 0 2 @ cbor_text (span_bytes (rt_toolchain_id a)) @
      cbor_head 0 3 @ parameters_bytes (rt_build_options a) @ cbor_head 0 4 @ cbor_text (span_bytes (rt_state_abi_id a)) =
     artifacts_bytes (rt_artifacts b) @ cbor_head 0 2 @ cbor_text (span_bytes (rt_toolchain_id b)) @
      cbor_head 0 3 @ parameters_bytes (rt_build_options b) @ cbor_head 0 4 @ cbor_text (span_bytes (rt_state_abi_id b))"
    using eq by (simp_all add: runtime_body_def map_inj cbor_head_inj digest_inj)
  note r0 = artifacts_inj [OF t(5,6) _ nc(1) e0, simplified]
  have e1: "parameters_bytes (rt_build_options a) @ cbor_head 0 4 @ cbor_text (span_bytes (rt_state_abi_id a)) =
     parameters_bytes (rt_build_options b) @ cbor_head 0 4 @ cbor_text (span_bytes (rt_state_abi_id b))"
    and tool: "plain_span (rt_toolchain_id a) = plain_span (rt_toolchain_id b)"
    using r0 by (simp_all add: cbor_head_inj registered_inj [OF t(1,2)])
  note r1 = parameters_inj [OF t(7,8) wf e1]
  have "plain_span (rt_state_abi_id a) = plain_span (rt_state_abi_id b)"
    using r1 by (simp add: cbor_head_inj registered_last [OF t(3,4)])
  then show ?thesis using source_message_inj [OF ok nc(2) [OF src]] r0 r1 tool by simp
qed

lemma topology_inj:
  assumes ok: "live_topology_ok a" "live_topology_ok b" and eq: "topology_body a = topology_body b"
    and nc: "\<And>x y. x \<in> set (global_message a # map ownership_message (view_items (tp_ranks a)) @ map placement_message (view_items (tp_ranks a))) \<Longrightarrow>
      y \<in> set (global_message b # map ownership_message (view_items (tp_ranks b)) @ map placement_message (view_items (tp_ranks b))) \<Longrightarrow>
      sha256 x = sha256 y \<Longrightarrow> x = y"
  shows "plain_span (tp_plan_schema_id a) = plain_span (tp_plan_schema_id b) \<and>
    plain_span (tp_execution_mode_id a) = plain_span (tp_execution_mode_id b) \<and>
    span_bytes (tp_global_plan a) = span_bytes (tp_global_plan b) \<and> tp_stable_topology_epoch a = tp_stable_topology_epoch b \<and>
    map rank_fact (view_items (tp_ranks a)) = map rank_fact (view_items (tp_ranks b))"
proof -
  have t: "registered_text (tp_plan_schema_id a)" "registered_text (tp_plan_schema_id b)"
    "registered_text (tp_execution_mode_id a)" "registered_text (tp_execution_mode_id b)"
    "nonempty_bytes (tp_global_plan a)" "nonempty_bytes (tp_global_plan b)"
    "view_count (tp_ranks a) = 2" "view_count (tp_ranks b) = 2"
    "length (view_items (tp_ranks a)) = 2" "length (view_items (tp_ranks b)) = 2"
    using ok view_items_length [of "tp_ranks a"] view_items_length [of "tp_ranks b"] by (simp_all add: live_topology_ok_def)
  have e: "plain_span (tp_plan_schema_id a) = plain_span (tp_plan_schema_id b)"
    "plain_span (tp_execution_mode_id a) = plain_span (tp_execution_mode_id b)"
    "sha256 (global_message a) = sha256 (global_message b)" "tp_stable_topology_epoch a = tp_stable_topology_epoch b"
    and ranks: "concat (map live_rank_bytes (view_items (tp_ranks a))) @ [] = concat (map live_rank_bytes (view_items (tp_ranks b))) @ []"
    using eq by (simp_all add: topology_body_def map_inj cbor_head_inj digest_inj registered_inj [OF t(1,2)] registered_inj [OF t(3,4)] t(7,8))
  have "global_message a = global_message b" using nc [OF _ _ e(3)] by simp
  then have global: "span_bytes (tp_global_plan a) = span_bytes (tp_global_plan b)" by (rule global_message_inj [OF t(5,6)])
  let ?g = "\<lambda>r. (sha256 (ownership_message r), sha256 (placement_message r))"
  have digests: "map ?g (view_items (tp_ranks a)) = map ?g (view_items (tp_ranks b))"
    by (rule conjunct1, rule items_inj [OF _ _ ranks]) (simp_all add: live_rank_bytes_def map_inj cbor_head_inj digest_inj t)
  have "map rank_fact (view_items (tp_ranks a)) = map rank_fact (view_items (tp_ranks b))"
  proof (rule nth_equalityI)
    fix i assume "i < length (map rank_fact (view_items (tp_ranks a)))"
    then have i: "i < 2" using t(9) by simp
    let ?r = "view_items (tp_ranks a) ! i" and ?s = "view_items (tp_ranks b) ! i"
    have acc: "rank_acceptable i ?r" "rank_acceptable i ?s" using ok i by (simp_all add: live_topology_ok_def)
    have "?g ?r = ?g ?s" using arg_cong [OF digests, of "\<lambda>l. l ! i"] i t(9,10) by simp
    then have "ownership_message ?r = ownership_message ?s" "placement_message ?r = placement_message ?s"
      using i t(9,10) by (auto intro!: nc)
    from rank_messages_inj [OF acc this] show "map rank_fact (view_items (tp_ranks a)) ! i = map rank_fact (view_items (tp_ranks b)) ! i"
      using i t(9,10) by simp
  qed (simp add: t)
  then show ?thesis using e global by simp
qed

lemma compatibility_bytes_inj:
  assumes "length ds = 16" "length es = 16" "\<forall>d \<in> set ds. length d = 32" "\<forall>d \<in> set es. length d = 32"
    and "compatibility_bytes ds = compatibility_bytes es"
  shows "ds = es"
proof -
  have "n + length ds \<le> 24 \<Longrightarrow> length ds = length es \<Longrightarrow> \<forall>d \<in> set ds. length d = 32 \<Longrightarrow> \<forall>d \<in> set es. length d = 32 \<Longrightarrow>
      enc_each component_bytes n ds = enc_each component_bytes n es \<Longrightarrow> ds = es" for n
  proof (induction ds arbitrary: n es)
    case (Cons d ds)
    then obtain e es1 where es: "es = e # es1" by (cases es) auto
    then have "d = e" "enc_each component_bytes (Suc n) ds = enc_each component_bytes (Suc n) es1"
      using Cons.prems by (simp_all add: component_bytes_small)
    then show ?case using Cons.IH [of "Suc n" es1] Cons.prems es by simp
  qed simp
  from this [of 0] show ?thesis using assms by (simp add: compatibility_bytes_def)
qed

subsection \<open>The root binds the facts\<close>

lemma hashed_component: "i < 16 \<Longrightarrow> component_message a i \<in> set (hashed_messages a)"
proof -
  assume "i < 16"
  then have "component_message a i \<in> set (map (component_message a) [0..<16])" by (simp del: upt_rec_numeral)
  then show ?thesis unfolding hashed_messages_def set_append list.set by blast
qed

lemma same_root_same_bodies:
  assumes "\<not> collide (hashed_messages a) (hashed_messages b)"
    and "sha256 (compatibility_domain @ compatibility_bytes (component_digests a)) =
      sha256 (compatibility_domain @ compatibility_bytes (component_digests b))"
    and "i < 16"
  shows "component_body a i = component_body b i"
proof -
  have "compatibility_domain @ compatibility_bytes (component_digests a) = compatibility_domain @ compatibility_bytes (component_digests b)"
    by (rule no_collision [OF assms(1) _ _ assms(2)]) (simp_all add: hashed_messages_def)
  then have "component_digests a = component_digests b"
    by (intro compatibility_bytes_inj) (auto simp: component_digests_def simp del: upt_rec_numeral)
  then have "component_digests a ! i = component_digests b ! i" by (rule arg_cong)
  then have "sha256 (component_message a i) = sha256 (component_message b i)"
    using assms(3) by (simp add: component_digests_def del: upt_rec_numeral)
  then have "component_message a i = component_message b i"
    by (rule no_collision [OF assms(1) hashed_component [OF assms(3)] hashed_component [OF assms(3)]])
  then show ?thesis by (simp add: component_message_def)
qed

lemma hashed_members:
  "set (contents (md_shards (li_model a))) \<subseteq> set (hashed_messages a)"
  "set (contents (tz_artifacts (li_tokenizer a))) \<subseteq> set (hashed_messages a)"
  "set (contents (rt_artifacts (li_runtime a))) \<subseteq> set (hashed_messages a)"
  "set [span_bytes (ch_exact_template_bytes (li_chat_template a)), span_bytes (ch_renderer_executable_bytes (li_chat_template a))]
     \<subseteq> set (hashed_messages a)"
  "source_message (li_runtime a) \<in> set (hashed_messages a)"
  "set (global_message (li_topology a) # map ownership_message (view_items (tp_ranks (li_topology a))) @
     map placement_message (view_items (tp_ranks (li_topology a)))) \<subseteq> set (hashed_messages a)"
  unfolding hashed_messages_def set_append list.set by blast+

lemma same_bodies_same_facts:
  assumes ok: "inputs_ok a v" "inputs_ok b w" and wf: "wf_inputs a" "wf_inputs b"
    and nc: "\<not> collide (hashed_messages a) (hashed_messages b)"
    and body: "\<And>i. i < 16 \<Longrightarrow> component_body a i = component_body b i"
  shows "facts a = facts b"
proof -
  have bodies: "model_body (li_model a) = model_body (li_model b)" "metadata_component_body (li_model a) = metadata_component_body (li_model b)"
    "tokenizer_body (li_tokenizer a) = tokenizer_body (li_tokenizer b)" "template_body (li_chat_template a) = template_body (li_chat_template b)"
    "runtime_body (li_runtime a) = runtime_body (li_runtime b)" "topology_body (li_topology a) = topology_body (li_topology b)"
    using body [of 0] body [of 1] body [of 2] body [of 3] body [of 6] body [of 14] by (simp_all add: component_body_def)
  have oks: "model_bytes_ok (li_model x)" "metadata_component_ok (li_model x)" "tokenizer_ok (li_tokenizer x)"
    "template_ok (li_chat_template x)" "runtime_ok (li_runtime x)" "live_topology_ok (li_topology x)" if "inputs_ok x u" for x u
    using that by (simp_all add: inputs_ok_def)
  note oka = oks [OF ok(1)] and okb = oks [OF ok(2)]
  note nc_sub = collide_mono [OF nc]
  have wfs: "list_all (\<lambda>e. wf_value (lm_value e)) (view_items (md_metadata (li_model x)))"
    "list_all (\<lambda>t. length (tk_score_bits t) = 8) (view_items (tz_tokens (li_tokenizer x)))"
    "list_all (\<lambda>p. wf_value (lp_value p)) (view_items (tz_policy (li_tokenizer x)))"
    "list_all (\<lambda>p. wf_value (lp_value p)) (view_items (rt_build_options (li_runtime x)))" if "wf_inputs x" for x
    using that by (simp_all add: wf_inputs_def)
  note wfa = wfs [OF wf(1)] and wfb = wfs [OF wf(2)]
  note same = model_inj [OF oka(1) okb(1) nc_sub [OF hashed_members(1) hashed_members(1)] bodies(1)]
    metadata_component_inj [OF oka(2) okb(2) wfa(1) wfb(1) bodies(2)]
    tokenizer_inj [OF oka(3) okb(3) nc_sub [OF hashed_members(2) hashed_members(2)] wfa(2) wfb(2) wfa(3) wfb(3) bodies(3)]
    template_inj [OF oka(4) okb(4) nc_sub [OF hashed_members(4) hashed_members(4)] bodies(4)]
    runtime_inj [OF oka(5) okb(5) nc_sub [OF hashed_members(3) hashed_members(3)]
      no_collision [OF nc hashed_members(5) hashed_members(5)] wfa(4) wfb(4) bodies(5)]
    topology_inj [OF oka(6) okb(6) bodies(6) no_collision [OF nc subsetD [OF hashed_members(6)] subsetD [OF hashed_members(6)]]]
  have "span_bytes (sp_exact_preimage (the (supplement_of a i))) = span_bytes (sp_exact_preimage (the (supplement_of b i)))"
    if "i < 16" "\<not> is_derived_component i" for i
    using body [OF that(1)] that(2) by (simp add: component_body_def is_derived_iff)
  then have supplements: "map (\<lambda>i. span_bytes (sp_exact_preimage (the (supplement_of a i)))) (filter (\<lambda>i. \<not> is_derived_component i) [0..<16]) =
      map (\<lambda>i. span_bytes (sp_exact_preimage (the (supplement_of b i)))) (filter (\<lambda>i. \<not> is_derived_component i) [0..<16])"
    by (intro map_cong refl) (simp del: upt_rec_numeral)
  show ?thesis unfolding facts_def Let_def by (simp only: same supplements)
qed

text \<open>
  C14: The root of a live authority binds its facts. No two well-formed inputs whose authorities are
  built with the same root differ in a fact (a shard, a metadata entry, a tensor, a token, a merge, a
  template, the source tree, an artifact, an option, a plan, a rank or a supplement), unless two of
  the messages that were hashed for them are different and have the same SHA-256 digest.
\<close>
theorem authority_root_binds:
  "\<not> (wf_inputs a \<and> wf_inputs b \<and>
     lr_status (context_store_build_live_authority a v throws) = live_built \<and>
     lr_status (context_store_build_live_authority b w throws') = live_built \<and>
     live_root (context_store_build_live_authority a v throws) = live_root (context_store_build_live_authority b w throws') \<and>
     facts a \<noteq> facts b \<and> \<not> collide (hashed_messages a) (hashed_messages b))"
proof
  assume asm: "wf_inputs a \<and> wf_inputs b \<and>
     lr_status (context_store_build_live_authority a v throws) = live_built \<and>
     lr_status (context_store_build_live_authority b w throws') = live_built \<and>
     live_root (context_store_build_live_authority a v throws) = live_root (context_store_build_live_authority b w throws') \<and>
     facts a \<noteq> facts b \<and> \<not> collide (hashed_messages a) (hashed_messages b)"
  then have built: "lr_status (context_store_build_live_authority a v throws) = live_built"
     "lr_status (context_store_build_live_authority b w throws') = live_built" by simp_all
  note fa = live_built_facts [OF built(1)] and fb = live_built_facts [OF built(2)]
  have "sha256 (compatibility_domain @ compatibility_bytes (component_digests a)) =
      sha256 (compatibility_domain @ compatibility_bytes (component_digests b))"
    using asm fa(3) fb(3) by (simp add: live_root_def component_digests_def)
  then have "facts a = facts b"
    using asm fa(1) fb(1) by (intro same_bodies_same_facts same_root_same_bodies) auto
  then show False using asm by simp
qed

end
