(* ===== verification/Live_Utf8.thy ===== *)
theory Live_Utf8
  imports Live_Hash Utf8
begin

text \<open>
  The repository checks UTF-8 twice, in different styles: the manifest parser by ranges of bytes
  (\<^verbatim>\<open>valid_utf8_without_nul\<close>), the live authority builder by decoding the code point
  (\<^verbatim>\<open>live_valid_utf8\<close>). They accept the same texts.
\<close>

lemma low_bits: "unat (take_bit k (b :: byte)) = unat b mod 2 ^ k"
  by (simp only: unsigned_take_bit_eq) (simp only: take_bit_eq_mod)

lemma byte_high_bits:
  fixes b :: byte
  assumes "k \<le> 8"
  shows "unat (b AND NOT (mask k)) = unat b div 2 ^ k * 2 ^ k"
proof -
  have "b AND NOT (mask k) = push_bit k (drop_bit k b)"
    by (rule bit_word_eqI) (auto simp: bit_simps)
  moreover have "push_bit k (drop_bit k b) = b - take_bit k b"
    using bits_ident [of k b] by (simp add: eq_diff_eq)
  moreover have low: "unat (take_bit k b) = unat b mod 2 ^ k" by (rule low_bits)
  then have "take_bit k b \<le> b" by (simp add: word_le_nat_alt)
  ultimately show ?thesis using low by (simp add: unat_sub minus_mod_eq_div_mult)
qed

lemma byte_masks:
  fixes b :: byte
  shows "b AND 0xc0 = 0x80 \<longleftrightarrow> unat b div 64 = 2" "b AND 0xe0 = 0xc0 \<longleftrightarrow> unat b div 32 = 6"
    "b AND 0xf0 = 0xe0 \<longleftrightarrow> unat b div 16 = 14" "b AND 0xf8 = 0xf0 \<longleftrightarrow> unat b div 8 = 30"
    "unat (b AND 0x3f) = unat b mod 64" "unat (b AND 0x1f) = unat b mod 32" "unat (b AND 0x0f) = unat b mod 16" "unat (b AND 0x07) = unat b mod 8"
proof -
  have n: "NOT (mask 6) = (0xc0 :: byte)" "NOT (mask 5) = (0xe0 :: byte)" "NOT (mask 4) = (0xf0 :: byte)" "NOT (mask 3) = (0xf8 :: byte)"
    by (simp_all add: mask_eq_exp_minus_1)
  show "b AND 0xc0 = 0x80 \<longleftrightarrow> unat b div 64 = 2" "b AND 0xe0 = 0xc0 \<longleftrightarrow> unat b div 32 = 6"
    "b AND 0xf0 = 0xe0 \<longleftrightarrow> unat b div 16 = 14" "b AND 0xf8 = 0xf0 \<longleftrightarrow> unat b div 8 = 30"
    using byte_high_bits [of 6 b] byte_high_bits [of 5 b] byte_high_bits [of 4 b] byte_high_bits [of 3 b]
    by (auto simp: n word_unat_eq_iff)
  have m: "mask 6 = (0x3f :: byte)" "mask 5 = (0x1f :: byte)" "mask 4 = (0x0f :: byte)" "mask 3 = (0x07 :: byte)"
    by (simp_all add: mask_eq_exp_minus_1)
  have low: "unat (b AND mask k) = unat b mod 2 ^ k" for k
    using low_bits by (simp add: take_bit_eq_mask)
  show "unat (b AND 0x3f) = unat b mod 64" "unat (b AND 0x1f) = unat b mod 32" "unat (b AND 0x0f) = unat b mod 16" "unat (b AND 0x07) = unat b mod 8"
    using low [of 6] low [of 5] low [of 4] low [of 3] by (simp_all add: m)
qed

lemma continuation_value:
  fixes v :: u32 and b :: byte
  assumes "unat v < 2 ^ 20"
  shows "unat (push_bit 6 v OR ucast (b AND 0x3f)) = 64 * unat v + unat b mod 64"
proof -
  have low: "unat (ucast (b AND 0x3f) :: u32) = unat b mod 64"
    by (simp add: unsigned_ucast_eq byte_masks take_bit_eq_mod)
  have "b AND 0x3f = take_bit 6 b" by (simp add: take_bit_eq_mask mask_eq_exp_minus_1)
  then have "push_bit 6 v AND ucast (b AND 0x3f) = 0"
    by (intro bit_word_eqI) (auto simp: bit_simps)
  then have "push_bit 6 v OR ucast (b AND 0x3f) = 64 * v + ucast (b AND 0x3f)"
    using disjunctive_add_eq_or [of "push_bit 6 v" "ucast (b AND 0x3f)"] by (simp add: push_bit_eq_mult mult.commute)
  then show ?thesis using assms low by (simp add: unat_word_ariths)
qed

lemma byte_order: "(a :: byte) < b \<longleftrightarrow> unat a < unat b" "a \<le> b \<longleftrightarrow> unat a \<le> unat b" "a = b \<longleftrightarrow> unat a = unat b"
  by (simp_all add: word_less_nat_alt word_le_nat_alt word_unat_eq_iff)

lemma code_order: "(a :: u32) < b \<longleftrightarrow> unat a < unat b" "a \<le> b \<longleftrightarrow> unat a \<le> unat b"
  by (simp_all add: word_less_nat_alt word_le_nat_alt)

lemma div_range: "0 < k \<Longrightarrow> n div k = q \<longleftrightarrow> k * q \<le> n \<and> n < k * q + (k :: nat)"
  using dividend_less_times_div [of k n] times_div_less_eq_dividend [of k n] div_nat_eqI [of k q n] by (auto simp: algebra_simps)

definition continuation :: "byte \<Rightarrow> bool" where
  "continuation b \<longleftrightarrow> 0x80 \<le> b \<and> b \<le> 0xbf"

lemma continuation_mask: "b AND 0xc0 \<noteq> 0x80 \<longleftrightarrow> \<not> continuation b"
  using byte_masks(1) [of b] div_range [of 64 "unat b" 2] by (auto simp: continuation_def byte_order(2))

definition next_value :: "u32 \<Rightarrow> byte \<Rightarrow> u32" where
  "next_value v b = push_bit 6 v OR ucast (b AND 0x3f)"

lemma continuation_step:
  "utf8_continuation (Suc n) v (b # bs) =
     (if continuation b then utf8_continuation n (next_value v b) bs else None)"
  unfolding utf8_continuation.simps continuation_mask next_value_def by simp

lemma continuation_steps:
  "utf8_continuation (Suc 0) v [] = None" "utf8_continuation 2 v [] = None" "utf8_continuation 3 v [] = None"
  "utf8_continuation 2 v [b] = None" "utf8_continuation 3 v [b] = None" "utf8_continuation 3 v [b, c] = None"
  "utf8_continuation (Suc 0) v (b # r) = (if continuation b then Some (next_value v b, r) else None)"
  "utf8_continuation 2 v (b # c # r) =
     (if continuation b \<and> continuation c then Some (next_value (next_value v b) c, r) else None)"
  "utf8_continuation 3 v (b # c # d # r) =
     (if continuation b \<and> continuation c \<and> continuation d
      then Some (next_value (next_value (next_value v b) c) d, r) else None)"
proof -
  have n: "(2 :: nat) = Suc (Suc 0)" "(3 :: nat) = Suc (Suc (Suc 0))" by simp_all
  show "utf8_continuation (Suc 0) v [] = None" "utf8_continuation 2 v [] = None" "utf8_continuation 3 v [] = None"
    "utf8_continuation 2 v [b] = None" "utf8_continuation 3 v [b] = None" "utf8_continuation 3 v [b, c] = None"
    "utf8_continuation (Suc 0) v (b # r) = (if continuation b then Some (next_value v b, r) else None)"
    "utf8_continuation 2 v (b # c # r) =
       (if continuation b \<and> continuation c then Some (next_value (next_value v b) c, r) else None)"
    "utf8_continuation 3 v (b # c # d # r) =
       (if continuation b \<and> continuation c \<and> continuation d
        then Some (next_value (next_value (next_value v b) c) d, r) else None)"
    unfolding n continuation_step by simp_all
qed

lemma next_value_unat: "unat v < 2 ^ 20 \<Longrightarrow> unat (next_value v b) = 64 * unat v + unat b mod 64"
  unfolding next_value_def by (rule continuation_value)

definition scalar_ok :: "u32 \<Rightarrow> u32 \<Rightarrow> bool" where
  "scalar_ok minimum value \<longleftrightarrow> \<not> (value < minimum \<or> 0x10ffff < value \<or> (0xd800 \<le> value \<and> value \<le> 0xdfff))"

lemma live_utf8_step:
  "live_valid_utf8 (first # rest) =
     (if first = 0 then False
      else if first < 0x80 then live_valid_utf8 rest
      else case utf8_lead first of
        None \<Rightarrow> False
      | Some (n, value, minimum) \<Rightarrow>
          (case utf8_continuation n value rest of
            None \<Rightarrow> False
          | Some (value, rest1) \<Rightarrow> scalar_ok minimum value \<and> live_valid_utf8 rest1))"
proof -
  have short: "length bs < n \<Longrightarrow> utf8_continuation n v bs = None" for n v bs
    by (induction n v bs rule: utf8_continuation.induct) auto
  show ?thesis
    by (cases "utf8_lead first") (auto simp: scalar_ok_def short not_le split: option.splits)
qed

declare live_valid_utf8.simps(2) [simp del] utf8_continuation.simps(2,3) [simp del]

lemma lead_cases:
  "utf8_lead first =
     (if unat first div 32 = 6 then Some (1, ucast (first AND 0x1f), 0x80)
      else if unat first div 16 = 14 then Some (2, ucast (first AND 0x0f), 0x800)
      else if unat first div 8 = 30 then Some (3, ucast (first AND 0x07), 0x10000)
      else None)"
  by (simp add: utf8_lead_def byte_masks)

lemma lead_values:
  "unat (ucast (first AND 0x1f) :: u32) = unat (first :: byte) mod 32" "unat (ucast (first AND 0x0f) :: u32) = unat first mod 16"
  "unat (ucast (first AND 0x07) :: u32) = unat first mod 8"
  by (simp_all add: unsigned_ucast_eq byte_masks take_bit_eq_mod)

lemma continuation_digit: "continuation b \<Longrightarrow> unat b = 128 + unat b mod 64"
proof -
  assume "continuation b"
  then have "unat b div 64 = 2" using div_range [of 64 "unat b" 2] by (simp add: continuation_def byte_order(2))
  then show ?thesis using mult_div_mod_eq [of 64 "unat b"] by simp
qed

lemma step_one:
  assumes "unat (a :: byte) div 32 = 6"
  shows "scalar_ok 0x80 (next_value (ucast (a AND 0x1f)) b) \<longleftrightarrow> 0xc2 \<le> a"
proof -
  have a: "unat a = 192 + unat a mod 32" using assms mult_div_mod_eq [of 32 "unat a"] by simp
  have v: "unat (next_value (ucast (a AND 0x1f)) b) = 64 * (unat a mod 32) + unat b mod 64"
    using mod_less_divisor [of 32 "unat a"] by (subst next_value_unat) (simp_all add: lead_values)
  show ?thesis
    using a mod_less_divisor [of 64 "unat b"] mod_less_divisor [of 32 "unat a"]
    unfolding scalar_ok_def code_order byte_order v by (simp; linarith)
qed

lemma range_two:
  fixes x y z :: nat
  assumes "x < 16" "y < 64" "z < 64"
  shows "\<not> (64 * (64 * x + y) + z < 2048 \<or> 1114111 < 64 * (64 * x + y) + z \<or>
      (55296 \<le> 64 * (64 * x + y) + z \<and> 64 * (64 * x + y) + z \<le> 57343)) \<longleftrightarrow>
    (x = 0 \<longrightarrow> 32 \<le> y) \<and> (x = 13 \<longrightarrow> y \<le> 31)"
proof -
  consider "x = 0" | "0 < x" "x < 13" | "x = 13" | "13 < x" by linarith
  then show ?thesis using assms by cases (simp; linarith)+
qed

lemma range_three:
  fixes x y z w :: nat
  assumes "x < 8" "y < 64" "z < 64" "w < 64"
  shows "\<not> (64 * (64 * (64 * x + y) + z) + w < 65536 \<or> 1114111 < 64 * (64 * (64 * x + y) + z) + w \<or>
      (55296 \<le> 64 * (64 * (64 * x + y) + z) + w \<and> 64 * (64 * (64 * x + y) + z) + w \<le> 57343)) \<longleftrightarrow>
    x \<le> 4 \<and> (x = 0 \<longrightarrow> 16 \<le> y) \<and> (x = 4 \<longrightarrow> y \<le> 15)"
proof -
  consider "x = 0" | "0 < x" "x < 4" | "x = 4" | "4 < x" by linarith
  then show ?thesis using assms by cases (simp; linarith)+
qed

lemma step_two:
  assumes "unat (a :: byte) div 16 = 14" "continuation b"
  shows "scalar_ok 0x800 (next_value (next_value (ucast (a AND 0x0f)) b) c) \<longleftrightarrow>
    (a = 0xe0 \<longrightarrow> 0xa0 \<le> b) \<and> (a = 0xed \<longrightarrow> b \<le> 0x9f)"
proof -
  have a: "unat a = 224 + unat a mod 16" using assms(1) mult_div_mod_eq [of 16 "unat a"] by simp
  have v1: "unat (next_value (ucast (a AND 0x0f)) b) = 64 * (unat a mod 16) + unat b mod 64"
    using mod_less_divisor [of 16 "unat a"] by (subst next_value_unat) (simp_all add: lead_values)
  have v: "unat (next_value (next_value (ucast (a AND 0x0f)) b) c) = 64 * (64 * (unat a mod 16) + unat b mod 64) + unat c mod 64"
    using mod_less_divisor [of 16 "unat a"] mod_less_divisor [of 64 "unat b"] by (subst next_value_unat) (simp_all add: v1)
  define x y z where "x = unat a mod 16" "y = unat b mod 64" "z = unat c mod 64"
  then have "unat a = 224 + x" "unat b = 128 + y" "x < 16" "y < 64" "z < 64"
    using a continuation_digit [OF assms(2)] by simp_all
  moreover note v [folded x_y_z_def]
  ultimately show ?thesis using range_two [of x y z] by (simp add: scalar_ok_def code_order byte_order(2,3))
qed

lemma step_three:
  assumes "unat (a :: byte) div 8 = 30" "continuation b"
  shows "scalar_ok 0x10000 (next_value (next_value (next_value (ucast (a AND 0x07)) b) c) d) \<longleftrightarrow>
    a \<le> 0xf4 \<and> (a = 0xf0 \<longrightarrow> 0x90 \<le> b) \<and> (a = 0xf4 \<longrightarrow> b \<le> 0x8f)"
proof -
  have a: "unat a = 240 + unat a mod 8" using assms(1) mult_div_mod_eq [of 8 "unat a"] by simp
  have v1: "unat (next_value (ucast (a AND 0x07)) b) = 64 * (unat a mod 8) + unat b mod 64"
    using mod_less_divisor [of 8 "unat a"] by (subst next_value_unat) (simp_all add: lead_values)
  have v2: "unat (next_value (next_value (ucast (a AND 0x07)) b) c) = 64 * (64 * (unat a mod 8) + unat b mod 64) + unat c mod 64"
    using mod_less_divisor [of 8 "unat a"] mod_less_divisor [of 64 "unat b"] by (subst next_value_unat) (simp_all add: v1)
  have v: "unat (next_value (next_value (next_value (ucast (a AND 0x07)) b) c) d) =
      64 * (64 * (64 * (unat a mod 8) + unat b mod 64) + unat c mod 64) + unat d mod 64"
    using mod_less_divisor [of 8 "unat a"] mod_less_divisor [of 64 "unat b"] mod_less_divisor [of 64 "unat c"]
    by (subst next_value_unat) (simp_all add: v2)
  define x y z w where "x = unat a mod 8" "y = unat b mod 64" "z = unat c mod 64" "w = unat d mod 64"
  then have "unat a = 240 + x" "unat b = 128 + y" "x < 8" "y < 64" "z < 64" "w < 64"
    using a continuation_digit [OF assms(2)] by simp_all
  moreover note v [folded x_y_z_w_def]
  ultimately show ?thesis using range_three [of x y z w] by (simp add: scalar_ok_def code_order byte_order(2,3))
qed

lemma lead_ranges:
  "unat (a :: byte) div 32 = 6 \<longleftrightarrow> 0xc0 \<le> a \<and> a \<le> 0xdf" "unat a div 16 = 14 \<longleftrightarrow> 0xe0 \<le> a \<and> a \<le> 0xef"
  "unat a div 8 = 30 \<longleftrightarrow> 0xf0 \<le> a \<and> a \<le> 0xf7"
  using div_range [of 32 "unat a" 6] div_range [of 16 "unat a" 14] div_range [of 8 "unat a" 30]
  by (auto simp: byte_order(2))

lemma utf8_by_lead:
  "live_valid_utf8 (a # rest) = valid_utf8_without_nul (a # rest)"
  if tail: "\<And>r. length r \<le> length rest \<Longrightarrow> live_valid_utf8 r = valid_utf8_without_nul r"
proof -
  consider (one) "a < 0x80" | (bad) "0x80 \<le> a" "a < 0xc0" | (two) "0xc0 \<le> a" "a \<le> 0xdf"
    | (three) "0xe0 \<le> a" "a \<le> 0xef" | (four) "0xf0 \<le> a" "a \<le> 0xf7" | (high) "0xf8 \<le> a"
    unfolding byte_order(1,2) by simp linarith
  then show ?thesis
  proof cases
    case one
    then have "a \<le> 0x7f" by (simp add: byte_order(1,2))
    with one show ?thesis using tail [of rest] by (simp add: live_utf8_step)
  next
    case bad
    then have "utf8_lead a = None" "\<not> a \<le> 0x7f" "\<not> 0xc2 \<le> a" "\<not> 0xe0 \<le> a" "\<not> 0xf0 \<le> a" "\<not> a < 0x80"
      unfolding lead_cases lead_ranges by (simp_all add: byte_order(1,2))
    then show ?thesis by (simp add: live_utf8_step)
  next
    case high
    then have "utf8_lead a = None" "\<not> a \<le> 0x7f" "\<not> a \<le> 0xdf" "\<not> a \<le> 0xef" "\<not> a \<le> 0xf4" "\<not> a < 0x80"
      unfolding lead_cases lead_ranges by (simp_all add: byte_order(1,2))
    then show ?thesis by (simp add: live_utf8_step)
  next
    case two
    then have l: "utf8_lead a = Some (1, ucast (a AND 0x1f), 0x80)" "a \<noteq> 0" "\<not> a \<le> 0x7f" "\<not> a < 0x80"
      "\<not> 0xe0 \<le> a" "\<not> 0xf0 \<le> a" "unat a div 32 = 6"
      unfolding lead_cases lead_ranges by (simp_all add: byte_order)
    then show ?thesis
      using two(2) step_one [OF l(7)] tail by (cases rest) (auto simp: live_utf8_step continuation_steps continuation_def not_less)
  next
    case three
    then have l: "utf8_lead a = Some (2, ucast (a AND 0x0f), 0x800)" "a \<noteq> 0" "\<not> a \<le> 0x7f" "\<not> a < 0x80"
      "\<not> a \<le> 0xdf" "\<not> 0xf0 \<le> a" "unat a div 16 = 14"
      unfolding lead_cases lead_ranges by (simp_all add: byte_order)
    show ?thesis
    proof (cases rest rule: remdups_adj.cases)
      case (3 b c r)
      have "live_valid_utf8 (a # b # c # r) \<longleftrightarrow> continuation b \<and> continuation c \<and>
          (a = 0xe0 \<longrightarrow> 0xa0 \<le> b) \<and> (a = 0xed \<longrightarrow> b \<le> 0x9f) \<and> live_valid_utf8 r"
        using l step_two [OF l(7)] by (auto simp: live_utf8_step continuation_steps)
      moreover have "valid_utf8_without_nul (a # b # c # r) \<longleftrightarrow> continuation b \<and> continuation c \<and>
          (a = 0xe0 \<longrightarrow> 0xa0 \<le> b) \<and> (a = 0xed \<longrightarrow> b \<le> 0x9f) \<and> valid_utf8_without_nul r"
        using l three by (auto simp: in_range_def continuation_def byte_order(1,2))
      ultimately show ?thesis using tail [of r] 3 by simp
    qed (use l in \<open>auto simp: live_utf8_step continuation_steps\<close>)
  next
    case four
    then have l: "utf8_lead a = Some (3, ucast (a AND 0x07), 0x10000)" "a \<noteq> 0" "\<not> a \<le> 0x7f" "\<not> a < 0x80"
      "\<not> a \<le> 0xdf" "\<not> a \<le> 0xef" "unat a div 8 = 30"
      unfolding lead_cases lead_ranges by (simp_all add: byte_order)
    show ?thesis
    proof (cases rest rule: remdups_adj.cases)
      case (3 b c r2)
      show ?thesis
      proof (cases r2)
        case (Cons d r)
        have "live_valid_utf8 (a # b # c # d # r) \<longleftrightarrow> continuation b \<and> continuation c \<and> continuation d \<and>
            a \<le> 0xf4 \<and> (a = 0xf0 \<longrightarrow> 0x90 \<le> b) \<and> (a = 0xf4 \<longrightarrow> b \<le> 0x8f) \<and> live_valid_utf8 r"
          using l step_three [OF l(7)] by (auto simp: live_utf8_step continuation_steps)
        moreover have "valid_utf8_without_nul (a # b # c # d # r) \<longleftrightarrow> continuation b \<and> continuation c \<and> continuation d \<and>
            a \<le> 0xf4 \<and> (a = 0xf0 \<longrightarrow> 0x90 \<le> b) \<and> (a = 0xf4 \<longrightarrow> b \<le> 0x8f) \<and> valid_utf8_without_nul r"
          using l four by (auto simp: in_range_def continuation_def byte_order(1,2))
        ultimately show ?thesis using tail [of r] 3 Cons by simp
      qed (use 3 l in \<open>auto simp: live_utf8_step continuation_steps\<close>)
    qed (use l in \<open>auto simp: live_utf8_step continuation_steps\<close>)
  qed
qed

text \<open>
  C33: One UTF-8 in the store. The live authority decodes code points, the manifest parser compares
  ranges of bytes; on every byte string, overlong forms, surrogates, values beyond U+10FFFF and
  truncated sequences included, both accept exactly the encodings of sequences of Unicode scalar
  values other than NUL, so a text that an authority binds is one a manifest can carry.
\<close>
theorem utf8_checks_agree:
  "live_valid_utf8 bs = utf8_text bs \<and> valid_utf8_without_nul bs = utf8_text bs"
proof -
  have "live_valid_utf8 bs = valid_utf8_without_nul bs"
  proof (induction bs rule: length_induct)
    case (1 bs)
    then show ?case by (cases bs) (simp, simp only: list.size less_Suc_eq_le add_Suc_right add_0_right utf8_by_lead)
  qed
  then show ?thesis by (simp add: valid_utf8_exact)
qed

end
