(* ===== verification/Spec2Isabelle.thy ===== *)
theory Spec2Isabelle
  imports Utf8 Object Simulator Scope Two_Rank Attempt_Wire Prefix_Lookup Live_Binding Live_Utf8
begin

text \<open>
  \<^bold>\<open>The HaloFPX context store\<close>

  HaloFPX keeps the key/value state of language-model contexts on disk so that a later
  request can restore it. What a restore trusts is fixed by a chain: an operator's \<^emph>\<open>anchor\<close>,
  signed with a key of the deployment, selects one \<^emph>\<open>manifest\<close> by digest; the manifest is a
  canonical CBOR map carrying its own tag and the digests of its \<^emph>\<open>objects\<close>; an object is a
  framed byte string that must hash to the id the manifest gives it. A \<^emph>\<open>publication writer\<close>
  moves the store from one anchor to the next through a storage backend; a \<^emph>\<open>simulator\<close> is
  that backend with fault injection, crashes and recovery; the \<^emph>\<open>scope\<close> of a tenant is a keyed
  digest of its identity; an \<^emph>\<open>exact session\<close> identifies one token sequence on one rank; the
  \<^emph>\<open>prefix selector\<close> restores the longest stored prefix of a request through the catalogue; the
  \<^emph>\<open>state transformer\<close> moves bytes between snapshots and live contexts; a \<^emph>\<open>two-rank
  coordinator\<close> captures and restores a context that is split over two processes. What a context
  is compatible with is a root over sixteen component digests: the \<^emph>\<open>live authority\<close> derives it
  from the exact bytes of the model, tokenizer, template, build and topology in use. The sources
  are \<^verbatim>\<open>tools/server/halofpx-context-store*.{h,cpp}\<close>, and
  \<^verbatim>\<open>examples/gguf-hash/deps/sha256/sha256.c\<close>, on which every digest rests.

  \<^bold>\<open>Theories, in the order of their imports\<close>

  \<^item> \<^verbatim>\<open>HaloFPX_Prelude\<close>: bytes, words and digests; big-endian conversions; spans (a pointer
    with a size, null included); \<^verbatim>\<open>nonzero\<close>; the option and list lemmas the components share.
  \<^item> \<^verbatim>\<open>Sha256\<close> (\<^verbatim>\<open>sha256.c\<close>): the buffered implementation on 32-bit words and its equality with
    the FIPS 180-4 definition. The byte counter is a 64-bit word, as in the source.
  \<^item> \<^verbatim>\<open>Cbor\<close>: readers and writers over byte lists with their contracts (a reader accepts exactly
    the encodings of a writer); the contract of a CBOR head reader is the locale \<^verbatim>\<open>head_reader\<close>,
    interpreted for the cursors of \<^verbatim>\<open>Format\<close> and \<^verbatim>\<open>Anchor\<close>, that of a head writer the locale
    \<^verbatim>\<open>encoder\<close>, interpreted for \<^verbatim>\<open>Anchor\<close>, \<^verbatim>\<open>Scope\<close> and \<^verbatim>\<open>Attempt_Wire\<close>.
  \<^item> \<^verbatim>\<open>Format\<close> (\<^verbatim>\<open>format.cpp\<close>): the cursor with its sticky status and offset and the parser of
    manifests, equal to the inverse of a canonical encoder. \<^verbatim>\<open>Utf8\<close>: its identifier check.
  \<^item> \<^verbatim>\<open>Auth\<close> (\<^verbatim>\<open>auth.cpp\<close>): bounded hashing of spans, HMAC, key derivation and the manifest
    verifier: an ordered verdict and the exact set of accepted byte strings.
  \<^item> \<^verbatim>\<open>Anchor\<close> (\<^verbatim>\<open>anchor.cpp\<close>): encoder and verifier of anchors; one accepted byte string per
    policy, a round trip, rollback detection.
  \<^item> \<^verbatim>\<open>Object\<close> (\<^verbatim>\<open>object.cpp\<close>): verification of an object frame against a verified manifest.
  \<^item> \<^verbatim>\<open>Publication\<close> (\<^verbatim>\<open>publication.cpp\<close>): \<^verbatim>\<open>publish\<close> as state passing over an abstract backend
    (a call may reply or throw), the catch block included; it refines a script of calls with
    a judge of replies. The locale \<^verbatim>\<open>evidence_backend\<close> states what a backend must preserve for
    the writer to be safe.
  \<^item> \<^verbatim>\<open>Simulator\<close> (\<^verbatim>\<open>publication-simulator.cpp\<close>): the backend with failpoints, traces, crashes
    and recovery, an interpretation of that locale, also when the process dies after any
    number of calls; crash atomicity, durability, replay and liveness over reachable states.
  \<^item> \<^verbatim>\<open>Scope\<close> (\<^verbatim>\<open>scope.cpp\<close>): namespace derivation inside a fixed array, and tenant isolation.
  \<^item> \<^verbatim>\<open>Two_Rank\<close> (\<^verbatim>\<open>two-rank-contract.cpp\<close>): the coordinator over arbitrary providers.
  \<^item> \<^verbatim>\<open>Attempt_Wire\<close> (\<^verbatim>\<open>v1-attempt-wire.cpp\<close>): the signed records that open and close an attempt;
    exactness, round trip, no confusion between kinds, statuses and bodies.
  \<^item> \<^verbatim>\<open>Exact_Session\<close> (\<^verbatim>\<open>exact-session.cpp\<close>): the streaming HMAC, the checks and the identifier;
    the preimage determines the session.
  \<^item> \<^verbatim>\<open>Provider\<close> (\<^verbatim>\<open>halofpx-context-store.cpp\<close>): lookup results under construction, moves and
    destruction as a step relation; the locale \<^verbatim>\<open>result_provider\<close> and the disabled provider.
  \<^item> \<^verbatim>\<open>Read_Only\<close> (\<^verbatim>\<open>v1-read-only.cpp\<close>): the memory-only provider, a second interpretation of that
    locale: what a lookup serves, down to the payload bytes of the candidate.
  \<^item> \<^verbatim>\<open>State_Transformer\<close> (\<^verbatim>\<open>state-transformer-v1.cpp\<close>): capture and restore over an abstract state
    interface, with the exceptions an allocation can raise.
  \<^item> \<^verbatim>\<open>Prefix_Selector\<close> (\<^verbatim>\<open>v1-prefix-selector.cpp\<close>): the search over an arbitrary catalogue; what a
    hit means, what ends the search, and that a stored checkpoint is found.
  \<^item> \<^verbatim>\<open>Transformer_Codec\<close> (\<^verbatim>\<open>v1-transformer-codec.cpp\<close>): a snapshot as two frames under a signed
    manifest; exactly when encoding succeeds, what the decoder and the inspection accept, and
    the round trip encode, serve, decode through \<^verbatim>\<open>Read_Only\<close> and the verifiers.
  \<^item> \<^verbatim>\<open>Catalog_Record\<close>, \<^verbatim>\<open>Catalog\<close>, \<^verbatim>\<open>Catalog_Publish\<close>, \<^verbatim>\<open>Catalog_Discovery\<close> (\<^verbatim>\<open>v1-catalog.cpp\<close>): the
    authenticated records of the catalogue, the directory as the kernel shows it (interrupted and
    partial transfers included), the exact lookup, publication and the discovery of stored
    lengths over arbitrary slots; the abstract state is the view of each slot (vacant, broken,
    unfinished, sealed) and the verdict over all of them. A publication changes one vacant slot at
    most; an acknowledged one is found again, with the exception the theorem states.
  \<^item> \<^verbatim>\<open>Compatibility\<close> (\<^verbatim>\<open>compatibility-v1.cpp\<close>): the builder of compatibility roots against its
    specification, error statuses in their order.
  \<^item> \<^verbatim>\<open>Live_Hash\<close>, \<^verbatim>\<open>Live_Authority\<close> (\<^verbatim>\<open>live-authority-v1.cpp\<close>): the lower half (borrowed arrays
    with null pointers, text checks, the bounded hash accumulator, the CBOR writer over it, typed
    values, the canonical order) and the upper half (the six builders, the supplements, the
    expectation). \<^verbatim>\<open>Live_Hash\<close> has a calculus of what a step of the writer hashes and the locale
    \<^verbatim>\<open>keyed_order\<close> of comparators, whose sort depends on the multiset only. \<^verbatim>\<open>Live_Components\<close>:
    each builder against its specification (when it accepts, and the message it digests).
    \<^verbatim>\<open>Live_Facts\<close>: tensor ranges, the expectation, independence of the discovery order.
    \<^verbatim>\<open>Live_Binding\<close>: equal roots mean equal facts, or a collision. \<^verbatim>\<open>Live_Utf8\<close>: the decoder of
    this source, the byte ranges of \<^verbatim>\<open>format.cpp\<close> and the encoding of scalar values agree.
    The supplement validator, an interface the caller implements, and whether a vector
    allocation throws are parameters; \<^verbatim>\<open>std::sort\<close> is an insertion sort by the same comparator:
    keys that compare equal are refused by the loop after each sort, so its order does not matter.
  \<^item> \<^verbatim>\<open>Prefix_Product\<close>, \<^verbatim>\<open>Prefix_Lookup\<close> (\<^verbatim>\<open>world1-prefix-product-v1.cpp\<close>): the lookup a server makes,
    composed of discovery, selector and exact lookup, and its install into a live context: the
    longest stored prefix is found, a hit is accepted by an install, and an install touches the
    context for the right hit only and at most once.

  \<^bold>\<open>Conventions\<close>

  Integers keep their width as words; \<^verbatim>\<open>size_t\<close> values that only count bytes in memory are
  naturals. A C++ status with early returns is a record with the status the source sets, or
  a sum. Fixed arrays are written through bounded writers that return \<^verbatim>\<open>None\<close> on overflow, and
  the theorems show that this never happens. Exceptions are replies of the abstract backend.
  All functions are total and no fuel is used: every loop of the sources runs over a list, an
  index, a byte count or the replies of the kernel. Collision resistance is never assumed: where it matters the
  statement exhibits the colliding messages as the alternative.

  \<^bold>\<open>Not modelled\<close>

  Wiping of secrets and constant time (no functional result); the Linux adapters (system
  calls) and what is built on their descriptors: the opening of a catalogue, the server canary
  that implements a slot of it, the installed authority, and the authority, bootstrap and registry
  sources of the laboratory deployments; the llama.cpp server, library and tensor backends the store is linked into.
\<close>

end
